(* ===== verification/C_Prelude.thy ===== *)
theory C_Prelude
  imports Main "HOL-Library.Word" "HOL-Library.Monad_Syntax"
begin

unbundle bit_operations_syntax

text \<open>
  Shared vocabulary of the development: the C types the programs use, C strings and byte
  order, and doubly linked chains in a heap.

  \<^item> \<open>byte\<close>, \<open>u16\<close>, \<open>u32\<close>, \<open>u64\<close> are the unsigned machine integers; their arithmetic wraps.
  \<^item> Addresses are natural numbers and \<open>0\<close> is \<^verbatim>\<open>NULL\<close>.
  \<^item> An operation whose C text could dereference \<^verbatim>\<open>NULL\<close>, a freed block or an element outside
    an array has type \<open>'a option\<close>: \<open>None\<close> is that undefined behaviour, so that
    \<open>op \<dots> = Some r\<close> states that the operation is memory safe and returns \<open>r\<close>.
  \<^item> \<open>dchain\<close> describes the nodes of a doubly linked list in a heap. It is shared by the list
    library, by the chunk list of the allocator and by the directory list of the file
    manager, which all keep \<open>next\<close>/\<open>prev\<close> pointers in the node.
\<close>

section \<open>Types\<close>

type_synonym byte = "8 word"
type_synonym u16 = "16 word"
type_synonym u32 = "32 word"
type_synonym u64 = "64 word"
type_synonym addr = nat

abbreviation (input) NULL :: addr where
  "NULL \<equiv> 0"

named_theorems chain_simps \<open>segments of doubly linked chains\<close>
named_theorems mem_defs \<open>definitions of the heap operations, for unfolding\<close>

section \<open>Results of memory-safe operations\<close>

text \<open>
  \<open>returns e P\<close>: the operation \<open>e\<close> has no undefined behaviour, comes back with a result \<open>r\<close> and
  a state \<open>m\<close>, and \<open>P r m\<close> holds. \<open>yields\<close> is the same for an operation without a result.
\<close>

definition returns :: "('r \<times> 'm) option \<Rightarrow> ('r \<Rightarrow> 'm \<Rightarrow> bool) \<Rightarrow> bool" where
  "returns e P = (case e of None \<Rightarrow> False | Some (r, m) \<Rightarrow> P r m)"

definition yields :: "'m option \<Rightarrow> ('m \<Rightarrow> bool) \<Rightarrow> bool" where
  "yields e P = (case e of None \<Rightarrow> False | Some m \<Rightarrow> P m)"

lemma returns_simps [simp]: "\<not> returns None P" "returns (Some (r, m)) P = P r m"
  by (auto simp: returns_def)

lemma yields_simps [simp]: "\<not> yields None P" "yields (Some m) P = P m"
  by (auto simp: yields_def)

lemma returnsE:
  assumes "returns e P"
  obtains r m where "e = Some (r, m)" "P r m"
  using assms by (auto simp: returns_def split: option.splits)

lemma yieldsE:
  assumes "yields e P"
  obtains m where "e = Some m" "P m"
  using assms by (auto simp: yields_def split: option.splits)

lemma returns_mono: "returns e P \<Longrightarrow> (\<And>r m. P r m \<Longrightarrow> Q r m) \<Longrightarrow> returns e Q"
  by (auto elim: returnsE)

lemma returns_bind:
  "returns e P \<Longrightarrow> (\<And>r m. P r m \<Longrightarrow> returns (f r m) Q) \<Longrightarrow> returns (Option.bind e (\<lambda>(r, m). f r m)) Q"
  by (auto elim!: returnsE)

lemma yields_bind:
  "yields e P \<Longrightarrow> (\<And>m. P m \<Longrightarrow> yields (f m) Q) \<Longrightarrow> yields (Option.bind e f) Q"
  by (auto elim!: yieldsE)

section \<open>C strings and byte order\<close>

definition bytes_of :: "string \<Rightarrow> byte list" where
  "bytes_of s = map (\<lambda>c. of_nat (of_char c)) s"

text \<open>The characters of a buffer up to its terminating zero, as \<^verbatim>\<open>strlen\<close> and \<^verbatim>\<open>strcmp\<close> see it.\<close>

definition cstr :: "byte list \<Rightarrow> byte list" where
  "cstr bs = takeWhile (\<lambda>b. b \<noteq> 0) bs"

definition swap16 :: "u16 \<Rightarrow> u16" where
  "swap16 w = push_bit 8 w OR drop_bit 8 w"

text \<open>
  The programs run on little-endian hosts, so \<^verbatim>\<open>htons\<close> and \<^verbatim>\<open>ntohs\<close> both exchange the two
  bytes. A 16-bit load of two consecutive bytes puts the first byte in the low half.
\<close>

abbreviation (input) htons :: "u16 \<Rightarrow> u16" where
  "htons \<equiv> swap16"

abbreviation (input) ntohs :: "u16 \<Rightarrow> u16" where
  "ntohs \<equiv> swap16"

definition le16 :: "byte \<Rightarrow> byte \<Rightarrow> u16" where
  "le16 lo hi = ucast lo OR push_bit 8 (ucast hi)"

definition lo8 :: "u16 \<Rightarrow> byte" where
  "lo8 w = ucast w"

definition hi8 :: "u16 \<Rightarrow> byte" where
  "hi8 w = ucast (drop_bit 8 w)"

lemma swap16_swap16 [simp]: "swap16 (swap16 w) = w"
  by (rule bit_word_eqI)
    (auto simp: swap16_def bit_or_iff bit_push_bit_iff bit_drop_bit_eq)

lemma cstr_no_zero: "0 \<notin> set (cstr bs)"
  by (auto simp: cstr_def dest: set_takeWhileD)

lemma cstr_id: "0 \<notin> set bs \<Longrightarrow> cstr bs = bs"
  by (auto simp: cstr_def)

lemma cstr_append_zero: "0 \<notin> set bs \<Longrightarrow> cstr (bs @ 0 # cs) = bs"
  by (auto simp: cstr_def takeWhile_tail)

lemma cstr_zeros: "0 \<notin> set bs \<Longrightarrow> cstr (bs @ replicate k 0) = bs"
  by (cases k) (simp_all add: cstr_append_zero cstr_id)

lemma cstr_pad: "0 \<notin> set bs \<Longrightarrow> length bs \<le> n \<Longrightarrow> cstr (take n (bs @ replicate m 0)) = bs"
  by (simp add: cstr_zeros)

lemma lo8_le16 [simp]: "lo8 (le16 lo hi) = lo"
  by (rule bit_word_eqI) (auto simp: lo8_def le16_def bit_simps)

lemma hi8_le16 [simp]: "hi8 (le16 lo hi) = hi"
  by (rule bit_word_eqI) (auto simp: hi8_def le16_def bit_simps dest: bit_imp_le_length)

lemma le16_lo8_hi8 [simp]: "le16 (lo8 w) (hi8 w) = w"
  by (rule bit_word_eqI) (auto simp: lo8_def hi8_def le16_def bit_simps)

lemma swap16_le16 [simp]: "swap16 (le16 lo hi) = le16 hi lo"
  by (rule bit_word_eqI)
    (auto simp: swap16_def le16_def bit_simps dest: bit_imp_le_length)

section \<open>Counters kept in machine words\<close>

lemma unat_of_nat_small: "n < 2 ^ LENGTH('a) \<Longrightarrow> unat (of_nat n :: 'a::len word) = n"
  by (simp add: unat_of_nat)

lemma of_nat_word_0: "n < 2 ^ LENGTH('a) \<Longrightarrow> (of_nat n = (0 :: 'a::len word)) = (n = 0)"
  by (auto simp: word_of_nat_eq_0_iff dest: dvd_imp_le)

section \<open>Doubly linked chains\<close>

text \<open>
  \<open>links x\<close> gives the \<open>(prev, next)\<close> pair of the node at address \<open>x\<close>, \<open>None\<close> where there is
  no node. \<open>dchain links pv xs nx\<close>: the nodes \<open>xs\<close> are linked to one another in this order,
  the first one's \<open>prev\<close> is \<open>pv\<close> and the last one's \<open>next\<close> is \<open>nx\<close>.
\<close>

definition hd_or :: "'a \<Rightarrow> 'a list \<Rightarrow> 'a" where
  "hd_or d xs = (case xs of [] \<Rightarrow> d | x # _ \<Rightarrow> x)"

definition last_or :: "'a \<Rightarrow> 'a list \<Rightarrow> 'a" where
  "last_or d xs = (if xs = [] then d else last xs)"

lemma hd_or_simps [simp]:
  "hd_or d [] = d" "hd_or d (x # xs) = x" "hd_or d (xs @ ys) = hd_or (hd_or d ys) xs"
  by (auto simp: hd_or_def split: list.splits)

lemma last_or_simps [simp]:
  "last_or d [] = d" "last_or d (x # xs) = last_or x xs" "last_or d (xs @ [x]) = x"
  "last_or d (xs @ ys) = last_or (last_or d xs) ys"
  by (auto simp: last_or_def)

lemma hd_or_in: "xs \<noteq> [] \<Longrightarrow> hd_or d xs \<in> set xs"
  by (cases xs) auto

lemma last_or_in: "xs \<noteq> [] \<Longrightarrow> last_or d xs \<in> set xs"
  by (auto simp: last_or_def)

lemma hd_or_hd: "xs \<noteq> [] \<Longrightarrow> hd_or d xs = hd xs"
  by (cases xs) auto

lemma last_or_last: "xs \<noteq> [] \<Longrightarrow> last_or d xs = last xs"
  by (auto simp: last_or_def)

fun dchain :: "(addr \<Rightarrow> (addr \<times> addr) option) \<Rightarrow> addr \<Rightarrow> addr list \<Rightarrow> addr \<Rightarrow> bool" where
  "dchain links pv [] nx = True"
| "dchain links pv (x # xs) nx =
     (x \<noteq> NULL \<and> links x = Some (pv, hd_or nx xs) \<and> dchain links x xs nx)"

lemma dchain_append [chain_simps]:
  "dchain links pv (xs @ ys) nx \<longleftrightarrow>
     dchain links pv xs (hd_or nx ys) \<and> dchain links (last_or pv xs) ys nx"
  by (induction xs arbitrary: pv) auto

lemma dchain_cong:
  assumes "\<And>x. x \<in> set xs \<Longrightarrow> links x = links' x"
  shows "dchain links pv xs nx = dchain links' pv xs nx"
  using assms by (induction xs arbitrary: pv) auto

lemma dchain_upd_other [simp]:
  "a \<notin> set xs \<Longrightarrow> dchain (links(a := l)) pv xs nx = dchain links pv xs nx"
  by (rule dchain_cong) auto

lemma dchain_not_null: "dchain links pv xs nx \<Longrightarrow> NULL \<notin> set xs"
  by (induction xs arbitrary: pv) auto

lemma dchain_live: "dchain links pv xs nx \<Longrightarrow> x \<in> set xs \<Longrightarrow> \<exists>p n. links x = Some (p, n)"
  by (induction xs arbitrary: pv) auto

text \<open>The links of a node in the middle of a chain are its neighbours.\<close>

lemma dchain_mid:
  "dchain links pv (xs @ x # ys) nx \<Longrightarrow> links x = Some (last_or pv xs, hd_or nx ys)"
  by (simp add: dchain_append)

text \<open>Redirecting the last node's \<open>next\<close>, or the first node's \<open>prev\<close>.\<close>

lemma dchain_set_next:
  assumes "dchain links pv (xs @ [x]) nx" "x \<notin> set xs"
  shows "dchain (links(x := Some (last_or pv xs, nx'))) pv (xs @ [x]) nx'"
  using assms by (simp add: dchain_append)

lemma dchain_set_prev:
  assumes "dchain links pv (x # xs) nx" "x \<notin> set xs"
  shows "dchain (links(x := Some (pv', hd_or nx xs))) pv' (x # xs) nx"
  using assms by simp

end
