(* ===== verification/Node_Source.thy ===== *)
theory Node_Source
  imports C_Prelude
begin

text \<open>
  Loops of the form \<^verbatim>\<open>while ((node = next(...))) ...\<close>. The list library and its clients walk
  over nodes in this way with an iterator, with \<^verbatim>\<open>list_lpop\<close> and with \<^verbatim>\<open>list_rpop\<close>. The
  interface \<open>node_source\<close> says what such a \<open>next\<close> promises: while nodes remain it returns the
  first of them and removes it from what remains, and then it returns \<^verbatim>\<open>NULL\<close>. The loops are
  proved once against the interface; the operations of the library are its instances.
\<close>

section \<open>The loops\<close>

text \<open>Runs \<open>next\<close> until it returns \<^verbatim>\<open>NULL\<close>; the result is the list of nodes it returned.\<close>

partial_function (option) drain :: "('m \<Rightarrow> (addr \<times> 'm) option) \<Rightarrow> 'm \<Rightarrow> (addr list \<times> 'm) option" where
  "drain nxt m = Option.bind (nxt m) (\<lambda>(node, m).
     if node = NULL then Some ([], m)
     else Option.bind (drain nxt m) (\<lambda>(ns, m). Some (node # ns, m)))"

text \<open>Runs \<open>next\<close> until \<open>p\<close> holds for the node it returned.\<close>

partial_function (option) search ::
  "('m \<Rightarrow> (addr \<times> 'm) option) \<Rightarrow> ('m \<Rightarrow> addr \<Rightarrow> bool option) \<Rightarrow> 'm \<Rightarrow> (addr \<times> 'm) option" where
  "search nxt p m = Option.bind (nxt m) (\<lambda>(node, m).
     if node = NULL then Some (NULL, m)
     else Option.bind (p m node) (\<lambda>hit.
       if hit then Some (node, m) else search nxt p m))"

text \<open>\<^verbatim>\<open>while (index--) node = next(...)\<close>\<close>

primrec skip :: "nat \<Rightarrow> ('m \<Rightarrow> (addr \<times> 'm) option) \<Rightarrow> 'm \<Rightarrow> addr \<Rightarrow> (addr \<times> 'm) option" where
  "skip 0 nxt m node = Some (node, m)"
| "skip (Suc index) nxt m node = Option.bind (nxt m) (\<lambda>(node, m). skip index nxt m node)"

section \<open>The interface\<close>

locale node_source =
  fixes nxt :: "'m \<Rightarrow> (addr \<times> 'm) option"
    and rep :: "'m \<Rightarrow> addr list \<Rightarrow> bool"
  assumes nxt_Nil: "rep m [] \<Longrightarrow> returns (nxt m) (\<lambda>r m'. r = NULL \<and> rep m' [])"
    and nxt_Cons: "rep m (x # xs) \<Longrightarrow> returns (nxt m) (\<lambda>r m'. r = x \<and> rep m' xs)"
    and rep_not_null: "rep m xs \<Longrightarrow> NULL \<notin> set xs"
begin

lemma drain_all: "rep m xs \<Longrightarrow> returns (drain nxt m) (\<lambda>r m'. r = xs \<and> rep m' [])"
proof (induction xs arbitrary: m)
  case Nil
  from nxt_Nil[OF Nil] show ?case
    by (subst drain.simps) (auto elim!: returnsE)
next
  case (Cons x xs)
  have "x \<noteq> NULL" using rep_not_null[OF Cons.prems] by auto
  from nxt_Cons[OF Cons.prems] obtain m1 where m1: "nxt m = Some (x, m1)" "rep m1 xs"
    by (auto elim!: returnsE)
  from Cons.IH[OF m1(2)] m1(1) \<open>x \<noteq> NULL\<close> show ?case
    by (subst drain.simps) (auto elim!: returnsE)
qed

lemma skip_nth:
  "rep m xs \<Longrightarrow> k \<le> length xs \<Longrightarrow>
     returns (skip k nxt m node) (\<lambda>r m'. r = (node # xs) ! k \<and> rep m' (drop k xs))"
proof (induction k arbitrary: m xs node)
  case 0
  then show ?case by simp
next
  case (Suc k)
  then obtain y ys where xs: "xs = y # ys" by (cases xs) auto
  from nxt_Cons[OF Suc.prems(1)[unfolded xs]] obtain m1 where
    m1: "nxt m = Some (y, m1)" "rep m1 ys" by (auto elim!: returnsE)
  from Suc.IH[OF m1(2), of y] Suc.prems(2) m1(1) show ?case
    by (simp add: xs)
qed

lemma search_find:
  assumes "rep m xs" "\<And>m x xs. rep m xs \<Longrightarrow> x \<in> S \<Longrightarrow> p m x = Some (P x)" "set xs \<subseteq> S"
  shows "returns (search nxt p m)
    (\<lambda>r m'. r = (case List.find P xs of None \<Rightarrow> NULL | Some x \<Rightarrow> x) \<and> (\<exists>ys. rep m' ys))"
  using assms(1,3)
proof (induction xs arbitrary: m)
  case Nil
  from nxt_Nil[OF Nil(1)] show ?case
    by (subst search.simps) (auto elim!: returnsE)
next
  case (Cons x xs)
  have "x \<noteq> NULL" using rep_not_null[OF Cons.prems(1)] by auto
  from nxt_Cons[OF Cons.prems(1)] obtain m1 where m1: "nxt m = Some (x, m1)" "rep m1 xs"
    by (auto elim!: returnsE)
  with Cons.IH[OF m1(2)] assms(2)[OF m1(2), of x] Cons.prems(2) \<open>x \<noteq> NULL\<close> show ?case
    by (subst search.simps) auto
qed

end

end
