(* ===== verification/Linked_List.thy ===== *)
theory Linked_List
  imports Node_Source
begin

text \<open>
  The doubly linked list library \<^verbatim>\<open>src/list/src\<close> (\<^verbatim>\<open>list.h\<close>, \<^verbatim>\<open>list.c\<close>, \<^verbatim>\<open>list_node.c\<close>,
  \<^verbatim>\<open>list_iterator.c\<close>) and the loops of its client \<^verbatim>\<open>src/list/benchmark.c\<close>.

  The heap \<open>lmem\<close> keeps the three structs in maps from addresses; \<^verbatim>\<open>malloc\<close> hands out
  addresses that were never used before, or \<^verbatim>\<open>NULL\<close> where \<open>malloc_ok\<close> says that the attempt
  with this number fails. Every dereference goes through \<open>rd_node\<close>, \<open>rd_list\<close>, \<open>rd_iter\<close>, which
  are \<open>None\<close> on \<^verbatim>\<open>NULL\<close> and on freed blocks. A value is an opaque \<open>'v\<close> (a \<^verbatim>\<open>void*\<close>); calls of
  the \<^verbatim>\<open>free\<close> callback are recorded in \<open>freed_vals\<close>.

  \<open>list_rep m self xs\<close> says that the list at \<open>self\<close> holds the nodes \<open>xs\<close>, in this order.
\<close>

section \<open>Data\<close>

datatype list_direction_t = LIST_HEAD | LIST_TAIL

record 'v list_node_t =
  ln_prev :: addr
  ln_next :: addr
  ln_val :: 'v

record 'v list_t =
  lst_head :: addr
  lst_tail :: addr
  lst_len :: u32
  lst_free :: bool
  lst_match :: "('v \<Rightarrow> 'v \<Rightarrow> bool) option"

record list_iterator_t =
  it_next :: addr
  it_direction :: list_direction_t

record 'v lmem =
  nodes :: "addr \<rightharpoonup> 'v list_node_t"
  lists :: "addr \<rightharpoonup> 'v list_t"
  iters :: "addr \<rightharpoonup> list_iterator_t"
  allocs :: nat
  malloc_ok :: "nat \<Rightarrow> bool"
  freed_vals :: "'v list"

section \<open>Memory accesses\<close>

definition lmalloc :: "'v lmem \<Rightarrow> addr \<times> 'v lmem" where
  "lmalloc m = (if malloc_ok m (allocs m) then Suc (allocs m) else NULL, m\<lparr>allocs := Suc (allocs m)\<rparr>)"

definition rd_node :: "'v lmem \<Rightarrow> addr \<Rightarrow> 'v list_node_t option" where
  "rd_node m p = (if p = NULL then None else nodes m p)"

definition rd_list :: "'v lmem \<Rightarrow> addr \<Rightarrow> 'v list_t option" where
  "rd_list m p = (if p = NULL then None else lists m p)"

definition rd_iter :: "'v lmem \<Rightarrow> addr \<Rightarrow> list_iterator_t option" where
  "rd_iter m p = (if p = NULL then None else iters m p)"

definition wr_prev :: "'v lmem \<Rightarrow> addr \<Rightarrow> addr \<Rightarrow> 'v lmem option" where
  "wr_prev m p v = do {
     n \<leftarrow> rd_node m p;
     Some (m\<lparr>nodes := (nodes m)(p \<mapsto> n\<lparr>ln_prev := v\<rparr>)\<rparr>) }"

definition wr_next :: "'v lmem \<Rightarrow> addr \<Rightarrow> addr \<Rightarrow> 'v lmem option" where
  "wr_next m p v = do {
     n \<leftarrow> rd_node m p;
     Some (m\<lparr>nodes := (nodes m)(p \<mapsto> n\<lparr>ln_next := v\<rparr>)\<rparr>) }"

definition wr_list :: "'v lmem \<Rightarrow> addr \<Rightarrow> ('v list_t \<Rightarrow> 'v list_t) \<Rightarrow> 'v lmem option" where
  "wr_list m p f = do {
     l \<leftarrow> rd_list m p;
     Some (m\<lparr>lists := (lists m)(p \<mapsto> f l)\<rparr>) }"

definition free_node :: "'v lmem \<Rightarrow> addr \<Rightarrow> 'v lmem option" where
  "free_node m p = do {
     _ \<leftarrow> rd_node m p;
     Some (m\<lparr>nodes := (nodes m)(p := None)\<rparr>) }"

section \<open>Operations\<close>

definition list_node_new :: "'v lmem \<Rightarrow> 'v \<Rightarrow> addr \<times> 'v lmem" where
  "list_node_new m v = (let (self, m) = lmalloc m in
     if self = NULL then (NULL, m)
     else (self, m\<lparr>nodes := (nodes m)(self \<mapsto> \<lparr>ln_prev = NULL, ln_next = NULL, ln_val = v\<rparr>)\<rparr>))"

definition list_new :: "'v lmem \<Rightarrow> addr \<times> 'v lmem" where
  "list_new m = (let (self, m) = lmalloc m in
     if self = NULL then (NULL, m)
     else (self, m\<lparr>lists := (lists m)(self \<mapsto>
       \<lparr>lst_head = NULL, lst_tail = NULL, lst_len = 0, lst_free = False, lst_match = None\<rparr>)\<rparr>))"

text \<open>The body of \<^verbatim>\<open>while (len--)\<close> in \<^verbatim>\<open>list_destroy\<close>; the first argument is the remaining count.\<close>

primrec list_destroy_loop :: "nat \<Rightarrow> 'v lmem \<Rightarrow> addr \<Rightarrow> addr \<Rightarrow> 'v lmem option" where
  "list_destroy_loop 0 m self cur = Some m"
| "list_destroy_loop (Suc len) m self cur = do {
     c \<leftarrow> rd_node m cur;
     l \<leftarrow> rd_list m self;
     let m = (if lst_free l then m\<lparr>freed_vals := freed_vals m @ [ln_val c]\<rparr> else m);
     m \<leftarrow> free_node m cur;
     list_destroy_loop len m self (ln_next c) }"

definition list_destroy :: "'v lmem \<Rightarrow> addr \<Rightarrow> 'v lmem option" where
  "list_destroy m self = do {
     l \<leftarrow> rd_list m self;
     m \<leftarrow> list_destroy_loop (unat (lst_len l)) m self (lst_head l);
     Some (m\<lparr>lists := (lists m)(self := None)\<rparr>) }"

definition list_rpush :: "'v lmem \<Rightarrow> addr \<Rightarrow> addr \<Rightarrow> (addr \<times> 'v lmem) option" where
  "list_rpush m self node =
     (if node = NULL then Some (NULL, m)
      else do {
        l \<leftarrow> rd_list m self;
        m \<leftarrow> (if lst_len l \<noteq> 0 then do {
                m \<leftarrow> wr_prev m node (lst_tail l);
                m \<leftarrow> wr_next m node NULL;
                m \<leftarrow> wr_next m (lst_tail l) node;
                wr_list m self (lst_tail_update (\<lambda>_. node)) }
              else do {
                m \<leftarrow> wr_list m self (\<lambda>l. l\<lparr>lst_head := node, lst_tail := node\<rparr>);
                m \<leftarrow> wr_next m node NULL;
                wr_prev m node NULL });
        m \<leftarrow> wr_list m self (lst_len_update (\<lambda>n. n + 1));
        Some (node, m) })"

definition list_rpop :: "'v lmem \<Rightarrow> addr \<Rightarrow> (addr \<times> 'v lmem) option" where
  "list_rpop m self = do {
     l \<leftarrow> rd_list m self;
     if lst_len l = 0 then Some (NULL, m)
     else do {
       let node = lst_tail l;
       m \<leftarrow> wr_list m self (lst_len_update (\<lambda>n. n - 1));
       m \<leftarrow> (if lst_len l - 1 \<noteq> 0 then do {
               n \<leftarrow> rd_node m node;
               m \<leftarrow> wr_list m self (lst_tail_update (\<lambda>_. ln_prev n));
               wr_next m (ln_prev n) NULL }
             else wr_list m self (\<lambda>l. l\<lparr>lst_tail := NULL, lst_head := NULL\<rparr>));
       m \<leftarrow> wr_prev m node NULL;
       m \<leftarrow> wr_next m node NULL;
       Some (node, m) } }"

definition list_lpop :: "'v lmem \<Rightarrow> addr \<Rightarrow> (addr \<times> 'v lmem) option" where
  "list_lpop m self = do {
     l \<leftarrow> rd_list m self;
     if lst_len l = 0 then Some (NULL, m)
     else do {
       let node = lst_head l;
       m \<leftarrow> wr_list m self (lst_len_update (\<lambda>n. n - 1));
       m \<leftarrow> (if lst_len l - 1 \<noteq> 0 then do {
               n \<leftarrow> rd_node m node;
               m \<leftarrow> wr_list m self (lst_head_update (\<lambda>_. ln_next n));
               wr_prev m (ln_next n) NULL }
             else wr_list m self (\<lambda>l. l\<lparr>lst_head := NULL, lst_tail := NULL\<rparr>));
       m \<leftarrow> wr_prev m node NULL;
       m \<leftarrow> wr_next m node NULL;
       Some (node, m) } }"

definition list_lpush :: "'v lmem \<Rightarrow> addr \<Rightarrow> addr \<Rightarrow> (addr \<times> 'v lmem) option" where
  "list_lpush m self node =
     (if node = NULL then Some (NULL, m)
      else do {
        l \<leftarrow> rd_list m self;
        m \<leftarrow> (if lst_len l \<noteq> 0 then do {
                m \<leftarrow> wr_next m node (lst_head l);
                m \<leftarrow> wr_prev m node NULL;
                m \<leftarrow> wr_prev m (lst_head l) node;
                wr_list m self (lst_head_update (\<lambda>_. node)) }
              else do {
                m \<leftarrow> wr_list m self (\<lambda>l. l\<lparr>lst_head := node, lst_tail := node\<rparr>);
                m \<leftarrow> wr_next m node NULL;
                wr_prev m node NULL });
        m \<leftarrow> wr_list m self (lst_len_update (\<lambda>n. n + 1));
        Some (node, m) })"

subsection \<open>Iterators\<close>

definition list_iterator_new_from_node ::
  "'v lmem \<Rightarrow> addr \<Rightarrow> list_direction_t \<Rightarrow> addr \<times> 'v lmem" where
  "list_iterator_new_from_node m node direction = (let (self, m) = lmalloc m in
     if self = NULL then (NULL, m)
     else (self, m\<lparr>iters := (iters m)(self \<mapsto> \<lparr>it_next = node, it_direction = direction\<rparr>)\<rparr>))"

definition list_iterator_new ::
  "'v lmem \<Rightarrow> addr \<Rightarrow> list_direction_t \<Rightarrow> (addr \<times> 'v lmem) option" where
  "list_iterator_new m lst direction = do {
     l \<leftarrow> rd_list m lst;
     let node = (if direction = LIST_HEAD then lst_head l else lst_tail l);
     Some (list_iterator_new_from_node m node direction) }"

definition list_iterator_next :: "'v lmem \<Rightarrow> addr \<Rightarrow> (addr \<times> 'v lmem) option" where
  "list_iterator_next m self = do {
     i \<leftarrow> rd_iter m self;
     let cur = it_next i;
     if cur \<noteq> NULL then do {
       c \<leftarrow> rd_node m cur;
       let nx = (if it_direction i = LIST_HEAD then ln_next c else ln_prev c);
       Some (cur, m\<lparr>iters := (iters m)(self \<mapsto> i\<lparr>it_next := nx\<rparr>)\<rparr>) }
     else Some (cur, m) }"

definition list_iterator_destroy :: "'v lmem \<Rightarrow> addr \<Rightarrow> 'v lmem option" where
  "list_iterator_destroy m self =
     (if self = NULL then Some m
      else do {
        _ \<leftarrow> rd_iter m self;
        Some (m\<lparr>iters := (iters m)(self := None)\<rparr>) })"

subsection \<open>Searching, indexing, removing\<close>

definition node_matches :: "'v list_t \<Rightarrow> 'v \<Rightarrow> 'v \<Rightarrow> bool" where
  "node_matches l v w = (case lst_match l of Some match \<Rightarrow> match v w | None \<Rightarrow> v = w)"

text \<open>The test in the loop of \<^verbatim>\<open>list_find\<close>: it dereferences the list and the node.\<close>

definition list_find_test :: "addr \<Rightarrow> 'v \<Rightarrow> 'v lmem \<Rightarrow> addr \<Rightarrow> bool option" where
  "list_find_test self v m node = do {
     l \<leftarrow> rd_list m self;
     n \<leftarrow> rd_node m node;
     Some (node_matches l v (ln_val n)) }"

definition list_find :: "'v lmem \<Rightarrow> addr \<Rightarrow> 'v \<Rightarrow> (addr \<times> 'v lmem) option" where
  "list_find m self v = do {
     (it, m) \<leftarrow> list_iterator_new m self LIST_HEAD;
     (node, m) \<leftarrow> search (\<lambda>m. list_iterator_next m it) (list_find_test self v) m;
     m \<leftarrow> list_iterator_destroy m it;
     Some (node, m) }"

definition list_at :: "'v lmem \<Rightarrow> addr \<Rightarrow> u32 \<Rightarrow> (addr \<times> 'v lmem) option" where
  "list_at m self index = do {
     let direction = (if sint index < 0 then LIST_TAIL else LIST_HEAD);
     let index = (if sint index < 0 then NOT index else index);
     l \<leftarrow> rd_list m self;
     if index < lst_len l then do {
       (it, m) \<leftarrow> list_iterator_new m self direction;
       (node, m) \<leftarrow> list_iterator_next m it;
       (node, m) \<leftarrow> skip (unat index) (\<lambda>m. list_iterator_next m it) m node;
       m \<leftarrow> list_iterator_destroy m it;
       Some (node, m) }
     else Some (NULL, m) }"

definition list_remove :: "'v lmem \<Rightarrow> addr \<Rightarrow> addr \<Rightarrow> 'v lmem option" where
  "list_remove m self node = do {
     n \<leftarrow> rd_node m node;
     m \<leftarrow> (if ln_prev n \<noteq> NULL then wr_next m (ln_prev n) (ln_next n)
           else wr_list m self (lst_head_update (\<lambda>_. ln_next n)));
     n \<leftarrow> rd_node m node;
     m \<leftarrow> (if ln_next n \<noteq> NULL then wr_prev m (ln_next n) (ln_prev n)
           else wr_list m self (lst_tail_update (\<lambda>_. ln_prev n)));
     n \<leftarrow> rd_node m node;
     l \<leftarrow> rd_list m self;
     let m = (if lst_free l then m\<lparr>freed_vals := freed_vals m @ [ln_val n]\<rparr> else m);
     m \<leftarrow> free_node m node;
     wr_list m self (lst_len_update (\<lambda>k. k - 1)) }"

section \<open>The list a heap represents\<close>

definition links_of :: "(addr \<rightharpoonup> 'v list_node_t) \<Rightarrow> addr \<Rightarrow> (addr \<times> addr) option" where
  "links_of N x = map_option (\<lambda>n. (ln_prev n, ln_next n)) (N x)"

definition vals_of :: "(addr \<rightharpoonup> 'v list_node_t) \<Rightarrow> addr \<Rightarrow> 'v option" where
  "vals_of N x = map_option ln_val (N x)"

definition list_rep :: "'v lmem \<Rightarrow> addr \<Rightarrow> addr list \<Rightarrow> bool" where
  "list_rep m self xs = (self \<noteq> NULL \<and> (case lists m self of None \<Rightarrow> False | Some l \<Rightarrow>
     dchain (links_of (nodes m)) NULL xs NULL \<and> distinct xs \<and>
     lst_head l = hd_or NULL xs \<and> lst_tail l = last_or NULL xs \<and>
     lst_len l = of_nat (length xs) \<and> length xs < 2 ^ 32))"

text \<open>A node that can be pushed: allocated and not \<^verbatim>\<open>NULL\<close>.\<close>

definition live_node :: "'v lmem \<Rightarrow> addr \<Rightarrow> bool" where
  "live_node m x = (x \<noteq> NULL \<and> nodes m x \<noteq> None)"

text \<open>
  What the push and pop operations leave alone: the values of all nodes, the other lists, the
  callbacks of the list itself, the iterators and the rest of the heap.
\<close>

definition keeps :: "addr \<Rightarrow> 'v lmem \<Rightarrow> 'v lmem \<Rightarrow> bool" where
  "keeps self m m' =
     (vals_of (nodes m') = vals_of (nodes m) \<and> iters m' = iters m \<and>
      (\<forall>s. s \<noteq> self \<longrightarrow> lists m' s = lists m s) \<and>
      map_option (\<lambda>l. (lst_free l, lst_match l)) (lists m' self) =
        map_option (\<lambda>l. (lst_free l, lst_match l)) (lists m self) \<and>
      allocs m' = allocs m \<and> malloc_ok m' = malloc_ok m \<and> freed_vals m' = freed_vals m)"

lemma links_of_upd [simp]:
  "links_of (N(p \<mapsto> n)) = (links_of N)(p \<mapsto> (ln_prev n, ln_next n))"
  "links_of (N(p := None)) = (links_of N)(p := None)"
  by (auto simp: links_of_def)

lemma vals_of_upd [simp]:
  "vals_of (N(p \<mapsto> n)) = (vals_of N)(p \<mapsto> ln_val n)"
  "vals_of (N(p := None)) = (vals_of N)(p := None)"
  by (auto simp: vals_of_def)

lemma links_of_SomeD: "links_of N x = Some (a, b) \<Longrightarrow> \<exists>n. N x = Some n \<and> ln_prev n = a \<and> ln_next n = b"
  by (auto simp: links_of_def)

lemma list_repE:
  assumes "list_rep m self xs"
  obtains l where "self \<noteq> NULL" "lists m self = Some l"
    "dchain (links_of (nodes m)) NULL xs NULL" "distinct xs"
    "lst_head l = hd_or NULL xs" "lst_tail l = last_or NULL xs"
    "lst_len l = of_nat (length xs)" "length xs < 2 ^ 32"
  using assms by (auto simp: list_rep_def split: option.splits)

lemma list_rep_node:
  assumes "list_rep m self xs" "x \<in> set xs"
  shows "x \<noteq> NULL" "\<exists>n. nodes m x = Some n"
proof -
  from assms(1) have ch: "dchain (links_of (nodes m)) NULL xs NULL" by (rule list_repE)
  show "x \<noteq> NULL" using dchain_not_null[OF ch] assms(2) by metis
  show "\<exists>n. nodes m x = Some n" using dchain_live[OF ch assms(2)] by (auto dest: links_of_SomeD)
qed

lemma list_rep_split:
  assumes "list_rep m self (ys @ x # zs)"
  obtains n where "nodes m x = Some n" "ln_prev n = last_or NULL ys" "ln_next n = hd_or NULL zs"
    "x \<noteq> NULL"
proof -
  from assms have "links_of (nodes m) x = Some (last_or NULL ys, hd_or NULL zs)"
    by (auto elim!: list_repE intro: dchain_mid)
  moreover have "x \<noteq> NULL" using list_rep_node(1)[OF assms] by simp
  ultimately show ?thesis using that by (auto dest: links_of_SomeD)
qed

lemma len_word_0 [simp]: "n < 2 ^ 32 \<Longrightarrow> (of_nat n = (0 :: u32)) = (n = 0)"
  by (rule of_nat_word_0) simp

lemma len_word_Suc: "(of_nat (Suc n) :: u32) = of_nat n + 1"
  by simp

lemmas heap_ops = rd_node_def rd_list_def rd_iter_def wr_prev_def wr_next_def wr_list_def
  free_node_def

lemma list_rpush_spec:
  assumes rep: "list_rep m self xs" and node: "live_node m node" "node \<notin> set xs"
    and room: "Suc (length xs) < 2 ^ 32"
  shows "returns (list_rpush m self node)
    (\<lambda>r m'. r = node \<and> list_rep m' self (xs @ [node]) \<and> keeps self m m')"
proof -
  from rep obtain l where l: "self \<noteq> NULL" "lists m self = Some l"
    "dchain (links_of (nodes m)) NULL xs NULL" "distinct xs"
    "lst_head l = hd_or NULL xs" "lst_tail l = last_or NULL xs"
    "lst_len l = of_nat (length xs)" "length xs < 2 ^ 32" by (rule list_repE)
  from node(1) obtain nd where nd: "node \<noteq> NULL" "nodes m node = Some nd"
    by (auto simp: live_node_def)
  show ?thesis
  proof (cases xs rule: rev_cases)
    case Nil
    with l nd show ?thesis
      by (auto simp: list_rpush_def heap_ops list_rep_def keeps_def vals_of_def fun_eq_iff)
  next
    case (snoc ys t)
    from rep obtain n where n: "nodes m t = Some n" "ln_prev n = last_or NULL ys" "t \<noteq> NULL"
      unfolding snoc by (auto elim: list_rep_split)
    have "node \<noteq> t" using node(2) snoc by auto
    moreover have "t \<notin> set ys" using l snoc by auto
    ultimately show ?thesis using l nd n node(2) room len_word_0[OF l(8)]
      by (auto simp: snoc list_rpush_def heap_ops list_rep_def keeps_def
          dchain_append vals_of_def fun_eq_iff)
  qed
qed

lemma list_lpush_spec:
  assumes rep: "list_rep m self xs" and node: "live_node m node" "node \<notin> set xs"
    and room: "Suc (length xs) < 2 ^ 32"
  shows "returns (list_lpush m self node)
    (\<lambda>r m'. r = node \<and> list_rep m' self (node # xs) \<and> keeps self m m')"
proof -
  from rep obtain l where l: "self \<noteq> NULL" "lists m self = Some l"
    "dchain (links_of (nodes m)) NULL xs NULL" "distinct xs"
    "lst_head l = hd_or NULL xs" "lst_tail l = last_or NULL xs"
    "lst_len l = of_nat (length xs)" "length xs < 2 ^ 32" by (rule list_repE)
  from node(1) obtain nd where nd: "node \<noteq> NULL" "nodes m node = Some nd"
    by (auto simp: live_node_def)
  show ?thesis
  proof (cases xs)
    case Nil
    with l nd show ?thesis
      by (auto simp: list_lpush_def heap_ops list_rep_def keeps_def vals_of_def fun_eq_iff)
  next
    case (Cons h ys)
    from rep obtain n where n: "nodes m h = Some n" "ln_next n = hd_or NULL ys" "h \<noteq> NULL"
      unfolding Cons by (auto elim: list_rep_split[where ys = "[]", simplified])
    have "node \<noteq> h" using node(2) Cons by auto
    moreover have "h \<notin> set ys" using l Cons by auto
    ultimately show ?thesis using l nd n node(2) room len_word_0[OF l(8)]
      by (auto simp: Cons list_lpush_def heap_ops list_rep_def keeps_def
          vals_of_def fun_eq_iff)
  qed
qed

text \<open>A popped node comes back detached: both its links are \<^verbatim>\<open>NULL\<close>.\<close>

definition detached :: "'v lmem \<Rightarrow> addr \<Rightarrow> bool" where
  "detached m x = (live_node m x \<and> links_of (nodes m) x = Some (NULL, NULL))"

lemma list_rpop_empty: "list_rep m self [] \<Longrightarrow> list_rpop m self = Some (NULL, m)"
  by (auto elim!: list_repE simp: list_rpop_def heap_ops)

lemma list_lpop_empty: "list_rep m self [] \<Longrightarrow> list_lpop m self = Some (NULL, m)"
  by (auto elim!: list_repE simp: list_lpop_def heap_ops)

lemma list_rpop_spec:
  assumes rep: "list_rep m self (xs @ [x])"
  shows "returns (list_rpop m self)
    (\<lambda>r m'. r = x \<and> list_rep m' self xs \<and> detached m' x \<and> keeps self m m')"
proof -
  from rep obtain l where l: "self \<noteq> NULL" "lists m self = Some l"
    "dchain (links_of (nodes m)) NULL (xs @ [x]) NULL" "distinct (xs @ [x])"
    "lst_head l = hd_or NULL (xs @ [x])" "lst_tail l = last_or NULL (xs @ [x])"
    "lst_len l = of_nat (length (xs @ [x]))" "length (xs @ [x]) < 2 ^ 32" by (rule list_repE)
  from rep obtain n where n: "nodes m x = Some n" "ln_prev n = last_or NULL xs" "x \<noteq> NULL"
    by (auto elim: list_rep_split)
  have len: "(of_nat (length xs) = (0 :: u32)) = (length xs = 0)" "length xs < 2 ^ 32"
    using l(8) by simp_all
  have dec: "lst_len l - 1 = of_nat (length xs)" using l(7) by simp
  have nz: "lst_len l \<noteq> 0" using l(7) len_word_0[OF l(8)] by simp
  show ?thesis
  proof (cases xs rule: rev_cases)
    case Nil
    with l n dec nz show ?thesis
      by (auto simp: list_rpop_def heap_ops list_rep_def keeps_def detached_def live_node_def
          vals_of_def fun_eq_iff)
  next
    case (snoc ys t)
    from rep obtain k where k: "nodes m t = Some k" "ln_prev k = last_or NULL ys" "t \<noteq> NULL"
      unfolding snoc by (auto elim: list_rep_split[where zs = "[x]", simplified])
    from l len n k dec nz show ?thesis
      by (auto simp: snoc list_rpop_def heap_ops list_rep_def keeps_def detached_def
          live_node_def dchain_append vals_of_def fun_eq_iff)
  qed
qed

lemma list_lpop_spec:
  assumes rep: "list_rep m self (x # xs)"
  shows "returns (list_lpop m self)
    (\<lambda>r m'. r = x \<and> list_rep m' self xs \<and> detached m' x \<and> keeps self m m')"
proof -
  from rep obtain l where l: "self \<noteq> NULL" "lists m self = Some l"
    "dchain (links_of (nodes m)) NULL (x # xs) NULL" "distinct (x # xs)"
    "lst_head l = hd_or NULL (x # xs)" "lst_tail l = last_or NULL (x # xs)"
    "lst_len l = of_nat (length (x # xs))" "length (x # xs) < 2 ^ 32" by (rule list_repE)
  from rep obtain n where n: "nodes m x = Some n" "ln_next n = hd_or NULL xs" "x \<noteq> NULL"
    by (auto elim: list_rep_split[where ys = "[]", simplified])
  have len: "(of_nat (length xs) = (0 :: u32)) = (length xs = 0)" "length xs < 2 ^ 32"
    using l(8) by simp_all
  have dec: "lst_len l - 1 = of_nat (length xs)" using l(7) by simp
  have nz: "lst_len l \<noteq> 0" using l(7) len_word_0[OF l(8)] by simp
  show ?thesis
  proof (cases xs)
    case Nil
    with l n dec nz show ?thesis
      by (auto simp: list_lpop_def heap_ops list_rep_def keeps_def detached_def live_node_def
          vals_of_def fun_eq_iff)
  next
    case (Cons t ys)
    from rep obtain k where k: "nodes m t = Some k" "ln_next k = hd_or NULL ys" "t \<noteq> NULL"
      unfolding Cons by (auto elim: list_rep_split[where ys = "[x]", simplified])
    from l len n k dec nz show ?thesis
      by (auto simp: Cons list_lpop_def heap_ops list_rep_def keeps_def detached_def
          live_node_def vals_of_def fun_eq_iff)
  qed
qed

lemma list_rep_iters [simp]: "list_rep (m\<lparr>iters := I\<rparr>) self xs = list_rep m self xs"
  by (simp add: list_rep_def split: option.splits)

lemma list_rep_allocs [simp]: "list_rep (m\<lparr>allocs := k\<rparr>) self xs = list_rep m self xs"
  by (simp add: list_rep_def split: option.splits)

lemma list_remove_spec:
  assumes rep: "list_rep m self (ys @ x # zs)"
  shows "yields (list_remove m self x)
    (\<lambda>m'. list_rep m' self (ys @ zs) \<and> nodes m' x = None \<and>
       (\<forall>y. y \<noteq> x \<longrightarrow> vals_of (nodes m') y = vals_of (nodes m) y) \<and>
       (\<forall>s. s \<noteq> self \<longrightarrow> lists m' s = lists m s) \<and>
       freed_vals m' = freed_vals m @
         (case (lists m self, nodes m x) of
            (Some l, Some n) \<Rightarrow> if lst_free l then [ln_val n] else []
          | _ \<Rightarrow> []))"
proof -
  from rep obtain l where l: "self \<noteq> NULL" "lists m self = Some l"
    "dchain (links_of (nodes m)) NULL (ys @ x # zs) NULL" "distinct (ys @ x # zs)"
    "lst_head l = hd_or NULL (ys @ x # zs)" "lst_tail l = last_or NULL (ys @ x # zs)"
    "lst_len l = of_nat (length (ys @ x # zs))" "length (ys @ x # zs) < 2 ^ 32" by (rule list_repE)
  from rep obtain n where n: "nodes m x = Some n" "ln_prev n = last_or NULL ys"
    "ln_next n = hd_or NULL zs" "x \<noteq> NULL" by (rule list_rep_split)
  note defs = list_remove_def heap_ops list_rep_def vals_of_def fun_eq_iff dchain_append
  show ?thesis
  proof (cases ys rule: rev_cases)
    case Nil
    show ?thesis
    proof (cases zs)
      case Nil
      with \<open>ys = []\<close> l n show ?thesis by (auto simp: defs)
    next
      case (Cons z zs')
      from rep obtain k where "nodes m z = Some k" "ln_next k = hd_or NULL zs'" "z \<noteq> NULL"
        unfolding Cons \<open>ys = []\<close> by (auto elim: list_rep_split[where ys = "[x]", simplified])
      with \<open>ys = []\<close> Cons l n show ?thesis by (auto simp: defs)
    qed
  next
    case (snoc ys' y)
    from rep obtain k where k: "nodes m y = Some k" "ln_prev k = last_or NULL ys'" "y \<noteq> NULL"
      unfolding snoc by (auto elim: list_rep_split[where zs = "x # zs", simplified])
    show ?thesis
    proof (cases zs)
      case Nil
      with snoc l n k show ?thesis by (auto simp: defs)
    next
      case (Cons z zs')
      from rep obtain j where "nodes m z = Some j" "ln_next j = hd_or NULL zs'" "z \<noteq> NULL"
        unfolding Cons snoc by (auto elim: list_rep_split[where ys = "ys' @ [y, x]", simplified])
      with snoc Cons l n k show ?thesis by (auto simp: defs)
    qed
  qed
qed

lemma list_destroy_loop_spec:
  assumes "dchain (links_of (nodes m)) pv xs NULL" "distinct xs" "self \<noteq> NULL"
    "lists m self = Some l" "cur = hd_or NULL xs"
  shows "yields (list_destroy_loop (length xs) m self cur)
    (\<lambda>m'. (\<forall>x \<in> set xs. nodes m' x = None) \<and> (\<forall>x. x \<notin> set xs \<longrightarrow> nodes m' x = nodes m x) \<and>
       lists m' = lists m \<and> iters m' = iters m \<and>
       freed_vals m' = freed_vals m @ (if lst_free l then map (\<lambda>x. ln_val (the (nodes m x))) xs else []))"
  using assms
proof (induction xs arbitrary: m pv cur)
  case Nil
  then show ?case by simp
next
  case (Cons x xs)
  from Cons.prems(1) obtain n where n: "nodes m x = Some n" "ln_next n = hd_or NULL xs" "x \<noteq> NULL"
    by (auto dest: links_of_SomeD)
  define m1 where "m1 = (if lst_free l then m\<lparr>freed_vals := freed_vals m @ [ln_val n]\<rparr> else m)
    \<lparr>nodes := (nodes m)(x := None)\<rparr>"
  have x: "x \<notin> set xs" using Cons.prems(2) by simp
  have "dchain (links_of (nodes m1)) x xs NULL" using Cons.prems(1) x by (simp add: m1_def)
  moreover have "lists m1 self = Some l" using Cons.prems(4) by (simp add: m1_def)
  ultimately have IH: "yields (list_destroy_loop (length xs) m1 self (ln_next n))
    (\<lambda>m'. (\<forall>x \<in> set xs. nodes m' x = None) \<and> (\<forall>x. x \<notin> set xs \<longrightarrow> nodes m' x = nodes m1 x) \<and>
       lists m' = lists m1 \<and> iters m' = iters m1 \<and>
       freed_vals m' = freed_vals m1 @ (if lst_free l then map (\<lambda>x. ln_val (the (nodes m1 x))) xs else []))"
    using Cons.prems n by (intro Cons.IH) auto
  have vals: "map (\<lambda>x. ln_val (the (nodes m1 x))) xs = map (\<lambda>x. ln_val (the (nodes m x))) xs"
    using x by (auto simp: m1_def)
  have step: "list_destroy_loop (length (x # xs)) m self cur
      = list_destroy_loop (length xs) m1 self (ln_next n)"
    using Cons.prems n by (simp add: heap_ops m1_def)
  from IH show ?case
    unfolding step vals by (rule yieldsE) (auto simp: m1_def n x split: if_splits)
qed

text \<open>Iterator steps read the heap only; \<open>ys\<close> are the nodes still to be returned.\<close>

fun walk :: "list_direction_t \<Rightarrow> addr list \<Rightarrow> addr list \<Rightarrow> addr list" where
  "walk LIST_HEAD zs ys = zs @ ys"
| "walk LIST_TAIL zs ys = rev ys @ zs"

definition iter_rep :: "'v lmem \<Rightarrow> addr \<Rightarrow> addr \<Rightarrow> 'v lmem \<Rightarrow> addr list \<Rightarrow> bool" where
  "iter_rep m0 self it m ys = (it \<noteq> NULL \<and> (\<exists>zs i.
     m = m0\<lparr>iters := (iters m0)(it \<mapsto> i)\<rparr> \<and> it_next i = hd_or NULL ys \<and>
     list_rep m0 self (walk (it_direction i) zs ys)))"

lemma iter_repI:
  "it \<noteq> NULL \<Longrightarrow> it_next i = hd_or NULL ys \<Longrightarrow> list_rep m0 self (walk (it_direction i) zs ys) \<Longrightarrow>
     iter_rep m0 self it (m0\<lparr>iters := (iters m0)(it \<mapsto> i)\<rparr>) ys"
  by (auto simp: iter_rep_def)

lemma iter_repE:
  assumes "iter_rep m0 self it m ys"
  obtains zs i where "it \<noteq> NULL" "m = m0\<lparr>iters := (iters m0)(it \<mapsto> i)\<rparr>" "it_next i = hd_or NULL ys"
    "list_rep m0 self (walk (it_direction i) zs ys)"
  using assms unfolding iter_rep_def by blast

lemma iter_rep_not_null: "iter_rep m0 self it m ys \<Longrightarrow> NULL \<notin> set ys"
proof (erule iter_repE)
  fix zs i assume rep: "list_rep m0 self (walk (it_direction i) zs ys)"
  have "set ys \<subseteq> set (walk (it_direction i) zs ys)" by (cases "it_direction i") auto
  then show "NULL \<notin> set ys" using list_rep_node(1)[OF rep] by blast
qed

lemma iter_rep_next_Nil:
  "iter_rep m0 self it m [] \<Longrightarrow>
     returns (list_iterator_next m it) (\<lambda>r m'. r = NULL \<and> iter_rep m0 self it m' [])"
  by (erule iter_repE) (simp add: list_iterator_next_def heap_ops iter_repI)

lemma iter_rep_next_Cons:
  assumes "iter_rep m0 self it m (y # ys)"
  shows "returns (list_iterator_next m it) (\<lambda>r m'. r = y \<and> iter_rep m0 self it m' ys)"
proof -
  from assms obtain zs i where i: "it \<noteq> NULL" "m = m0\<lparr>iters := (iters m0)(it \<mapsto> i)\<rparr>"
    "it_next i = y" and rep: "list_rep m0 self (walk (it_direction i) zs (y # ys))"
    by (rule iter_repE) auto
  show ?thesis
  proof (cases "it_direction i")
    case LIST_HEAD
    with rep obtain n where n: "nodes m0 y = Some n" "ln_next n = hd_or NULL ys" "y \<noteq> NULL"
      by (auto elim: list_rep_split)
    have "iter_rep m0 self it (m0\<lparr>iters := (iters m0)(it \<mapsto> i\<lparr>it_next := hd_or NULL ys\<rparr>)\<rparr>) ys"
      using LIST_HEAD rep i(1) by (intro iter_repI[where zs = "zs @ [y]"]) auto
    with LIST_HEAD i n show ?thesis
      by (auto simp: list_iterator_next_def heap_ops)
  next
    case LIST_TAIL
    with rep obtain n where n: "nodes m0 y = Some n" "ln_prev n = last_or NULL (rev ys)" "y \<noteq> NULL"
      by (auto elim: list_rep_split)
    have prev: "last_or NULL (rev ys) = hd_or NULL ys" by (cases ys) auto
    have "iter_rep m0 self it (m0\<lparr>iters := (iters m0)(it \<mapsto> i\<lparr>it_next := hd_or NULL ys\<rparr>)\<rparr>) ys"
      using LIST_TAIL rep i(1) by (intro iter_repI[where zs = "y # zs"]) auto
    with LIST_TAIL i n show ?thesis
      by (auto simp: list_iterator_next_def heap_ops prev)
  qed
qed

interpretation iter: node_source "\<lambda>m. list_iterator_next m it" "iter_rep m0 self it" for m0 self it
  by unfold_locales (simp_all add: iter_rep_next_Nil iter_rep_next_Cons iter_rep_not_null)

interpretation lpop: node_source "\<lambda>m. list_lpop m self" "\<lambda>m xs. list_rep m self xs" for self
proof unfold_locales
  show "returns (list_lpop m self) (\<lambda>r m'. r = NULL \<and> list_rep m' self [])"
    if "list_rep m self []" for m :: "'a lmem"
    using that by (simp add: list_lpop_empty)
  show "returns (list_lpop m self) (\<lambda>r m'. r = x \<and> list_rep m' self xs)"
    if "list_rep m self (x # xs)" for m :: "'a lmem" and x xs
    using list_lpop_spec[OF that] by (rule returns_mono) auto
  show "NULL \<notin> set xs" if "list_rep m self xs" for m :: "'a lmem" and xs
    using list_rep_node(1)[OF that] by blast
qed

interpretation rpop: node_source "\<lambda>m. list_rpop m self" "\<lambda>m xs. list_rep m self (rev xs)" for self
proof unfold_locales
  show "returns (list_rpop m self) (\<lambda>r m'. r = NULL \<and> list_rep m' self (rev []))"
    if "list_rep m self (rev [])" for m :: "'a lmem"
    using that by (simp add: list_rpop_empty)
  show "returns (list_rpop m self) (\<lambda>r m'. r = x \<and> list_rep m' self (rev xs))"
    if "list_rep m self (rev (x # xs))" for m :: "'a lmem" and x xs
    using that by (auto intro: returns_mono[OF list_rpop_spec])
  show "NULL \<notin> set xs" if "list_rep m self (rev xs)" for m :: "'a lmem" and xs
    using list_rep_node(1)[OF that] by auto
qed

section \<open>Indexing and searching\<close>

text \<open>Addresses above the allocation counter are unused, so \<^verbatim>\<open>malloc\<close> returns a new block.\<close>

definition fresh_heap :: "'v lmem \<Rightarrow> bool" where
  "fresh_heap m = (\<forall>x. allocs m < x \<longrightarrow> nodes m x = None \<and> lists m x = None \<and> iters m x = None)"

lemma list_iterator_new_ok:
  assumes rep: "list_rep m self xs" and ok: "malloc_ok m (allocs m)"
  shows "returns (list_iterator_new m self dir) (\<lambda>it m'. it = Suc (allocs m) \<and>
    iter_rep (m\<lparr>allocs := Suc (allocs m)\<rparr>) self it m'
      (case dir of LIST_HEAD \<Rightarrow> xs | LIST_TAIL \<Rightarrow> rev xs))"
proof -
  let ?m0 = "m\<lparr>allocs := Suc (allocs m)\<rparr>" and ?ys = "case dir of LIST_HEAD \<Rightarrow> xs | LIST_TAIL \<Rightarrow> rev xs"
  let ?i = "\<lparr>it_next = hd_or NULL ?ys, it_direction = dir\<rparr>"
  from rep obtain l where l: "self \<noteq> NULL" "lists m self = Some l"
    "lst_head l = hd_or NULL xs" "lst_tail l = last_or NULL xs" by (rule list_repE)
  have "hd_or NULL (rev xs) = last_or NULL xs" by (cases xs rule: rev_cases) auto
  moreover have "iter_rep ?m0 self (Suc (allocs m)) (?m0\<lparr>iters := (iters ?m0)(Suc (allocs m) \<mapsto> ?i)\<rparr>) ?ys"
    by (rule iter_repI[where zs = "[]"]) (use rep in \<open>cases dir; simp\<close>)+
  ultimately show ?thesis using l ok
    by (cases dir) (simp_all add: list_iterator_new_def list_iterator_new_from_node_def lmalloc_def heap_ops)
qed

lemma list_iterator_destroy_ok:
  "iter_rep m0 self it m ys \<Longrightarrow>
     list_iterator_destroy m it = Some (m0\<lparr>iters := (iters m0)(it := None)\<rparr>)"
  by (erule iter_repE) (simp add: list_iterator_destroy_def heap_ops)

lemma sint_u32_bounds: "- (2 ^ 31) \<le> sint (w :: u32)" "sint w < 2 ^ 31"
  using sint_greater_eq[of w] sint_less[of w] by simp_all

lemma sint_not_u32: "sint (NOT (w :: u32)) = - sint w - 1"
proof -
  have "signed_take_bit 32 (NOT (sint w)) = NOT (sint w)"
    using sint_u32_bounds[of w]
    by (intro signed_take_bit_int_eq_self) (simp_all add: not_eq_complement)
  then show ?thesis by (simp only: signed_not_eq) (simp add: not_eq_complement)
qed

lemma unat_nonneg_sint: "0 \<le> sint (w :: u32) \<Longrightarrow> int (unat w) = sint w"
  using sint_u32_bounds[of w] uint_sint[of w] by (simp add: take_bit_int_eq_self)

text \<open>
  The node a signed index denotes: counted from the head when it is not negative, from the
  tail (\<open>-1\<close> is the last node) when it is, \<^verbatim>\<open>NULL\<close> out of range.
\<close>

definition at_index :: "addr list \<Rightarrow> int \<Rightarrow> addr" where
  "at_index xs i =
     (if 0 \<le> i \<and> i < int (length xs) then xs ! nat i
      else if i < 0 \<and> - i \<le> int (length xs) then xs ! nat (int (length xs) + i)
      else NULL)"

lemma at_index_cases:
  fixes index :: u32
  defines "k \<equiv> unat (if sint index < 0 then NOT index else index)"
  shows "at_index xs (sint index) =
    (if k < length xs then (if sint index < 0 then rev xs else xs) ! k else NULL)"
proof (cases "sint index < 0")
  case True
  have k: "int k = - sint index - 1"
    using True unat_nonneg_sint[of "NOT index"] by (simp add: k_def sint_not_u32)
  then have "nat (int (length xs) + sint index) = length xs - Suc k" if "k < length xs" using that by linarith
  with k True show ?thesis by (auto simp: at_index_def rev_nth)
next
  case False
  have "int k = sint index" using False unat_nonneg_sint[of index] by (simp add: k_def)
  then have "nat (sint index) = k" by linarith
  with \<open>int k = sint index\<close> False show ?thesis by (auto simp: at_index_def)
qed

text \<open>A run over the list with an iterator leaves the heap as it was, but for the counter.\<close>

lemma iter_done:
  assumes "iter_rep (m\<lparr>allocs := Suc (allocs m)\<rparr>) self (Suc (allocs m)) m' ys" "fresh_heap m"
  shows "list_iterator_destroy m' (Suc (allocs m)) = Some (m\<lparr>allocs := Suc (allocs m)\<rparr>)"
proof -
  have "iters m (Suc (allocs m)) = None" using assms(2) by (auto simp: fresh_heap_def)
  then have "(iters m)(Suc (allocs m) := None) = iters m" by auto
  then show ?thesis using list_iterator_destroy_ok[OF assms(1)] by simp
qed

lemma list_at_ok:
  assumes rep: "list_rep m self xs" and fresh: "fresh_heap m" and ok: "malloc_ok m (allocs m)"
  shows "returns (list_at m self index) (\<lambda>r m'. r = at_index xs (sint index) \<and>
    m' = (if at_index xs (sint index) = NULL then m else m\<lparr>allocs := Suc (allocs m)\<rparr>))"
proof -
  define dir where "dir = (if sint index < 0 then LIST_TAIL else LIST_HEAD)"
  define w where "w = (if sint index < 0 then NOT index else index)"
  define ys where "ys = (case dir of LIST_HEAD \<Rightarrow> xs | LIST_TAIL \<Rightarrow> rev xs)"
  have ys: "ys = (if sint index < 0 then rev xs else xs)" "length ys = length xs" "set ys = set xs"
    by (auto simp: ys_def dir_def)
  from rep obtain l where l: "lists m self = Some l" "self \<noteq> NULL" "lst_len l = of_nat (length xs)"
    "length xs < 2 ^ 32" by (rule list_repE)
  have at: "at_index xs (sint index) = (if unat w < length xs then ys ! unat w else NULL)"
    unfolding at_index_cases w_def ys by simp
  have lt: "w < lst_len l \<longleftrightarrow> unat w < length xs"
    using l(3,4) by (simp add: word_less_nat_alt unat_of_nat_small)
  show ?thesis
  proof (cases "unat w < length xs")
    case False
    then show ?thesis using lt l at by (simp add: list_at_def heap_ops w_def[symmetric])
  next
    case True
    then obtain z zs where z: "ys = z # zs" using ys(2) by (cases ys) auto
    have "z \<noteq> NULL" "ys ! unat w \<noteq> NULL"
      using list_rep_node(1)[OF rep] True ys(2,3) z nth_mem[of "unat w" ys] by auto
    obtain m1 where m1: "list_iterator_new m self dir = Some (Suc (allocs m), m1)"
      "iter_rep (m\<lparr>allocs := Suc (allocs m)\<rparr>) self (Suc (allocs m)) m1 ys"
      using list_iterator_new_ok[OF rep ok, of dir] by (auto simp: ys_def elim!: returnsE)
    obtain m2 where m2: "list_iterator_next m1 (Suc (allocs m)) = Some (z, m2)"
      "iter_rep (m\<lparr>allocs := Suc (allocs m)\<rparr>) self (Suc (allocs m)) m2 zs"
      using iter.nxt_Cons[OF m1(2)[unfolded z]] by (auto elim!: returnsE)
    have le: "unat w \<le> length zs" using True ys(2) z by simp
    obtain m3 where m3: "skip (unat w) (\<lambda>m'. list_iterator_next m' (Suc (allocs m))) m2 z
        = Some (ys ! unat w, m3)"
      "iter_rep (m\<lparr>allocs := Suc (allocs m)\<rparr>) self (Suc (allocs m)) m3 (drop (unat w) zs)"
      using iter.skip_nth[OF m2(2) le, of z] by (auto simp: z elim!: returnsE)
    show ?thesis
      using True lt l at m1(1) m2(1) m3(1) iter_done[OF m3(2) fresh] \<open>ys ! unat w \<noteq> NULL\<close>
      by (simp add: list_at_def heap_ops w_def[symmetric] dir_def[symmetric])
  qed
qed

lemma list_find_ok:
  assumes rep: "list_rep m self xs" and fresh: "fresh_heap m" and ok: "malloc_ok m (allocs m)"
    and l: "lists m self = Some l"
  shows "returns (list_find m self v) (\<lambda>r m'.
    r = (case List.find (\<lambda>x. node_matches l v (ln_val (the (nodes m x)))) xs of
           None \<Rightarrow> NULL | Some x \<Rightarrow> x) \<and>
    m' = m\<lparr>allocs := Suc (allocs m)\<rparr>)"
proof -
  let ?m0 = "m\<lparr>allocs := Suc (allocs m)\<rparr>" and ?it = "Suc (allocs m)"
  let ?P = "\<lambda>x. node_matches l v (ln_val (the (nodes m x)))"
  obtain m1 where m1: "list_iterator_new m self LIST_HEAD = Some (?it, m1)"
    "iter_rep ?m0 self ?it m1 xs"
    using list_iterator_new_ok[OF rep ok, of LIST_HEAD] by (auto elim!: returnsE)
  have "self \<noteq> NULL" using rep by (rule list_repE)
  then have test: "list_find_test self v m' x = Some (?P x)"
    if "iter_rep ?m0 self ?it m' ys" "x \<in> set xs" for m' ys x
    using that l list_rep_node[OF rep that(2)]
    by (auto elim!: iter_repE simp: list_find_test_def heap_ops)
  have "returns (search (\<lambda>m'. list_iterator_next m' ?it) (list_find_test self v) m1)
    (\<lambda>r m'. r = (case List.find ?P xs of None \<Rightarrow> NULL | Some x \<Rightarrow> x) \<and> (\<exists>ys. iter_rep ?m0 self ?it m' ys))"
    using iter.search_find[OF m1(2), of "set xs" "list_find_test self v" ?P] test by simp
  then obtain m2 ys where m2: "search (\<lambda>m'. list_iterator_next m' ?it) (list_find_test self v) m1
      = Some (case List.find ?P xs of None \<Rightarrow> NULL | Some x \<Rightarrow> x, m2)"
    "iter_rep ?m0 self ?it m2 ys" by (auto elim!: returnsE)
  show ?thesis
    using m1(1) m2(1) iter_done[OF m2(2) fresh] by (simp add: list_find_def)
qed

lemma list_destroy_ok:
  assumes rep: "list_rep m self xs" and l: "lists m self = Some l"
  shows "yields (list_destroy m self) (\<lambda>m'. lists m' = (lists m)(self := None) \<and>
    (\<forall>x \<in> set xs. nodes m' x = None) \<and> (\<forall>x. x \<notin> set xs \<longrightarrow> nodes m' x = nodes m x) \<and>
    iters m' = iters m \<and>
    freed_vals m' = freed_vals m @ (if lst_free l then map (\<lambda>x. ln_val (the (nodes m x))) xs else []))"
proof -
  from rep l have r: "self \<noteq> NULL" "dchain (links_of (nodes m)) NULL xs NULL" "distinct xs"
    "lst_head l = hd_or NULL xs" "lst_len l = of_nat (length xs)" "length xs < 2 ^ 32"
    by (auto elim!: list_repE)
  have len: "unat (lst_len l) = length xs" using r(5,6) by (simp add: unat_of_nat_small)
  from list_destroy_loop_spec[OF r(2,3,1) l r(4)] show ?thesis
    using l r(1) by (auto simp: list_destroy_def heap_ops len elim!: yieldsE)
qed

section \<open>Clients: filling and emptying a list\<close>

text \<open>\<^verbatim>\<open>while (n--) list_rpush(list, list_node_new(v))\<close> and the same with \<^verbatim>\<open>list_lpush\<close>\<close>

primrec fill :: "nat \<Rightarrow> ('v lmem \<Rightarrow> addr \<Rightarrow> addr \<Rightarrow> (addr \<times> 'v lmem) option) \<Rightarrow>
    'v lmem \<Rightarrow> addr \<Rightarrow> 'v \<Rightarrow> 'v lmem option" where
  "fill 0 push m lst v = Some m"
| "fill (Suc n) push m lst v = (let (node, m) = list_node_new m v in
     Option.bind (push m lst node) (\<lambda>(_, m). fill n push m lst v))"

definition bm_rpush :: "nat \<Rightarrow> 'v \<Rightarrow> 'v lmem \<Rightarrow> (addr \<times> 'v lmem) option" where
  "bm_rpush nnodes v m = (let (lst, m) = list_new m in do {
     m \<leftarrow> fill nnodes list_rpush m lst v;
     Some (lst, m) })"

definition bm_lpush :: "nat \<Rightarrow> 'v \<Rightarrow> 'v lmem \<Rightarrow> (addr \<times> 'v lmem) option" where
  "bm_lpush nnodes v m = (let (lst, m) = list_new m in do {
     m \<leftarrow> fill nnodes list_lpush m lst v;
     Some (lst, m) })"

definition bm_find :: "nat \<Rightarrow> 'v \<Rightarrow> 'v \<Rightarrow> 'v lmem \<Rightarrow> (addr \<times> 'v lmem) option" where
  "bm_find nnodes foo bar m = (let (lst, m) = list_new m in do {
     m \<leftarrow> fill nnodes list_lpush m lst foo;
     let (node, m) = list_node_new m bar;
     (_, m) \<leftarrow> list_rpush m lst node;
     list_find m lst bar })"

definition bm_iterate :: "nat \<Rightarrow> 'v \<Rightarrow> 'v lmem \<Rightarrow> (addr list \<times> 'v lmem) option" where
  "bm_iterate nnodes v m = (let (lst, m) = list_new m in do {
     m \<leftarrow> fill nnodes list_lpush m lst v;
     (it, m) \<leftarrow> list_iterator_new m lst LIST_HEAD;
     drain (\<lambda>m. list_iterator_next m it) m })"

definition bm_rpop :: "nat \<Rightarrow> 'v \<Rightarrow> 'v lmem \<Rightarrow> (addr list \<times> 'v lmem) option" where
  "bm_rpop nnodes v m = (let (lst, m) = list_new m in do {
     m \<leftarrow> fill nnodes list_lpush m lst v;
     drain (\<lambda>m. list_rpop m lst) m })"

definition bm_lpop :: "nat \<Rightarrow> 'v \<Rightarrow> 'v lmem \<Rightarrow> (addr list \<times> 'v lmem) option" where
  "bm_lpop nnodes v m = (let (lst, m) = list_new m in do {
     m \<leftarrow> fill nnodes list_lpush m lst v;
     drain (\<lambda>m. list_lpop m lst) m })"

text \<open>The nodes that \<open>n\<close> calls of \<^verbatim>\<open>list_node_new\<close> allocate, oldest first.\<close>

definition new_nodes :: "'v lmem \<Rightarrow> nat \<Rightarrow> addr list" where
  "new_nodes m n = map Suc (filter (malloc_ok m) [allocs m..<allocs m + n])"

lemma list_new_ok:
  assumes "fresh_heap m" "malloc_ok m (allocs m)"
  shows "\<exists>m'. list_new m = (Suc (allocs m), m') \<and> list_rep m' (Suc (allocs m)) [] \<and> fresh_heap m' \<and>
    allocs m' = Suc (allocs m) \<and> malloc_ok m' = malloc_ok m \<and> nodes m' = nodes m"
  using assms by (auto simp: list_new_def lmalloc_def list_rep_def fresh_heap_def)

lemma list_node_new_fresh:
  assumes "fresh_heap m" "list_rep m self xs" "list_node_new m v = (node, m')"
  shows "fresh_heap m'" "list_rep m' self xs" "allocs m' = Suc (allocs m)" "malloc_ok m' = malloc_ok m"
    and "node = (if malloc_ok m (allocs m) then Suc (allocs m) else NULL)"
    and "node \<noteq> NULL \<Longrightarrow> live_node m' node \<and> node \<notin> set xs \<and> nodes m node = None"
    and "x \<noteq> node \<Longrightarrow> nodes m' x = nodes m x"
    and "node \<noteq> NULL \<Longrightarrow> vals_of (nodes m') node = Some v"
proof -
  have "nodes m (Suc (allocs m)) = None" using assms(1) by (simp add: fresh_heap_def)
  then have new: "Suc (allocs m) \<notin> set xs" "nodes m (Suc (allocs m)) = None"
    using list_rep_node(2)[OF assms(2), of "Suc (allocs m)"] by auto
  have m': "m' = (if malloc_ok m (allocs m)
      then m\<lparr>allocs := Suc (allocs m), nodes := (nodes m)(Suc (allocs m) \<mapsto> \<lparr>ln_prev = NULL, ln_next = NULL, ln_val = v\<rparr>)\<rparr>
      else m\<lparr>allocs := Suc (allocs m)\<rparr>)"
    and node: "node = (if malloc_ok m (allocs m) then Suc (allocs m) else NULL)"
    using assms(3) by (auto simp: list_node_new_def lmalloc_def split: if_splits)
  show "fresh_heap m'" using assms(1) by (auto simp: m' fresh_heap_def)
  show "list_rep m' self xs"
    using assms(2) new(1) by (auto simp: m' list_rep_def split: option.splits)
  show "allocs m' = Suc (allocs m)" "malloc_ok m' = malloc_ok m" by (auto simp: m')
  show "node = (if malloc_ok m (allocs m) then Suc (allocs m) else NULL)" by (rule node)
  show "live_node m' node \<and> node \<notin> set xs \<and> nodes m node = None" if "node \<noteq> NULL"
    using that new by (auto simp: m' node live_node_def split: if_splits)
  show "nodes m' x = nodes m x" if "x \<noteq> node" using that by (auto simp: m' node)
  show "vals_of (nodes m') node = Some v" if "node \<noteq> NULL"
    using that by (auto simp: m' node vals_of_def split: if_splits)
qed

lemma keeps_fresh_heap:
  assumes "keeps self m m'" "fresh_heap m" "list_rep m self xs"
  shows "fresh_heap m'"
proof -
  have "vals_of (nodes m') x = vals_of (nodes m) x" for x using assms(1) by (simp add: keeps_def)
  then have "(nodes m' x = None) = (nodes m x = None)" for x
    by (metis map_option_is_None vals_of_def)
  moreover have "self \<le> allocs m"
    using assms(2,3) by (metis fresh_heap_def list_repE not_le_imp_less option.distinct(1))
  ultimately show ?thesis using assms(1,2) by (auto simp: fresh_heap_def keeps_def)
qed

text \<open>One end of a list as the fill loop uses it: where \<open>push\<close> puts a new node.\<close>

locale push_end =
  fixes push :: "'v lmem \<Rightarrow> addr \<Rightarrow> addr \<Rightarrow> (addr \<times> 'v lmem) option"
    and add :: "addr \<Rightarrow> addr list \<Rightarrow> addr list"
  assumes push_null: "push m self NULL = Some (NULL, m)"
    and push_ok: "list_rep m self xs \<Longrightarrow> live_node m node \<Longrightarrow> node \<notin> set xs \<Longrightarrow>
      Suc (length xs) < 2 ^ 32 \<Longrightarrow>
      returns (push m self node) (\<lambda>r m'. r = node \<and> list_rep m' self (add node xs) \<and> keeps self m m')"
    and length_add: "length (add node xs) = Suc (length xs)"
begin

lemma fill_nodes:
  "list_rep m self xs \<Longrightarrow> fresh_heap m \<Longrightarrow> length xs + n < 2 ^ 32 \<Longrightarrow>
   yields (fill n push m self v) (\<lambda>m'. list_rep m' self (fold add (new_nodes m n) xs) \<and>
     fresh_heap m' \<and> allocs m' = allocs m + n \<and> malloc_ok m' = malloc_ok m \<and>
     (\<forall>x. nodes m x \<noteq> None \<longrightarrow> vals_of (nodes m') x = vals_of (nodes m) x) \<and>
     (\<forall>x \<in> set (new_nodes m n). vals_of (nodes m') x = Some v))"
proof (induction n arbitrary: m xs)
  case 0
  then show ?case by (simp add: new_nodes_def)
next
  case (Suc n)
  obtain node m1 where nn: "list_node_new m v = (node, m1)" by fastforce
  note new = list_node_new_fresh[OF Suc.prems(2,1) nn]
  have up: "[allocs m..<allocs m + Suc n] = allocs m # [Suc (allocs m)..<Suc (allocs m) + n]"
    by (simp add: upt_rec)
  show ?case
  proof (cases "malloc_ok m (allocs m)")
    case False
    have "new_nodes m (Suc n) = new_nodes m1 n"
      unfolding new_nodes_def up using False new(3,4) by simp
    moreover have "nodes m1 = nodes m"
      using nn False by (auto simp: list_node_new_def lmalloc_def)
    ultimately show ?thesis
      using Suc.IH[OF new(2,1)] Suc.prems(3) nn new(3,4,5) False push_null by auto
  next
    case True
    then have node: "node = Suc (allocs m)" "node \<noteq> NULL" using new(5) by auto
    obtain m2 where m2: "push m1 self node = Some (node, m2)" "list_rep m2 self (add node xs)"
      "keeps self m1 m2"
      using push_ok[OF new(2), of node] new(6)[OF node(2)] Suc.prems(3) by (auto elim!: returnsE)
    have k: "allocs m2 = allocs m1" "malloc_ok m2 = malloc_ok m1" "vals_of (nodes m2) = vals_of (nodes m1)"
      using m2(3) by (auto simp: keeps_def)
    have live: "(nodes m2 x \<noteq> None) = (nodes m1 x \<noteq> None)" for x
      using k(3) by (metis map_option_is_None vals_of_def)
    have nodes: "new_nodes m (Suc n) = node # new_nodes m2 n"
      unfolding new_nodes_def up using True new(3,4) k node by simp
    have v1: "vals_of (nodes m1) node = Some v" using new(8) node by blast
    have old: "nodes m1 x \<noteq> None \<and> vals_of (nodes m1) x = vals_of (nodes m) x" if "nodes m x \<noteq> None" for x
      using that new(6,7) node by (metis vals_of_def)
    from Suc.IH[OF m2(2) keeps_fresh_heap[OF m2(3) new(1,2)]] Suc.prems(3) length_add
    obtain m3 where m3: "fill n push m2 self v = Some m3"
      "list_rep m3 self (fold add (new_nodes m2 n) (add node xs))" "fresh_heap m3"
      "allocs m3 = allocs m2 + n" "malloc_ok m3 = malloc_ok m2"
      "\<And>x. nodes m2 x \<noteq> None \<Longrightarrow> vals_of (nodes m3) x = vals_of (nodes m2) x"
      "\<And>x. x \<in> set (new_nodes m2 n) \<Longrightarrow> vals_of (nodes m3) x = Some v"
      by (auto elim!: yieldsE)
    have "vals_of (nodes m3) x = vals_of (nodes m) x" if "nodes m x \<noteq> None" for x
      using m3(6)[of x] old[OF that] live k(3) by simp
    moreover have "vals_of (nodes m3) node = Some v"
      using m3(6)[of node] live v1 k(3) by (auto simp: vals_of_def)
    ultimately show ?thesis
      using nn m2(1) m3 nodes new(3,4) k by auto
  qed
qed

end

interpretation right_end: push_end list_rpush "\<lambda>x xs. xs @ [x]"
  by unfold_locales (simp_all add: list_rpush_def[of _ _ NULL] list_rpush_spec)

interpretation left_end: push_end list_lpush "(#)"
  by unfold_locales (simp_all add: list_lpush_def[of _ _ NULL] list_lpush_spec)

lemma fold_snoc: "fold (\<lambda>x xs. xs @ [x]) ys xs = xs @ ys"
  by (induction ys arbitrary: xs) auto

lemma fold_Cons: "fold (#) ys xs = rev ys @ xs"
  by (induction ys arbitrary: xs) auto

section \<open>Refinement of an abstract deque\<close>

text \<open>
  A client's calls on one list, their effect on the model heap (\<open>exec_op\<close>), and what they do
  to the pair of the node sequence and the set of live nodes (\<open>deque_op\<close>). \<open>op_pre\<close> is what the
  library expects of its caller: a node is pushed only while it is in no list, and removed only
  while it is in this one.
\<close>

datatype list_op = Rpush addr | Lpush addr | Rpop | Lpop | Remove addr

fun exec_op :: "list_op \<Rightarrow> 'v lmem \<Rightarrow> addr \<Rightarrow> (addr \<times> 'v lmem) option" where
  "exec_op (Rpush x) m self = list_rpush m self x"
| "exec_op (Lpush x) m self = list_lpush m self x"
| "exec_op Rpop m self = list_rpop m self"
| "exec_op Lpop m self = list_lpop m self"
| "exec_op (Remove x) m self = map_option (\<lambda>m. (x, m)) (list_remove m self x)"

fun op_pre :: "list_op \<Rightarrow> addr list \<times> addr set \<Rightarrow> bool" where
  "op_pre (Rpush x) (xs, L) = (x \<in> L \<and> x \<notin> set xs \<and> Suc (length xs) < 2 ^ 32)"
| "op_pre (Lpush x) (xs, L) = (x \<in> L \<and> x \<notin> set xs \<and> Suc (length xs) < 2 ^ 32)"
| "op_pre (Remove x) (xs, L) = (x \<in> set xs)"
| "op_pre _ _ = True"

fun deque_op :: "list_op \<Rightarrow> addr list \<times> addr set \<Rightarrow> addr \<times> addr list \<times> addr set" where
  "deque_op (Rpush x) (xs, L) = (x, xs @ [x], L)"
| "deque_op (Lpush x) (xs, L) = (x, x # xs, L)"
| "deque_op Rpop (xs, L) = (last_or NULL xs, butlast xs, L)"
| "deque_op Lpop (xs, L) = (hd_or NULL xs, tl xs, L)"
| "deque_op (Remove x) (xs, L) = (x, remove1 x xs, L - {x})"

fun exec_ops :: "list_op list \<Rightarrow> 'v lmem \<Rightarrow> addr \<Rightarrow> (addr list \<times> 'v lmem) option" where
  "exec_ops [] m self = Some ([], m)"
| "exec_ops (p # ps) m self = Option.bind (exec_op p m self) (\<lambda>(r, m).
     Option.bind (exec_ops ps m self) (\<lambda>(rs, m). Some (r # rs, m)))"

fun deque_ops :: "list_op list \<Rightarrow> addr list \<times> addr set \<Rightarrow> addr list \<times> addr list \<times> addr set" where
  "deque_ops [] s = ([], s)"
| "deque_ops (p # ps) s = (let (r, s) = deque_op p s; (rs, s) = deque_ops ps s in (r # rs, s))"

fun ops_pre :: "list_op list \<Rightarrow> addr list \<times> addr set \<Rightarrow> bool" where
  "ops_pre [] s = True"
| "ops_pre (p # ps) s = (op_pre p s \<and> ops_pre ps (snd (deque_op p s)))"

definition list_abs :: "'v lmem \<Rightarrow> addr \<Rightarrow> addr list \<times> addr set \<Rightarrow> bool" where
  "list_abs m self s = (list_rep m self (fst s) \<and> snd s = {x. live_node m x})"

lemma keeps_live: "keeps self m m' \<Longrightarrow> live_node m' x = live_node m x"
proof -
  assume "keeps self m m'"
  then have "vals_of (nodes m') x = vals_of (nodes m) x" by (simp add: keeps_def)
  then have "(nodes m' x = None) = (nodes m x = None)" by (metis map_option_is_None vals_of_def)
  then show ?thesis by (simp add: live_node_def)
qed

lemma list_abs_keeps: "list_rep m' self ys \<Longrightarrow> keeps self m m' \<Longrightarrow> list_abs m self (xs, L) \<Longrightarrow> list_abs m' self (ys, L)"
  by (auto simp: list_abs_def keeps_live)

lemma exec_op_refines:
  assumes abs: "list_abs m self (xs, L)" and pre: "op_pre p (xs, L)"
  shows "returns (exec_op p m self)
    (\<lambda>r m'. r = fst (deque_op p (xs, L)) \<and> list_abs m' self (snd (deque_op p (xs, L))))"
proof -
  have rep: "list_rep m self xs" and L: "L = {x. live_node m x}" using abs by (auto simp: list_abs_def)
  have live: "x \<in> L \<Longrightarrow> live_node m x" for x using L by blast
  show ?thesis
  proof (cases p)
    case (Rpush x)
    with pre live show ?thesis
      by (auto intro!: returns_mono[OF list_rpush_spec[OF rep]] list_abs_keeps[OF _ _ abs])
  next
    case (Lpush x)
    with pre live show ?thesis
      by (auto intro!: returns_mono[OF list_lpush_spec[OF rep]] list_abs_keeps[OF _ _ abs])
  next
    case Rpop
    show ?thesis
    proof (cases xs rule: rev_cases)
      case Nil
      then show ?thesis using Rpop rep abs by (simp add: list_rpop_empty)
    next
      case (snoc ys y)
      then show ?thesis using Rpop rep abs
        by (auto intro!: returns_mono[OF list_rpop_spec] intro: list_abs_keeps)
    qed
  next
    case Lpop
    show ?thesis
    proof (cases xs)
      case Nil
      then show ?thesis using Lpop rep abs by (simp add: list_lpop_empty)
    next
      case (Cons y ys)
      then show ?thesis using Lpop rep abs
        by (auto intro!: returns_mono[OF list_lpop_spec] intro: list_abs_keeps)
    qed
  next
    case (Remove x)
    with pre obtain ys zs where xs: "xs = ys @ x # zs" "x \<notin> set ys" by (auto dest: split_list_first)
    from list_remove_spec[OF rep[unfolded xs]] obtain m' where m': "list_remove m self x = Some m'"
      "list_rep m' self (ys @ zs)" "nodes m' x = None"
      "\<forall>y. y \<noteq> x \<longrightarrow> vals_of (nodes m') y = vals_of (nodes m) y" by (auto elim!: yieldsE)
    have "(nodes m' y = None) = (nodes m y = None)" if "y \<noteq> x" for y
      using m'(4) that by (metis map_option_is_None vals_of_def)
    then have "live_node m' y = (live_node m y \<and> y \<noteq> x)" for y
      using m'(3) by (cases "y = x") (simp_all add: live_node_def)
    then have "{y. live_node m' y} = L - {x}" using L by blast
    moreover have "remove1 x xs = ys @ zs" using xs by (simp add: remove1_append)
    ultimately show ?thesis using Remove m' by (simp add: list_abs_def)
  qed
qed

lemma exec_ops_refines:
  "list_abs m self s \<Longrightarrow> ops_pre ps s \<Longrightarrow>
   returns (exec_ops ps m self) (\<lambda>rs m'. rs = fst (deque_ops ps s) \<and> list_abs m' self (snd (deque_ops ps s)))"
proof (induction ps arbitrary: m s)
  case Nil
  then show ?case by simp
next
  case (Cons p ps)
  obtain xs L where s: "s = (xs, L)" by fastforce
  from exec_op_refines[of m self xs L p] Cons.prems
  obtain m1 where m1: "exec_op p m self = Some (fst (deque_op p s), m1)" "list_abs m1 self (snd (deque_op p s))"
    by (auto simp: s elim!: returnsE)
  from Cons.IH[OF m1(2)] Cons.prems(2)
  obtain m2 where m2: "exec_ops ps m1 self = Some (fst (deque_ops ps (snd (deque_op p s))), m2)"
    "list_abs m2 self (snd (deque_ops ps (snd (deque_op p s))))" by (auto elim!: returnsE)
  then show ?case using m1(1) by (simp add: split_beta)
qed

section \<open>Properties\<close>

text \<open>A heap for the witnesses: an empty list at 4 and three free nodes at 1, 2, 3.\<close>

definition sample_heap :: "nat lmem" where
  "sample_heap = \<lparr>
     nodes = [1 \<mapsto> \<lparr>ln_prev = 0, ln_next = 0, ln_val = 11\<rparr>, 2 \<mapsto> \<lparr>ln_prev = 0, ln_next = 0, ln_val = 22\<rparr>,
              3 \<mapsto> \<lparr>ln_prev = 0, ln_next = 0, ln_val = 33\<rparr>],
     lists = [4 \<mapsto> \<lparr>lst_head = 0, lst_tail = 0, lst_len = 0, lst_free = True, lst_match = None\<rparr>],
     iters = Map.empty, allocs = 4, malloc_ok = (\<lambda>_. True), freed_vals = []\<rparr>"

definition chain_heap :: "nat lmem" where
  "chain_heap = sample_heap\<lparr>
     nodes := [1 \<mapsto> \<lparr>ln_prev = 0, ln_next = 2, ln_val = 11\<rparr>, 2 \<mapsto> \<lparr>ln_prev = 1, ln_next = 3, ln_val = 22\<rparr>,
               3 \<mapsto> \<lparr>ln_prev = 2, ln_next = 0, ln_val = 33\<rparr>],
     lists := [4 \<mapsto> \<lparr>lst_head = 1, lst_tail = 3, lst_len = 3, lst_free = True, lst_match = None\<rparr>]\<rparr>"

lemma sample_heap_abs: "list_abs sample_heap 4 ([], {1, 2, 3})"
  by (auto simp: list_abs_def sample_heap_def list_rep_def live_node_def split: if_splits)

lemma chain_heap_rep: "list_rep chain_heap 4 [1, 2, 3]"
  by (simp add: chain_heap_def sample_heap_def list_rep_def links_of_def)

lemma sample_heap_ok: "fresh_heap chain_heap" "fresh_heap sample_heap"
  "malloc_ok chain_heap n" "malloc_ok sample_heap n"
  by (auto simp: chain_heap_def sample_heap_def fresh_heap_def)

text \<open>C1: Every sequence of \<^verbatim>\<open>list_rpush\<close>, \<^verbatim>\<open>list_lpush\<close>, \<^verbatim>\<open>list_rpop\<close>, \<^verbatim>\<open>list_lpop\<close> and
  \<^verbatim>\<open>list_remove\<close> calls that respects the library's preconditions is memory safe, returns the
  nodes an abstract double-ended queue returns, and ends in a heap that represents the queue's
  final sequence, with exactly the removed nodes freed.\<close>

theorem list_refines_deque:
  assumes "list_abs m self s" "ops_pre ps s"
  shows "returns (exec_ops ps m self)
    (\<lambda>rs m'. rs = fst (deque_ops ps s) \<and> list_abs m' self (snd (deque_ops ps s)))"
  using assms by (rule exec_ops_refines)

theorem list_refines_deque_witness:
  "returns (exec_ops [Rpush 1, Lpush 2, Rpush 3, Remove 1, Rpop, Lpop, Lpop] sample_heap 4)
    (\<lambda>rs m'. rs = [1, 2, 3, 1, 3, 2, 0] \<and> list_abs m' 4 ([], {2, 3}))"
  using list_refines_deque[OF sample_heap_abs, of "[Rpush 1, Lpush 2, Rpush 3, Remove 1, Rpop, Lpop, Lpop]"]
  by (simp add: insert_Diff_if)

text \<open>\<^verbatim>\<open>list_at\<close> with a signed index returns the node at this position counted from the
  head, from the tail for a negative index, and \<^verbatim>\<open>NULL\<close> exactly when the index is out of
  range; the heap is unchanged and the iterator it allocated is freed again.\<close>

theorem list_at_signed_index:
  assumes "list_rep m self xs" "fresh_heap m" "malloc_ok m (allocs m)"
  shows "returns (list_at m self index) (\<lambda>r m'. r = at_index xs (sint index) \<and>
    m' = (if at_index xs (sint index) = NULL then m else m\<lparr>allocs := Suc (allocs m)\<rparr>))"
  using assms by (rule list_at_ok)

theorem list_at_signed_index_witness:
  "returns (list_at chain_heap 4 (- 1)) (\<lambda>r m'. r = 3 \<and> nodes m' = nodes chain_heap) \<and>
   returns (list_at chain_heap 4 3) (\<lambda>r m'. r = NULL \<and> m' = chain_heap)"
  using list_at_signed_index[OF chain_heap_rep sample_heap_ok(1,3), of "- 1"]
    list_at_signed_index[OF chain_heap_rep sample_heap_ok(1,3), of 3]
  by (auto simp: at_index_def elim!: returns_mono)

text \<open>\<^verbatim>\<open>list_find\<close> returns the first node from the head whose value matches, by the
  list's \<^verbatim>\<open>match\<close> callback when it is set and by equality otherwise, and \<^verbatim>\<open>NULL\<close> when there is
  none; the heap is unchanged.\<close>

theorem list_find_first_match:
  assumes "list_rep m self xs" "fresh_heap m" "malloc_ok m (allocs m)" "lists m self = Some l"
  shows "returns (list_find m self v) (\<lambda>r m'.
    r = (case List.find (\<lambda>x. node_matches l v (ln_val (the (nodes m x)))) xs of
           None \<Rightarrow> NULL | Some x \<Rightarrow> x) \<and>
    m' = m\<lparr>allocs := Suc (allocs m)\<rparr>)"
  using assms by (rule list_find_ok)

theorem list_find_first_match_witness:
  "returns (list_find chain_heap 4 22) (\<lambda>r m'. r = 2 \<and> nodes m' = nodes chain_heap)"
  by (rule returns_mono[OF list_find_first_match[OF chain_heap_rep sample_heap_ok(1,3),
        where l = "\<lparr>lst_head = 1, lst_tail = 3, lst_len = 3, lst_free = True, lst_match = None\<rparr>"]])
    (auto simp: chain_heap_def sample_heap_def node_matches_def)

text \<open>C31: \<^verbatim>\<open>list_destroy\<close> frees every node of the list and the list itself, once each, calls
  the \<^verbatim>\<open>free\<close> callback on every value in order from head to tail when the callback is set, and
  touches no other node.\<close>

theorem list_destroy_frees_all:
  assumes "list_rep m self xs" "lists m self = Some l"
  shows "yields (list_destroy m self) (\<lambda>m'. lists m' = (lists m)(self := None) \<and>
    (\<forall>x \<in> set xs. nodes m' x = None) \<and> (\<forall>x. x \<notin> set xs \<longrightarrow> nodes m' x = nodes m x) \<and>
    iters m' = iters m \<and>
    freed_vals m' = freed_vals m @ (if lst_free l then map (\<lambda>x. ln_val (the (nodes m x))) xs else []))"
  using assms by (rule list_destroy_ok)

theorem list_destroy_frees_all_witness:
  "yields (list_destroy chain_heap 4) (\<lambda>m'. freed_vals m' = [11, 22, 33] \<and> nodes m' 2 = None)"
  using list_destroy_frees_all[OF chain_heap_rep,
      where l = "\<lparr>lst_head = 1, lst_tail = 3, lst_len = 3, lst_free = True, lst_match = None\<rparr>"]
  by (auto simp: chain_heap_def sample_heap_def elim!: yieldsE)

text \<open>The benchmark's push-left/pop-right loop ends and returns every node it allocated in
  the order of allocation (a FIFO queue), whichever of the node allocations fail.\<close>

theorem bm_rpop_fifo:
  assumes "fresh_heap m" "malloc_ok m (allocs m)" "nnodes < 2 ^ 32"
  shows "returns (bm_rpop nnodes v m) (\<lambda>rs m'.
    rs = new_nodes (m\<lparr>allocs := Suc (allocs m)\<rparr>) nnodes \<and> list_rep m' (Suc (allocs m)) [])"
proof -
  from list_new_ok[OF assms(1,2)] obtain m1 where m1: "list_new m = (Suc (allocs m), m1)"
    "list_rep m1 (Suc (allocs m)) []" "fresh_heap m1" "allocs m1 = Suc (allocs m)" "malloc_ok m1 = malloc_ok m"
    by blast
  have nn: "new_nodes m1 nnodes = new_nodes (m\<lparr>allocs := Suc (allocs m)\<rparr>) nnodes"
    using m1(4,5) by (simp add: new_nodes_def)
  from left_end.fill_nodes[OF m1(2,3), of nnodes v] assms(3)
  obtain m2 where m2: "fill nnodes list_lpush m1 (Suc (allocs m)) v = Some m2"
    "list_rep m2 (Suc (allocs m)) (rev (new_nodes m1 nnodes))" by (auto simp: fold_Cons elim!: yieldsE)
  from rpop.drain_all[OF m2(2)] show ?thesis
    using m1(1) m2(1) nn by (simp add: bm_rpop_def)
qed

theorem bm_rpop_fifo_witness:
  "returns (bm_rpop 3 (0 :: nat) sample_heap) (\<lambda>rs m'. rs = [6, 7, 8] \<and> list_rep m' 5 [])"
  using bm_rpop_fifo[OF sample_heap_ok(2,4), of 3 0]
  by (simp add: new_nodes_def sample_heap_def upt_rec)

end
