(* ===== verification/List_Tests.thy ===== *)
theory List_Tests
  imports Linked_List
begin

text \<open>
  The test program \<^verbatim>\<open>src/list/test.c\<close> of the list library and the rest of \<^verbatim>\<open>src/list/benchmark.c\<close>, on the model of the
  library. A test is \<open>None\<close> when one of its assertions fails, or when it touches memory that is not there.
\<close>

section \<open>Values\<close>

text \<open>A literal (equal literals are one object), a user with a name, at its address, or a node.\<close>

datatype tval = Lit string | User nat string | Node addr

fun User_equal :: "tval \<Rightarrow> tval \<Rightarrow> bool" where
  "User_equal (User p a) (User q b) = (a = b)"
| "User_equal _ _ = False"

definition assert :: "bool \<Rightarrow> unit option" where
  "assert b = (if b then Some () else None)"

text \<open>\<^verbatim>\<open>list_rpush(list, list_node_new(v))\<close> and the three nodes most tests start with.\<close>

definition push_new :: "tval lmem \<Rightarrow> addr \<Rightarrow> tval \<Rightarrow> (addr \<times> tval lmem) option" where
  "push_new m lst v = (let (node, m) = list_node_new m v in list_rpush m lst node)"

definition abc :: "tval lmem \<Rightarrow> (addr \<times> addr \<times> addr \<times> addr \<times> tval lmem) option" where
  "abc m = (let (lst, m) = list_new m in do {
     (a, m) \<leftarrow> push_new m lst (Lit ''a'');
     (b, m) \<leftarrow> push_new m lst (Lit ''b'');
     (c, m) \<leftarrow> push_new m lst (Lit ''c'');
     Some (lst, a, b, c, m) })"

text \<open>Assertions about the fields of a list and of a node.\<close>

definition assert_list :: "tval lmem \<Rightarrow> addr \<Rightarrow> u32 \<Rightarrow> addr \<Rightarrow> addr \<Rightarrow> unit option" where
  "assert_list m lst len head tail = do {
     l \<leftarrow> rd_list m lst;
     assert (lst_len l = len \<and> lst_head l = head \<and> lst_tail l = tail) }"

definition assert_len :: "tval lmem \<Rightarrow> addr \<Rightarrow> u32 \<Rightarrow> unit option" where
  "assert_len m lst len = do { l \<leftarrow> rd_list m lst; assert (lst_len l = len) }"

definition assert_node :: "tval lmem \<Rightarrow> addr \<Rightarrow> addr \<Rightarrow> addr \<Rightarrow> unit option" where
  "assert_node m p prev nxt = do {
     n \<leftarrow> rd_node m p;
     assert (ln_prev n = prev \<and> ln_next n = nxt) }"

definition assert_at :: "addr \<Rightarrow> addr \<Rightarrow> int \<Rightarrow> tval lmem \<Rightarrow> tval lmem option" where
  "assert_at p lst i m = do {
     (q, m) \<leftarrow> list_at m lst (word_of_int i);
     _ \<leftarrow> assert (p = q);
     Some m }"

section \<open>The tests\<close>

definition test_list_node_new :: "tval lmem \<Rightarrow> tval lmem option" where
  "test_list_node_new m = (let (node, m) = list_node_new m (Lit ''some value'') in do {
     n \<leftarrow> rd_node m node;
     _ \<leftarrow> assert (ln_val n = Lit ''some value'');
     free_node m node })"

definition test_list_rpush :: "tval lmem \<Rightarrow> tval lmem option" where
  "test_list_rpush m = (let (lst, m) = list_new m; (a, m) = list_node_new m (Lit ''a''); (b, m) = list_node_new m (Lit ''b'');
       (c, m) = list_node_new m (Lit ''c'') in do {
     (_, m) \<leftarrow> list_rpush m lst a;
     (_, m) \<leftarrow> list_rpush m lst b;
     (_, m) \<leftarrow> list_rpush m lst c;
     _ \<leftarrow> assert_list m lst 3 a c;
     _ \<leftarrow> assert_node m a NULL b;
     _ \<leftarrow> assert_node m b a c;
     _ \<leftarrow> assert_node m c b NULL;
     list_destroy m lst })"

definition test_list_lpush :: "tval lmem \<Rightarrow> tval lmem option" where
  "test_list_lpush m = (let (lst, m) = list_new m; (a, m) = list_node_new m (Lit ''a''); (b, m) = list_node_new m (Lit ''b'');
       (c, m) = list_node_new m (Lit ''c'') in do {
     (_, m) \<leftarrow> list_rpush m lst a;
     (_, m) \<leftarrow> list_lpush m lst b;
     (_, m) \<leftarrow> list_lpush m lst c;
     _ \<leftarrow> assert_list m lst 3 c a;
     _ \<leftarrow> assert_node m a b NULL;
     _ \<leftarrow> assert_node m b c a;
     _ \<leftarrow> assert_node m c NULL b;
     list_destroy m lst })"

definition new_abc :: "tval lmem \<Rightarrow> (addr \<times> addr \<times> addr \<times> addr \<times> tval lmem) option" where
  "new_abc m = (let (lst, m) = list_new m; (a, m) = list_node_new m (Lit ''a''); (b, m) = list_node_new m (Lit ''b'');
       (c, m) = list_node_new m (Lit ''c'') in do {
     (_, m) \<leftarrow> list_rpush m lst a;
     (_, m) \<leftarrow> list_rpush m lst b;
     (_, m) \<leftarrow> list_rpush m lst c;
     Some (lst, a, b, c, m) })"

definition test_list_at :: "tval lmem \<Rightarrow> tval lmem option" where
  "test_list_at m = do {
     (lst, a, b, c, m) \<leftarrow> new_abc m;
     m \<leftarrow> assert_at a lst 0 m;
     m \<leftarrow> assert_at b lst 1 m;
     m \<leftarrow> assert_at c lst 2 m;
     m \<leftarrow> assert_at NULL lst 3 m;
     m \<leftarrow> assert_at c lst (- 1) m;
     m \<leftarrow> assert_at b lst (- 2) m;
     m \<leftarrow> assert_at a lst (- 3) m;
     m \<leftarrow> assert_at NULL lst (- 4) m;
     list_destroy m lst }"

text \<open>Three lists are destroyed; for the last one the calls of \<^verbatim>\<open>freeProxy\<close> are those the library's model records.\<close>

definition push_node :: "tval lmem \<Rightarrow> addr \<Rightarrow> string \<Rightarrow> (addr \<times> tval lmem) option" where
  "push_node m lst v = (let (x, m) = list_node_new m (Lit v) in push_new m lst (Node x))"

definition proxy_list :: "tval lmem \<Rightarrow> (addr \<times> tval lmem) option" where
  "proxy_list m = (let (c, m) = list_new m in do {
     m \<leftarrow> wr_list m c (\<lambda>l. l\<lparr>lst_free := True\<rparr>);
     (_, m) \<leftarrow> push_node m c ''a'';
     (_, m) \<leftarrow> push_node m c ''b'';
     (_, m) \<leftarrow> push_node m c ''c'';
     Some (c, m) })"

definition test_list_destroy :: "tval lmem \<Rightarrow> tval lmem option" where
  "test_list_destroy m = (let (a, m) = list_new m in do {
     m \<leftarrow> list_destroy m a;
     (b, _, _, _, m) \<leftarrow> abc m;
     m \<leftarrow> list_destroy m b;
     (c, m) \<leftarrow> proxy_list m;
     m \<leftarrow> list_destroy m c;
     _ \<leftarrow> assert (length (freed_vals m) = 3);
     Some m })"

definition find_setup :: "tval lmem \<Rightarrow> (addr \<times> addr \<times> addr \<times> addr \<times> addr \<times> addr \<times> tval lmem) option" where
  "find_setup m = (let (langs, m) = list_new m in do {
     (js, m) \<leftarrow> push_new m langs (Lit ''js'');
     (ruby, m) \<leftarrow> push_new m langs (Lit ''ruby'');
     let (users, m) = list_new m;
     m \<leftarrow> wr_list m users (\<lambda>l. l\<lparr>lst_match := Some User_equal\<rparr>);
     (tj, m) \<leftarrow> push_new m users (User 1 ''tj'');
     (simon, m) \<leftarrow> push_new m users (User 2 ''simon'');
     Some (langs, js, ruby, users, tj, simon, m) })"

definition assert_finds :: "tval lmem \<Rightarrow> addr \<Rightarrow> tval list \<Rightarrow> addr list \<Rightarrow> tval lmem option" where
  "assert_finds m lst vs ps = do {
     (a, m) \<leftarrow> list_find m lst (vs ! 0);
     (b, m) \<leftarrow> list_find m lst (vs ! 1);
     (c, m) \<leftarrow> list_find m lst (vs ! 2);
     _ \<leftarrow> assert ([a, b, c] = ps);
     Some m }"

definition test_list_find :: "tval lmem \<Rightarrow> tval lmem option" where
  "test_list_find m = do {
     (langs, js, ruby, users, tj, simon, m) \<leftarrow> find_setup m;
     m \<leftarrow> assert_finds m langs [Lit ''js'', Lit ''ruby'', Lit ''foo''] [js, ruby, NULL];
     m \<leftarrow> list_destroy m langs;
     m \<leftarrow> assert_finds m users [User 1 ''tj'', User 2 ''simon'', User 3 ''taylor''] [tj, simon, NULL];
     list_destroy m users }"

definition test_list_remove :: "tval lmem \<Rightarrow> tval lmem option" where
  "test_list_remove m = do {
     (lst, a, b, c, m) \<leftarrow> abc m;
     _ \<leftarrow> assert_len m lst 3;
     m \<leftarrow> list_remove m lst b;
     _ \<leftarrow> assert_list m lst 2 a c;
     _ \<leftarrow> assert_node m a NULL c;
     _ \<leftarrow> assert_node m c a NULL;
     m \<leftarrow> list_remove m lst a;
     _ \<leftarrow> assert_list m lst 1 c c;
     _ \<leftarrow> assert_node m c NULL NULL;
     m \<leftarrow> list_remove m lst c;
     _ \<leftarrow> assert_list m lst 0 NULL NULL;
     list_destroy m lst }"

definition test_list_rpop :: "tval lmem \<Rightarrow> tval lmem option" where
  "test_list_rpop m = do {
     (lst, a, b, c, m) \<leftarrow> abc m;
     _ \<leftarrow> assert_len m lst 3;
     (p, m) \<leftarrow> list_rpop m lst;
     _ \<leftarrow> assert (p = c);
     _ \<leftarrow> assert_list m lst 2 a b;
     _ \<leftarrow> assert_node m b a NULL;
     _ \<leftarrow> assert_node m c NULL NULL;
     m \<leftarrow> free_node m c;
     (p, m) \<leftarrow> list_rpop m lst;
     _ \<leftarrow> assert (p = b);
     _ \<leftarrow> assert_list m lst 1 a a;
     m \<leftarrow> free_node m b;
     (p, m) \<leftarrow> list_rpop m lst;
     _ \<leftarrow> assert (p = a);
     _ \<leftarrow> assert_list m lst 0 NULL NULL;
     m \<leftarrow> free_node m a;
     (p, m) \<leftarrow> list_rpop m lst;
     _ \<leftarrow> assert (p = NULL);
     _ \<leftarrow> assert_len m lst 0;
     list_destroy m lst }"

definition test_list_lpop :: "tval lmem \<Rightarrow> tval lmem option" where
  "test_list_lpop m = do {
     (lst, a, b, c, m) \<leftarrow> abc m;
     _ \<leftarrow> assert_len m lst 3;
     (p, m) \<leftarrow> list_lpop m lst;
     _ \<leftarrow> assert (p = a);
     l \<leftarrow> rd_list m lst;
     h \<leftarrow> rd_node m (lst_head l);
     _ \<leftarrow> assert (lst_len l = 2 \<and> lst_head l = b \<and> ln_prev h = NULL);
     _ \<leftarrow> assert_node m a NULL NULL;
     m \<leftarrow> free_node m a;
     (p, m) \<leftarrow> list_lpop m lst;
     _ \<leftarrow> assert (p = b);
     _ \<leftarrow> assert_len m lst 1;
     m \<leftarrow> free_node m b;
     (p, m) \<leftarrow> list_lpop m lst;
     _ \<leftarrow> assert (p = c);
     _ \<leftarrow> assert_list m lst 0 NULL NULL;
     m \<leftarrow> free_node m c;
     (p, m) \<leftarrow> list_lpop m lst;
     _ \<leftarrow> assert (p = NULL);
     _ \<leftarrow> assert_len m lst 0;
     list_destroy m lst }"

text \<open>Four steps of an iterator.\<close>

definition assert_iter :: "addr \<Rightarrow> list_direction_t \<Rightarrow> addr list \<Rightarrow> tval lmem \<Rightarrow> tval lmem option" where
  "assert_iter lst dir ps m = do {
     (it, m) \<leftarrow> list_iterator_new m lst dir;
     (a, m) \<leftarrow> list_iterator_next m it;
     (b, m) \<leftarrow> list_iterator_next m it;
     (c, m) \<leftarrow> list_iterator_next m it;
     (d, m) \<leftarrow> list_iterator_next m it;
     _ \<leftarrow> assert ([a, b, c, d] = ps);
     list_iterator_destroy m it }"

definition test_list_iterator_t :: "tval lmem \<Rightarrow> tval lmem option" where
  "test_list_iterator_t m = (let (lst, m) = list_new m; (tj, m) = list_node_new m (Lit ''tj''); (taylor, m) = list_node_new m (Lit ''taylor'');
       (simon, m) = list_node_new m (Lit ''simon'') in do {
     (_, m) \<leftarrow> list_rpush m lst tj;
     (_, m) \<leftarrow> list_rpush m lst taylor;
     (_, m) \<leftarrow> list_rpush m lst simon;
     m \<leftarrow> assert_iter lst LIST_HEAD [tj, taylor, simon, NULL] m;
     m \<leftarrow> assert_iter lst LIST_TAIL [simon, taylor, tj, NULL] m;
     list_destroy m lst })"

definition test_main :: "tval lmem \<Rightarrow> tval lmem option" where
  "test_main m = do {
     m \<leftarrow> test_list_node_new m;
     m \<leftarrow> test_list_rpush m;
     m \<leftarrow> test_list_lpush m;
     m \<leftarrow> test_list_find m;
     m \<leftarrow> test_list_at m;
     m \<leftarrow> test_list_remove m;
     m \<leftarrow> test_list_rpop m;
     m \<leftarrow> test_list_lpop m;
     m \<leftarrow> test_list_destroy m;
     test_list_iterator_t m }"

section \<open>The rest of the benchmark\<close>

text \<open>The list that \<^verbatim>\<open>main\<close> fills, and the three benchmarks of \<^verbatim>\<open>list_at\<close> on it.\<close>

definition bm_at :: "int \<Rightarrow> nat \<Rightarrow> 'v \<Rightarrow> 'v lmem \<Rightarrow> (addr \<times> 'v lmem) option" where
  "bm_at index nnodes v m = do {
     (lst, m) \<leftarrow> bm_lpush nnodes v m;
     list_at m lst (word_of_int index) }"

section \<open>The tests pass\<close>

text \<open>Memory does not run out, and addresses not yet handed out are unused.\<close>

definition ready :: "'v lmem \<Rightarrow> bool" where
  "ready m = ((\<forall>n. malloc_ok m n) \<and> fresh_heap m)"

lemma assert_simps [simp]: "assert True = Some ()" "assert False = None"
  by (simp_all add: assert_def)

lemmas test_defs = lmalloc_def rd_node_def rd_list_def rd_iter_def wr_prev_def wr_next_def wr_list_def free_node_def
  list_node_new_def list_new_def list_rpush_def list_lpush_def list_rpop_def list_lpop_def
  push_new_def abc_def new_abc_def assert_list_def assert_len_def assert_node_def Let_def ready_def fresh_heap_def

lemma destroy_loop_keeps:
  "list_destroy_loop n m self cur = Some m' \<Longrightarrow> allocs m' = allocs m \<and> malloc_ok m' = malloc_ok m \<and> lists m' = lists m \<and> iters m' = iters m \<and>
    (\<forall>x. nodes m x = None \<longrightarrow> nodes m' x = None)"
  by (induction n arbitrary: m cur) (auto simp: Let_def free_node_def split: bind_splits if_splits; fastforce)+

lemma list_destroy_ready: "list_destroy m self = Some m' \<Longrightarrow> ready m \<Longrightarrow> ready m'"
  using destroy_loop_keeps by (fastforce simp: list_destroy_def ready_def fresh_heap_def split: bind_splits)

lemma destroyed:
  assumes "list_rep m self xs" "ready m" "lists m self = Some l"
  obtains m' where "list_destroy m self = Some m'" "ready m'" "lists m' = (lists m)(self := None)" "\<forall>x. x \<notin> set xs \<longrightarrow> nodes m' x = nodes m x"
    "freed_vals m' = freed_vals m @ (if lst_free l then map (\<lambda>x. ln_val (the (nodes m x))) xs else [])"
  using list_destroy_ok[OF assms(1,3)] list_destroy_ready[OF _ assms(2)] by (auto elim!: yieldsE)

lemmas rep_defs = list_rep_def links_of_def

lemma abc_ready:
  assumes "ready m"
  obtains lst a b c m' l where "abc m = Some (lst, a, b, c, m')" "list_rep m' lst [a, b, c]" "ready m'" "lists m' lst = Some l" "\<not> lst_free l"
    "freed_vals m' = freed_vals m" "0 < a" "0 < b" "0 < c"
  using assms that[of _ _ _ _ _ "\<lparr>lst_head = Suc (Suc (allocs m)), lst_tail = Suc (Suc (Suc (Suc (allocs m)))), lst_len = 3, lst_free = False, lst_match = None\<rparr>"]
  by (auto simp: test_defs rep_defs)

lemma new_abc_ready:
  assumes "ready m"
  obtains lst a b c m' l where "new_abc m = Some (lst, a, b, c, m')" "list_rep m' lst [a, b, c]" "ready m'" "lists m' lst = Some l" "\<not> lst_free l"
    "freed_vals m' = freed_vals m" "0 < a" "0 < b" "0 < c"
  using assms that[of _ _ _ _ _ "\<lparr>lst_head = Suc (Suc (allocs m)), lst_tail = Suc (Suc (Suc (Suc (allocs m)))), lst_len = 3, lst_free = False, lst_match = None\<rparr>"]
  by (auto simp: test_defs rep_defs)

lemma push_new_ready:
  assumes "list_rep m lst xs" "ready m" "lists m lst = Some l" "length xs < 3"
  obtains m' l' where "push_new m lst v = Some (Suc (allocs m), m')" "list_rep m' lst (xs @ [Suc (allocs m)])" "ready m'" "lists m' lst = Some l'"
    "lst_free l' = lst_free l" "freed_vals m' = freed_vals m"
proof -
  let ?x = "Suc (allocs m)"
  let ?m = "m\<lparr>allocs := ?x, nodes := (nodes m)(?x \<mapsto> \<lparr>ln_prev = NULL, ln_next = NULL, ln_val = v\<rparr>)\<rparr>"
  have f: "nodes m ?x = None" "malloc_ok m (allocs m)" using assms(2) by (auto simp: ready_def fresh_heap_def)
  have x: "?x \<notin> set xs" using assms(1) f(1) by (auto simp: list_rep_def assms(3) links_of_def dest: dchain_live)
  then have "list_rep ?m lst xs" using assms(1,3) by (simp add: list_rep_def)
  then have "returns (list_rpush ?m lst ?x) (\<lambda>r m'. r = ?x \<and> list_rep m' lst (xs @ [?x]) \<and> keeps lst ?m m')"
    using x assms(4) by (intro list_rpush_spec) (auto simp: live_node_def)
  then obtain m' where m': "list_rpush ?m lst ?x = Some (?x, m')" "list_rep m' lst (xs @ [?x])" "keeps lst ?m m'" by (auto elim!: returnsE)
  have lst: "lst \<le> allocs m" using assms(2,3) by (fastforce simp: ready_def fresh_heap_def not_less[symmetric])
  have v: "vals_of (nodes m') y = vals_of (nodes ?m) y" for y using m'(3) by (simp add: keeps_def)
  have "nodes m' y = None" if "?x < y" for y using v[of y] that assms(2) by (auto simp: vals_of_def ready_def fresh_heap_def)
  then have "ready m'" using m'(3) assms(2) lst by (auto simp: ready_def fresh_heap_def keeps_def)
  moreover have "push_new m lst v = Some (?x, m')" using m'(1) f(2) by (simp add: push_new_def list_node_new_def lmalloc_def)
  moreover obtain l' where "lists m' lst = Some l'" "lst_free l' = lst_free l" "freed_vals m' = freed_vals m"
    using m'(3) assms(3) by (auto simp: keeps_def)
  ultimately show ?thesis using that m'(2) by blast
qed

lemma push_node_ready:
  assumes "list_rep m lst xs" "ready m" "lists m lst = Some l" "length xs < 3"
  obtains x m' l' where "push_node m lst v = Some (x, m')" "list_rep m' lst (xs @ [x])" "ready m'" "lists m' lst = Some l'"
    "lst_free l' = lst_free l" "freed_vals m' = freed_vals m"
proof -
  let ?x = "Suc (allocs m)"
  let ?m = "m\<lparr>allocs := ?x, nodes := (nodes m)(?x \<mapsto> \<lparr>ln_prev = NULL, ln_next = NULL, ln_val = Lit v\<rparr>)\<rparr>"
  have f: "nodes m ?x = None" "malloc_ok m (allocs m)" using assms(2) by (auto simp: ready_def fresh_heap_def)
  have x: "?x \<notin> set xs" using assms(1) f(1) by (auto simp: list_rep_def assms(3) links_of_def dest: dchain_live)
  have "list_rep ?m lst xs" using x assms(1,3) by (simp add: list_rep_def)
  moreover have "ready ?m" using assms(2) by (auto simp: ready_def fresh_heap_def)
  ultimately show ?thesis
    by (rule push_new_ready[where v = "Node ?x" and l = l])
      (use assms(3,4) that f(2) in \<open>auto simp: push_node_def list_node_new_def lmalloc_def\<close>)
qed

lemma proxy_ready:
  assumes "ready m"
  obtains lst xs m' l where "proxy_list m = Some (lst, m')" "list_rep m' lst xs" "length xs = 3" "ready m'" "lists m' lst = Some l" "lst_free l"
    "freed_vals m' = freed_vals m"
proof -
  let ?c = "Suc (allocs m)"
  let ?l = "\<lparr>lst_head = NULL, lst_tail = NULL, lst_len = 0, lst_free = True, lst_match = None\<rparr>"
  let ?m = "m\<lparr>allocs := ?c, lists := (lists m)(?c \<mapsto> ?l)\<rparr>"
  have r: "list_rep ?m ?c []" "ready ?m" "lists ?m ?c = Some ?l" using assms by (auto simp: list_rep_def ready_def fresh_heap_def)
  obtain x1 m1 l1 where 1: "push_node ?m ?c ''a'' = Some (x1, m1)" "list_rep m1 ?c [x1]" "ready m1" "lists m1 ?c = Some l1" "lst_free l1" "freed_vals m1 = freed_vals m"
    by (rule push_node_ready[OF r]) auto
  obtain x2 m2 l2 where 2: "push_node m1 ?c ''b'' = Some (x2, m2)" "list_rep m2 ?c [x1, x2]" "ready m2" "lists m2 ?c = Some l2" "lst_free l2" "freed_vals m2 = freed_vals m"
    by (rule push_node_ready[OF 1(2-4)]) (use 1 in auto)
  obtain x3 m3 l3 where 3: "push_node m2 ?c ''c'' = Some (x3, m3)" "list_rep m3 ?c [x1, x2, x3]" "ready m3" "lists m3 ?c = Some l3" "lst_free l3" "freed_vals m3 = freed_vals m"
    by (rule push_node_ready[OF 2(2-4)]) (use 2 in auto)
  have "malloc_ok m (allocs m)" using assms by (simp add: ready_def)
  then have "proxy_list m = Some (?c, m3)"
    using 1(1) 2(1) 3(1) by (simp add: proxy_list_def list_new_def lmalloc_def wr_list_def rd_list_def)
  then show ?thesis using that 3 by simp
qed

text \<open>A step that passes: it keeps memory ready and calls no callback.\<close>

definition passes :: "tval lmem \<Rightarrow> tval lmem option \<Rightarrow> bool" where
  "passes m e = (\<exists>m'. e = Some m' \<and> ready m' \<and> freed_vals m' = freed_vals m)"

lemma passes_bind: "passes m e \<Longrightarrow> (\<And>m'. ready m' \<Longrightarrow> freed_vals m' = freed_vals m \<Longrightarrow> passes m' (f m')) \<Longrightarrow> passes m (Option.bind e f)"
  by (auto simp: passes_def)

lemma passes_destroy: "list_rep m lst xs \<Longrightarrow> lists m lst = Some l \<Longrightarrow> \<not> lst_free l \<Longrightarrow> ready m \<Longrightarrow> freed_vals m = freed_vals m0 \<Longrightarrow>
    passes m0 (list_destroy m lst)"
  by (erule destroyed) (auto simp: passes_def)

lemma test_list_node_new_passes: "ready m \<Longrightarrow> passes m (test_list_node_new m)"
  by (auto simp: passes_def test_list_node_new_def test_defs)

lemma dl3: "list_destroy_loop 3 m self cur = list_destroy_loop (Suc (Suc (Suc 0))) m self cur"
  by (simp add: numeral_3_eq_3)

lemmas tests_1 = test_list_rpush_def test_list_lpush_def test_list_remove_def test_list_rpop_def test_list_lpop_def list_remove_def
  test_list_iterator_t_def assert_iter_def list_iterator_new_def list_iterator_new_from_node_def list_iterator_next_def list_iterator_destroy_def

lemma tests_1_pass:
  assumes "ready m"
  shows "passes m (test_list_rpush m)" "passes m (test_list_lpush m)" "passes m (test_list_remove m)" "passes m (test_list_rpop m)"
    "passes m (test_list_lpop m)" "passes m (test_list_iterator_t m)"
  using assms by (auto simp: passes_def tests_1 test_defs list_destroy_def dl3)

lemma assert_at_passes:
  assumes "list_rep m lst xs" "ready m" "p = at_index xs (sint (word_of_int i :: u32))"
  shows "\<exists>n. assert_at p lst i m = Some (m\<lparr>allocs := n\<rparr>) \<and> allocs m \<le> n"
  using list_at_ok[OF assms(1), of "word_of_int i"] assms(2,3)
  by (auto simp: assert_at_def ready_def elim!: returnsE split: if_splits intro: exI[of _ "allocs m"])

lemma ready_allocs: "ready m \<Longrightarrow> allocs m \<le> n \<Longrightarrow> ready (m\<lparr>allocs := n\<rparr>)" "list_rep (m\<lparr>allocs := n\<rparr>) lst xs = list_rep m lst xs"
  by (auto simp: ready_def fresh_heap_def list_rep_def split: option.splits)

lemma at_step:
  assumes "list_rep m lst xs" "ready m" "p = at_index xs (sint (word_of_int i :: u32))"
    and "\<And>n. ready (m\<lparr>allocs := n\<rparr>) \<Longrightarrow> passes m0 (f (m\<lparr>allocs := n\<rparr>))"
  shows "passes m0 (Option.bind (assert_at p lst i m) f)"
proof -
  obtain n where n: "assert_at p lst i m = Some (m\<lparr>allocs := n\<rparr>)" "allocs m \<le> n" using assert_at_passes[OF assms(1-3)] by blast
  show ?thesis using assms(4)[OF ready_allocs(1)[OF assms(2) n(2)]] by (simp add: n(1))
qed

lemma test_list_at_passes:
  assumes "ready m"
  shows "passes m (test_list_at m)"
proof (rule new_abc_ready[OF assms])
  fix lst a b c m' l
  assume r: "new_abc m = Some (lst, a, b, c, m')" "list_rep m' lst [a, b, c]" "ready m'" "lists m' lst = Some l" "\<not> lst_free l" "freed_vals m' = freed_vals m"
  have "passes m (list_destroy (m'\<lparr>allocs := n\<rparr>) lst)" if "ready (m'\<lparr>allocs := n\<rparr>)" for n
    by (rule passes_destroy[where xs = "[a, b, c]" and l = l]) (use r that in \<open>auto simp: ready_allocs\<close>)
  then show ?thesis unfolding test_list_at_def r(1)
    by (simp, intro at_step[where xs = "[a, b, c]"]) (use r in \<open>auto simp: ready_allocs at_index_def\<close>)
qed

lemma test_list_destroy_passes:
  assumes "ready m" "freed_vals m = []"
  shows "\<exists>m'. test_list_destroy m = Some m' \<and> ready m' \<and> length (freed_vals m') = 3"
proof -
  obtain m1 where 1: "(let (a, m) = list_new m in list_destroy m a) = Some m1" "ready m1" "freed_vals m1 = []"
    using assms by (auto simp: list_destroy_def test_defs)
  obtain b x y z m2 l where 2: "abc m1 = Some (b, x, y, z, m2)" "list_rep m2 b [x, y, z]" "ready m2" "lists m2 b = Some l" "\<not> lst_free l" "freed_vals m2 = []"
    by (rule abc_ready[OF 1(2)]) (use 1 in auto)
  obtain m3 where 3: "list_destroy m2 b = Some m3" "ready m3" "freed_vals m3 = []"
    by (rule destroyed[OF 2(2,3,4)]) (use 2 in auto)
  obtain c xs m4 l' where 4: "proxy_list m3 = Some (c, m4)" "list_rep m4 c xs" "length xs = 3" "ready m4" "lists m4 c = Some l'" "lst_free l'" "freed_vals m4 = []"
    by (rule proxy_ready[OF 3(2)]) (use 3 in auto)
  obtain m5 where 5: "list_destroy m4 c = Some m5" "ready m5" "length (freed_vals m5) = 3"
    by (rule destroyed[OF 4(2,4,5)]) (use 4 in auto)
  show ?thesis using 1(1) 2(1) 3(1) 4(1) 5 by (auto simp: test_list_destroy_def Let_def split: prod.splits)
qed

text \<open>Three searches in a list.\<close>

lemma finds_step:
  assumes "list_rep m lst [x, y]" "ready m" "lists m lst = Some l" "ln_val (the (nodes m x)) = v" "ln_val (the (nodes m y)) = w"
    and "node_matches l v v" "\<not> node_matches l w v" "node_matches l w w" "\<not> node_matches l u v" "\<not> node_matches l u w"
    and "\<And>n. ready (m\<lparr>allocs := n\<rparr>) \<Longrightarrow> passes m0 (f (m\<lparr>allocs := n\<rparr>))"
  shows "passes m0 (Option.bind (assert_finds m lst [v, w, u] [x, y, NULL]) f)"
proof -
  have find: "list_find (m\<lparr>allocs := n\<rparr>) lst k = Some (case List.find (\<lambda>x. node_matches l k (ln_val (the (nodes m x)))) [x, y] of None \<Rightarrow> NULL | Some x \<Rightarrow> x, m\<lparr>allocs := Suc n\<rparr>)"
    if "allocs m \<le> n" for n k
    using list_find_ok[of "m\<lparr>allocs := n\<rparr>" lst "[x, y]" l k] assms(1-3) that ready_allocs(1)[OF assms(2) that] ready_allocs(2)[where m = m and n = n and lst = lst]
    by (auto simp: ready_def elim!: returnsE)
  have "assert_finds m lst [v, w, u] [x, y, NULL] = Some (m\<lparr>allocs := Suc (Suc (Suc (allocs m)))\<rparr>)"
    using find[of "allocs m"] assms(4-10) by (simp add: assert_finds_def find)
  then show ?thesis using assms(11) ready_allocs(1)[OF assms(2), of "Suc (Suc (Suc (allocs m)))"] by simp
qed

lemma find_setup_eval:
  assumes "\<forall>n. malloc_ok m n" "n = allocs m"
  shows "find_setup m = Some (n + 1, n + 2, n + 3, n + 4, n + 5, n + 6, m\<lparr>allocs := n + 6,
    nodes := (nodes m)(n + 3 \<mapsto> \<lparr>ln_prev = n + 2, ln_next = 0, ln_val = Lit ''ruby''\<rparr>, n + 2 \<mapsto> \<lparr>ln_prev = 0, ln_next = n + 3, ln_val = Lit ''js''\<rparr>,
      n + 6 \<mapsto> \<lparr>ln_prev = n + 5, ln_next = 0, ln_val = User 2 ''simon''\<rparr>, n + 5 \<mapsto> \<lparr>ln_prev = 0, ln_next = n + 6, ln_val = User 1 ''tj''\<rparr>),
    lists := (lists m)(n + 1 \<mapsto> \<lparr>lst_head = n + 2, lst_tail = n + 3, lst_len = 2, lst_free = False, lst_match = None\<rparr>,
      n + 4 \<mapsto> \<lparr>lst_head = n + 5, lst_tail = n + 6, lst_len = 2, lst_free = False, lst_match = Some User_equal\<rparr>)\<rparr>)"
  using assms by (simp add: find_setup_def test_defs eval_nat_numeral)

lemma find_setup_ready:
  assumes "ready m"
  shows "\<exists>langs js ruby users tj simon m'. find_setup m = Some (langs, js, ruby, users, tj, simon, m') \<and> ready m' \<and> freed_vals m' = freed_vals m \<and>
    list_rep m' langs [js, ruby] \<and> list_rep m' users [tj, simon] \<and> langs \<noteq> users \<and> {js, ruby} \<inter> {tj, simon} = {} \<and>
    (\<exists>l. lists m' langs = Some l \<and> lst_match l = None \<and> \<not> lst_free l) \<and> (\<exists>l. lists m' users = Some l \<and> lst_match l = Some User_equal \<and> \<not> lst_free l) \<and>
    map (\<lambda>x. ln_val (the (nodes m' x))) [js, ruby, tj, simon] = [Lit ''js'', Lit ''ruby'', User 1 ''tj'', User 2 ''simon'']"
proof -
  define n where n: "n = allocs m"
  have "\<forall>n. malloc_ok m n" using assms by (simp add: ready_def)
  note e = find_setup_eval[OF this n]
  show ?thesis
    by (intro exI conjI, rule e) (use assms in \<open>auto simp: ready_def fresh_heap_def rep_defs n\<close>)
qed

lemma test_list_find_passes:
  assumes "ready m"
  shows "passes m (test_list_find m)"
proof -
  obtain langs js ruby users tj simon m1 l l' where s: "find_setup m = Some (langs, js, ruby, users, tj, simon, m1)" "ready m1" "freed_vals m1 = freed_vals m"
    "list_rep m1 langs [js, ruby]" "list_rep m1 users [tj, simon]" "langs \<noteq> users" "{js, ruby} \<inter> {tj, simon} = {}"
    "lists m1 langs = Some l" "lst_match l = None" "\<not> lst_free l" "lists m1 users = Some l'" "lst_match l' = Some User_equal" "\<not> lst_free l'"
    "map (\<lambda>x. ln_val (the (nodes m1 x))) [js, ruby, tj, simon] = [Lit ''js'', Lit ''ruby'', User 1 ''tj'', User 2 ''simon'']"
    using find_setup_ready[OF assms] by (elim exE conjE) (rule that)
  have d: "passes m (list_destroy m' users)" if "list_rep m' users [tj, simon]" "ready m'" "lists m' users = Some l'" "freed_vals m' = freed_vals m" for m'
    by (rule passes_destroy[OF that(1,3) s(13) that(2,4)])
  have u: "passes m (Option.bind (assert_finds m' users [User 1 ''tj'', User 2 ''simon'', User 3 ''taylor''] [tj, simon, NULL]) (\<lambda>m. list_destroy m users))"
    if "list_rep m' users [tj, simon]" "ready m'" "lists m' users = Some l'" "freed_vals m' = freed_vals m"
      "ln_val (the (nodes m' tj)) = User 1 ''tj''" "ln_val (the (nodes m' simon)) = User 2 ''simon''" for m'
    by (rule finds_step[OF that(1-3,5,6)]) (use that s(12) in \<open>auto simp: node_matches_def ready_allocs intro!: d\<close>)
  show ?thesis unfolding test_list_find_def s(1)
  proof (simp only: Option.bind.simps prod.case, rule finds_step[OF s(4,2,8)])
    fix n assume n: "ready (m1\<lparr>allocs := n\<rparr>)"
    have r: "list_rep (m1\<lparr>allocs := n\<rparr>) langs [js, ruby]" "lists (m1\<lparr>allocs := n\<rparr>) langs = Some l" using s(4,8) by (simp_all add: ready_allocs)
    obtain m2 where m2: "list_destroy (m1\<lparr>allocs := n\<rparr>) langs = Some m2" "ready m2" "lists m2 = (lists m1)(langs := None)"
      "\<forall>x. x \<notin> {js, ruby} \<longrightarrow> nodes m2 x = nodes m1 x" "freed_vals m2 = freed_vals m1"
      by (rule destroyed[OF r(1) n r(2)]) (use s(10) in auto)
    have "nodes m2 tj = nodes m1 tj" "nodes m2 simon = nodes m1 simon" "lists m2 users = Some l'" using m2(3,4) s(6,7,11) by auto
    moreover have "list_rep m2 users [tj, simon]" using s(5,11) calculation by (auto simp: list_rep_def links_of_def)
    moreover have "ln_val (the (nodes m2 tj)) = User 1 ''tj''" "ln_val (the (nodes m2 simon)) = User 2 ''simon''" using s(14) calculation by simp_all
    ultimately show "passes m (Option.bind (list_destroy (m1\<lparr>allocs := n\<rparr>) langs) (\<lambda>m. Option.bind (assert_finds m users
        [User 1 ''tj'', User 2 ''simon'', User 3 ''taylor''] [tj, simon, NULL]) (\<lambda>m. list_destroy m users)))"
      using u[of m2] m2(1,2,5) s(3) by simp
  qed (use s(9,14) in \<open>auto simp: node_matches_def\<close>)
qed

text \<open>The library passes its tests. The whole test program, run on the model of the library from any memory that does not
  run out, meets every assertion, touches only live memory, and calls the free callback of the last list for each of its three
  values.\<close>
theorem list_tests_pass:
  assumes "\<forall>n. malloc_ok m n" "fresh_heap m" "freed_vals m = []"
  shows "\<exists>m'. test_main m = Some m' \<and> length (freed_vals m') = 3"
proof -
  have r: "ready m" using assms(1,2) by (simp add: ready_def)
  have "passes m (do { m \<leftarrow> test_list_node_new m; m \<leftarrow> test_list_rpush m; m \<leftarrow> test_list_lpush m; m \<leftarrow> test_list_find m; m \<leftarrow> test_list_at m;
      m \<leftarrow> test_list_remove m; m \<leftarrow> test_list_rpop m; test_list_lpop m })"
    by (rule passes_bind, rule test_list_node_new_passes[OF r])+
      (intro passes_bind tests_1_pass test_list_find_passes test_list_at_passes; assumption)
  then obtain m1 where 1: "do { m \<leftarrow> test_list_node_new m; m \<leftarrow> test_list_rpush m; m \<leftarrow> test_list_lpush m; m \<leftarrow> test_list_find m; m \<leftarrow> test_list_at m;
      m \<leftarrow> test_list_remove m; m \<leftarrow> test_list_rpop m; test_list_lpop m } = Some m1" "ready m1" "freed_vals m1 = []"
    using assms(3) by (auto simp: passes_def)
  obtain m2 where 2: "test_list_destroy m1 = Some m2" "ready m2" "length (freed_vals m2) = 3" using test_list_destroy_passes[OF 1(2,3)] by blast
  have "passes m2 (test_list_iterator_t m2)" by (rule tests_1_pass[OF 2(2)])
  then show ?thesis using 1(1) 2 by (auto simp: test_main_def passes_def split: bind_splits)
qed

definition empty_heap :: "tval lmem" where
  "empty_heap = \<lparr>nodes = (\<lambda>_. None), lists = (\<lambda>_. None), iters = (\<lambda>_. None), allocs = 0, malloc_ok = (\<lambda>_. True), freed_vals = []\<rparr>"

theorem list_tests_pass_witness: "\<exists>m'. test_main empty_heap = Some m' \<and> length (freed_vals m') = 3"
  by (rule list_tests_pass) (simp_all add: empty_heap_def fresh_heap_def)

end
