(* ===== verification/Chunk_Allocator.thy ===== *)
theory Chunk_Allocator
  imports C_Prelude "HOL-Library.Sublist"
begin

text \<open>
  The allocator \<^verbatim>\<open>src/backup/malloc\<close>: \<^verbatim>\<open>my_malloc_hook\<close>, \<^verbatim>\<open>my_free_hook\<close>, \<^verbatim>\<open>init\<close> and the
  calls of its \<^verbatim>\<open>main\<close>.

  Every block is preceded by a 32-byte header (\<open>mem_chunk\<close>); the headers are doubly linked
  between two sentinels \<open>mem_head\<close> and \<open>mem_tail\<close>. Memory is seen through the headers in it:
  \<open>chunk_at h p\<close> is the header whose first byte is at \<open>p\<close>, and an access is undefined (\<open>None\<close>)
  unless the header lies between \<open>hlb\<close> and the program break. Sizes are \<^verbatim>\<open>size_t\<close>: natural
  numbers with the reduction modulo \<open>2 ^ 64\<close> written out. \<^verbatim>\<open>sbrk\<close> moves the break within
  \<open>hlb \<dots> brk_limit\<close> and fails otherwise.

  \<open>heap_inv h xs\<close> is the invariant: the chunks \<open>xs\<close> tile the heap, are linked in address order,
  and the last one is in use. The last clause is what keeps the scan in \<^verbatim>\<open>my_malloc_hook\<close> from
  stepping over \<^verbatim>\<open>mem_tail\<close>.
\<close>

section \<open>Data\<close>

record mem_chunk =
  mc_size :: nat
  mc_stat :: nat
  mp_next :: addr
  mp_prev :: addr

record heap =
  chunk_at :: "addr \<Rightarrow> mem_chunk"
  mem_head :: addr
  mem_tail :: addr
  hlb :: addr
  hub :: addr
  brk :: addr
  brk_limit :: addr
  enomem :: bool

abbreviation (input) hdr_size :: nat where
  "hdr_size \<equiv> 32"

definition add64 :: "nat \<Rightarrow> nat \<Rightarrow> nat" where
  "add64 a b = (a + b) mod 2 ^ 64"

definition sub64 :: "nat \<Rightarrow> nat \<Rightarrow> nat" where
  "sub64 a b = (2 ^ 64 + a - b) mod 2 ^ 64"

definition rd_chunk :: "heap \<Rightarrow> addr \<Rightarrow> mem_chunk option" where
  "rd_chunk h p = (if p \<noteq> NULL \<and> hlb h \<le> p \<and> p + hdr_size \<le> brk h then Some (chunk_at h p) else None)"

definition wr_chunk :: "heap \<Rightarrow> addr \<Rightarrow> (mem_chunk \<Rightarrow> mem_chunk) \<Rightarrow> heap option" where
  "wr_chunk h p f = do {
     c \<leftarrow> rd_chunk h p;
     Some (h\<lparr>chunk_at := (chunk_at h)(p := f c)\<rparr>) }"

text \<open>
  \<^verbatim>\<open>sbrk(inc)\<close>: \<open>inc\<close> is a \<^verbatim>\<open>size_t\<close> converted to \<^verbatim>\<open>intptr_t\<close>. Returns the old break, or \<open>None\<close>
  for \<^verbatim>\<open>(void*) -1\<close> with \<^verbatim>\<open>errno = ENOMEM\<close>.
\<close>

definition sbrk :: "nat \<Rightarrow> heap \<Rightarrow> addr option \<times> heap" where
  "sbrk inc h = (let new_brk = int (brk h) + (if inc < 2 ^ 63 then int inc else int inc - 2 ^ 64) in
     if int (hlb h) \<le> new_brk \<and> new_brk \<le> int (brk_limit h)
     then (Some (brk h), h\<lparr>brk := nat new_brk\<rparr>)
     else (None, h\<lparr>enomem := True\<rparr>))"

section \<open>Operations\<close>

text \<open>The inner loop of \<^verbatim>\<open>my_malloc_hook\<close>: joins free neighbours until the request fits.\<close>

partial_function (option) scan_inner :: "heap \<Rightarrow> nat \<Rightarrow> addr \<Rightarrow> nat \<Rightarrow> (addr \<times> nat) option" where
  "scan_inner h req s_curs free_mem =
     (if free_mem < req then
        Option.bind (rd_chunk h s_curs) (\<lambda>s.
          if mc_stat s = 0
          then scan_inner h req (mp_next s) (add64 free_mem (add64 (mc_size s) hdr_size))
          else Some (s_curs, free_mem))
      else Some (s_curs, free_mem))"

text \<open>The outer loop; the result is \<open>(m_curs, s_curs, free_mem)\<close>.\<close>

partial_function (option) scan_outer ::
  "heap \<Rightarrow> nat \<Rightarrow> addr \<Rightarrow> addr \<Rightarrow> nat \<Rightarrow> (addr \<times> addr \<times> nat) option" where
  "scan_outer h req m_curs s_curs free_mem =
     (if m_curs \<noteq> mem_tail h then
        Option.bind (rd_chunk h m_curs) (\<lambda>c.
          if mc_stat c = 0 then
            Option.bind (scan_inner h req (mp_next c) (add64 free_mem (mc_size c))) (\<lambda>(s_curs, free_mem).
              if free_mem \<ge> req then Some (m_curs, s_curs, free_mem)
              else Option.bind (rd_chunk h s_curs) (\<lambda>c. scan_outer h req (mp_next c) s_curs 0))
          else scan_outer h req (mp_next c) s_curs 0)
      else Some (m_curs, s_curs, free_mem))"

definition round8 :: "nat \<Rightarrow> nat" where
  "round8 req = add64 req 7 div 8 * 8"

text \<open>The branch \<^verbatim>\<open>m_curs == mem_tail\<close>: a new chunk at the break.\<close>

definition malloc_grow :: "nat \<Rightarrow> heap \<Rightarrow> (addr \<times> heap) option" where
  "malloc_grow req h = (let (r, h) = sbrk (add64 req hdr_size) h in do {
     mem_chunk \<leftarrow> r;
     let result = mem_chunk + hdr_size;
     h \<leftarrow> wr_chunk h mem_chunk (\<lambda>c. c\<lparr>mc_size := req, mc_stat := 1\<rparr>);
     hp \<leftarrow> rd_chunk h (mem_head h);
     h \<leftarrow> (if mp_next hp = mem_tail h then do {
             h \<leftarrow> wr_chunk h mem_chunk (\<lambda>c. c\<lparr>mp_next := mem_tail h, mp_prev := mem_head h\<rparr>);
             h \<leftarrow> wr_chunk h (mem_head h) (\<lambda>c. c\<lparr>mp_next := mem_chunk\<rparr>);
             wr_chunk h (mem_tail h) (\<lambda>c. c\<lparr>mp_prev := mem_chunk\<rparr>) }
           else do {
             tp \<leftarrow> rd_chunk h (mem_tail h);
             h \<leftarrow> wr_chunk h mem_chunk (\<lambda>c. c\<lparr>mp_next := mem_tail h, mp_prev := mp_prev tp\<rparr>);
             h \<leftarrow> wr_chunk h (mp_prev tp) (\<lambda>c. c\<lparr>mp_next := mem_chunk\<rparr>);
             wr_chunk h (mem_tail h) (\<lambda>c. c\<lparr>mp_prev := mem_chunk\<rparr>) });
     Some (result, h) })"

text \<open>The other branch: \<open>m_curs\<close> and the free chunks up to \<open>s_curs\<close> are reused, and split when the rest
  is large enough.\<close>

definition malloc_reuse :: "nat \<Rightarrow> addr \<Rightarrow> addr \<Rightarrow> nat \<Rightarrow> heap \<Rightarrow> (addr \<times> heap) option" where
  "malloc_reuse req m_curs s_curs free_mem h = do {
     h \<leftarrow> (if sub64 free_mem req \<ge> hdr_size + 16 then do {
             let mem_chunk = m_curs + (req + hdr_size);
             h \<leftarrow> wr_chunk h mem_chunk (\<lambda>c. c\<lparr>mc_size := sub64 (sub64 free_mem req) hdr_size, mc_stat := 0\<rparr>);
             h \<leftarrow> wr_chunk h mem_chunk (\<lambda>c. c\<lparr>mp_next := s_curs, mp_prev := m_curs\<rparr>);
             h \<leftarrow> wr_chunk h s_curs (\<lambda>c. c\<lparr>mp_prev := mem_chunk\<rparr>);
             wr_chunk h m_curs (\<lambda>c. c\<lparr>mc_size := req, mc_stat := 1, mp_next := mem_chunk\<rparr>) }
           else do {
             h \<leftarrow> wr_chunk h m_curs (\<lambda>c. c\<lparr>mc_size := free_mem, mc_stat := 1, mp_next := s_curs\<rparr>);
             wr_chunk h s_curs (\<lambda>c. c\<lparr>mp_prev := m_curs\<rparr>) });
     Some (m_curs + hdr_size, h) }"

definition my_malloc_hook :: "nat \<Rightarrow> heap \<Rightarrow> (addr \<times> heap) option" where
  "my_malloc_hook req h =
     (if req = 0 then Some (NULL, h)
      else do {
        let req = round8 req;
        hp \<leftarrow> rd_chunk h (mem_head h);
        (m_curs, s_curs, free_mem) \<leftarrow> scan_outer h req (mp_next hp) NULL 0;
        (result, h) \<leftarrow> (if m_curs = mem_tail h then malloc_grow req h
                      else malloc_reuse req m_curs s_curs free_mem h);
        let h = h\<lparr>hub := brk h\<rparr>;
        Some (if \<not> enomem h then result else NULL, h) })"

text \<open>The two loops of \<^verbatim>\<open>my_free_hook\<close>; the result is \<open>(m_curs, free_mem)\<close>.\<close>

partial_function (option) free_fwd :: "heap \<Rightarrow> addr \<Rightarrow> nat \<Rightarrow> (addr \<times> nat) option" where
  "free_fwd h m_curs free_mem =
     (if m_curs \<noteq> mem_tail h then
        Option.bind (rd_chunk h m_curs) (\<lambda>c.
          if mc_stat c = 1 then Some (m_curs, free_mem)
          else free_fwd h (mp_next c) (add64 free_mem (add64 (mc_size c) hdr_size)))
      else Some (m_curs, free_mem))"

partial_function (option) free_bwd :: "heap \<Rightarrow> addr \<Rightarrow> nat \<Rightarrow> (addr \<times> nat) option" where
  "free_bwd h m_curs free_mem =
     (if m_curs \<noteq> mem_head h then
        Option.bind (rd_chunk h m_curs) (\<lambda>c.
          if mc_stat c = 1 then Some (m_curs, free_mem)
          else free_bwd h (mp_prev c) (add64 free_mem (add64 (mc_size c) hdr_size)))
      else Some (m_curs, free_mem))"

definition my_free_hook :: "addr \<Rightarrow> heap \<Rightarrow> heap option" where
  "my_free_hook ptr h = (let mem_chunk = ptr - hdr_size in do {
     c \<leftarrow> rd_chunk h mem_chunk;
     if mc_stat c = 0 then Some h
     else do {
       h \<leftarrow> wr_chunk h mem_chunk (\<lambda>c. c\<lparr>mc_stat := 0\<rparr>);
       (m_curs, free_mem) \<leftarrow> free_fwd h mem_chunk 0;
       h \<leftarrow> (if m_curs = mem_tail h then do {
               c \<leftarrow> rd_chunk h mem_chunk;
               (m_curs, free_mem) \<leftarrow> free_bwd h (mp_prev c) free_mem;
               h \<leftarrow> wr_chunk h (mem_tail h) (\<lambda>c. c\<lparr>mp_prev := m_curs\<rparr>);
               h \<leftarrow> wr_chunk h m_curs (\<lambda>c. c\<lparr>mp_next := mem_tail h\<rparr>);
               Some (snd (sbrk (sub64 0 free_mem) h)) }
             else Some h);
       Some (h\<lparr>hub := brk h\<rparr>) } })"

text \<open>\<^verbatim>\<open>init\<close>, called before the first allocation; \<open>b\<close> is the initial program break.\<close>

definition init :: "heap \<Rightarrow> heap option" where
  "init h = (let h = h\<lparr>hlb := brk h\<rparr>; (r1, h) = sbrk hdr_size h in do {
     hp \<leftarrow> r1;
     let h = h\<lparr>mem_head := hp\<rparr>;
     let (r2, h) = sbrk hdr_size h;
     tp \<leftarrow> r2;
     let h = h\<lparr>mem_tail := tp\<rparr>;
     let h = h\<lparr>hub := brk h\<rparr>;
     h \<leftarrow> wr_chunk h hp (\<lambda>_. \<lparr>mc_size = hdr_size, mc_stat = 1, mp_next = tp, mp_prev = NULL\<rparr>);
     wr_chunk h tp (\<lambda>_. \<lparr>mc_size = hdr_size, mc_stat = 1, mp_next = NULL, mp_prev = hp\<rparr>) })"

section \<open>The invariant\<close>

definition sz :: "heap \<Rightarrow> addr \<Rightarrow> nat" where
  "sz h x = mc_size (chunk_at h x)"

definition st :: "heap \<Rightarrow> addr \<Rightarrow> nat" where
  "st h x = mc_stat (chunk_at h x)"

definition hlinks :: "heap \<Rightarrow> addr \<Rightarrow> (addr \<times> addr) option" where
  "hlinks h x = Some (mp_prev (chunk_at h x), mp_next (chunk_at h x))"

text \<open>The bytes that the chunks \<open>xs\<close> take, headers included, and that they lie end to end.\<close>

definition span :: "(addr \<Rightarrow> nat) \<Rightarrow> addr list \<Rightarrow> nat" where
  "span s xs = (\<Sum>x\<leftarrow>xs. s x + hdr_size)"

fun tiles :: "(addr \<Rightarrow> nat) \<Rightarrow> addr \<Rightarrow> addr list \<Rightarrow> addr \<Rightarrow> bool" where
  "tiles s p [] q = (p = q)"
| "tiles s p (x # xs) q = (x = p \<and> tiles s (p + hdr_size + s x) xs q)"

definition sentinels :: "heap \<Rightarrow> bool" where
  "sentinels h = (0 < hlb h \<and> 8 dvd hlb h \<and> mem_head h = hlb h \<and> mem_tail h = hlb h + hdr_size \<and>
     st h (mem_head h) = 1 \<and> st h (mem_tail h) = 1 \<and> hlb h + 2 * hdr_size \<le> brk h \<and> brk h \<le> brk_limit h \<and>
     brk_limit h < 2 ^ 63 \<and> hub h = brk h)"

definition heap_inv :: "heap \<Rightarrow> addr list \<Rightarrow> bool" where
  "heap_inv h xs =
     (sentinels h \<and> dchain (hlinks h) NULL (mem_head h # xs @ [mem_tail h]) NULL \<and>
      tiles (sz h) (hlb h + 2 * hdr_size) xs (brk h) \<and>
      (\<forall>x \<in> set xs. st h x \<le> 1 \<and> 8 dvd sz h x) \<and>
      (xs \<noteq> [] \<longrightarrow> st h (last xs) = 1))"

lemma span_simps [simp]:
  "span s [] = 0" "span s (x # xs) = s x + hdr_size + span s xs" "span s (xs @ ys) = span s xs + span s ys"
  by (simp_all add: span_def)

lemma span_cong: "(\<And>x. x \<in> set xs \<Longrightarrow> s x = s' x) \<Longrightarrow> span s xs = span s' xs"
  by (induction xs) auto

lemma tiles_span: "tiles s p xs q \<Longrightarrow> q = p + span s xs"
proof (induction xs arbitrary: p)
  case (Cons x xs)
  have "q = p + hdr_size + s x + span s xs" using Cons by (auto simp del: span_simps)
  then show ?case by simp
qed simp

lemma tiles_append [simp]: "tiles s p (xs @ ys) q \<longleftrightarrow> tiles s p xs (p + span s xs) \<and> tiles s (p + span s xs) ys q"
  by (induction xs arbitrary: p) (auto simp: ac_simps)

lemma tiles_cong: "(\<And>x. x \<in> set xs \<Longrightarrow> s x = s' x) \<Longrightarrow> tiles s p xs q = tiles s' p xs q"
  by (induction xs arbitrary: p) auto

lemma tiles_bounds: "tiles s p xs q \<Longrightarrow> x \<in> set xs \<Longrightarrow> p \<le> x \<and> x + hdr_size + s x \<le> q"
  by (induction xs arbitrary: p) (fastforce dest: tiles_span)+

lemma tiles_distinct: "tiles s p xs q \<Longrightarrow> distinct xs"
  by (induction xs arbitrary: p) (auto dest: tiles_bounds)

lemma tiles_disjoint:
  "tiles s p xs q \<Longrightarrow> x \<in> set xs \<Longrightarrow> y \<in> set xs \<Longrightarrow> x \<noteq> y \<Longrightarrow>
     x + hdr_size + s x \<le> y \<or> y + hdr_size + s y \<le> x"
  by (induction xs arbitrary: p) (auto dest: tiles_bounds)

lemma tiles_aligned: "tiles s p xs q \<Longrightarrow> 8 dvd p \<Longrightarrow> \<forall>x \<in> set xs. 8 dvd s x \<Longrightarrow> x \<in> set xs \<Longrightarrow> 8 dvd x"
proof (induction xs arbitrary: p)
  case (Cons y ys)
  have "8 dvd p + 32 + s y" using Cons.prems by (auto intro!: dvd_add)
  with Cons show ?case by auto
qed simp

lemma span_sublist: "sublist xs ys \<Longrightarrow> span s xs \<le> span s ys"
  by (auto simp: sublist_def)

lemma heap_inv_rd:
  assumes "heap_inv h xs" "x \<in> set xs \<or> x = mem_head h \<or> x = mem_tail h"
  shows "rd_chunk h x = Some (chunk_at h x)"
  using assms tiles_bounds[of "sz h" "hlb h + 64" xs "brk h" x]
  by (auto simp: heap_inv_def sentinels_def rd_chunk_def)

lemma heap_inv_notin:
  assumes "heap_inv h xs"
  shows "mem_head h \<notin> set xs" "mem_tail h \<notin> set xs" "mem_head h \<noteq> mem_tail h" "NULL \<notin> set xs"
    "distinct xs" "mem_head h \<noteq> NULL" "mem_tail h \<noteq> NULL"
  using assms tiles_bounds[of "sz h" "hlb h + 64" xs "brk h"] tiles_distinct
  by (fastforce simp: heap_inv_def sentinels_def)+

lemma heap_inv_span: "heap_inv h xs \<Longrightarrow> brk h = hlb h + 64 + span (sz h) xs \<and> brk h < 2 ^ 63"
  by (auto simp: heap_inv_def sentinels_def dest: tiles_span)

section \<open>The scan\<close>

lemma add64_small: "a + b < 2 ^ 64 \<Longrightarrow> add64 a b = a + b"
  by (simp add: add64_def)

lemma sub64_le: "b \<le> a \<Longrightarrow> a < 2 ^ 64 \<Longrightarrow> sub64 a b = a - b"
proof -
  assume a: "b \<le> a" "a < 2 ^ 64"
  then have "2 ^ 64 + a - b = 2 ^ 64 + (a - b)" by simp
  moreover have "a - b < 2 ^ 64" using a by linarith
  ultimately show ?thesis unfolding sub64_def by (simp only: mod_add_self1 mod_less)
qed

text \<open>A chain of readable chunks that ends at the tail sentinel.\<close>

definition suffix_ok :: "heap \<Rightarrow> addr list \<Rightarrow> bool" where
  "suffix_ok h ys = ((\<exists>pv. dchain (hlinks h) pv (ys @ [mem_tail h]) NULL) \<and>
     (\<forall>y \<in> set ys. rd_chunk h y = Some (chunk_at h y) \<and> y \<noteq> mem_tail h) \<and>
     rd_chunk h (mem_tail h) = Some (chunk_at h (mem_tail h)) \<and> st h (mem_tail h) = 1)"

lemma suffix_ok_Cons:
  assumes "suffix_ok h (y # ys)"
  shows "suffix_ok h ys" "mp_next (chunk_at h y) = hd_or (mem_tail h) ys"
    "rd_chunk h y = Some (chunk_at h y)" "y \<noteq> mem_tail h"
  using assms by (auto simp: suffix_ok_def hlinks_def)

lemma suffix_ok_append: "suffix_ok h (xs @ ys) \<Longrightarrow> suffix_ok h ys"
  by (induction xs) (auto dest: suffix_ok_Cons)

lemma scan_inner_run:
  "suffix_ok h ys \<Longrightarrow> f + span (sz h) ys < 2 ^ 64 \<Longrightarrow>
   \<exists>t r. ys = t @ r \<and> scan_inner h req (hd_or (mem_tail h) ys) f = Some (hd_or (mem_tail h) r, f + span (sz h) t) \<and>
     (\<forall>y \<in> set t. st h y = 0) \<and> (req \<le> f + span (sz h) t \<or> r = [] \<or> st h (hd_or 0 r) \<noteq> 0)"
proof (induction ys arbitrary: f)
  case Nil
  then show ?case by (subst scan_inner.simps) (auto simp: suffix_ok_def st_def)
next
  case (Cons y ys)
  note y = suffix_ok_Cons[OF Cons.prems(1)]
  show ?case
  proof (cases "f < req \<and> st h y = 0")
    case True
    have add: "add64 f (add64 (mc_size (chunk_at h y)) 32) = f + (sz h y + 32)"
      using Cons.prems(2) by (simp add: add64_small sz_def)
    have bound: "f + (sz h y + 32) + span (sz h) ys < 2 ^ 64" using Cons.prems(2) by simp
    obtain t r where tr: "ys = t @ r"
      "scan_inner h req (hd_or (mem_tail h) ys) (f + (sz h y + 32)) = Some (hd_or (mem_tail h) r, f + (sz h y + 32) + span (sz h) t)"
      "\<forall>y \<in> set t. st h y = 0" "req \<le> f + (sz h y + 32) + span (sz h) t \<or> r = [] \<or> st h (hd_or 0 r) \<noteq> 0"
      using Cons.IH[OF y(1) bound] by blast
    have "scan_inner h req y f = Some (hd_or (mem_tail h) r, f + span (sz h) (y # t))"
      by (subst scan_inner.simps) (use True y add tr(2) in \<open>simp add: st_def ac_simps\<close>)
    then show ?thesis using tr True
      by (intro exI[of _ "y # t"] exI[of _ r]) (auto simp: ac_simps)
  next
    case False
    then have "scan_inner h req y f = Some (y, f)"
      by (subst scan_inner.simps) (use y in \<open>auto simp: st_def\<close>)
    then show ?thesis using False by (intro exI[of _ "[]"] exI[of _ "y # ys"]) auto
  qed
qed

text \<open>No run of adjacent free chunks can hold \<open>req\<close> bytes.\<close>

definition no_fit :: "heap \<Rightarrow> nat \<Rightarrow> addr list \<Rightarrow> bool" where
  "no_fit h req ys = (\<forall>run. run \<noteq> [] \<longrightarrow> sublist run ys \<longrightarrow> (\<forall>x \<in> set run. st h x = 0) \<longrightarrow>
     span (sz h) run < req + hdr_size)"

lemma no_fit_skip:
  assumes "no_fit h req ys" "st h u \<noteq> 0" "t = [] \<or> span (sz h) t < req + hdr_size"
  shows "no_fit h req (t @ u # ys)"
  unfolding no_fit_def
proof (intro allI impI)
  fix run assume run: "run \<noteq> []" "sublist run (t @ u # ys)" "\<forall>x \<in> set run. st h x = 0"
  have "u \<notin> set run" using run(3) assms(2) by auto
  then have "sublist run t \<or> sublist run ys"
    using run(2) by (auto simp: sublist_append sublist_Cons_right prefix_Cons)
  then show "span (sz h) run < req + hdr_size"
  proof
    assume "sublist run t"
    then show ?thesis using span_sublist[of run t "sz h"] assms(3) run(1) by auto
  next
    assume "sublist run ys"
    then show ?thesis using assms(1) run by (auto simp: no_fit_def)
  qed
qed

text \<open>What the scan reports: the tail sentinel when nothing fits, or a run of free chunks
  \<open>x # mid\<close> that is large enough, together with the chunk \<open>nx\<close> behind it.\<close>

definition scan_result :: "heap \<Rightarrow> nat \<Rightarrow> addr list \<Rightarrow> (addr \<times> addr \<times> nat) option \<Rightarrow> bool" where
  "scan_result h req ys res =
     ((\<exists>s f. res = Some (mem_tail h, s, f) \<and> no_fit h req ys) \<or>
      (\<exists>pre x mid nx post. ys = pre @ x # mid @ nx # post \<and> (\<forall>y \<in> set (x # mid). st h y = 0) \<and>
         req \<le> sz h x + span (sz h) mid \<and> res = Some (x, nx, sz h x + span (sz h) mid)))"

lemma scan_result_skip:
  assumes "scan_result h req ys res" "st h u \<noteq> 0" "t = [] \<or> span (sz h) t < req + hdr_size"
  shows "scan_result h req (t @ u # ys) res"
proof (cases "\<exists>s f. res = Some (mem_tail h, s, f) \<and> no_fit h req ys")
  case True
  then show ?thesis using no_fit_skip[OF _ assms(2,3)] by (auto simp: scan_result_def)
next
  case False
  with assms(1) obtain pre x mid nx post where
    "ys = pre @ x # mid @ nx # post" "\<forall>y \<in> set (x # mid). st h y = 0" "req \<le> sz h x + span (sz h) mid"
    "res = Some (x, nx, sz h x + span (sz h) mid)" unfolding scan_result_def by blast
  then have "t @ u # ys = (t @ u # pre) @ x # mid @ nx # post \<and> (\<forall>y \<in> set (x # mid). st h y = 0) \<and>
    req \<le> sz h x + span (sz h) mid \<and> res = Some (x, nx, sz h x + span (sz h) mid)" by simp
  then show ?thesis unfolding scan_result_def by blast
qed

lemma scan_outer_find:
  "suffix_ok h ys \<Longrightarrow> span (sz h) ys < 2 ^ 64 \<Longrightarrow> ys \<noteq> [] \<longrightarrow> st h (last ys) \<noteq> 0 \<Longrightarrow>
   scan_result h req ys (scan_outer h req (hd_or (mem_tail h) ys) s 0)"
proof (induction ys arbitrary: s rule: measure_induct_rule[where f = length])
  case (less ys)
  show ?case
  proof (cases ys)
    case Nil
    then show ?thesis by (subst scan_outer.simps) (simp add: scan_result_def no_fit_def)
  next
    case (Cons y zs)
    note y = suffix_ok_Cons[OF less.prems(1)[unfolded Cons]]
    show ?thesis
    proof (cases "st h y = 0")
      case False
      have step: "scan_outer h req y s 0 = scan_outer h req (hd_or (mem_tail h) zs) s 0"
        by (subst scan_outer.simps) (use y False in \<open>auto simp: st_def\<close>)
      have "scan_result h req zs (scan_outer h req (hd_or (mem_tail h) zs) s 0)"
        by (rule less.IH) (use less.prems y(1) Cons in \<open>auto split: if_splits\<close>)
      from scan_result_skip[OF this, of y "[]"] False show ?thesis by (simp add: Cons step)
    next
      case True
      have add: "add64 0 (mc_size (chunk_at h y)) = sz h y"
        using less.prems(2) Cons by (simp add: add64_small sz_def)
      have bound: "sz h y + span (sz h) zs < 2 ^ 64" using less.prems(2) Cons by simp
      obtain t r where tr: "zs = t @ r"
        "scan_inner h req (hd_or (mem_tail h) zs) (sz h y) = Some (hd_or (mem_tail h) r, sz h y + span (sz h) t)"
        "\<forall>y \<in> set t. st h y = 0" "req \<le> sz h y + span (sz h) t \<or> r = [] \<or> st h (hd_or 0 r) \<noteq> 0"
        using scan_inner_run[OF y(1) bound, of req] by blast
      have "r \<noteq> []"
      proof
        assume "r = []"
        then have "last ys \<in> set (y # t)" using tr(1) Cons last_in_set[of ys] by auto
        then show False using less.prems(3) True tr(3) Cons by auto
      qed
      then obtain u r' where r: "r = u # r'" by (cases r) auto
      show ?thesis
      proof (cases "req \<le> sz h y + span (sz h) t")
        case fit: True
        have "scan_outer h req y s 0 = Some (y, u, sz h y + span (sz h) t)"
          by (subst scan_outer.simps) (use y True tr(2) add fit r in \<open>simp add: st_def\<close>)
        moreover have "ys = [] @ y # t @ u # r'" using Cons tr(1) r by simp
        ultimately show ?thesis using Cons True tr(3) fit unfolding scan_result_def by fastforce
      next
        case nofit: False
        have u: "suffix_ok h (u # r')" using suffix_ok_append[of h t] y(1) tr(1) r by simp
        have used: "st h u \<noteq> 0" using tr(4) nofit r by auto
        have step: "scan_outer h req y s 0 = scan_outer h req (hd_or (mem_tail h) r') u 0"
          by (subst scan_outer.simps)
            (use y True tr(2) add nofit r suffix_ok_Cons(2,3)[OF u] in \<open>simp add: st_def\<close>)
        have "scan_result h req r' (scan_outer h req (hd_or (mem_tail h) r') u 0)"
          by (rule less.IH)
            (use less.prems suffix_ok_Cons(1)[OF u] Cons tr(1) r in \<open>auto split: if_splits\<close>)
        from scan_result_skip[OF this used, of "y # t"] nofit show ?thesis
          by (simp add: Cons tr(1) r step)
      qed
    qed
  qed
qed

lemma view_simps [simp]:
  "hlinks (h\<lparr>chunk_at := f\<rparr>) = (\<lambda>x. Some (mp_prev (f x), mp_next (f x)))"
  "sz (h\<lparr>chunk_at := f\<rparr>) = (\<lambda>x. mc_size (f x))"
  "st (h\<lparr>chunk_at := f\<rparr>) = (\<lambda>x. mc_stat (f x))"
  "hlinks (h\<lparr>brk := b\<rparr>) = hlinks h" "sz (h\<lparr>brk := b\<rparr>) = sz h" "st (h\<lparr>brk := b\<rparr>) = st h"
  "hlinks (h\<lparr>hub := b\<rparr>) = hlinks h" "sz (h\<lparr>hub := b\<rparr>) = sz h" "st (h\<lparr>hub := b\<rparr>) = st h"
  by (auto simp: hlinks_def sz_def st_def)

lemma tiles_upd_other [simp]: "p \<notin> set xs \<Longrightarrow> tiles (s(p := v)) a xs q = tiles s a xs q"
  by (rule tiles_cong) auto

lemma span_upd_other [simp]: "p \<notin> set xs \<Longrightarrow> span (s(p := v)) xs = span s xs"
  by (rule span_cong) auto

lemma heap_invD:
  assumes "heap_inv h xs"
  shows "sentinels h" "dchain (hlinks h) NULL (mem_head h # xs @ [mem_tail h]) NULL"
    "tiles (sz h) (hlb h + 64) xs (brk h)" "x \<in> set xs \<Longrightarrow> st h x \<le> 1" "x \<in> set xs \<Longrightarrow> 8 dvd sz h x"
    "xs \<noteq> [] \<Longrightarrow> st h (last xs) = 1"
  using assms by (auto simp: heap_inv_def)

lemma sentinelsD:
  assumes "sentinels h"
  shows "0 < hlb h" "8 dvd hlb h" "mem_head h = hlb h" "mem_tail h = hlb h + 32" "st h (mem_head h) = 1"
    "st h (mem_tail h) = 1" "hlb h + 64 \<le> brk h" "brk h \<le> brk_limit h" "brk_limit h < 2 ^ 63" "hub h = brk h"
  using assms by (auto simp: sentinels_def)

text \<open>To establish the invariant of a new heap it is enough to describe its links and sizes.\<close>

lemma heap_invI:
  assumes "sentinels h'" "\<And>x. hlinks h' x = links x" "dchain links NULL (mem_head h' # xs @ [mem_tail h']) NULL"
    "tiles (sz h') (hlb h' + 64) xs (brk h')" "\<And>x. x \<in> set xs \<Longrightarrow> st h' x \<le> 1 \<and> 8 dvd sz h' x"
    "xs \<noteq> [] \<Longrightarrow> st h' (last xs) = 1"
  shows "heap_inv h' xs"
proof -
  have "hlinks h' = links" using assms(2) by (rule ext)
  then show ?thesis using assms by (simp add: heap_inv_def)
qed


lemma dchain_insert:
  assumes "dchain links pv (as @ l # t # bs) nx" "distinct (as @ l # t # bs)" "b \<notin> set (as @ l # t # bs)" "b \<noteq> NULL"
  shows "dchain (links(b \<mapsto> (l, t), l \<mapsto> (last_or pv as, b), t \<mapsto> (b, hd_or nx bs))) pv (as @ l # b # t # bs) nx"
  using assms by (auto simp: dchain_append)

lemma dchain_join:
  assumes "dchain links pv (as @ l # mid @ t # bs) nx" "distinct (as @ l # mid @ t # bs)"
  shows "dchain (links(l \<mapsto> (last_or pv as, t), t \<mapsto> (l, hd_or nx bs))) pv (as @ l # t # bs) nx"
  using assms by (auto simp: dchain_append)

lemma chain_head_last: "\<exists>ys. mem_head h # xs = ys @ [last_or (mem_head h) xs] \<and> (xs = [] \<longrightarrow> ys = []) "
  by (cases xs rule: rev_cases) auto

definition grown :: "nat \<Rightarrow> heap \<Rightarrow> addr list \<Rightarrow> heap" where
  "grown req h xs = h\<lparr>brk := brk h + (req + 32),
     chunk_at := (chunk_at h)(
       brk h := \<lparr>mc_size = req, mc_stat = 1, mp_next = mem_tail h, mp_prev = last_or (mem_head h) xs\<rparr>,
       last_or (mem_head h) xs := (chunk_at h (last_or (mem_head h) xs))\<lparr>mp_next := brk h\<rparr>,
       mem_tail h := (chunk_at h (mem_tail h))\<lparr>mp_prev := brk h\<rparr>)\<rparr>"

lemma brk_notin:
  assumes inv: "heap_inv h xs"
  shows "brk h \<noteq> mem_head h" "brk h \<noteq> mem_tail h" "brk h \<notin> set xs" "brk h \<noteq> last_or (mem_head h) xs"
    "last_or (mem_head h) xs \<noteq> mem_tail h" 
proof -
  show b: "brk h \<noteq> mem_head h" "brk h \<noteq> mem_tail h" "brk h \<notin> set xs"
    using heap_invD(1)[OF inv] tiles_bounds[OF heap_invD(3)[OF inv], of "brk h"]
    by (auto simp: sentinels_def)
  show "brk h \<noteq> last_or (mem_head h) xs" "last_or (mem_head h) xs \<noteq> mem_tail h"
    using b heap_inv_notin(1,2,3)[OF inv] last_or_in[of xs "mem_head h"] by (cases xs; fastforce)+
qed

lemma heap_inv_ends:
  assumes inv: "heap_inv h xs"
  shows "mp_next (chunk_at h (mem_head h)) = hd_or (mem_tail h) xs"
    "mp_prev (chunk_at h (mem_tail h)) = last_or (mem_head h) xs"
    "mp_prev (chunk_at h (mem_head h)) = NULL" "mp_next (chunk_at h (mem_tail h)) = NULL"
  using heap_invD(2)[OF inv] by (auto simp: dchain_append hlinks_def)

lemma chunk_all_fields:
  "c\<lparr>mc_size := a, mc_stat := b, mp_next := n, mp_prev := p\<rparr> = \<lparr>mc_size = a, mc_stat = b, mp_next = n, mp_prev = p\<rparr>"
  by simp

lemma malloc_grow_exec:
  assumes inv: "heap_inv h xs" and req: "brk h + req + 32 \<le> brk_limit h"
  shows "malloc_grow req h = Some (brk h + 32, grown req h xs)"
proof -
  note s = heap_invD(1)[OF inv, unfolded sentinels_def]
  have inc: "add64 req 32 = req + 32" "req + 32 < 2 ^ 63" using req s by (simp_all add: add64_small)
  have brk: "sbrk (add64 req 32) h = (Some (brk h), h\<lparr>brk := brk h + (req + 32)\<rparr>)"
    using inc req s by (simp add: sbrk_def nat_add_distrib)
  note n = heap_inv_notin(1,2,3)[OF inv] brk_notin[OF inv]
  note e = heap_inv_ends[OF inv]
  have ok: "p \<noteq> NULL \<and> hlb h \<le> p \<and> p + 32 \<le> brk h + (req + 32)"
    if "p \<in> {mem_head h, mem_tail h, last_or (mem_head h) xs, brk h}" for p
    using that s tiles_bounds[OF heap_invD(3)[OF inv], of "last xs"] by (auto simp: last_or_def)
  have wr: "hlb g = hlb h \<Longrightarrow> brk g = brk h + (req + 32) \<Longrightarrow>
      wr_chunk g p f = Some (g\<lparr>chunk_at := (chunk_at g)(p := f (chunk_at g p))\<rparr>)"
    and rd: "hlb g = hlb h \<Longrightarrow> brk g = brk h + (req + 32) \<Longrightarrow> rd_chunk g p = Some (chunk_at g p)"
    if "p \<in> {mem_head h, mem_tail h, last_or (mem_head h) xs, brk h}" for p f g
    using ok[OF that] by (simp_all add: wr_chunk_def rd_chunk_def)
  have link: "hd_or (mem_tail h) xs = mem_tail h \<longleftrightarrow> xs = []" using n(2) hd_or_in[of xs "mem_tail h"] by fastforce
  show ?thesis
  proof (cases "xs = []")
    case True
    then show ?thesis using n e unfolding malloc_grow_def brk grown_def
      by (simp add: wr rd fun_upd_twist chunk_all_fields)
  next
    case False
    then show ?thesis using n e link unfolding malloc_grow_def brk grown_def
      by (simp add: wr rd fun_upd_twist chunk_all_fields)
  qed
qed

lemma grown_inv:
  assumes inv: "heap_inv h xs" and req: "8 dvd req" "brk h + req + 32 \<le> brk_limit h"
  shows "heap_inv ((grown req h xs)\<lparr>hub := brk (grown req h xs)\<rparr>) (xs @ [brk h])"
proof -
  let ?l = "last_or (mem_head h) xs" and ?h = "(grown req h xs)\<lparr>hub := brk (grown req h xs)\<rparr>"
  obtain ys where ys: "mem_head h # xs = ys @ [?l]" using chain_head_last by blast
  note n = heap_inv_notin[OF inv] brk_notin[OF inv]
  note s = heap_invD(1)[OF inv, unfolded sentinels_def]
  have full: "(mem_head h # xs) @ [mem_tail h] = ys @ ?l # mem_tail h # []" by (simp only: ys append.assoc append.simps)
  have "distinct ((mem_head h # xs) @ [mem_tail h])" "brk h \<notin> set ((mem_head h # xs) @ [mem_tail h])"
    using n by auto
  note d = this[unfolded full]
  have ch: "dchain (hlinks h) NULL (ys @ ?l # mem_tail h # []) NULL" 
    using heap_invD(2)[OF inv] by (simp only: full flip: append_Cons)
  have szs: "sz ?h x = (if x = brk h then req else sz h x)" for x using n by (simp add: grown_def sz_def)
  have sts: "st ?h x = (if x = brk h then 1 else st h x)" for x using n by (simp add: grown_def st_def)
  have same: "sz ?h x = sz h x" if "x \<in> set xs" for x using that szs n(10) by (metis (no_types))
  have t: "tiles (sz ?h) p xs q = tiles (sz h) p xs q" for p q by (rule tiles_cong) (rule same)
  have t': "span (sz ?h) xs = span (sz h) xs" by (rule span_cong) (rule same)
  have prev: "hlinks h ?l = Some (last_or NULL ys, mem_tail h)" using dchain_mid[OF ch] by simp
  have l': "mem_head h # (xs @ [brk h]) @ [mem_tail h] = ys @ ?l # brk h # mem_tail h # []" using ys by simp
  have "brk h \<noteq> NULL" using s by simp
  note ch' = dchain_insert[OF ch d this, folded l']
  show ?thesis
  proof (rule heap_invI[where links = "(hlinks h)(brk h \<mapsto> (?l, mem_tail h), ?l \<mapsto> (last_or NULL ys, brk h),
      mem_tail h \<mapsto> (brk h, hd_or NULL []))"])
    have "mem_head ?h = mem_head h" "mem_tail ?h = mem_tail h" "hlb ?h = hlb h" "brk ?h = brk h + (req + 32)"
      "brk_limit ?h = brk_limit h" "hub ?h = brk ?h" by (simp_all add: grown_def)
    moreover have "st ?h (mem_head h) = 1" "st ?h (mem_tail h) = 1" using s sts by auto
    ultimately show "sentinels ?h" using s req by (simp add: sentinels_def)
    show "hlinks ?h x = ((hlinks h)(brk h \<mapsto> (?l, mem_tail h), ?l \<mapsto> (last_or NULL ys, brk h),
      mem_tail h \<mapsto> (brk h, hd_or NULL []))) x" for x
      using n prev heap_inv_ends[OF inv] by (auto simp: grown_def hlinks_def)
    show "tiles (sz ?h) (hlb ?h + 64) (xs @ [brk h]) (brk ?h)"
      using heap_invD(3)[OF inv] tiles_span[OF heap_invD(3)[OF inv]] t t' szs by (simp add: grown_def)
    show "dchain ((hlinks h)(brk h \<mapsto> (?l, mem_tail h), ?l \<mapsto> (last_or NULL ys, brk h),
      mem_tail h \<mapsto> (brk h, hd_or NULL []))) NULL (mem_head ?h # (xs @ [brk h]) @ [mem_tail ?h]) NULL"
      using ch' by (simp add: grown_def)
  qed (use szs sts req heap_invD(4,5)[OF inv] in auto)
qed

text \<open>The position of a run of chunks inside the heap.\<close>

lemma tiles_appendI: "tiles s p xs r \<Longrightarrow> tiles s r ys q \<Longrightarrow> tiles s p (xs @ ys) q"
  using tiles_span by (auto simp only: tiles_append)

lemma run_layout:
  assumes inv: "heap_inv h (pre @ x # mid @ nx # post)"
  shows "nx = x + 32 + sz h x + span (sz h) mid" "y \<in> set pre \<Longrightarrow> y + 32 \<le> x" "hlb h + 64 \<le> x"
    "y \<in> set post \<Longrightarrow> nx + 32 \<le> y" "nx + 32 \<le> brk h" "tiles (sz h) (hlb h + 64) pre x"
    "tiles (sz h) nx (nx # post) (brk h)"
proof -
  have t: "tiles (sz h) (hlb h + 64) pre x" "x = hlb h + 64 + span (sz h) pre"
    "nx = x + 32 + sz h x + span (sz h) mid" "tiles (sz h) (nx + 32 + sz h nx) post (brk h)"
    using heap_invD(3)[OF inv] by (auto simp: ac_simps)
  then show "nx = x + 32 + sz h x + span (sz h) mid" "hlb h + 64 \<le> x" "nx + 32 \<le> brk h" "tiles (sz h) (hlb h + 64) pre x"
    "tiles (sz h) nx (nx # post) (brk h)" using tiles_span[OF t(4)] by auto
  show "y + 32 \<le> x" if "y \<in> set pre" using tiles_bounds[OF t(1) that] by simp
  show "nx + 32 \<le> y" if "y \<in> set post" using tiles_bounds[OF t(4) that] by simp
qed

definition rejoined :: "addr \<Rightarrow> addr \<Rightarrow> nat \<Rightarrow> heap \<Rightarrow> heap" where
  "rejoined x nx free h = h\<lparr>chunk_at := (chunk_at h)(
     x := (chunk_at h x)\<lparr>mc_size := free, mc_stat := 1, mp_next := nx\<rparr>,
     nx := (chunk_at h nx)\<lparr>mp_prev := x\<rparr>)\<rparr>"

definition cut :: "addr \<Rightarrow> addr \<Rightarrow> nat \<Rightarrow> nat \<Rightarrow> heap \<Rightarrow> heap" where
  "cut x nx req free h = h\<lparr>chunk_at := (chunk_at h)(
     x + (req + 32) := \<lparr>mc_size = free - req - 32, mc_stat = 0, mp_next = nx, mp_prev = x\<rparr>,
     nx := (chunk_at h nx)\<lparr>mp_prev := x + (req + 32)\<rparr>,
     x := (chunk_at h x)\<lparr>mc_size := req, mc_stat := 1, mp_next := x + (req + 32)\<rparr>)\<rparr>"

lemma rejoined_inv:
  assumes inv: "heap_inv h (pre @ x # mid @ nx # post)" and free: "free = sz h x + span (sz h) mid" "8 dvd free"
  shows "heap_inv (rejoined x nx free h) (pre @ x # nx # post)"
proof -
  let ?h = "rejoined x nx free h"
  note n = heap_inv_notin[OF inv]
  note s = heap_invD(1)[OF inv, unfolded sentinels_def]
  note lay = run_layout[OF inv]
  have ch: "dchain (hlinks h) NULL ((mem_head h # pre) @ x # mid @ nx # post @ [mem_tail h]) NULL"
    using heap_invD(2)[OF inv] by simp
  have "distinct ((mem_head h # pre) @ x # mid @ nx # post @ [mem_tail h])" using n by auto
  note ch' = dchain_join[OF ch this]
  have links: "hlinks h x = Some (last_or NULL (mem_head h # pre), hd_or nx mid)"
    "hlinks h nx = Some (last_or x mid, hd_or NULL (post @ [mem_tail h]))"
    using ch by (auto simp: dchain_append)
  have szs: "sz ?h y = (if y = x then free else sz h y)" for y using n by (auto simp: rejoined_def sz_def)
  have sts: "st ?h y = (if y = x then 1 else st h y)" for y using n by (auto simp: rejoined_def st_def)
  have "sz ?h y = sz h y" if "y \<in> set pre \<union> set (nx # post)" for y using that szs n(5) by auto
  then have t: "tiles (sz ?h) p pre q = tiles (sz h) p pre q" 
    "tiles (sz ?h) p (nx # post) q = tiles (sz h) p (nx # post) q" for p q
    by (metis UnCI tiles_cong)+
  show ?thesis
  proof (rule heap_invI)
    have "st ?h (mem_head h) = 1" "st ?h (mem_tail h) = 1" using s sts by auto
    then show "sentinels ?h" using s by (simp add: sentinels_def) (simp add: rejoined_def)
    show "hlinks ?h y = ((hlinks h)(x \<mapsto> (last_or NULL (mem_head h # pre), nx), nx \<mapsto> (x, hd_or NULL (post @ [mem_tail h])))) y" for y
      using n links by (auto simp: rejoined_def hlinks_def)
    show "dchain ((hlinks h)(x \<mapsto> (last_or NULL (mem_head h # pre), nx), nx \<mapsto> (x, hd_or NULL (post @ [mem_tail h])))) NULL
      (mem_head ?h # (pre @ x # nx # post) @ [mem_tail ?h]) NULL" using ch' by (simp add: rejoined_def)
    have b: "hlb ?h = hlb h" "brk ?h = brk h" by (simp_all add: rejoined_def)
    show "tiles (sz ?h) (hlb ?h + 64) (pre @ x # nx # post) (brk ?h)"
    proof (rule tiles_appendI)
      show "tiles (sz ?h) (hlb ?h + 64) pre x" using lay(6) t(1) b by simp
      have "x + 32 + sz ?h x = nx" using lay(1) free(1) szs[of x] by simp
      then show "tiles (sz ?h) x (x # nx # post) (brk ?h)" using lay(7) t(2) b by (simp del: tiles.simps(2) add: tiles.simps(2)[of _ _ x])
    qed
    show "st ?h (last (pre @ x # nx # post)) = 1" using heap_invD(6)[OF inv] sts by simp
  qed (use szs sts free heap_invD(4,5)[OF inv] in auto)
qed

lemma cut_inv:
  assumes inv: "heap_inv h (pre @ x # mid @ nx # post)" and free: "free = sz h x + span (sz h) mid" "8 dvd free"
    and req: "8 dvd req" "req + 48 \<le> free"
  shows "heap_inv (cut x nx req free h) (pre @ x # (x + (req + 32)) # nx # post)"
proof -
  let ?h = "cut x nx req free h" and ?n = "x + (req + 32)"
  note n = heap_inv_notin[OF inv]
  note s = heap_invD(1)[OF inv, unfolded sentinels_def]
  note lay = run_layout[OF inv]
  have new: "x < ?n" "?n + 32 \<le> nx" using lay(1) free req(2) by linarith+
  have notin: "?n \<notin> set pre" "?n \<notin> set (nx # post)" "?n \<noteq> mem_head h" "?n \<noteq> mem_tail h"
    using new lay(2)[of ?n] lay(3) lay(4)[of ?n] sentinelsD(3,4)[OF heap_invD(1)[OF inv]] by auto
  have ch: "dchain (hlinks h) NULL ((mem_head h # pre) @ x # mid @ nx # post @ [mem_tail h]) NULL"
    using heap_invD(2)[OF inv] by simp
  have "distinct ((mem_head h # pre) @ x # mid @ nx # post @ [mem_tail h])" using n by auto
  note ch1 = dchain_join[OF ch this]
  have d1: "distinct ((mem_head h # pre) @ x # nx # post @ [mem_tail h])" using n(1,2,3,5) by auto
  have d2: "?n \<notin> set ((mem_head h # pre) @ x # nx # post @ [mem_tail h])" "?n \<noteq> NULL" using notin by simp_all
  note ch' = dchain_insert[OF ch1 d1 d2]
  have links: "hlinks h x = Some (last_or NULL (mem_head h # pre), hd_or nx mid)"
    "hlinks h nx = Some (last_or x mid, hd_or NULL (post @ [mem_tail h]))"
    using ch by (auto simp: dchain_append)
  have ne: "?n \<noteq> nx" "nx \<noteq> x" using new by linarith+
  have szs: "sz ?h y = (if y = x then req else if y = ?n then free - req - 32 else sz h y)" for y
    using ne by (auto simp: cut_def sz_def)
  have sts: "st ?h y = (if y = x then 1 else if y = ?n then 0 else st h y)" for y
    using ne by (auto simp: cut_def st_def)
  have "sz ?h y = sz h y" if "y \<in> set pre \<union> set (nx # post)" for y using that szs n(5) notin by auto
  then have t: "tiles (sz ?h) p pre q = tiles (sz h) p pre q"
    "tiles (sz ?h) p (nx # post) q = tiles (sz h) p (nx # post) q" for p q
    by (metis UnCI tiles_cong)+
  have xne: "x \<notin> set (nx # post)" using n(5) by auto
  have d8: "8 dvd free - req - 32" using free(2) req(1) by (intro dvd_diff_nat) auto
  show ?thesis
  proof (rule heap_invI)
    have "st ?h (mem_head h) = 1" "st ?h (mem_tail h) = 1" using s sts notin by auto
    then show "sentinels ?h" using s by (simp add: sentinels_def) (simp add: cut_def)
    show "hlinks ?h y = ((hlinks h)(x \<mapsto> (last_or NULL (mem_head h # pre), nx), nx \<mapsto> (x, hd_or NULL (post @ [mem_tail h])),
        ?n \<mapsto> (x, nx), x \<mapsto> (last_or NULL (mem_head h # pre), ?n), nx \<mapsto> (?n, hd_or NULL (post @ [mem_tail h])))) y" for y
      using ne notin links by (auto simp: cut_def hlinks_def)
    show "dchain ((hlinks h)(x \<mapsto> (last_or NULL (mem_head h # pre), nx), nx \<mapsto> (x, hd_or NULL (post @ [mem_tail h])),
        ?n \<mapsto> (x, nx), x \<mapsto> (last_or NULL (mem_head h # pre), ?n), nx \<mapsto> (?n, hd_or NULL (post @ [mem_tail h])))) NULL
      (mem_head ?h # (pre @ x # ?n # nx # post) @ [mem_tail ?h]) NULL" using ch' by (simp add: cut_def)
    have b: "hlb ?h = hlb h" "brk ?h = brk h" by (simp_all add: cut_def)
    show "tiles (sz ?h) (hlb ?h + 64) (pre @ x # ?n # nx # post) (brk ?h)"
    proof (rule tiles_appendI)
      show "tiles (sz ?h) (hlb ?h + 64) pre x" using lay(6) t(1) b by simp
      have "x + 32 + sz ?h x = ?n" "?n + 32 + sz ?h ?n = nx" using lay(1) free(1) req(2) szs by auto
      then show "tiles (sz ?h) x (x # ?n # nx # post) (brk ?h)" using lay(7) t(2) b
        by (simp del: tiles.simps(2) add: tiles.simps(2)[of _ _ x] tiles.simps(2)[of _ _ ?n])
    qed
    have "last (nx # post) \<in> set (nx # post)" by (rule last_in_set) simp
    then have "last (nx # post) \<noteq> x" "last (nx # post) \<noteq> ?n" using notin(2) xne by metis+
    then show "st ?h (last (pre @ x # ?n # nx # post)) = 1" using heap_invD(6)[OF inv] sts by simp
    show "st ?h y \<le> 1 \<and> 8 dvd sz ?h y" if "y \<in> set (pre @ x # ?n # nx # post)" for y
      using that szs sts req d8 heap_invD(4,5)[OF inv, of y] by auto
  qed
qed

lemma malloc_reuse_exec:
  assumes inv: "heap_inv h (pre @ x # mid @ nx # post)" and free: "free = sz h x + span (sz h) mid" "req \<le> free"
  shows "malloc_reuse req x nx free h = Some (x + 32,
    if req + 48 \<le> free then cut x nx req free h else rejoined x nx free h)"
proof -
  note n = heap_inv_notin[OF inv]
  note s = heap_invD(1)[OF inv, unfolded sentinels_def]
  note lay = run_layout[OF inv]
  have "free < 2 ^ 64" using lay(1,5) free(1) conjunct2[OF heap_inv_span[OF inv]] by simp
  then have sub: "sub64 free req = free - req" "req + 48 \<le> free \<Longrightarrow> sub64 (free - req) 32 = free - req - 32"
    using free(2) by (simp_all add: sub64_le)
  have rd: "x \<noteq> NULL" "hlb h \<le> x" "x + 32 \<le> brk h" "nx \<noteq> NULL" "hlb h \<le> nx" "nx + 32 \<le> brk h" "nx \<noteq> x"
    using lay(1,3,5) by linarith+
  have wr: "p \<noteq> NULL \<and> hlb h \<le> p \<and> p + 32 \<le> brk h \<Longrightarrow> hlb g = hlb h \<Longrightarrow> brk g = brk h \<Longrightarrow>
      wr_chunk g p f = Some (g\<lparr>chunk_at := (chunk_at g)(p := f (chunk_at g p))\<rparr>)" for p f g
    by (simp add: wr_chunk_def rd_chunk_def)
  show ?thesis
  proof (cases "req + 48 \<le> free")
    case True
    have new: "x < x + (req + 32)" "x + (req + 32) + 32 \<le> nx" using lay(1) free True by linarith+
    then have ok: "x + (req + 32) \<noteq> NULL \<and> hlb h \<le> x + (req + 32) \<and> x + (req + 32) + 32 \<le> brk h"
      "x + (req + 32) \<noteq> nx" "x + (req + 32) \<noteq> x" using rd by linarith+
    have "48 \<le> free - req" using True by simp
    then show ?thesis
      using True sub rd(7) rd(7)[symmetric] ok(2,3) wr[OF ok(1)] unfolding malloc_reuse_def cut_def Let_def
      by (simp add: wr rd chunk_all_fields)
  next
    case False
    then have "\<not> 48 \<le> free - req" using free(2) by simp
    then show ?thesis
      using False sub rd(7) unfolding malloc_reuse_def rejoined_def by (simp add: wr rd)
  qed
qed

section \<open>Allocation\<close>

text \<open>The blocks in use: from the address handed out to the number of bytes behind it.\<close>

definition blocks :: "heap \<Rightarrow> addr list \<Rightarrow> addr \<rightharpoonup> nat" where
  "blocks h xs p = (if 32 \<le> p \<and> p - 32 \<in> set xs \<and> st h (p - 32) = 1 then Some (sz h (p - 32)) else None)"

definition alloc_rep :: "heap \<Rightarrow> (addr \<rightharpoonup> nat) \<Rightarrow> bool" where
  "alloc_rep h B = (\<not> enomem h \<and> (\<exists>xs. heap_inv h xs \<and> B = blocks h xs))"

definition avail :: "heap \<Rightarrow> nat" where
  "avail h = brk_limit h - brk h"

lemma round8_ok: "n + 7 < 2 ^ 64 \<Longrightarrow> n \<le> round8 n \<and> round8 n \<le> n + 7 \<and> 8 dvd round8 n"
  unfolding round8_def by (simp add: add64_small)

lemma blocks_eqI:
  assumes "\<And>y. y \<in> set xs' \<Longrightarrow> st h' y = 1 \<Longrightarrow> y \<noteq> x \<Longrightarrow> y \<in> set xs \<and> st h y = 1 \<and> sz h' y = sz h y"
    and "\<And>y. y \<in> set xs \<Longrightarrow> st h y = 1 \<Longrightarrow> y \<in> set xs' \<and> st h' y = 1"
    and "x \<in> set xs'" "st h' x = 1"
  shows "blocks h' xs' = (blocks h xs)(x + 32 \<mapsto> sz h' x)"
proof
    fix p
    show "blocks h' xs' p = ((blocks h xs)(x + 32 \<mapsto> sz h' x)) p"
    proof (cases "p = x + 32")
      case True
      then show ?thesis using assms(3,4) by (simp add: blocks_def)
    next
      case False
      then have "32 \<le> p \<Longrightarrow> p - 32 \<noteq> x" by auto
      then show ?thesis using False assms(1)[of "p - 32"] assms(2)[of "p - 32"]
        by (auto simp: blocks_def)
    qed
qed

lemma blocks_free: "(x \<in> set xs \<Longrightarrow> st h x \<noteq> 1) \<Longrightarrow> blocks h xs (x + 32) = None"
  by (auto simp: blocks_def)

lemma heap_inv_suffix_ok: "heap_inv h xs \<Longrightarrow> suffix_ok h xs"
proof -
  assume inv: "heap_inv h xs"
  have "dchain (hlinks h) (mem_head h) (xs @ [mem_tail h]) NULL" using heap_invD(2)[OF inv] by simp
  moreover have "st h (mem_tail h) = 1" using sentinelsD(6)[OF heap_invD(1)[OF inv]] .
  ultimately show ?thesis
    using heap_inv_rd[OF inv] heap_inv_notin(2)[OF inv] by (auto simp: suffix_ok_def)
qed

lemma scan_of_heap:
  assumes inv: "heap_inv h xs"
  shows "scan_result h req xs (scan_outer h req (hd_or (mem_tail h) xs) s 0)"
proof (rule scan_outer_find)
  show "suffix_ok h xs" using inv by (rule heap_inv_suffix_ok)
  show "span (sz h) xs < 2 ^ 64" using heap_inv_span[OF inv] by simp
  show "xs \<noteq> [] \<longrightarrow> st h (last xs) \<noteq> 0" using heap_invD(6)[OF inv] by simp
qed

lemma hub_eq: "heap_inv h xs \<Longrightarrow> h\<lparr>hub := brk h\<rparr> = h"
  by (simp add: heap_inv_def sentinels_def)

text \<open>What one call does to the chunks: \<open>x\<close> is the chunk it hands out.\<close>

definition malloc_post :: "nat \<Rightarrow> heap \<Rightarrow> addr list \<Rightarrow> addr \<Rightarrow> heap \<Rightarrow> bool" where
  "malloc_post n h xs r h' = (\<exists>xs' x. r = x + 32 \<and> heap_inv h' xs' \<and> n \<le> sz h' x \<and>
     blocks h' xs' = (blocks h xs)(r \<mapsto> sz h' x) \<and> blocks h xs r = None \<and> 8 dvd r \<and>
     enomem h' = enomem h \<and> brk_limit h' = brk_limit h \<and>
     (if no_fit h (round8 n) xs then brk h' = brk h + 32 + round8 n else brk h' = brk h))"

lemma sz_gt_fit:
  assumes "xs = pre @ x # mid @ nx # post" "\<forall>y \<in> set (x # mid). st h y = 0" "req \<le> sz h x + span (sz h) mid"
  shows "\<not> no_fit h req xs"
proof
  assume "no_fit h req xs"
  moreover have "sublist (x # mid) xs" unfolding assms(1) by (metis append_Cons sublist_appendI)
  ultimately have "span (sz h) (x # mid) < req + 32" using assms(2) unfolding no_fit_def by blast
  then show False using assms(3) by simp
qed

lemma grown_views:
  assumes inv: "heap_inv h xs"
  shows "sz ((grown req h xs)\<lparr>hub := b\<rparr>) y = (if y = brk h then req else sz h y)"
    "st ((grown req h xs)\<lparr>hub := b\<rparr>) y = (if y = brk h then 1 else st h y)"
  using brk_notin[OF inv] by (auto simp: grown_def sz_def st_def)

lemma heap_inv_aligned:
  assumes inv: "heap_inv h xs" and x: "x \<in> set xs"
  shows "8 dvd x + 32"
proof -
  have "8 dvd hlb h + 64" using sentinelsD(2)[OF heap_invD(1)[OF inv]] by simp
  from tiles_aligned[OF heap_invD(3)[OF inv] this] have "8 dvd x" using heap_invD(5)[OF inv] x by blast
  then show ?thesis by simp
qed

lemma span_dvd: "\<forall>x \<in> set xs. 8 dvd s x \<Longrightarrow> 8 dvd span s xs"
  by (induction xs) auto

lemma reuse_post:
  assumes inv: "heap_inv h xs" and xs: "xs = pre @ x # mid @ nx # post" and fr: "\<forall>y \<in> set (x # mid). st h y = 0"
    "req \<le> sz h x + span (sz h) mid" and r8: "n \<le> req" "req \<le> n + 7" "8 dvd req" and req: "req = round8 n"
  defines "free \<equiv> sz h x + span (sz h) mid"
  defines "h' \<equiv> if req + 48 \<le> free then cut x nx req free h else rejoined x nx free h"
  shows "malloc_post n h xs (x + 32) h'"
proof -
  have f8: "8 dvd free" unfolding free_def
    using heap_invD(5)[OF inv] xs by (intro dvd_add span_dvd) auto
  have nf: "\<not> no_fit h (round8 n) xs" using sz_gt_fit[OF xs fr] req by simp
  note lay = run_layout[OF inv[unfolded xs]]
  define xs' where "xs' = (if req + 48 \<le> free then pre @ x # (x + (req + 32)) # nx # post else pre @ x # nx # post)"
  have inv': "heap_inv h' xs'"
    using cut_inv[OF inv[unfolded xs] _ f8 r8(3)] rejoined_inv[OF inv[unfolded xs] _ f8]
    by (auto simp: h'_def xs'_def free_def)
  have new: "x + (req + 32) + 32 \<le> nx" if "req + 48 \<le> free" using lay(1) that unfolding free_def by linarith
  have nx: "nx \<noteq> x" using lay(1) by linarith
  have szs: "y \<noteq> x \<Longrightarrow> (req + 48 \<le> free \<Longrightarrow> y \<noteq> x + (req + 32)) \<Longrightarrow> sz h' y = sz h y \<and> st h' y = st h y" for y
    using nx by (auto simp: h'_def cut_def rejoined_def sz_def st_def)
  have sx: "sz h' x = (if req + 48 \<le> free then req else free)" "st h' x = 1"
    using nx by (auto simp: h'_def cut_def rejoined_def sz_def st_def)
  have stn: "req + 48 \<le> free \<Longrightarrow> st h' (x + (req + 32)) = 0"
    using new by (auto simp: h'_def cut_def st_def)
  have d: "distinct xs" using heap_inv_notin(5)[OF inv] .
  have used: "y \<in> set pre \<union> set (nx # post)" if "y \<in> set xs" "st h y = 1" for y
    using that fr(1) xs by auto
  have notnew: "y \<noteq> x + (req + 32)" if "req + 48 \<le> free" "y \<in> set pre \<union> set (nx # post)" for y
    using new[OF that(1)] that(2) lay(2)[of y] lay(4)[of y] by auto
  show ?thesis
    unfolding malloc_post_def
  proof (intro exI[of _ xs'] exI[of _ x] conjI)
    show "n \<le> sz h' x" using sx(1) r8(1) fr(2) by (auto simp: free_def)
    show "blocks h xs (x + 32) = None" using fr(1) by (intro blocks_free) simp
    show "blocks h' xs' = (blocks h xs)(x + 32 \<mapsto> sz h' x)"
    proof (rule blocks_eqI)
      fix y
      show "y \<in> set xs \<and> st h y = 1 \<and> sz h' y = sz h y" if y: "y \<in> set xs'" "st h' y = 1" "y \<noteq> x"
      proof -
        have n: "req + 48 \<le> free \<Longrightarrow> y \<noteq> x + (req + 32)" using stn y(2) by auto
        then have "y \<in> set xs" using y by (auto simp: xs'_def xs split: if_splits)
        then show ?thesis using szs[OF y(3) n] y(2) by simp
      qed
      show "y \<in> set xs' \<and> st h' y = 1" if "y \<in> set xs" "st h y = 1"
      proof -
        have "y \<noteq> x" using that fr(1) by auto
        then show ?thesis using used[OF that] szs[OF _ notnew] that by (auto simp: xs'_def)
      qed
      show "x \<in> set xs'" "st h' x = 1" using sx by (auto simp: xs'_def)
    qed
    show "8 dvd x + 32" using heap_inv_aligned[OF inv] xs by simp
    show "if no_fit h (round8 n) xs then brk h' = brk h + 32 + round8 n else brk h' = brk h"
      using nf by (simp add: h'_def cut_def rejoined_def)
  qed (use inv' in \<open>simp_all add: h'_def cut_def rejoined_def\<close>)
qed

lemma my_malloc_hook_ok:
  assumes inv: "heap_inv h xs" and n: "0 < n" "n + 39 \<le> avail h" and mem: "\<not> enomem h"
  shows "returns (my_malloc_hook n h) (malloc_post n h xs)"
proof -
  note s = sentinelsD[OF heap_invD(1)[OF inv]]
  have "n + 7 < 2 ^ 64" using n(2) s(9) by (simp add: avail_def)
  then have r8: "n \<le> round8 n" "round8 n \<le> n + 7" "8 dvd round8 n" using round8_ok by blast+
  have lim: "brk h + round8 n + 32 \<le> brk_limit h" using n(2) r8(2) s(8) by (simp add: avail_def)
  have hd: "rd_chunk h (mem_head h) = Some (chunk_at h (mem_head h))" by (rule heap_inv_rd[OF inv]) simp
  have call: "my_malloc_hook n h = Option.bind (scan_outer h (round8 n) (hd_or (mem_tail h) xs) NULL 0)
      (\<lambda>(m_curs, s_curs, free_mem). Option.bind
        (if m_curs = mem_tail h then malloc_grow (round8 n) h else malloc_reuse (round8 n) m_curs s_curs free_mem h)
        (\<lambda>(result, h). Some (if \<not> enomem h then result else NULL, h\<lparr>hub := brk h\<rparr>)))"
    using n(1) hd heap_inv_ends(1)[OF inv] by (simp add: my_malloc_hook_def Let_def)
  show ?thesis
    using scan_of_heap[OF inv, of "round8 n" NULL] unfolding scan_result_def
  proof (elim disjE exE conjE)
    fix s' f assume scan: "scan_outer h (round8 n) (hd_or (mem_tail h) xs) NULL 0 = Some (mem_tail h, s', f)"
      and nf: "no_fit h (round8 n) xs"
    let ?h = "(grown (round8 n) h xs)\<lparr>hub := brk (grown (round8 n) h xs)\<rparr>"
    have g: "enomem (grown (round8 n) h xs) = enomem h" "brk_limit ?h = brk_limit h"
      "brk ?h = brk h + 32 + round8 n" "enomem ?h = enomem h" by (simp_all add: grown_def)
    have "malloc_post n h xs (brk h + 32) ?h"
      unfolding malloc_post_def
    proof (intro exI[of _ "xs @ [brk h]"] exI[of _ "brk h"] conjI)
      show inv': "heap_inv ?h (xs @ [brk h])" using grown_inv[OF inv r8(3) lim] .
      show "n \<le> sz ?h (brk h)" using r8(1) grown_views[OF inv] by simp
      show "blocks ?h (xs @ [brk h]) = (blocks h xs)(brk h + 32 \<mapsto> sz ?h (brk h))"
        by (rule blocks_eqI; use grown_views[OF inv] brk_notin(3)[OF inv] in auto)
      show "blocks h xs (brk h + 32) = None" using brk_notin(3)[OF inv] by (rule blocks_free[OF notE])
      show "8 dvd brk h + 32" using heap_inv_aligned[OF inv', of "brk h"] by simp
      show "if no_fit h (round8 n) xs then brk ?h = brk h + 32 + round8 n else brk ?h = brk h"
        using nf g(3) by simp
    qed (use g in simp_all)
    then show ?thesis using scan mem g(1) by (simp add: call malloc_grow_exec[OF inv lim])
  next
    fix pre x mid nx post
    assume xs: "xs = pre @ x # mid @ nx # post" and fr: "\<forall>y \<in> set (x # mid). st h y = 0"
      "round8 n \<le> sz h x + span (sz h) mid"
      and scan: "scan_outer h (round8 n) (hd_or (mem_tail h) xs) NULL 0 = Some (x, nx, sz h x + span (sz h) mid)"
    let ?free = "sz h x + span (sz h) mid"
    let ?h = "if round8 n + 48 \<le> ?free then cut x nx (round8 n) ?free h else rejoined x nx ?free h"
    have x: "x \<noteq> mem_tail h" using heap_inv_notin(2)[OF inv] xs by auto
    have "malloc_post n h xs (x + 32) ?h" using reuse_post[OF inv xs fr r8 refl] .
    moreover have "?h\<lparr>hub := brk ?h\<rparr> = ?h" "enomem ?h = enomem h" using s(10) by (simp_all add: cut_def rejoined_def)
    ultimately show ?thesis
      using scan mem x by (simp add: call malloc_reuse_exec[OF inv[unfolded xs] refl fr(2)] del: if_split_asm)
  qed
qed

section \<open>Release\<close>

definition marked :: "addr \<Rightarrow> heap \<Rightarrow> heap" where
  "marked x h = h\<lparr>chunk_at := (chunk_at h)(x := (chunk_at h x)\<lparr>mc_stat := 0\<rparr>)\<rparr>"

lemma marked_views [simp]:
  "hlinks (marked x h) = hlinks h" "sz (marked x h) = sz h" "st (marked x h) = (st h)(x := 0)"
  "mem_head (marked x h) = mem_head h" "mem_tail (marked x h) = mem_tail h" "hlb (marked x h) = hlb h"
  "brk (marked x h) = brk h" "brk_limit (marked x h) = brk_limit h" "hub (marked x h) = hub h"
  "enomem (marked x h) = enomem h"
  by (auto simp: marked_def hlinks_def sz_def st_def fun_eq_iff)

lemma rd_marked [simp]: "rd_chunk (marked x h) p = map_option (\<lambda>_. chunk_at (marked x h) p) (rd_chunk h p)"
  by (simp add: rd_chunk_def)

lemma marked_ptrs: "mp_prev (chunk_at (marked x h) y) = mp_prev (chunk_at h y)"
  "mp_next (chunk_at (marked x h) y) = mp_next (chunk_at h y)" "mc_size (chunk_at (marked x h) y) = sz h y"
  "mc_stat (chunk_at (marked x h) y) = (if y = x then 0 else st h y)"
  by (auto simp: marked_def sz_def st_def)

lemma free_fwd_run:
  "suffix_ok h ys \<Longrightarrow> f + span (sz h) ys < 2 ^ 64 \<Longrightarrow>
   (if \<forall>y \<in> set ys. st h y \<noteq> 1 then free_fwd h (hd_or (mem_tail h) ys) f = Some (mem_tail h, f + span (sz h) ys)
    else \<exists>u f'. u \<in> set ys \<and> free_fwd h (hd_or (mem_tail h) ys) f = Some (u, f'))"
proof (induction ys arbitrary: f)
  case Nil
  then show ?case by (subst free_fwd.simps) simp
next
  case (Cons y ys)
  note y = suffix_ok_Cons[OF Cons.prems(1)]
  show ?case
  proof (cases "st h y = 1")
    case True
    then have "free_fwd h y f = Some (y, f)" by (subst free_fwd.simps) (use y in \<open>auto simp: st_def\<close>)
    then show ?thesis using True by auto
  next
    case False
    have bound: "f + (sz h y + 32) + span (sz h) ys < 2 ^ 64" using Cons.prems(2) by simp
    have "free_fwd h y f = free_fwd h (hd_or (mem_tail h) ys) (f + (sz h y + 32))"
      by (subst free_fwd.simps) (use y False bound in \<open>simp add: st_def sz_def add64_small\<close>)
    then show ?thesis using Cons.IH[OF y(1) bound] False by (auto simp: ac_simps split: if_splits)
  qed
qed

lemma free_bwd_run:
  assumes "dchain (hlinks h) (mem_head h) pre nx" "\<forall>y \<in> set pre. rd_chunk h y = Some (chunk_at h y) \<and> y \<noteq> mem_head h"
    "f + span (sz h) pre < 2 ^ 64"
  shows "\<exists>keep drp. pre = keep @ drp \<and> (\<forall>y \<in> set drp. st h y \<noteq> 1) \<and> (keep \<noteq> [] \<longrightarrow> st h (last keep) = 1) \<and>
    free_bwd h (last_or (mem_head h) pre) f = Some (last_or (mem_head h) keep, f + span (sz h) drp)"
  using assms
proof (induction pre arbitrary: f nx rule: rev_induct)
  case Nil
  then show ?case by (subst free_bwd.simps) simp
next
  case (snoc y ys)
  have ys: "dchain (hlinks h) (mem_head h) ys y" and "hlinks h y = Some (last_or (mem_head h) ys, nx)"
    using snoc.prems(1) by (auto simp: dchain_append)
  then have y: "rd_chunk h y = Some (chunk_at h y)" "y \<noteq> mem_head h" "mp_prev (chunk_at h y) = last_or (mem_head h) ys"
    using snoc.prems(2) by (auto simp: hlinks_def)
  show ?case
  proof (cases "st h y = 1")
    case True
    then have "free_bwd h y f = Some (y, f)" by (subst free_bwd.simps) (use y in \<open>simp add: st_def\<close>)
    then show ?thesis using True by (intro exI[of _ "ys @ [y]"] exI[of _ "[]"]) auto
  next
    case False
    have bound: "f + (sz h y + 32) + span (sz h) ys < 2 ^ 64" using snoc.prems(3) by simp
    have step: "free_bwd h y f = free_bwd h (last_or (mem_head h) ys) (f + (sz h y + 32))"
      by (subst free_bwd.simps) (use y False bound in \<open>simp add: st_def sz_def add64_small\<close>)
    from snoc.IH[OF ys _ bound] snoc.prems(2) obtain keep drp where "ys = keep @ drp"
      "\<forall>y \<in> set drp. st h y \<noteq> 1" "keep \<noteq> [] \<longrightarrow> st h (last keep) = 1"
      "free_bwd h (last_or (mem_head h) ys) (f + (sz h y + 32)) = Some (last_or (mem_head h) keep, f + (sz h y + 32) + span (sz h) drp)"
      by auto
    then show ?thesis using step False by (intro exI[of _ keep] exI[of _ "drp @ [y]"]) auto
  qed
qed

text \<open>The heap after the free chunks behind \<open>keep\<close> were given back.\<close>

definition trimmed :: "addr list \<Rightarrow> nat \<Rightarrow> heap \<Rightarrow> heap" where
  "trimmed keep b h = (let l = last_or (mem_head h) keep in h\<lparr>brk := b, hub := b,
     chunk_at := (chunk_at h)(
       mem_tail h := (chunk_at h (mem_tail h))\<lparr>mp_prev := l\<rparr>,
       l := (chunk_at h l)\<lparr>mp_next := mem_tail h\<rparr>)\<rparr>)"

lemma trimmed_views:
  assumes "last_or (mem_head h) keep \<noteq> mem_tail h"
  shows "sz (trimmed keep b h) = sz h" "st (trimmed keep b h) = st h"
    "mem_head (trimmed keep b h) = mem_head h" "mem_tail (trimmed keep b h) = mem_tail h"
    "hlb (trimmed keep b h) = hlb h" "brk (trimmed keep b h) = b" "brk_limit (trimmed keep b h) = brk_limit h"
    "hub (trimmed keep b h) = b" "enomem (trimmed keep b h) = enomem h"
  using assms by (auto simp: trimmed_def Let_def sz_def st_def fun_eq_iff)

lemma trimmed_inv:
  assumes inv: "heap_inv h (keep @ drp)" and m: "g = marked x h" "x \<notin> set keep"
    and xd: "x \<in> set drp" and used: "keep \<noteq> [] \<longrightarrow> st h (last keep) = 1"
  shows "heap_inv (trimmed keep (hlb h + 64 + span (sz h) keep) g) keep"
proof -
  let ?l = "last_or (mem_head h) keep" and ?b = "hlb h + 64 + span (sz h) keep"
  let ?h = "trimmed keep ?b g"
  note n = heap_inv_notin[OF inv]
  note s = sentinelsD[OF heap_invD(1)[OF inv]]
  obtain ys where ys: "mem_head h # keep = ys @ [?l]" using chain_head_last by blast
  have l: "?l \<noteq> mem_tail h" using n(2,3) last_or_in[of keep "mem_head h"] by (cases "keep = []") auto
  have full: "mem_head h # (keep @ drp) @ [mem_tail h] = ys @ ?l # drp @ mem_tail h # []" 
    using arg_cong[OF ys, of "\<lambda>zs. zs @ drp @ [mem_tail h]"] by simp
  have ch: "dchain (hlinks h) NULL (ys @ ?l # drp @ mem_tail h # []) NULL"
    using heap_invD(2)[OF inv] by (simp only: full)
  have "distinct (mem_head h # (keep @ drp) @ [mem_tail h])" using n(1,2,3,5) by auto
  then have d: "distinct (ys @ ?l # drp @ mem_tail h # [])" by (simp only: full)
  have full': "mem_head h # keep @ [mem_tail h] = ys @ ?l # mem_tail h # []"
    using arg_cong[OF ys, of "\<lambda>zs. zs @ [mem_tail h]"] by simp
  note ch' = dchain_join[OF ch d, folded full']
  have links: "hlinks h ?l = Some (last_or NULL ys, hd_or (mem_tail h) drp)" "hlinks h (mem_tail h) = Some (last_or ?l drp, NULL)"
    using ch by (auto simp: dchain_append)
  have xx: "x \<noteq> mem_head h" "x \<noteq> mem_tail h" if "x \<in> set drp" using that n(1,2) by auto
  have v: "sz ?h = sz h" "\<And>y. y \<noteq> x \<Longrightarrow> st ?h y = st h y" using trimmed_views[of g keep] l m(1) by auto
  show ?thesis
  proof (rule heap_invI)
    have "?b \<le> brk h" using heap_inv_span[OF inv] by simp
    moreover have "st ?h (mem_head h) = 1" "st ?h (mem_tail h) = 1" using v(2) s(5,6) xx[OF xd] by metis+
    ultimately show "sentinels ?h" using s trimmed_views[of g keep] l m(1) by (simp add: sentinels_def)
    show "hlinks ?h y = ((hlinks h)(?l \<mapsto> (last_or NULL ys, mem_tail h), mem_tail h \<mapsto> (?l, hd_or NULL []))) y" for y
      using l links by (auto simp: trimmed_def Let_def hlinks_def m(1) marked_def)
    show "dchain ((hlinks h)(?l \<mapsto> (last_or NULL ys, mem_tail h), mem_tail h \<mapsto> (?l, hd_or NULL []))) NULL
      (mem_head ?h # keep @ [mem_tail ?h]) NULL" using ch' trimmed_views[of g keep] l m(1) by simp
    show "tiles (sz ?h) (hlb ?h + 64) keep (brk ?h)"
      using heap_invD(3)[OF inv] trimmed_views[of g keep] l m(1) by simp
    show "keep \<noteq> [] \<Longrightarrow> st ?h (last keep) = 1" using used v(2)[of "last keep"] m(2) last_in_set[of keep] by metis
    show "st ?h y \<le> 1 \<and> 8 dvd sz ?h y" if "y \<in> set keep" for y
    proof -
      have "y \<noteq> x" using that m(2) by metis
      then show ?thesis using heap_invD(4,5)[OF inv, of y] that v by simp
    qed
  qed
qed

lemma blocks_release:
  assumes "x \<in> set xs" "\<And>y. y \<in> set xs' \<Longrightarrow> y \<in> set xs"
    "\<And>y. y \<in> set xs \<Longrightarrow> y \<noteq> x \<Longrightarrow> st h y = 1 \<Longrightarrow> y \<in> set xs'"
    "\<And>y. y \<noteq> x \<Longrightarrow> st h' y = st h y" "sz h' = sz h" "x \<in> set xs' \<Longrightarrow> st h' x = 0"
  shows "blocks h' xs' = (blocks h xs)(x + 32 := None)"
proof
  fix p
  show "blocks h' xs' p = ((blocks h xs)(x + 32 := None)) p"
  proof (cases "32 \<le> p \<and> p - 32 = x")
    case True
    then show ?thesis using assms(6) by (auto simp: blocks_def)
  next
    case False
    then show ?thesis
      using assms(2)[of "p - 32"] assms(3)[of "p - 32"] assms(4)[of "p - 32"] assms(5)
      by (auto simp: blocks_def)
  qed
qed

definition free_post :: "heap \<Rightarrow> addr list \<Rightarrow> addr \<Rightarrow> heap \<Rightarrow> bool" where
  "free_post h xs p h' = (\<exists>xs'. heap_inv h' xs' \<and> blocks h' xs' = (blocks h xs)(p := None) \<and>
     enomem h' = enomem h \<and> brk_limit h' = brk_limit h \<and> brk h' \<le> brk h)"

lemma my_free_hook_inner:
  assumes inv: "heap_inv h (pre @ x # rest)" and used: "st h x = 1" and rest: "rest \<noteq> []"
  shows "my_free_hook (x + 32) h = Some (marked x h) \<and> free_post h (pre @ x # rest) (x + 32) (marked x h)"
proof -
  let ?xs = "pre @ x # rest"
  note s = sentinelsD[OF heap_invD(1)[OF inv]]
  note n = heap_inv_notin[OF inv]
  have x: "x \<noteq> mem_head h" "x \<noteq> mem_tail h" "x \<notin> set rest" using n by auto
  have ok: "suffix_ok (marked x h) (x # rest)"
    using suffix_ok_append[OF heap_inv_suffix_ok[OF inv]] x(2) by (auto simp: suffix_ok_def)
  have span: "0 + span (sz (marked x h)) (x # rest) < 2 ^ 64" using heap_inv_span[OF inv] by simp
  have last: "st h (last rest) = 1" "last rest \<in> set rest" using heap_invD(6)[OF inv] rest by auto
  then have "st (marked x h) (last rest) = 1" using x(3) by auto
  then have nf: "\<not> (\<forall>y \<in> set (x # rest). st (marked x h) y \<noteq> 1)" using last(2) by (meson list.set_intros(2))
  obtain u f' where u: "u \<in> set (x # rest)" "free_fwd (marked x h) x 0 = Some (u, f')"
    using free_fwd_run[OF ok span] unfolding if_not_P[OF nf] hd_or_simps by blast
  have "u \<noteq> mem_tail h" using u(1) n(2) by auto
  moreover have rd: "rd_chunk h x = Some (chunk_at h x)" by (rule heap_inv_rd[OF inv]) simp
  moreover have "(marked x h)\<lparr>hub := brk h\<rparr> = marked x h" using s(10) by (simp add: marked_def)
  ultimately have call: "my_free_hook (x + 32) h = Some (marked x h)"
    using used u(2) by (simp add: my_free_hook_def wr_chunk_def st_def flip: marked_def)
  have "heap_inv (marked x h) ?xs"
  proof (rule heap_invI[where links = "hlinks h"])
    show "sentinels (marked x h)" using s x by (simp add: sentinels_def)
    show "st (marked x h) (last ?xs) = 1" using last rest x(3) by auto
  qed (use heap_invD(2,3)[OF inv] heap_invD(4,5)[OF inv] in auto)
  moreover have "blocks (marked x h) ?xs = (blocks h ?xs)(x + 32 := None)"
    by (rule blocks_release) auto
  ultimately show ?thesis using call by (auto simp: free_post_def)
qed

lemma sbrk_back:
  assumes "f \<le> brk h - hlb h" "0 < f" "brk h \<le> brk_limit h" "hlb h \<le> brk h" "brk_limit h < 2 ^ 63"
  shows "snd (sbrk (sub64 0 f) h) = h\<lparr>brk := brk h - f\<rparr>"
proof -
  have f: "f < 2 ^ 63" using assms by simp
  have "sub64 0 f = 2 ^ 64 - f" using f assms(2) by (simp add: sub64_def)
  then have "int (brk h) + (if sub64 0 f < 2 ^ 63 then int (sub64 0 f) else int (sub64 0 f) - 2 ^ 64) = int (brk h - f)"
    using f assms by (simp add: of_nat_diff)
  then show ?thesis using assms by (simp add: sbrk_def Let_def)
qed

lemma my_free_hook_last:
  assumes inv: "heap_inv h (pre @ [x])" and used: "st h x = 1"
  shows "\<exists>keep drp. pre = keep @ drp \<and> (keep \<noteq> [] \<longrightarrow> st h (last keep) = 1) \<and>
    (\<forall>y \<in> set drp. st h y \<noteq> 1) \<and>
    my_free_hook (x + 32) h = Some (trimmed keep (hlb h + 64 + span (sz h) keep) (marked x h))"
proof -
  let ?g = "marked x h"
  note s = sentinelsD[OF heap_invD(1)[OF inv]]
  note n = heap_inv_notin[OF inv]
  have x: "x \<noteq> mem_head h" "x \<noteq> mem_tail h" "x \<notin> set pre" using n by auto
  have ok: "suffix_ok ?g [x]"
    using suffix_ok_append[OF heap_inv_suffix_ok[OF inv]] x(2) by (auto simp: suffix_ok_def)
  have total: "brk h = hlb h + 64 + span (sz h) pre + (sz h x + 32)" "brk h < 2 ^ 63"
    using heap_inv_span[OF inv] by simp_all
  have "0 + span (sz ?g) [x] < 2 ^ 64" using total by simp
  from free_fwd_run[OF ok this] have fwd: "free_fwd ?g x 0 = Some (mem_tail h, sz h x + 32)" by simp
  have "dchain (hlinks h) (mem_head h) (pre @ [x]) (mem_tail h)" using heap_invD(2)[OF inv] by (simp add: dchain_append)
  then have ch: "dchain (hlinks ?g) (mem_head ?g) pre x" "mp_prev (chunk_at h x) = last_or (mem_head h) pre"
    by (auto simp: dchain_append hlinks_def[of _ x])
  have rds: "\<forall>y \<in> set pre. rd_chunk ?g y = Some (chunk_at ?g y) \<and> y \<noteq> mem_head ?g"
    using heap_inv_rd[OF inv] n(1) by auto
  have bound: "(sz h x + 32) + span (sz ?g) pre < 2 ^ 64" using total by simp
  obtain keep drp where kd: "pre = keep @ drp" "\<forall>y \<in> set drp. st ?g y \<noteq> 1" "keep \<noteq> [] \<longrightarrow> st ?g (last keep) = 1"
    "free_bwd ?g (last_or (mem_head h) pre) (sz h x + 32) = Some (last_or (mem_head h) keep, (sz h x + 32) + span (sz h) drp)"
    using free_bwd_run[OF ch(1) rds bound] by auto
  let ?l = "last_or (mem_head h) keep" and ?f = "(sz h x + 32) + span (sz h) drp"
  have l: "?l \<noteq> mem_tail h" "?l \<noteq> x" "?l \<in> set (pre @ [x]) \<or> ?l = mem_head h"
    using n(2,3) x last_or_in[of keep "mem_head h"] kd(1) by (cases "keep = []"; auto)+
  have rd: "rd_chunk h y = Some (chunk_at h y)" if "y \<in> {x, mem_tail h, ?l}" for y
    using that heap_inv_rd[OF inv, of y] l(3) by auto
  have rdc: "rd_chunk (g\<lparr>chunk_at := c\<rparr>) y = map_option (\<lambda>_. c y) (rd_chunk g y)" for g c y
    by (simp add: rd_chunk_def)
  define c' where "c' = (chunk_at ?g)(mem_tail h := (chunk_at ?g (mem_tail h))\<lparr>mp_prev := ?l\<rparr>,
       ?l := (chunk_at ?g ?l)\<lparr>mp_next := mem_tail h\<rparr>)"
  have sb: "snd (sbrk (sub64 0 ?f) (?g\<lparr>chunk_at := c'\<rparr>)) = (?g\<lparr>chunk_at := c'\<rparr>)\<lparr>brk := brk h - ?f\<rparr>"
    using total kd(1) s by (subst sbrk_back) auto
  have b: "brk h - ?f = hlb h + 64 + span (sz h) keep" using total kd(1) by simp
  have "my_free_hook (x + 32) h = Some ((?g\<lparr>chunk_at := c', brk := brk h - ?f\<rparr>)\<lparr>hub := brk h - ?f\<rparr>)"
    using used fwd kd(4) rd ch(2) l sb
    by (simp add: my_free_hook_def wr_chunk_def st_def rdc marked_ptrs c'_def flip: marked_def)
  also have "\<dots> = Some (trimmed keep (hlb h + 64 + span (sz h) keep) ?g)"
    unfolding b by (simp add: trimmed_def Let_def c'_def)
  finally have call: "my_free_hook (x + 32) h = Some (trimmed keep (hlb h + 64 + span (sz h) keep) ?g)" .
  have "last keep \<noteq> x" if "keep \<noteq> []" using that x(3) kd(1) last_in_set[of keep] by auto
  then have "keep \<noteq> [] \<longrightarrow> st h (last keep) = 1" using kd(3) by simp
  moreover have "st h y \<noteq> 1" if "y \<in> set drp" for y
  proof -
    have "y \<noteq> x" using that x(3) kd(1) by auto
    then show ?thesis using bspec[OF kd(2) that] by simp
  qed
  ultimately show ?thesis using call kd(1) by blast
qed

lemma my_free_hook_ok:
  assumes inv: "heap_inv h xs" and p: "p \<in> dom (blocks h xs)"
  shows "yields (my_free_hook p h) (free_post h xs p)"
proof -
  define x where "x = p - 32"
  have x: "p = x + 32" "x \<in> set xs" "st h x = 1" using p by (auto simp: x_def blocks_def split: if_splits)
  then obtain pre rest where xs: "xs = pre @ x # rest" by (auto dest: split_list)
  show ?thesis
  proof (cases "rest = []")
    case False
    then show ?thesis using my_free_hook_inner[OF inv[unfolded xs] x(3)] x(1) xs by simp
  next
    case True
    then have inv': "heap_inv h (pre @ [x])" using inv xs by simp
    obtain keep drp where kd: "pre = keep @ drp" "keep \<noteq> [] \<longrightarrow> st h (last keep) = 1"
      "\<forall>y \<in> set drp. st h y \<noteq> 1"
      "my_free_hook (x + 32) h = Some (trimmed keep (hlb h + 64 + span (sz h) keep) (marked x h))"
      using my_free_hook_last[OF inv' x(3)] by blast
    let ?h = "trimmed keep (hlb h + 64 + span (sz h) keep) (marked x h)"
    note n = heap_inv_notin[OF inv']
    have xk: "x \<notin> set keep" using n(5) kd(1) by auto
    have l: "last_or (mem_head (marked x h)) keep \<noteq> mem_tail (marked x h)"
      using n(2,3) last_or_in[of keep "mem_head h"] kd(1) by (cases "keep = []") auto
    have "heap_inv ?h keep"
      using trimmed_inv[of h keep "drp @ [x]" "marked x h" x] inv' kd(1,2) xk by simp
    moreover have "blocks ?h keep = (blocks h xs)(p := None)"
      unfolding x(1) by (rule blocks_release) (use xs True kd xk trimmed_views[OF l] in auto)
    moreover have "hlb h + 64 + span (sz h) keep \<le> brk h" using heap_inv_span[OF inv'] kd(1) by simp
    ultimately show ?thesis using kd(4) x(1) trimmed_views[OF l] by (auto simp: free_post_def)
  qed
qed

section \<open>The allocator as its clients see it\<close>

text \<open>The calls of \<^verbatim>\<open>main\<close>, for any pair of allocation functions.\<close>

definition malloc_main ::
  "(nat \<Rightarrow> 'h \<Rightarrow> (addr \<times> 'h) option) \<Rightarrow> (addr \<Rightarrow> 'h \<Rightarrow> 'h option) \<Rightarrow> 'h \<Rightarrow> 'h option" where
  "malloc_main alloc release h = do {
     (mem, h) \<leftarrow> alloc (3 * 8) h;
     (mem0, h) \<leftarrow> alloc (10 * 4) h;
     (mem1, h) \<leftarrow> alloc (10 * 4) h;
     (mem2, h) \<leftarrow> alloc (10 * 4) h;
     h \<leftarrow> release mem1 h;
     (mem1, h) \<leftarrow> alloc (5 * 4) h;
     h \<leftarrow> release mem1 h;
     h \<leftarrow> release mem0 h;
     h \<leftarrow> release mem2 h;
     release mem h }"

text \<open>
  What a client may rely on. \<open>rep h B\<close>: the heap \<open>h\<close> is consistent and \<open>B\<close> are the blocks in use.
  39 bytes are the most a block can need on top of the request: a header and the rounding.
\<close>

locale block_allocator =
  fixes alloc :: "nat \<Rightarrow> 'h \<Rightarrow> (addr \<times> 'h) option"
    and release :: "addr \<Rightarrow> 'h \<Rightarrow> 'h option"
    and rep :: "'h \<Rightarrow> (addr \<rightharpoonup> nat) \<Rightarrow> bool"
    and room :: "'h \<Rightarrow> nat"
  assumes alloc_ok: "rep h B \<Longrightarrow> 0 < n \<Longrightarrow> n + 39 \<le> room h \<Longrightarrow>
      returns (alloc n h) (\<lambda>p h'. p \<noteq> NULL \<and> p \<notin> dom B \<and> 8 dvd p \<and> (\<exists>k \<ge> n. rep h' (B(p \<mapsto> k))) \<and>
        room h \<le> room h' + n + 39)"
    and release_ok: "rep h B \<Longrightarrow> p \<in> dom B \<Longrightarrow>
      yields (release p h) (\<lambda>h'. rep h' (B(p := None)) \<and> room h \<le> room h')"
    and rep_disjoint: "rep h B \<Longrightarrow> B p = Some k \<Longrightarrow> B q = Some l \<Longrightarrow> p \<noteq> q \<Longrightarrow> p + k \<le> q \<or> q + l \<le> p"
begin

lemma allocE:
  assumes "rep h B" "0 < n" "n + 39 \<le> room h"
  obtains p h' k where "alloc n h = Some (p, h')" "B p = None" "rep h' (B(p \<mapsto> k))" "room h \<le> room h' + n + 39"
  using alloc_ok[OF assms] by (auto elim!: returnsE)

lemma releaseE:
  assumes "rep h B" "B p = Some k"
  obtains h' where "release p h = Some h'" "rep h' (B(p := None))" "room h \<le> room h'"
  using release_ok[OF assms(1), of p] assms(2) by (auto elim!: yieldsE)

text \<open>The demonstration program gives back all it took.\<close>

lemma main_releases_all:
  assumes rep: "rep h B" and room: "359 \<le> room h"
  shows "yields (malloc_main alloc release h) (\<lambda>h'. rep h' B)"
proof -
  have "24 + 39 \<le> room h" using room by simp
  from allocE[OF rep _ this] obtain p h1 k where
    1: "alloc 24 h = Some (p, h1)" "B p = None" "rep h1 (B(p \<mapsto> k))" "room h \<le> room h1 + 24 + 39"
    by auto
  have "40 + 39 \<le> room h1" using room 1(4) by simp
  from allocE[OF 1(3) _ this] obtain p0 h2 k0 where
    2: "alloc 40 h1 = Some (p0, h2)" "(B(p \<mapsto> k)) p0 = None" "rep h2 (B(p \<mapsto> k, p0 \<mapsto> k0))" "room h1 \<le> room h2 + 40 + 39"
    by auto
  have "40 + 39 \<le> room h2" using room 1(4) 2(4) by simp
  from allocE[OF 2(3) _ this] obtain p1 h3 k1 where
    3: "alloc 40 h2 = Some (p1, h3)" "(B(p \<mapsto> k, p0 \<mapsto> k0)) p1 = None"
    "rep h3 (B(p \<mapsto> k, p0 \<mapsto> k0, p1 \<mapsto> k1))" "room h2 \<le> room h3 + 40 + 39" by auto
  have "40 + 39 \<le> room h3" using room 1(4) 2(4) 3(4) by simp
  from allocE[OF 3(3) _ this] obtain p2 h4 k2 where
    4: "alloc 40 h3 = Some (p2, h4)" "(B(p \<mapsto> k, p0 \<mapsto> k0, p1 \<mapsto> k1)) p2 = None"
    "rep h4 (B(p \<mapsto> k, p0 \<mapsto> k0, p1 \<mapsto> k1, p2 \<mapsto> k2))" "room h3 \<le> room h4 + 40 + 39" by auto
  have ne: "p0 \<noteq> p" "p1 \<noteq> p" "p1 \<noteq> p0" "p2 \<noteq> p" "p2 \<noteq> p0" "p2 \<noteq> p1" and
    old: "B p = None" "B p0 = None" "B p1 = None" "B p2 = None"
    using 1(2) 2(2) 3(2) 4(2) by (auto split: if_splits)
  let ?C = "B(p \<mapsto> k, p0 \<mapsto> k0, p2 \<mapsto> k2)"
  have "(B(p \<mapsto> k, p0 \<mapsto> k0, p1 \<mapsto> k1, p2 \<mapsto> k2)) p1 = Some k1" using ne by auto
  from releaseE[OF 4(3) this] obtain h5 where
    5: "release p1 h4 = Some h5" "rep h5 ((B(p \<mapsto> k, p0 \<mapsto> k0, p1 \<mapsto> k1, p2 \<mapsto> k2))(p1 := None))" "room h4 \<le> room h5"
    by blast
  have "(B(p \<mapsto> k, p0 \<mapsto> k0, p1 \<mapsto> k1, p2 \<mapsto> k2))(p1 := None) = ?C"
    using ne old by (auto simp: fun_eq_iff)
  then have rep5: "rep h5 ?C" using 5(2) by simp
  have "20 + 39 \<le> room h5" using room 1(4) 2(4) 3(4) 4(4) 5(3) by simp
  from allocE[OF rep5 _ this] obtain q h6 j where
    6: "alloc 20 h5 = Some (q, h6)" "?C q = None" "rep h6 (?C(q \<mapsto> j))" by (metis zero_less_numeral)
  have "(?C(q \<mapsto> j)) q = Some j" by simp
  from releaseE[OF 6(3) this] obtain h7 where 7: "release q h6 = Some h7" "rep h7 ?C"
    using 6(2) fun_upd_triv[of ?C q] by (metis fun_upd_upd)
  have "?C p0 = Some k0" using ne by auto
  from releaseE[OF 7(2) this] obtain h8 where 8: "release p0 h7 = Some h8" "rep h8 (?C(p0 := None))" by blast
  have "(?C(p0 := None)) p2 = Some k2" using ne by auto
  from releaseE[OF 8(2) this] obtain h9 where 9: "release p2 h8 = Some h9" "rep h9 (?C(p0 := None, p2 := None))" by blast
  have "(?C(p0 := None, p2 := None)) p = Some k" using ne by auto
  from releaseE[OF 9(2) this] obtain h10 where
    10: "release p h9 = Some h10" "rep h10 (?C(p0 := None, p2 := None, p := None))" by blast
  have "?C(p0 := None, p2 := None, p := None) = B" using ne old by (auto simp: fun_eq_iff)
  then show ?thesis
    using 1(1) 2(1) 3(1) 4(1) 5(1) 6(1) 7(1) 8(1) 9(1) 10 by (simp add: malloc_main_def)
qed

end

interpretation chunks: block_allocator my_malloc_hook my_free_hook alloc_rep avail
proof unfold_locales
  fix h B n
  assume rep: "alloc_rep h B" and n: "0 < n" "n + 39 \<le> avail h"
  then obtain xs where inv: "heap_inv h xs" "B = blocks h xs" and mem: "\<not> enomem h" by (auto simp: alloc_rep_def)
  note s = sentinelsD[OF heap_invD(1)[OF inv(1)]]
  have "n + 7 < 2 ^ 64" using n(2) s(9) by (simp add: avail_def)
  then have r8: "round8 n \<le> n + 7" using round8_ok by blast
  show "returns (my_malloc_hook n h) (\<lambda>p h'. p \<noteq> NULL \<and> p \<notin> dom B \<and> 8 dvd p \<and> (\<exists>k \<ge> n. alloc_rep h' (B(p \<mapsto> k))) \<and>
        avail h \<le> avail h' + n + 39)"
  proof (rule returns_mono[OF my_malloc_hook_ok[OF inv(1) n mem]])
    fix p h' assume "malloc_post n h xs p h'"
    then obtain xs' x where post: "p = x + 32" "heap_inv h' xs'" "n \<le> sz h' x" "blocks h xs p = None" "8 dvd p"
      "blocks h' xs' = (blocks h xs)(p \<mapsto> sz h' x)" "enomem h' = enomem h" "brk_limit h' = brk_limit h"
      "brk h' \<le> brk h + 32 + round8 n" unfolding malloc_post_def by (auto split: if_splits)
    then have "alloc_rep h' (B(p \<mapsto> sz h' x))" using mem inv(2) unfolding alloc_rep_def by metis
    then show "p \<noteq> NULL \<and> p \<notin> dom B \<and> 8 dvd p \<and> (\<exists>k \<ge> n. alloc_rep h' (B(p \<mapsto> k))) \<and> avail h \<le> avail h' + n + 39"
      using post inv(2) r8 by (auto simp: avail_def)
  qed
next
  fix h B p
  assume rep: "alloc_rep h B" and p: "p \<in> dom B"
  then obtain xs where inv: "heap_inv h xs" "B = blocks h xs" and mem: "\<not> enomem h" by (auto simp: alloc_rep_def)
  show "yields (my_free_hook p h) (\<lambda>h'. alloc_rep h' (B(p := None)) \<and> avail h \<le> avail h')"
  proof -
    obtain h' where h': "my_free_hook p h = Some h'" "free_post h xs p h'"
      using my_free_hook_ok[OF inv(1), of p] p inv(2) by (auto elim!: yieldsE)
    then have "alloc_rep h' (B(p := None))" using mem inv(2) unfolding alloc_rep_def free_post_def by metis
    moreover have "avail h \<le> avail h'" using h'(2) by (auto simp: free_post_def avail_def intro: diff_le_mono2)
    ultimately show ?thesis using h'(1) by simp
  qed
next
  fix h B p k q l
  assume rep: "alloc_rep h B" and B: "B p = Some k" "B q = Some l" "p \<noteq> q"
  then obtain xs where inv: "heap_inv h xs" "B = blocks h xs" by (auto simp: alloc_rep_def)
  have *: "p - 32 \<in> set xs" "q - 32 \<in> set xs" "32 \<le> p" "32 \<le> q" "k = sz h (p - 32)" "l = sz h (q - 32)"
    using B inv(2) by (auto simp: blocks_def split: if_splits)
  then have "p - 32 \<noteq> q - 32" using B(3) by linarith
  with * show "p + k \<le> q \<or> q + l \<le> p"
    using tiles_disjoint[OF heap_invD(3)[OF inv(1)], of "p - 32" "q - 32"] by linarith
qed

lemma init_ok:
  assumes "0 < brk h" "8 dvd brk h" "brk h + 64 \<le> brk_limit h" "brk_limit h < 2 ^ 63" "\<not> enomem h"
  shows "yields (init h) (\<lambda>h'. heap_inv h' [] \<and> \<not> enomem h' \<and> hlb h' = brk h \<and> brk h' = brk h + 64 \<and>
    brk_limit h' = brk_limit h)"
  using assms
  by (auto simp: init_def sbrk_def Let_def wr_chunk_def rd_chunk_def heap_inv_def sentinels_def hlinks_def st_def
      nat_add_distrib)

lemma blocks_Nil [simp]: "blocks h [] = Map.empty"
  by (auto simp: blocks_def)

lemma blocks_empty: "heap_inv h xs \<Longrightarrow> blocks h xs = Map.empty \<Longrightarrow> xs = []"
proof (rule ccontr)
  assume inv: "heap_inv h xs" and e: "blocks h xs = Map.empty" and xs: "xs \<noteq> []"
  have "blocks h xs (last xs + 32) = Some (sz h (last xs))" using heap_invD(6)[OF inv xs] xs by (simp add: blocks_def)
  then show False using e by simp
qed

section \<open>Properties\<close>

text \<open>Heaps for the witnesses: the program break is at 4096 and 64 KiB can be mapped.\<close>

definition raw_heap :: heap where
  "raw_heap = \<lparr>chunk_at = (\<lambda>_. \<lparr>mc_size = 0, mc_stat = 0, mp_next = 0, mp_prev = 0\<rparr>), mem_head = 0, mem_tail = 0,
     hlb = 0, hub = 0, brk = 4096, brk_limit = 69632, enomem = False\<rparr>"

text \<open>Three chunks of 16, 64 and 8 bytes; the one in the middle is free.\<close>

definition three_chunks :: heap where
  "three_chunks = \<lparr>chunk_at = (\<lambda>_. \<lparr>mc_size = 0, mc_stat = 0, mp_next = 0, mp_prev = 0\<rparr>)(
       4096 := \<lparr>mc_size = 32, mc_stat = 1, mp_next = 4160, mp_prev = 0\<rparr>,
       4128 := \<lparr>mc_size = 32, mc_stat = 1, mp_next = 0, mp_prev = 4304\<rparr>,
       4160 := \<lparr>mc_size = 16, mc_stat = 1, mp_next = 4208, mp_prev = 4096\<rparr>,
       4208 := \<lparr>mc_size = 64, mc_stat = 0, mp_next = 4304, mp_prev = 4160\<rparr>,
       4304 := \<lparr>mc_size = 8, mc_stat = 1, mp_next = 4128, mp_prev = 4208\<rparr>),
     mem_head = 4096, mem_tail = 4128, hlb = 4096, hub = 4344, brk = 4344, brk_limit = 69632, enomem = False\<rparr>"

lemma three_chunks_inv: "heap_inv three_chunks [4160, 4208, 4304]" "\<not> enomem three_chunks" "avail three_chunks = 65288"
  by (simp_all add: heap_inv_def sentinels_def hlinks_def sz_def st_def three_chunks_def avail_def)

lemma three_chunks_blocks: "blocks three_chunks [4160, 4208, 4304] = [4192 \<mapsto> 16, 4336 \<mapsto> 8]"
proof
  fix p :: nat
  show "blocks three_chunks [4160, 4208, 4304] p = [4192 \<mapsto> 16, 4336 \<mapsto> 8] p"
  proof (cases "32 \<le> p")
    case True
    then obtain y where "p = y + 32" using le_Suc_ex by (metis add.commute)
    then show ?thesis by (simp add: blocks_def three_chunks_def st_def sz_def)
  next
    case False
    then show ?thesis by (simp add: blocks_def)
  qed
qed

text \<open>C2: An allocation in a consistent heap with enough address space ends, has no undefined
  behaviour and returns an 8-aligned block of at least the requested size that was not in use;
  the invariant holds again, all other blocks are untouched, and the break moves only when no
  run of adjacent free chunks is large enough.\<close>

theorem my_malloc_hook_correct:
  assumes "heap_inv h xs" "0 < n" "n + 39 \<le> avail h" "\<not> enomem h"
  shows "returns (my_malloc_hook n h) (malloc_post n h xs)"
  using assms by (rule my_malloc_hook_ok)

theorem my_malloc_hook_correct_witness:
  "returns (my_malloc_hook 10 three_chunks) (malloc_post 10 three_chunks [4160, 4208, 4304])"
  using my_malloc_hook_correct[OF three_chunks_inv(1), of 10] three_chunks_inv(2,3) by simp

text \<open>C3: Releasing a block in use ends without undefined behaviour, removes exactly this block
  from the blocks in use, and keeps the invariant; in particular the chunks at the end of the
  heap that became free are given back, so that the last chunk is in use again.\<close>

theorem my_free_hook_correct:
  assumes "heap_inv h xs" "p \<in> dom (blocks h xs)"
  shows "yields (my_free_hook p h) (free_post h xs p)"
  using assms by (rule my_free_hook_ok)

theorem my_free_hook_correct_witness:
  "yields (my_free_hook 4336 three_chunks) (free_post three_chunks [4160, 4208, 4304] 4336)"
  by (rule my_free_hook_correct[OF three_chunks_inv(1)]) (simp add: three_chunks_blocks)

text \<open>Blocks in use never overlap: after any allocation the new block is disjoint from
  every other block in use.\<close>

theorem malloc_block_disjoint:
  assumes "alloc_rep h B" "0 < n" "n + 39 \<le> avail h" "q \<in> dom B"
  shows "returns (my_malloc_hook n h)
    (\<lambda>p h'. \<exists>k l. n \<le> k \<and> B q = Some l \<and> alloc_rep h' (B(p \<mapsto> k)) \<and> (p + k \<le> q \<or> q + l \<le> p))"
proof (rule returns_mono[OF chunks.alloc_ok[OF assms(1-3)]])
  fix p h' assume "p \<noteq> NULL \<and> p \<notin> dom B \<and> 8 dvd p \<and> (\<exists>k \<ge> n. alloc_rep h' (B(p \<mapsto> k))) \<and> avail h \<le> avail h' + n + 39"
  then obtain k where k: "n \<le> k" "p \<notin> dom B" "alloc_rep h' (B(p \<mapsto> k))" by blast
  obtain l where l: "B q = Some l" using assms(4) by blast
  then have "(B(p \<mapsto> k)) q = Some l" "p \<noteq> q" using k(2) by auto
  with chunks.rep_disjoint[OF k(3), of p k q l] have "p + k \<le> q \<or> q + l \<le> p" by simp
  then show "\<exists>k l. n \<le> k \<and> B q = Some l \<and> alloc_rep h' (B(p \<mapsto> k)) \<and> (p + k \<le> q \<or> q + l \<le> p)"
    using k l by blast
qed

theorem malloc_block_disjoint_witness:
  "returns (my_malloc_hook 10 three_chunks) (\<lambda>p h'. \<exists>k l. 10 \<le> k \<and> [4192 \<mapsto> 16, 4336 \<mapsto> 8] (4192 :: nat) = Some l \<and>
     alloc_rep h' ([4192 \<mapsto> 16, 4336 \<mapsto> 8](p \<mapsto> k)) \<and> (p + k \<le> 4192 \<or> 4192 + l \<le> p))"
proof (rule malloc_block_disjoint)
  show "alloc_rep three_chunks [4192 \<mapsto> 16, 4336 \<mapsto> 8]"
    using three_chunks_inv three_chunks_blocks unfolding alloc_rep_def by metis
qed (use three_chunks_inv(3) in \<open>simp_all add: dom_def\<close>)

text \<open>Run after \<^verbatim>\<open>init\<close>, the calls of \<^verbatim>\<open>main\<close> end without undefined behaviour and the
  program break is back at its value after \<^verbatim>\<open>init\<close>: all the memory is returned.\<close>

theorem malloc_main_restores_break:
  assumes "0 < brk h" "8 dvd brk h" "brk h + 64 + 359 \<le> brk_limit h" "brk_limit h < 2 ^ 63" "\<not> enomem h"
  shows "yields (Option.bind (init h) (malloc_main my_malloc_hook my_free_hook))
    (\<lambda>h'. heap_inv h' [] \<and> brk h' = hlb h' + 64)"
proof -
  have "brk h + 64 \<le> brk_limit h" using assms(3) by simp
  then obtain h1 where h1: "init h = Some h1" "heap_inv h1 []" "\<not> enomem h1" "brk h1 = brk h + 64" "brk_limit h1 = brk_limit h"
    using init_ok[OF assms(1,2) _ assms(4,5)] by (auto elim!: yieldsE)
  have "alloc_rep h1 Map.empty" "359 \<le> avail h1"
    using h1 assms(3) by (auto simp: alloc_rep_def avail_def intro!: exI[of _ "[]"])
  from chunks.main_releases_all[OF this] obtain h2 where
    h2: "malloc_main my_malloc_hook my_free_hook h1 = Some h2" "alloc_rep h2 Map.empty" by (rule yieldsE)
  then obtain xs where xs: "heap_inv h2 xs" "blocks h2 xs = Map.empty" by (auto simp: alloc_rep_def)
  then have "heap_inv h2 []" using blocks_empty by metis
  moreover from this have "brk h2 = hlb h2 + 64" using heap_inv_span by fastforce
  ultimately show ?thesis using h1(1) h2(1) by simp
qed

theorem malloc_main_restores_break_witness:
  "yields (Option.bind (init raw_heap) (malloc_main my_malloc_hook my_free_hook))
    (\<lambda>h'. heap_inv h' [] \<and> brk h' = hlb h' + 64)"
  by (rule malloc_main_restores_break) (simp_all add: raw_heap_def)

text \<open>A request within 7 bytes of \<^verbatim>\<open>SIZE_MAX\<close> is rounded to 0 bytes by the wrap-around of
  \<^verbatim>\<open>size + 7\<close>: in an empty heap the call succeeds and the block behind the returned pointer has
  no bytes at all.\<close>

theorem malloc_huge_request_wraps:
  assumes "heap_inv h []" "\<not> enomem h" "2 ^ 64 - 8 < n" "n < 2 ^ 64" "brk h + 32 \<le> brk_limit h"
  shows "returns (my_malloc_hook n h) (\<lambda>r h'. r = brk h + 32 \<and> heap_inv h' [brk h] \<and> blocks h' [brk h] r = Some 0)"
proof -
  have "(n + 7) mod 2 ^ 64 = n + 7 - 2 ^ 64" using assms(3,4) by (simp add: mod_if)
  then have r: "round8 n = 0" using assms(3,4) by (simp add: round8_def add64_def)
  have hd: "rd_chunk h (mem_head h) = Some (chunk_at h (mem_head h))" by (rule heap_inv_rd[OF assms(1)]) simp
  have scan: "scan_outer h 0 (mem_tail h) NULL 0 = Some (mem_tail h, NULL, 0)" by (subst scan_outer.simps) simp
  let ?h = "(grown 0 h [])\<lparr>hub := brk (grown 0 h [])\<rparr>"
  have "heap_inv ?h [brk h]" using grown_inv[OF assms(1), of 0] assms(5) by simp
  moreover have "blocks ?h [brk h] (brk h + 32) = Some 0" using grown_views[OF assms(1), of 0] by (simp add: blocks_def)
  moreover have "enomem (grown 0 h []) = enomem h" by (simp add: grown_def)
  moreover have "n \<noteq> 0" using assms(3) by simp
  ultimately show ?thesis
    using assms(2,5) hd heap_inv_ends(1)[OF assms(1)] r scan malloc_grow_exec[OF assms(1), of 0]
    by (simp add: my_malloc_hook_def)
qed

theorem malloc_huge_request_wraps_witness:
  "\<exists>h. returns (my_malloc_hook (2 ^ 64 - 1) h) (\<lambda>r h'. r = brk h + 32 \<and> heap_inv h' [brk h] \<and> blocks h' [brk h] r = Some 0)"
proof -
  obtain h where h: "heap_inv h []" "\<not> enomem h" "brk h = 4160" "brk_limit h = 69632"
    using init_ok[of raw_heap] by (auto simp: raw_heap_def elim!: yieldsE)
  show ?thesis
    by (rule exI[of _ h], rule malloc_huge_request_wraps[OF h(1,2)]) (use h(3,4) in simp_all)
qed

end
