(* ===== verification/Inet_Checksum.thy ===== *)
theory Inet_Checksum
  imports C_Prelude
begin

text \<open>
  The Internet checksum \<^verbatim>\<open>compute_checksum\<close> and its users \<^verbatim>\<open>compute_ip_checksum\<close>,
  \<^verbatim>\<open>compute_icmp_checksum\<close>, \<^verbatim>\<open>compute_tcp_checksum\<close>, \<^verbatim>\<open>compute_udp_checksum\<close>. The same code is in
  \<^verbatim>\<open>src/pcap_sniffer\<close>, \<^verbatim>\<open>src/icmp_raw_socket_ping\<close>, \<^verbatim>\<open>src/icmp_raw_socket_traceroute\<close> and in the
  three raw UDP clients \<^verbatim>\<open>src/udp_raw_*_socket_server\<close>.

  A packet is a list of bytes; a struct pointer into it is an offset. Loads and stores outside
  the packet are undefined behaviour, \<open>None\<close>. Multi-byte loads are little-endian, so a field in
  network order is read as its byte-swapped value, as in the C code.
\<close>

section \<open>Loads and stores\<close>

definition ld8 :: "byte list \<Rightarrow> nat \<Rightarrow> byte option" where
  "ld8 p i = (if i < length p then Some (p ! i) else None)"

definition ld16 :: "byte list \<Rightarrow> nat \<Rightarrow> u16 option" where
  "ld16 p i = (if Suc i < length p then Some (le16 (p ! i) (p ! Suc i)) else None)"

definition st8 :: "byte list \<Rightarrow> nat \<Rightarrow> byte \<Rightarrow> byte list option" where
  "st8 p i b = (if i < length p then Some (p[i := b]) else None)"

definition st16 :: "byte list \<Rightarrow> nat \<Rightarrow> u16 \<Rightarrow> byte list option" where
  "st16 p i w = (if Suc i < length p then Some (p[i := lo8 w, Suc i := hi8 w]) else None)"

definition ldn :: "byte list \<Rightarrow> nat \<Rightarrow> nat \<Rightarrow> byte list option" where
  "ldn p i n = (if i + n \<le> length p then Some (take n (drop i p)) else None)"

definition stn :: "byte list \<Rightarrow> nat \<Rightarrow> byte list \<Rightarrow> byte list option" where
  "stn p i bs = (if i + length bs \<le> length p then Some (take i p @ bs @ drop (i + length bs) p) else None)"

section \<open>The checksum\<close>

text \<open>
  The two summation steps of \<^verbatim>\<open>compute_checksum\<close>: whole words, then the odd byte. \<open>mem\<close> is the
  memory from \<open>addr\<close> on. The odd step loads a whole word and masks it, so it touches the byte
  behind the last one.
\<close>

fun checksum_sum :: "u64 \<Rightarrow> byte list \<Rightarrow> nat \<Rightarrow> u64 option" where
  "checksum_sum s mem count =
     (if count > 1 then
        (case mem of lo # hi # mem' \<Rightarrow> checksum_sum (s + ucast (le16 lo hi)) mem' (count - 2) | _ \<Rightarrow> None)
      else if count > 0 then
        (case mem of lo # hi # _ \<Rightarrow> Some (s + ucast (le16 lo hi AND htons 0xFF00)) | _ \<Rightarrow> None)
      else Some s)"

declare checksum_sum.simps [simp del]

text \<open>\<^verbatim>\<open>while (sum >> 16) sum = (sum & 0xffff) + (sum >> 16)\<close>\<close>

function checksum_fold :: "u64 \<Rightarrow> u64" where
  "checksum_fold s = (if drop_bit 16 s \<noteq> 0 then checksum_fold ((s AND 0xFFFF) + drop_bit 16 s) else s)"
  by auto

lemma unat_drop16: "unat (drop_bit 16 (s :: u64)) = unat s div 65536"
proof -
  have "unat (drop_bit 16 s) = drop_bit 16 (unat s)" by (rule unat_drop_bit_eq)
  then show ?thesis unfolding drop_bit_eq_div by simp
qed

lemma fold_step_unat:
  fixes s :: u64
  shows "unat ((s AND 0xFFFF) + drop_bit 16 s) = unat s mod 65536 + unat s div 65536"
proof -
  have m: "s AND 0xFFFF = take_bit 16 s" by (simp add: take_bit_eq_mask mask_numeral)
  have a: "unat (s AND 0xFFFF) = unat s mod 65536" 
  proof -
    have "unat (take_bit 16 s) = take_bit 16 (unat s)" by (rule unsigned_take_bit_eq)
    then show ?thesis unfolding m take_bit_eq_mod by simp
  qed
  have b: "unat (drop_bit 16 s) = unat s div 65536" by (rule unat_drop16)
  have "unat s < 2 ^ 64" using unsigned_less[of s] by simp
  then have "unat s mod 65536 + unat s div 65536 < 2 ^ 64" by simp
  then show ?thesis using a b by (simp add: unat_word_ariths)
qed

lemma drop16_unat: "drop_bit 16 (s :: u64) \<noteq> 0 \<longleftrightarrow> 65536 \<le> unat s"
proof -
  have "unat (drop_bit 16 s) = unat s div 65536" by (rule unat_drop16)
  then show ?thesis by (metis div_eq_0_iff not_le unat_eq_zero zero_neq_numeral)
qed

termination checksum_fold
proof (relation "measure unat")
  fix s :: u64 assume "drop_bit 16 s \<noteq> 0"
  then have "65536 \<le> unat s" by (simp add: drop16_unat)
  then have "unat s mod 65536 + unat s div 65536 < unat s"
    using div_mult_mod_eq[of "unat s" 65536] div_greater_zero_iff[of "unat s" 65536] by linarith
  then show "((s AND 0xFFFF) + drop_bit 16 s, s) \<in> measure unat" by (simp add: fold_step_unat)
qed simp

declare checksum_fold.simps [simp del]

definition compute_checksum :: "byte list \<Rightarrow> nat \<Rightarrow> u16 option" where
  "compute_checksum mem count = do {
     s \<leftarrow> checksum_sum 0 mem count;
     Some (ucast (NOT (checksum_fold s))) }"

section \<open>One's-complement sums\<close>

text \<open>The reference: the sum of the little-endian words, an odd last byte padded with zero, and
  its representative modulo 65535 that the folding reaches.\<close>

fun wsum :: "byte list \<Rightarrow> nat" where
  "wsum [] = 0"
| "wsum [b] = unat b"
| "wsum (lo # hi # bs) = unat lo + 256 * unat hi + wsum bs"

definition oc :: "nat \<Rightarrow> nat" where
  "oc n = (if n = 0 then 0 else (n - 1) mod 65535 + 1)"

lemma oc_small: "n < 65536 \<Longrightarrow> oc n = n"
  by (auto simp: oc_def)

lemma oc_le: "oc n \<le> 65535"
  by (simp add: oc_def Suc_le_eq)

lemma oc_eq_iff: "0 < m \<Longrightarrow> 0 < n \<Longrightarrow> oc m = oc n \<longleftrightarrow> m mod 65535 = n mod 65535"
proof -
  assume "0 < m" "0 < n"
  then obtain a b where ab: "m = Suc a" "n = Suc b" by (metis gr0_implies_Suc)
  have "(a mod 65535 = b mod 65535) = (Suc a mod 65535 = Suc b mod 65535)"
    by (auto simp: mod_Suc)
  then show ?thesis by (simp add: oc_def ab)
qed

lemma oc_mod: "oc n mod 65535 = n mod 65535"
  by (cases n) (simp_all add: oc_def mod_Suc_eq)

lemma oc_fold_step: "65536 \<le> n \<Longrightarrow> oc (n mod 65536 + n div 65536) = oc n"
proof -
  assume n: "65536 \<le> n"
  have "0 < n div 65536" using n by (simp add: div_greater_zero_iff)
  moreover have "(n mod 65536 + n div 65536) mod 65535 = n mod 65535"
  proof -
    have "n = (n mod 65536 + n div 65536) + 65535 * (n div 65536)"
      using div_mult_mod_eq[of n 65536] by linarith
    then show ?thesis by (metis mod_mult_self2)
  qed
  ultimately show ?thesis using n by (subst oc_eq_iff) auto
qed

lemma checksum_fold_oc: "unat (checksum_fold s) = oc (unat s)"
proof (induction s rule: checksum_fold.induct)
  case (1 s)
  show ?case
  proof (cases "drop_bit 16 s \<noteq> 0")
    case True
    then show ?thesis
      using 1 oc_fold_step by (subst checksum_fold.simps) (simp add: fold_step_unat drop16_unat)
  next
    case False
    then show ?thesis by (subst checksum_fold.simps) (simp add: oc_small drop16_unat not_le)
  qed
qed

lemma unat_byte: "unat (b :: byte) < 256"
  using unsigned_less[of b] by simp

lemma unat_le16: "unat (le16 lo hi) = unat lo + 256 * unat hi"
proof -
  have "le16 lo hi = ucast lo + push_bit 8 (ucast hi)" unfolding le16_def
    by (rule disjunctive_add[symmetric]) (auto simp: bit_simps dest: bit_imp_le_length)
  moreover have "unat (push_bit 8 (ucast hi :: u16)) = 256 * unat hi"
  proof -
    have "unat hi < 256" using unsigned_less[of hi] by simp
    then show ?thesis by (simp add: push_bit_eq_mult unat_word_ariths unsigned_ucast_eq take_bit_eq_mod)
  qed
  moreover have "unat (ucast lo :: u16) = unat lo"
  proof -
    have "unat lo < 256" using unsigned_less[of lo] by simp
    then show ?thesis by (simp add: unsigned_ucast_eq take_bit_eq_mod)
  qed
  moreover have "unat lo + 256 * unat hi < 65536" using unat_byte[of lo] unat_byte[of hi] by simp
  ultimately show ?thesis by (simp add: unat_word_ariths)
qed

lemma odd_byte: "le16 lo hi AND swap16 0xFF00 = ucast lo"
proof -
  have m: "swap16 0xFF00 = mask 8" by (simp add: swap16_def mask_numeral)
  show ?thesis unfolding m le16_def
    by (rule bit_word_eqI) (auto simp: bit_simps dest: bit_imp_le_length)
qed

lemma unat_ucast_byte: "unat (ucast (b :: byte) :: u64) = unat b" "unat (ucast (b :: byte) :: u16) = unat b"
  using unat_byte[of b] by (simp_all add: unsigned_ucast_eq take_bit_eq_mod)

lemma ucast_ucast_byte: "ucast (ucast (b :: byte) :: u16) = (ucast b :: u64)"
  by (rule bit_word_eqI) (auto simp: bit_simps dest: bit_imp_le_length)

lemma unat_ucast_u16: "unat (ucast (w :: u16) :: u64) = unat w"
proof -
  have "unat w < 65536" using unsigned_less[of w] by simp
  then show ?thesis by (simp add: unsigned_ucast_eq take_bit_eq_mod)
qed

lemma unat_add_small: "unat (a :: u64) + unat b < 2 ^ 64 \<Longrightarrow> unat (a + b) = unat a + unat b"
  by (simp add: unat_word_ariths)

text \<open>The bytes the loops load: an odd count makes the last load touch one more byte.\<close>

definition covers :: "byte list \<Rightarrow> nat \<Rightarrow> bool" where
  "covers mem count = (count + count mod 2 \<le> length mem)"

lemma checksum_sum_wsum:
  "covers mem count \<Longrightarrow> unat s + wsum (take count mem) < 2 ^ 64 \<Longrightarrow>
   \<exists>s'. checksum_sum s mem count = Some s' \<and> unat s' = unat s + wsum (take count mem)"
proof (induction mem arbitrary: s count rule: wsum.induct)
  case 1
  then have "count = 0" by (simp add: covers_def)
  then show ?case by (subst checksum_sum.simps) simp
next
  case (2 b)
  then have "count = 0" by (cases count) (auto simp: covers_def)
  then show ?case by (subst checksum_sum.simps) simp
next
  case (3 lo hi bs)
  consider "count = 0" | "count = 1" | n where "count = Suc (Suc n)" by (metis One_nat_def not0_implies_Suc)
  then show ?case
  proof cases
    case 1
    then show ?thesis by (subst checksum_sum.simps) simp
  next
    case 2
    have "unat (s + ucast lo) = unat s + unat lo"
      using 3(3) 2 by (subst unat_add_small) (simp_all add: unat_ucast_byte)
    then show ?thesis using 2
      by (subst checksum_sum.simps) (simp add: odd_byte ucast_ucast_byte)
  next
    case (3 n)
    have cov: "covers bs n" using "3.prems"(1) 3 by (simp add: covers_def)
    have split: "wsum (take count (lo # hi # bs)) = unat lo + 256 * unat hi + wsum (take n bs)" using 3 by simp
    have a: "unat (s + ucast (le16 lo hi)) = unat s + (unat lo + 256 * unat hi)"
      using "3.prems"(2) split by (subst unat_add_small) (simp_all add: unat_ucast_u16 unat_le16)
    then have "unat (s + ucast (le16 lo hi)) + wsum (take n bs) < 2 ^ 64" using "3.prems"(2) split by simp
    from "3.IH"[OF cov this] show ?thesis using 3 a split
      by (subst checksum_sum.simps) auto
  qed
qed

lemma wsum_bound: "wsum bs \<le> 65535 * length bs"
proof (induction bs rule: wsum.induct)
  case (2 b)
  then show ?case using unat_byte[of b] by simp
next
  case (3 lo hi bs)
  then show ?case using unat_byte[of lo] unat_byte[of hi] by simp
qed simp

lemma compute_checksum_wsum:
  assumes "covers mem count" "count < 2 ^ 32"
  shows "\<exists>c. compute_checksum mem count = Some c \<and> unat c = 65535 - oc (wsum (take count mem))"
proof -
  have "wsum (take count mem) \<le> 65535 * count"
    using wsum_bound[of "take count mem"] order_trans by fastforce
  then have "unat (0 :: u64) + wsum (take count mem) < 2 ^ 64" using assms(2) by simp
  from checksum_sum_wsum[OF assms(1) this] obtain s where
    s: "checksum_sum 0 mem count = Some s" "unat s = wsum (take count mem)" by auto
  have f: "unat (checksum_fold s) = oc (wsum (take count mem))" by (simp add: checksum_fold_oc s(2))
  have "unat (ucast (NOT (checksum_fold s)) :: u16) = 65535 - unat (checksum_fold s)"
  proof -
    have "ucast (NOT (checksum_fold s)) = (NOT (ucast (checksum_fold s)) :: u16)"
      by (rule bit_word_eqI) (auto simp: bit_simps)
    moreover have "unat (ucast (checksum_fold s) :: u16) = unat (checksum_fold s)"
      using f oc_le[of "wsum (take count mem)"] by (simp add: unsigned_ucast_eq take_bit_eq_mod)
    moreover have "unat (NOT (w :: u16)) = 65535 - unat w" for w
    proof -
      have "NOT w = - 1 - w" by (simp add: not_eq_complement)
      moreover have "unat (- 1 - w) = unat (- 1 :: u16) - unat w" by (rule unat_sub) (rule word_order.extremum)
      ultimately show ?thesis by (simp add: unsigned_minus_1_eq_mask mask_eq_exp_minus_1)
    qed
    ultimately show ?thesis by simp
  qed
  then show ?thesis using s(1) f by (simp add: compute_checksum_def)
qed

lemma compute_checksum_total: "covers mem count \<Longrightarrow> count < 2 ^ 32 \<Longrightarrow> compute_checksum mem count \<noteq> None"
  using compute_checksum_wsum by fastforce

section \<open>Checksums in packets\<close>

text \<open>Offsets of the checksum fields in the IP, ICMP, TCP and UDP headers.\<close>

abbreviation (input) ip_check :: nat where "ip_check \<equiv> 10"
abbreviation (input) icmp_check :: nat where "icmp_check \<equiv> 2"
abbreviation (input) tcp_check :: nat where "tcp_check \<equiv> 16"
abbreviation (input) udp_check :: nat where "udp_check \<equiv> 6"

definition ip_ihl :: "byte list \<Rightarrow> nat \<Rightarrow> nat option" where
  "ip_ihl p iph = map_option (\<lambda>b. unat (b AND 0x0F)) (ld8 p iph)"

definition compute_ip_checksum :: "byte list \<Rightarrow> nat \<Rightarrow> byte list option" where
  "compute_ip_checksum p iph = do {
     p \<leftarrow> st16 p (iph + ip_check) 0;
     ihl \<leftarrow> ip_ihl p iph;
     c \<leftarrow> compute_checksum (drop iph p) (ihl * 4);
     st16 p (iph + ip_check) c }"

definition compute_icmp_checksum :: "byte list \<Rightarrow> nat \<Rightarrow> byte list option" where
  "compute_icmp_checksum p icmph = do {
     p \<leftarrow> st16 p (icmph + icmp_check) 0;
     c \<leftarrow> compute_checksum (drop icmph p) 8;
     st16 p (icmph + icmp_check) c }"

text \<open>\<^verbatim>\<open>PSEUDO_HEADER\<close>: source, destination, zero, protocol, length.\<close>

definition pseudo_header :: "byte list \<Rightarrow> nat \<Rightarrow> u16 \<Rightarrow> byte list option" where
  "pseudo_header p iph len = do {
     s_addr \<leftarrow> ldn p (iph + 12) 4;
     d_addr \<leftarrow> ldn p (iph + 16) 4;
     proto \<leftarrow> ld8 p (iph + 9);
     Some (s_addr @ d_addr @ [0, proto] @ [lo8 len, hi8 len]) }"

text \<open>
  \<open>None\<close>: undefined behaviour; \<open>Some None\<close>: \<^verbatim>\<open>malloc\<close> failed and the program exits. \<open>mem_ok\<close> says
  whether the two allocations succeed. The checksummed block is exactly as long as the pseudo
  header and the segment together.
\<close>

definition compute_tcp_checksum :: "bool \<Rightarrow> byte list \<Rightarrow> nat \<Rightarrow> nat \<Rightarrow> byte list option option" where
  "compute_tcp_checksum mem_ok p iph tcph = do {
     ihl \<leftarrow> ip_ihl p iph;
     tot_len \<leftarrow> ld16 p (iph + 2);
     let tcpplen = ntohs tot_len - of_nat (ihl * 4);
     ph \<leftarrow> pseudo_header p iph (htons tcpplen);
     if \<not> mem_ok then Some None
     else do {
       p \<leftarrow> st16 p (tcph + tcp_check) 0;
       seg \<leftarrow> ldn p tcph (unat tcpplen);
       c \<leftarrow> compute_checksum (ph @ seg) (12 + unat tcpplen);
       p \<leftarrow> st16 p (tcph + tcp_check) c;
       Some (Some p) } }"

definition compute_udp_checksum :: "bool \<Rightarrow> byte list \<Rightarrow> nat \<Rightarrow> nat \<Rightarrow> byte list option option" where
  "compute_udp_checksum mem_ok p iph udph = do {
     len \<leftarrow> ld16 p (udph + 4);
     let udpplen = ntohs len;
     ph \<leftarrow> pseudo_header p iph len;
     if \<not> mem_ok then Some None
     else do {
       p \<leftarrow> st16 p (udph + udp_check) 0;
       seg \<leftarrow> ldn p udph (unat udpplen);
       c \<leftarrow> compute_checksum (ph @ seg) (12 + unat udpplen);
       p \<leftarrow> st16 p (udph + udp_check) c;
       Some (Some p) } }"

subsection \<open>Storing a checksum makes the packet check out\<close>

lemma wsum_append: "even (length xs) \<Longrightarrow> wsum (xs @ ys) = wsum xs + wsum ys"
  by (induction xs rule: wsum.induct) auto

lemma st16_split:
  assumes "Suc i < length p"
  shows "st16 p i w = Some (take i p @ lo8 w # hi8 w # drop (i + 2) p)"
proof -
  have "p[i := lo8 w, Suc i := hi8 w] = take i p @ lo8 w # hi8 w # drop (i + 2) p"
    using assms Cons_nth_drop_Suc[of "Suc i" p, symmetric]
    by (simp add: upd_conv_take_nth_drop[of i] list_update_append)
  then show ?thesis using assms by (simp add: st16_def)
qed

lemma unat_lo_hi: "unat (lo8 w) + 256 * unat (hi8 w) = unat w"
  by (metis le16_lo8_hi8 unat_le16)

lemma wsum_field:
  assumes "even i" "i + 2 \<le> n" "n \<le> length p"
  shows "wsum (take n (take i p @ lo8 w # hi8 w # drop (i + 2) p)) = unat w + wsum (take n (take i p @ 0 # 0 # drop (i + 2) p))"
proof -
  have "take n (take i p @ x # y # drop (i + 2) p) = take i p @ x # y # take (n - i - 2) (drop (i + 2) p)" for x y
    using assms by (simp add: min_def take_Cons' diff_diff_add)
  moreover have "even (length (take i p))" using assms by (simp add: min_def)
  ultimately show ?thesis using unat_lo_hi[of w] by (simp add: wsum_append)
qed

lemma lo8_0 [simp]: "lo8 0 = 0" and hi8_0 [simp]: "hi8 0 = 0"
  by (simp_all add: lo8_def hi8_def)

lemma oc_complement: "oc (65535 - oc n + n) = 65535"
proof -
  have pos: "0 < 65535 - oc n + n" by (cases n) (auto simp: oc_def)
  have "(65535 - oc n + n) mod 65535 = 0"
  proof -
    have "(65535 - oc n + n) mod 65535 = (65535 - oc n + n mod 65535) mod 65535" by (simp add: mod_add_right_eq)
    also have "\<dots> = (65535 - oc n + oc n mod 65535) mod 65535" by (simp add: oc_mod)
    also have "\<dots> = (65535 - oc n + oc n) mod 65535" by (simp add: mod_add_right_eq)
    also have "\<dots> = 0" using oc_le[of n] by simp
    finally show ?thesis .
  qed
  then have "oc (65535 - oc n + n) = oc 65535" using pos by (subst oc_eq_iff) auto
  then show ?thesis by (simp add: oc_small)
qed

text \<open>The generic fact behind all four users: a checksum computed with the field zero and then
  stored in it makes the checksum of the whole block zero.\<close>

lemma checksum_roundtrip:
  assumes "even i" "i + 2 \<le> n" "n < 2 ^ 32" "covers p n"
    and "st16 p i 0 = Some p0" "compute_checksum p0 n = Some c" "st16 p0 i c = Some p1"
  shows "compute_checksum p1 n = Some 0"
proof -
  have n: "n \<le> length p" using assms(4) by (simp add: covers_def)
  then have i: "Suc i < length p" using assms(2) by simp
  have p0: "p0 = take i p @ 0 # 0 # drop (i + 2) p" using st16_split[OF i, of 0] assms(5) by simp
  have l0: "length p0 = length p" using i by (simp add: p0)
  have p1: "p1 = take i p @ lo8 c # hi8 c # drop (i + 2) p"
    using st16_split[of i p0 c] assms(7) l0 i by (simp add: p0)
  have l1: "length p1 = length p" using i by (simp add: p1)
  have cov: "covers p0 n" "covers p1 n" using assms(4) l0 l1 by (simp_all add: covers_def)
  have c: "unat c = 65535 - oc (wsum (take n p0))"
    using compute_checksum_wsum[OF cov(1) assms(3)] assms(6) by auto
  have "wsum (take n p1) = unat c + wsum (take n p0)" unfolding p0 p1 by (rule wsum_field[OF assms(1,2) n])
  then have "oc (wsum (take n p1)) = 65535" using c oc_complement by simp
  then show ?thesis using compute_checksum_wsum[OF cov(2) assms(3)] by (auto simp: unat_eq_0 unat_0_iff)
qed

lemma st16_drop: "st16 (drop b p) i w = map_option (drop b) (st16 p (b + i) w)"
  by (auto simp: st16_def drop_update_swap)

lemma st16_length: "st16 p i w = Some q \<Longrightarrow> length q = length p"
  by (auto simp: st16_def split: if_splits)

lemma st16_other: "st16 p i w = Some q \<Longrightarrow> j \<noteq> i \<Longrightarrow> j \<noteq> Suc i \<Longrightarrow> q ! j = p ! j"
  by (auto simp: st16_def split: if_splits)

lemma st16_st16: "st16 p i v = Some q \<Longrightarrow> st16 q i w = st16 p i w"
proof -
  assume q: "st16 p i v = Some q"
  then have i: "Suc i < length p" by (auto simp: st16_def split: if_splits)
  have "q[i := lo8 w, Suc i := hi8 w] = p[i := lo8 w, Suc i := hi8 w]"
    using q i by (auto simp: st16_def list_eq_iff_nth_eq nth_list_update)
  then show ?thesis using i st16_length[OF q] by (simp add: st16_def)
qed

lemma ld16_st16: "st16 p i w = Some q \<Longrightarrow> ld16 q i = Some w"
  by (auto simp: st16_def ld16_def split: if_splits)

lemma ip_ihl_st16: "st16 p (iph + 10) w = Some q \<Longrightarrow> ip_ihl q iph = ip_ihl p iph"
  using st16_length[of p "iph + 10" w q] st16_other[of p "iph + 10" w q iph] by (simp add: ip_ihl_def ld8_def)

lemma compute_ip_checksumE:
  assumes "compute_ip_checksum p iph = Some p'"
  obtains ihl p0 c where "ip_ihl p iph = Some ihl" "st16 p (iph + 10) 0 = Some p0"
    "compute_checksum (drop iph p0) (ihl * 4) = Some c" "st16 p0 (iph + 10) c = Some p'"
  using assms by (auto simp: compute_ip_checksum_def ip_ihl_st16 split: Option.bind_splits)

lemma ip_ihl_le: "ip_ihl p iph = Some ihl \<Longrightarrow> ihl \<le> 15"
proof -
  have "unat (b AND 0x0F) \<le> 15" for b :: byte
    using word_and_le1[of b "0x0F"] by (simp add: word_le_nat_alt)
  then show "ip_ihl p iph = Some ihl \<Longrightarrow> ihl \<le> 15" by (auto simp: ip_ihl_def)
qed

text \<open>Where an update of the header succeeds the stored checksum is stable and verifies.\<close>

lemma ip_checksum_stable:
  assumes "compute_ip_checksum p iph = Some p'"
  shows "compute_ip_checksum p' iph = Some p'"
proof -
  from assms obtain ihl p0 c where *: "ip_ihl p iph = Some ihl" "st16 p (iph + 10) 0 = Some p0"
    "compute_checksum (drop iph p0) (ihl * 4) = Some c" "st16 p0 (iph + 10) c = Some p'"
    by (rule compute_ip_checksumE)
  have "ip_ihl p0 iph = Some ihl" using ip_ihl_st16[OF *(2)] *(1) by simp
  moreover have "st16 p' (iph + 10) 0 = Some p0"
    using st16_st16[OF *(4), of 0] st16_st16[OF *(2), of 0] *(2) by simp
  ultimately show ?thesis using *(3,4) by (simp add: compute_ip_checksum_def)
qed

lemma ip_checksum_verifies:
  assumes "compute_ip_checksum p iph = Some p'" "ip_ihl p iph = Some ihl" "3 \<le> ihl" "iph + ihl * 4 \<le> length p"
  shows "compute_checksum (drop iph p') (ihl * 4) = Some 0"
proof -
  from assms(1,2) obtain p0 c where *: "st16 p (iph + 10) 0 = Some p0"
    "compute_checksum (drop iph p0) (ihl * 4) = Some c" "st16 p0 (iph + 10) c = Some p'"
    by (auto elim: compute_ip_checksumE)
  have "covers (drop iph p) (ihl * 4)" using assms(4) by (simp add: covers_def)
  moreover have "ihl * 4 < 2 ^ 32" using ip_ihl_le[OF assms(2)] by simp
  ultimately show ?thesis
    using assms(3) * by (intro checksum_roundtrip[where i = 10 and p = "drop iph p" and c = c])
      (auto simp: st16_drop)
qed

lemma compute_ip_checksum_total:
  assumes "ip_ihl p iph = Some ihl" "iph + ihl * 4 \<le> length p" "iph + 12 \<le> length p"
  shows "\<exists>p'. compute_ip_checksum p iph = Some p' \<and> length p' = length p"
proof -
  obtain p0 where p0: "st16 p (iph + 10) 0 = Some p0" using assms(3) by (auto simp: st16_def)
  have "covers (drop iph p0) (ihl * 4)" using assms(2) st16_length[OF p0] by (simp add: covers_def)
  moreover have "ihl * 4 < 2 ^ 32" using ip_ihl_le[OF assms(1)] by simp
  ultimately obtain c where c: "compute_checksum (drop iph p0) (ihl * 4) = Some c"
    using compute_checksum_wsum by blast
  obtain p' where p': "st16 p0 (iph + 10) c = Some p'"
    using assms(3) st16_length[OF p0] by (auto simp: st16_def)
  then show ?thesis
    using p0 c assms(1) ip_ihl_st16[OF p0] st16_length[OF p0] st16_length[OF p']
    by (auto simp: compute_ip_checksum_def)
qed

text \<open>A change of one aligned word goes unnoticed only between 0 and 65535.\<close>

lemma checksum_detects_word:
  assumes "even i" "i + 2 \<le> n" "n < 2 ^ 32" "covers p n" "compute_checksum p n = Some 0"
    and "ld16 p i = Some v" "st16 p i w = Some q" "unat v mod 65535 \<noteq> unat w mod 65535"
  shows "compute_checksum q n \<noteq> Some 0"
proof
  assume zero: "compute_checksum q n = Some 0"
  have n: "n \<le> length p" using assms(4) by (simp add: covers_def)
  then have i: "Suc i < length p" using assms(2) by simp
  have q: "q = take i p @ lo8 w # hi8 w # drop (i + 2) p" using st16_split[OF i, of w] assms(7) by simp
  have v: "v = le16 (p ! i) (p ! Suc i)" using assms(6) i by (simp add: ld16_def)
  have p: "p = take i p @ lo8 v # hi8 v # drop (i + 2) p"
    using i id_take_nth_drop[of i p] Cons_nth_drop_Suc[of "Suc i" p, symmetric] by (simp add: v)
  let ?r = "wsum (take n (take i p @ 0 # 0 # drop (i + 2) p))"
  have sums: "wsum (take n p) = unat v + ?r" "wsum (take n q) = unat w + ?r"
    using wsum_field[OF assms(1,2) n, of v] wsum_field[OF assms(1,2) n, of w]
    by (simp_all only: p[symmetric] q)
  have cq: "covers q n" using assms(4) i by (simp add: q covers_def)
  have "oc (unat v + ?r) = 65535" "oc (unat w + ?r) = 65535"
    using compute_checksum_wsum[OF assms(4,3)] compute_checksum_wsum[OF cq assms(3)] assms(5) zero sums
      oc_le[of "unat v + ?r"] oc_le[of "unat w + ?r"] by auto
  then have "(unat v + ?r) mod 65535 = (unat w + ?r) mod 65535" using oc_mod by metis
  then have "unat v mod 65535 = unat w mod 65535" unfolding nat_mod_eq_iff by (elim exE) (simp add: ac_simps, blast)
  then show False using assms(8) by contradiction
qed

subsection \<open>Segments behind a pseudo header\<close>

lemma st16_block:
  assumes "st16 p (b + i) w = Some q" "i + 2 \<le> n" "b + n \<le> length p"
  shows "st16 (ph @ take n (drop b p)) (length ph + i) w = Some (ph @ take n (drop b q))"
proof -
  have "st16 (take n (drop b p)) i w = Some (take n (drop b q))"
    using assms by (auto simp: st16_def drop_update_swap take_update_swap split: if_splits)
  then show ?thesis by (auto simp: st16_def list_update_append split: if_splits)
qed

lemma checksum_sum_odd: "odd (length mem) \<Longrightarrow> checksum_sum s mem (length mem) = None"
  by (induction mem arbitrary: s rule: wsum.induct) (simp_all add: checksum_sum.simps)

lemma pseudo_header_length: "pseudo_header p iph len = Some ph \<Longrightarrow> length ph = 12"
  by (auto simp: pseudo_header_def ldn_def split: Option.bind_splits if_splits)

text \<open>Both transport checksums have this shape: clear the field, sum pseudo header and segment,
  store the result. \<open>i\<close> is the offset of the field in the segment and \<open>n\<close> its length.\<close>

definition segment_checksum :: "byte list \<Rightarrow> byte list \<Rightarrow> nat \<Rightarrow> nat \<Rightarrow> nat \<Rightarrow> byte list option" where
  "segment_checksum ph p b i n = do {
     p \<leftarrow> st16 p (b + i) 0;
     seg \<leftarrow> ldn p b n;
     c \<leftarrow> compute_checksum (ph @ seg) (12 + n);
     st16 p (b + i) c }"

lemma segment_checksum_ok:
  assumes "length ph = 12" "even i" "i + 2 \<le> n" "b + n \<le> length p" "n < 65536" "even n"
  shows "\<exists>p'. segment_checksum ph p b i n = Some p' \<and> length p' = length p \<and>
    compute_checksum (ph @ take n (drop b p')) (12 + n) = Some 0"
proof -
  obtain p0 where p0: "st16 p (b + i) 0 = Some p0" using assms(3,4) by (auto simp: st16_def)
  note l0 = st16_length[OF p0]
  have cov: "covers (ph @ take n (drop b q)) (12 + n)" if "length q = length p" for q
    using that assms by (simp add: covers_def)
  have n32: "12 + n < 2 ^ 32" using assms(5) by simp
  obtain c where c: "compute_checksum (ph @ take n (drop b p0)) (12 + n) = Some c"
    using compute_checksum_wsum[OF cov[OF l0] n32] by blast
  obtain p1 where p1: "st16 p0 (b + i) c = Some p1" using assms(3,4) l0 by (auto simp: st16_def)
  have "segment_checksum ph p b i n = Some p1"
    using p0 c p1 assms(4) l0 by (simp add: segment_checksum_def ldn_def)
  moreover have "compute_checksum (ph @ take n (drop b p1)) (12 + n) = Some 0"
  proof (rule checksum_roundtrip[where i = "length ph + i"])
    show "st16 (ph @ take n (drop b p)) (length ph + i) 0 = Some (ph @ take n (drop b p0))"
      by (rule st16_block[OF p0 assms(3,4)])
    show "st16 (ph @ take n (drop b p0)) (length ph + i) c = Some (ph @ take n (drop b p1))"
      by (rule st16_block[OF p1 assms(3)]) (use assms(4) l0 in simp)
  qed (use assms cov[OF refl] c n32 in auto)
  ultimately show ?thesis using st16_length[OF p1] l0 by auto
qed

lemma segment_checksum_odd:
  assumes "length ph = 12" "odd n"
  shows "segment_checksum ph p b i n = None"
proof -
  have "compute_checksum (ph @ seg) (12 + n) = None" if "ldn q b n = Some seg" for q seg
  proof -
    have "length (ph @ seg) = 12 + n" using that assms(1) by (auto simp: ldn_def split: if_splits)
    then show ?thesis using checksum_sum_odd[of "ph @ seg" 0] assms(2) by (simp add: compute_checksum_def)
  qed
  then show ?thesis by (auto simp: segment_checksum_def split: Option.bind_splits)
qed

lemma compute_udp_checksum_segment:
  "ld16 p (udph + 4) = Some len \<Longrightarrow> pseudo_header p iph len = Some ph \<Longrightarrow>
   compute_udp_checksum True p iph udph = map_option Some (segment_checksum ph p udph 6 (unat (ntohs len)))"
  by (auto simp: compute_udp_checksum_def segment_checksum_def split: Option.bind_splits)

lemma compute_tcp_checksum_segment:
  "ip_ihl p iph = Some ihl \<Longrightarrow> ld16 p (iph + 2) = Some tot_len \<Longrightarrow>
   pseudo_header p iph (htons (ntohs tot_len - of_nat (ihl * 4))) = Some ph \<Longrightarrow>
   compute_tcp_checksum True p iph tcph =
     map_option Some (segment_checksum ph p tcph 16 (unat (ntohs tot_len - of_nat (ihl * 4))))"
  by (auto simp: compute_tcp_checksum_def segment_checksum_def split: Option.bind_splits)

section \<open>Properties\<close>

text \<open>C4: For every block of at most \<open>2 ^ 32 - 1\<close> bytes (the range of \<^verbatim>\<open>unsigned int count\<close>)
  \<^verbatim>\<open>compute_checksum\<close> ends, and its behaviour is this. If the block's length is even, or a readable
  byte follows an odd block, the result is the Internet checksum: the complement of the
  one's-complement sum of the block's little-endian 16-bit words, an odd last byte padded with zero,
  whatever the byte behind it is. If the block is odd and the memory ends with it, the last load
  reads out of bounds and the call is undefined.\<close>

theorem compute_checksum_internet:
  assumes "count \<le> length mem" "count < 2 ^ 32"
  shows "compute_checksum mem count =
    (if even count \<or> count < length mem then Some (word_of_nat (65535 - oc (wsum (take count mem)))) else None)"
proof (cases "covers mem count")
  case True
  then obtain c where c: "compute_checksum mem count = Some c" "unat c = 65535 - oc (wsum (take count mem))"
    using compute_checksum_wsum assms(2) by blast
  have "even count \<or> count < length mem" using True unfolding covers_def by presburger
  then show ?thesis by (simp add: c(1) flip: c(2))
next
  case False
  then have "odd count" "count = length mem" using assms(1) unfolding covers_def by presburger+
  then show ?thesis using checksum_sum_odd[of mem 0] by (simp add: compute_checksum_def)
qed

theorem compute_checksum_internet_witness:
  "compute_checksum [0x12, 0x34, 0xFF, 7] 3 = Some 0xCAEE \<and> compute_checksum [0x12, 0x34, 0xFF] 3 = None"
  using compute_checksum_internet[of 3 "[0x12, 0x34, 0xFF, 7]"] compute_checksum_internet[of 3 "[0x12, 0x34, 0xFF]"]
  by (simp add: oc_def)

text \<open>For every header of at least 12 bytes inside the packet \<^verbatim>\<open>compute_ip_checksum\<close>
  succeeds, changes only the checksum field, and leaves a header whose checksum is 0, as a
  receiver checks it; computing it again changes nothing, so a captured packet with a correct
  header is reported as valid.\<close>

theorem ip_checksum_roundtrip:
  assumes "ip_ihl p iph = Some ihl" "3 \<le> ihl" "iph + ihl * 4 \<le> length p"
  shows "\<exists>p'. compute_ip_checksum p iph = Some p' \<and> compute_checksum (drop iph p') (ihl * 4) = Some 0 \<and>
    compute_ip_checksum p' iph = Some p' \<and> length p' = length p \<and>
    (\<forall>j. j \<noteq> iph + 10 \<longrightarrow> j \<noteq> iph + 11 \<longrightarrow> p' ! j = p ! j)"
proof -
  have "iph + 12 \<le> length p" using assms(2,3) by linarith
  then obtain p' where p': "compute_ip_checksum p iph = Some p'" "length p' = length p"
    using compute_ip_checksum_total[OF assms(1,3)] by blast
  from p'(1) obtain p0 c where *: "st16 p (iph + 10) 0 = Some p0" "st16 p0 (iph + 10) c = Some p'"
    by (rule compute_ip_checksumE)
  have "p' ! j = p ! j" if "j \<noteq> iph + 10" "j \<noteq> iph + 11" for j
    using st16_other[OF *(1), of j] st16_other[OF *(2), of j] that by simp
  then show ?thesis
    using p' ip_checksum_verifies[OF p'(1) assms(1,2,3)] ip_checksum_stable[OF p'(1)] by blast
qed

theorem ip_checksum_roundtrip_witness:
  "\<exists>p'. compute_ip_checksum (0x45 # replicate 19 0) 0 = Some p' \<and> compute_checksum (drop 0 p') (5 * 4) = Some 0 \<and>
    compute_ip_checksum p' 0 = Some p' \<and> length p' = length (0x45 # replicate 19 (0 :: byte)) \<and>
    (\<forall>j. j \<noteq> 0 + 10 \<longrightarrow> j \<noteq> 0 + 11 \<longrightarrow> p' ! j = (0x45 # replicate 19 0) ! j)"
  by (rule ip_checksum_roundtrip) (simp_all add: ip_ihl_def ld8_def)

text \<open>The check detects a change of any single aligned 16-bit word of a block with a
  correct checksum, except the change between 0 and 0xFFFF.\<close>

theorem checksum_detects_word_error:
  assumes "even i" "i + 2 \<le> n" "n < 2 ^ 32" "covers p n" "compute_checksum p n = Some 0"
    and "ld16 p i = Some v" "st16 p i w = Some q" "unat v mod 65535 \<noteq> unat w mod 65535"
  shows "compute_checksum q n \<noteq> Some 0"
  using assms by (rule checksum_detects_word)

theorem checksum_detects_word_error_witness:
  "compute_checksum [0xFF, 0xFF] 2 = Some 0 \<and> compute_checksum [1, 0] 2 \<noteq> Some 0"
proof -
  have a: "compute_checksum [0xFF, 0xFF] 2 = Some 0"
    using compute_checksum_wsum[of "[0xFF, 0xFF]" 2] by (auto simp: covers_def oc_def unat_eq_0)
  moreover have "compute_checksum [1, 0] 2 \<noteq> Some 0"
    by (rule checksum_detects_word_error[of 0 2 "[0xFF, 0xFF]" "le16 0xFF 0xFF" "le16 1 0"])
      (use a in \<open>simp_all add: covers_def ld16_def st16_def unat_le16\<close>)
  ultimately show ?thesis by simp
qed

text \<open>For a UDP datagram of even length inside the packet \<^verbatim>\<open>compute_udp_checksum\<close> succeeds
  and pseudo header and datagram together then have checksum 0. For an odd length the summation
  loads a byte behind the block it allocated.\<close>

theorem udp_checksum_correct:
  assumes "ld16 p (udph + 4) = Some len" "pseudo_header p iph len = Some ph"
    and "n = unat (ntohs len)" "8 \<le> n" "udph + n \<le> length p"
  shows "if even n then \<exists>p'. compute_udp_checksum True p iph udph = Some (Some p') \<and>
      compute_checksum (ph @ take n (drop udph p')) (12 + n) = Some 0
    else compute_udp_checksum True p iph udph = None"
proof -
  have n: "n < 65536" using assms(3) unsigned_less[of "ntohs len"] by simp
  note call = compute_udp_checksum_segment[OF assms(1,2), folded assms(3)]
  note ph = pseudo_header_length[OF assms(2)]
  show ?thesis
  proof (cases "even n")
    case True
    obtain p' where "segment_checksum ph p udph 6 n = Some p'"
      "compute_checksum (ph @ take n (drop udph p')) (12 + n) = Some 0"
      using segment_checksum_ok[OF ph _ _ assms(5) n True, of 6] assms(4) by auto
    then show ?thesis using True call by simp
  next
    case False
    then show ?thesis using call segment_checksum_odd[OF ph] by simp
  qed
qed

text \<open>A packet with a 20-byte IP header and a 9-byte, then a 10-byte UDP datagram.\<close>

definition sample_udp :: "byte \<Rightarrow> byte list" where
  "sample_udp len = 0x45 # replicate 23 0 @ [0, len] @ replicate 10 0"

theorem udp_checksum_correct_witness:
  "(\<exists>p'. compute_udp_checksum True (sample_udp 10) 0 20 = Some (Some p')) \<and>
   compute_udp_checksum True (sample_udp 9) 0 20 = None"
proof -
  have len: "ld16 (sample_udp b) (20 + 4) = Some (le16 0 b)" for b
    by (simp add: sample_udp_def ld16_def nth_append)
  have ph: "pseudo_header (sample_udp b) 0 w = Some (replicate 8 0 @ [0, 0] @ [lo8 w, hi8 w])" for b w
    by (simp add: pseudo_header_def ldn_def ld8_def sample_udp_def numeral_eq_Suc)
  have n: "unat (swap16 (le16 0 b)) = unat b" for b :: byte by (simp add: unat_le16)
  show ?thesis
    using udp_checksum_correct[OF len[of 10] ph refl] udp_checksum_correct[OF len[of 9] ph refl] n
    by (auto simp: sample_udp_def)
qed

text \<open>The same for TCP: the segment length is the IP total length less the header length;
  an even segment gets a checksum that verifies, an odd one makes the code load a byte behind
  its block.\<close>

theorem tcp_checksum_correct:
  assumes "ip_ihl p iph = Some ihl" "ld16 p (iph + 2) = Some tot_len"
    and "n = unat (ntohs tot_len - of_nat (ihl * 4))"
    and "pseudo_header p iph (htons (ntohs tot_len - of_nat (ihl * 4))) = Some ph" "18 \<le> n" "tcph + n \<le> length p"
  shows "if even n then \<exists>p'. compute_tcp_checksum True p iph tcph = Some (Some p') \<and>
      compute_checksum (ph @ take n (drop tcph p')) (12 + n) = Some 0
    else compute_tcp_checksum True p iph tcph = None"
proof -
  have n: "n < 65536" using assms(3) unsigned_less[of "ntohs tot_len - of_nat (ihl * 4)"] by simp
  note call = compute_tcp_checksum_segment[OF assms(1,2,4), folded assms(3)]
  note ph = pseudo_header_length[OF assms(4)]
  show ?thesis
  proof (cases "even n")
    case True
    obtain p' where "segment_checksum ph p tcph 16 n = Some p'"
      "compute_checksum (ph @ take n (drop tcph p')) (12 + n) = Some 0"
      using segment_checksum_ok[OF ph _ _ assms(6) n True, of 16] assms(5) by auto
    then show ?thesis using True call by simp
  next
    case False
    then show ?thesis using call segment_checksum_odd[OF ph] by simp
  qed
qed

definition sample_tcp :: "byte list" where
  "sample_tcp = [0x45, 0, 0, 40] @ replicate 36 0"

theorem tcp_checksum_correct_witness:
  "\<exists>p'. compute_tcp_checksum True sample_tcp 0 20 = Some (Some p')"
proof -
  have ihl: "ip_ihl sample_tcp 0 = Some 5" by (simp add: ip_ihl_def ld8_def sample_tcp_def)
  have len: "ld16 sample_tcp (0 + 2) = Some (le16 0 40)"
    by (simp add: ld16_def sample_tcp_def numeral_eq_Suc)
  have ph: "pseudo_header sample_tcp 0 w = Some (replicate 8 0 @ [0, 0] @ [lo8 w, hi8 w])" for w
    by (simp add: pseudo_header_def ldn_def ld8_def sample_tcp_def numeral_eq_Suc)
  have w: "le16 40 0 = 40" by (simp add: le16_def)
  show ?thesis
    using tcp_checksum_correct[OF ihl len refl ph, of 20] w by (auto simp: sample_tcp_def)
qed

end
