(* ===== verification/C_Output.thy ===== *)
theory C_Output
  imports Inet_Checksum
begin

text \<open>
  What the programs print, as a list of events, and the hexadecimal dump \<^verbatim>\<open>print_data\<close> of the
  packet programs. A \<open>Printf\<close> event keeps the format string and the arguments of the call.
  \<^verbatim>\<open>print_data\<close> exists with three counter types: \<^verbatim>\<open>uint32_t\<close> in \<^verbatim>\<open>src/pcap_sniffer\<close>, \<^verbatim>\<open>int\<close> in
  \<^verbatim>\<open>src/icmp_raw_socket_traceroute\<close> and the raw UDP clients, and \<^verbatim>\<open>uint8_t\<close> in
  \<^verbatim>\<open>src/icmp_raw_socket_ping\<close>, where it matters.
\<close>

section \<open>Events\<close>

datatype arg = Num int | Str string

datatype event = Printf string "arg list" | Perror string | Call string "arg list"

definition ln :: "string \<Rightarrow> string" where
  "ln s = s @ [CHR 0x0A]"

text \<open>A text between apostrophes, which the formats of several programs have.\<close>

definition sq :: "string \<Rightarrow> string" where
  "sq s = CHR 0x27 # s @ [CHR 0x27]"

abbreviation say :: "string \<Rightarrow> event" where
  "say s \<equiv> Printf s []"

abbreviation num16 :: "u16 \<Rightarrow> arg" where
  "num16 w \<equiv> Num (uint w)"

text \<open>Decimal numerals and dotted addresses, as \<^verbatim>\<open>inet_ntoa\<close> prints them.\<close>

fun dec_str :: "nat \<Rightarrow> string" where
  "dec_str n = (if n < 10 then [char_of (48 + n)] else dec_str (n div 10) @ [char_of (48 + n mod 10)])"

declare dec_str.simps [simp del]

definition inet_ntoa :: "byte list \<Rightarrow> string" where
  "inet_ntoa a = (case map (\<lambda>b. dec_str (unat b)) a of
     [a, b, c, d] \<Rightarrow> a @ ''.'' @ b @ ''.'' @ c @ ''.'' @ d
   | _ \<Rightarrow> [])"

section \<open>The dump\<close>

definition print_char :: "byte \<Rightarrow> event" where
  "print_char b = (if 32 \<le> b \<and> b \<le> 128 then Printf ''%c'' [Num (uint b)] else say ''.'')"

text \<open>The body of the loop for the byte with index \<open>i\<close>.\<close>

definition dump_item :: "byte list \<Rightarrow> nat \<Rightarrow> nat \<Rightarrow> event list option" where
  "dump_item data sz i = do {
     row \<leftarrow> (if i \<noteq> 0 \<and> i mod 16 = 0 then do {
               cs \<leftarrow> ldn data (i - 16) 16;
               Some ([say ''         ''] @ map print_char cs @ [say (ln [])]) }
             else Some []);
     b \<leftarrow> ld8 data i;
     tail \<leftarrow> (if i = sz - 1 then do {
               cs \<leftarrow> ldn data (i - i mod 16) (i mod 16 + 1);
               Some (replicate (15 - i mod 16) (say ''   '') @ [say ''         ''] @
                     map print_char cs @ [say (ln [])]) }
             else Some []);
     Some (row @ (if i mod 16 = 0 then [say ''   ''] else []) @ [Printf '' %02X'' [Num (uint b)]] @ tail) }"

fun dump_from :: "nat \<Rightarrow> byte list \<Rightarrow> nat \<Rightarrow> nat \<Rightarrow> event list option" where
  "dump_from 0 data sz i = Some []"
| "dump_from (Suc n) data sz i = do {
     e \<leftarrow> dump_item data sz i;
     es \<leftarrow> dump_from n data sz (Suc i);
     Some (e @ es) }"

definition print_data :: "byte list \<Rightarrow> u32 \<Rightarrow> event list option" where
  "print_data data sz = dump_from (unat sz) data (unat sz) 0"

definition print_data_int :: "byte list \<Rightarrow> int \<Rightarrow> event list option" where
  "print_data_int data sz = dump_from (nat sz) data (nat sz) 0"

text \<open>
  With the \<^verbatim>\<open>uint8_t\<close> counters of the ping program: \<open>i\<close> wraps, and for \<open>i = 255\<close> in the last row
  the loop \<^verbatim>\<open>for (j = ...; j <= i; j++)\<close> does not end. \<open>fuel\<close> bounds the number of iterations;
  \<open>None\<close> is also the result when it does not suffice.
\<close>

fun print_data_u8 :: "nat \<Rightarrow> byte list \<Rightarrow> int \<Rightarrow> byte \<Rightarrow> event list option" where
  "print_data_u8 0 data sz i = None"
| "print_data_u8 (Suc fuel) data sz i =
     (if uint i < sz then
        if i = 255 \<and> sz = 256 then None
        else do {
          e \<leftarrow> dump_item data (nat sz) (unat i);
          es \<leftarrow> print_data_u8 fuel data sz (i + 1);
          Some (e @ es) }
      else Some [])"

section \<open>What a dump shows\<close>

definition hex_column :: "event list \<Rightarrow> int list" where
  "hex_column es = concat (map (\<lambda>e. case e of Printf f [Num n] \<Rightarrow> if f = '' %02X'' then [n] else [] | _ \<Rightarrow> []) es)"

definition char_column :: "event list \<Rightarrow> event list" where
  "char_column es = filter (\<lambda>e. case e of Printf f _ \<Rightarrow> f = ''%c'' \<or> f = ''.'' | _ \<Rightarrow> False) es"

lemma columns_append [simp]:
  "hex_column (xs @ ys) = hex_column xs @ hex_column ys" "char_column (xs @ ys) = char_column xs @ char_column ys"
  by (simp_all add: hex_column_def char_column_def)

lemma columns_simps [simp]:
  "hex_column [] = []" "char_column [] = []" "hex_column (map print_char cs) = []"
  "char_column (map print_char cs) = map print_char cs"
  "hex_column (say f # es) = hex_column es"
  "char_column (say f # es) = (if f = ''.'' \<or> f = ''%c'' then say f # char_column es else char_column es)"
  "hex_column (Printf '' %02X'' [Num n] # es) = n # hex_column es"
  "char_column (Printf '' %02X'' as # es) = char_column es"
  "hex_column (replicate k (say f)) = []" "char_column (replicate k (say ''   '')) = []"
  by (induction cs; induction k; auto simp: hex_column_def char_column_def print_char_def)+

lemma dump_item_columns:
  assumes "i < length data" "sz \<le> length data" "i < sz"
  shows "\<exists>e. dump_item data sz i = Some e \<and> hex_column e = [uint (data ! i)] \<and>
    char_column e =
      (if i \<noteq> 0 \<and> i mod 16 = 0 then map print_char (take 16 (drop (i - 16) data)) else []) @
      (if i = sz - 1 then map print_char (take (i mod 16 + 1) (drop (i - i mod 16) data)) else [])"
proof -
  have "i mod 16 \<le> i" by simp
  then have "i - i mod 16 + (i mod 16 + 1) \<le> length data" using assms(1) by simp
  moreover have "i - 16 + 16 \<le> length data" if "i \<noteq> 0" "i mod 16 = 0"
    using that assms(1) by (cases "i < 16") auto
  ultimately show ?thesis using assms(1)
    by (auto simp: dump_item_def ldn_def ld8_def ln_def)
qed

text \<open>The characters printed before index \<open>i\<close>: those of the complete rows.\<close>

lemma dump_from_columns:
  assumes "sz \<le> length data" "i + n = sz" "0 < n"
  shows "\<exists>es. dump_from n data sz i = Some es \<and> hex_column es = map uint (take n (drop i data)) \<and>
    char_column es = map print_char (drop (16 * ((i - 1) div 16)) (take sz data))"
  using assms
proof (induction n arbitrary: i)
  case (Suc n)
  have i: "i < sz" "i < length data" using Suc.prems by auto
  obtain e where e: "dump_item data sz i = Some e" "hex_column e = [uint (data ! i)]"
    "char_column e =
      (if i \<noteq> 0 \<and> i mod 16 = 0 then map print_char (take 16 (drop (i - 16) data)) else []) @
      (if i = sz - 1 then map print_char (take (i mod 16 + 1) (drop (i - i mod 16) data)) else [])"
    using dump_item_columns[OF i(2) Suc.prems(1) i(1)] by blast
  define R where "R = (if i \<noteq> 0 \<and> i mod 16 = 0 then take 16 (drop (i - 16) data) else [])"
  have chars: "char_column e = map print_char R @
      (if i = sz - 1 then map print_char (take (i mod 16 + 1) (drop (i - i mod 16) data)) else [])"
    using e(3) by (simp add: R_def)
  have hex: "take (Suc n) (drop i data) = data ! i # take n (drop (Suc i) data)"
    using i(2) by (simp add: Cons_nth_drop_Suc[symmetric])
  have row: "R @ drop (16 * (i div 16)) (take sz data)
      = drop (16 * ((i - 1) div 16)) (take sz data)"
  proof (cases "i \<noteq> 0 \<and> i mod 16 = 0")
    case True
    then obtain q where q: "i = 16 * Suc q" by (metis mod_0_imp_dvd dvdE mult_0_right not0_implies_Suc)
    have a: "16 * (i div 16) = 16 * q + 16" "16 * ((i - 1) div 16) = 16 * q" "i - 16 = 16 * q" using q by simp_all
    have "16 * q + 16 \<le> sz" using i(1) q by simp
    then have "take 16 (drop (16 * q) data) = take 16 (drop (16 * q) (take sz data))" by (simp add: drop_take)
    moreover have "drop (16 * q + 16) (take sz data) = drop 16 (drop (16 * q) (take sz data))" by (simp add: add.commute)
    ultimately have "take 16 (drop (16 * q) data) @ drop (16 * q + 16) (take sz data) = drop (16 * q) (take sz data)"
      by (simp only: append_take_drop_id)
    then show ?thesis using True unfolding R_def a by simp
  next
    case False
    then have "i div 16 = (i - 1) div 16" by (cases i) (auto simp: div_Suc)
    then show ?thesis using False by (auto simp: R_def)
  qed
  show ?case
  proof (cases n)
    case 0
    then have last: "i = sz - 1" "Suc i = sz" using Suc.prems by auto
    have "take (i mod 16 + 1) (drop (i - i mod 16) data) = drop (16 * (i div 16)) (take sz data)"
    proof -
      have "i - i mod 16 = 16 * (i div 16)" by (simp add: minus_mod_eq_mult_div)
      moreover have "sz - 16 * (i div 16) = i mod 16 + 1" 
        using last(2) mult_div_mod_eq[of 16 i] by linarith
      ultimately show ?thesis by (simp add: drop_take)
    qed
    then have "char_column e = map print_char (R @ drop (16 * (i div 16)) (take sz data))"
      using chars last(1) by (metis map_append)
    then have "char_column e = map print_char (drop (16 * ((i - 1) div 16)) (take sz data))" unfolding row .
    then show ?thesis using e 0 hex by simp
  next
    case (Suc k)
    then have "i \<noteq> sz - 1" "Suc i + n = sz" "0 < n" using Suc.prems by auto
    from Suc.IH[OF Suc.prems(1) this(2,3)] obtain es where
      es: "dump_from n data sz (Suc i) = Some es" "hex_column es = map uint (take n (drop (Suc i) data))"
      "char_column es = map print_char (drop (16 * (i div 16)) (take sz data))" by auto
    have "char_column (e @ es) = map print_char (R @ drop (16 * (i div 16)) (take sz data))"
      using chars es(3) \<open>i \<noteq> sz - 1\<close> by (simp only: columns_append map_append if_False append_Nil2)
    then have "char_column (e @ es) = map print_char (drop (16 * ((i - 1) div 16)) (take sz data))" unfolding row .
    then show ?thesis using e es hex by simp
  qed
qed simp


lemma print_data_columns:
  assumes "sz \<le> length data"
  shows "\<exists>es. dump_from sz data sz 0 = Some es \<and> hex_column es = map uint (take sz data) \<and>
    char_column es = map print_char (take sz data)"
  using dump_from_columns[of sz data 0 sz] assms by (cases "sz = 0") auto

lemma int_unat_u8: "int (unat (i :: byte)) = uint i"
  by simp

lemma u8_step: "uint (i :: byte) < 255 \<Longrightarrow> unat (i + 1) = Suc (unat i)"
proof -
  assume "uint i < 255"
  then have "unat i < 255" using int_unat_u8[of i] by linarith
  then show ?thesis by (simp add: unat_word_ariths)
qed

lemma print_data_u8_dump:
  assumes "0 \<le> sz" "sz \<le> 255" "unat i + n = nat sz" "n < fuel"
  shows "print_data_u8 fuel data sz i = dump_from n data (nat sz) (unat i)"
  using assms(3,4)
proof (induction n arbitrary: i fuel)
  case 0
  obtain f where "fuel = Suc f" using 0(2) by (cases fuel) simp_all
  moreover have "\<not> uint i < sz"
  proof -
    have "int (unat i + 0) = int (nat sz)" by (simp only: 0(1))
    then show ?thesis using assms(1) by (simp only: of_nat_add int_unat_u8 int_nat_eq if_True)
  qed
  ultimately show ?case by simp
next
  case (Suc n)
  obtain f where f: "fuel = Suc f" using Suc.prems(2) by (cases fuel) simp_all
  have "int (unat i + Suc n) = int (nat sz)" by (simp only: Suc.prems(1))
  then have "uint i + int (Suc n) = sz" using assms(1) by (simp only: of_nat_add int_unat_u8 int_nat_eq if_True)
  then have lt: "uint i < sz" "uint i < 255" using assms(2) by linarith+
  have "unat (i + 1) = Suc (unat i)" by (rule u8_step[OF lt(2)])
  moreover from this have "print_data_u8 f data sz (i + 1) = dump_from n data (nat sz) (unat (i + 1))"
    using Suc.prems f by (intro Suc.IH) auto
  moreover have "sz \<noteq> 256" using assms(2) by simp
  ultimately show ?case using lt(1) by (simp add: f)
qed

lemma print_data_u8_diverges: "256 \<le> sz \<Longrightarrow> print_data_u8 fuel data sz i = None"
proof (induction fuel arbitrary: i)
  case (Suc fuel)
  have "uint i < sz" using Suc.prems uint_lt2p[of i] by simp
  then show ?case using Suc.IH[OF Suc.prems, of "i + 1"]
    by (auto split: Option.bind_splits)
qed simp

section \<open>Properties\<close>

text \<open>C32: Dumping \<open>sz\<close> bytes of a buffer that holds them ends without an access outside it, and
  the dump shows every byte exactly once and in order, both in the hexadecimal column and in
  the character column, whatever the length of the last row.\<close>

theorem print_data_complete:
  assumes "unat sz \<le> length data"
  shows "\<exists>es. print_data data sz = Some es \<and> hex_column es = map uint (take (unat sz) data) \<and>
    char_column es = map print_char (take (unat sz) data)"
  using print_data_columns[OF assms] by (simp add: print_data_def)

theorem print_data_complete_witness:
  "\<exists>es. print_data (replicate 20 65) 18 = Some es \<and> hex_column es = map uint (take (unat (18 :: u32)) (replicate 20 (65 :: byte))) \<and>
    char_column es = map print_char (take (unat (18 :: u32)) (replicate 20 65))"
  by (rule print_data_complete) simp

text \<open>The ping program's dump agrees with the \<^verbatim>\<open>int\<close> version for at most 255 bytes, and
  never ends for 256 bytes or more, because its 8-bit counter wraps.\<close>

theorem print_data_u8_limit:
  "(0 \<le> sz \<and> sz \<le> 255 \<longrightarrow> print_data_u8 256 data sz 0 = print_data_int data sz) \<and>
   (256 \<le> sz \<longrightarrow> (\<forall>fuel. print_data_u8 fuel data sz 0 = None))"
  using print_data_u8_dump[of sz 0 "nat sz" 256 data] print_data_u8_diverges[of sz]
  by (auto simp: print_data_int_def)

theorem print_data_u8_limit_witness:
  "print_data_u8 256 [1, 2] 2 0 = print_data_int [1, 2] 2 \<and> print_data_u8 1000 (replicate 1024 0) 1024 0 = None"
  using print_data_u8_limit[of 2 "[1, 2]"] print_data_u8_limit[of 1024 "replicate 1024 0"] by simp

end
