(* ===== verification/Pcap_Sniffer.thy ===== *)
theory Pcap_Sniffer
  imports C_Output "HOL-Library.Sublist"
begin

text \<open>
  The packet sniffer \<^verbatim>\<open>src/pcap_sniffer\<close>: the packet handler \<^verbatim>\<open>pckt_hndl\<close> that libpcap calls, the
  payload search \<^verbatim>\<open>check_data\<close>, and the printing of Ethernet, IP, TCP, UDP and ICMP headers.
  libpcap itself is outside; a captured packet is a byte list and \<^verbatim>\<open>header->len\<close> a number. The
  printing functions store the recomputed checksums in the packet, so the packet is part of
  their result. \<open>None\<close> is an access outside the packet; \<open>Some None\<close> is the exit after a failed
  allocation in the checksum code.
\<close>

section \<open>Headers\<close>

abbreviation (input) eth_len :: nat where "eth_len \<equiv> 14"

definition hi_nibble :: "byte \<Rightarrow> nat" where
  "hi_nibble b = unat (drop_bit 4 b)"

definition bit_of :: "nat \<Rightarrow> byte \<Rightarrow> int" where
  "bit_of n b = (if bit b n then 1 else 0)"

text \<open>\<^verbatim>\<open>ntohl\<close> of a little-endian load: the value of four bytes in network order.\<close>

definition be32 :: "byte list \<Rightarrow> int" where
  "be32 bs = fold (\<lambda>b n. n * 256 + uint b) bs 0"

definition num8 :: "byte \<Rightarrow> arg" where
  "num8 b = Num (uint b)"

definition validity :: "u16 \<Rightarrow> u16 \<Rightarrow> arg" where
  "validity back now = Str (if back = now then ''valid'' else ''invalid'')"

definition print_ethernet_header :: "byte list \<Rightarrow> event list option" where
  "print_ethernet_header frame = do {
     h_dest \<leftarrow> ldn frame 0 6;
     h_source \<leftarrow> ldn frame 6 6;
     h_proto \<leftarrow> ld16 frame 12;
     Some [say (ln []), say (ln ''Ethernet Header''),
       Printf (ln ''   |-Destination Address : %.2X-%.2X-%.2X-%.2X-%.2X-%.2X '') (map num8 h_dest),
       Printf (ln ''   |-Source Address      : %.2X-%.2X-%.2X-%.2X-%.2X-%.2X '') (map num8 h_source),
       Printf (ln ''   |-Protocol            : %u '') [num16 h_proto]] }"

text \<open>The lines common to all programs that print the IP header at \<open>iph\<close>.\<close>

definition ip_header_lines :: "byte list \<Rightarrow> nat \<Rightarrow> u16 \<Rightarrow> event list option" where
  "ip_header_lines p iph check_sum_back = do {
     b0 \<leftarrow> ld8 p iph;
     ihl \<leftarrow> ip_ihl p iph;
     tos \<leftarrow> ld8 p (iph + 1);
     tot_len \<leftarrow> ld16 p (iph + 2);
     ident \<leftarrow> ld16 p (iph + 4);
     ttl \<leftarrow> ld8 p (iph + 8);
     protocol \<leftarrow> ld8 p (iph + 9);
     check \<leftarrow> ld16 p (iph + ip_check);
     saddr \<leftarrow> ldn p (iph + 12) 4;
     daddr \<leftarrow> ldn p (iph + 16) 4;
     Some [
       Printf (ln ''   |-IP Version        : %d'') [Num (int (hi_nibble b0))],
       Printf (ln ''   |-IP Header Length  : %d DWORDS or %d Bytes'') [Num (int ihl), Num (int (ihl * 4))],
       Printf (ln ''   |-Type Of Service   : %d'') [num8 tos],
       Printf (ln ''   |-IP Total Length   : %d Bytes(Size of Packet)'') [num16 (ntohs tot_len)],
       Printf (ln ''   |-Identification    : %d'') [num16 (ntohs ident)],
       Printf (ln ''   |-TTL               : %d'') [num8 ttl],
       Printf (ln ''   |-Protocol          : %d'') [num8 protocol],
       Printf (ln ''   |-Checksum          : %d (verif: %d) [%s]'')
         [num16 (ntohs check_sum_back), num16 (ntohs check), validity check_sum_back check],
       Printf (ln ''   |-Source IP         : %s'') [Str (inet_ntoa saddr)],
       Printf (ln ''   |-Destination IP    : %s'') [Str (inet_ntoa daddr)]] }"

definition print_ip_header :: "byte list \<Rightarrow> (event list \<times> byte list) option" where
  "print_ip_header packet = do {
     let iph = eth_len;
     eth \<leftarrow> print_ethernet_header packet;
     check_sum_back \<leftarrow> ld16 packet (iph + ip_check);
     packet \<leftarrow> compute_ip_checksum packet iph;
     ls \<leftarrow> ip_header_lines packet iph check_sum_back;
     Some (eth @ [say (ln []), say (ln ''IP Header'')] @ ls, packet) }"

section \<open>TCP and UDP\<close>

definition banner :: "string \<Rightarrow> event" where
  "banner s = say (CHR 0x0A # ln s)"

text \<open>\<^verbatim>\<open>print_data(packet + off, size)\<close>; a negative \<open>size\<close> becomes a large \<^verbatim>\<open>uint32_t\<close>.\<close>

definition dump_at :: "byte list \<Rightarrow> nat \<Rightarrow> int \<Rightarrow> event list option" where
  "dump_at packet off sz = print_data (drop off packet) (word_of_int sz)"

definition print_tcp_packet :: "bool \<Rightarrow> byte list \<Rightarrow> int \<Rightarrow> (event list \<times> byte list) option option" where
  "print_tcp_packet mem_ok packet sz = do {
     let iph = eth_len;
     ihl \<leftarrow> ip_ihl packet iph;
     let iphdrlen = ihl * 4;
     let tcph = iphdrlen + eth_len;
     b12 \<leftarrow> ld8 packet (tcph + 12);
     let doff = hi_nibble b12;
     let header_size = eth_len + iphdrlen + doff * 4;
     check_sum_back \<leftarrow> ld16 packet (tcph + tcp_check);
     r \<leftarrow> compute_tcp_checksum mem_ok packet iph tcph;
     case r of
       None \<Rightarrow> Some None
     | Some packet \<Rightarrow> do {
         (ip_ev, packet) \<leftarrow> print_ip_header packet;
         source \<leftarrow> ld16 packet tcph;
         dest \<leftarrow> ld16 packet (tcph + 2);
         seq \<leftarrow> ldn packet (tcph + 4) 4;
         ack_seq \<leftarrow> ldn packet (tcph + 8) 4;
         flags \<leftarrow> ld8 packet (tcph + 13);
         window \<leftarrow> ld16 packet (tcph + 14);
         check \<leftarrow> ld16 packet (tcph + tcp_check);
         urg_ptr \<leftarrow> ld16 packet (tcph + 18);
         d1 \<leftarrow> dump_at packet 0 (int iphdrlen);
         d2 \<leftarrow> dump_at packet iphdrlen (int (doff * 4));
         d3 \<leftarrow> dump_at packet header_size (sz - int header_size);
         Some (Some (
           [banner ''***********************TCP Packet*************************''] @ ip_ev @
           [say (ln []), say (ln ''TCP Header''),
            Printf (ln ''   |-Source Port          : %u'') [num16 (ntohs source)],
            Printf (ln ''   |-Destination Port     : %u'') [num16 (ntohs dest)],
            Printf (ln ''   |-Sequence Number      : %u'') [Num (be32 seq)],
            Printf (ln ''   |-Acknowledge Number   : %u'') [Num (be32 ack_seq)],
            Printf (ln ''   |-Header Length        : %d DWORDS or %d BYTES'') [Num (int doff), Num (int (doff * 4))],
            Printf (ln ''   |-Urgent Flag          : %d'') [Num (bit_of 5 flags)],
            Printf (ln ''   |-Acknowledgement Flag : %d'') [Num (bit_of 4 flags)],
            Printf (ln ''   |-Push Flag            : %d'') [Num (bit_of 3 flags)],
            Printf (ln ''   |-Reset Flag           : %d'') [Num (bit_of 2 flags)],
            Printf (ln ''   |-Synchronise Flag     : %d'') [Num (bit_of 1 flags)],
            Printf (ln ''   |-Finish Flag          : %d'') [Num (bit_of 0 flags)],
            Printf (ln ''   |-Window               : %d'') [num16 (ntohs window)],
            Printf (ln ''   |-Checksum             : %d (verif: %d) [%s]'')
              [num16 (ntohs check_sum_back), num16 (htons check), validity check_sum_back check],
            Printf (ln ''   |-Urgent Pointer       : %d'') [num16 urg_ptr],
            say (ln []), say ''                        DATA Dump                         '', say (ln []),
            say (ln ''IP Header'')] @ d1 @
           [say (ln ''TCP Header'')] @ d2 @
           [say (ln ''Data Payload'')] @ d3 @
           [banner ''###########################################################''], packet)) } }"

text \<open>\<^verbatim>\<open>sizeof udph\<close> is the size of a pointer, 8, which is also the size of the header.\<close>

definition print_udp_packet :: "bool \<Rightarrow> byte list \<Rightarrow> int \<Rightarrow> (event list \<times> byte list) option option" where
  "print_udp_packet mem_ok packet sz = do {
     let iph = eth_len;
     ihl \<leftarrow> ip_ihl packet iph;
     let iphdrlen = ihl * 4;
     let udph = iphdrlen + eth_len;
     let header_size = eth_len + iphdrlen + 8;
     check_sum_back \<leftarrow> ld16 packet (udph + udp_check);
     r \<leftarrow> compute_udp_checksum mem_ok packet iph udph;
     case r of
       None \<Rightarrow> Some None
     | Some packet \<Rightarrow> do {
         (ip_ev, packet) \<leftarrow> print_ip_header packet;
         source \<leftarrow> ld16 packet udph;
         dest \<leftarrow> ld16 packet (udph + 2);
         len \<leftarrow> ld16 packet (udph + 4);
         check \<leftarrow> ld16 packet (udph + udp_check);
         d1 \<leftarrow> dump_at packet 0 (int iphdrlen);
         d2 \<leftarrow> dump_at packet iphdrlen 8;
         d3 \<leftarrow> dump_at packet header_size (sz - int header_size);
         Some (Some (
           [banner ''***********************UDP Packet*************************''] @ ip_ev @
           [banner ''UDP Header'',
            Printf (ln ''   |-Source Port      : %d'') [num16 (ntohs source)],
            Printf (ln ''   |-Destination Port : %d'') [num16 (ntohs dest)],
            Printf (ln ''   |-UDP Length       : %d'') [num16 (ntohs len)],
            Printf (ln ''   |-UDP Checksum     : %d (verif: %d) [%s]'')
              [num16 (ntohs check_sum_back), num16 (htons check), validity check_sum_back check],
            say (ln []), say (ln ''IP Header'')] @ d1 @
           [say (ln ''UDP Header'')] @ d2 @
           [say (ln ''Data Payload'')] @ d3 @
           [banner ''###########################################################''], packet)) } }"

section \<open>ICMP\<close>

definition icmp_type_name :: "byte \<Rightarrow> string" where
  "icmp_type_name t =
     (if t = 0 then ln ''(Echo Reply)''
      else if t = 3 then ln ''(Destination Unreachable)''
      else if t = 4 then ln ''(Source Quench)''
      else if t = 5 then ln ''(Redirect (change route))''
      else if t = 8 then ln ''(Echo Request)''
      else if t = 11 then ln ''(Time Exceeded)''
      else if t = 12 then ln ''(Parameter Problem)''
      else if t = 13 then ln ''(Timestamp Request)''
      else if t = 14 then ln ''(Timestamp Reply)''
      else if t = 15 then ln ''(Information Request)''
      else if t = 16 then ln ''(Information Reply)''
      else if t = 17 then ln ''(Address Mask Request)''
      else if t = 18 then ln ''(Address Mask Reply)''
      else ln [])"

text \<open>
  The IP header is taken at the start of the frame, without the Ethernet header that the other
  functions skip. \<^verbatim>\<open>sizeof icmph\<close> is again 8.
\<close>

definition print_icmp_packet :: "byte list \<Rightarrow> int \<Rightarrow> (event list \<times> byte list) option" where
  "print_icmp_packet packet sz = do {
     let iph = 0;
     ihl \<leftarrow> ip_ihl packet iph;
     let iphdrlen = ihl * 4;
     let icmph = iphdrlen;
     let header_size = eth_len + iphdrlen + 8;
     check_sum_back \<leftarrow> ld16 packet (icmph + icmp_check);
     packet \<leftarrow> compute_icmp_checksum packet icmph;
     (ip_ev, packet) \<leftarrow> print_ip_header packet;
     type \<leftarrow> ld8 packet icmph;
     code \<leftarrow> ld8 packet (icmph + 1);
     checksum \<leftarrow> ld16 packet (icmph + icmp_check);
     ident \<leftarrow> ld16 packet (icmph + 4);
     sequence \<leftarrow> ld16 packet (icmph + 6);
     d1 \<leftarrow> dump_at packet 0 (int iphdrlen);
     d2 \<leftarrow> dump_at packet iphdrlen 8;
     d3 \<leftarrow> dump_at packet header_size (sz - int header_size);
     Some (
       [banner ''***********************ICMP Packet*************************''] @ ip_ev @
       [say (ln []), say (ln ''ICMP Header''),
        Printf ''   |-Type : %d'' [num8 type],
        say (if icmp_type_name type = ln [] then ln [] else ''  '' @ icmp_type_name type),
        Printf (ln ''   |-Code : %d'') [num8 code],
        Printf (ln ''   |-Checksum : %d (verif: %d) [%s]'')
          [num16 (ntohs check_sum_back), num16 (ntohs checksum), validity check_sum_back checksum],
        Printf (ln ''   |-ID       : %d'') [num16 (ntohs ident)],
        Printf (ln ''   |-Sequence : %d'') [num16 (ntohs sequence)],
        say (ln []), say (ln ''IP Header'')] @ d1 @
       [say (ln ''UDP Header'')] @ d2 @
       [say (ln ''Data Payload'')] @ d3 @
       [banner ''###########################################################''], packet) }"

section \<open>Help and the device list\<close>

text \<open>
  \<^verbatim>\<open>print_filter_help\<close>: \<open>fd\<close> is the result of \<^verbatim>\<open>open\<close> and \<open>reads\<close> are the successive results of
  \<^verbatim>\<open>read(fd, buffer, MAX_BUF_SIZE)\<close>. The store \<^verbatim>\<open>buffer[rb] = 0\<close> is outside the 64-byte buffer when
  the read fills it. The second component says that the program exits.
\<close>

fun help_loop :: "byte list list \<Rightarrow> event list option" where
  "help_loop [] = Some []"
| "help_loop (chunk # reads) =
     (if chunk = [] then Some []
      else if length chunk < 64 then
        map_option ((#) (Printf ''%s'' [Str (map (\<lambda>b. char_of (unat b)) (cstr chunk))])) (help_loop reads)
      else None)"

definition print_filter_help :: "int \<Rightarrow> byte list list \<Rightarrow> (event list \<times> bool) option" where
  "print_filter_help fd reads =
     (if fd < 0 then Some ([say (ln ''open() failed: cannot open file'')], True)
      else map_option (\<lambda>ev. (ev, False)) (help_loop reads))"

text \<open>What \<^verbatim>\<open>read\<close> returns for a regular file: full buffers, then the rest, then nothing.\<close>

fun file_reads :: "nat \<Rightarrow> byte list \<Rightarrow> byte list list" where
  "file_reads 0 f = []"
| "file_reads (Suc n) f = (if f = [] then [[]] else take 64 f # file_reads n (drop 64 f))"

datatype sockaddr = AF_INET "byte list" | AF_INET6 "byte list" | AF_OTHER

record net_dev =
  dev_name :: string
  dev_description :: "string option"
  dev_addresses :: "sockaddr list"

text \<open>\<open>ntop6\<close> is \<^verbatim>\<open>inet_ntop\<close> for IPv6 addresses.\<close>

definition get_ip_str :: "(byte list \<Rightarrow> string) \<Rightarrow> sockaddr \<Rightarrow> string" where
  "get_ip_str ntop6 sa = (case sa of AF_INET a \<Rightarrow> inet_ntoa a | AF_INET6 a \<Rightarrow> ntop6 a | AF_OTHER \<Rightarrow> ''Unknown AF'')"

text \<open>The first address goes on the device's line, the others on lines of their own.\<close>

fun first_addr :: "(byte list \<Rightarrow> string) \<Rightarrow> sockaddr list \<Rightarrow> event list \<times> sockaddr list" where
  "first_addr ntop6 [] = ([], [])"
| "first_addr ntop6 (AF_OTHER # sas) = first_addr ntop6 sas"
| "first_addr ntop6 (sa # sas) = ([Printf (ln '' %-46s |'') [Str (get_ip_str ntop6 sa)]], sas)"

fun other_addrs :: "(byte list \<Rightarrow> string) \<Rightarrow> sockaddr list \<Rightarrow> event list" where
  "other_addrs ntop6 [] = []"
| "other_addrs ntop6 (AF_OTHER # sas) = other_addrs ntop6 sas"
| "other_addrs ntop6 (sa # sas) =
     Printf (ln ''| %-8s | %-48s | %-46s |'') [Str '' '', Str '' '', Str (get_ip_str ntop6 sa)] # other_addrs ntop6 sas"

definition table_line :: event where
  "table_line = say (ln ''+----------+--------------------------------------------------+------------------------------------------------+'')"

definition print_dev :: "(byte list \<Rightarrow> string) \<Rightarrow> net_dev \<Rightarrow> event list" where
  "print_dev ntop6 d =
     [Printf ''| %-8s | %-48s |'' [Str (dev_name d),
        Str (case dev_description d of Some s \<Rightarrow> s | None \<Rightarrow> ''(no description)'')]] @
     (if dev_addresses d = [] then [Printf (ln '' %-46s |'') [Str ''(no address)'']] else []) @
     (let (ev, sas) = first_addr ntop6 (dev_addresses d) in ev @ other_addrs ntop6 sas) @ [table_line]"

text \<open>\<open>devs\<close> is the list \<^verbatim>\<open>pcap_findalldevs\<close> delivers, or its error text; the second component
  says that the program exits.\<close>

definition list_net_devs :: "(byte list \<Rightarrow> string) \<Rightarrow> string + net_dev list \<Rightarrow> event list \<times> bool" where
  "list_net_devs ntop6 devs =
     (case devs of
        Inl err \<Rightarrow> ([Printf (ln ''pcap_findalldevs failed: couldn't get all network devices: %s'') [Str err]], True)
      | Inr ds \<Rightarrow>
          ([table_line, Printf (ln ''| %-108s |'') [Str ''                                       Available network devices list''],
            table_line, Printf (ln ''| %-8s | %-48s | %-46s |'') [Str ''Name'', Str ''Description'', Str ''Network address''],
            table_line] @ concat (map (print_dev ntop6) ds), False))"

section \<open>Searching the payload\<close>

text \<open>The inner loop of \<^verbatim>\<open>check_data\<close>: how many characters match at \<open>data + i\<close>. The payload is
  \<^verbatim>\<open>uint8_t\<close> and the search string plain \<^verbatim>\<open>char\<close>, signed on x86: both are promoted to \<^verbatim>\<open>int\<close>, so a
  byte from 0x80 on is compared with a negative number.\<close>

fun match_len :: "byte list \<Rightarrow> nat \<Rightarrow> byte list \<Rightarrow> nat option" where
  "match_len data i [] = Some 0"
| "match_len data i (c # cs) = do {
     b \<leftarrow> ld8 data i;
     if uint b \<noteq> sint c then Some 0 else map_option Suc (match_len data (Suc i) cs) }"

text \<open>The outer loop with \<open>n\<close> iterations to go.\<close>

fun check_loop :: "nat \<Rightarrow> byte list \<Rightarrow> nat \<Rightarrow> nat \<Rightarrow> byte list \<Rightarrow> int option" where
  "check_loop 0 data i k search_str = Some (-1)"
| "check_loop (Suc n) data i k search_str =
     (if k = length search_str then Some 0
      else do {
        k \<leftarrow> match_len data i search_str;
        check_loop n data (Suc i) k search_str })"

definition check_data :: "byte list \<Rightarrow> int \<Rightarrow> byte \<Rightarrow> byte list \<Rightarrow> int option" where
  "check_data packet sz proto search_str = do {
     ihl \<leftarrow> ip_ihl packet eth_len;
     let ip_hdr_len = ihl * 4;
     if proto \<noteq> 6 \<and> proto \<noteq> 17 then Some (-1)
     else do {
       hdr_size \<leftarrow>
         (if proto = 6 then do {
            b12 \<leftarrow> ld8 packet (ip_hdr_len + eth_len + 12);
            Some (eth_len + ip_hdr_len + hi_nibble b12 * 4) }
          else Some (eth_len + ip_hdr_len + 8));
       check_loop (unat (word_of_int (sz - int hdr_size) :: u32)) (drop hdr_size packet) 0 0 search_str } }"

section \<open>The packet handler\<close>

record sniffer =
  n_tcp :: u32
  n_udp :: u32
  n_icmp :: u32
  n_igmp :: u32
  n_others :: u32
  n_total :: u32

definition statistic :: "sniffer \<Rightarrow> event list" where
  "statistic s = [say (CHR 0x0A # ln ''Statistic:''),
     Printf (ln ''   |-TCP : %d'') [Num (sint (n_tcp s))],
     Printf (ln ''   |-UDP: %d'') [Num (sint (n_udp s))],
     Printf (ln ''   |-ICMP: %d'') [Num (sint (n_icmp s))],
     Printf (ln ''   |-OTH: %d'') [Num (sint (n_others s))],
     Printf (ln ''   |-TOT: %d'') [Num (sint (n_total s))]]"

text \<open>Printing when there is no search string, or when it is in the payload.\<close>

definition print_if_found ::
  "(byte list \<Rightarrow> int \<Rightarrow> (event list \<times> byte list) option option) \<Rightarrow> byte list option \<Rightarrow> byte \<Rightarrow>
   byte list \<Rightarrow> int \<Rightarrow> (event list \<times> byte list) option option" where
  "print_if_found print args proto packet sz =
     (case args of
        None \<Rightarrow> print packet sz
      | Some search_str \<Rightarrow> do {
          res \<leftarrow> check_data packet sz proto search_str;
          if res \<noteq> -1 then print packet sz else Some (Some ([], packet)) })"

definition pckt_hndl ::
  "bool \<Rightarrow> byte list option \<Rightarrow> byte list \<Rightarrow> int \<Rightarrow> sniffer \<Rightarrow> (event list \<times> sniffer) option option" where
  "pckt_hndl mem_ok args packet sz s = do {
     protocol \<leftarrow> ld8 packet (eth_len + 9);
     let s = s\<lparr>n_total := n_total s + 1\<rparr>;
     let first = [Printf (ln ''Protocol: %d!!!!!'') [num8 protocol]];
     if protocol = 1 then do {
       let s = s\<lparr>n_icmp := n_icmp s + 1\<rparr>;
       (ev, _) \<leftarrow> print_icmp_packet packet sz;
       Some (Some (first @ ev @ statistic s, s)) }
     else if protocol = 2 then do {
       let s = s\<lparr>n_igmp := n_igmp s + 1\<rparr>;
       Some (Some (first @ statistic s, s)) }
     else if protocol = 6 then do {
       let s = s\<lparr>n_tcp := n_tcp s + 1\<rparr>;
       r \<leftarrow> print_if_found (print_tcp_packet mem_ok) args protocol packet sz;
       Some (map_option (\<lambda>(ev, _). (first @ ev @ statistic s, s)) r) }
     else if protocol = 17 then do {
       let s = s\<lparr>n_udp := n_udp s + 1\<rparr>;
       r \<leftarrow> print_if_found (print_udp_packet mem_ok) args protocol packet sz;
       case r of
         None \<Rightarrow> Some None
       | Some (ev, packet) \<Rightarrow> do {
           r \<leftarrow> print_udp_packet mem_ok packet sz;
           Some (map_option (\<lambda>(ev', _). (first @ ev @ ev' @ statistic s, s)) r) } }
     else do {
       let s = s\<lparr>n_others := n_others s + 1\<rparr>;
       Some (Some (first @ [banner ''***********************Other protocol, skip the packet*************************''] @ statistic s, s)) } }"

section \<open>The search\<close>

lemma drop_Suc_nth: "i < length xs \<Longrightarrow> drop i xs = xs ! i # drop (Suc i) xs"
  by (simp add: Cons_nth_drop_Suc)

lemma match_len_le: "match_len data i s = Some k \<Longrightarrow> k \<le> length s"
  by (induction s arbitrary: i k) (auto split: if_splits Option.bind_splits)

text \<open>The characters a \<^verbatim>\<open>uint8_t\<close> can be equal to.\<close>

definition ascii :: "byte list \<Rightarrow> bool" where
  "ascii = list_all (\<lambda>c. c < 0x80)"

lemma ascii_simps [simp]: "ascii []" "ascii (c # cs) = (c < 0x80 \<and> ascii cs)"
  by (simp_all add: ascii_def)

lemma signed_compare: "(uint b = sint (c :: byte)) = (b = c \<and> c < 0x80)"
proof -
  have r: "0 \<le> uint b" "0 \<le> uint c" "uint c < 256" using uint_lt2p[of c] by simp_all
  have "sint c = signed_take_bit 7 (uint c)" by (simp add: sint_uint)
  also have "\<dots> = (uint c + 128) mod 256 - 128"
    by (simp only: signed_take_bit_eq_take_bit_shift take_bit_eq_mod) simp
  finally have s: "sint c = (uint c + 128) mod 256 - 128" .
  have h: "(c < 0x80) = (uint c < 128)" by (simp add: word_less_def)
  show ?thesis
  proof (cases "uint c < 128")
    case True
    then show ?thesis using r h s by (simp add: word_uint_eq_iff)
  next
    case False
    have "(uint c + 128) mod 256 = (uint c - 128 + 256) mod 256" by (simp add: add.commute)
    also have "\<dots> = (uint c - 128) mod 256" by (rule mod_add_self2)
    also have "\<dots> = uint c - 128" using r False by (intro mod_pos_pos_trivial) auto
    finally have "sint c = uint c - 256" using s by linarith
    then have "uint b \<noteq> sint c" using r by linarith
    then show ?thesis using h False by simp
  qed
qed

lemma match_len_prefix: "match_len data i s = Some k \<Longrightarrow> (k = length s) = (ascii s \<and> prefix s (drop i data))"
proof (induction s arbitrary: i k)
  case (Cons c cs)
  then have i: "i < length data" by (auto simp: ld8_def split: if_splits Option.bind_splits)
  show ?case
  proof (cases "data ! i = c \<and> c < 0x80")
    case True
    with Cons.prems i obtain k' where k': "match_len data (Suc i) cs = Some k'" "k = Suc k'"
      by (auto simp: ld8_def signed_compare)
    then show ?thesis using Cons.IH[OF k'(1)] True i by (simp add: drop_Suc_nth)
  next
    case False
    then show ?thesis using Cons.prems i by (auto simp: ld8_def drop_Suc_nth signed_compare)
  qed
qed simp

lemma match_len_None: "match_len data i s = None \<Longrightarrow> length data < i + length s"
proof (induction s arbitrary: i)
  case (Cons c cs)
  then show ?case using Cons.IH[of "Suc i"] by (auto simp: ld8_def split: if_splits Option.bind_splits)
qed simp

lemma check_loop_found:
  assumes "s \<noteq> []"
  shows "check_loop n data i k s = Some 0 \<longleftrightarrow>
    (if k = length s then 0 < n else ascii s \<and> (\<exists>j. i \<le> j \<and> Suc j < i + n \<and> prefix s (drop j data)))"
proof (induction n arbitrary: i k)
  case (Suc n)
  show ?case
  proof (cases "k = length s")
    case False
    show ?thesis
    proof (cases "match_len data i s")
      case None
      have "\<not> prefix s (drop j data)" if "i \<le> j" for j
        using match_len_None[OF None] prefix_length_le[of s "drop j data"] that assms by (cases s) auto
      then show ?thesis using None False by auto
    next
      case (Some k')
      note hit = match_len_prefix[OF Some]
      have step: "check_loop (Suc n) data i k s = check_loop n data (Suc i) k' s" using Some False by simp
      show ?thesis
      proof (cases "k' = length s")
        case True
        then have "ascii s" "prefix s (drop i data)" using hit by simp_all
        then show ?thesis unfolding step Suc.IH using True False by (auto intro: exI[of _ i])
      next
        case no: False
        have "ascii s \<and> (Suc i \<le> j \<and> Suc j < Suc i + n \<and> prefix s (drop j data)) \<longleftrightarrow>
          ascii s \<and> (i \<le> j \<and> Suc j < i + Suc n \<and> prefix s (drop j data))" for j
          using no hit by (cases "j = i") auto
        then show ?thesis unfolding step Suc.IH using no False by simp blast
      qed
    qed
  qed simp
qed auto

lemma check_loop_range: "check_loop n data i k s = Some r \<Longrightarrow> r = 0 \<or> r = -1"
  by (induction n arbitrary: i k) (auto split: if_splits Option.bind_splits)

section \<open>Properties\<close>

text \<open>C33: For a UDP packet of less than 2 GiB whose headers are inside it and a search string that
  is not empty, \<^verbatim>\<open>check_data\<close> reports a hit exactly when every character of the search string is
  below 0x80 and the string occurs in the payload at some offset before the last byte. A character
  from 0x80 on is negative as a \<^verbatim>\<open>char\<close> and equals no byte, and a string that is only the last byte
  is missed because a match is noticed one iteration later. (A proper prefix of the string at the
  end of the payload makes the search read behind the packet, which is undefined and not a hit.)\<close>

theorem check_data_udp_finds:
  assumes "ip_ihl packet 14 = Some ihl" "hdr = 14 + ihl * 4 + 8" "hdr \<le> length packet" "length packet < 2 ^ 31"
    and "search_str \<noteq> []"
  shows "check_data packet (int (length packet)) 17 search_str = Some 0 \<longleftrightarrow>
    list_all (\<lambda>c. c < 0x80) search_str \<and> (\<exists>j. Suc j < length packet - hdr \<and> prefix search_str (drop j (drop hdr packet)))"
proof -
  have n: "unat (word_of_int (int (length packet) - int hdr) :: u32) = length packet - hdr"
  proof -
    have "word_of_int (int (length packet) - int hdr) = (of_nat (length packet - hdr) :: u32)"
      using assms(3) by (metis of_nat_diff of_int_of_nat_eq)
    then show ?thesis using assms(4) by (simp add: unat_of_nat_small)
  qed
  have "check_data packet (int (length packet)) 17 search_str =
      check_loop (length packet - hdr) (drop hdr packet) 0 0 search_str"
    using assms(1,2) n by (simp add: check_data_def)
  then show ?thesis using check_loop_found[OF assms(5), of "length packet - hdr" "drop hdr packet" 0 0] assms(5)
    by (simp add: ascii_def)
qed

definition sample_frame :: "byte list" where
  "sample_frame = replicate 14 0 @ 0x45 # replicate 8 0 @ 17 # replicate 18 0 @ bytes_of ''abcd''"

theorem check_data_udp_finds_witness:
  "check_data sample_frame 46 17 (bytes_of ''bc'') = Some 0 \<and> check_data sample_frame 46 17 (bytes_of ''d'') \<noteq> Some 0 \<and>
   check_data sample_frame 46 17 [0xE9] \<noteq> Some 0"
proof -
  have ihl: "ip_ihl sample_frame 14 = Some 5" by (simp add: ip_ihl_def ld8_def sample_frame_def nth_append)
  have len: "length sample_frame = 46" by (simp add: sample_frame_def bytes_of_def)
  have pay: "drop 42 sample_frame = bytes_of ''abcd''" by (simp add: sample_frame_def)
  note found = check_data_udp_finds[OF ihl, of 42, unfolded len pay, simplified]
  have "check_data sample_frame 46 17 (bytes_of ''bc'') = Some 0"
    by (subst found) (auto simp: bytes_of_def intro: exI[of _ 1])
  moreover have "\<not> prefix (bytes_of ''d'') (drop j (bytes_of ''abcd''))" if "Suc j < 4" for j
  proof -
    have "j = 0 \<or> j = 1 \<or> j = 2" using that by linarith
    then show ?thesis by (auto simp: bytes_of_def)
  qed
  then have "check_data sample_frame 46 17 (bytes_of ''d'') \<noteq> Some 0"
    by (subst found) (auto simp: bytes_of_def)
  moreover have "check_data sample_frame 46 17 [0xE9] \<noteq> Some 0" by (subst found) auto
  ultimately show ?thesis by simp
qed

text \<open>Every packet that is handled is counted once: the total is always the sum of the five
  protocol counters, whatever is printed and whether the search finds something.\<close>

theorem pckt_hndl_statistics:
  assumes "n_total s = n_tcp s + n_udp s + n_icmp s + n_igmp s + n_others s"
    and "pckt_hndl mem_ok args packet sz s = Some (Some (ev, s'))"
  shows "n_total s' = n_total s + 1 \<and> n_total s' = n_tcp s' + n_udp s' + n_icmp s' + n_igmp s' + n_others s'"
  using assms
  by (auto simp: pckt_hndl_def Let_def split: Option.bind_splits if_splits option.splits)

theorem pckt_hndl_statistics_witness:
  "\<exists>ev s'. pckt_hndl True None (replicate 23 0 @ [2]) 24 \<lparr>n_tcp = 1, n_udp = 2, n_icmp = 0, n_igmp = 0, n_others = 1, n_total = 4\<rparr>
      = Some (Some (ev, s')) \<and> n_total s' = 5 \<and> n_total s' = n_tcp s' + n_udp s' + n_icmp s' + n_igmp s' + n_others s'"
proof -
  let ?s = "\<lparr>n_tcp = 1, n_udp = 2, n_icmp = 0, n_igmp = 0, n_others = 1, n_total = 4\<rparr> :: sniffer"
  have "ld8 (replicate 23 0 @ [2]) (14 + 9) = Some 2" by (simp add: ld8_def nth_append)
  then obtain ev s' where r: "pckt_hndl True None (replicate 23 0 @ [2]) 24 ?s = Some (Some (ev, s'))"
    by (simp add: pckt_hndl_def Let_def)
  moreover have "n_total s' = n_total ?s + 1 \<and> n_total s' = n_tcp s' + n_udp s' + n_icmp s' + n_igmp s' + n_others s'"
    by (rule pckt_hndl_statistics[OF _ r]) simp
  ultimately show ?thesis by auto
qed

text \<open>Printing the filter help overruns its buffer for every help file of 64 bytes or more:
  the first read fills the buffer and the terminating zero is stored behind it.\<close>

theorem print_filter_help_overrun:
  assumes "64 \<le> length f" "0 < n"
  shows "print_filter_help fd (file_reads n f) = None \<longleftrightarrow> 0 \<le> fd"
proof -
  obtain m where "n = Suc m" using assms(2) by (cases n) auto
  then show ?thesis using assms(1) by (auto simp: print_filter_help_def)
qed

theorem print_filter_help_overrun_witness:
  "print_filter_help 3 (file_reads 5 (replicate 100 65)) = None"
  using print_filter_help_overrun[of "replicate 100 65" 5 3] by simp

text \<open>The addresses in a device's part of the list.\<close>

definition shown_addrs :: "event list \<Rightarrow> string list" where
  "shown_addrs es = concat (map (\<lambda>e. case e of
     Printf f [Str a] \<Rightarrow> if f = ln '' %-46s |'' then [a] else []
   | Printf f [_, _, Str a] \<Rightarrow> if f = ln ''| %-8s | %-48s | %-46s |'' then [a] else []
   | _ \<Rightarrow> []) es)"

lemma shown_append [simp]: "shown_addrs (xs @ ys) = shown_addrs xs @ shown_addrs ys"
  by (simp add: shown_addrs_def)

lemma shown_other: "shown_addrs (other_addrs ntop6 sas) = map (get_ip_str ntop6) (filter (\<lambda>sa. sa \<noteq> AF_OTHER) sas)"
  by (induction ntop6 sas rule: other_addrs.induct) (auto simp: shown_addrs_def)

lemma shown_first: "first_addr ntop6 sas = (ev, rest) \<Longrightarrow>
  shown_addrs ev @ map (get_ip_str ntop6) (filter (\<lambda>sa. sa \<noteq> AF_OTHER) rest)
    = map (get_ip_str ntop6) (filter (\<lambda>sa. sa \<noteq> AF_OTHER) sas)"
  by (induction ntop6 sas arbitrary: ev rest rule: first_addr.induct) (auto simp: shown_addrs_def ln_def)

text \<open>For a device with addresses the list shows each of its IPv4 and IPv6 addresses exactly
  once and in order, and no others.\<close>

theorem print_dev_addresses:
  assumes "dev_addresses d \<noteq> []"
  shows "shown_addrs (print_dev ntop6 d) = map (get_ip_str ntop6) (filter (\<lambda>sa. sa \<noteq> AF_OTHER) (dev_addresses d))"
proof -
  obtain ev sas where f: "first_addr ntop6 (dev_addresses d) = (ev, sas)" by fastforce
  have "shown_addrs [table_line] = []" "shown_addrs (Printf ''| %-8s | %-48s |'' [a, b] # es) = shown_addrs es" for a b es
    by (auto simp: shown_addrs_def table_line_def split: arg.splits)
  then show ?thesis using shown_first[OF f] assms f by (simp add: print_dev_def shown_other)
qed

theorem print_dev_addresses_witness:
  "shown_addrs (print_dev (\<lambda>_. ''::1'') \<lparr>dev_name = ''lo'', dev_description = None,
     dev_addresses = [AF_OTHER, AF_INET [127, 0, 0, 1], AF_INET6 [1]]\<rparr>) = [inet_ntoa [127, 0, 0, 1], ''::1'']"
  using print_dev_addresses[of "\<lparr>dev_name = ''lo'', dev_description = None,
     dev_addresses = [AF_OTHER, AF_INET [127, 0, 0, 1], AF_INET6 [1]]\<rparr>" "\<lambda>_. ''::1''"]
  by (simp add: get_ip_str_def)

end
