(* ===== verification/Sniffer_Main.thy ===== *)
theory Sniffer_Main
  imports Pcap_Sniffer
begin

text \<open>
  The main program of the sniffer, \<^verbatim>\<open>src/pcap_sniffer/src/sniffer.c\<close>: its options, and the capture with the handler of
  \<^verbatim>\<open>Pcap_Sniffer\<close>. The functions of libpcap are arguments. The options are the pairs that \<^verbatim>\<open>getopt\<close> returns, each with whether the
  \<^verbatim>\<open>malloc\<close> for its argument succeeds.
\<close>

section \<open>The program\<close>

text \<open>The copy of an argument has no terminating zero: \<open>behind\<close> is what is found behind its block, up to a zero.\<close>

record sn_env =
  behind :: "byte list \<Rightarrow> byte list"
  lookupnet :: "byte list \<Rightarrow> string + u32"
  open_live :: "byte list \<Rightarrow> string + nat"
  compile :: "nat \<Rightarrow> byte list \<Rightarrow> u32 \<Rightarrow> string + nat"
  setfilter :: "nat \<Rightarrow> nat \<Rightarrow> string option"
  help_fd :: int
  help_reads :: "byte list list"
  all_devs :: "string + net_dev list"
  ntop6 :: "byte list \<Rightarrow> string"

record sn =
  device :: "byte list option"
  filter_exp :: "byte list option"
  search_str :: "byte list option"
  pck_num_lim :: int
  pcap_hndl :: "nat option"
  filter_prog :: "nat option"
  dev_net :: "u32 option"
  errno :: int

datatype outcome = Leave int "event list" | Go_on sn

definition txt_of :: "byte list \<Rightarrow> string" where
  "txt_of bs = map (\<lambda>b. char_of (unat b)) bs"

definition copied :: "sn_env \<Rightarrow> byte list \<Rightarrow> byte list" where
  "copied env optarg = optarg @ behind env optarg"

text \<open>\<^verbatim>\<open>strtol\<close> with base 10: white space, a sign, digits; a value that does not fit is clipped and sets \<^verbatim>\<open>errno\<close> to \<^verbatim>\<open>ERANGE\<close> (34), otherwise
  \<^verbatim>\<open>errno\<close> stays.\<close>

definition digits_value :: "byte list \<Rightarrow> int" where
  "digits_value bs = fold (\<lambda>b n. n * 10 + (uint b - 48)) (takeWhile (\<lambda>b. 48 \<le> b \<and> b \<le> 57) bs) 0"

definition strtol :: "byte list \<Rightarrow> int \<Rightarrow> int \<times> int" where
  "strtol bs err = (let bs = dropWhile (\<lambda>b. b = 32 \<or> (9 \<le> b \<and> b \<le> 13)) bs;
       v = (case bs of [] \<Rightarrow> 0 | b # cs \<Rightarrow> if b = 45 then - digits_value cs else if b = 43 then digits_value cs else digits_value bs) in
     if v < - (2 ^ 63) then (- (2 ^ 63), 34) else if 2 ^ 63 \<le> v then (2 ^ 63 - 1, 34) else (v, err))"

definition set_limit :: "byte list \<Rightarrow> sn \<Rightarrow> sn" where
  "set_limit optarg st = (let (v, err) = strtol optarg (errno st) in
     st\<lparr>errno := err, pck_num_lim := if err = 22 \<or> err = 34 then 0 else signed_take_bit 31 v\<rparr>)"

definition set_device :: "sn_env \<Rightarrow> byte list \<Rightarrow> sn \<Rightarrow> outcome" where
  "set_device env optarg st = (let net_dev = copied env optarg in
     case lookupnet env net_dev of
       Inl err \<Rightarrow> Leave 1 [Printf (ln ''pcap_lookupnet() failed: couldn't find network device: %s'') [Str err]]
     | Inr net \<Rightarrow> (case open_live env net_dev of
         Inl err \<Rightarrow> Leave 1 [Printf (ln ''pcap_open_live() failed: couldn't open device %s: %s'') [Str (txt_of net_dev), Str err]]
       | Inr h \<Rightarrow> Go_on (st\<lparr>device := Some net_dev, dev_net := Some net, pcap_hndl := Some h\<rparr>)))"

text \<open>The handle and the network are uninitialised without a device before.\<close>

definition set_filter :: "sn_env \<Rightarrow> byte list \<Rightarrow> sn \<Rightarrow> outcome option" where
  "set_filter env optarg st = (let f = copied env optarg in do {
     h \<leftarrow> pcap_hndl st;
     net \<leftarrow> dev_net st;
     Some (case compile env h f net of
       Inl err \<Rightarrow> Leave 1 [Printf (ln ''pcap_compile() failed: couldn't parse filter %s: %s'') [Str (txt_of f), Str err]]
     | Inr p \<Rightarrow> (case setfilter env h p of
         Some err \<Rightarrow> Leave 1 [Printf (ln ''pcap_setfilter() failed: couldn't install filter %s: %s'') [Str (txt_of f), Str err]]
       | None \<Rightarrow> Go_on (st\<lparr>filter_exp := Some f, filter_prog := Some p\<rparr>))) })"

definition usage :: event where
  "usage = say (ln ''usage syntax: ./sniffer -if [interface] -f [filter] -s [search string] -l [packet number limit]'')"

definition set_opt :: "sn_env \<Rightarrow> char \<Rightarrow> byte list \<Rightarrow> bool \<Rightarrow> sn \<Rightarrow> outcome option" where
  "set_opt env opt optarg ok st =
     (if opt = CHR ''h'' then map_option (\<lambda>(ev, failed). Leave (if failed then 1 else 0) (usage # ev)) (print_filter_help (help_fd env) (help_reads env))
      else if opt = CHR ''l'' then (case list_net_devs (ntop6 env) (all_devs env) of (ev, failed) \<Rightarrow> Some (Leave (if failed then 1 else 0) ev))
      else if opt \<in> {CHR ''i'', CHR ''f'', CHR ''s''} \<and> \<not> ok then Some (Leave 1 [Perror ''malloc() failed''])
      else if opt = CHR ''i'' then Some (set_device env optarg st)
      else if opt = CHR ''f'' then set_filter env optarg st
      else if opt = CHR ''s'' then Some (Go_on (st\<lparr>search_str := Some (copied env optarg)\<rparr>))
      else if opt = CHR ''c'' then Some (Go_on (set_limit optarg st))
      else Some (Go_on st))"

fun parse_opts :: "sn_env \<Rightarrow> (char \<times> byte list \<times> bool) list \<Rightarrow> sn \<Rightarrow> outcome option" where
  "parse_opts env [] st = Some (Go_on st)"
| "parse_opts env ((opt, optarg, ok) # os) st = (case set_opt env opt optarg ok st of
     Some (Go_on st) \<Rightarrow> parse_opts env os st
   | r \<Rightarrow> r)"

definition settings :: "byte list \<Rightarrow> sn \<Rightarrow> event list" where
  "settings net_dev st = [say (ln ''Sniffer settings''),
     Printf (ln ''   |-Device              : %s'') [Str (txt_of net_dev)],
     Printf (ln ''   |-Filter expression   : %s'') [Str (case filter_exp st of None \<Rightarrow> ''empty'' | Some f \<Rightarrow> txt_of f)],
     Printf (ln ''   |-Search string       : %s'') [Str (case search_str st of None \<Rightarrow> ''empty'' | Some s \<Rightarrow> txt_of s)],
     say ''   |-Packet number limit : '',
     if 1 \<le> pck_num_lim st then Printf (ln ''%d'') [Num (pck_num_lim st)] else say (ln ''unlimited''),
     say (ln ''Pcap based sniffer start...'')]"

text \<open>The packets that \<^verbatim>\<open>pcap_loop\<close> hands to the handler; the second component says that the handler ended the program.\<close>

fun handle_all :: "bool \<Rightarrow> byte list option \<Rightarrow> (byte list \<times> int) list \<Rightarrow> sniffer \<Rightarrow> (event list \<times> bool \<times> sniffer) option" where
  "handle_all mem_ok args [] s = Some ([], False, s)"
| "handle_all mem_ok args ((packet, sz) # ps) s = (case pckt_hndl mem_ok args packet sz s of
     None \<Rightarrow> None
   | Some None \<Rightarrow> Some ([], True, s)
   | Some (Some (ev, s)) \<Rightarrow> map_option (\<lambda>(evs, stop, s). (ev @ evs, stop, s)) (handle_all mem_ok args ps s))"

text \<open>The program with the packets that arrive. The result is what is printed, the exit code, \<open>None\<close> while the capture goes on, and the
  counters. A limit below 1 is none. At the end the program of the filter is freed, which is uninitialised when there was no filter.\<close>

definition sniffer_main :: "sn_env \<Rightarrow> (char \<times> byte list \<times> bool) list \<Rightarrow> int \<Rightarrow> bool \<Rightarrow> (byte list \<times> int) list \<Rightarrow>
    (event list \<times> int option \<times> sniffer) option" where
  "sniffer_main env opts err mem_ok pkts = (
     let zero = \<lparr>n_tcp = 0, n_udp = 0, n_icmp = 0, n_igmp = 0, n_others = 0, n_total = 0\<rparr>;
         st = \<lparr>device = None, filter_exp = None, search_str = None, pck_num_lim = -1, pcap_hndl = None, filter_prog = None, dev_net = None, errno = err\<rparr> in do {
     r \<leftarrow> parse_opts env opts st;
     case r of
       Leave code ev \<Rightarrow> Some (ev, Some code, zero)
     | Go_on st \<Rightarrow> do {
         net_dev \<leftarrow> device st;
         h \<leftarrow> pcap_hndl st;
         let lim = (if 1 \<le> pck_num_lim st then nat (pck_num_lim st) else length pkts);
         (ev, stop, s) \<leftarrow> handle_all mem_ok (search_str st) (take lim pkts) zero;
         let ev = settings net_dev st @ ev;
         if stop then Some (ev, Some 1, s)
         else if 1 \<le> pck_num_lim st \<and> lim \<le> length pkts then do {
           p \<leftarrow> filter_prog st;
           Some (ev @ [Printf (ln (''Capture complet'' @ [CHR 0x0A] @ ''epcap_loop returned: %d'')) [Num 0]], Some 0, s) }
         else Some (ev, None, s) } })"

section \<open>Counting\<close>

definition counted :: "sniffer \<Rightarrow> bool" where
  "counted s \<longleftrightarrow> n_total s = n_tcp s + n_udp s + n_icmp s + n_igmp s + n_others s"

lemma handle_all_counts:
  "handle_all mem_ok args ps s = Some (ev, stop, s') \<Longrightarrow> counted s \<Longrightarrow> counted s' \<and> (\<not> stop \<longrightarrow> n_total s' = n_total s + of_nat (length ps))"
proof (induction mem_ok args ps s arbitrary: ev rule: handle_all.induct)
  case (2 mem_ok args packet sz ps s)
  show ?case
  proof (cases "pckt_hndl mem_ok args packet sz s")
    case (Some r)
    show ?thesis
    proof (cases r)
      case None
      then show ?thesis using 2 Some by simp
    next
      case r: (Some p)
      obtain ev1 s1 where p: "p = (ev1, s1)" by force
      have q: "pckt_hndl mem_ok args packet sz s = Some (Some (ev1, s1))" using Some r p by simp
      have "n_total s1 = n_total s + 1 \<and> counted s1"
        using pckt_hndl_statistics[OF 2(3)[unfolded counted_def] q] unfolding counted_def .
      then show ?thesis using 2 Some r p by (auto simp: ac_simps)
    qed
  qed (use 2 in simp)
qed simp

lemma counted_zero: "counted \<lparr>n_tcp = 0, n_udp = 0, n_icmp = 0, n_igmp = 0, n_others = 0, n_total = 0\<rparr>"
  by (simp add: counted_def)

text \<open>As long as the capture goes on, every packet that has arrived has been counted exactly once, and the counters of the protocols
  add up to the total, whatever the options, the search and the contents of the packets.\<close>
theorem sniffer_main_counts:
  assumes "sniffer_main env opts err mem_ok pkts = Some (ev, None, s)"
  shows "n_total s = of_nat (length pkts) \<and> n_total s = n_tcp s + n_udp s + n_icmp s + n_igmp s + n_others s"
proof -
  obtain args ev' where h: "handle_all mem_ok args pkts \<lparr>n_tcp = 0, n_udp = 0, n_icmp = 0, n_igmp = 0, n_others = 0, n_total = 0\<rparr> = Some (ev', False, s)"
    using assms by (auto simp: sniffer_main_def Let_def split: bind_splits outcome.splits if_splits)
  have "counted s \<and> n_total s = of_nat (length pkts)" using handle_all_counts[OF h counted_zero] by auto
  then show ?thesis unfolding counted_def by blast
qed

lemma parse_leaves:
  "parse_opts env opts st = Some (Leave c ev) \<Longrightarrow> \<forall>x \<in> set opts. fst x \<notin> {CHR ''h'', CHR ''l''} \<Longrightarrow> c = 1"
  by (induction env opts st rule: parse_opts.induct)
    (auto simp: set_opt_def set_device_def set_filter_def Let_def split: option.splits outcome.splits sum.splits bind_splits if_splits)

text \<open>A limit that is reached ends the program, after exactly that many packets; the options \<^verbatim>\<open>-h\<close> and \<^verbatim>\<open>-l\<close> end it before.\<close>
theorem sniffer_limit:
  assumes "sniffer_main env opts err mem_ok pkts = Some (ev, Some 0, s)" "\<forall>x \<in> set opts. fst x \<notin> {CHR ''h'', CHR ''l''}"
  shows "\<exists>lim. 1 \<le> lim \<and> nat lim \<le> length pkts \<and> n_total s = of_int lim"
proof -
  obtain args n ev' where h: "handle_all mem_ok args (take (nat n) pkts) \<lparr>n_tcp = 0, n_udp = 0, n_icmp = 0, n_igmp = 0, n_others = 0, n_total = 0\<rparr> = Some (ev', False, s)"
    and n: "1 \<le> n" "nat n \<le> length pkts"
    using assms by (auto simp: sniffer_main_def Let_def split: bind_splits outcome.splits if_splits dest: parse_leaves)
  show ?thesis by (rule exI[of _ n]) (use handle_all_counts[OF h counted_zero] n in auto)
qed

text \<open>Without a filter the program does not end well: what it frees is uninitialised.\<close>

lemma set_opt_no_filter: "set_opt env c a ok st = Some (Go_on st') \<Longrightarrow> c \<noteq> CHR ''f'' \<Longrightarrow> filter_prog st' = filter_prog st"
  by (auto simp: set_opt_def set_device_def set_limit_def Let_def split: option.splits sum.splits if_splits prod.splits)

lemma parse_no_filter:
  "parse_opts env opts st = Some (Go_on st') \<Longrightarrow> \<forall>x \<in> set opts. fst x \<noteq> CHR ''f'' \<Longrightarrow> filter_prog st' = filter_prog st"
  by (induction env opts st rule: parse_opts.induct) (auto dest: set_opt_no_filter split: option.splits outcome.splits)

theorem sniffer_without_filter:
  assumes "\<forall>x \<in> set opts. fst x \<notin> {CHR ''f'', CHR ''h'', CHR ''l''}"
  shows "sniffer_main env opts err mem_ok pkts \<noteq> Some (ev, Some 0, s)"
  using assms by (auto simp: sniffer_main_def Let_def split: bind_splits outcome.splits if_splits dest: parse_leaves dest!: parse_no_filter)

definition quiet_env :: sn_env where
  "quiet_env = \<lparr>behind = (\<lambda>_. []), lookupnet = (\<lambda>_. Inr 0), open_live = (\<lambda>_. Inr 1), compile = (\<lambda>_ _ _. Inr 1), setfilter = (\<lambda>_ _. None),
     help_fd = 3, help_reads = [], all_devs = Inr [], ntop6 = (\<lambda>_. [])\<rparr>"

theorem sniffer_main_counts_witness:
  "\<exists>ev s. sniffer_main quiet_env [(CHR ''i'', bytes_of ''lo'', True)] 0 True [(replicate 24 0, 24)] = Some (ev, None, s) \<and> n_total s = 1"
proof -
  have "ld8 (replicate 24 0) (14 + 9) = Some 0" by (simp add: ld8_def)
  then obtain ev s where r: "sniffer_main quiet_env [(CHR ''i'', bytes_of ''lo'', True)] 0 True [(replicate 24 0, 24)] = Some (ev, None, s)"
    by (simp add: sniffer_main_def set_opt_def set_device_def quiet_env_def pckt_hndl_def Let_def)
  show ?thesis using sniffer_main_counts[OF r] r by auto
qed

end
