(* ===== verification/Packet_Bytes.thy ===== *)
theory Packet_Bytes
  imports Inet_Checksum
begin

text \<open>
  Reasoning about the stores that build a packet, for the programs that make one field by field:
  a store as the overwriting of a range (\<open>upd\<close>), a field as a range (\<open>sub\<close>), and what a group of
  stores leaves alone (\<open>frame\<close>). The checksum functions are given in the same form.
\<close>

section \<open>Ranges\<close>

text \<open>Overwriting and reading a range of a packet.\<close>

definition upd :: "byte list \<Rightarrow> nat \<Rightarrow> byte list \<Rightarrow> byte list" where
  "upd p i bs = take i p @ bs @ drop (i + length bs) p"

definition sub :: "byte list \<Rightarrow> nat \<Rightarrow> nat \<Rightarrow> byte list" where
  "sub p i n = take n (drop i p)"

lemma length_upd: "i + length bs \<le> length p \<Longrightarrow> length (upd p i bs) = length p"
  by (simp add: upd_def)

lemma length_sub: "i + n \<le> length p \<Longrightarrow> length (sub p i n) = n"
  by (simp add: sub_def)

lemma sub_same: "i + length bs \<le> length p \<Longrightarrow> n = length bs \<Longrightarrow> sub (upd p i bs) i n = bs"
  by (simp add: upd_def sub_def)

lemma nth_upd: "i + length bs \<le> length p \<Longrightarrow> k < length p \<Longrightarrow>
  upd p i bs ! k = (if i \<le> k \<and> k < i + length bs then bs ! (k - i) else p ! k)"
  by (auto simp: upd_def nth_append min_def)

lemma sub_other:
  assumes "i + length bs \<le> length p" "j + n \<le> i \<or> i + length bs \<le> j"
  shows "sub (upd p i bs) j n = sub p j n"
proof (rule nth_equalityI)
  show "length (sub (upd p i bs) j n) = length (sub p j n)" using assms(1) by (simp add: sub_def length_upd)
  fix k assume "k < length (sub (upd p i bs) j n)"
  then have k: "k < n" "j + k < length p" using assms(1) by (auto simp: sub_def length_upd)
  then show "sub (upd p i bs) j n ! k = sub p j n ! k"
    using assms by (auto simp: sub_def nth_upd length_upd)
qed

lemma store_rules:
  "i + length bs \<le> length p \<Longrightarrow> stn p i bs = Some (upd p i bs)"
  "i + 2 \<le> length p \<Longrightarrow> st16 p i w = Some (upd p i [lo8 w, hi8 w])"
  "i + 1 \<le> length p \<Longrightarrow> st8 p i b = Some (upd p i [b])"
  by (auto simp: stn_def st16_split st8_def upd_def upd_conv_take_nth_drop)

lemma load_rules:
  "i + n \<le> length p \<Longrightarrow> ldn p i n = Some (sub p i n)"
  "i + 2 \<le> length p \<Longrightarrow> ld16 p i = Some (le16 (p ! i) (p ! Suc i))"
  "i + 1 \<le> length p \<Longrightarrow> ld8 p i = Some (p ! i)"
  by (auto simp: ldn_def sub_def ld16_def ld8_def)

lemma sub_two: "i + 2 \<le> length p \<Longrightarrow> sub p i 2 = [p ! i, p ! Suc i]"
  by (simp add: sub_def numeral_2_eq_2 take_Suc_conv_app_nth hd_drop_conv_nth)

text \<open>\<open>q\<close> differs from \<open>p\<close> only in the bytes from \<open>lo\<close> to \<open>hi\<close>.\<close>

definition frame :: "nat \<Rightarrow> nat \<Rightarrow> byte list \<Rightarrow> byte list \<Rightarrow> bool" where
  "frame lo hi p q = (length q = length p \<and> (\<forall>j < length p. j < lo \<or> hi \<le> j \<longrightarrow> q ! j = p ! j))"

lemma frame_upd: "i + length bs \<le> length p \<Longrightarrow> lo \<le> i \<Longrightarrow> i + length bs \<le> hi \<Longrightarrow> frame lo hi p (upd p i bs)"
  by (auto simp: frame_def length_upd nth_upd)

lemma frame_trans: "frame lo hi p q \<Longrightarrow> frame lo hi q r \<Longrightarrow> frame lo hi p r"
  by (auto simp: frame_def)

lemma frame_step: "frame lo hi p q \<Longrightarrow> i + length bs \<le> length q \<Longrightarrow> lo \<le> i \<Longrightarrow> i + length bs \<le> hi \<Longrightarrow> frame lo hi p (upd q i bs)"
  using frame_trans frame_upd by blast

lemma frame_length: "frame lo hi p q \<Longrightarrow> length q = length p"
  by (simp add: frame_def)

lemma frame_sub: "frame lo hi p q \<Longrightarrow> j + n \<le> length p \<Longrightarrow> j + n \<le> lo \<or> hi \<le> j \<Longrightarrow> sub q j n = sub p j n"
  by (rule nth_equalityI) (auto simp: frame_def sub_def)

lemma frame_refl [simp]: "frame lo hi p p"
  by (simp add: frame_def)

lemma frame_nth: "frame lo hi p q \<Longrightarrow> j < length p \<Longrightarrow> j < lo \<or> hi \<le> j \<Longrightarrow> q ! j = p ! j"
  by (auto simp: frame_def)

text \<open>
  Rules for a chain of stores into a buffer of fixed length \<open>n\<close>. Each step records the length of the
  buffer it leaves, so that the conditions of later steps are solved by assumption.
\<close>

lemma stn_vc:
  "length p = n \<Longrightarrow> i + length bs \<le> n \<Longrightarrow> (length (upd p i bs) = n \<Longrightarrow> yields (f (upd p i bs)) Q) \<Longrightarrow>
   yields (Option.bind (stn p i bs) f) Q"
  using length_upd[of i bs p] by (simp add: store_rules)

lemma st16_vc:
  "length p = n \<Longrightarrow> i + 2 \<le> n \<Longrightarrow> (length (upd p i [lo8 w, hi8 w]) = n \<Longrightarrow> yields (f (upd p i [lo8 w, hi8 w])) Q) \<Longrightarrow>
   yields (Option.bind (st16 p i w) f) Q"
  using length_upd[of i "[lo8 w, hi8 w]" p] by (simp add: store_rules)

lemma st8_vc:
  "length p = n \<Longrightarrow> i + 1 \<le> n \<Longrightarrow> (length (upd p i [b]) = n \<Longrightarrow> yields (f (upd p i [b])) Q) \<Longrightarrow>
   yields (Option.bind (st8 p i b) f) Q"
  using length_upd[of i "[b]" p] by (simp add: store_rules)

lemmas store_vcs = stn_vc st16_vc st8_vc

section \<open>Checksums\<close>

lemma frame_st16: "st16 p i w = Some q \<Longrightarrow> frame i (i + 2) p q"
  by (auto simp: st16_def frame_def split: if_splits)

lemma ip_checksum_frame:
  assumes "ip_ihl p iph = Some ihl" "3 \<le> ihl" "iph + ihl * 4 \<le> length p"
  shows "\<exists>q. compute_ip_checksum p iph = Some q \<and> frame (iph + 10) (iph + 12) p q \<and> compute_checksum (drop iph q) (ihl * 4) = Some 0"
proof -
  obtain q where q: "compute_ip_checksum p iph = Some q" using compute_ip_checksum_total[OF assms(1,3)] assms(2,3) by auto
  then obtain p0 c where s: "st16 p (iph + 10) 0 = Some p0" "st16 p0 (iph + 10) c = Some q" by (rule compute_ip_checksumE)
  have "frame (iph + 10) (iph + 10 + 2) p q" by (rule frame_trans[OF frame_st16[OF s(1)] frame_st16[OF s(2)]])
  moreover have "iph + 10 + 2 = iph + 12" by simp
  ultimately have "frame (iph + 10) (iph + 12) p q" by (simp only:)
  then show ?thesis using q ip_checksum_verifies[OF q assms] by auto
qed

lemma icmp_checksum_frame:
  assumes "icmph + 8 \<le> length p"
  shows "\<exists>q. compute_icmp_checksum p icmph = Some q \<and> frame (icmph + 2) (icmph + 4) p q \<and> compute_checksum (drop icmph q) 8 = Some 0"
proof -
  obtain p0 where p0: "st16 p (icmph + 2) 0 = Some p0" using assms by (auto simp: st16_def)
  have cov: "covers (drop icmph p) 8" "covers (drop icmph p0) 8" using assms st16_length[OF p0] by (simp_all add: covers_def)
  then obtain c where c: "compute_checksum (drop icmph p0) 8 = Some c" using compute_checksum_wsum[of "drop icmph p0" 8] by auto
  obtain q where q: "st16 p0 (icmph + 2) c = Some q" using assms st16_length[OF p0] by (auto simp: st16_def)
  have "icmph + 2 + 2 = icmph + 4" by simp
  then have "frame (icmph + 2) (icmph + 4) p q" using frame_st16[OF p0] frame_st16[OF q] frame_trans by metis
  moreover have "compute_checksum (drop icmph q) 8 = Some 0"
    using cov(1) p0 c q by (intro checksum_roundtrip[where i = 2 and p = "drop icmph p" and c = c]) (auto simp: st16_drop)
  moreover have "compute_icmp_checksum p icmph = Some q" using p0 c q by (simp add: compute_icmp_checksum_def)
  ultimately show ?thesis by blast
qed

text \<open>The checksum of a block depends on its bytes only.\<close>

lemma compute_checksum_take:
  assumes "covers p n" "covers q n" "n < 2 ^ 32" "take n p = take n q"
  shows "compute_checksum p n = compute_checksum q n"
  using compute_checksum_wsum[OF assms(1,3)] compute_checksum_wsum[OF assms(2,3)] assms(4)
  by (auto simp: word_unat_eq_iff)

lemma frame_checksum:
  assumes "frame lo hi p q" "even n" "n < 2 ^ 32" "i + n \<le> length p" "i + n \<le> lo \<or> hi \<le> i"
  shows "compute_checksum (drop i q) n = compute_checksum (drop i p) n"
proof (rule compute_checksum_take)
  show "take n (drop i q) = take n (drop i p)" using frame_sub[OF assms(1,4,5)] by (simp add: sub_def)
qed (use assms frame_length[OF assms(1)] in \<open>auto simp: covers_def\<close>)

end
