(* ===== verification/Dns_Proxy.thy ===== *)
theory Dns_Proxy
  imports Packet_Bytes "HOL-Library.Tree" "HOL-Library.List_Lexorder"
begin

text \<open>
  The caching DNS proxy \<^verbatim>\<open>src/dns_proxy_server\<close>, a netfilter module: the record tree
  (\<^verbatim>\<open>search_dr\<close>, \<^verbatim>\<open>insert_dr\<close>), the two hooks and \<^verbatim>\<open>send_reply\<close>.

  The tree is a binary tree of records. The kernel's \<^verbatim>\<open>rb_insert_color\<close> is the parameter \<open>rebal\<close>;
  all the module relies on is that rebalancing keeps the in-order sequence. Other kernel code is
  a parameter too: \<open>fast_csum\<close> for \<^verbatim>\<open>ip_fast_csum\<close>, \<open>tail\<close> for the 16 bytes of tail room that
  \<^verbatim>\<open>skb_copy_expand\<close> adds. A socket buffer is the byte list from its network header on. \<open>None\<close> is an
  access outside a buffer; \<^verbatim>\<open>printk\<close> output is not modelled, but its reads of the name are.
\<close>

section \<open>Records and names\<close>

record dns_record =
  dr_name :: "byte list"
  dr_addr :: "byte list"
  dr_ttl :: "byte list"

text \<open>\<^verbatim>\<open>strcmp\<close> on two buffers: \<open>None\<close> when it runs off the end of one of them.\<close>

fun strcmp :: "byte list \<Rightarrow> byte list \<Rightarrow> int option" where
  "strcmp (a # as) (b # bs) =
     (if a \<noteq> b then Some (if a < b then -1 else 1) else if a = 0 then Some 0 else strcmp as bs)"
| "strcmp _ _ = None"

definition strlen :: "byte list \<Rightarrow> nat option" where
  "strlen s = (if 0 \<in> set s then Some (length (cstr s)) else None)"

text \<open>\<^verbatim>\<open>strncpy(dst, src, n)\<close>: copies up to the zero and fills with zeros; no zero is stored when
  the string has \<open>n\<close> characters or more.\<close>

definition strncpy :: "byte list \<Rightarrow> nat \<Rightarrow> byte list option" where
  "strncpy src n =
     (if 0 \<in> set src then Some (take n (cstr src @ replicate n 0))
      else if n \<le> length src then Some (take n src) else None)"

section \<open>The record tree\<close>

fun search_dr :: "dns_record tree \<Rightarrow> byte list \<Rightarrow> dns_record option option" where
  "search_dr \<langle>\<rangle> name = Some None"
| "search_dr \<langle>l, data, r\<rangle> name = do {
     result \<leftarrow> strcmp name (dr_name data);
     if result < 0 then search_dr l name
     else if result > 0 then search_dr r name
     else Some (Some data) }"

text \<open>The descent of \<^verbatim>\<open>insert_dr\<close> with \<^verbatim>\<open>rb_link_node\<close> at its end; \<open>Some None\<close> when the name is
  there already.\<close>

fun link_dr :: "dns_record tree \<Rightarrow> dns_record \<Rightarrow> dns_record tree option option" where
  "link_dr \<langle>\<rangle> data = Some (Some \<langle>\<langle>\<rangle>, data, \<langle>\<rangle>\<rangle>)"
| "link_dr \<langle>l, this, r\<rangle> data = do {
     result \<leftarrow> strcmp (dr_name data) (dr_name this);
     if result < 0 then map_option (map_option (\<lambda>l. \<langle>l, this, r\<rangle>)) (link_dr l data)
     else if result > 0 then map_option (map_option (\<lambda>r. \<langle>l, this, r\<rangle>)) (link_dr r data)
     else Some None }"

definition insert_dr ::
  "(dns_record tree \<Rightarrow> dns_record tree) \<Rightarrow> dns_record tree \<Rightarrow> dns_record \<Rightarrow> (int \<times> dns_record tree) option" where
  "insert_dr rebal t data = do {
     r \<leftarrow> link_dr t data;
     case r of None \<Rightarrow> Some (0, t) | Some t \<Rightarrow> Some (1, rebal t) }"

section \<open>The hooks\<close>

datatype verdict = NF_ACCEPT | NF_DROP | ENOMEM_VERDICT

text \<open>The guards both hooks share: an IPv4 UDP packet whose port field at \<open>off\<close> in the UDP
  header is 53. The result is the offset of the UDP header.\<close>

definition dns_packet :: "u16 \<Rightarrow> byte list \<Rightarrow> nat \<Rightarrow> nat option option" where
  "dns_packet protocol skb off =
     (if protocol \<noteq> htons 0x0800 then Some None
      else do {
        b0 \<leftarrow> ld8 skb 0;
        proto \<leftarrow> ld8 skb 9;
        if drop_bit 4 b0 \<noteq> 4 \<or> proto \<noteq> 17 then Some None
        else do {
          let udp = unat (b0 AND 0x0F) * 4;
          port \<leftarrow> ld16 skb (udp + off);
          if port \<noteq> ntohs 53 then Some None else Some (Some udp) } })"

text \<open>The four parts of \<^verbatim>\<open>send_reply\<close>: the IP header, the UDP header at \<open>udph\<close>, the DNS header
  behind it, and the answer record at \<open>ans\<close>.\<close>

definition reply_ip :: "(byte list \<Rightarrow> nat \<Rightarrow> u16) \<Rightarrow> byte list \<Rightarrow> byte list option" where
  "reply_ip fast_csum p = do {
     tot_len \<leftarrow> ld16 p 2;
     p \<leftarrow> st16 p 2 (htons (ntohs tot_len + 16));
     p \<leftarrow> st8 p 8 255;
     p \<leftarrow> st16 p 10 0;
     saddr \<leftarrow> ldn p 12 4;
     daddr \<leftarrow> ldn p 16 4;
     p \<leftarrow> stn p 12 daddr;
     p \<leftarrow> stn p 16 saddr;
     ihl \<leftarrow> ip_ihl p 0;
     st16 p 10 (fast_csum p ihl) }"

definition reply_udp :: "nat \<Rightarrow> byte list \<Rightarrow> byte list option" where
  "reply_udp udph p = do {
     len \<leftarrow> ld16 p (udph + 4);
     p \<leftarrow> st16 p (udph + 4) (htons (ntohs len + 16));
     source \<leftarrow> ldn p udph 2;
     dest \<leftarrow> ldn p (udph + 2) 2;
     p \<leftarrow> stn p udph dest;
     stn p (udph + 2) source }"

definition reply_dns :: "nat \<Rightarrow> byte list \<Rightarrow> byte list option" where
  "reply_dns dnsh p = do {
     f1 \<leftarrow> ld8 p (dnsh + 2);
     p \<leftarrow> st8 p (dnsh + 2) (f1 OR 0x80 OR 0x01);
     f2 \<leftarrow> ld8 p (dnsh + 3);
     p \<leftarrow> st8 p (dnsh + 3) ((f2 OR 0x80) AND 0xDF);
     p \<leftarrow> st16 p (dnsh + 4) (htons 1);
     p \<leftarrow> st16 p (dnsh + 6) (htons 1);
     p \<leftarrow> st16 p (dnsh + 8) (htons 0);
     st16 p (dnsh + 10) (htons 0) }"

definition reply_answer :: "nat \<Rightarrow> dns_record \<Rightarrow> byte list \<Rightarrow> byte list option" where
  "reply_answer ans record p = do {
     p \<leftarrow> st16 p ans 0x0CC0;
     p \<leftarrow> st16 p (ans + 2) (htons 1);
     p \<leftarrow> st16 p (ans + 4) (htons 1);
     p \<leftarrow> stn p (ans + 6) (dr_ttl record);
     p \<leftarrow> st16 p (ans + 10) (htons 4);
     stn p (ans + 12) (dr_addr record) }"

text \<open>\<open>tail\<close> is what \<^verbatim>\<open>skb_copy_expand\<close> did: \<open>Some t\<close> when it returned a copy of the request with
  room for the 16 bytes \<open>t\<close> behind it, \<open>None\<close> when it returned \<^verbatim>\<open>NULL\<close>, which \<^verbatim>\<open>send_reply\<close> does not
  check: the next line dereferences it.\<close>

definition send_reply ::
  "(byte list \<Rightarrow> nat \<Rightarrow> u16) \<Rightarrow> byte list option \<Rightarrow> byte list \<Rightarrow> nat \<Rightarrow> dns_record \<Rightarrow> byte list option" where
  "send_reply fast_csum tail dns_request udph record = do {
     t \<leftarrow> tail;
     n \<leftarrow> strlen (dr_name record);
     let p = dns_request @ t;
     p \<leftarrow> reply_ip fast_csum p;
     p \<leftarrow> reply_udp udph p;
     p \<leftarrow> reply_dns (udph + 8) p;
     reply_answer (udph + 8 + 12 + n + 5) record p }"

record dns_state =
  dr_tree :: "dns_record tree"
  leaked :: nat
  sent :: "byte list list"

text \<open>
  \<open>mem_ok\<close>: \<^verbatim>\<open>kmalloc\<close> succeeds. The record \<^verbatim>\<open>dns_request_hook\<close> allocates is neither used nor freed;
  \<open>leaked\<close> counts these. The name is the question's name, at the first byte behind the DNS header.
\<close>

definition dns_request_hook ::
  "(byte list \<Rightarrow> nat \<Rightarrow> u16) \<Rightarrow> byte list option \<Rightarrow> bool \<Rightarrow> u16 \<Rightarrow> byte list \<Rightarrow> dns_state \<Rightarrow> (verdict \<times> dns_state) option" where
  "dns_request_hook fast_csum tail mem_ok protocol skb s = do {
     r \<leftarrow> dns_packet protocol skb 2;
     case r of
       None \<Rightarrow> Some (NF_ACCEPT, s)
     | Some udp \<Rightarrow> do {
         _ \<leftarrow> ld16 skb (udp + 8);
         let name = drop (udp + 8 + 12) skb;
         _ \<leftarrow> strlen name;
         if \<not> mem_ok then Some (ENOMEM_VERDICT, s)
         else do {
           let s = s\<lparr>leaked := Suc (leaked s)\<rparr>;
           hit \<leftarrow> search_dr (dr_tree s) name;
           case hit of
             None \<Rightarrow> Some (NF_ACCEPT, s)
           | Some record \<Rightarrow> do {
               reply \<leftarrow> send_reply fast_csum tail skb udp record;
               Some (NF_DROP, s\<lparr>sent := sent s @ [reply]\<rparr>) } } } }"

definition dns_reply_hook ::
  "(dns_record tree \<Rightarrow> dns_record tree) \<Rightarrow> bool \<Rightarrow> u16 \<Rightarrow> byte list \<Rightarrow> dns_state \<Rightarrow> (verdict \<times> dns_state) option" where
  "dns_reply_hook rebal mem_ok protocol skb s = do {
     r \<leftarrow> dns_packet protocol skb 0;
     case r of
       None \<Rightarrow> Some (NF_ACCEPT, s)
     | Some udp \<Rightarrow> do {
         _ \<leftarrow> ld16 skb (udp + 8);
         let qinfo = udp + 8 + 12;
         let name = drop qinfo skb;
         n \<leftarrow> strlen name;
         let ans = qinfo + n + 5;
         rdata \<leftarrow> ldn skb (ans + 12) 4;
         hit \<leftarrow> search_dr (dr_tree s) name;
         case hit of
           Some _ \<Rightarrow> Some (NF_ACCEPT, s)
         | None \<Rightarrow>
             if \<not> mem_ok then Some (ENOMEM_VERDICT, s)
             else do {
               buf \<leftarrow> strncpy name 256;
               ttl \<leftarrow> ldn skb (ans + 6) 4;
               let data = \<lparr>dr_name = buf, dr_addr = rdata, dr_ttl = ttl\<rparr>;
               _ \<leftarrow> strlen buf;
               (_, t) \<leftarrow> insert_dr rebal (dr_tree s) data;
               Some (NF_ACCEPT, s\<lparr>dr_tree := t\<rparr>) } } }"

section \<open>The tree as a map\<close>

definition terminated :: "byte list \<Rightarrow> bool" where
  "terminated s = (0 \<in> set s)"

definition key :: "dns_record \<Rightarrow> byte list" where
  "key r = cstr (dr_name r)"

definition dr_inv :: "dns_record tree \<Rightarrow> bool" where
  "dr_inv t = (sorted_wrt (<) (map key (inorder t)) \<and> (\<forall>r \<in> set_tree t. terminated (dr_name r)))"

definition dr_map :: "dns_record tree \<Rightarrow> byte list \<rightharpoonup> dns_record" where
  "dr_map t = map_of (map (\<lambda>r. (key r, r)) (inorder t))"

lemma cstr_Cons: "cstr (a # as) = (if a = 0 then [] else a # cstr as)"
  by (simp add: cstr_def)

lemma strcmp_order:
  "terminated a \<Longrightarrow> terminated b \<Longrightarrow>
   \<exists>c. strcmp a b = Some c \<and> (c < 0 \<longleftrightarrow> cstr a < cstr b) \<and> (c > 0 \<longleftrightarrow> cstr b < cstr a)"
proof (induction a b rule: strcmp.induct)
  case (1 a as b bs)
  show ?case
  proof (cases "a = b")
    case True
    then show ?thesis using 1 by (auto simp: terminated_def cstr_Cons)
  next
    case False
    then have "a < b \<or> b < a" by auto
    then show ?thesis using False by (auto simp: cstr_Cons word_gt_0)
  qed
qed (auto simp: terminated_def)

lemma strcmpE:
  assumes "terminated a" "terminated b"
  obtains c where "strcmp a b = Some c" "c < 0 \<longleftrightarrow> cstr a < cstr b" "c > 0 \<longleftrightarrow> cstr b < cstr a"
  using strcmp_order[OF assms] by blast

lemma dr_inv_Node:
  "dr_inv \<langle>l, d, r\<rangle> \<longleftrightarrow> dr_inv l \<and> dr_inv r \<and> terminated (dr_name d) \<and>
     (\<forall>x \<in> set_tree l. key x < key d) \<and> (\<forall>x \<in> set_tree r. key d < key x)"
proof -
  have "x < key d \<Longrightarrow> key d < y \<Longrightarrow> x < y" for x y by (rule less_trans)
  then show ?thesis unfolding dr_inv_def
    by (auto simp: sorted_wrt_append)
qed

lemma dr_map_simps: "dr_map \<langle>\<rangle> = Map.empty" "dr_map \<langle>l, d, r\<rangle> = dr_map r ++ [key d \<mapsto> d] ++ dr_map l"
  by (auto simp: dr_map_def)

lemma dr_map_None: "(\<forall>x \<in> set_tree t. key x \<noteq> k) \<Longrightarrow> dr_map t k = None"
  by (auto simp: dr_map_def map_of_eq_None_iff)

lemma search_dr_map:
  assumes "terminated name"
  shows "dr_inv t \<Longrightarrow> search_dr t name = Some (dr_map t (cstr name))"
proof (induction t)
  case (Node l d r)
  have inv: "dr_inv l" "dr_inv r" "terminated (dr_name d)" "\<forall>x \<in> set_tree l. key x < key d" "\<forall>x \<in> set_tree r. key d < key x"
    using Node.prems dr_inv_Node by blast+
  obtain c where c: "strcmp name (dr_name d) = Some c" "c < 0 \<longleftrightarrow> cstr name < key d" "c > 0 \<longleftrightarrow> key d < cstr name"
    using strcmpE[OF assms inv(3)] by (auto simp: key_def)
  have l: "dr_map l (cstr name) = None" if "key d \<le> cstr name"
    using inv(4) that by (intro dr_map_None) fastforce
  have r: "dr_map r (cstr name) = None" if "cstr name \<le> key d"
    using inv(5) that by (intro dr_map_None) fastforce
  consider "cstr name < key d" | "cstr name = key d" | "key d < cstr name" by (metis less_linear)
  then show ?case
  proof cases
    case 1
    then show ?thesis using c Node.IH(1) inv(1) r by (auto simp: dr_map_simps map_add_def split: option.splits)
  next
    case 2
    then show ?thesis using c l by (auto simp: dr_map_simps map_add_def)
  next
    case 3
    then show ?thesis using c Node.IH(2) inv(2) l by (auto simp: dr_map_simps map_add_def split: option.splits)
  qed
qed (simp add: dr_map_simps)

lemma link_dr_spec:
  assumes "terminated (dr_name data)"
  shows "dr_inv t \<Longrightarrow>
    (if dr_map t (key data) = None
     then \<exists>t' ys zs. link_dr t data = Some (Some t') \<and> inorder t = ys @ zs \<and> inorder t' = ys @ data # zs \<and>
       (\<forall>y \<in> set ys. key y < key data) \<and> (\<forall>z \<in> set zs. key data < key z)
     else link_dr t data = Some None)"
proof (induction t)
  case (Node l d r)
  have inv: "dr_inv l" "dr_inv r" "terminated (dr_name d)" "\<forall>x \<in> set_tree l. key x < key d" "\<forall>x \<in> set_tree r. key d < key x"
    using Node.prems dr_inv_Node by blast+
  obtain c where c: "strcmp (dr_name data) (dr_name d) = Some c" "c < 0 \<longleftrightarrow> key data < key d" "c > 0 \<longleftrightarrow> key d < key data"
    using strcmpE[OF assms inv(3)] by (auto simp: key_def)
  have l: "dr_map l (key data) = None" if "key d \<le> key data"
    using inv(4) that by (intro dr_map_None) fastforce
  have r: "dr_map r (key data) = None" if "key data \<le> key d"
    using inv(5) that by (intro dr_map_None) fastforce
  consider "key data < key d" | "key data = key d" | "key d < key data" by (metis less_linear)
  then show ?case
  proof cases
    case 1
    have m: "dr_map \<langle>l, d, r\<rangle> (key data) = dr_map l (key data)"
      using 1 r by (auto simp: dr_map_simps map_add_def split: option.splits)
    have z: "\<forall>z \<in> set_tree r. key data < key z" using 1 inv(5) by (metis less_trans)
    show ?thesis
    proof (cases "dr_map l (key data) = None")
      case True
      then obtain t' ys zs where *: "link_dr l data = Some (Some t')" "inorder l = ys @ zs" "inorder t' = ys @ data # zs"
        "\<forall>y \<in> set ys. key y < key data" "\<forall>z \<in> set zs. key data < key z"
        using Node.IH(1)[OF inv(1)] by auto
      then have "inorder \<langle>l, d, r\<rangle> = ys @ (zs @ d # inorder r)" "inorder \<langle>t', d, r\<rangle> = ys @ data # (zs @ d # inorder r)"
        by simp_all
      moreover have "link_dr \<langle>l, d, r\<rangle> data = Some (Some \<langle>t', d, r\<rangle>)" using * c 1 by simp
      moreover have "\<forall>z \<in> set (zs @ d # inorder r). key data < key z" using * z 1 by auto
      ultimately show ?thesis using m True *(4) by metis
    next
      case False
      then show ?thesis using Node.IH(1)[OF inv(1)] m c 1 by auto
    qed
  next
    case 2
    then show ?thesis using c l by (auto simp: dr_map_simps map_add_def)
  next
    case 3
    have m: "dr_map \<langle>l, d, r\<rangle> (key data) = dr_map r (key data)"
      using 3 l by (auto simp: dr_map_simps map_add_def split: option.splits)
    have y: "\<forall>y \<in> set_tree l. key y < key data" using 3 inv(4) by (metis less_trans)
    show ?thesis
    proof (cases "dr_map r (key data) = None")
      case True
      then obtain t' ys zs where *: "link_dr r data = Some (Some t')" "inorder r = ys @ zs" "inorder t' = ys @ data # zs"
        "\<forall>y \<in> set ys. key y < key data" "\<forall>z \<in> set zs. key data < key z"
        using Node.IH(2)[OF inv(2)] by auto
      then have "inorder \<langle>l, d, r\<rangle> = (inorder l @ d # ys) @ zs" "inorder \<langle>l, d, t'\<rangle> = (inorder l @ d # ys) @ data # zs"
        by simp_all
      moreover have "link_dr \<langle>l, d, r\<rangle> data = Some (Some \<langle>l, d, t'\<rangle>)" using * c 3 by simp
      moreover have "\<forall>z \<in> set (inorder l @ d # ys). key z < key data" using * y 3 by auto
      ultimately show ?thesis using m True *(5) by metis
    next
      case False
      then show ?thesis using Node.IH(2)[OF inv(2)] m c 3 by auto
    qed
  qed
qed (simp add: dr_map_simps)

lemma insert_dr_map:
  assumes rebal: "\<And>t. inorder (rebal t) = inorder t" and inv: "dr_inv t" and data: "terminated (dr_name data)"
  shows "\<exists>n t'. insert_dr rebal t data = Some (n, t') \<and> dr_inv t' \<and>
    (if dr_map t (key data) = None then n = 1 \<and> dr_map t' = (dr_map t)(key data \<mapsto> data) else n = 0 \<and> t' = t)"
proof (cases "dr_map t (key data) = None")
  case True
  then obtain t1 ys zs where *: "link_dr t data = Some (Some t1)" "inorder t = ys @ zs" "inorder t1 = ys @ data # zs"
    "\<forall>y \<in> set ys. key y < key data" "\<forall>z \<in> set zs. key data < key z"
    using link_dr_spec[OF data inv] by auto
  have "dr_inv (rebal t1)"
  proof -
    have s: "set_tree (rebal t1) = insert data (set_tree t)"
      using * rebal[of t1] set_inorder[of "rebal t1"] set_inorder[of t] by auto
    have "sorted_wrt (<) (map key (ys @ zs))" using inv *(2) by (simp add: dr_inv_def)
    then have "sorted_wrt (<) (map key (ys @ data # zs))" using *(4,5) by (auto simp: sorted_wrt_append)
    then show ?thesis using inv data s *(3) rebal[of t1] by (auto simp: dr_inv_def)
  qed
  moreover have "dr_map (rebal t1) = (dr_map t)(key data \<mapsto> data)"
  proof -
    have "map_of (map (\<lambda>r. (key r, r)) ys) (key data) = None" using *(4) by (auto simp: map_of_eq_None_iff)
    then show ?thesis using *(2,3) rebal[of t1]
      by (auto simp: dr_map_def map_add_def fun_eq_iff split: option.splits)
  qed
  ultimately show ?thesis using True *(1) by (auto simp: insert_dr_def)
next
  case False
  then show ?thesis using link_dr_spec[OF data inv] inv by (auto simp: insert_dr_def)
qed

section \<open>The reply packet\<close>

lemma strlen_eq: "strlen s = Some n \<Longrightarrow> terminated s \<and> length (cstr s) = n"
  by (auto simp: strlen_def terminated_def split: if_splits)

lemma reply_ip_spec:
  assumes L: "20 \<le> length p"
  shows "\<exists>q. reply_ip fast_csum p = Some q \<and> frame 0 20 p q \<and> sub q 12 4 = sub p 16 4 \<and> sub q 16 4 = sub p 12 4"
proof -
  define w where "w = htons (le16 (p ! 3) (p ! 2) + 16)"
  define q1 where "q1 = upd (upd (upd p 2 [lo8 w, hi8 w]) 8 [255]) 10 [0, 0]"
  have f1: "frame 0 20 p q1" "length q1 = length p" using L by (auto simp: q1_def length_upd intro!: frame_step)
  have s1: "sub q1 j 4 = sub p j 4" if "j = 12 \<or> j = 16" for j using that L by (auto simp: q1_def sub_other length_upd)
  define q2 where "q2 = upd (upd q1 12 (sub p 16 4)) 16 (sub p 12 4)"
  have ls: "length (sub p 16 4) = 4" "length (sub p 12 4) = 4" using L by (auto simp: length_sub)
  have f2: "frame 0 20 p q2" "length q2 = length p"
    using L f1 ls by (auto simp: q2_def length_upd intro!: frame_step)
  have s2: "sub q2 12 4 = sub p 16 4" "sub q2 16 4 = sub p 12 4"
    using L f1(2) ls by (simp_all add: q2_def sub_other sub_same length_upd)
  define c where "c = fast_csum q2 (unat (q2 ! 0 AND 0x0F))"
  have "reply_ip fast_csum p = Some (upd q2 10 [lo8 c, hi8 c])"
    using L f1(2) f2(2) ls s1
    by (simp add: reply_ip_def store_rules load_rules length_upd ip_ihl_def c_def flip: w_def q1_def q2_def)
  moreover have "frame 0 20 p (upd q2 10 [lo8 c, hi8 c])" using L f2 by (intro frame_step) auto
  moreover have "sub (upd q2 10 [lo8 c, hi8 c]) j 4 = sub q2 j 4" if "j = 12 \<or> j = 16" for j
    using that L f2(2) by (auto simp: sub_other)
  ultimately show ?thesis using s2 by auto
qed


lemma reply_udp_spec:
  assumes L: "udph + 8 \<le> length p"
  shows "\<exists>q. reply_udp udph p = Some q \<and> frame udph (udph + 6) p q \<and>
    sub q udph 2 = sub p (udph + 2) 2 \<and> sub q (udph + 2) 2 = sub p udph 2"
proof -
  define w where "w = htons (ntohs (le16 (p ! (udph + 4)) (p ! Suc (udph + 4))) + 16)"
  define q1 where "q1 = upd p (udph + 4) [lo8 w, hi8 w]"
  have f1: "frame udph (udph + 6) p q1" "length q1 = length p" using L by (auto simp: q1_def length_upd intro!: frame_step)
  have s1: "sub q1 udph 2 = sub p udph 2" "sub q1 (udph + 2) 2 = sub p (udph + 2) 2"
    using L by (auto simp: q1_def sub_other)
  have ls: "length (sub p udph 2) = 2" "length (sub p (udph + 2) 2) = 2" using L by (auto simp: length_sub)
  let ?q = "upd (upd q1 udph (sub p (udph + 2) 2)) (udph + 2) (sub p udph 2)"
  have a: "st16 p (udph + 4) w = Some q1" using L by (simp add: store_rules q1_def)
  have b: "ld16 p (udph + 4) = Some (le16 (p ! (udph + 4)) (p ! Suc (udph + 4)))" using L by (simp add: load_rules)
  have c: "ldn q1 udph 2 = Some (sub p udph 2)" "ldn q1 (udph + 2) 2 = Some (sub p (udph + 2) 2)"
    using L f1(2) s1 load_rules(1)[of udph 2 q1] load_rules(1)[of "udph + 2" 2 q1] by simp_all
  have d: "stn q1 udph (sub p (udph + 2) 2) = Some (upd q1 udph (sub p (udph + 2) 2))"
    "stn (upd q1 udph (sub p (udph + 2) 2)) (udph + 2) (sub p udph 2) = Some ?q"
    using L f1(2) ls by (simp_all add: store_rules length_upd)
  have "reply_udp udph p = Some ?q"
    unfolding reply_udp_def b Option.bind.simps w_def[symmetric] a c d by (simp only: c d Option.bind.simps)
  moreover have "frame udph (udph + 6) p ?q" using L f1 ls by (intro frame_step) (auto simp: length_upd)
  moreover have "sub ?q udph 2 = sub p (udph + 2) 2" "sub ?q (udph + 2) 2 = sub p udph 2"
    using L f1(2) ls by (simp_all add: sub_other sub_same length_upd)
  ultimately show ?thesis by blast
qed

lemma reply_dns_spec:
  assumes L: "dnsh + 12 \<le> length p"
  shows "\<exists>q. reply_dns dnsh p = Some q \<and> frame (dnsh + 2) (dnsh + 12) p q"
proof -
  show ?thesis
    using L by (simp add: reply_dns_def store_rules load_rules length_upd frame_step)
qed

lemma reply_answer_spec:
  assumes L: "ans + 16 \<le> length p" and rec: "length (dr_addr record) = 4" "length (dr_ttl record) = 4"
  shows "\<exists>q. reply_answer ans record p = Some q \<and> frame ans (ans + 16) p q \<and>
    sub q ans 6 = [0xC0, 0x0C, 0, 1, 0, 1] \<and> sub q (ans + 6) 4 = dr_ttl record \<and> sub q (ans + 10) 2 = [0, 4] \<and>
    sub q (ans + 12) 4 = dr_addr record"
proof -
  have k: "lo8 0x0CC0 = 0xC0" "hi8 0x0CC0 = 0x0C" "lo8 (swap16 1) = 0" "hi8 (swap16 1) = 1"
    "lo8 (swap16 4) = 0" "hi8 (swap16 4) = 4" by (simp_all add: lo8_def hi8_def swap16_def)
  define q1 where "q1 = upd (upd (upd p ans [0xC0, 0x0C]) (ans + 2) [0, 1]) (ans + 4) [0, 1]"
  have f1: "frame ans (ans + 16) p q1" "length q1 = length p" using L by (auto simp: q1_def length_upd intro!: frame_step)
  have s1: "sub q1 ans 6 = [0xC0, 0x0C, 0, 1, 0, 1]"
    using L by (auto simp: list_eq_iff_nth_eq sub_def q1_def length_upd nth_upd less_Suc_eq numeral_eq_Suc)
  define q2 where "q2 = upd q1 (ans + 6) (dr_ttl record)"
  define q3 where "q3 = upd q2 (ans + 10) [0, 4]"
  define q4 where "q4 = upd q3 (ans + 12) (dr_addr record)"
  have l: "length q2 = length p" "length q3 = length p" "length q4 = length p"
    using L f1(2) rec by (simp_all add: q2_def q3_def q4_def length_upd)
  have "reply_answer ans record p = Some q4"
    using L f1(2) l rec
    by (simp add: reply_answer_def store_rules length_upd k q4_def q3_def q2_def q1_def)
  moreover have "frame ans (ans + 16) p q4"
    unfolding q4_def q3_def q2_def using L f1 l rec by (intro frame_step) (simp_all add: length_upd)
  moreover have "sub q4 ans 6 = [0xC0, 0x0C, 0, 1, 0, 1]" "sub q4 (ans + 6) 4 = dr_ttl record"
    "sub q4 (ans + 10) 2 = [0, 4]" "sub q4 (ans + 12) 4 = dr_addr record"
    using L f1(2) l rec s1 by (simp_all add: q4_def q3_def q2_def sub_other sub_same length_upd)
  ultimately show ?thesis by blast
qed

text \<open>The fields of the reply to a request that holds a whole question for the record's name.\<close>

definition good_reply :: "byte list \<Rightarrow> nat \<Rightarrow> dns_record \<Rightarrow> byte list \<Rightarrow> bool" where
  "good_reply req udph record p = (let ans = udph + 20 + length (key record) + 5 in
     length p = length req + 16 \<and>
     sub p 12 4 = sub req 16 4 \<and> sub p 16 4 = sub req 12 4 \<and>
     sub p udph 2 = sub req (udph + 2) 2 \<and> sub p (udph + 2) 2 = sub req udph 2 \<and>
     sub p (udph + 6) 4 = sub req (udph + 6) 4 \<and>
     sub p (udph + 20) (length (key record) + 5) = sub req (udph + 20) (length (key record) + 5) \<and>
     sub p ans 6 = [0xC0, 0x0C, 0, 1, 0, 1] \<and> sub p (ans + 6) 4 = dr_ttl record \<and>
     sub p (ans + 10) 2 = [0, 4] \<and> sub p (ans + 12) 4 = dr_addr record)"

lemma send_reply_no_copy [simp]: "send_reply fast_csum None req udph record = None"
  by (simp add: send_reply_def)

lemma send_reply_spec:
  assumes "20 \<le> udph" "udph + 20 + length (key record) + 5 \<le> length req" "length tail = 16"
    and "terminated (dr_name record)" "length (dr_addr record) = 4" "length (dr_ttl record) = 4"
  shows "yields (send_reply fast_csum (Some tail) req udph record) (good_reply req udph record)"
proof -
  define n where "n = length (key record)"
  have n: "strlen (dr_name record) = Some n" using assms(4) by (simp add: strlen_def terminated_def key_def n_def)
  define p0 where "p0 = req @ tail"
  have L: "length p0 = length req + 16" "udph + 20 + n + 5 + 16 \<le> length p0" using assms by (simp_all add: p0_def n_def)
  obtain p1 where p1: "reply_ip fast_csum p0 = Some p1" "frame 0 20 p0 p1" "sub p1 12 4 = sub p0 16 4" "sub p1 16 4 = sub p0 12 4"
    using reply_ip_spec[of p0 fast_csum] L assms(1) by auto
  obtain p2 where p2: "reply_udp udph p1 = Some p2" "frame udph (udph + 6) p1 p2"
    "sub p2 udph 2 = sub p1 (udph + 2) 2" "sub p2 (udph + 2) 2 = sub p1 udph 2"
    using reply_udp_spec[of udph p1] L frame_length[OF p1(2)] by auto
  obtain p3 where p3: "reply_dns (udph + 8) p2 = Some p3" "frame (udph + 10) (udph + 20) p2 p3"
    using reply_dns_spec[of "udph + 8" p2] L frame_length[OF p1(2)] frame_length[OF p2(2)] by (auto simp: numeral_eq_Suc)
  obtain p4 where p4: "reply_answer (udph + 20 + n + 5) record p3 = Some p4"
    "frame (udph + 20 + n + 5) (udph + 20 + n + 5 + 16) p3 p4" "sub p4 (udph + 20 + n + 5) 6 = [0xC0, 0x0C, 0, 1, 0, 1]"
    "sub p4 (udph + 20 + n + 5 + 6) 4 = dr_ttl record" "sub p4 (udph + 20 + n + 5 + 10) 2 = [0, 4]"
    "sub p4 (udph + 20 + n + 5 + 12) 4 = dr_addr record"
    using reply_answer_spec[of "udph + 20 + n + 5" p3 "record"] L assms(5,6)
      frame_length[OF p1(2)] frame_length[OF p2(2)] frame_length[OF p3(2)] by auto
  note ls = frame_length[OF p1(2)] frame_length[OF p2(2)] frame_length[OF p3(2)] frame_length[OF p4(2)]
  have call: "send_reply fast_csum (Some tail) req udph record = Some p4"
    using n p1(1) p2(1) p3(1) p4(1) by (simp add: send_reply_def add.assoc flip: p0_def)
  have orig: "sub p0 j m = sub req j m" if "j + m \<le> length req" for j m using that by (simp add: p0_def sub_def)
  have ip: "sub p4 j 4 = sub p1 j 4" if "j = 12 \<or> j = 16" for j
    using that assms(1) L ls frame_sub[OF p4(2), of j 4] frame_sub[OF p3(2), of j 4] frame_sub[OF p2(2), of j 4] by auto
  have udp: "sub p4 j 2 = sub p2 j 2" if "j = udph \<or> j = udph + 2" for j
    using that assms(1) L ls frame_sub[OF p4(2), of j 2] frame_sub[OF p3(2), of j 2] by auto
  have udp1: "sub p1 j 2 = sub p0 j 2" if "j = udph \<or> j = udph + 2" for j
    using that assms(1) L ls frame_sub[OF p1(2), of j 2] by auto
  have rest: "sub p4 j m = sub p0 j m" if "j = udph + 6 \<and> m = 4 \<or> j = udph + 20 \<and> m = n + 5" for j m
    using that assms(1) L ls frame_sub[OF p4(2), of j m] frame_sub[OF p3(2), of j m] frame_sub[OF p2(2), of j m]
      frame_sub[OF p1(2), of j m] by auto
  have "good_reply req udph record p4"
    unfolding good_reply_def Let_def n_def[symmetric]
  proof (intro conjI)
    show "length p4 = length req + 16" using ls L(1) by simp
    show "sub p4 12 4 = sub req 16 4" "sub p4 16 4 = sub req 12 4"
      using ip p1(3,4) orig assms(1,2) by auto
    show "sub p4 udph 2 = sub req (udph + 2) 2" "sub p4 (udph + 2) 2 = sub req udph 2"
      using udp udp1 p2(3,4) orig assms(2) by auto
    show "sub p4 (udph + 6) 4 = sub req (udph + 6) 4" "sub p4 (udph + 20) (n + 5) = sub req (udph + 20) (n + 5)"
      using rest orig assms(2) by (auto simp: n_def)
  qed (use p4 in auto)
  then show ?thesis using call by simp
qed

section \<open>The cache\<close>

definition dr_ok :: "dns_record tree \<Rightarrow> bool" where
  "dr_ok t = (dr_inv t \<and> (\<forall>r \<in> set_tree t. length (dr_addr r) = 4 \<and> length (dr_ttl r) = 4))"

lemma dr_map_SomeD: "dr_map t k = Some r \<Longrightarrow> r \<in> set_tree t \<and> key r = k"
  by (auto simp: dr_map_def dest!: map_of_SomeD)

lemma set_tree_map: "dr_inv t \<Longrightarrow> r \<in> set_tree t \<Longrightarrow> dr_map t (key r) = Some r"
proof -
  assume inv: "dr_inv t" and r: "r \<in> set_tree t"
  have "distinct (map key (inorder t))" using inv by (simp add: dr_inv_def strict_sorted_iff)
  then show ?thesis using r unfolding dr_map_def by (intro map_of_is_SomeI) (auto simp: comp_def)
qed

lemma dr_ok_insert:
  assumes "dr_ok t" "dr_inv t'" "dr_map t' = (dr_map t)(key d \<mapsto> d)" "length (dr_addr d) = 4" "length (dr_ttl d) = 4"
  shows "dr_ok t'"
proof -
  have *: "r = d \<or> r \<in> set_tree t" if "r \<in> set_tree t'" for r
  proof (cases "key r = key d")
    case True
    have "((dr_map t)(key d \<mapsto> d)) (key r) = Some r"
      by (rule trans[OF fun_cong[OF assms(3)[symmetric]] set_tree_map[OF assms(2) that]])
    then show ?thesis by (simp add: True)
  next
    case False
    have "((dr_map t)(key d \<mapsto> d)) (key r) = Some r"
      by (rule trans[OF fun_cong[OF assms(3)[symmetric]] set_tree_map[OF assms(2) that]])
    then have "dr_map t (key r) = Some r" using False by (metis fun_upd_other)
    then show ?thesis using dr_map_SomeD by blast
  qed
  have "length (dr_addr r) = 4 \<and> length (dr_ttl r) = 4" if "r \<in> set_tree t'" for r
    using *[OF that] assms(1,4,5) by (auto simp: dr_ok_def)
  then show ?thesis using assms(2) by (simp add: dr_ok_def)
qed

text \<open>The record an answer packet gives, with its UDP header at \<open>udp\<close>.\<close>

definition answer_record :: "byte list \<Rightarrow> nat \<Rightarrow> dns_record" where
  "answer_record skb udp = (let name = drop (udp + 20) skb; ans = udp + 20 + length (cstr name) + 5 in
     \<lparr>dr_name = take 256 (cstr name @ replicate 256 0), dr_addr = sub skb (ans + 12) 4, dr_ttl = sub skb (ans + 6) 4\<rparr>)"

text \<open>A packet with a DNS question, and one with an answer of the expected form.\<close>

definition question_at :: "byte list \<Rightarrow> nat \<Rightarrow> bool" where
  "question_at skb udp = (let name = drop (udp + 20) skb in terminated name \<and> length (cstr name) \<le> 255 \<and>
     20 \<le> udp \<and> udp + 20 + length (cstr name) + 5 \<le> length skb)"

definition answer_at :: "byte list \<Rightarrow> nat \<Rightarrow> bool" where
  "answer_at skb udp = (question_at skb udp \<and> udp + 20 + length (cstr (drop (udp + 20) skb)) + 5 + 16 \<le> length skb)"

lemma answer_record_ok:
  assumes "answer_at skb udp"
  shows "key (answer_record skb udp) = cstr (drop (udp + 20) skb)" "terminated (dr_name (answer_record skb udp))"
    "length (dr_addr (answer_record skb udp)) = 4" "length (dr_ttl (answer_record skb udp)) = 4"
proof -
  let ?n = "cstr (drop (udp + 20) skb)"
  have len: "length ?n \<le> 255" "udp + 20 + length ?n + 5 + 16 \<le> length skb"
    using assms by (auto simp: answer_at_def question_at_def Let_def)
  then obtain k where k: "256 - length ?n = Suc k" by (cases "256 - length ?n") auto
  have buf: "take 256 (?n @ replicate 256 0) = ?n @ 0 # replicate k 0"
    using len(1) k by (simp add: min_def replicate_Suc[symmetric] del: replicate_Suc)
  have nm: "dr_name (answer_record skb udp) = ?n @ 0 # replicate k 0"
    by (simp only: answer_record_def Let_def dns_record.simps buf)
  show "key (answer_record skb udp) = ?n" "terminated (dr_name (answer_record skb udp))"
    by (simp_all add: key_def nm cstr_append_zero cstr_no_zero terminated_def)
  show "length (dr_addr (answer_record skb udp)) = 4" "length (dr_ttl (answer_record skb udp)) = 4"
    using len(2) by (simp_all add: answer_record_def Let_def length_sub)
qed

lemma dns_reply_hook_spec:
  assumes rebal: "\<And>t. inorder (rebal t) = inorder t" and ok: "dr_ok (dr_tree s)"
    and pkt: "dns_packet protocol skb 0 = Some (Some udp)" and ans: "answer_at skb udp"
  shows "returns (dns_reply_hook rebal True protocol skb s) (\<lambda>v s'. v = NF_ACCEPT \<and> dr_ok (dr_tree s') \<and>
    sent s' = sent s \<and> leaked s' = leaked s \<and>
    (if dr_map (dr_tree s) (cstr (drop (udp + 20) skb)) = None
     then dr_map (dr_tree s') = (dr_map (dr_tree s))(cstr (drop (udp + 20) skb) \<mapsto> answer_record skb udp)
     else s' = s))"
proof -
  let ?name = "drop (udp + 20) skb" and ?d = "answer_record skb udp"
  note d = answer_record_ok[OF ans]
  have len: "udp + 20 + length (cstr ?name) + 5 + 16 \<le> length skb" and trm: "terminated ?name"
    using ans by (auto simp: answer_at_def question_at_def Let_def)
  have inv: "dr_inv (dr_tree s)" using ok by (simp add: dr_ok_def)
  have n: "strlen ?name = Some (length (cstr ?name))" using trm by (simp add: strlen_def terminated_def)
  have loads: "ldn skb (udp + 20 + length (cstr ?name) + 5 + 12) 4 = Some (dr_addr ?d)"
    "ldn skb (udp + 20 + length (cstr ?name) + 5 + 6) 4 = Some (dr_ttl ?d)"
    using len by (simp_all add: load_rules(1) answer_record_def Let_def)
  have cpy: "strncpy ?name 256 = Some (dr_name ?d)"
    using trm by (simp add: strncpy_def terminated_def answer_record_def Let_def)
  have blen: "strlen (dr_name ?d) = Some (length (key ?d))" using d(2) by (simp add: strlen_def terminated_def key_def)
  have rec: "\<lparr>dr_name = dr_name ?d, dr_addr = dr_addr ?d, dr_ttl = dr_ttl ?d\<rparr> = ?d" by simp
  have first: "\<exists>w. ld16 skb (udp + 8) = Some w" using len by (simp add: ld16_def)
  note search = search_dr_map[OF trm inv]
  show ?thesis
  proof (cases "dr_map (dr_tree s) (cstr ?name) = None")
    case True
    obtain k t' where ins: "insert_dr rebal (dr_tree s) ?d = Some (k, t')" "dr_inv t'"
      "dr_map t' = (dr_map (dr_tree s))(cstr ?name \<mapsto> ?d)"
      using insert_dr_map[OF rebal inv d(2)] True d(1) by auto
    moreover from this have "dr_ok t'" using dr_ok_insert[OF ok] d by metis
    moreover have "dns_reply_hook rebal True protocol skb s = Some (NF_ACCEPT, s\<lparr>dr_tree := t'\<rparr>)"
      using first True search n loads cpy blen pkt
      by (elim exE) (simp add: dns_reply_hook_def add.assoc, subst rec, simp add: ins(1))
    ultimately show ?thesis using True by simp
  next
    case False
    then obtain r where "dr_map (dr_tree s) (cstr ?name) = Some r" by blast
    then show ?thesis using first search n loads pkt ok by (auto simp: dns_reply_hook_def add.assoc)
  qed
qed

lemma dns_request_hook_hit:
  assumes ok: "dr_ok (dr_tree s)" and pkt: "dns_packet protocol skb 2 = Some (Some udp)" and q: "question_at skb udp"
    and hit: "dr_map (dr_tree s) (cstr (drop (udp + 20) skb)) = Some r" and tail: "length tail = 16"
  shows "returns (dns_request_hook fast_csum (Some tail) True protocol skb s) (\<lambda>v s'. v = NF_DROP \<and>
    dr_tree s' = dr_tree s \<and> leaked s' = Suc (leaked s) \<and> (\<exists>p. sent s' = sent s @ [p] \<and> good_reply skb udp r p))"
proof -
  let ?name = "drop (udp + 20) skb"
  have trm: "terminated ?name" and len: "20 \<le> udp" "udp + 20 + length (cstr ?name) + 5 \<le> length skb"
    using q by (auto simp: question_at_def Let_def)
  have r: "r \<in> set_tree (dr_tree s)" "key r = cstr ?name" using dr_map_SomeD[OF hit] by auto
  then have rr: "terminated (dr_name r)" "length (dr_addr r) = 4" "length (dr_ttl r) = 4"
    using ok by (auto simp: dr_ok_def dr_inv_def)
  obtain p where p: "send_reply fast_csum (Some tail) skb udp r = Some p" "good_reply skb udp r p"
    using send_reply_spec[OF len(1) _ tail rr, of skb fast_csum] len(2) r(2) by (auto elim!: yieldsE)
  have n: "strlen ?name = Some (length (cstr ?name))" using trm by (simp add: strlen_def terminated_def)
  have "\<exists>w. ld16 skb (udp + 8) = Some w" using len by (simp add: ld16_def)
  then show ?thesis
    using search_dr_map[OF trm, of "dr_tree s"] ok hit p n pkt
    by (auto simp: dns_request_hook_def dr_ok_def add.assoc)
qed

lemma dns_request_hook_miss:
  assumes ok: "dr_ok (dr_tree s)" and pkt: "dns_packet protocol skb 2 = Some (Some udp)" and q: "question_at skb udp"
    and miss: "dr_map (dr_tree s) (cstr (drop (udp + 20) skb)) = None"
  shows "dns_request_hook fast_csum tail True protocol skb s = Some (NF_ACCEPT, s\<lparr>leaked := Suc (leaked s)\<rparr>)"
proof -
  let ?name = "drop (udp + 20) skb"
  have trm: "terminated ?name" and len: "20 \<le> udp" "udp + 20 + length (cstr ?name) + 5 \<le> length skb"
    using q by (auto simp: question_at_def Let_def)
  have n: "strlen ?name = Some (length (cstr ?name))" using trm by (simp add: strlen_def terminated_def)
  have "\<exists>w. ld16 skb (udp + 8) = Some w" using len by (simp add: ld16_def)
  then show ?thesis
    using search_dr_map[OF trm, of "dr_tree s"] ok miss n pkt
    by (auto simp: dns_request_hook_def dr_ok_def add.assoc)
qed

section \<open>Properties\<close>

text \<open>C6: The record tree is a map from names to records, for names that end with a zero. Inserting a record with a fresh name makes
  exactly that name's lookup return it and leaves every other lookup as it was; inserting a record
  whose name is there already is refused and changes no lookup. Neither search leaves a buffer. The order of the tree is kept in both cases, whatever rebalancing does to the
  shape.\<close>
theorem dns_tree_lookup_insert:
  assumes "\<And>t. inorder (rebal t) = inorder t" "dr_inv t" "terminated (dr_name d)" "terminated name"
  shows "returns (insert_dr rebal t d) (\<lambda>k t'. dr_inv t' \<and> k = (if dr_map t (key d) = None then 1 else 0) \<and>
    search_dr t' name =
      (if dr_map t (key d) = None \<and> cstr name = key d then Some (Some d) else search_dr t name) \<and>
    search_dr t name \<noteq> None \<and> search_dr t' name \<noteq> None)"
proof -
  obtain k t' where ins: "insert_dr rebal t d = Some (k, t')" "dr_inv t'" "k = (if dr_map t (key d) = None then 1 else 0)"
    and m: "dr_map t (key d) = None \<Longrightarrow> dr_map t' = (dr_map t)(key d \<mapsto> d)" "dr_map t (key d) \<noteq> None \<Longrightarrow> t' = t"
    using insert_dr_map[OF assms(1-3)] by (cases "dr_map t (key d) = None") auto
  show ?thesis
  proof (cases "dr_map t (key d) = None")
    case True
    show ?thesis using ins m(1)[OF True] True search_dr_map[OF assms(4)] assms(2) by simp
  next
    case False
    then show ?thesis using ins m(2)[OF False] search_dr_map[OF assms(4,2)] by auto
  qed
qed

definition record_a :: dns_record where
  "record_a = \<lparr>dr_name = [1, 97, 0], dr_addr = [10, 0, 0, 1], dr_ttl = [0, 0, 0, 60]\<rparr>"

theorem dns_tree_lookup_insert_witness:
  "returns (insert_dr (\<lambda>t. t) \<langle>\<rangle> record_a) (\<lambda>k t'. k = 1 \<and> search_dr t' [1, 97, 0, 9] = Some (Some record_a))"
  using dns_tree_lookup_insert[of "\<lambda>t. t" "\<langle>\<rangle>" record_a "[1, 97, 0, 9]"]
  by (auto simp: dr_inv_def terminated_def record_a_def dr_map_def key_def cstr_def elim!: returnsE)

text \<open>C5: Caching works end to end as long as the memory the proxy asks for (the two records and the
  copy of the request) is there; the result of copying the request is not checked in the code. After the reply hook has seen an answer of the expected
  form for a name not in the cache, a later request for that name is dropped and answered by the proxy: the packet it sends has
  the request's addresses and ports exchanged, keeps the transaction id and the question, and ends in
  an answer record with the time to live and address of the answer seen. The UDP checksum field
  is the request's, and one more record has been allocated and lost.\<close>
theorem dns_cache_roundtrip:
  assumes "\<And>t. inorder (rebal t) = inorder t" "dr_ok (dr_tree s)" "length tail = 16"
    and "dns_packet protocol answer 0 = Some (Some ua)" "answer_at answer ua"
    and "dns_packet protocol request 2 = Some (Some uq)" "question_at request uq"
    and "cstr (drop (uq + 20) request) = cstr (drop (ua + 20) answer)"
    and "dr_map (dr_tree s) (cstr (drop (ua + 20) answer)) = None"
  shows "returns (do { (_, s1) \<leftarrow> dns_reply_hook rebal True protocol answer s;
      dns_request_hook fast_csum (Some tail) True protocol request s1 })
    (\<lambda>v s'. v = NF_DROP \<and> leaked s' = Suc (leaked s) \<and>
      (\<exists>p. sent s' = sent s @ [p] \<and> good_reply request uq (answer_record answer ua) p))"
proof -
  obtain s1 where s1: "dns_reply_hook rebal True protocol answer s = Some (NF_ACCEPT, s1)" "dr_ok (dr_tree s1)"
    "sent s1 = sent s" "leaked s1 = leaked s"
    "dr_map (dr_tree s1) = (dr_map (dr_tree s))(cstr (drop (ua + 20) answer) \<mapsto> answer_record answer ua)"
    using dns_reply_hook_spec[OF assms(1,2,4,5)] assms(9) by (auto elim!: returnsE)
  have hit: "dr_map (dr_tree s1) (cstr (drop (uq + 20) request)) = Some (answer_record answer ua)"
    by (simp add: s1(5) assms(8))
  show ?thesis
    using dns_request_hook_hit[OF s1(2) assms(6,7) hit assms(3), of fast_csum] s1(1,3,4) by (auto elim!: returnsE)
qed

text \<open>A packet with a query or an answer for the one-letter name, and the answer record.\<close>

definition dns_example :: "byte list \<Rightarrow> byte list \<Rightarrow> byte list" where
  "dns_example ports rest =
     [0x45, 0, 0, 0, 0, 0, 0, 0, 64, 17, 0, 0, 10, 0, 0, 2, 8, 8, 8, 8] @ ports @ [0, 0, 0, 0] @
     [7, 7, 0, 0, 0, 1, 0, 0, 0, 0, 0, 0] @ [1, 97, 0, 0, 1, 0, 1] @ rest"

definition request_a :: "byte list" where
  "request_a = dns_example [200, 200, 0, 53] []"

definition answer_a :: "byte list" where
  "answer_a = dns_example [0, 53, 200, 200] [0xC0, 12, 0, 1, 0, 1, 0, 0, 0, 60, 0, 4, 10, 0, 0, 1]"

lemma dns_example_facts:
  "dns_packet (htons 0x0800) request_a 2 = Some (Some 20)" "dns_packet (htons 0x0800) answer_a 0 = Some (Some 20)"
  "question_at request_a 20" "answer_at answer_a 20" "cstr (drop 40 answer_a) = [1, 97]" "cstr (drop 40 request_a) = [1, 97]"
  by (simp_all add: dns_packet_def request_a_def answer_a_def dns_example_def ld8_def ld16_def swap16_def le16_def
      question_at_def answer_at_def terminated_def cstr_def)

theorem dns_cache_roundtrip_witness:
  "returns (do { (_, s1) \<leftarrow> dns_reply_hook (\<lambda>t. t) True (htons 0x0800) answer_a \<lparr>dr_tree = \<langle>\<rangle>, leaked = 0, sent = []\<rparr>;
      dns_request_hook (\<lambda>p n. 0) (Some (replicate 16 0)) True (htons 0x0800) request_a s1 })
    (\<lambda>v s'. v = NF_DROP \<and> leaked s' = 1 \<and> (\<exists>p. sent s' = [p] \<and> good_reply request_a 20 (answer_record answer_a 20) p))"
  using dns_cache_roundtrip[of "\<lambda>t. t" "\<lparr>dr_tree = \<langle>\<rangle>, leaked = 0, sent = []\<rparr>" "replicate 16 0" "htons 0x0800" answer_a 20
      request_a 20 "\<lambda>p n. 0"] dns_example_facts
  by (simp add: dr_ok_def dr_inv_def dr_map_def)

text \<open>The hooks on the other paths. A packet that is not for the DNS port, and a request for a
  name that is not cached, are accepted with the cache as it was (the second loses a record); an answer
  for a name that is cached already is accepted and changes nothing, so the first answer seen for a
  name is kept whatever its time to live.\<close>
theorem dns_hooks_pass_through:
  assumes "\<And>t. inorder (rebal t) = inorder t" "dr_ok (dr_tree s)"
  shows "(dns_packet protocol skb 2 = Some None \<longrightarrow> dns_request_hook fast_csum tail m protocol skb s = Some (NF_ACCEPT, s)) \<and>
    (dns_packet protocol skb 0 = Some None \<longrightarrow> dns_reply_hook rebal m protocol skb s = Some (NF_ACCEPT, s)) \<and>
    (dns_packet protocol skb 2 = Some (Some udp) \<and> question_at skb udp \<and>
       dr_map (dr_tree s) (cstr (drop (udp + 20) skb)) = None \<longrightarrow>
       dns_request_hook fast_csum tail True protocol skb s = Some (NF_ACCEPT, s\<lparr>leaked := Suc (leaked s)\<rparr>)) \<and>
    (dns_packet protocol skb 0 = Some (Some udp) \<and> answer_at skb udp \<and>
       dr_map (dr_tree s) (cstr (drop (udp + 20) skb)) \<noteq> None \<longrightarrow>
       dns_reply_hook rebal True protocol skb s = Some (NF_ACCEPT, s))"
proof (intro conjI impI)
  assume "dns_packet protocol skb 0 = Some (Some udp) \<and> answer_at skb udp \<and>
    dr_map (dr_tree s) (cstr (drop (udp + 20) skb)) \<noteq> None"
  then show "dns_reply_hook rebal True protocol skb s = Some (NF_ACCEPT, s)"
    using dns_reply_hook_spec[OF assms, of protocol skb udp] by (auto elim!: returnsE)
next
  assume "dns_packet protocol skb 2 = Some (Some udp) \<and> question_at skb udp \<and>
    dr_map (dr_tree s) (cstr (drop (udp + 20) skb)) = None"
  then show "dns_request_hook fast_csum tail True protocol skb s = Some (NF_ACCEPT, s\<lparr>leaked := Suc (leaked s)\<rparr>)"
    using dns_request_hook_miss[OF assms(2)] by blast
qed (simp_all add: dns_request_hook_def dns_reply_hook_def)

theorem dns_hooks_pass_through_witness:
  "dns_request_hook (\<lambda>p n. 0) None True (htons 0x0800) request_a \<lparr>dr_tree = \<langle>\<rangle>, leaked = 0, sent = []\<rparr>
     = Some (NF_ACCEPT, \<lparr>dr_tree = \<langle>\<rangle>, leaked = 1, sent = []\<rparr>)"
  using dns_hooks_pass_through[of "\<lambda>t. t" "\<lparr>dr_tree = \<langle>\<rangle>, leaked = 0, sent = []\<rparr>" "htons 0x0800" request_a
      "\<lambda>p n. 0" None True 20] dns_example_facts
  by (simp add: dr_ok_def dr_inv_def dr_map_def)

text \<open>C34: A name that does not fit the record's 256 bytes is stored without a terminator: the
  reply hook then reads past the record (here: it has no result), for every answer packet of the
  expected form with such a name that is not in the cache.\<close>
theorem dns_long_name_overrun:
  assumes "dr_ok (dr_tree s)" "dns_packet protocol skb 0 = Some (Some udp)"
    and "terminated (drop (udp + 20) skb)" "256 \<le> length (cstr (drop (udp + 20) skb))"
    and "dr_map (dr_tree s) (cstr (drop (udp + 20) skb)) = None"
  shows "dns_reply_hook rebal True protocol skb s = None"
proof -
  let ?name = "drop (udp + 20) skb"
  have nz: "0 \<notin> set (cstr ?name)" by (rule cstr_no_zero)
  have "strncpy ?name 256 = Some (take 256 (cstr ?name))"
    using assms(3,4) by (simp add: strncpy_def terminated_def)
  moreover have "strlen (take 256 (cstr ?name)) = None" using nz by (auto simp: strlen_def dest: in_set_takeD)
  ultimately show ?thesis
    using assms(2,3) search_dr_map[OF assms(3), of "dr_tree s"] assms(1,5)
    by (auto simp: dns_reply_hook_def dr_ok_def add.assoc split: bind_splits)
qed

lemma cstr_replicate: "cstr (replicate n 1 @ 0 # xs) = replicate n 1"
  by (induction n) (simp_all add: cstr_def)

theorem dns_long_name_overrun_witness:
  "dns_reply_hook (\<lambda>t. t) True (htons 0x0800)
     ([0x45, 0, 0, 0, 0, 0, 0, 0, 64, 17, 0, 0, 10, 0, 0, 2, 8, 8, 8, 8] @ [0, 53, 200, 200] @
      replicate 16 0 @ replicate 300 1 @ 0 # replicate 30 0) \<lparr>dr_tree = \<langle>\<rangle>, leaked = 0, sent = []\<rparr> = None"
  (is "dns_reply_hook _ _ _ ?p _ = None")
proof -
  have d: "drop (20 + 20) ?p = replicate 300 1 @ 0 # replicate 30 0" by simp
  have "dns_packet (htons 0x0800) ?p 0 = Some (Some 20)"
    by (simp add: dns_packet_def ld8_def ld16_def swap16_def le16_def)
  then show ?thesis
    using dns_long_name_overrun[of "\<lparr>dr_tree = \<langle>\<rangle>, leaked = 0, sent = []\<rparr>" "htons 0x0800" ?p 20]
    unfolding d cstr_replicate by (simp add: dr_ok_def dr_inv_def dr_map_def terminated_def)
qed

end
