(* ===== verification/Kernel_Device.thy ===== *)
theory Kernel_Device
  imports C_Output
begin

text \<open>
  What the two character devices \<^verbatim>\<open>src/chardev\<close> and \<^verbatim>\<open>src/ioctl\<close> share: the loop of \<^verbatim>\<open>device_read\<close>,
  the order in which the kernel may call a driver's operations, and the contract of a device that
  only one process can have open (the locale \<open>exclusive_device\<close>, with \<open>safe_device\<close> for drivers whose
  operations never leave their buffers).
\<close>

section \<open>Reading a message\<close>

text \<open>
  The loop \<^verbatim>\<open>while (length && *msg_Ptr)\<close>: the bytes handed to \<^verbatim>\<open>put_user\<close> and the final pointer, as an
  index into the message buffer. The byte is not read when \<open>length\<close> has reached zero.
\<close>

fun read_loop :: "nat \<Rightarrow> byte list \<Rightarrow> nat \<Rightarrow> (byte list \<times> nat) option" where
  "read_loop 0 msg p = Some ([], p)"
| "read_loop (Suc len) msg p = do {
     c \<leftarrow> ld8 msg p;
     if c = 0 then Some ([], p)
     else do {
       (bs, q) \<leftarrow> read_loop len msg (Suc p);
       Some (c # bs, q) } }"

text \<open>The rest of the message at \<open>p\<close>, and that it ends inside the buffer.\<close>

definition ends_in :: "byte list \<Rightarrow> nat \<Rightarrow> bool" where
  "ends_in msg p = (0 \<in> set (drop p msg))"

lemma ends_in_lt: "ends_in msg p \<Longrightarrow> p < length msg"
  by (cases "p < length msg") (auto simp: ends_in_def)

lemma ends_in_ld8: "ends_in msg p \<Longrightarrow> ld8 msg p = Some (msg ! p)"
  using ends_in_lt[of msg p] by (simp add: ld8_def)

lemma drop_step: "p < length msg \<Longrightarrow> drop p msg = msg ! p # drop (Suc p) msg"
  by (simp add: Cons_nth_drop_Suc)

lemma ends_in_Suc: "ends_in msg p \<Longrightarrow> msg ! p \<noteq> 0 \<Longrightarrow> ends_in msg (Suc p)"
  using drop_step[OF ends_in_lt, of msg p] by (auto simp: ends_in_def)

lemma cstr_step: "ends_in msg p \<Longrightarrow> cstr (drop p msg) = (if msg ! p = 0 then [] else msg ! p # cstr (drop (Suc p) msg))"
  using drop_step[OF ends_in_lt, of msg p] by (simp add: cstr_def)

lemma read_loop_prefix:
  "ends_in msg p \<Longrightarrow> \<exists>q. read_loop n msg p = Some (take n (cstr (drop p msg)), q) \<and> ends_in msg q \<and>
     cstr (drop q msg) = drop n (cstr (drop p msg))"
proof (induction n msg p rule: read_loop.induct)
  case (2 n msg p)
  show ?case
  proof (cases "msg ! p = 0")
    case True
    then show ?thesis using 2(2) by (simp add: ends_in_ld8 cstr_step)
  next
    case False
    then show ?thesis using 2 ends_in_Suc[OF 2(2)] ends_in_ld8[OF 2(2)] cstr_step[OF 2(2)]
      by (auto simp: split_beta)
  qed
qed simp

lemma read_loop_overrun: "p \<le> length msg \<Longrightarrow> 0 \<notin> set (drop p msg) \<Longrightarrow> length msg < p + n \<Longrightarrow> read_loop n msg p = None"
proof (induction n msg p rule: read_loop.induct)
  case (2 n msg p)
  show ?case
  proof (cases "p < length msg")
    case True
    then have "msg ! p \<noteq> 0" "0 \<notin> set (drop (Suc p) msg)" using 2(3) drop_step[OF True] by auto
    then show ?thesis using 2 True by (simp add: ld8_def)
  qed (simp add: ld8_def)
qed simp

section \<open>The calls of the kernel\<close>

text \<open>
  The processes' calls on the device file. The kernel calls \<^verbatim>\<open>release\<close> once for each successful
  \<^verbatim>\<open>open\<close>, and the other operations only on a file that is open. \<open>hs\<close> lists the processes that have
  the device open; \<open>None\<close> is an access outside a buffer in the driver.
\<close>

datatype 'o dev_call = Open nat | Close nat | Io nat 'o

fun vfs_call :: "('s \<Rightarrow> (int \<times> 's) option) \<Rightarrow> ('s \<Rightarrow> 's) \<Rightarrow> ('o \<Rightarrow> 's \<Rightarrow> ('r \<times> 's) option) \<Rightarrow>
    'o dev_call \<Rightarrow> nat list \<times> 's \<Rightarrow> (nat list \<times> 's) option" where
  "vfs_call dopen release io (Open p) (hs, s) = do {
     (r, s') \<leftarrow> dopen s;
     Some (if r = 0 then p # hs else hs, s') }"
| "vfs_call dopen release io (Close p) (hs, s) =
     Some (if p \<in> set hs then (remove1 p hs, release s) else (hs, s))"
| "vfs_call dopen release io (Io p x) (hs, s) =
     (if p \<in> set hs then map_option (\<lambda>(_, s'). (hs, s')) (io x s) else Some (hs, s))"

fun vfs_run :: "('s \<Rightarrow> (int \<times> 's) option) \<Rightarrow> ('s \<Rightarrow> 's) \<Rightarrow> ('o \<Rightarrow> 's \<Rightarrow> ('r \<times> 's) option) \<Rightarrow>
    'o dev_call list \<Rightarrow> nat list \<times> 's \<Rightarrow> (nat list \<times> 's) option" where
  "vfs_run dopen release io [] w = Some w"
| "vfs_run dopen release io (c # cs) w = do { w \<leftarrow> vfs_call dopen release io c w; vfs_run dopen release io cs w }"

section \<open>Exclusive devices\<close>

text \<open>\<open>cnt\<close> is the driver's own open counter, \<open>refs\<close> the use count of its module.\<close>

locale exclusive_device =
  fixes dopen :: "'s \<Rightarrow> (int \<times> 's) option" and release :: "'s \<Rightarrow> 's" and io :: "'o \<Rightarrow> 's \<Rightarrow> ('r \<times> 's) option"
    and cnt refs :: "'s \<Rightarrow> int" and inv :: "'s \<Rightarrow> bool"
  assumes open_free: "inv s \<Longrightarrow> cnt s = 0 \<Longrightarrow> returns (dopen s) (\<lambda>r s'. r = 0 \<and> cnt s' = 1 \<and> refs s' = refs s + 1 \<and> inv s')"
    and open_busy: "cnt s \<noteq> 0 \<Longrightarrow> dopen s = Some (- 16, s)"
    and release_counts: "inv s \<Longrightarrow> cnt s \<noteq> 0 \<Longrightarrow> cnt (release s) = cnt s - 1 \<and> refs (release s) = refs s - 1 \<and> inv (release s)"
    and io_counts: "inv s \<Longrightarrow> cnt s \<noteq> 0 \<Longrightarrow> io x s = Some (r, s') \<Longrightarrow> cnt s' = cnt s \<and> refs s' = refs s \<and> inv s'"
begin

text \<open>At most one process has the device open, and both counters say how many.\<close>

definition exclusive :: "int \<Rightarrow> nat list \<times> 's \<Rightarrow> bool" where
  "exclusive r0 w = (inv (snd w) \<and> length (fst w) \<le> 1 \<and> cnt (snd w) = int (length (fst w)) \<and>
     refs (snd w) = r0 + int (length (fst w)))"

lemma exclusive_call: "exclusive r0 w \<Longrightarrow> vfs_call dopen release io c w = Some w' \<Longrightarrow> exclusive r0 w'"
proof -
  assume ex: "exclusive r0 w" and call: "vfs_call dopen release io c w = Some w'"
  obtain hs s where w: "w = (hs, s)" by fastforce
  consider "hs = []" "cnt s = 0" "refs s = r0" "inv s" | h where "hs = [h]" "cnt s = 1" "refs s = r0 + 1" "inv s"
    using ex by (cases hs) (auto simp: exclusive_def w)
  then show ?thesis
  proof cases
    case 1
    then show ?thesis using call open_free[of s]
      by (cases c) (auto simp: exclusive_def w split: bind_splits elim!: returnsE)
  next
    case 2
    then show ?thesis using call open_busy[of s] release_counts[of s] io_counts[of s]
      by (cases c) (auto simp: exclusive_def w split: if_splits)
  qed
qed

lemma exclusive_run: "exclusive r0 w \<Longrightarrow> vfs_run dopen release io cs w = Some w' \<Longrightarrow> exclusive r0 w'"
  by (induction cs arbitrary: w) (auto split: bind_splits dest: exclusive_call)

lemma open_iff_unused:
  assumes "exclusive r0 (hs, s)"
  shows "returns (dopen s) (\<lambda>r s'. (hs = [] \<longleftrightarrow> r = 0) \<and> (hs \<noteq> [] \<longrightarrow> r = - 16 \<and> s' = s))"
proof (cases hs)
  case Nil
  then show ?thesis using assms open_free[of s] by (auto simp: exclusive_def elim!: returnsE)
next
  case (Cons h t)
  then show ?thesis using assms open_busy[of s] by (auto simp: exclusive_def)
qed

end

text \<open>A device whose operations are always defined while it is open: no sequence of calls fails.\<close>

locale safe_device = exclusive_device +
  assumes io_defined: "inv s \<Longrightarrow> cnt s \<noteq> 0 \<Longrightarrow> io x s \<noteq> None"
begin

lemma safe_call: "exclusive r0 w \<Longrightarrow> vfs_call dopen release io c w \<noteq> None"
proof -
  assume ex: "exclusive r0 w"
  obtain hs s where w: "w = (hs, s)" by fastforce
  show ?thesis
  proof (cases c)
    case (Open p)
    then show ?thesis using open_iff_unused[of r0 hs s] ex w by (auto elim!: returnsE)
  next
    case (Io p x)
    then show ?thesis using ex io_defined[of s x] by (cases hs) (auto simp: w exclusive_def)
  qed (simp add: w)
qed

lemma safe_run: "exclusive r0 w \<Longrightarrow> \<exists>w'. vfs_run dopen release io cs w = Some w' \<and> exclusive r0 w'"
proof (induction cs arbitrary: w)
  case (Cons c cs)
  then obtain w1 where "vfs_call dopen release io c w = Some w1" using safe_call by blast
  then show ?case using Cons exclusive_call by fastforce
qed simp

end

end
