(* ===== verification/Char_Device.thy ===== *)
theory Char_Device
  imports Kernel_Device
begin

text \<open>
  The read-only device \<^verbatim>\<open>src/chardev/chardev.c\<close>, which tells how often it has been opened. The static
  variables are the record \<open>cdev\<close>; \<open>msg_Ptr\<close> is an index into \<open>msg\<close>, \<open>None\<close> for the initial \<^verbatim>\<open>NULL\<close>, and
  \<open>counter\<close> the static of \<^verbatim>\<open>device_open\<close>. \<open>refs\<close> is the module's use count, kept by
  \<^verbatim>\<open>try_module_get\<close> and \<^verbatim>\<open>module_put\<close>.
\<close>

record cdev =
  Major :: int
  Device_Open :: int
  msg :: "byte list"
  msg_Ptr :: "nat option"
  counter :: u32
  refs :: int

text \<open>\<open>reg\<close> is what \<^verbatim>\<open>register_chrdev\<close> returns.\<close>

definition init_module :: "int \<Rightarrow> cdev \<Rightarrow> int \<times> event list \<times> cdev" where
  "init_module reg s = (let s = s\<lparr>Major := reg\<rparr> in
     if Major s < 0 then
       (Major s, [Printf (ln ''Registering char device failed with %d'') [Num (Major s)]], s)
     else
       (0, [Printf (ln ''I was assigned major number %d. To talk to'') [Num (Major s)],
            say (ln ''the driver, create a dev file with''),
            Printf (ln (CHR 0x27 # ''mknod /dev/%s c %d 0'' @ [CHR 0x27, CHR 0x2E])) [Str ''chardev'', Num (Major s)],
            say (ln ''Try various minor numbers. Try to cat and echo to''),
            say (ln ''the device file.''),
            say (ln ''Remove the device file and module when done.'')], s))"

definition cleanup_module :: "cdev \<Rightarrow> event list" where
  "cleanup_module s = [Call ''unregister_chrdev'' [Num (Major s), Str ''chardev'']]"

definition dec_int :: "int \<Rightarrow> string" where
  "dec_int i = (if i < 0 then CHR 0x2D # dec_str (nat (- i)) else dec_str (nat i))"

definition greeting :: "u32 \<Rightarrow> byte list" where
  "greeting c = bytes_of (''I already told you '' @ dec_int (sint c) @ ln '' times Hello world!'')"

text \<open>\<^verbatim>\<open>device_open\<close>; \<open>- 16\<close> is \<^verbatim>\<open>-EBUSY\<close>. \<^verbatim>\<open>sprintf\<close> stores the text and its zero into \<open>msg\<close>.\<close>

definition device_open :: "cdev \<Rightarrow> (int \<times> cdev) option" where
  "device_open s =
     (if Device_Open s \<noteq> 0 then Some (- 16, s)
      else do {
        let s = s\<lparr>Device_Open := Device_Open s + 1\<rparr>;
        m \<leftarrow> stn (msg s) 0 (greeting (counter s) @ [0]);
        let s = s\<lparr>msg := m, counter := counter s + 1\<rparr>;
        let s = s\<lparr>msg_Ptr := Some 0\<rparr>;
        Some (0, s\<lparr>refs := refs s + 1\<rparr>) })"

definition device_release :: "cdev \<Rightarrow> cdev" where
  "device_release s = (let s = s\<lparr>Device_Open := Device_Open s - 1\<rparr> in s\<lparr>refs := refs s - 1\<rparr>)"

text \<open>The result of \<^verbatim>\<open>device_read\<close> and the bytes it puts into the user's buffer.\<close>

definition device_read :: "nat \<Rightarrow> cdev \<Rightarrow> ((int \<times> byte list) \<times> cdev) option" where
  "device_read len s = do {
     p \<leftarrow> msg_Ptr s;
     c \<leftarrow> ld8 (msg s) p;
     if c = 0 then Some ((0, []), s)
     else do {
       (bs, q) \<leftarrow> read_loop len (msg s) p;
       Some ((int (length bs), bs), s\<lparr>msg_Ptr := Some q\<rparr>) } }"

text \<open>\<open>- 22\<close> is \<^verbatim>\<open>-EINVAL\<close>.\<close>

definition device_write :: "byte list \<Rightarrow> cdev \<Rightarrow> ((int \<times> byte list) \<times> cdev) option" where
  "device_write buff s = Some ((- 22, []), s)"

datatype cd_io = Read nat | Write "byte list"

fun device_io :: "cd_io \<Rightarrow> cdev \<Rightarrow> ((int \<times> byte list) \<times> cdev) option" where
  "device_io (Read len) s = device_read len s"
| "device_io (Write buff) s = device_write buff s"

section \<open>The message\<close>

lemma dec_str_length: "n < 10 ^ k \<Longrightarrow> 0 < k \<Longrightarrow> length (dec_str n) \<le> k"
proof (induction k arbitrary: n)
  case (Suc k)
  show ?case
  proof (cases "n < 10")
    case True
    then show ?thesis by (subst dec_str.simps) simp
  next
    case False
    then have "0 < k" using Suc.prems(1) by (cases k) auto
    moreover have "n div 10 < 10 ^ k" using Suc.prems(1) by (simp add: div_less_iff_less_mult mult.commute)
    ultimately have "length (dec_str (n div 10)) \<le> k" using Suc.IH by blast
    then show ?thesis using False by (subst dec_str.simps) simp
  qed
qed simp

lemma dec_int_length: "- 2147483648 \<le> i \<Longrightarrow> i < 2147483648 \<Longrightarrow> length (dec_int i) \<le> 11"
  using dec_str_length[of "nat (- i)" 10] dec_str_length[of "nat i" 10] by (auto simp: dec_int_def nat_less_iff)

lemma greeting_length: "length (greeting c) \<le> 50"
proof -
  have "length (dec_int (sint c)) \<le> 11"
    using sint_greater_eq[of c] sint_less[of c] by (intro dec_int_length) simp_all
  then show ?thesis by (simp add: greeting_def bytes_of_def ln_def)
qed

lemma dec_str_chars: "set (dec_str n) \<subseteq> {c. 48 \<le> (of_char c :: nat)}"
proof (induction n rule: dec_str.induct)
  case (1 n)
  have d: "48 \<le> (of_char (char_of (48 + k) :: char) :: nat)" if "k < 10" for k :: nat
    using that by simp
  show ?case
  proof (cases "n < 10")
    case True
    then show ?thesis using d by (subst dec_str.simps) simp
  next
    case False
    then show ?thesis using 1 d[of "n mod 10"] by (subst dec_str.simps) simp
  qed
qed

lemma greeting_no_zero: "0 \<notin> set (greeting c)"
proof -
  have nz: "(of_nat (of_char ch) :: byte) \<noteq> 0" if "0 < (of_char ch :: nat)" for ch
    using that nat_of_char_less_256[of ch] by (simp add: of_nat_word_0)
  have "0 < (of_char ch :: nat)" if "ch \<in> set (dec_int i)" for ch i
    using that dec_str_chars by (fastforce simp: dec_int_def split: if_splits)
  then have "(of_nat (of_char ch) :: byte) \<noteq> 0" if "ch \<in> set (dec_int i)" for ch i
    using that nz by blast
  then show ?thesis by (fastforce simp: greeting_def bytes_of_def ln_def)
qed


section \<open>The contract\<close>

definition cdev_inv :: "cdev \<Rightarrow> bool" where
  "cdev_inv s = (length (msg s) = 80 \<and> (case msg_Ptr s of None \<Rightarrow> Device_Open s = 0 | Some p \<Rightarrow> ends_in (msg s) p))"

definition remaining :: "cdev \<Rightarrow> byte list" where
  "remaining s = (case msg_Ptr s of None \<Rightarrow> [] | Some p \<Rightarrow> cstr (drop p (msg s)))"

lemma device_open_free:
  assumes "cdev_inv s" "Device_Open s = 0"
  shows "returns (device_open s) (\<lambda>r s'. r = 0 \<and> Device_Open s' = 1 \<and> refs s' = refs s + 1 \<and> cdev_inv s' \<and>
    remaining s' = greeting (counter s) \<and> counter s' = counter s + 1)"
proof -
  let ?g = "greeting (counter s)"
  define m where "m = ?g @ 0 # drop (Suc (length ?g)) (msg s)"
  have len: "length (msg s) = 80" using assms(1) by (simp add: cdev_inv_def)
  have st: "stn (msg s) 0 (?g @ [0]) = Some m"
    using len greeting_length[of "counter s"] by (simp add: stn_def m_def)
  have m: "length m = 80" "ends_in m 0" "cstr m = ?g"
    using len greeting_length[of "counter s"]
    by (simp_all add: m_def ends_in_def cstr_append_zero[OF greeting_no_zero])
  then show ?thesis using assms(2) st by (simp add: device_open_def cdev_inv_def remaining_def)
qed

lemma device_read_spec:
  assumes "cdev_inv s" "Device_Open s \<noteq> 0"
  shows "returns (device_read n s) (\<lambda>(r, bs) s'. bs = take n (remaining s) \<and> r = int (length bs) \<and>
    remaining s' = drop n (remaining s) \<and> cdev_inv s' \<and> Device_Open s' = Device_Open s \<and> refs s' = refs s)"
proof -
  obtain p where p: "msg_Ptr s = Some p" "ends_in (msg s) p" using assms by (auto simp: cdev_inv_def split: option.splits)
  obtain q where q: "read_loop n (msg s) p = Some (take n (cstr (drop p (msg s))), q)" "ends_in (msg s) q"
    "cstr (drop q (msg s)) = drop n (cstr (drop p (msg s)))" using read_loop_prefix[OF p(2)] by blast
  show ?thesis
  proof (cases "msg s ! p = 0")
    case True
    then show ?thesis using assms p by (simp add: device_read_def ends_in_ld8 remaining_def cstr_step)
  next
    case False
    then show ?thesis using assms p q by (simp add: device_read_def ends_in_ld8 remaining_def cdev_inv_def)
  qed
qed

interpretation cdev: safe_device device_open device_release device_io Device_Open refs cdev_inv
proof
  fix s :: cdev
  assume inv: "cdev_inv s"
  show "returns (device_open s) (\<lambda>r s'. r = 0 \<and> Device_Open s' = 1 \<and> refs s' = refs s + 1 \<and> cdev_inv s')"
    if "Device_Open s = 0" using device_open_free[OF inv that] by (rule returns_mono) simp
  assume busy: "Device_Open s \<noteq> 0"
  show "Device_Open (device_release s) = Device_Open s - 1 \<and> refs (device_release s) = refs s - 1 \<and> cdev_inv (device_release s)"
    using inv busy by (auto simp: device_release_def cdev_inv_def split: option.splits)
  show "device_io x s \<noteq> None" for x
    using device_read_spec[OF inv busy] by (cases x) (fastforce simp: device_write_def elim!: returnsE)+
  show "Device_Open s' = Device_Open s \<and> refs s' = refs s \<and> cdev_inv s'" if "device_io x s = Some (r, s')" for x r s'
  proof (cases x)
    case (Read n)
    then show ?thesis using that device_read_spec[OF inv busy, of n] by auto
  next
    case (Write b)
    then show ?thesis using that inv by (auto simp: device_write_def)
  qed
qed (simp add: device_open_def)

definition loaded :: cdev where
  "loaded = \<lparr>Major = 0, Device_Open = 0, msg = replicate 80 0, msg_Ptr = None, counter = 0, refs = 0\<rparr>"

section \<open>Properties\<close>

text \<open>C15: The device can be used by one process at a time. Whatever sequence of open, close, read and
  write calls the processes make on the loaded module, no call leaves a buffer, at most one
  process has the device open, the open counter and the module's use count are the number of
  processes that have it open, and a further open succeeds exactly when nobody has it open; otherwise
  it returns \<^verbatim>\<open>-EBUSY\<close> and changes nothing.\<close>
theorem chardev_single_user:
  "\<exists>hs s. vfs_run device_open device_release device_io calls ([], loaded) = Some (hs, s) \<and>
     length hs \<le> 1 \<and> Device_Open s = int (length hs) \<and> refs s = int (length hs) \<and>
     returns (device_open s) (\<lambda>r s'. (hs = [] \<longleftrightarrow> r = 0) \<and> (hs = [] \<or> r = - 16 \<and> s' = s))"
proof -
  have "cdev.exclusive 0 ([], loaded)" by (simp add: cdev.exclusive_def loaded_def cdev_inv_def)
  from cdev.safe_run[OF this] obtain hs s
    where w: "vfs_run device_open device_release device_io calls ([], loaded) = Some (hs, s)" "cdev.exclusive 0 (hs, s)"
    by fastforce
  have "returns (device_open s) (\<lambda>r s'. (hs = [] \<longleftrightarrow> r = 0) \<and> (hs = [] \<or> r = - 16 \<and> s' = s))"
    using cdev.open_iff_unused[OF w(2)] by (rule returns_mono) auto
  then show ?thesis using w by (auto simp: cdev.exclusive_def)
qed

text \<open>The results of successive reads with buffers of the given lengths.\<close>

fun read_all :: "nat list \<Rightarrow> cdev \<Rightarrow> ((int \<times> byte list) list \<times> cdev) option" where
  "read_all [] s = Some ([], s)"
| "read_all (n # ns) s = do { (r, s) \<leftarrow> device_read n s; (rs, s) \<leftarrow> read_all ns s; Some (r # rs, s) }"

lemma read_all_stream:
  assumes "cdev_inv s" "Device_Open s \<noteq> 0"
  shows "returns (read_all ns s) (\<lambda>rs s'. concat (map snd rs) = take (sum_list ns) (remaining s) \<and>
    map fst rs = map (\<lambda>(_, bs). int (length bs)) rs \<and> remaining s' = drop (sum_list ns) (remaining s))"
  using assms
proof (induction ns arbitrary: s)
  case (Cons n ns)
  obtain r bs s1 where *: "device_read n s = Some ((r, bs), s1)" "bs = take n (remaining s)" "r = int (length bs)"
    "remaining s1 = drop n (remaining s)" "cdev_inv s1" "Device_Open s1 \<noteq> 0"
    using device_read_spec[OF Cons.prems, of n] Cons.prems(2) by (auto elim!: returnsE)
  from Cons.IH[OF *(5,6)] show ?case using * by (auto simp: take_add add.commute elim!: returnsE)
qed simp

text \<open>What a process reads. After an open of a device that nobody has open, reads with buffers of
  any lengths return, in order, the bytes of the message with the number of earlier opens: together
  exactly its first bytes, as many as the buffers hold, each read returning the number of bytes it
  stored (so zero once the message is used up).\<close>
theorem chardev_read_stream:
  assumes "cdev_inv s" "Device_Open s = 0"
  shows "returns (do { (_, s1) \<leftarrow> device_open s; read_all ns s1 }) (\<lambda>rs s'.
    concat (map snd rs) = take (sum_list ns) (greeting (counter s)) \<and>
    map fst rs = map (\<lambda>(_, bs). int (length bs)) rs \<and> counter s' = counter s + 1)"
proof -
  obtain s1 where s1: "device_open s = Some (0, s1)" "cdev_inv s1" "Device_Open s1 \<noteq> 0" "remaining s1 = greeting (counter s)"
    "counter s1 = counter s + 1" using device_open_free[OF assms] by (auto elim!: returnsE)
  have keep: "counter s' = counter s" if "device_read n s = Some (r, s')" for n r s s'
    using that by (auto simp: device_read_def split: bind_splits if_splits)
  have "counter s' = counter s" if "read_all ns s = Some (rs, s')" for rs s s'
    using that by (induction ns arbitrary: s rs) (auto split: bind_splits dest!: keep)
  then show ?thesis using s1 read_all_stream[OF s1(2,3), of ns] by (auto elim!: returnsE)
qed

theorem chardev_read_stream_witness:
  "returns (do { (_, s1) \<leftarrow> device_open loaded; read_all [10, 100, 5] s1 }) (\<lambda>rs s'.
    concat (map snd rs) = bytes_of (ln ''I already told you 0 times Hello world!'') \<and> counter s' = 1)"
proof -
  have g: "greeting 0 = bytes_of (ln ''I already told you 0 times Hello world!'')"
    by (simp add: greeting_def dec_int_def dec_str.simps ln_def char_of_def bit_Suc_0_iff)
  show ?thesis
    using chardev_read_stream[of loaded "[10, 100, 5]"] greeting_length[of 0]
    by (auto simp: loaded_def cdev_inv_def g elim!: returnsE)
qed

end
