(* ===== verification/Ioctl_Device.thy ===== *)
theory Ioctl_Device
  imports Kernel_Device
begin

text \<open>
  The device with a message that processes can set, \<^verbatim>\<open>src/ioctl/chardev.c\<close>, and the program
  \<^verbatim>\<open>src/ioctl/ioctl.c\<close> that uses it. A user buffer is the list of bytes that can be read from its
  address on; \<^verbatim>\<open>get_user\<close> gives 0 for an address that cannot be read. The return value of
  \<^verbatim>\<open>get_user\<close> and \<^verbatim>\<open>put_user\<close> is ignored by the driver, so the bytes handed to \<^verbatim>\<open>put_user\<close> are what
  reaches the user.
\<close>

section \<open>The driver\<close>

record idev =
  Device_Open :: int
  Message :: "byte list"
  Message_Ptr :: "nat option"
  refs :: int

definition get_user :: "byte list \<Rightarrow> nat \<Rightarrow> byte" where
  "get_user buffer i = (if i < length buffer then buffer ! i else 0)"

definition device_open :: "idev \<Rightarrow> (int \<times> idev) option" where
  "device_open s =
     (if Device_Open s \<noteq> 0 then Some (- 16, s)
      else let s = s\<lparr>Device_Open := Device_Open s + 1\<rparr>;
               s = s\<lparr>Message_Ptr := Some 0\<rparr>
           in Some (0, s\<lparr>refs := refs s + 1\<rparr>))"

definition device_release :: "idev \<Rightarrow> idev" where
  "device_release s = (let s = s\<lparr>Device_Open := Device_Open s - 1\<rparr> in s\<lparr>refs := refs s - 1\<rparr>)"

definition device_read :: "nat \<Rightarrow> idev \<Rightarrow> ((int \<times> byte list) \<times> idev) option" where
  "device_read len s = do {
     p \<leftarrow> Message_Ptr s;
     c \<leftarrow> ld8 (Message s) p;
     if c = 0 then Some ((0, []), s)
     else do {
       (bs, q) \<leftarrow> read_loop len (Message s) p;
       Some ((int (length bs), bs), s\<lparr>Message_Ptr := Some q\<rparr>) } }"

text \<open>The loop \<^verbatim>\<open>for (i = 0; i < length && i < BUF_LEN; i++)\<close> of \<^verbatim>\<open>device_write\<close>; \<open>n\<close> iterations are left.\<close>

fun write_loop :: "nat \<Rightarrow> nat \<Rightarrow> byte list \<Rightarrow> byte list \<Rightarrow> byte list option" where
  "write_loop 0 i buffer m = Some m"
| "write_loop (Suc n) i buffer m = do {
     m \<leftarrow> st8 m i (get_user buffer i);
     write_loop n (Suc i) buffer m }"

definition device_write :: "byte list \<Rightarrow> nat \<Rightarrow> idev \<Rightarrow> ((int \<times> byte list) \<times> idev) option" where
  "device_write buffer len s = do {
     let n = min len 80;
     m \<leftarrow> write_loop n 0 buffer (Message s);
     let s = s\<lparr>Message := m\<rparr>;
     Some ((int n, []), s\<lparr>Message_Ptr := Some 0\<rparr>) }"

text \<open>
  The loop that looks for the end of the message in \<^verbatim>\<open>IOCTL_SET_MSG\<close>: \<open>ch\<close> is the last character
  read, \<open>i\<close> both the counter and the offset of \<^verbatim>\<open>temp\<close>, \<open>n\<close> what is left of \<^verbatim>\<open>BUF_LEN\<close>.
\<close>

fun msg_len :: "nat \<Rightarrow> byte \<Rightarrow> nat \<Rightarrow> byte list \<Rightarrow> nat" where
  "msg_len 0 ch i temp = i"
| "msg_len (Suc n) ch i temp = (if ch = 0 then i else msg_len n (get_user temp i) (Suc i) temp)"

datatype ioctl_num = IOCTL_SET_MSG "byte list" | IOCTL_GET_MSG | IOCTL_GET_NTH_BYTE nat | IOCTL_OTHER

text \<open>\<^verbatim>\<open>char\<close> is signed.\<close>

definition device_ioctl :: "ioctl_num \<Rightarrow> idev \<Rightarrow> ((int \<times> byte list) \<times> idev) option" where
  "device_ioctl cmd s = (case cmd of
     IOCTL_SET_MSG temp \<Rightarrow> do {
       let i = msg_len 80 (get_user temp 0) 0 temp;
       (_, s) \<leftarrow> device_write temp i s;
       Some ((0, []), s) }
   | IOCTL_GET_MSG \<Rightarrow> do {
       ((_, bs), s) \<leftarrow> device_read 99 s;
       Some ((0, bs @ [0]), s) }
   | IOCTL_GET_NTH_BYTE n \<Rightarrow> do {
       c \<leftarrow> ld8 (Message s) n;
       Some ((sint c, []), s) }
   | IOCTL_OTHER \<Rightarrow> Some ((0, []), s))"

datatype id_io = Read nat | Write "byte list" nat | Ioctl ioctl_num

fun device_io :: "id_io \<Rightarrow> idev \<Rightarrow> ((int \<times> byte list) \<times> idev) option" where
  "device_io (Read len) s = device_read len s"
| "device_io (Write buffer len) s = device_write buffer len s"
| "device_io (Ioctl cmd) s = device_ioctl cmd s"

definition init_module :: "int \<Rightarrow> int \<times> event list" where
  "init_module ret_val =
     (if ret_val < 0 then
        (ret_val, [Printf (ln ''%s failed with %d'') [Str ''Sorry, registering the character device '', Num ret_val]])
      else
        (0, [Printf (ln ''%s The major device number is %d.'') [Str ''Registeration is a success'', Num 100],
             say (ln ''If you want to talk to the device driver,''),
             say (ln (''you'' @ CHR 0x27 # ''ll have to create a device file. '')),
             say (ln ''We suggest you use:''),
             Printf (ln ''mknod %s c %d 0'') [Str ''char_dev'', Num 100],
             say (ln ''The device file name is important, because''),
             say (ln (''the ioctl program assumes that'' @ CHR 0x27 # ''s the'')),
             say (ln (''file you'' @ CHR 0x27 # ''ll use.''))]))"

definition cleanup_module :: "event list" where
  "cleanup_module = [Call ''unregister_chrdev'' [Num 100, Str ''char_dev'']]"

section \<open>The program\<close>

text \<open>
  A negative result of the driver reaches the program as \<open>-1\<close>. An operation gives the events it
  prints and whether the program goes on; it stops after \<^verbatim>\<open>exit(-1)\<close>.
\<close>

definition ioctl :: "ioctl_num \<Rightarrow> idev \<Rightarrow> ((int \<times> byte list) \<times> idev) option" where
  "ioctl cmd s = do {
     ((r, bs), s) \<leftarrow> device_ioctl cmd s;
     Some ((if r < 0 then - 1 else r, bs), s) }"

definition ioctl_set_msg :: "byte list \<Rightarrow> idev \<Rightarrow> ((event list \<times> bool) \<times> idev) option" where
  "ioctl_set_msg message s = do {
     ((ret_val, _), s) \<leftarrow> ioctl (IOCTL_SET_MSG message) s;
     Some (if ret_val < 0 then ([Printf (ln ''ioctl_set_msg failed:%d'') [Num ret_val]], False) else ([], True), s) }"

definition ioctl_get_msg :: "idev \<Rightarrow> ((event list \<times> bool) \<times> idev) option" where
  "ioctl_get_msg s = do {
     ((ret_val, message), s) \<leftarrow> ioctl IOCTL_GET_MSG s;
     if ret_val < 0 then Some (([Printf (ln ''ioctl_get_msg failed:%d'') [Num ret_val]], False), s)
     else if 100 < length message then None
     else Some (([Printf (ln ''get_msg message:%s'') (map (\<lambda>b. Num (uint b)) (cstr message))], True), s) }"

text \<open>
  The loop of \<^verbatim>\<open>ioctl_get_nth_byte\<close>. It asks for byte after byte; the recursion ends at the latest at
  the end of the device's buffer, where the driver's access is undefined.
\<close>

function nth_byte_loop :: "nat \<Rightarrow> idev \<Rightarrow> (event list \<times> bool) option" where
  "nth_byte_loop i s =
     (if i < length (Message s) then do {
        ((c, _), _) \<leftarrow> ioctl (IOCTL_GET_NTH_BYTE i) s;
        if c < 0 then Some ([Printf (ln (''ioctl_get_nth_byte failed at the %d'' @ CHR 0x27 # ''th byte:'')) [Num (int (i + 1))]], False)
        else if c = 0 then Some ([Call ''putchar'' [Num c]], True)
        else do {
          (es, go) \<leftarrow> nth_byte_loop (Suc i) s;
          Some (Call ''putchar'' [Num c] # es, go) } }
      else None)"
  by pat_completeness auto
termination by (relation "measure (\<lambda>(i, s). length (Message s) - i)") auto

declare nth_byte_loop.simps [simp del]

definition ioctl_get_nth_byte :: "idev \<Rightarrow> (event list \<times> bool) option" where
  "ioctl_get_nth_byte s = do {
     (es, go) \<leftarrow> nth_byte_loop 0 s;
     Some (say ''get_nth_byte message:'' # es, go) }"

text \<open>One round of the loop of \<^verbatim>\<open>main\<close>: the line is what \<^verbatim>\<open>fgets\<close> stored in \<^verbatim>\<open>msg\<close>.\<close>

definition main_round :: "byte list \<Rightarrow> idev \<Rightarrow> ((event list \<times> bool) \<times> idev) option" where
  "main_round msg s = do {
     ((e1, go), s) \<leftarrow> ioctl_set_msg msg s;
     if \<not> go then Some ((e1, False), s)
     else do {
       (e2, go) \<leftarrow> ioctl_get_nth_byte s;
       if \<not> go then Some ((e1 @ e2, False), s)
       else do {
         ((e3, go), s) \<leftarrow> ioctl_get_msg s;
         Some ((e1 @ e2 @ e3, go), s) } } }"

text \<open>
  \<^verbatim>\<open>main\<close> from its loop on. \<^verbatim>\<open>fgets(msg, 100, stdin)\<close> stores a line of at most 99 characters, its
  newline included, and a zero. The result is the events and whether the program has ended.
\<close>

fun main_loop :: "byte list list \<Rightarrow> idev \<Rightarrow> ((event list \<times> bool) \<times> idev) option" where
  "main_loop [] s = Some (([], False), s)"
| "main_loop (line # lines) s = do {
     ((e, go), s) \<leftarrow> main_round (line @ [0]) s;
     let e = say ''Input your message: '' # e;
     if \<not> go then Some ((e, True), s)
     else if cstr line = bytes_of ''quit'' then Some ((e @ [Call ''close'' []], True), device_release s)
     else do {
       ((es, stop), s) \<leftarrow> main_loop lines s;
       Some ((e @ es, stop), s) } }"

definition main :: "byte list list \<Rightarrow> idev \<Rightarrow> ((event list \<times> bool) \<times> idev) option" where
  "main lines s = do {
     (file_desc, s) \<leftarrow> device_open s;
     if file_desc < 0 then Some (([Printf (ln (''Can'' @ CHR 0x27 # ''t open device file: %s'')) [Str ''char_dev'']], True), s)
     else main_loop lines s }"

section \<open>Setting and getting the message\<close>

lemma get_user_cstr: "i < length (cstr temp) \<Longrightarrow> get_user temp i = cstr temp ! i \<and> get_user temp i \<noteq> 0"
proof -
  assume i: "i < length (cstr temp)"
  then have "i < length temp" by (metis cstr_def length_takeWhile_le order.strict_trans2)
  moreover have "cstr temp ! i = temp ! i" using i by (simp add: cstr_def takeWhile_nth)
  moreover have "cstr temp ! i \<noteq> 0" using nth_mem[OF i] cstr_no_zero by metis
  ultimately show ?thesis by (simp add: get_user_def)
qed

lemma get_user_end: "get_user temp (length (cstr temp)) = 0"
  using nth_length_takeWhile[of "\<lambda>b. b \<noteq> 0" temp] by (auto simp: get_user_def cstr_def)

lemma msg_len_step:
  "i \<le> length (cstr temp) \<Longrightarrow> msg_len n (get_user temp i) (Suc i) temp = min (Suc i + n) (Suc (length (cstr temp)))"
proof (induction n arbitrary: i)
  case (Suc n)
  show ?case
  proof (cases "i = length (cstr temp)")
    case True
    then show ?thesis by (simp add: get_user_end)
  next
    case False
    then have "i < length (cstr temp)" using Suc.prems by simp
    then show ?thesis using get_user_cstr[of i temp] Suc.IH[of "Suc i"] by auto
  qed
qed simp

lemma msg_len_eq: "msg_len 80 (get_user temp 0) 0 temp = (if cstr temp = [] then 0 else min 80 (Suc (length (cstr temp))))"
proof (cases "cstr temp = []")
  case True
  then have "get_user temp 0 = 0" using get_user_end[of temp] by simp
  then show ?thesis using True by (simp add: numeral_eq_Suc)
next
  case False
  then have nz: "get_user temp 0 \<noteq> 0" using get_user_cstr[of 0 temp] by auto
  have "msg_len (Suc 79) (get_user temp 0) 0 temp = msg_len 79 (get_user temp 0) (Suc 0) temp"
    using nz by (simp only: msg_len.simps if_False)
  then show ?thesis using False msg_len_step[of 0 temp 79] by (simp add: eval_nat_numeral)
qed

lemma write_loop_spec:
  "i + n \<le> length m \<Longrightarrow> write_loop n i buffer m = Some (take i m @ map (get_user buffer) [i..<i + n] @ drop (i + n) m)"
proof (induction n arbitrary: i m)
  case (Suc n)
  let ?m = "m[i := get_user buffer i]"
  have "take (Suc i) ?m = take i m @ [get_user buffer i]" using Suc.prems by (simp add: take_Suc_conv_app_nth)
  moreover have "[i..<i + Suc n] = i # [Suc i..<Suc i + n]" by (simp add: upt_rec)
  moreover have "st8 m i (get_user buffer i) = Some ?m" using Suc.prems by (simp add: st8_def)
  ultimately show ?case using Suc.IH[of "Suc i" ?m] Suc.prems by simp
qed simp

lemma map_get_user: "n \<le> length (cstr temp) \<Longrightarrow> map (get_user temp) [0..<n] = take n (cstr temp)"
  by (rule nth_equalityI) (auto simp: get_user_cstr)

text \<open>What \<^verbatim>\<open>IOCTL_SET_MSG\<close> leaves in the buffer.\<close>

definition set_message :: "byte list \<Rightarrow> byte list \<Rightarrow> byte list" where
  "set_message str old =
     (if str = [] then old
      else if length str < 80 then str @ 0 # drop (Suc (length str)) old
      else take 80 str)"

lemma device_ioctl_set:
  assumes len: "length (Message s) = 80"
  shows "device_ioctl (IOCTL_SET_MSG temp) s =
    Some ((0, []), s\<lparr>Message := set_message (cstr temp) (Message s), Message_Ptr := Some 0\<rparr>)"
proof -
  let ?c = "cstr temp"
  define n where "n = (if ?c = [] then 0 else min 80 (Suc (length ?c)))"
  have w: "write_loop n 0 temp (Message s) = Some (map (get_user temp) [0..<n] @ drop n (Message s))"
    using write_loop_spec[of 0 n "Message s" temp] len by (simp add: n_def)
  have "map (get_user temp) [0..<n] @ drop n (Message s) = set_message ?c (Message s)"
  proof -
    consider "?c = []" | "?c \<noteq> []" "length ?c < 80" | "80 \<le> length ?c" by linarith
    then show ?thesis
    proof cases
      case 2
      then have "[0..<n] = [0..<length ?c] @ [length ?c]" by (simp add: n_def)
      then show ?thesis using 2 map_get_user[of "length ?c" temp] by (simp add: n_def set_message_def get_user_end)
    next
      case 3
      then have "n = 80" by (auto simp: n_def)
      then show ?thesis using 3 map_get_user[of 80 temp] len by (auto simp: set_message_def)
    qed (simp add: n_def set_message_def)
  qed
  moreover have "min n 80 = n" by (simp add: n_def)
  ultimately show ?thesis unfolding device_ioctl_def using w msg_len_eq[of temp]
    by (simp add: device_write_def flip: n_def)
qed

lemma idev_read_spec:
  assumes "Message_Ptr s = Some p" "ends_in (Message s) p"
  shows "\<exists>q. device_read n s = Some ((int (length (take n (cstr (drop p (Message s))))), take n (cstr (drop p (Message s)))),
      s\<lparr>Message_Ptr := Some q\<rparr>) \<and> ends_in (Message s) q \<and> cstr (drop q (Message s)) = drop n (cstr (drop p (Message s)))"
proof (cases "Message s ! p = 0")
  case True
  moreover from this have "s = s\<lparr>Message_Ptr := Some p\<rparr>" using assms(1) by simp
  ultimately show ?thesis using assms by (intro exI[of _ p]) (simp add: device_read_def ends_in_ld8 cstr_step)
next
  case False
  then show ?thesis using assms read_loop_prefix[OF assms(2), of n] by (auto simp: device_read_def ends_in_ld8)
qed

lemma device_ioctl_get:
  assumes "Message_Ptr s = Some p" "ends_in (Message s) p" "length (Message s) = 80"
  shows "\<exists>q. device_ioctl IOCTL_GET_MSG s = Some ((0, cstr (drop p (Message s)) @ [0]), s\<lparr>Message_Ptr := Some q\<rparr>) \<and>
    ends_in (Message s) q \<and> cstr (drop q (Message s)) = []"
proof -
  have "length (cstr (drop p (Message s))) \<le> 80" using assms(3) by (metis cstr_def diff_le_self le_trans length_drop length_takeWhile_le)
  then show ?thesis using idev_read_spec[OF assms(1,2), of 99] by (auto simp: device_ioctl_def)
qed

lemma device_read_overrun:
  assumes "Message_Ptr s = Some p" "0 \<notin> set (drop p (Message s))" "p \<le> length (Message s)" "length (Message s) < p + n"
  shows "device_read n s = None"
proof -
  have "Message s ! p \<noteq> 0" if "p < length (Message s)" using assms(2) drop_step[OF that] by auto
  then show ?thesis using assms read_loop_overrun[of p "Message s" n] by (auto simp: device_read_def ld8_def)
qed

section \<open>The contract\<close>

interpretation idev: exclusive_device device_open device_release device_io Device_Open refs "\<lambda>s. length (Message s) = 80"
proof
  fix s :: idev
  assume inv: "length (Message s) = 80"
  show "returns (device_open s) (\<lambda>r s'. r = 0 \<and> Device_Open s' = 1 \<and> refs s' = refs s + 1 \<and> length (Message s') = 80)"
    if "Device_Open s = 0" using inv that by (simp add: device_open_def)
  assume busy: "Device_Open s \<noteq> 0"
  show "Device_Open (device_release s) = Device_Open s - 1 \<and> refs (device_release s) = refs s - 1 \<and> length (Message (device_release s)) = 80"
    using inv by (simp add: device_release_def)
  have w: "length m' = length m" if "write_loop n i b m = Some m'" for n i b m m'
    using that by (induction n i b m rule: write_loop.induct) (auto simp: st8_def split: bind_splits if_splits)
  have wr: "Device_Open s' = Device_Open s \<and> refs s' = refs s \<and> length (Message s') = 80" if "device_write b n s = Some (r, s')" for b n r s'
    using that inv by (auto simp: device_write_def Let_def dest: w split: bind_splits)
  have rd: "Device_Open s' = Device_Open s \<and> refs s' = refs s \<and> length (Message s') = 80" if "device_read n s = Some (r, s')" for n r s'
    using that inv by (auto simp: device_read_def split: bind_splits if_splits)
  have ct: "Device_Open s' = Device_Open s \<and> refs s' = refs s \<and> length (Message s') = 80" if "device_ioctl c s = Some (r, s')" for c r s'
    using that inv by (cases c) (auto simp: device_ioctl_def Let_def split: bind_splits dest: rd wr)
  show "Device_Open s' = Device_Open s \<and> refs s' = refs s \<and> length (Message s') = 80" if "device_io x s = Some (r, s')" for x r s'
    using that rd wr ct by (cases x) auto
qed (simp add: device_open_def)


section \<open>Properties\<close>

text \<open>C14: A message of 1 to 79 characters set by \<^verbatim>\<open>IOCTL_SET_MSG\<close> is what the next \<^verbatim>\<open>IOCTL_GET_MSG\<close>
  stores, with its zero, and a second \<^verbatim>\<open>IOCTL_GET_MSG\<close> stores the empty string, because the read
  pointer is not reset. Reading single bytes gives the characters and then zero.\<close>
theorem ioctl_message_roundtrip:
  assumes "length (Message s) = 80" "cstr temp \<noteq> []" "length (cstr temp) \<le> 79"
  shows "returns (device_ioctl (IOCTL_SET_MSG temp) s) (\<lambda>r s1. r = (0, []) \<and>
    (\<forall>i \<le> length (cstr temp). device_ioctl (IOCTL_GET_NTH_BYTE i) s1 = Some ((sint ((cstr temp @ [0]) ! i), []), s1)) \<and>
    returns (device_ioctl IOCTL_GET_MSG s1) (\<lambda>r s2. r = (0, cstr temp @ [0]) \<and>
      returns (device_ioctl IOCTL_GET_MSG s2) (\<lambda>r s3. r = (0, [0]))))"
proof -
  let ?m = "set_message (cstr temp) (Message s)"
  define s1 where "s1 = s\<lparr>Message := ?m, Message_Ptr := Some 0\<rparr>"
  have m: "?m = cstr temp @ 0 # drop (Suc (length (cstr temp))) (Message s)" using assms(2,3) by (simp add: set_message_def)
  have s1: "Message_Ptr s1 = Some 0" "ends_in (Message s1) 0" "length (Message s1) = 80" "cstr (Message s1) = cstr temp"
    using assms m cstr_append_zero[OF cstr_no_zero, of temp] by (auto simp: s1_def ends_in_def)
  obtain q where q: "device_ioctl IOCTL_GET_MSG s1 = Some ((0, cstr temp @ [0]), s1\<lparr>Message_Ptr := Some q\<rparr>)"
    "ends_in (Message s1) q" "cstr (drop q (Message s1)) = []" using device_ioctl_get[OF s1(1-3)] s1(4) by auto
  have "\<exists>q'. device_ioctl IOCTL_GET_MSG (s1\<lparr>Message_Ptr := Some q\<rparr>) = Some ((0, [0]), s1\<lparr>Message_Ptr := Some q'\<rparr>)"
    using device_ioctl_get[of "s1\<lparr>Message_Ptr := Some q\<rparr>" q] q(2,3) s1(3) by auto
  moreover have "device_ioctl (IOCTL_GET_NTH_BYTE i) s1 = Some ((sint ((cstr temp @ [0]) ! i), []), s1)"
    if "i \<le> length (cstr temp)" for i
    using that assms(3) m s1(3) by (auto simp: device_ioctl_def ld8_def s1_def nth_append)
  ultimately show ?thesis using device_ioctl_set[OF assms(1), of temp] q(1) by (auto simp flip: s1_def)
qed

definition unset :: idev where
  "unset = \<lparr>Device_Open = 1, Message = replicate 80 0, Message_Ptr = Some 0, refs = 1\<rparr>"

theorem ioctl_message_roundtrip_witness:
  "returns (device_ioctl (IOCTL_SET_MSG [104, 105, 0]) unset) (\<lambda>r s1. r = (0, []) \<and>
    device_ioctl (IOCTL_GET_NTH_BYTE 1) s1 = Some ((105, []), s1) \<and>
    returns (device_ioctl IOCTL_GET_MSG s1) (\<lambda>r s2. r = (0, [104, 105, 0])))"
proof -
  have "cstr [104, 105, 0] = [104, 105 :: byte]" by (simp add: cstr_def)
  then show ?thesis using ioctl_message_roundtrip[of unset "[104, 105, 0]"]
    by (auto simp: unset_def elim!: returnsE)
qed

text \<open>The messages outside those lengths. Setting the empty message does not change the stored
  one. A message of 80 characters or more fills the buffer without a terminating zero: the next
  \<^verbatim>\<open>IOCTL_GET_MSG\<close> reads behind the buffer, and so does asking for a byte of index 80 or more.\<close>
theorem ioctl_message_limits:
  assumes "length (Message s) = 80"
  shows "(cstr temp = [] \<longrightarrow> device_ioctl (IOCTL_SET_MSG temp) s = Some ((0, []), s\<lparr>Message_Ptr := Some 0\<rparr>)) \<and>
    (80 \<le> length (cstr temp) \<longrightarrow> returns (device_ioctl (IOCTL_SET_MSG temp) s) (\<lambda>r s1. r = (0, []) \<and>
       Message s1 = take 80 (cstr temp) \<and> device_ioctl IOCTL_GET_MSG s1 = None)) \<and>
    (80 \<le> n \<longrightarrow> device_ioctl (IOCTL_GET_NTH_BYTE n) s = None)"
proof (intro conjI impI)
  assume "cstr temp = []"
  then show "device_ioctl (IOCTL_SET_MSG temp) s = Some ((0, []), s\<lparr>Message_Ptr := Some 0\<rparr>)"
    using device_ioctl_set[OF assms, of temp] by (simp add: set_message_def)
next
  assume l: "80 \<le> length (cstr temp)"
  then have m: "set_message (cstr temp) (Message s) = take 80 (cstr temp)" by (auto simp: set_message_def)
  have "0 \<notin> set (take 80 (cstr temp))" using cstr_no_zero by (auto dest: in_set_takeD)
  then have "device_read 99 (s\<lparr>Message := take 80 (cstr temp), Message_Ptr := Some 0\<rparr>) = None"
    using l by (intro device_read_overrun[where p = 0]) simp_all
  then show "returns (device_ioctl (IOCTL_SET_MSG temp) s) (\<lambda>r s1. r = (0, []) \<and>
       Message s1 = take 80 (cstr temp) \<and> device_ioctl IOCTL_GET_MSG s1 = None)"
    using device_ioctl_set[OF assms, of temp] m by (simp add: device_ioctl_def)
qed (simp add: device_ioctl_def ld8_def assms)

theorem ioctl_message_limits_witness:
  "device_ioctl (IOCTL_SET_MSG [0]) unset = Some ((0, []), unset) \<and>
   returns (device_ioctl (IOCTL_SET_MSG (replicate 90 1 @ [0])) unset) (\<lambda>r s1. device_ioctl IOCTL_GET_MSG s1 = None) \<and>
   device_ioctl (IOCTL_GET_NTH_BYTE 80) unset = None"
proof -
  have c: "cstr (replicate 90 1 @ [0]) = replicate 90 1" by (rule cstr_append_zero) simp
  have "cstr [0] = []" by (simp add: cstr_def)
  then show ?thesis using ioctl_message_limits[of unset "[0]" 80] ioctl_message_limits[of unset "replicate 90 1 @ [0]" 80]
    unfolding c by (auto simp: unset_def elim!: returnsE)
qed

text \<open>This device too can be used by one process at a time: in every sequence of calls that stays
  inside the driver's buffer, at most one process has it open, the open counter and the module's use
  count say how many, and a further open succeeds exactly when nobody has it open.\<close>
theorem ioctl_single_user:
  assumes "vfs_run device_open device_release device_io calls ([], \<lparr>Device_Open = 0, Message = replicate 80 0, Message_Ptr = None, refs = 0\<rparr>)
    = Some (hs, s)"
  shows "length hs \<le> 1 \<and> Device_Open s = int (length hs) \<and> refs s = int (length hs) \<and>
     returns (device_open s) (\<lambda>r s'. (hs = [] \<longleftrightarrow> r = 0) \<and> (hs = [] \<or> r = - 16 \<and> s' = s))"
proof -
  have "idev.exclusive 0 ([], \<lparr>Device_Open = 0, Message = replicate 80 0, Message_Ptr = None, refs = 0\<rparr>)"
    by (simp add: idev.exclusive_def)
  then have ex: "idev.exclusive 0 (hs, s)" using assms by (rule idev.exclusive_run)
  have "returns (device_open s) (\<lambda>r s'. (hs = [] \<longleftrightarrow> r = 0) \<and> (hs = [] \<or> r = - 16 \<and> s' = s))"
    using idev.open_iff_unused[OF ex] by (rule returns_mono) auto
  then show ?thesis using ex by (auto simp: idev.exclusive_def)
qed

theorem ioctl_single_user_witness:
  "returns (vfs_run device_open device_release device_io [Open 7, Io 7 (Read 5), Open 8]
     ([], \<lparr>Device_Open = 0, Message = replicate 80 0, Message_Ptr = None, refs = 0\<rparr>)) (\<lambda>hs s. hs = [7] \<and> Device_Open s = 1)"
proof -
  have "vfs_run device_open device_release device_io [Open 7, Io 7 (Read 5), Open 8]
     ([], \<lparr>Device_Open = 0, Message = replicate 80 0, Message_Ptr = None, refs = 0\<rparr>)
     = Some ([7], \<lparr>Device_Open = 1, Message = replicate 80 0, Message_Ptr = Some 0, refs = 1\<rparr>)"
    by (simp add: device_open_def device_read_def ld8_def)
  then show ?thesis using ioctl_single_user by fastforce
qed

section \<open>The program's dialogue\<close>

definition round_events :: "byte list \<Rightarrow> event list" where
  "round_events line = [say ''Input your message: '', say ''get_nth_byte message:''] @
     map (\<lambda>b. Call ''putchar'' [Num (uint b)]) (line @ [0]) @
     [Printf (ln ''get_msg message:%s'') (map (\<lambda>b. Num (uint b)) line)]"

lemma sint_ascii: "(b :: byte) < 128 \<Longrightarrow> sint b = uint b"
  by (auto simp: sint_uint word_less_def intro!: signed_take_bit_int_eq_self order_trans[OF _ uint_ge_0])

lemma nth_byte_loop_spec:
  assumes "length (Message s) = 80" "Message s = line @ 0 # rest" "\<forall>b \<in> set line. b \<noteq> 0 \<and> b < 128"
  shows "i \<le> length line \<Longrightarrow> nth_byte_loop i s = Some (map (\<lambda>b. Call ''putchar'' [Num (uint b)]) (drop i line @ [0]), True)"
proof (induction "length line - i" arbitrary: i)
  case 0
  then show ?case using assms(1,2) by (subst nth_byte_loop.simps) (simp add: ioctl_def device_ioctl_def ld8_def nth_append)
next
  case (Suc n)
  then have i: "i < length line" by simp
  then have b: "line ! i \<noteq> 0" "line ! i < 128" using assms(3) nth_mem by blast+
  have g: "device_ioctl (IOCTL_GET_NTH_BYTE i) s = Some ((uint (line ! i), []), s)"
    using i assms(1,2) sint_ascii[OF b(2)] by (simp add: device_ioctl_def ld8_def nth_append)
  have nz: "uint (line ! i) \<noteq> 0" using b(1) by (simp add: uint_0_iff)
  have "nth_byte_loop (Suc i) s = Some (map (\<lambda>b. Call ''putchar'' [Num (uint b)]) (drop (Suc i) line @ [0]), True)"
    using Suc i by (intro Suc.hyps(1)) simp_all
  then show ?case using i assms(1,2) g nz drop_step[OF i]
    by (subst nth_byte_loop.simps) (simp add: ioctl_def)
qed

lemma main_round_spec:
  assumes len: "length (Message s) = 80" and line: "line \<noteq> []" "length line \<le> 79" "\<forall>b \<in> set line. b \<noteq> 0 \<and> b < 128"
  shows "\<exists>s'. main_round (line @ [0]) s = Some ((drop 1 (round_events line), True), s') \<and> length (Message s') = 80"
proof -
  have nz: "0 \<notin> set line" using line(3) by blast
  have c: "cstr (line @ [0]) = line" by (rule cstr_append_zero[OF nz])
  define s1 where "s1 = s\<lparr>Message := set_message line (Message s), Message_Ptr := Some 0\<rparr>"
  have m: "Message s1 = line @ 0 # drop (Suc (length line)) (Message s)" using line by (simp add: s1_def set_message_def)
  have s1: "Message_Ptr s1 = Some 0" "ends_in (Message s1) 0" "length (Message s1) = 80" "cstr (Message s1) = line"
    using m len line(2) cstr_append_zero[OF nz] by (auto simp: s1_def ends_in_def)
  have set: "ioctl_set_msg (line @ [0]) s = Some (([], True), s1)"
    using device_ioctl_set[OF len, of "line @ [0]"] by (simp add: ioctl_set_msg_def ioctl_def c s1_def)
  have nth: "ioctl_get_nth_byte s1 = Some (say ''get_nth_byte message:'' #
      map (\<lambda>b. Call ''putchar'' [Num (uint b)]) (line @ [0]), True)"
    using nth_byte_loop_spec[OF s1(3) m line(3), of 0] by (simp add: ioctl_get_nth_byte_def)
  obtain q where q: "device_ioctl IOCTL_GET_MSG s1 = Some ((0, line @ [0]), s1\<lparr>Message_Ptr := Some q\<rparr>)"
    using device_ioctl_get[OF s1(1-3)] s1(4) by auto
  then have "ioctl_get_msg s1 = Some (([Printf (ln ''get_msg message:%s'') (map (\<lambda>b. Num (uint b)) line)], True), s1\<lparr>Message_Ptr := Some q\<rparr>)"
    using line(2) c by (simp add: ioctl_get_msg_def ioctl_def)
  then show ?thesis using set nth s1(3) by (simp add: main_round_def round_events_def)
qed

lemma main_loop_spec:
  assumes "\<forall>line \<in> set lines. line \<noteq> [] \<and> length line \<le> 79 \<and> line \<noteq> bytes_of ''quit'' \<and> (\<forall>b \<in> set line. b \<noteq> 0 \<and> b < 128)"
  shows "length (Message s) = 80 \<Longrightarrow>
    \<exists>s'. main_loop lines s = Some ((concat (map round_events lines), False), s') \<and> length (Message s') = 80"
  using assms
proof (induction lines arbitrary: s)
  case (Cons line lines)
  obtain s1 where s1: "main_round (line @ [0]) s = Some ((drop 1 (round_events line), True), s1)" "length (Message s1) = 80"
    using main_round_spec[of s line] Cons.prems by auto
  obtain s2 where s2: "main_loop lines s1 = Some ((concat (map round_events lines), False), s2)" "length (Message s2) = 80"
    using Cons.IH[OF s1(2)] Cons.prems by auto
  have ne: "cstr line \<noteq> bytes_of ''quit''"
    using Cons.prems(2) cstr_id[of line] by (metis list.set_intros(1))
  have "say ''Input your message: '' # drop 1 (round_events line) = round_events line" by (simp add: round_events_def)
  then show ?case using s1 s2 ne by (simp add: Let_def)
qed simp

text \<open>The program's dialogue with the device. As long as the lines typed are non-empty ASCII texts of
  at most 79 characters, each is printed back byte by byte and as a message, and the program goes on
  after every one of them. In particular no line that ends in a newline ends the program: it
  compares the line, newline included, with the word \<^verbatim>\<open>quit\<close>.\<close>
theorem ioctl_main_echoes:
  assumes "Device_Open s = 0" "length (Message s) = 80"
    and "\<forall>line \<in> set lines. length line \<le> 78 \<and> (\<forall>b \<in> set line. b \<noteq> 0 \<and> b < 128)"
  shows "returns (main (map (\<lambda>line. line @ [10]) lines) s) (\<lambda>r s'.
    r = (concat (map (\<lambda>line. round_events (line @ [10])) lines), False))"
proof -
  obtain s1 where s1: "device_open s = Some (0, s1)" "length (Message s1) = 80"
    using assms(1,2) by (simp add: device_open_def)
  have nl: "line @ [10] \<noteq> bytes_of ''quit''" for line
  proof
    assume "line @ [10] = bytes_of ''quit''"
    then have "last (line @ [10]) = last (bytes_of ''quit'')" by (rule arg_cong)
    then show False by (simp add: bytes_of_def)
  qed
  show ?thesis
    using main_loop_spec[OF _ s1(2), of "map (\<lambda>line. line @ [10]) lines"] assms(3) nl s1(1)
    by (auto simp: main_def comp_def)
qed

theorem ioctl_main_echoes_witness:
  "returns (main [[113, 117, 105, 116, 10]] \<lparr>Device_Open = 0, Message = replicate 80 0, Message_Ptr = None, refs = 0\<rparr>)
     (\<lambda>r s'. r = (round_events [113, 117, 105, 116, 10], False))"
  using ioctl_main_echoes[of "\<lparr>Device_Open = 0, Message = replicate 80 0, Message_Ptr = None, refs = 0\<rparr>" "[[113, 117, 105, 116]]"]
  by simp

end
