(* ===== verification/Proc_Files.thy ===== *)
theory Proc_Files
  imports Kernel_Device
begin

text \<open>
  The two \<^verbatim>\<open>/proc\<close> files \<^verbatim>\<open>src/procfs/procfs.c\<close> (a fixed text) and \<^verbatim>\<open>src/procfs/procfs_m.c\<close> (a message
  that can be written and read back). \<open>None\<close> is an access outside a buffer. \<^verbatim>\<open>printk\<close> output is not
  modelled.
\<close>

section \<open>The fixed text\<close>

definition hello_text :: "byte list" where
  "hello_text = bytes_of (ln ''Hello, world!'')"

text \<open>\<open>finished\<close> is the static flag; the result is the return value and the user's buffer. The text is
  printed into the buffer with its zero, whatever the length of the buffer.\<close>

definition procfile_read :: "byte list \<Rightarrow> bool \<Rightarrow> ((int \<times> byte list) \<times> bool) option" where
  "procfile_read buffer finished =
     (if finished then Some ((0, buffer), False)
      else do {
        buffer \<leftarrow> stn buffer 0 (hello_text @ [0]);
        Some ((int (length hello_text), buffer), True) })"

text \<open>\<open>created\<close>: \<^verbatim>\<open>proc_create\<close> gave an entry; \<open>- 12\<close> is \<^verbatim>\<open>-ENOMEM\<close>.\<close>

definition procfs_init :: "bool \<Rightarrow> int \<times> event list" where
  "procfs_init created =
     (if \<not> created then (- 12, [Call ''remove_proc_entry'' [Str ''helloworld''],
         Printf (ln ''Error: Could not initialize /proc/%s'') [Str ''helloworld'']])
      else (0, [Call ''proc_set_user'' [Num 0, Num 0], Call ''proc_set_size'' [Num 37],
         Printf (ln ''/proc/%s created'') [Str ''helloworld'']]))"

text \<open>A program that reads the file until a read returns 0, with the data of each read.\<close>

fun read_file :: "nat \<Rightarrow> nat \<Rightarrow> bool \<Rightarrow> (byte list \<times> bool) option" where
  "read_file 0 sz finished = None"
| "read_file (Suc fuel) sz finished = do {
     ((ret, buffer), finished) \<leftarrow> procfile_read (replicate sz 0) finished;
     if ret = 0 then Some ([], finished)
     else do {
       (rest, finished) \<leftarrow> read_file fuel sz finished;
       Some (take (nat ret) buffer @ rest, finished) } }"

section \<open>The message\<close>

record proc_msg =
  len :: u32
  temp :: u32
  msg :: "byte list"

text \<open>\<open>count\<close> is a \<^verbatim>\<open>size_t\<close>, \<open>len\<close> and \<open>temp\<close> are \<^verbatim>\<open>int\<close>: in the comparison \<open>temp\<close> is sign-extended.
  The bytes copied to the user start at \<open>msg\<close> on every read.\<close>

definition read_proc :: "u64 \<Rightarrow> proc_msg \<Rightarrow> ((u64 \<times> byte list) \<times> proc_msg) option" where
  "read_proc count s = do {
     let count = (if count > scast (temp s) then scast (temp s) else count);
     let s = s\<lparr>temp := temp s - ucast count\<rparr>;
     bs \<leftarrow> ldn (msg s) 0 (unat count);
     Some ((count, bs), if count = 0 then s\<lparr>temp := len s\<rparr> else s) }"

text \<open>\<^verbatim>\<open>strncpy_from_user\<close> copies up to and including the first zero, and at most \<open>count\<close> bytes.\<close>

definition user_copy :: "byte list \<Rightarrow> byte list" where
  "user_copy data = cstr data @ (if 0 \<in> set data then [0] else [])"

definition write_proc :: "byte list \<Rightarrow> u64 \<Rightarrow> proc_msg \<Rightarrow> (u64 \<times> proc_msg) option" where
  "write_proc buf count s = do {
     m \<leftarrow> stn (msg s) 0 (user_copy (take (unat count) buf));
     let s = s\<lparr>msg := m\<rparr>;
     let s = s\<lparr>len := ucast count\<rparr>;
     Some (count, s\<lparr>temp := len s\<rparr>) }"

section \<open>Properties\<close>

lemma hello_length: "length hello_text = 14"
  by (simp add: hello_text_def bytes_of_def ln_def)

text \<open>Reading the fixed file to its end gives the text exactly once and leaves the flag
  clear, so that the next reader sees the same, provided the reader's buffer has room for 15
  bytes. With a smaller buffer the first read writes behind the buffer.\<close>
theorem procfs_text_once:
  "(15 \<le> sz \<longrightarrow> read_file 2 sz False = Some (hello_text, False)) \<and>
   (sz < 15 \<longrightarrow> procfile_read (replicate sz 0) False = None)"
proof -
  have "stn (replicate sz 0) 0 (hello_text @ [0]) = Some (hello_text @ 0 # replicate (sz - 15) 0)" if "15 \<le> sz"
    using that hello_length by (simp add: stn_def)
  then show ?thesis using hello_length by (simp add: procfile_read_def numeral_2_eq_2 stn_def)
qed

theorem procfs_text_once_witness:
  "read_file 2 100 False = Some (hello_text, False) \<and> procfile_read (replicate 10 0) False = None"
  using procfs_text_once[of 100] procfs_text_once[of 10] by simp

lemma small_u64: "n < 2 ^ 31 \<Longrightarrow> scast (of_nat n :: u32) = (of_nat n :: u64)"
proof -
  assume n: "n < 2 ^ 31"
  have "uint (of_nat n :: u32) = int n" using n by (simp add: uint_nat unat_of_nat_small)
  then have "sint (of_nat n :: u32) = int n" using n by (simp add: sint_uint signed_take_bit_int_eq_self)
  then show ?thesis by (simp add: scast_eq)
qed

lemma ucast_nat: "(ucast (of_nat n :: u64) :: u32) = of_nat n"
  by (simp add: unsigned_of_nat word_of_nat_eq_iff take_bit_take_bit)

text \<open>Reading back a message of 1 to 100 non-zero bytes. A read with a buffer of at least that
  length returns the message and the next read returns 0 and makes it readable again. A read with a
  shorter buffer returns the first part, but the read after it returns the beginning of the message
  once more instead of the rest. A write of more than 100 non-zero bytes overruns the buffer.\<close>
theorem procfs_message_reads:
  assumes "length (msg s) = 100" "0 \<notin> set data" "data \<noteq> []" "length data < 2 ^ 31" "k < length data" "0 < k"
    and "length data \<le> n" "n < 2 ^ 31"
  shows "if 100 < length data then write_proc data (of_nat (length data)) s = None
    else returns (write_proc data (of_nat (length data)) s) (\<lambda>r s1. r = of_nat (length data) \<and>
      returns (read_proc (of_nat n) s1) (\<lambda>r s2. r = (of_nat (length data), data) \<and>
        returns (read_proc (of_nat n) s2) (\<lambda>r s3. r = (0, []) \<and> s3 = s1)) \<and>
      returns (read_proc (of_nat k) s1) (\<lambda>r s2. r = (of_nat k, take k data) \<and>
        returns (read_proc (of_nat k) s2) (\<lambda>r s3. snd r = take (min k (length data - k)) data)))"
proof -
  let ?L = "length data"
  have un: "unat (of_nat m :: u64) = m" if "m < 2 ^ 31" for m using that by (intro unat_of_nat_small) simp
  have le: "(of_nat a :: u64) < of_nat b \<longleftrightarrow> a < b" if "a < 2 ^ 31" "b < 2 ^ 31" for a b
    using that un by (simp add: word_less_nat_alt)
  have uc: "user_copy data = data" using assms(2) by (simp add: user_copy_def cstr_id)
  show ?thesis
  proof (cases "100 < ?L")
    case True
    then show ?thesis using assms(1,4) uc un by (simp add: write_proc_def stn_def)
  next
    case False
    define s1 where "s1 = s\<lparr>msg := data @ drop ?L (msg s), len := of_nat ?L, temp := of_nat ?L\<rparr>"
    have w: "write_proc data (of_nat ?L) s = Some (of_nat ?L, s1)"
      using False assms(1,4) uc un by (simp add: write_proc_def stn_def s1_def ucast_nat)
    have r: "read_proc (of_nat m) (s1\<lparr>temp := of_nat t\<rparr>) = Some ((of_nat (min m t), take (min m t) data),
        s1\<lparr>temp := if min m t = 0 then of_nat ?L else of_nat (t - min m t)\<rparr>)" if "m < 2 ^ 31" "t \<le> ?L" for m t
    proof -
      have c: "(if (of_nat m :: u64) > scast (of_nat t :: u32) then scast (of_nat t :: u32) else of_nat m) = (of_nat (min m t) :: u64)"
        using that assms(4) le[of t m] by (simp add: small_u64 min_def)
      have t: "(of_nat t :: u32) - ucast (of_nat (min m t) :: u64) = of_nat (t - min m t)"
        by (simp add: ucast_nat of_nat_diff)
      have z: "(of_nat (min m t) :: u64) = 0 \<longleftrightarrow> min m t = 0" using that assms(4) by (intro of_nat_word_0) simp
      have l: "ldn (data @ drop ?L (msg s)) 0 (min m t) = Some (take (min m t) data)"
        using that(2) by (simp add: ldn_def min_def)
      have u: "unat (of_nat (min m t) :: u64) = min m t" using that(1) by (intro un) simp
      show ?thesis using c t z l u
        by (simp add: read_proc_def s1_def Let_def cong: if_cong split del: if_split)
          (cases "min m t = 0"; simp only: if_True if_False refl)
    qed
    have s1: "s1\<lparr>temp := of_nat ?L\<rparr> = s1" by (simp add: s1_def)
    have "read_proc (of_nat n) s1 = Some ((of_nat ?L, data), s1\<lparr>temp := of_nat 0\<rparr>)"
      using r[OF assms(8), of ?L] assms(3,7) s1 by (simp add: min_def)
    moreover have "read_proc (of_nat n) (s1\<lparr>temp := of_nat 0\<rparr>) = Some ((0, []), s1)"
      using r[OF assms(8), of 0] s1 by simp
    moreover have "read_proc (of_nat k) s1 = Some ((of_nat k, take k data), s1\<lparr>temp := of_nat (?L - k)\<rparr>)"
      using r[of k ?L] assms(4-6) s1 by (simp add: min_def)
    moreover have "\<exists>c s3. read_proc (of_nat k) (s1\<lparr>temp := of_nat (?L - k)\<rparr>) = Some ((c, take (min k (?L - k)) data), s3)"
      using r[of k "?L - k"] assms(4,5) by simp
    ultimately show ?thesis using w False by auto
  qed
qed

theorem procfs_message_reads_witness:
  "returns (write_proc [1, 2, 3, 4] (of_nat (length [1 :: byte, 2, 3, 4])) \<lparr>len = 0, temp = 0, msg = replicate 100 0\<rparr>) (\<lambda>r s1.
     returns (read_proc (of_nat 2) s1) (\<lambda>r s2. snd r = [1, 2] \<and> returns (read_proc (of_nat 2) s2) (\<lambda>r s3. snd r = [1, 2])))"
  using procfs_message_reads[of "\<lparr>len = 0, temp = 0, msg = replicate 100 0\<rparr>" "[1, 2, 3, 4]" 2 100]
  by (auto elim!: returnsE)

end
