(* ===== verification/Step_Systems.thy ===== *)
theory Step_Systems
  imports Main
begin

text \<open>
  What the programs that are step relations share: an invariant that every step keeps holds in every reachable state, and a program
  whose steps lose weight comes to a state in which nothing moves. The relations' theories interpret the locales.
\<close>

section \<open>Invariants\<close>

locale step_invariant =
  fixes step :: "'s \<Rightarrow> 's \<Rightarrow> bool" and holds :: "'s \<Rightarrow> bool"
  assumes keeps: "step s s' \<Longrightarrow> holds s \<Longrightarrow> holds s'"
begin

lemma reach: "step\<^sup>*\<^sup>* s s' \<Longrightarrow> holds s \<Longrightarrow> holds s'"
  by (induction rule: rtranclp_induct) (blast intro: keeps)+

end

section \<open>Runs that end\<close>

locale step_weight = step_invariant step holds
  for step :: "'s \<Rightarrow> 's \<Rightarrow> bool" and holds :: "'s \<Rightarrow> bool" +
  fixes weight :: "'s \<Rightarrow> nat"
  assumes lighter: "step s s' \<Longrightarrow> holds s \<Longrightarrow> weight s' < weight s"
begin

lemma bounded: "(step ^^ k) s s' \<Longrightarrow> holds s \<Longrightarrow> k + weight s' \<le> weight s \<and> holds s'"
proof (induction k arbitrary: s')
  case (Suc k)
  then obtain t where t: "(step ^^ k) s t" "step t s'" by auto
  then show ?case using Suc.IH[of t] Suc.prems(2) lighter[of t s'] keeps[of t s'] by simp
qed simp

text \<open>Every run can be continued to a state in which nothing moves.\<close>

lemma ends: "holds s \<Longrightarrow> \<exists>t. step\<^sup>*\<^sup>* s t \<and> holds t \<and> \<not> (\<exists>u. step t u)"
proof (induction "weight s" arbitrary: s rule: less_induct)
  case less
  show ?case
  proof (cases "\<exists>u. step s u")
    case True
    then obtain u where u: "step s u" by blast
    then show ?thesis using less.hyps[OF lighter[OF u less.prems] keeps[OF u less.prems]] converse_rtranclp_into_rtranclp[of step s u] by blast
  qed (use less.prems in blast)
qed

end

end
