(* ===== verification/Pipe_Line.thy ===== *)
theory Pipe_Line
  imports Step_Systems C_Output
begin

text \<open>
  \<^verbatim>\<open>src/unnamed_pipes/src/main.c\<close>: a program that runs \<^verbatim>\<open>ls -l\<close> and \<^verbatim>\<open>cut\<close> and connects them with a pipe. Three processes, each with
  its table of descriptors and the output buffer of its C library, and a pipe of bounded capacity; one step is one call of one process.
  The program calls \<^verbatim>\<open>waitpid\<close>, which it has not declared, with one argument, so the other two are what the registers hold: the call
  may wait for \<^verbatim>\<open>ls\<close> or return at once. Which of both is a parameter. \<^verbatim>\<open>pipe\<close> and \<^verbatim>\<open>fork\<close> succeed here.
\<close>

section \<open>Processes and the pipe\<close>

datatype who = Main | Ls | Cut

datatype fdesc = Term | Rd | Wr

text \<open>\<open>Run_write\<close> and \<open>Run_read\<close> stand for the programs that \<^verbatim>\<open>execl\<close> starts and for the flushing of a buffer: a text still to be
  written to descriptor 1, and reading from descriptor 0 until there is no more. \<open>End\<close> closes what is open.\<close>

datatype op = Hello | Newline | Fork who | Waitpid who | Close nat | Dup2 nat nat | Execl | Perror_execl | Exit | Run_write string | Run_read | End

record proc =
  todo :: "op list"
  fds :: "nat \<Rightarrow> fdesc option"
  obuf :: string

text \<open>\<open>got\<close> is what \<^verbatim>\<open>cut\<close> has read, \<open>out\<close> what has been written to the terminal or file that is the program's output.\<close>

record pls =
  procs :: "who \<Rightarrow> proc"
  pipe :: string
  got :: string
  out :: string

text \<open>The environment: whether the output is a terminal, the capacity of the pipe, whether \<^verbatim>\<open>waitpid\<close> waits, which programs can be
  executed, what \<^verbatim>\<open>ls\<close> writes and what \<^verbatim>\<open>cut\<close> makes of its input, the message of \<^verbatim>\<open>perror\<close>, and the pids.\<close>

record env =
  tty :: bool
  cap :: nat
  waits :: bool
  runs :: "who \<Rightarrow> bool"
  ls_text :: string
  cut_fun :: "string \<Rightarrow> string"
  err_text :: string
  pid :: "who \<Rightarrow> nat"
  shell :: nat

section \<open>The program\<close>

text \<open>\<^verbatim>\<open>fd_ps\<close> is \<open>{3, 4}\<close>: reading end and writing end.\<close>

definition main_ops :: "op list" where
  "main_ops = [Hello, Fork Ls, Waitpid Ls, Fork Cut, Newline, Exit]"

definition ls_ops :: "op list" where
  "ls_ops = [Hello, Close 3, Dup2 4 1, Execl, Perror_execl, Exit]"

definition cut_ops :: "op list" where
  "cut_ops = [Hello, Close 4, Dup2 3 0, Execl, Perror_execl, Exit]"

fun child_ops :: "who \<Rightarrow> op list" where
  "child_ops Main = main_ops"
| "child_ops Ls = ls_ops"
| "child_ops Cut = cut_ops"

text \<open>What the program in \<^verbatim>\<open>/bin/ls\<close> or \<^verbatim>\<open>/usr/bin/cut\<close> does.\<close>

definition image :: "env \<Rightarrow> who \<Rightarrow> op list" where
  "image e w = (if w = Cut then [Run_read, End] else [Run_write (ls_text e), End])"

text \<open>The lines; the parent of a process whose parent has ended is process 1.\<close>

definition pids_text :: "env \<Rightarrow> pls \<Rightarrow> who \<Rightarrow> string" where
  "pids_text e s w = ''pid: '' @ dec_str (pid e w) @ '' ppid: '' @
     dec_str (if w = Main then shell e else if todo (procs s Main) = [] then 1 else pid e Main) @ [CHR 0x0A]"

fun hello :: "env \<Rightarrow> pls \<Rightarrow> who \<Rightarrow> string" where
  "hello e s Main = [CHR 0x0A] @ ''(main): '' @ pids_text e s Main"
| "hello e s Ls = ''(ls): '' @ pids_text e s Ls"
| "hello e s Cut = ''(cut): '' @ pids_text e s Cut @ ''Cut:'' @ [CHR 0x0A]"

text \<open>A text that ends a line goes to a terminal at once, and otherwise to the buffer.\<close>

definition put :: "env \<Rightarrow> who \<Rightarrow> string \<Rightarrow> op list \<Rightarrow> pls \<Rightarrow> pls" where
  "put e w t ops s = (if tty e then s\<lparr>procs := (procs s)(w := (procs s w)\<lparr>todo := ops\<rparr>), out := out s @ t\<rparr>
     else s\<lparr>procs := (procs s)(w := (procs s w)\<lparr>todo := ops, obuf := obuf (procs s w) @ t\<rparr>)\<rparr>)"

definition goto :: "who \<Rightarrow> op list \<Rightarrow> pls \<Rightarrow> pls" where
  "goto w ops s = s\<lparr>procs := (procs s)(w := (procs s w)\<lparr>todo := ops\<rparr>)\<rparr>"

definition set_fds :: "who \<Rightarrow> (nat \<Rightarrow> fdesc option) \<Rightarrow> pls \<Rightarrow> pls" where
  "set_fds w f s = s\<lparr>procs := (procs s)(w := (procs s w)\<lparr>fds := f\<rparr>)\<rparr>"

definition drop_buf :: "who \<Rightarrow> pls \<Rightarrow> pls" where
  "drop_buf w s = s\<lparr>procs := (procs s)(w := (procs s w)\<lparr>obuf := []\<rparr>)\<rparr>"

definition open_end :: "fdesc \<Rightarrow> pls \<Rightarrow> bool" where
  "open_end d s \<longleftrightarrow> (\<exists>w \<in> {Main, Ls, Cut}. \<exists>i \<in> {0, 1, 3, 4}. fds (procs s w) i = Some d)"

section \<open>Steps\<close>

text \<open>A write to the pipe takes what fits, and ends the process if no one can read; a read takes what there is, and sees the end of
  the file when the pipe is empty and no one can write.\<close>

inductive pl_move :: "env \<Rightarrow> who \<Rightarrow> pls \<Rightarrow> pls \<Rightarrow> bool" for e w where
  hello: "todo (procs s w) = Hello # ops \<Longrightarrow> pl_move e w s (put e w (hello e s w) ops s)"
| newline: "todo (procs s w) = Newline # ops \<Longrightarrow> pl_move e w s (put e w [CHR 0x0A] ops s)"
| fork: "todo (procs s w) = Fork c # ops \<Longrightarrow>
    pl_move e w s (goto w ops (s\<lparr>procs := (procs s)(c := \<lparr>todo = child_ops c, fds = fds (procs s w), obuf = obuf (procs s w)\<rparr>)\<rparr>))"
| waitpid: "todo (procs s w) = Waitpid c # ops \<Longrightarrow> waits e \<longrightarrow> todo (procs s c) = [] \<Longrightarrow> pl_move e w s (goto w ops s)"
| close: "todo (procs s w) = Close i # ops \<Longrightarrow> pl_move e w s (goto w ops (set_fds w ((fds (procs s w))(i := None)) s))"
| dup2: "todo (procs s w) = Dup2 i j # ops \<Longrightarrow> pl_move e w s (goto w ops (set_fds w ((fds (procs s w))(j := fds (procs s w) i)) s))"
| execl: "todo (procs s w) = Execl # ops \<Longrightarrow> runs e w \<Longrightarrow> pl_move e w s (goto w (image e w) (drop_buf w s))"
| execl_fails: "todo (procs s w) = Execl # ops \<Longrightarrow> \<not> runs e w \<Longrightarrow> pl_move e w s (goto w ops s)"
| perror: "todo (procs s w) = Perror_execl # ops \<Longrightarrow> pl_move e w s (goto w ops (s\<lparr>out := out s @ err_text e\<rparr>))"
| exit: "todo (procs s w) = Exit # ops \<Longrightarrow> pl_move e w s (goto w [Run_write (obuf (procs s w)), End] (drop_buf w s))"
| write_out: "todo (procs s w) = Run_write t # ops \<Longrightarrow> fds (procs s w) 1 = Some Term \<Longrightarrow> pl_move e w s (goto w ops (s\<lparr>out := out s @ t\<rparr>))"
| write_pipe: "todo (procs s w) = Run_write t # ops \<Longrightarrow> fds (procs s w) 1 = Some Wr \<Longrightarrow> open_end Rd s \<Longrightarrow>
    0 < n \<Longrightarrow> n \<le> length t \<Longrightarrow> length (pipe s) + n \<le> cap e \<Longrightarrow> pl_move e w s (goto w (Run_write (drop n t) # ops) (s\<lparr>pipe := pipe s @ take n t\<rparr>))"
| write_done: "todo (procs s w) = Run_write [] # ops \<Longrightarrow> fds (procs s w) 1 = Some Wr \<Longrightarrow> pl_move e w s (goto w ops s)"
| sigpipe: "todo (procs s w) = Run_write t # ops \<Longrightarrow> t \<noteq> [] \<Longrightarrow> fds (procs s w) 1 = Some Wr \<Longrightarrow> \<not> open_end Rd s \<Longrightarrow>
    pl_move e w s (goto w [] (set_fds w (\<lambda>_. None) s))"
| read: "todo (procs s w) = Run_read # ops \<Longrightarrow> fds (procs s w) 0 = Some Rd \<Longrightarrow> 0 < n \<Longrightarrow> n \<le> length (pipe s) \<Longrightarrow>
    pl_move e w s (s\<lparr>pipe := drop n (pipe s), got := got s @ take n (pipe s)\<rparr>)"
| eof: "todo (procs s w) = Run_read # ops \<Longrightarrow> fds (procs s w) 0 = Some Rd \<Longrightarrow> pipe s = [] \<Longrightarrow> \<not> open_end Wr s \<Longrightarrow>
    pl_move e w s (goto w (Run_write (cut_fun e (got s)) # ops) s)"
| finish: "todo (procs s w) = End # ops \<Longrightarrow> pl_move e w s (goto w [] (set_fds w (\<lambda>_. None) s))"

definition pl_step :: "env \<Rightarrow> pls \<Rightarrow> pls \<Rightarrow> bool" where
  "pl_step e s s' \<longleftrightarrow> (\<exists>w. pl_move e w s s')"

definition no_proc :: proc where
  "no_proc = \<lparr>todo = [], fds = (\<lambda>_. None), obuf = []\<rparr>"

definition all_fds :: "nat \<Rightarrow> fdesc option" where
  "all_fds = [0 \<mapsto> Term, 1 \<mapsto> Term, 3 \<mapsto> Rd, 4 \<mapsto> Wr]"

text \<open>After the call of \<^verbatim>\<open>pipe\<close>.\<close>

definition pl_init :: pls where
  "pl_init = \<lparr>procs = (\<lambda>_. no_proc)(Main := \<lparr>todo = main_ops, fds = all_fds, obuf = []\<rparr>), pipe = [], got = [], out = []\<rparr>"

section \<open>What every state satisfies\<close>

text \<open>Both programs can be executed.\<close>

definition good :: "env \<Rightarrow> bool" where
  "good e \<longleftrightarrow> runs e Ls \<and> runs e Cut \<and> 0 < cap e"

definition writing :: "op list \<Rightarrow> bool" where
  "writing ops \<longleftrightarrow> ops = [End] \<or> (\<exists>t. ops = [Run_write t, End])"

definition closed :: "proc \<Rightarrow> bool" where
  "closed p \<longleftrightarrow> todo p = [] \<and> fds p = (\<lambda>_. None)"

definition main_ok :: "proc \<Rightarrow> bool" where
  "main_ok p \<longleftrightarrow> closed p \<or> fds p = all_fds \<and> (todo p \<in> {main_ops, drop 1 main_ops, drop 2 main_ops, drop 3 main_ops, drop 4 main_ops, [Exit]} \<or> writing (todo p))"

definition ls_ok :: "proc \<Rightarrow> bool" where
  "ls_ok p \<longleftrightarrow> closed p \<or> fds p = all_fds \<and> todo p \<in> {ls_ops, drop 1 ls_ops} \<or> fds p = all_fds(3 := None) \<and> todo p = drop 2 ls_ops \<or>
     fds p = all_fds(3 := None, 1 := Some Wr) \<and> (todo p = drop 3 ls_ops \<or> writing (todo p))"

definition cut_ok :: "proc \<Rightarrow> bool" where
  "cut_ok p \<longleftrightarrow> closed p \<or> fds p = all_fds \<and> todo p \<in> {cut_ops, drop 1 cut_ops} \<or> fds p = all_fds(4 := None) \<and> todo p = drop 2 cut_ops \<or>
     fds p = all_fds(4 := None, 0 := Some Rd) \<and> (todo p \<in> {drop 3 cut_ops, [Run_read, End]} \<or> writing (todo p))"

text \<open>What the process will still write to the pipe.\<close>

fun pending :: "env \<Rightarrow> op list \<Rightarrow> string" where
  "pending e [] = []"
| "pending e [End] = []"
| "pending e (Run_write t # ops) = t"
| "pending e ops = ls_text e"

text \<open>With \<open>m\<close>, \<open>l\<close> and \<open>c\<close> still to be done by the processes:\<close>

definition link :: "env \<Rightarrow> pls \<Rightarrow> bool" where
  "link e s \<longleftrightarrow> (let m = todo (procs s Main); l = todo (procs s Ls); c = todo (procs s Cut) in
     (if Fork Ls \<in> set m then closed (procs s Ls) \<and> pipe s = [] else got s @ pipe s @ pending e l = ls_text e) \<and>
     (if Fork Cut \<in> set m then closed (procs s Cut) \<and> got s = [] else c = [] \<or> writing c \<longrightarrow> l = [] \<and> pipe s = []) \<and>
     (waits e \<and> Waitpid Ls \<notin> set m \<longrightarrow> l = [] \<and> length (ls_text e) \<le> cap e) \<and> length (pipe s) \<le> cap e)"

definition pl_inv :: "env \<Rightarrow> pls \<Rightarrow> bool" where
  "pl_inv e s \<longleftrightarrow> main_ok (procs s Main) \<and> ls_ok (procs s Ls) \<and> cut_ok (procs s Cut) \<and> link e s"

lemmas ops_defs = main_ops_def ls_ops_def cut_ops_def
lemmas shape_defs = main_ok_def ls_ok_def cut_ok_def closed_def writing_def
lemmas upd_defs = put_def goto_def set_fds_def drop_buf_def image_def

lemma shapes_keep:
  assumes "pl_move e w s s'" "good e" "main_ok (procs s Main)" "ls_ok (procs s Ls)" "cut_ok (procs s Cut)"
  shows "main_ok (procs s' Main) \<and> ls_ok (procs s' Ls) \<and> cut_ok (procs s' Cut)"
  using assms(1)
proof (cases rule: pl_move.cases)
  case (dup2 i j ops)
  then show ?thesis using assms(2-) by (cases w; auto simp: shape_defs ops_defs upd_defs all_fds_def fun_upd_twist)
qed (use assms(2-) in \<open>cases w; auto simp: shape_defs ops_defs upd_defs good_def\<close>)+

lemma main_link:
  assumes "pl_move e Main s s'" "good e" "pl_inv e s"
  shows "link e s'"
  using assms(1)
  by (cases rule: pl_move.cases) (use assms(3) in \<open>auto simp: pl_inv_def main_ok_def closed_def writing_def ops_defs upd_defs link_def Let_def all_fds_def\<close>)

lemma open_read:
  assumes "pl_inv e s" "todo (procs s Ls) \<noteq> []"
  shows "open_end Rd s"
proof (cases "todo (procs s Main) = []")
  case True
  then have "todo (procs s Cut) \<noteq> [] \<and> \<not> writing (todo (procs s Cut))" using assms by (auto simp: pl_inv_def link_def Let_def)
  then have "fds (procs s Cut) 3 = Some Rd \<or> fds (procs s Cut) 0 = Some Rd" using assms(1) by (auto simp: pl_inv_def cut_ok_def closed_def all_fds_def)
  then show ?thesis by (auto simp: open_end_def)
next
  case False
  then have "fds (procs s Main) 3 = Some Rd" using assms(1) by (auto simp: pl_inv_def main_ok_def closed_def all_fds_def)
  then show ?thesis by (auto simp: open_end_def)
qed

lemma no_writer:
  assumes "pl_inv e s" "\<not> open_end Wr s"
  shows "todo (procs s Ls) = []"
proof (rule ccontr)
  assume "todo (procs s Ls) \<noteq> []"
  then have "fds (procs s Ls) 4 = Some Wr" using assms(1) by (auto simp: pl_inv_def ls_ok_def closed_def all_fds_def)
  then show False using assms(2) by (auto simp: open_end_def)
qed

lemma ls_shape:
  "ls_ok p \<Longrightarrow> todo p \<in> {[], ls_ops, drop 1 ls_ops, drop 2 ls_ops, drop 3 ls_ops, [End]} \<or> (\<exists>t. todo p = [Run_write t, End] \<and> fds p 1 = Some Wr)"
  by (auto simp: ls_ok_def closed_def writing_def)

lemma ls_link:
  assumes "pl_move e Ls s s'" "good e" "pl_inv e s"
  shows "link e s'"
proof -
  have o: "open_end Rd s" using open_read[OF assms(3)] assms(1) by (auto elim: pl_move.cases)
  have l: "link e s" "ls_ok (procs s Ls)" using assms(3) by (simp_all add: pl_inv_def)
  show ?thesis using assms(1)
    by (cases rule: pl_move.cases) (use assms(2) o l(1) ls_shape[OF l(2)] in \<open>auto simp: closed_def ops_defs upd_defs link_def Let_def good_def\<close>)
qed

lemma cut_link:
  assumes "pl_move e Cut s s'" "good e" "pl_inv e s"
  shows "link e s'"
  using assms(1)
proof (cases rule: pl_move.cases)
  case (read ops n)
  have td: "take n (pipe s) @ drop n (pipe s) @ x = pipe s @ x" for x by (simp flip: append_assoc)
  show ?thesis using read assms(3) by (auto simp: pl_inv_def link_def Let_def closed_def writing_def td)
next
  case (eof ops)
  then show ?thesis using no_writer[OF assms(3)] assms(3) by (auto simp: pl_inv_def link_def Let_def closed_def upd_defs)
qed (use assms(2,3) in \<open>auto simp: pl_inv_def cut_ok_def closed_def writing_def ops_defs upd_defs link_def Let_def all_fds_def good_def\<close>)

lemma inv_keeps: "pl_step e s s' \<Longrightarrow> good e \<and> pl_inv e s \<Longrightarrow> good e \<and> pl_inv e s'"
proof -
  assume a: "pl_step e s s'" "good e \<and> pl_inv e s"
  then obtain w where w: "pl_move e w s s'" by (auto simp: pl_step_def)
  have "link e s'" using w a(2) main_link ls_link cut_link by (cases w) blast+
  then show "good e \<and> pl_inv e s'" using a(2) shapes_keep[OF w] by (simp add: pl_inv_def)
qed

section \<open>When nothing moves\<close>

definition stuck :: "env \<Rightarrow> pls \<Rightarrow> bool" where
  "stuck e s \<longleftrightarrow> \<not> (\<exists>s'. pl_step e s s')"

lemma stuckD: "stuck e s \<Longrightarrow> \<not> pl_move e w s s'"
  by (auto simp: stuck_def pl_step_def)

lemma main_stuck:
  assumes "stuck e s" "pl_inv e s"
  shows "todo (procs s Main) = [] \<or> waits e \<and> hd (todo (procs s Main)) = Waitpid Ls \<and> Fork Cut \<in> set (todo (procs s Main)) \<and>
    Fork Ls \<notin> set (todo (procs s Main)) \<and> todo (procs s Ls) \<noteq> []"
proof -
  have "main_ok (procs s Main)" using assms(2) by (simp add: pl_inv_def)
  then consider "todo (procs s Main) = []" | op ops where "todo (procs s Main) = op # ops" "op \<in> {Hello, Fork Ls, Fork Cut, Newline, Exit, End}"
    | t where "todo (procs s Main) = [Run_write t, End]" "fds (procs s Main) 1 = Some Term" | "todo (procs s Main) = drop 2 main_ops"
    unfolding main_ok_def closed_def writing_def ops_defs by (auto simp: all_fds_def)
  then show ?thesis
  proof cases
    case 2
    then show ?thesis using stuckD[OF assms(1), of Main] by (auto dest: pl_move.intros)
  next
    case (3 t)
    then show ?thesis using stuckD[OF assms(1), of Main] pl_move.write_out by blast
  next
    case 4
    then have w: "todo (procs s Main) = Waitpid Ls # drop 3 main_ops" by (simp add: ops_defs)
    have "waits e \<and> todo (procs s Ls) \<noteq> []" using stuckD[OF assms(1), of Main] pl_move.waitpid[OF w] by blast
    then show ?thesis using 4 by (simp add: ops_defs)
  qed simp
qed

lemma ls_stuck:
  assumes "stuck e s" "pl_inv e s" "good e"
  shows "todo (procs s Ls) = [] \<or> (\<exists>t. todo (procs s Ls) = [Run_write t, End] \<and> t \<noteq> []) \<and> length (pipe s) = cap e"
proof -
  have l: "ls_ok (procs s Ls)" "length (pipe s) \<le> cap e" using assms(2) by (simp_all add: pl_inv_def link_def Let_def)
  consider "todo (procs s Ls) = []" | op ops where "todo (procs s Ls) = op # ops" "op \<in> {Hello, Close 3, Dup2 4 1, Execl, End}"
    | t where "todo (procs s Ls) = [Run_write t, End]" "fds (procs s Ls) 1 = Some Wr" "open_end Rd s"
    using ls_shape[OF l(1)] open_read[OF assms(2)] by (auto simp: ops_defs)
  then show ?thesis
  proof cases
    case 2
    then show ?thesis using stuckD[OF assms(1), of Ls] assms(3) by (auto simp: good_def dest: pl_move.intros)
  next
    case (3 t)
    then have t: "t \<noteq> []" using stuckD[OF assms(1), of Ls] pl_move.write_done by blast
    have "\<not> length (pipe s) + 1 \<le> cap e"
    proof
      assume "length (pipe s) + 1 \<le> cap e"
      then have "\<exists>s'. pl_move e Ls s s'" using pl_move.write_pipe[OF 3, of 1 e] t by (auto simp: Suc_le_eq)
      then show False using stuckD[OF assms(1)] by blast
    qed
    then show ?thesis using 3 t l(2) by simp
  qed simp
qed

lemma cut_stuck:
  assumes "stuck e s" "pl_inv e s" "good e" "todo (procs s Cut) \<noteq> []"
  shows "pipe s = [] \<and> open_end Wr s \<and> fds (procs s Cut) 4 = None \<and> fds (procs s Cut) 3 = Some Rd \<and> fds (procs s Cut) 1 = Some Term \<and> fds (procs s Cut) 0 = Some Rd"
proof -
  have "cut_ok (procs s Cut)" using assms(2) by (simp add: pl_inv_def)
  then consider op ops where "todo (procs s Cut) = op # ops" "op \<in> {Hello, Close 4, Dup2 3 0, Execl, End}"
    | t where "todo (procs s Cut) = [Run_write t, End]" "fds (procs s Cut) 1 = Some Term"
    | "todo (procs s Cut) = [Run_read, End]" "fds (procs s Cut) = all_fds(4 := None, 0 := Some Rd)"
    using assms(4) unfolding cut_ok_def closed_def writing_def ops_defs by (auto simp: all_fds_def)
  then show ?thesis
  proof cases
    case 1
    then show ?thesis using stuckD[OF assms(1), of Cut] assms(3) by (auto simp: good_def dest: pl_move.intros)
  next
    case (2 t)
    then show ?thesis using stuckD[OF assms(1), of Cut] pl_move.write_out by blast
  next
    case 3
    then have f: "fds (procs s Cut) 0 = Some Rd" by simp
    have p: "pipe s = []" using stuckD[OF assms(1), of Cut] pl_move.read[OF 3(1) f, of 1 e] by (cases "pipe s") auto
    then have "open_end Wr s" using stuckD[OF assms(1), of Cut] pl_move.eof[OF 3(1) f] by blast
    then show ?thesis using 3 p by (simp add: all_fds_def)
  qed
qed

lemma stuck_done:
  assumes "stuck e s" "pl_inv e s" "good e" "todo (procs s Main) = []"
  shows "todo (procs s Ls) = [] \<and> todo (procs s Cut) = [] \<and> got s = ls_text e"
proof -
  have k: "got s @ pipe s @ pending e (todo (procs s Ls)) = ls_text e" "todo (procs s Cut) = [] \<longrightarrow> todo (procs s Ls) = [] \<and> pipe s = []" "closed (procs s Main)"
    using assms(2,4) by (auto simp: pl_inv_def link_def Let_def main_ok_def ops_defs writing_def)
  have c: "todo (procs s Cut) = []"
  proof (rule ccontr)
    assume c: "todo (procs s Cut) \<noteq> []"
    note r = cut_stuck[OF assms(1-3) c]
    then have "todo (procs s Ls) = []" using ls_stuck[OF assms(1-3)] assms(3) by (auto simp: good_def)
    then have "closed (procs s Ls)" using assms(2) by (auto simp: pl_inv_def ls_ok_def ops_defs writing_def)
    then show False using r k(3) by (auto simp: open_end_def closed_def)
  qed
  then show ?thesis using k by simp
qed

lemma stuck_waiting:
  assumes "stuck e s" "pl_inv e s" "good e" "todo (procs s Main) \<noteq> []"
  shows "waits e \<and> cap e < length (ls_text e) \<and> hd (todo (procs s Main)) = Waitpid Ls \<and>
    pipe s = take (cap e) (ls_text e) \<and> todo (procs s Ls) = [Run_write (drop (cap e) (ls_text e)), End] \<and> todo (procs s Cut) = []"
proof -
  note m = main_stuck[OF assms(1,2)]
  then obtain t where t: "todo (procs s Ls) = [Run_write t, End]" "t \<noteq> []" "length (pipe s) = cap e" using ls_stuck[OF assms(1-3)] assms(4) by blast
  have "got s = [] \<and> pipe s @ t = ls_text e \<and> todo (procs s Cut) = []"
    using assms(2,4) m t(1) by (auto simp: pl_inv_def link_def Let_def closed_def split: if_splits)
  then have p: "pipe s = take (cap e) (ls_text e)" "t = drop (cap e) (ls_text e)" and c: "todo (procs s Cut) = []"
    using t(3) by (metis append_eq_conv_conj, metis append_eq_conv_conj, blast)
  have "cap e < length (ls_text e)" using t(2) unfolding p(2) by simp
  then show ?thesis using m assms(4) t(1) c unfolding p(2) using p(1) by blast
qed

lemma long_blocks:
  assumes "pl_inv e s" "waits e" "cap e < length (ls_text e)"
  shows "todo (procs s Main) \<noteq> []"
  using assms by (auto simp: pl_inv_def link_def Let_def)

section \<open>Every run ends\<close>

fun op_weight :: "env \<Rightarrow> who \<Rightarrow> op list \<Rightarrow> nat" where
  "op_weight e w [] = 0"
| "op_weight e w (Run_write t # ops) = (if w = Ls then 2 * length t else 0) + 2"
| "op_weight e w (Execl # ops) = (if w = Ls then 2 * length (ls_text e) + 3 else 4)"
| "op_weight e w (Run_read # ops) = 3"
| "op_weight e w (Exit # ops) = 3"
| "op_weight e w (End # ops) = 1"
| "op_weight e w (Fork c # ops) = (if c = Ls then 2 * length (ls_text e) + 6 else 7) + 1 + op_weight e w ops"
| "op_weight e w (_ # ops) = 1 + op_weight e w ops"

definition weight :: "env \<Rightarrow> pls \<Rightarrow> nat" where
  "weight e s = op_weight e Main (todo (procs s Main)) + op_weight e Ls (todo (procs s Ls)) + op_weight e Cut (todo (procs s Cut)) + length (pipe s)"

lemma main_lighter: "pl_move e Main s s' \<Longrightarrow> good e \<Longrightarrow> pl_inv e s \<Longrightarrow> weight e s' < weight e s"
  by (erule pl_move.cases; auto simp: pl_inv_def main_ok_def closed_def writing_def ops_defs upd_defs link_def Let_def all_fds_def weight_def)

lemma ls_lighter: 
  assumes "pl_move e Ls s s'" "good e" "pl_inv e s" shows "weight e s' < weight e s"
proof -
  have o: "open_end Rd s" using open_read[OF assms(3)] assms(1) by (auto elim: pl_move.cases)
  have l: "ls_ok (procs s Ls)" using assms(3) by (simp_all add: pl_inv_def)
  show ?thesis using assms(1)
    by (cases rule: pl_move.cases) (use assms(2) o ls_shape[OF l] in \<open>auto simp: ops_defs upd_defs good_def weight_def\<close>)
qed

lemma cut_lighter: 
  assumes "pl_move e Cut s s'" "good e" "pl_inv e s" shows "weight e s' < weight e s"
  using assms(1)
  by (cases rule: pl_move.cases) (use assms(2,3) in \<open>auto simp: pl_inv_def cut_ok_def closed_def writing_def ops_defs upd_defs all_fds_def good_def weight_def\<close>)


lemma lighter: "pl_step e s s' \<Longrightarrow> good e \<and> pl_inv e s \<Longrightarrow> weight e s' < weight e s"
proof -
  assume a: "pl_step e s s'" "good e \<and> pl_inv e s"
  then obtain w where w: "pl_move e w s s'" by (auto simp: pl_step_def)
  show "weight e s' < weight e s" using w a(2) main_lighter ls_lighter cut_lighter by (cases w) blast+
qed

interpretation pl: step_weight "pl_step e" "\<lambda>s. good e \<and> pl_inv e s" "weight e" for e
  by unfold_locales (rule inv_keeps lighter; assumption)+

lemma init_inv: "pl_inv e pl_init"
  by (auto simp: pl_inv_def pl_init_def shape_defs link_def Let_def no_proc_def main_ops_def)

theorem pipe_line_ends:
  assumes "good e" "(pl_step e ^^ k) pl_init s"
  shows "k \<le> 4 * length (ls_text e) + 24"
  using pl.bounded[OF assms(2)] assms(1) init_inv by (auto simp: weight_def pl_init_def no_proc_def main_ops_def)

text \<open>The outcome of a run: blocked, or complete.\<close>

definition blocked :: "env \<Rightarrow> pls \<Rightarrow> bool" where
  "blocked e s \<longleftrightarrow> hd (todo (procs s Main)) = Waitpid Ls \<and> todo (procs s Ls) = [Run_write (drop (cap e) (ls_text e)), End] \<and>
     todo (procs s Cut) = [] \<and> pipe s = take (cap e) (ls_text e)"

definition complete :: "env \<Rightarrow> pls \<Rightarrow> bool" where
  "complete e s \<longleftrightarrow> todo (procs s Main) = [] \<and> todo (procs s Ls) = [] \<and> todo (procs s Cut) = [] \<and> got s = ls_text e"

lemma stuck_outcome:
  assumes "stuck e s" "pl_inv e s" "good e"
  shows "if waits e \<and> cap e < length (ls_text e) then blocked e s else complete e s"
proof (cases "todo (procs s Main) = []")
  case True
  then show ?thesis using stuck_done[OF assms] long_blocks[OF assms(2)] by (auto simp: complete_def)
next
  case False
  then show ?thesis using stuck_waiting[OF assms] by (simp add: blocked_def)
qed

text \<open>C27: Two programs in a pipe. Both programs can be executed. Every run comes to a state in which nothing moves any more. If
  \<^verbatim>\<open>waitpid\<close> waits and the listing is larger than the pipe, that is a deadlock: \<^verbatim>\<open>ls\<close> cannot write the rest of the listing, and \<^verbatim>\<open>cut\<close>,
  which would read it, is never started. In all other cases every process has ended, and \<^verbatim>\<open>cut\<close> has read exactly what \<^verbatim>\<open>ls\<close> wrote.\<close>
theorem pipe_line_result:
  assumes "runs e Ls" "runs e Cut" "0 < cap e" "(pl_step e)\<^sup>*\<^sup>* pl_init s"
  shows "(\<exists>t. (pl_step e)\<^sup>*\<^sup>* s t \<and> stuck e t) \<and> (stuck e s \<longrightarrow> (if waits e \<and> cap e < length (ls_text e) then blocked e s else complete e s))"
proof -
  have g: "good e" using assms(1-3) by (simp add: good_def)
  have i: "good e \<and> pl_inv e s" using pl.reach[OF assms(4)] g init_inv by blast
  have "\<exists>t. (pl_step e)\<^sup>*\<^sup>* s t \<and> stuck e t" using pl.ends[OF i] by (auto simp: stuck_def)
  then show ?thesis using stuck_outcome i by blast
qed

text \<open>A listing of three bytes through a pipe of two.\<close>

definition small :: "bool \<Rightarrow> env" where
  "small wt = \<lparr>tty = True, cap = 2, waits = wt, runs = (\<lambda>_. True), ls_text = ''abc'', cut_fun = id, err_text = [], pid = (\<lambda>_. 7), shell = 1\<rparr>"

theorem pipe_line_result_witness:
  "(\<exists>s. (pl_step (small True))\<^sup>*\<^sup>* pl_init s \<and> blocked (small True) s) \<and> (\<exists>s. (pl_step (small False))\<^sup>*\<^sup>* pl_init s \<and> complete (small False) s)"
proof -
  have r: "runs (small w) Ls" "runs (small w) Cut" "0 < cap (small w)" for w by (simp_all add: small_def)
  have "\<exists>s. (pl_step (small w))\<^sup>*\<^sup>* pl_init s \<and> (if waits (small w) \<and> cap (small w) < length (ls_text (small w)) then blocked (small w) s else complete (small w) s)" for w
    using pipe_line_result[OF r rtranclp.rtrancl_refl] pipe_line_result[OF r] by blast
  from this[of True] this[of False] show ?thesis by (simp add: small_def)
qed

end
