(* ===== verification/Msg_Queue.thy ===== *)
theory Msg_Queue
  imports C_Output "HOL-Library.Multiset"
begin

text \<open>
  System V message queues, as \<^verbatim>\<open>src/udp_highload_server\<close> and \<^verbatim>\<open>src/queue_chat\<close> use them, and the contract
  of a thread that takes messages of one type from a queue and puts them back changed (the locale
  \<open>relay\<close>). A queue is the list of its messages, oldest first; \<open>mtyp\<close> gives a message's type. \<^verbatim>\<open>msgsnd\<close>
  appends, \<^verbatim>\<open>msgrcv\<close> with a positive type takes the oldest message of that type; \<open>None\<close> stands for
  no such message (the caller then waits, or gets \<^verbatim>\<open>ENOMSG\<close>).
\<close>

section \<open>Queues\<close>

definition msgsnd :: "'m \<Rightarrow> 'm list \<Rightarrow> 'm list" where
  "msgsnd m q = q @ [m]"

fun msgrcv :: "('m \<Rightarrow> int) \<Rightarrow> int \<Rightarrow> 'm list \<Rightarrow> ('m \<times> 'm list) option" where
  "msgrcv mtyp t [] = None"
| "msgrcv mtyp t (m # q) = (if mtyp m = t then Some (m, q) else map_option (\<lambda>(x, q). (x, m # q)) (msgrcv mtyp t q))"

definition of_type :: "('m \<Rightarrow> int) \<Rightarrow> int \<Rightarrow> 'm list \<Rightarrow> 'm list" where
  "of_type mtyp t q = filter (\<lambda>m. mtyp m = t) q"

lemma of_type_simps [simp]:
  "of_type mtyp t [] = []" "of_type mtyp t (msgsnd m q) = of_type mtyp t q @ (if mtyp m = t then [m] else [])"
  "of_type mtyp t (m # q) = (if mtyp m = t then m # of_type mtyp t q else of_type mtyp t q)"
  by (simp_all add: of_type_def msgsnd_def)

lemma msgrcv_None [simp]: "msgrcv mtyp t q = None \<longleftrightarrow> of_type mtyp t q = []"
  by (induction q) auto

lemma msgrcv_of_type:
  "msgrcv mtyp t q = Some (m, q') \<Longrightarrow> mtyp m = t \<and> of_type mtyp t q = m # of_type mtyp t q' \<and>
     (\<forall>u. u \<noteq> t \<longrightarrow> of_type mtyp u q' = of_type mtyp u q)"
  by (induction q arbitrary: q') (auto split: if_splits)

lemma msgrcv_mset: "msgrcv mtyp t q = Some (m, q') \<Longrightarrow> mset q = add_mset m (mset q')"
  by (induction q arbitrary: q') (auto split: if_splits)

lemma mset_add_set: "mset q = add_mset m (mset q') \<Longrightarrow> set q = insert m (set q')"
  by (metis set_mset_add_mset_insert set_mset_mset)

lemma mset_msgsnd [simp]: "mset (msgsnd m q) = add_mset m (mset q)" "set (msgsnd m q) = insert m (set q)"
  by (simp_all add: msgsnd_def)

section \<open>Relays\<close>

text \<open>
  A thread that repeatedly receives the oldest message \<open>m\<close> of type \<open>t\<close> and sends \<open>f m\<close>. The contract:
  what it sends for a message that satisfies \<open>ok\<close> is not of type \<open>t\<close> again.
\<close>

definition relay_step :: "('m \<Rightarrow> int) \<Rightarrow> int \<Rightarrow> ('m \<Rightarrow> 'm) \<Rightarrow> 'm list \<Rightarrow> 'm list option" where
  "relay_step mtyp t f q = do { (m, q) \<leftarrow> msgrcv mtyp t q; Some (msgsnd (f m) q) }"

fun relay_run :: "nat \<Rightarrow> ('m \<Rightarrow> int) \<Rightarrow> int \<Rightarrow> ('m \<Rightarrow> 'm) \<Rightarrow> 'm list \<Rightarrow> 'm list option" where
  "relay_run 0 mtyp t f q = Some q"
| "relay_run (Suc n) mtyp t f q = do { q \<leftarrow> relay_step mtyp t f q; relay_run n mtyp t f q }"

locale relay =
  fixes mtyp :: "'m \<Rightarrow> int" and t :: int and f :: "'m \<Rightarrow> 'm" and ok :: "'m \<Rightarrow> bool"
  assumes leaves: "ok m \<Longrightarrow> mtyp m = t \<Longrightarrow> mtyp (f m) \<noteq> t"
begin

lemma step_queue:
  assumes "of_type mtyp t q = m # ms" "ok m"
  shows "\<exists>q'. relay_step mtyp t f q = Some q' \<and> of_type mtyp t q' = ms \<and>
    (\<forall>u. u \<noteq> t \<longrightarrow> of_type mtyp u q' = of_type mtyp u q @ (if mtyp (f m) = u then [f m] else []))"
proof -
  obtain x q1 where r: "msgrcv mtyp t q = Some (x, q1)" using assms(1) msgrcv_None[of mtyp t q] by fastforce
  then have x: "x = m" "of_type mtyp t q1 = ms" "\<forall>u. u \<noteq> t \<longrightarrow> of_type mtyp u q1 = of_type mtyp u q" "mtyp m = t"
    using msgrcv_of_type[OF r] assms(1) by auto
  then show ?thesis using r leaves[OF assms(2)] by (simp add: relay_step_def)
qed

text \<open>The relay empties its type and appends the images, in order, to their types.\<close>

lemma drains:
  assumes "of_type mtyp t q = ms" "\<forall>m \<in> set ms. ok m"
  shows "\<exists>q'. relay_run (length ms) mtyp t f q = Some q' \<and> of_type mtyp t q' = [] \<and>
    (\<forall>u. u \<noteq> t \<longrightarrow> of_type mtyp u q' = of_type mtyp u q @ of_type mtyp u (map f ms))"
  using assms
proof (induction ms arbitrary: q)
  case (Cons m ms)
  obtain q1 where q1: "relay_step mtyp t f q = Some q1" "of_type mtyp t q1 = ms"
    "\<forall>u. u \<noteq> t \<longrightarrow> of_type mtyp u q1 = of_type mtyp u q @ (if mtyp (f m) = u then [f m] else [])"
    using step_queue[OF Cons.prems(1)] Cons.prems(2) by auto
  obtain q2 where "relay_run (length ms) mtyp t f q1 = Some q2" "of_type mtyp t q2 = []"
    "\<forall>u. u \<noteq> t \<longrightarrow> of_type mtyp u q2 = of_type mtyp u q1 @ of_type mtyp u (map f ms)"
    using Cons.IH[OF q1(2)] Cons.prems(2) by auto
  then show ?case using q1 by auto
qed simp

end

end
