(* ===== verification/Highload_Server.thy ===== *)
theory Highload_Server
  imports Msg_Queue
begin

text \<open>
  The UDP server \<^verbatim>\<open>src/udp_highload_server\<close>: a main thread that receives requests and sends replies
  (\<^verbatim>\<open>srv_reqs_hndl\<close>), and ten threads that turn requests into replies (\<^verbatim>\<open>cln_repl_hndl\<close>), connected by one
  message queue. The main thread's loop body is split where it waits for nothing but touches the
  queue: \<open>srv_recv\<close> up to \<^verbatim>\<open>msgsnd\<close> and \<open>srv_reply\<close> from \<^verbatim>\<open>msgrcv\<close> on; a worker's body likewise into \<open>cln_take\<close> and
  \<open>cln_send\<close>. \<open>hl_step\<close> interleaves them.

  System calls enter through their results: \<open>recv\<close> for \<^verbatim>\<open>recvfrom\<close>, and a Boolean per call that can
  fail. The time text of \<^verbatim>\<open>get_cur_dt\<close> is the parameter \<open>now\<close>, host names the parameter \<open>host\<close>. A result
  \<open>Some (Some code, s)\<close> ends the process or thread with \<open>code\<close>; \<open>None\<close> is an access outside a buffer. The
  eight bytes that \<^verbatim>\<open>msgsnd\<close> and \<^verbatim>\<open>msgrcv\<close> move behind each message, because the size passed includes the
  type field, are not modelled.
\<close>

section \<open>Data\<close>

record sockaddr_in =
  sin_addr :: "byte list"
  sin_port :: u16

record REQS_REPL_MSG =
  msg_type :: int
  cln_addr :: sockaddr_in
  socket_len :: nat
  request :: "byte list"
  reply :: "byte list"

abbreviation (input) "REQS_MSG_TYPE \<equiv> 1 :: int"
abbreviation (input) "REPL_MSG_TYPE \<equiv> 2 :: int"

datatype recv = EAGAIN | Recv_Error | Datagram sockaddr_in "byte list"

text \<open>
  The server process: the queue, what was sent to whom, what was printed and the number of blocks
  allocated and never freed. \<open>accepted\<close> and \<open>lost\<close> record, for the theorems, the clients whose requests
  entered the queue and those whose message was taken from it by a thread that then failed.
\<close>

record server =
  queue :: "REQS_REPL_MSG list"
  sent :: "(sockaddr_in \<times> byte list) list"
  log :: "event list"
  leaked :: nat
  accepted :: "sockaddr_in list"
  lost :: "sockaddr_in list"

abbreviation text_arg :: "byte list \<Rightarrow> arg" where
  "text_arg bs \<equiv> Str (map (\<lambda>b. char_of (unat b)) bs)"

definition emit :: "event list \<Rightarrow> server \<Rightarrow> server" where
  "emit es s = s\<lparr>log := log s @ es\<rparr>"

section \<open>Start\<close>

text \<open>\<^verbatim>\<open>init_socket\<close> and \<^verbatim>\<open>init_queue\<close>, given the results of the calls: the descriptor, or the exit code.\<close>

definition init_socket :: "int \<Rightarrow> int \<Rightarrow> event list \<times> (int + int)" where
  "init_socket sock rtn =
     (if sock = - 1 then ([Perror ''Server: socket(server)'', Call ''close'' [Num sock]], Inl 1)
      else if rtn = - 1 then ([Perror ''Server: bind(server)'', Call ''close'' [Num sock]], Inl 1)
      else ([], Inr sock))"

definition init_queue :: "int \<Rightarrow> int \<Rightarrow> event list \<times> (int + int)" where
  "init_queue reqs_repl_key qid =
     (if reqs_repl_key = - 1 then ([Perror ''Server: ftok(request&replies)''], Inl 1)
      else if qid = - 1 then ([Perror ''Server: msgget(request&replies)''], Inl 1)
      else ([], Inr qid))"

datatype LOG_MSG_TYPE = INFO | WARNING | ERROR

text \<open>\<^verbatim>\<open>sys_log\<close>: the text handed to \<^verbatim>\<open>write\<close>; \<^verbatim>\<open>snprintf\<close> cuts it to 127 characters.\<close>

definition sys_log :: "string \<Rightarrow> string \<Rightarrow> LOG_MSG_TYPE \<Rightarrow> string" where
  "sys_log cur_dt msg type = (let name = (case type of
       INFO \<Rightarrow> ''INFORMATION''
     | WARNING \<Rightarrow> ''WARNING''
     | ERROR \<Rightarrow> ''ERROR'')
     in take 127 (cur_dt @ '' ['' @ name @ '']: '' @ ln msg))"

section \<open>The main thread\<close>

definition srv_recv :: "(sockaddr_in \<Rightarrow> string) \<Rightarrow> recv \<Rightarrow> bool \<Rightarrow> bool \<Rightarrow> server \<Rightarrow> (int option \<times> server) option" where
  "srv_recv host r calloc_ok snd_ok s = (case r of
     EAGAIN \<Rightarrow> Some (None, s)
   | Recv_Error \<Rightarrow> Some (Some 1, emit [Perror ''Server: recvfrom(client)'', Call ''close'' []] s)
   | Datagram addr data \<Rightarrow>
       let bts = min 64 (length data);
           msg = take 64 (data @ replicate 64 0) in
       if 0 \<notin> set msg then None
       else
         let s = emit [Printf (ln ''Server: incoming connection from %s:%d (hs: %s)'')
                         [Str (inet_ntoa (sin_addr addr)), num16 (ntohs (sin_port addr)), Str (host addr)],
                       Printf (ln (''Server: recived request message from client: '' @ sq ''%s'' @ '' (%d bytes)''))
                         [text_arg (cstr msg), Num (int bts)]] s in
         if cstr msg = bytes_of ''exit'' then
           Some (Some 0, emit [say (ln ''Server: main thread bye''), Call ''close'' []] s)
         else if \<not> calloc_ok then
           Some (Some 0, emit [say ''Server: malloc(reqs_msg)'', Call ''close'' []] s)
         else
           let reqs_msg = \<lparr>msg_type = REQS_MSG_TYPE, cln_addr = addr, socket_len = 16,
                 request = take bts (cstr msg @ replicate 64 0) @ replicate (64 - bts) 0, reply = replicate 128 0\<rparr>;
               s = s\<lparr>leaked := Suc (leaked s)\<rparr> in
           if \<not> snd_ok then
             Some (Some 1, emit [Perror ''Server: msgsnd(request)'', Call ''close'' []] s)
           else Some (None, s\<lparr>queue := msgsnd reqs_msg (queue s), accepted := accepted s @ [addr]\<rparr>))"

definition srv_reply :: "bool \<Rightarrow> bool \<Rightarrow> server \<Rightarrow> (int option \<times> server) option" where
  "srv_reply rcv_ok send_ok s =
     (if \<not> rcv_ok then Some (Some 1, emit [Perror ''Server: msgrcv(reply)'', Call ''close'' []] s)
      else case msgrcv msg_type REPL_MSG_TYPE (queue s) of
        None \<Rightarrow> Some (None, s)
      | Some (repl_msg, q) \<Rightarrow>
          let s = s\<lparr>queue := q\<rparr>; text = cstr (reply repl_msg) in
          if 0 \<notin> set (reply repl_msg) then None
          else if \<not> send_ok then
            Some (Some 1, emit [Perror ''Server: sendto(client)'', Call ''close'' []] (s\<lparr>lost := lost s @ [cln_addr repl_msg]\<rparr>))
          else
            Some (None, emit [Printf (ln (ln (''Server: send reply message to client: '' @ sq ''%s'' @ '' (%d bytes)'')))
                                [text_arg text, Num (int (length text))]]
                          (s\<lparr>sent := sent s @ [(cln_addr repl_msg, text)]\<rparr>)))"

section \<open>The workers\<close>

text \<open>\<^verbatim>\<open>cln_repl_hndl\<close>: \<open>cln_take\<close> waits for a request (a result without a message ends the thread; no result: it still waits),
  \<open>make_reply\<close> fills it in, \<open>cln_send\<close> puts it back.\<close>

definition cln_take :: "bool \<Rightarrow> bool \<Rightarrow> server \<Rightarrow> (REQS_REPL_MSG option \<times> server) option" where
  "cln_take malloc_ok rcv_ok s =
     (if \<not> malloc_ok then Some (None, emit [say ''Server: malloc(reqs_repl_msg)''] s)
      else let s = s\<lparr>leaked := Suc (leaked s)\<rparr> in
      if \<not> rcv_ok then Some (None, emit [Perror ''Server: msgrcv(reqs)''] s)
      else do {
        (m, q) \<leftarrow> msgrcv msg_type REQS_MSG_TYPE (queue s);
        Some (Some m, s\<lparr>queue := q\<rparr>) })"

definition make_reply :: "byte list \<Rightarrow> REQS_REPL_MSG \<Rightarrow> REQS_REPL_MSG" where
  "make_reply now m = m\<lparr>reply := take 128 (cstr now @ replicate 128 0), msg_type := REPL_MSG_TYPE\<rparr>"

definition cln_send :: "byte list \<Rightarrow> bool \<Rightarrow> REQS_REPL_MSG \<Rightarrow> server \<Rightarrow> bool \<times> server" where
  "cln_send now snd_ok m s =
     (let s = emit [Printf (ln (''Server: request accepted for processing: '' @ sq ''%s'')) [text_arg (cstr (request m))]] s;
          m = make_reply now m in
      if \<not> snd_ok then (False, emit [Perror ''Server: msgsnd(reply)''] (s\<lparr>lost := lost s @ [cln_addr m]\<rparr>))
      else (True, emit [Printf (ln (''Server: request processed, reply: '' @ sq ''%s'')) [text_arg (cstr (reply m))]]
                    (s\<lparr>queue := msgsnd m (queue s)\<rparr>)))"

section \<open>The threads together\<close>

datatype main_pc = At_Recv | At_Reply | Ended int

datatype worker = Waiting | Working REQS_REPL_MSG | Gone

record world =
  srv :: server
  pc :: main_pc
  workers :: "worker list"

text \<open>\<open>now\<close> is what \<^verbatim>\<open>strftime\<close> stored in its 128 bytes: a string of at most 127 characters.\<close>

definition time_text :: "byte list \<Rightarrow> bool" where
  "time_text now = (length now < 128 \<and> 0 \<notin> set now)"

text \<open>The threads run until the main thread ends the process.\<close>

definition running :: "world \<Rightarrow> bool" where
  "running w = (case pc w of Ended c \<Rightarrow> False | _ \<Rightarrow> True)"

inductive hl_step :: "world \<Rightarrow> world \<Rightarrow> bool" where
  recv: "pc w = At_Recv \<Longrightarrow> srv_recv host r calloc_ok snd_ok (srv w) = Some (e, s) \<Longrightarrow>
    hl_step w (w\<lparr>srv := s, pc := (case e of None \<Rightarrow> At_Reply | Some c \<Rightarrow> Ended c)\<rparr>)"
| reply: "pc w = At_Reply \<Longrightarrow> srv_reply rcv_ok send_ok (srv w) = Some (e, s) \<Longrightarrow>
    hl_step w (w\<lparr>srv := s, pc := (case e of None \<Rightarrow> At_Recv | Some c \<Rightarrow> Ended c)\<rparr>)"
| take: "running w \<Longrightarrow> i < length (workers w) \<Longrightarrow> workers w ! i = Waiting \<Longrightarrow>
    cln_take malloc_ok rcv_ok (srv w) = Some (r, s) \<Longrightarrow>
    hl_step w (w\<lparr>srv := s, workers := (workers w)[i := (case r of None \<Rightarrow> Gone | Some m \<Rightarrow> Working m)]\<rparr>)"
| send: "running w \<Longrightarrow> i < length (workers w) \<Longrightarrow> workers w ! i = Working m \<Longrightarrow> time_text now \<Longrightarrow>
    cln_send now snd_ok m (srv w) = (go, s) \<Longrightarrow>
    hl_step w (w\<lparr>srv := s, workers := (workers w)[i := if go then Waiting else Gone]\<rparr>)"

inductive hl_reach :: "world \<Rightarrow> world \<Rightarrow> bool" where
  start: "hl_reach w w"
| step: "hl_reach w w1 \<Longrightarrow> hl_step w1 w2 \<Longrightarrow> hl_reach w w2"

text \<open>A worker first checks its argument, which is the number of the queue: with the number 0, a valid one, it is
  \<^verbatim>\<open>NULL\<close> and the worker ends.\<close>

definition cln_start :: "int \<Rightarrow> worker \<times> event list" where
  "cln_start qid = (if qid = 0 then (Gone, [Perror ''Server: client reply thread args is NULL'']) else (Waiting, []))"

text \<open>\<^verbatim>\<open>main\<close> starts \<^verbatim>\<open>REPL_THREAD\<close> workers on the queue \<open>qid\<close>, which is taken to be empty at the start: a queue with
  this key that an earlier run left behind would still hold its messages.\<close>

definition hl_main :: "int \<Rightarrow> world" where
  "hl_main qid = \<lparr>srv = \<lparr>queue = [], sent = [], log = concat (replicate 10 (snd (cln_start qid))), leaked = 0, accepted = [], lost = []\<rparr>,
     pc = At_Recv, workers = replicate 10 (fst (cln_start qid))\<rparr>"

section \<open>Conservation of requests\<close>

definition busy :: "worker \<Rightarrow> REQS_REPL_MSG list" where
  "busy x = (case x of Working m \<Rightarrow> [m] | _ \<Rightarrow> [])"

definition in_work :: "worker list \<Rightarrow> REQS_REPL_MSG list" where
  "in_work ws = concat (map busy ws)"

lemma in_work_update:
  "i < length ws \<Longrightarrow> mset (in_work (ws[i := x])) + mset (busy (ws ! i)) = mset (in_work ws) + mset (busy x)"
proof (induction ws arbitrary: i)
  case (Cons y ws)
  then show ?case by (cases i) (auto simp: in_work_def ac_simps)
qed simp

text \<open>A message of the queue is a request, or a reply whose text ends inside its field.\<close>

definition good_msg :: "REQS_REPL_MSG \<Rightarrow> bool" where
  "good_msg m = (msg_type m = REQS_MSG_TYPE \<or> msg_type m = REPL_MSG_TYPE \<and> 0 \<in> set (reply m))"

definition pending :: "world \<Rightarrow> REQS_REPL_MSG multiset" where
  "pending w = mset (queue (srv w)) + mset (in_work (workers w))"

definition hl_inv :: "world \<Rightarrow> bool" where
  "hl_inv w = ((\<forall>m \<in># pending w. good_msg m) \<and>
     mset (accepted (srv w)) = image_mset cln_addr (pending w) + mset (map fst (sent (srv w))) + mset (lost (srv w)))"

lemma server_emit [simp]:
  "queue (emit es s) = queue s" "sent (emit es s) = sent s" "accepted (emit es s) = accepted s" "lost (emit es s) = lost s"
  by (simp_all add: emit_def)

text \<open>What each part does to the counted fields.\<close>

lemma srv_recv_effect:
  assumes "srv_recv host r calloc_ok snd_ok s = Some (e, s')"
  shows "sent s' = sent s \<and> lost s' = lost s \<and> (queue s' = queue s \<and> accepted s' = accepted s \<or>
    (\<exists>m. msg_type m = REQS_MSG_TYPE \<and> queue s' = msgsnd m (queue s) \<and> accepted s' = accepted s @ [cln_addr m]))"
proof (cases r)
  case (Datagram a d)
  then show ?thesis using assms by (fastforce simp: srv_recv_def Let_def split: if_splits)
qed (use assms in \<open>auto simp: srv_recv_def\<close>)

lemma srv_recv_accepts:
  assumes "length data < 64" "0 \<notin> set data" "data \<noteq> bytes_of ''exit''"
  shows "\<exists>s' m. srv_recv host (Datagram addr data) True True s = Some (None, s') \<and> msg_type m = REQS_MSG_TYPE \<and>
    cln_addr m = addr \<and> cstr (request m) = data \<and> queue s' = msgsnd m (queue s) \<and> accepted s' = accepted s @ [addr] \<and>
    sent s' = sent s"
proof -
  have c: "cstr (take 64 (data @ replicate 64 0)) = data" using assms by (intro cstr_pad) auto
  have z: "0 \<in> set (take 64 (data @ replicate 64 0))" using assms(1) by simp
  have r: "cstr (take (length data) (data @ replicate 64 0) @ replicate (64 - length data) 0) = data"
    using cstr_pad[OF assms(2), of 64 64] assms(1) by simp
  show ?thesis using assms(1,3) z r unfolding srv_recv_def recv.case Let_def c
    by (auto intro!: exI[of _ "\<lparr>msg_type = REQS_MSG_TYPE, cln_addr = addr, socket_len = 16,
      request = data @ replicate (64 - length data) 0, reply = replicate 128 0\<rparr>"])
qed

lemma srv_reply_effect:
  assumes "srv_reply rcv_ok send_ok s = Some (e, s')"
  shows "accepted s' = accepted s \<and> (queue s' = queue s \<and> sent s' = sent s \<and> lost s' = lost s \<or>
    (\<exists>m. mset (queue s) = add_mset m (mset (queue s')) \<and>
      mset (map fst (sent s')) + mset (lost s') = add_mset (cln_addr m) (mset (map fst (sent s)) + mset (lost s))))"
proof (cases "msgrcv msg_type REPL_MSG_TYPE (queue s)")
  case None
  then show ?thesis using assms by (auto simp: srv_reply_def simp del: msgrcv_None split: if_splits)
next
  case (Some mq)
  obtain m q where mq: "mq = (m, q)" by fastforce
  note ms = msgrcv_mset[OF Some[unfolded mq]]
  show ?thesis
  proof (cases rcv_ok)
    case True
    then have "accepted s' = accepted s" "queue s' = q"
      "mset (map fst (sent s')) + mset (lost s') = add_mset (cln_addr m) (mset (map fst (sent s)) + mset (lost s))"
      using assms Some mq by (auto simp: srv_reply_def Let_def split: if_splits)
    then show ?thesis using ms by auto
  next
    case False
    then show ?thesis using assms by (auto simp: srv_reply_def)
  qed
qed

lemma cln_take_effect:
  assumes "cln_take malloc_ok rcv_ok s = Some (r, s')"
  shows "accepted s' = accepted s \<and> sent s' = sent s \<and> lost s' = lost s \<and>
    mset (queue s) = mset (queue s') + (case r of None \<Rightarrow> {#} | Some m \<Rightarrow> {#m#})"
  using assms msgrcv_mset by (fastforce simp: cln_take_def Let_def split: if_splits bind_splits)

lemma cln_send_effect:
  assumes "cln_send now snd_ok m s = (go, s')" "time_text now"
  shows "accepted s' = accepted s \<and> sent s' = sent s \<and>
    (if go then lost s' = lost s \<and> (\<exists>m'. good_msg m' \<and> cln_addr m' = cln_addr m \<and> queue s' = msgsnd m' (queue s))
     else queue s' = queue s \<and> lost s' = lost s @ [cln_addr m])"
proof -
  have "take 128 (cstr now @ replicate 128 0) = now @ replicate (128 - length now) 0"
    using assms(2) by (simp add: time_text_def cstr_id)
  then have "0 \<in> set (reply (make_reply now m))" using assms(2) by (simp add: make_reply_def time_text_def)
  then have "good_msg (make_reply now m)" "cln_addr (make_reply now m) = cln_addr m" by (simp_all add: good_msg_def make_reply_def)
  then show ?thesis using assms(1) by (auto simp: cln_send_def Let_def split: if_splits)
qed

lemma hl_step_inv: "hl_step w w' \<Longrightarrow> hl_inv w \<Longrightarrow> hl_inv w'"
proof (induction rule: hl_step.induct)
  case (recv w host r c sn e s)
  then show ?case using srv_recv_effect[OF recv(2)] by (auto simp: hl_inv_def pending_def good_msg_def dest: bspec)
next
  case (reply w rc sn e s)
  have "set (queue s) \<subseteq> set (queue (srv w))" using srv_reply_effect[OF reply(2)] by (auto dest: mset_add_set)
  then show ?case using reply(3) srv_reply_effect[OF reply(2)] by (auto simp: hl_inv_def pending_def)
next
  case (take w i mo rc r s)
  have "mset (in_work ((workers w)[i := case r of None \<Rightarrow> Gone | Some m \<Rightarrow> Working m])) =
      mset (in_work (workers w)) + (case r of None \<Rightarrow> {#} | Some m \<Rightarrow> {#m#})"
    using in_work_update[OF take(2), of "case r of None \<Rightarrow> Gone | Some m \<Rightarrow> Working m"] take(3)
    by (cases r) (auto simp: busy_def)
  then show ?case using cln_take_effect[OF take(4)] take(5)
    by (cases r) (auto simp: hl_inv_def pending_def)
next
  case (send w i m now sn go s)
  let ?ws = "(workers w)[i := if go then Waiting else Gone]"
  have ws: "mset (in_work (workers w)) = add_mset m (mset (in_work ?ws))"
    using in_work_update[OF send(2), of "if go then Waiting else Gone"] send(3) by (cases go) (simp_all add: busy_def)
  then show ?case using mset_add_set[OF ws] cln_send_effect[OF send(5,4)] send(6)
    by (cases go) (auto simp: hl_inv_def pending_def)
qed

lemma hl_reach_inv: "hl_reach w w' \<Longrightarrow> hl_inv w \<Longrightarrow> hl_inv w'"
  by (induction rule: hl_reach.induct) (auto intro: hl_step_inv)


section \<open>One worker at a time\<close>

interpretation hl: relay msg_type REQS_MSG_TYPE "make_reply now" "\<lambda>_. True" for now
  by unfold_locales (simp add: make_reply_def)

text \<open>A whole round of a worker, and rounds of the main thread's second half, when no call fails.\<close>

definition worker_round :: "byte list \<Rightarrow> server \<Rightarrow> server option" where
  "worker_round now s = do { (r, s) \<leftarrow> cln_take True True s; m \<leftarrow> r; Some (snd (cln_send now True m s)) }"

fun worker_rounds :: "nat \<Rightarrow> byte list \<Rightarrow> server \<Rightarrow> server option" where
  "worker_rounds 0 now s = Some s"
| "worker_rounds (Suc n) now s = do { s \<leftarrow> worker_round now s; worker_rounds n now s }"

fun reply_rounds :: "nat \<Rightarrow> server \<Rightarrow> server option" where
  "reply_rounds 0 s = Some s"
| "reply_rounds (Suc n) s = do { (_, s) \<leftarrow> srv_reply True True s; reply_rounds n s }"

lemma worker_round_relay:
  "relay_step msg_type REQS_MSG_TYPE (make_reply now) (queue s) = Some q \<Longrightarrow>
   \<exists>s'. worker_round now s = Some s' \<and> queue s' = q \<and> sent s' = sent s"
  by (auto simp: relay_step_def worker_round_def cln_take_def cln_send_def Let_def simp del: msgrcv_None split: bind_splits)

lemma worker_rounds_relay:
  "relay_run n msg_type REQS_MSG_TYPE (make_reply now) (queue s) = Some q \<Longrightarrow>
   \<exists>s'. worker_rounds n now s = Some s' \<and> queue s' = q \<and> sent s' = sent s"
proof (induction n arbitrary: s)
  case (Suc n)
  then obtain q1 where q1: "relay_step msg_type REQS_MSG_TYPE (make_reply now) (queue s) = Some q1"
    "relay_run n msg_type REQS_MSG_TYPE (make_reply now) q1 = Some q" by (auto split: bind_splits)
  then obtain s1 where s1: "worker_round now s = Some s1" "queue s1 = q1" "sent s1 = sent s" using worker_round_relay by blast
  then show ?case using Suc.IH[of s1] q1(2) by auto
qed simp

lemma reply_rounds_sends:
  "of_type msg_type REPL_MSG_TYPE (queue s) = ms \<Longrightarrow> \<forall>m \<in> set ms. 0 \<in> set (reply m) \<Longrightarrow>
   \<exists>s'. reply_rounds (length ms) s = Some s' \<and> sent s' = sent s @ map (\<lambda>m. (cln_addr m, cstr (reply m))) ms \<and>
     of_type msg_type REPL_MSG_TYPE (queue s') = [] \<and>
     of_type msg_type REQS_MSG_TYPE (queue s') = of_type msg_type REQS_MSG_TYPE (queue s)"
proof (induction ms arbitrary: s)
  case (Cons m ms)
  obtain x q where r: "msgrcv msg_type REPL_MSG_TYPE (queue s) = Some (x, q)"
    using Cons.prems(1) msgrcv_None[of msg_type REPL_MSG_TYPE "queue s"] by fastforce
  have x: "x = m" "of_type msg_type REPL_MSG_TYPE q = ms" "of_type msg_type REQS_MSG_TYPE q = of_type msg_type REQS_MSG_TYPE (queue s)"
    using msgrcv_of_type[OF r] Cons.prems(1) by auto
  obtain s1 where s1: "srv_reply True True s = Some (None, s1)" "queue s1 = q" "sent s1 = sent s @ [(cln_addr m, cstr (reply m))]"
    using r x(1) Cons.prems(2) by (simp add: srv_reply_def Let_def)
  then show ?case using Cons.IH[of s1] Cons.prems(2) x by auto
qed simp

section \<open>Properties\<close>

text \<open>C7: No request is lost, invented or answered to somebody else, in any interleaving of the main
  thread and the workers and whichever system calls fail. In every reachable state the clients whose
  requests were accepted, each counted as often as it asked, are exactly those with a message in the
  queue, those with a message held by a worker, those a reply was sent to, and those whose
  message was in the hands of a thread when its call failed.\<close>
theorem highload_conserves_requests:
  assumes "hl_reach (hl_main qid) w"
  shows "mset (accepted (srv w)) =
    mset (map cln_addr (queue (srv w))) + mset (map cln_addr (in_work (workers w))) +
    mset (map fst (sent (srv w))) + mset (lost (srv w))"
proof -
  have "hl_inv (hl_main qid)" by (simp add: hl_inv_def hl_main_def cln_start_def pending_def in_work_def busy_def)
  then show ?thesis using hl_reach_inv[OF assms] by (simp add: hl_inv_def pending_def)
qed

definition client_a :: sockaddr_in where
  "client_a = \<lparr>sin_addr = [127, 0, 0, 1], sin_port = 5\<rparr>"

definition hl_one :: world where
  "hl_one = (case srv_recv (\<lambda>_. []) (Datagram client_a [104, 105]) True True (srv (hl_main 7)) of
     Some (_, s) \<Rightarrow> (hl_main 7)\<lparr>srv := s, pc := At_Reply\<rparr> | None \<Rightarrow> hl_main 7)"

lemma hl_one_step:
  "hl_reach (hl_main 7) hl_one" "accepted (srv hl_one) = [client_a]" "sent (srv hl_one) = []"
  "of_type msg_type REPL_MSG_TYPE (queue (srv hl_one)) = []"
  "map cln_addr (of_type msg_type REQS_MSG_TYPE (queue (srv hl_one))) = [client_a]"
proof -
  obtain s m where s: "srv_recv (\<lambda>_. []) (Datagram client_a [104, 105]) True True (srv (hl_main 7)) = Some (None, s)"
    "accepted s = [client_a]" "sent s = []" "queue s = [m]" "msg_type m = REQS_MSG_TYPE" "cln_addr m = client_a"
    using srv_recv_accepts[of "[104, 105]" "\<lambda>_. []" client_a "srv (hl_main 7)"]
    by (auto simp: hl_main_def cln_start_def bytes_of_def msgsnd_def)
  then have "hl_step (hl_main 7) hl_one"
    using hl_step.recv[of "hl_main 7" "\<lambda>_. []" "Datagram client_a [104, 105]" True True None s] by (simp add: hl_one_def hl_main_def cln_start_def)
  then show "hl_reach (hl_main 7) hl_one" using hl_reach.start hl_reach.step by blast
  show "accepted (srv hl_one) = [client_a]" "sent (srv hl_one) = []" "of_type msg_type REPL_MSG_TYPE (queue (srv hl_one)) = []"
    "map cln_addr (of_type msg_type REQS_MSG_TYPE (queue (srv hl_one))) = [client_a]"
    using s by (simp_all add: hl_one_def)
qed

theorem highload_conserves_requests_witness:
  "accepted (srv hl_one) = [client_a] \<and> {#client_a#} =
    mset (map cln_addr (queue (srv hl_one))) + mset (map cln_addr (in_work (workers hl_one))) + mset (lost (srv hl_one))"
  using highload_conserves_requests[OF hl_one_step(1)] hl_one_step(2,3) by simp

text \<open>Memory safety of the main thread. In every reachable state the part that sends replies finds
  a terminated text in each reply it takes; the part that receives leaves its 64-byte buffer exactly when
  a datagram fills the buffer without a zero byte, because it is printed and compared as a string.\<close>
theorem highload_buffer_safety:
  assumes "hl_reach (hl_main qid) w"
  shows "srv_reply rcv_ok send_ok (srv w) \<noteq> None \<and>
    (srv_recv host r calloc_ok snd_ok (srv w) = None \<longleftrightarrow>
      (\<exists>addr data. r = Datagram addr data \<and> 64 \<le> length data \<and> 0 \<notin> set (take 64 data)))"
proof
  have "hl_inv (hl_main qid)" by (simp add: hl_inv_def hl_main_def cln_start_def pending_def in_work_def busy_def)
  then have good: "\<forall>m \<in> set (queue (srv w)). good_msg m" using hl_reach_inv[OF assms] by (simp add: hl_inv_def pending_def)
  show "srv_reply rcv_ok send_ok (srv w) \<noteq> None"
  proof (cases "msgrcv msg_type REPL_MSG_TYPE (queue (srv w))")
    case (Some mq)
    then have "fst mq \<in> set (queue (srv w))" "msg_type (fst mq) = REPL_MSG_TYPE"
      using msgrcv_of_type[of msg_type REPL_MSG_TYPE "queue (srv w)" "fst mq" "snd mq"] msgrcv_mset[of msg_type REPL_MSG_TYPE "queue (srv w)" "fst mq" "snd mq"]
      by (auto simp flip: set_mset_mset)
    then have "0 \<in> set (reply (fst mq))" using good by (auto simp: good_msg_def)
    then show ?thesis using Some by (auto simp: srv_reply_def Let_def split: prod.splits)
  qed (simp add: srv_reply_def del: msgrcv_None)
  have "take 64 (data @ replicate 64 0) = (if 64 \<le> length data then take 64 data else data @ replicate (64 - length data) 0)" for data :: "byte list"
    by simp
  then show "srv_recv host r calloc_ok snd_ok (srv w) = None \<longleftrightarrow>
      (\<exists>addr data. r = Datagram addr data \<and> 64 \<le> length data \<and> 0 \<notin> set (take 64 data))"
    by (cases r) (auto simp: srv_recv_def Let_def)
qed

theorem highload_buffer_safety_witness:
  "srv_reply True True (srv hl_one) \<noteq> None \<and>
   srv_recv (\<lambda>_. []) (Datagram client_a (replicate 64 1)) True True (srv hl_one) = None"
  using highload_buffer_safety[OF hl_one_step(1), of True True "\<lambda>_. []" "Datagram client_a (replicate 64 1)" True True] by auto

text \<open>The requests in the queue are answered, in the order they came. With as many rounds of a worker
  as there are requests and as many rounds of the main thread, when no call fails, every one of them
  is sent the time text at the address it came from, and neither requests nor replies are left.\<close>
theorem highload_answers_in_order:
  assumes "time_text now" "of_type msg_type REPL_MSG_TYPE (queue s) = []"
  shows "yields (do { s \<leftarrow> worker_rounds (length (of_type msg_type REQS_MSG_TYPE (queue s))) now s;
      reply_rounds (length (of_type msg_type REPL_MSG_TYPE (queue s))) s })
    (\<lambda>s'. sent s' = sent s @ map (\<lambda>m. (cln_addr m, now)) (of_type msg_type REQS_MSG_TYPE (queue s)) \<and>
      of_type msg_type REQS_MSG_TYPE (queue s') = [] \<and> of_type msg_type REPL_MSG_TYPE (queue s') = [])"
proof -
  let ?rs = "of_type msg_type REQS_MSG_TYPE (queue s)"
  obtain q where q: "relay_run (length ?rs) msg_type REQS_MSG_TYPE (make_reply now) (queue s) = Some q"
    "of_type msg_type REQS_MSG_TYPE q = []" "of_type msg_type REPL_MSG_TYPE q = of_type msg_type REPL_MSG_TYPE (map (make_reply now) ?rs)"
    using hl.drains[of "queue s" ?rs now] assms(2) by auto
  have "of_type msg_type REPL_MSG_TYPE (map (make_reply now) ms) = map (make_reply now) ms" for ms
    by (induction ms) (auto simp: make_reply_def)
  then have rep: "of_type msg_type REPL_MSG_TYPE q = map (make_reply now) ?rs" using q(3) by metis
  obtain s1 where s1: "worker_rounds (length ?rs) now s = Some s1" "queue s1 = q" "sent s1 = sent s"
    using worker_rounds_relay[OF q(1)] by blast
  have tx: "cstr (reply (make_reply now m)) = now" "0 \<in> set (reply (make_reply now m))" for m
    using assms(1) by (simp_all add: make_reply_def time_text_def cstr_id cstr_zeros)
  obtain s2 where "reply_rounds (length (map (make_reply now) ?rs)) s1 = Some s2"
    "sent s2 = sent s1 @ map (\<lambda>m. (cln_addr m, cstr (reply m))) (map (make_reply now) ?rs)"
    "of_type msg_type REPL_MSG_TYPE (queue s2) = []" "of_type msg_type REQS_MSG_TYPE (queue s2) = of_type msg_type REQS_MSG_TYPE q"
    using reply_rounds_sends[of s1 "map (make_reply now) ?rs"] s1(2) rep tx(2) by auto
  moreover have "cln_addr (make_reply now m) = cln_addr m" for m by (simp add: make_reply_def)
  ultimately show ?thesis using s1 q(2) rep tx(1) by (simp add: comp_def)
qed

theorem highload_answers_in_order_witness:
  "yields (do { s \<leftarrow> worker_rounds (length (of_type msg_type REQS_MSG_TYPE (queue (srv hl_one)))) [48, 48] (srv hl_one);
      reply_rounds (length (of_type msg_type REPL_MSG_TYPE (queue s))) s }) (\<lambda>s'. sent s' = [(client_a, [48, 48])])"
  using highload_answers_in_order[of "[48, 48]" "srv hl_one"] hl_one_step(3-5)
  by (auto simp: time_text_def elim!: yieldsE)

end
