(* ===== verification/Highload_Clients.thy ===== *)
theory Highload_Clients
  imports Highload_Server Step_Systems
begin

text \<open>
  The clients of the high-load server: \<^verbatim>\<open>src/udp_highload_server/src/client.c\<close>, which sends what is typed, and \<^verbatim>\<open>benchmark.c\<close>, whose
  threads send requests over one socket. The benchmark is a relation: its threads, the server, which answers with a
  \<^const>\<open>make_reply\<close>, and the network, which may lose datagrams.
\<close>

section \<open>The client\<close>

text \<open>One turn: \<open>line\<close> is what \<^verbatim>\<open>fgets\<close> stored (\<open>None\<close>: end of input), \<open>answer\<close> what \<^verbatim>\<open>recvfrom\<close> found. The buffer has 64 bytes, while
  replies may have 127: longer ones are cut, and then there is no room for the terminating zero.\<close>

definition reqs_buf :: "byte list \<Rightarrow> byte list" where
  "reqs_buf d = take 64 (d @ replicate 64 0)"

definition hl_client_turn :: "bool \<Rightarrow> int \<Rightarrow> byte list option \<Rightarrow> byte list option \<Rightarrow> (byte list option \<times> event list \<times> int option) option" where
  "hl_client_turn send_ok sd_cln line answer = (let e0 = say ''Input you message: '' in case line of
     None \<Rightarrow> Some (None, [e0, Perror ''Client: fgets(msg)'', Call ''close'' [Num sd_cln]], Some 1)
   | Some l \<Rightarrow>
       if cstr l = [] then None
       else
         let msg = butlast (cstr l) in
         if \<not> send_ok then Some (None, [e0, Perror ''Client: sendto(server)'', Call ''close'' [Num sd_cln]], Some 1)
         else
           let e1 = Printf (ln (''Client: send message to server: '' @ sq ''%s'' @ '' (%d bytes)'')) [text_arg msg, Num (int (length msg))] in
           if msg = bytes_of ''exit'' then Some (Some msg, [e0, e1, say (ln ''Client: main thread bye'')], Some 0)
           else (case answer of
             None \<Rightarrow> Some (Some msg, [e0, e1, Perror ''Client: recvfrom(server)'', Call ''close'' [Num sd_cln]], Some 1)
           | Some r \<Rightarrow>
               if 0 \<notin> set (reqs_buf r) then None
               else Some (Some msg, [e0, e1, Printf (ln (ln (''Client: receive message from server: '' @ sq ''%s'' @ '' (%d bytes)'')))
                      [text_arg (cstr (reqs_buf r)), Num (int (min 64 (length r)))]], None)))"

fun hl_client_loop :: "int \<Rightarrow> (bool \<times> byte list option \<times> byte list option) list \<Rightarrow> (byte list list \<times> event list \<times> int option) option" where
  "hl_client_loop sd_cln [] = Some ([], [], None)"
| "hl_client_loop sd_cln ((ok, line, answer) # ts) = do {
     (sent, es, stop) \<leftarrow> hl_client_turn ok sd_cln line answer;
     let sent = (case sent of None \<Rightarrow> [] | Some m \<Rightarrow> [m]);
     case stop of Some c \<Rightarrow> Some (sent, es, Some c)
     | None \<Rightarrow> do {
         (sent', es', stop') \<leftarrow> hl_client_loop sd_cln ts;
         Some (sent @ sent', es @ es', stop') } }"

section \<open>The benchmark\<close>

definition THREADS_NUM :: nat where
  "THREADS_NUM = 10000"

text \<open>A thread before \<^verbatim>\<open>sendto\<close>, before \<^verbatim>\<open>recvfrom\<close>, or at its end, with its buffer for replies, which is cleared only at its start. A text
  without a terminating zero in the buffer is \<open>None\<close>.\<close>

datatype bpc = Ask "byte list" | Listen "byte list" | Left

record bench =
  bpcs :: "bpc list"
  reqs :: nat
  reps :: "byte list list"
  heard :: "(nat \<times> byte list option) list"

definition repl_text :: "byte list \<Rightarrow> byte list option" where
  "repl_text b = (if 0 \<in> set b then Some (cstr b) else None)"

definition receive_into :: "byte list \<Rightarrow> byte list \<Rightarrow> byte list" where
  "receive_into r b = take 128 r @ drop (length r) b"

text \<open>\<open>now\<close> lists the times the server may put into its replies. A thread that cannot send or receive ends.\<close>

inductive bstep :: "byte list set \<Rightarrow> bench \<Rightarrow> bench \<Rightarrow> bool" for now where
  create: "length (bpcs s) < THREADS_NUM \<Longrightarrow> bstep now s (s\<lparr>bpcs := bpcs s @ [Ask (replicate 128 0)]\<rparr>)"
| ask: "i < length (bpcs s) \<Longrightarrow> bpcs s ! i = Ask b \<Longrightarrow> bstep now s (s\<lparr>bpcs := (bpcs s)[i := Listen b], reqs := Suc (reqs s)\<rparr>)"
| ask_fails: "i < length (bpcs s) \<Longrightarrow> bpcs s ! i = Ask b \<Longrightarrow> bstep now s (s\<lparr>bpcs := (bpcs s)[i := Left]\<rparr>)"
| server: "reqs s = Suc n \<Longrightarrow> t \<in> now \<Longrightarrow> bstep now s (s\<lparr>reqs := n, reps := reps s @ [cstr (reply (make_reply t m))]\<rparr>)"
| lose_request: "reqs s = Suc n \<Longrightarrow> bstep now s (s\<lparr>reqs := n\<rparr>)"
| lose_reply: "reps s = rs @ r # rs' \<Longrightarrow> bstep now s (s\<lparr>reps := rs @ rs'\<rparr>)"
| hear: "i < length (bpcs s) \<Longrightarrow> bpcs s ! i = Listen b \<Longrightarrow> reps s = r # rs \<Longrightarrow>
    bstep now s (s\<lparr>bpcs := (bpcs s)[i := Ask (receive_into r b)], reps := rs, heard := heard s @ [(Suc i, repl_text (receive_into r b))]\<rparr>)"
| hear_fails: "i < length (bpcs s) \<Longrightarrow> bpcs s ! i = Listen b \<Longrightarrow> bstep now s (s\<lparr>bpcs := (bpcs s)[i := Left]\<rparr>)"

definition bench_start :: bench where
  "bench_start = \<lparr>bpcs = [], reqs = 0, reps = [], heard = []\<rparr>"

section \<open>A request is answered\<close>

lemma reply_text: "length t < 128 \<Longrightarrow> 0 \<notin> set t \<Longrightarrow> cstr (reply (make_reply t m)) = t"
  using cstr_pad[of t 128 128] by (simp add: make_reply_def cstr_id)

text \<open>What the client prints for the reply of the server to what has been typed.\<close>

theorem hl_client_answered:
  assumes "length l < 63" "0 \<notin> set l" "10 \<notin> set l" "l \<noteq> bytes_of ''exit''" "length t < 64" "0 \<notin> set t"
  shows "\<exists>es. hl_client_turn True sd (Some (l @ [10])) (Some (cstr (reply (make_reply t m)))) = Some (Some l, es, None) \<and>
    last es = Printf (ln (ln (''Client: receive message from server: '' @ sq ''%s'' @ '' (%d bytes)''))) [text_arg t, Num (int (length t))]"
proof -
  have "0 \<in> set (reqs_buf t) \<and> cstr (reqs_buf t) = t" using assms(5,6) cstr_pad[of t 64 64] by (auto simp: reqs_buf_def)
  moreover have "cstr (l @ [10]) = l @ [10]" using assms(2) by (intro cstr_id) simp
  ultimately show ?thesis using assms reply_text[of t m] by (simp add: hl_client_turn_def Let_def min_def)
qed

section \<open>The benchmark's requests\<close>

text \<open>At most one request of each thread is under way; with times of one length, a buffer holds a time or nothing.\<close>

definition asking :: "bpc list \<Rightarrow> nat" where
  "asking ps = length (filter (\<lambda>p. case p of Ask b \<Rightarrow> True | _ \<Rightarrow> False) ps)"

fun buf_ok :: "byte list set \<Rightarrow> bpc \<Rightarrow> bool" where
  "buf_ok now (Ask b) = (b = replicate 128 0 \<or> (\<exists>t \<in> now. b = t @ replicate (128 - length t) 0))"
| "buf_ok now (Listen b) = (b = replicate 128 0 \<or> (\<exists>t \<in> now. b = t @ replicate (128 - length t) 0))"
| "buf_ok now Left = True"

definition times_ok :: "nat \<Rightarrow> byte list set \<Rightarrow> bool" where
  "times_ok k now = (k < 128 \<and> (\<forall>t \<in> now. length t = k \<and> 0 \<notin> set t))"

definition bench_inv :: "byte list set \<Rightarrow> bench \<Rightarrow> bool" where
  "bench_inv now s \<longleftrightarrow> reqs s + length (reps s) + asking (bpcs s) \<le> length (bpcs s) \<and> length (bpcs s) \<le> THREADS_NUM \<and>
     (\<forall>p \<in> set (bpcs s). buf_ok now p) \<and> set (reps s) \<subseteq> now \<and> (\<forall>h \<in> set (heard s). \<exists>t \<in> now. snd h = Some t)"

lemma asking_simps [simp]: "asking [] = 0" "asking (p # ps) = (case p of Ask b \<Rightarrow> 1 | _ \<Rightarrow> 0) + asking ps" "asking (ps @ qs) = asking ps + asking qs"
  by (auto simp: asking_def split: bpc.splits)

lemma asking_upd: "i < length ps \<Longrightarrow> asking (ps[i := p]) + (case ps ! i of Ask b \<Rightarrow> 1 | _ \<Rightarrow> 0) = asking ps + (case p of Ask b \<Rightarrow> 1 | _ \<Rightarrow> 0)"
proof (induction ps arbitrary: i)
  case (Cons q ps)
  show ?case
  proof (cases i)
    case (Suc j)
    then show ?thesis using Cons.IH[of j] Cons.prems by simp
  qed simp
qed simp

lemma buf_ok_upd: "\<forall>p \<in> set ps. buf_ok now p \<Longrightarrow> buf_ok now p \<Longrightarrow> \<forall>p \<in> set (ps[i := p]). buf_ok now p"
  by (auto dest: set_update_subset_insert[THEN subsetD])

lemma received:
  assumes "times_ok k now" "r \<in> now" "buf_ok now (Listen b)"
  shows "receive_into r b = r @ replicate (128 - length r) 0 \<and> repl_text (receive_into r b) = Some r"
proof -
  have r: "length r = k" "0 \<notin> set r" "k < 128" using assms(1,2) by (auto simp: times_ok_def)
  have "drop k b = replicate (128 - k) 0" using assms(1,3) by (auto simp: times_ok_def)
  then have "receive_into r b = r @ replicate (128 - k) 0" using r by (simp add: receive_into_def)
  then show ?thesis using r cstr_zeros[of r "128 - k"] by (auto simp: repl_text_def)
qed

lemma bstep_inv: "bstep now s s' \<Longrightarrow> times_ok k now \<Longrightarrow> bench_inv now s \<Longrightarrow> bench_inv now s'"
proof (induction rule: bstep.induct)
  case (ask i s b)
  then have "buf_ok now (Listen b)" using nth_mem[of i "bpcs s"] by (auto simp: bench_inv_def)
  then show ?case using ask asking_upd[of i "bpcs s" "Listen b"] buf_ok_upd[of "bpcs s" now "Listen b" i] by (simp add: bench_inv_def)
next
  case (ask_fails i s b)
  then show ?case using asking_upd[of i "bpcs s" Left] buf_ok_upd[of "bpcs s" now Left i] by (simp add: bench_inv_def)
next
  case (hear_fails i s b)
  then show ?case using asking_upd[of i "bpcs s" Left] buf_ok_upd[of "bpcs s" now Left i] by (simp add: bench_inv_def)
next
  case (server s n t m)
  then have "cstr (reply (make_reply t m)) = t" by (intro reply_text) (auto simp: times_ok_def)
  then show ?case using server by (simp add: bench_inv_def)
next
  case (hear i s b r rs)
  then have "buf_ok now (Listen b)" "r \<in> now" using nth_mem[of i "bpcs s"] by (auto simp: bench_inv_def)
  note r = received[OF hear(4) this(2,1)]
  then have "buf_ok now (Ask (receive_into r b))" using \<open>r \<in> now\<close> by auto
  then show ?case using hear r \<open>r \<in> now\<close> asking_upd[of i "bpcs s" "Ask (receive_into r b)"] buf_ok_upd[of "bpcs s" now _ i]
    by (auto simp: bench_inv_def simp del: buf_ok.simps)
qed (auto simp: bench_inv_def)

interpretation bench: step_invariant "bstep now" "\<lambda>s. times_ok k now \<longrightarrow> bench_inv now s" for now k
  by unfold_locales (blast intro: bstep_inv)

lemma bench_reach: "(bstep now)\<^sup>*\<^sup>* bench_start s \<Longrightarrow> times_ok k now \<Longrightarrow> bench_inv now s"
  using bench.reach[of now bench_start s k] by (simp add: bench_inv_def bench_start_def)

text \<open>The benchmark. However its threads, the server and the losses of the network interleave, at most 10000 requests and replies are
  under way at any time, at most one for each thread that is not about to send; and as the server's times have one length,
  every text a thread prints is a time the server put into a reply.\<close>
theorem benchmark_bounds:
  assumes "(bstep now)\<^sup>*\<^sup>* bench_start s" "times_ok k now"
  shows "reqs s + length (reps s) \<le> 10000 \<and> (\<forall>h \<in> set (heard s). \<exists>t \<in> now. snd h = Some t)"
  using bench_reach[OF assms] by (simp add: bench_inv_def THREADS_NUM_def)

theorem benchmark_bounds_witness: "reqs bench_start + length (reps bench_start) \<le> 10000"
  using benchmark_bounds[OF rtranclp.rtrancl_refl, of 1 "{[65]}"] by (simp add: times_ok_def)

end
