(* ===== verification/Icmp_Echo.thy ===== *)
theory Icmp_Echo
  imports Packet_Bytes Pcap_Sniffer
begin

text \<open>
  The ICMP echo requests that \<^verbatim>\<open>src/icmp_raw_socket_ping\<close> and \<^verbatim>\<open>src/icmp_raw_socket_traceroute\<close> build in
  a buffer of 1024 bytes: an IP header at 0 and an ICMP header at 20, filled in field by field, and
  updated for the next request.
\<close>

text \<open>The field \<^verbatim>\<open>id\<close> takes the low half of \<^verbatim>\<open>htonl(random())\<close>. The total length is stored in host order,
  which the kernel expects with \<^verbatim>\<open>IP_HDRINCL\<close>.\<close>

definition low_htonl :: "u32 \<Rightarrow> u16" where
  "low_htonl r = swap16 (ucast (drop_bit 16 r))"

definition echo_request :: "u32 \<Rightarrow> byte \<Rightarrow> byte list \<Rightarrow> byte list \<Rightarrow> u16 \<Rightarrow> u16 \<Rightarrow> byte list option" where
  "echo_request random ttl saddr daddr reqs_id seq_num = do {
     let p = replicate 1024 0;
     p \<leftarrow> st8 p 0 0x45;
     p \<leftarrow> st8 p 1 0;
     p \<leftarrow> st16 p 2 28;
     p \<leftarrow> st16 p 4 (low_htonl random);
     p \<leftarrow> st16 p 6 0;
     p \<leftarrow> st8 p 8 ttl;
     p \<leftarrow> st8 p 9 1;
     p \<leftarrow> st16 p 10 0;
     p \<leftarrow> stn p 12 saddr;
     p \<leftarrow> stn p 16 daddr;
     p \<leftarrow> st8 p 20 8;
     p \<leftarrow> st8 p 21 0;
     p \<leftarrow> st16 p 22 0;
     p \<leftarrow> st16 p 24 (htons reqs_id);
     p \<leftarrow> st16 p 26 (htons seq_num);
     p \<leftarrow> compute_icmp_checksum p 20;
     compute_ip_checksum p 0 }"

text \<open>The next request of the ping program, which changes the sequence number only.\<close>

definition next_request :: "u16 \<Rightarrow> byte list \<Rightarrow> byte list option" where
  "next_request seq_num p = do {
     p \<leftarrow> st16 p 22 0;
     p \<leftarrow> st16 p 26 (htons seq_num);
     compute_icmp_checksum p 20 }"

text \<open>The next probe of the traceroute program, with a new time to live as well.\<close>

definition next_probe :: "byte \<Rightarrow> u16 \<Rightarrow> byte list \<Rightarrow> byte list option" where
  "next_probe ttl seq p = do {
     p \<leftarrow> st16 p 10 0;
     p \<leftarrow> st8 p 8 ttl;
     p \<leftarrow> st16 p 22 0;
     p \<leftarrow> st16 p 26 (htons seq);
     p \<leftarrow> compute_icmp_checksum p 20;
     compute_ip_checksum p 0 }"

section \<open>Well-formed requests\<close>

text \<open>An echo request from \<open>saddr\<close> to \<open>daddr\<close> with the given fields, whose two checksums verify.\<close>

definition echo_fields :: "byte list \<Rightarrow> byte list \<Rightarrow> byte \<Rightarrow> u16 \<Rightarrow> u16 \<Rightarrow> byte list \<Rightarrow> bool" where
  "echo_fields saddr daddr ttl ident seq p = (length p = 1024 \<and> p ! 0 = 0x45 \<and> sub p 2 2 = [28, 0] \<and> p ! 8 = ttl \<and> p ! 9 = 1 \<and>
     sub p 12 4 = saddr \<and> sub p 16 4 = daddr \<and> sub p 20 2 = [8, 0] \<and>
     sub p 24 2 = [hi8 ident, lo8 ident] \<and> sub p 26 2 = [hi8 seq, lo8 seq])"

definition echo_packet :: "byte list \<Rightarrow> byte list \<Rightarrow> byte \<Rightarrow> u16 \<Rightarrow> u16 \<Rightarrow> byte list \<Rightarrow> bool" where
  "echo_packet saddr daddr ttl ident seq p = (echo_fields saddr daddr ttl ident seq p \<and>
     compute_checksum p 20 = Some 0 \<and> compute_checksum (drop 20 p) 8 = Some 0)"

lemma swap16_bytes: "lo8 (swap16 w) = hi8 w" "hi8 (swap16 w) = lo8 w"
  by (metis le16_lo8_hi8 lo8_le16 swap16_le16) (metis hi8_le16 le16_lo8_hi8 swap16_le16)

lemma echo_fields_frame:
  assumes "echo_fields saddr daddr ttl ident seq p" "frame lo hi p q" "lo = 10 \<and> hi = 12 \<or> lo = 22 \<and> hi = 24"
  shows "echo_fields saddr daddr ttl ident seq q"
proof -
  have L: "length p = 1024" using assms(1) by (simp add: echo_fields_def)
  have s: "sub q j n = sub p j n" if "j + n \<le> 10 \<or> 12 \<le> j \<and> (j + n \<le> 22 \<or> 24 \<le> j)" "j + n \<le> 1024" for j n
    using frame_sub[OF assms(2), of j n] assms(3) that L by auto
  have n: "q ! j = p ! j" if "j = 0 \<or> j = 8 \<or> j = 9" for j using frame_nth[OF assms(2), of j] assms(3) that L by auto
  show ?thesis using assms(1) frame_length[OF assms(2)] s n by (simp add: echo_fields_def)
qed

text \<open>Both programs finish a packet in the same way: with the ICMP and the IP checksum.\<close>

lemma echo_finish:
  assumes "echo_fields saddr daddr ttl ident seq p"
  shows "yields (Option.bind (compute_icmp_checksum p 20) (\<lambda>p. compute_ip_checksum p 0)) (echo_packet saddr daddr ttl ident seq)"
proof -
  have L: "length p = 1024" using assms by (simp add: echo_fields_def)
  obtain p1 where p1: "compute_icmp_checksum p 20 = Some p1" "frame 22 24 p p1" "compute_checksum (drop 20 p1) 8 = Some 0"
    using icmp_checksum_frame[of 20 p] L by auto
  have f1: "echo_fields saddr daddr ttl ident seq p1" using echo_fields_frame[OF assms p1(2)] by simp
  have L1: "length p1 = 1024" "p1 ! 0 = 0x45" using f1 by (simp_all add: echo_fields_def)
  have "ip_ihl p1 0 = Some 5" using L1 by (simp add: ip_ihl_def ld8_def)
  then obtain q where q: "compute_ip_checksum p1 0 = Some q" "frame 10 12 p1 q" "compute_checksum q 20 = Some 0"
    using ip_checksum_frame[of p1 0 5] L1 by auto
  have "compute_checksum (drop 20 q) 8 = Some 0" using frame_checksum[OF q(2), of 8 20] L1 p1(3) by simp
  then show ?thesis using p1(1) q echo_fields_frame[OF f1 q(2)] by (simp add: echo_packet_def)
qed

text \<open>Reading a field through the stores, when the lengths are known.\<close>

lemmas field_simps = nth_upd sub_other sub_same swap16_bytes

lemma echo_request_ok:
  assumes "length saddr = 4" "length daddr = 4"
  shows "yields (echo_request random ttl saddr daddr ident seq) (echo_packet saddr daddr ttl ident seq)"
proof -
  have z: "length (replicate 1024 0 :: byte list) = 1024" by simp
  have k: "lo8 28 = 28" "hi8 28 = 0" by (simp_all add: lo8_def hi8_def)
  show ?thesis
    unfolding echo_request_def Let_def
    apply (rule store_vcs, rule z, simp)
    apply (rule store_vcs, assumption, simp add: assms)+
    apply (rule echo_finish)
    apply (simp add: echo_fields_def field_simps assms k sub_two)
    done
qed

lemma next_request_ok:
  assumes "echo_packet saddr daddr ttl ident seq p"
  shows "yields (next_request seq' p) (echo_packet saddr daddr ttl ident seq')"
proof -
  have f: "echo_fields saddr daddr ttl ident seq p" "compute_checksum p 20 = Some 0" "length p = 1024"
    using assms by (simp_all add: echo_packet_def echo_fields_def)
  define p1 where "p1 = upd (upd p 22 [0, 0]) 26 [hi8 seq', lo8 seq']"
  have fr: "frame 20 28 p p1" using f(3) unfolding p1_def by (intro frame_step) (simp_all add: length_upd)
  have L1: "length p1 = 1024" using frame_length[OF fr] f(3) by simp
  have f1: "echo_fields saddr daddr ttl ident seq' p1"
    using f(1,3) by (simp add: echo_fields_def p1_def length_upd field_simps)
  obtain q where q: "compute_icmp_checksum p1 20 = Some q" "frame 22 24 p1 q" "compute_checksum (drop 20 q) 8 = Some 0"
    using icmp_checksum_frame[of 20 p1] L1 by auto
  have "compute_checksum q 20 = compute_checksum p1 20" using frame_checksum[OF q(2), of 20 0] L1 by simp
  also have "\<dots> = Some 0" using frame_checksum[OF fr, of 20 0] f by simp
  finally have "echo_packet saddr daddr ttl ident seq' q" using q(3) echo_fields_frame[OF f1 q(2)] by (simp add: echo_packet_def)
  moreover have "next_request seq' p = Some q"
    using f(3) q(1) by (simp add: next_request_def store_rules length_upd swap16_bytes p1_def)
  ultimately show ?thesis by simp
qed

lemma next_probe_ok:
  assumes "echo_packet saddr daddr ttl ident seq p"
  shows "yields (next_probe ttl' seq' p) (echo_packet saddr daddr ttl' ident seq')"
proof -
  have f: "echo_fields saddr daddr ttl ident seq p" and L: "length p = 1024"
    using assms by (simp_all add: echo_packet_def echo_fields_def)
  show ?thesis
    unfolding next_probe_def
    apply (rule store_vcs, rule L, simp)
    apply (rule store_vcs, assumption, simp)+
    apply (rule echo_finish)
    using f L apply (simp add: echo_fields_def field_simps)
    done
qed

section \<open>Received packets\<close>

text \<open>The fields of a received datagram as the program sees them, in its padded buffer.\<close>

definition repl_buf :: "byte list \<Rightarrow> byte list" where
  "repl_buf data = take 1024 (data @ replicate 1024 0)"

definition repl_off :: "byte list \<Rightarrow> nat" where
  "repl_off data = unat (repl_buf data ! 0 AND 0x0F) * 4"

definition repl_type :: "byte list \<Rightarrow> byte" where
  "repl_type data = repl_buf data ! repl_off data"

definition repl_ident :: "byte list \<Rightarrow> u16" where
  "repl_ident data = le16 (repl_buf data ! (repl_off data + 5)) (repl_buf data ! (repl_off data + 4))"

lemma repl_off_bound: "repl_off data \<le> 60"
proof -
  have "unat (repl_buf data ! 0 AND 0x0F) \<le> 15"
    using word_and_le1[of "repl_buf data ! 0" "0x0F"] by (simp add: word_le_nat_alt)
  then show ?thesis by (simp add: repl_off_def)
qed

text \<open>The loads both programs make in a received packet are inside the buffer, whatever was received.\<close>

lemma repl_loads:
  "ip_ihl (repl_buf data) 0 = Some (unat (repl_buf data ! 0 AND 0x0F))"
  "ld16 (repl_buf data) (repl_off data + 4) = Some (swap16 (repl_ident data))"
  "ld16 (repl_buf data) (repl_off data + 6) =
     Some (swap16 (le16 (repl_buf data ! (repl_off data + 7)) (repl_buf data ! (repl_off data + 6))))"
  "ld8 (repl_buf data) (repl_off data) = Some (repl_type data)"
  "ld8 (repl_buf data) 8 = Some (repl_buf data ! 8)"
proof -
  have L: "length (repl_buf data) = 1024" by (simp add: repl_buf_def)
  have off: "repl_off data + 8 \<le> 1024" using repl_off_bound[of data] by simp
  show "ip_ihl (repl_buf data) 0 = Some (unat (repl_buf data ! 0 AND 0x0F))" using L by (simp add: ip_ihl_def ld8_def)
  show "ld16 (repl_buf data) (repl_off data + 4) = Some (swap16 (repl_ident data))"
    "ld16 (repl_buf data) (repl_off data + 6) =
       Some (swap16 (le16 (repl_buf data ! (repl_off data + 7)) (repl_buf data ! (repl_off data + 6))))"
    using L off by (simp_all add: load_rules repl_ident_def numeral_eq_Suc)
  show "ld8 (repl_buf data) (repl_off data) = Some (repl_type data)" "ld8 (repl_buf data) 8 = Some (repl_buf data ! 8)"
    using L off by (simp_all add: ld8_def repl_type_def)
qed

text \<open>The length on the wire.\<close>

lemma echo_packet_send:
  assumes "echo_packet saddr daddr ttl ident seq p"
  shows "ld16 p 2 = Some 28" "ldn p 0 (unat (28 :: u16)) = Some (take 28 p)"
proof -
  have f: "length p = 1024" "sub p 2 2 = [28, 0]" using assms by (simp_all add: echo_packet_def echo_fields_def)
  then have "p ! 2 = 28" "p ! 3 = 0" using sub_two[of 2 p] by simp_all
  then show "ld16 p 2 = Some 28" "ldn p 0 (unat (28 :: u16)) = Some (take 28 p)"
    using f(1) by (simp_all add: load_rules le16_def ldn_def)
qed

end
