(* ===== verification/Icmp_Ping.thy ===== *)
theory Icmp_Ping
  imports Icmp_Echo
begin

text \<open>
  The ping program \<^verbatim>\<open>src/icmp_raw_socket_ping\<close>: the options, the thread that sends requests
  (\<^verbatim>\<open>icmp_reqs_hndl\<close>), the thread that receives replies (\<^verbatim>\<open>icmp_repl_hndl\<close>), the statistics printed on SIGINT
  and the printing of headers. System calls enter through their results: \<open>now k\<close> is the time of the
  \<open>k\<close>-th \<^verbatim>\<open>gettimeofday\<close>, \<open>send_ok k\<close> says whether the \<open>k\<close>-th \<^verbatim>\<open>sendto\<close> succeeds, and a received datagram is a
  byte list. \<open>None\<close> is an access outside an array, or another undefined operation.
\<close>

section \<open>State\<close>

text \<open>Seconds and microseconds.\<close>

type_synonym timeval = "int \<times> int"

record ping_sets =
  reqs_id :: int
  src_addr :: "byte list"
  dst_addr :: "byte list"
  reqs_count :: u32
  reqs_timeout :: u32
  debug_opt :: bool
  diff_time :: "(timeval \<times> timeval) list"

record ping =
  sets :: ping_sets
  stat_pckt_transm :: u32
  stat_pckt_recive :: u32
  wire :: "byte list list"
  out :: "event list"

text \<open>The exact difference in microseconds; the program computes it in floating-point milliseconds.\<close>

definition get_diff_time :: "timeval \<Rightarrow> timeval \<Rightarrow> int" where
  "get_diff_time t0 t1 = \<bar>(fst t1 - fst t0) * 1000000 + (snd t1 - snd t0)\<bar>"

section \<open>Options\<close>

datatype option_arg = Opt_c string | Opt_t string | Opt_D | Opt_d string | Opt_s string | Opt_bad

definition print_usage :: "string \<Rightarrow> event list" where
  "print_usage argv0 = [
     Printf (ln ''usage syntax: ./%s -c [count] -t [timeout] -D [debug] -d [destination address] -s [source address]'') [Str argv0],
     say (ln '' -- destination address must be provided''),
     say (ln '' -- source address is optional'')]"

text \<open>
  \<open>scan\<close> is \<^verbatim>\<open>sscanf\<close> with \<^verbatim>\<open>%d\<close>, \<open>pton\<close> is \<^verbatim>\<open>inet_pton\<close> and \<open>self_ip\<close> what \<^verbatim>\<open>get_self_ip\<close> stores; both leave the
  address alone when they give nothing. Results are kept in a \<^verbatim>\<open>uint8_t\<close>, so that the comparisons with
  \<open>-1\<close> never hold; \<^verbatim>\<open>getopt\<close>'s end marker likewise becomes 255 and reaches the default branch, which returns
  0. The address text is read into 16 bytes without a limit.
\<close>

definition read_addr :: "(string \<Rightarrow> byte list option) \<Rightarrow> string \<Rightarrow> byte list \<Rightarrow> byte list option option" where
  "read_addr pton optarg old = (let s = takeWhile (\<lambda>c. c \<noteq> CHR '':'') optarg in
     if s = [] then Some None
     else if 16 \<le> length s then None
     else Some (Some (case pton s of None \<Rightarrow> old | Some a \<Rightarrow> a)))"

fun parse_argvs :: "string \<Rightarrow> (string \<Rightarrow> u32 option) \<Rightarrow> (string \<Rightarrow> byte list option) \<Rightarrow> byte list option \<Rightarrow>
    option_arg list \<Rightarrow> ping_sets \<Rightarrow> (int \<times> event list \<times> ping_sets) option" where
  "parse_argvs argv0 scan pton self_ip [] p = Some (0, [], p)"
| "parse_argvs argv0 scan pton self_ip (Opt_c a # as) p = (case scan a of
     None \<Rightarrow> Some (- 1, [], p)
   | Some n \<Rightarrow> parse_argvs argv0 scan pton self_ip as (p\<lparr>reqs_count := n\<rparr>))"
| "parse_argvs argv0 scan pton self_ip (Opt_t a # as) p = (case scan a of
     None \<Rightarrow> Some (- 1, [], p)
   | Some n \<Rightarrow> parse_argvs argv0 scan pton self_ip as (p\<lparr>reqs_timeout := n\<rparr>))"
| "parse_argvs argv0 scan pton self_ip (Opt_D # as) p = parse_argvs argv0 scan pton self_ip as (p\<lparr>debug_opt := True\<rparr>)"
| "parse_argvs argv0 scan pton self_ip (Opt_d a # as) p = do {
     r \<leftarrow> read_addr pton a (dst_addr p);
     case r of
       None \<Rightarrow> Some (- 1, [], p)
     | Some d \<Rightarrow>
         let p = p\<lparr>dst_addr := d\<rparr>;
             p = (case self_ip of None \<Rightarrow> p | Some s \<Rightarrow> p\<lparr>src_addr := s\<rparr>)
         in parse_argvs argv0 scan pton self_ip as p }"
| "parse_argvs argv0 scan pton self_ip (Opt_s a # as) p = do {
     r \<leftarrow> read_addr pton a (src_addr p);
     case r of
       None \<Rightarrow> Some (- 1, [], p)
     | Some s \<Rightarrow> parse_argvs argv0 scan pton self_ip as (p\<lparr>src_addr := s\<rparr>) }"
| "parse_argvs argv0 scan pton self_ip (Opt_bad # as) p =
     Some (- 1, Printf (ln ''%s: too few or invalid arguments syntax to initialize'') [Str argv0] # print_usage argv0, p)"

text \<open>\<^verbatim>\<open>get_self_ip\<close>: the results of \<^verbatim>\<open>socket\<close> and \<^verbatim>\<open>ioctl\<close>, the latter with the address it stores.\<close>

definition get_self_ip :: "int \<Rightarrow> byte list option \<Rightarrow> int \<times> event list \<times> byte list option" where
  "get_self_ip sock addr =
     (if sock = - 1 then (- 1, [Perror ''socket() failed'', Call ''close'' [Num sock]], None)
      else case addr of
        Some a \<Rightarrow> (0, [Call ''close'' [Num sock]], Some a)
      | None \<Rightarrow> (- 1, [Call ''close'' [Num sock]], None))"

section \<open>Statistics\<close>

text \<open>The loss is computed with unsigned integer division; division by zero is undefined.\<close>

definition sig_hndl :: "ping \<Rightarrow> event list option" where
  "sig_hndl g =
     (if stat_pckt_transm g = 0 then None
      else Some [say (CHR 0x0A # ln ''--- ping statistics ---''),
        Printf (ln ''%d packets transmitted, %d received, %1.f%% packet loss'')
          [Num (sint (stat_pckt_transm g)), Num (sint (stat_pckt_recive g)),
           Num (uint (100 - stat_pckt_recive g div stat_pckt_transm g * 100))]])"

definition init_signal :: "int \<Rightarrow> event list \<times> int option" where
  "init_signal res = (if res = - 1 then ([say (ln ''sigaction() failed'')], Some 1) else ([], None))"

section \<open>Sending\<close>

text \<open>The loop of \<^verbatim>\<open>icmp_reqs_hndl\<close> with \<open>n\<close> iterations left; both \<^verbatim>\<open>i\<close> and \<^verbatim>\<open>seq_num\<close> are \<open>i\<close>. A result with
  \<open>Some code\<close> ends the process.\<close>

fun reqs_loop :: "(nat \<Rightarrow> timeval) \<Rightarrow> (nat \<Rightarrow> bool) \<Rightarrow> nat \<Rightarrow> nat \<Rightarrow> byte list \<Rightarrow> ping \<Rightarrow> (int option \<times> ping) option" where
  "reqs_loop now send_ok 0 i reqs_pckt g = Some (None, g)"
| "reqs_loop now send_ok (Suc n) i reqs_pckt g = (let d = diff_time (sets g) in
     if length d \<le> i then None
     else
       let g = g\<lparr>sets := (sets g)\<lparr>diff_time := d[i := (now i, snd (d ! i))]\<rparr>\<rparr> in
       if \<not> send_ok i then Some (Some 1, g\<lparr>out := out g @ [Perror ''sendto() failed'']\<rparr>)
       else do {
         tot_len \<leftarrow> ld16 reqs_pckt 2;
         pckt \<leftarrow> ldn reqs_pckt 0 (unat tot_len);
         let g = g\<lparr>wire := wire g @ [pckt], stat_pckt_transm := stat_pckt_transm g + 1\<rparr>;
         reqs_pckt \<leftarrow> next_request (of_nat (Suc i)) reqs_pckt;
         reqs_loop now send_ok n (Suc i) reqs_pckt g })"

definition icmp_reqs_hndl :: "u32 \<Rightarrow> (nat \<Rightarrow> timeval) \<Rightarrow> (nat \<Rightarrow> bool) \<Rightarrow> ping \<Rightarrow> (int option \<times> ping) option" where
  "icmp_reqs_hndl random now send_ok g = do {
     reqs_pckt \<leftarrow> echo_request random 255 (src_addr (sets g)) (dst_addr (sets g)) (word_of_int (reqs_id (sets g))) 0;
     reqs_loop now send_ok (unat (reqs_count (sets g))) 0 reqs_pckt g }"

section \<open>Receiving\<close>

datatype repl_result = Again | Thread_End | Exit int

text \<open>One turn of the loop of \<^verbatim>\<open>icmp_repl_hndl\<close>, after \<^verbatim>\<open>recvfrom\<close> stored \<open>data\<close> in the cleared buffer of 1024
  bytes; \<open>n\<close> is the thread's own count of replies.\<close>

definition repl_step :: "timeval \<Rightarrow> string \<Rightarrow> byte list \<Rightarrow> u32 \<Rightarrow> ping \<Rightarrow> (repl_result \<times> u32 \<times> ping) option" where
  "repl_step now host data n g = do {
     let res = min 1024 (length data);
     let repl_pckt = take 1024 (data @ replicate 1024 0);
     ihl \<leftarrow> ip_ihl repl_pckt 0;
     let icmph = ihl * 4;
     ident \<leftarrow> ld16 repl_pckt (icmph + 4);
     if uint (ntohs ident) \<noteq> reqs_id (sets g) then Some (Again, n, g)
     else do {
       type \<leftarrow> ld8 repl_pckt icmph;
       if type = 0 then do {
         sequence \<leftarrow> ld16 repl_pckt (icmph + 6);
         ttl \<leftarrow> ld8 repl_pckt 8;
         let seq_num = unat (ntohs sequence);
         let d = diff_time (sets g);
         if length d \<le> seq_num then None
         else
           let d = d[seq_num := (fst (d ! seq_num), now)];
               g = g\<lparr>sets := (sets g)\<lparr>diff_time := d\<rparr>,
                     out := out g @ [Printf (ln ''%d bytes from %s (ip: %s): icmp_seq=%d ttl=%d time=%1.2f ms'')
                       [Num (int res), Str host, Str (inet_ntoa (dst_addr (sets g))), num16 (ntohs sequence), num8 ttl,
                        Num (get_diff_time (snd (d ! seq_num)) (fst (d ! seq_num)))]],
                     stat_pckt_recive := stat_pckt_recive g + 1\<rparr>;
               n = n + 1
           in Some (if reqs_count (sets g) = n then Thread_End else Again, n, g) }
       else if type = 3 then Some (Exit 1, n, g\<lparr>out := out g @ [say (ln ''destination unreachable'')]\<rparr>)
       else if type = 11 then Some (Exit 1, n, g\<lparr>out := out g @ [say (ln ''time exceed'')]\<rparr>)
       else Some (Again, n, g) } }"

text \<open>The loop on the successive results of \<^verbatim>\<open>recvfrom\<close>, \<open>None\<close> for a failure; \<open>Again\<close> at the end means that the
  thread waits for the next one.\<close>

fun repl_loop :: "(nat \<Rightarrow> timeval) \<Rightarrow> string \<Rightarrow> byte list option list \<Rightarrow> nat \<Rightarrow> u32 \<Rightarrow> ping \<Rightarrow> (repl_result \<times> u32 \<times> ping) option" where
  "repl_loop now host [] k n g = Some (Again, n, g)"
| "repl_loop now host (None # rs) k n g = Some (Exit 1, n, g\<lparr>out := out g @ [Perror ''recvfrom() failed'']\<rparr>)"
| "repl_loop now host (Some data # rs) k n g = do {
     (r, n, g) \<leftarrow> repl_step (now k) host data n g;
     case r of Again \<Rightarrow> repl_loop now host rs (Suc k) n g | _ \<Rightarrow> Some (r, n, g) }"

definition icmp_repl_hndl :: "(nat \<Rightarrow> timeval) \<Rightarrow> string \<Rightarrow> byte list option list \<Rightarrow> ping \<Rightarrow> (repl_result \<times> u32 \<times> ping) option" where
  "icmp_repl_hndl now host rs g = repl_loop now host rs 0 0 (g\<lparr>out := out g @ [say (ln [])]\<rparr>)"

section \<open>Start of the program\<close>

text \<open>
  \<^verbatim>\<open>main\<close> up to the start of the two threads, given the results of the calls it makes: the events, and
  the exit code or the settings the threads share. \<^verbatim>\<open>malloc\<close> gives \<^verbatim>\<open>reqs_count\<close> entries, here zero.
\<close>

record ping_env =
  getuid :: int
  getpid :: int
  sigaction_res :: int
  malloc_ok :: bool
  socket_res :: int
  setsockopt_res :: int
  pthread_create_res :: "int \<times> int"

definition ping_main :: "string \<Rightarrow> (string \<Rightarrow> u32 option) \<Rightarrow> (string \<Rightarrow> byte list option) \<Rightarrow> byte list option \<Rightarrow>
    option_arg list \<Rightarrow> ping_env \<Rightarrow> (event list \<times> (int + ping_sets)) option" where
  "ping_main argv0 scan pton self_ip opts env =
     (if getuid env \<noteq> 0 then Some ([Printf (ln ''%s: root privelidges needed'') [Str argv0]], Inl 1)
      else do {
        let p = \<lparr>reqs_id = 0, src_addr = [0, 0, 0, 0], dst_addr = [0, 0, 0, 0], reqs_count = 0, reqs_timeout = 0,
                 debug_opt = False, diff_time = []\<rparr>;
        (res, e, p) \<leftarrow> parse_argvs argv0 scan pton self_ip opts p;
        if res = - 1 then Some (e @ [say (ln ''parse_argvs() failed'')], Inl 1)
        else
          let p = p\<lparr>reqs_id := getpid env\<rparr>;
              sock = socket_res env;
              closed = [Call ''close'' [Num sock]];
              (e_sig, ended) = init_signal (sigaction_res env);
              e = e @ e_sig in
          if ended = Some 1 then Some (e, Inl 1)
          else if \<not> malloc_ok env then Some (e @ [Perror ''malloc() failed''], Inl 1)
          else
            let p = p\<lparr>diff_time := replicate (unat (reqs_count p)) ((0, 0), (0, 0))\<rparr> in
            if sock = - 1 then Some (e @ [Perror ''socket() failed''] @ closed, Inl 1)
            else if setsockopt_res env = - 1 then Some (e @ [Perror ''setsockopt() failed''] @ closed, Inl 1)
            else
              let e = e @ [
                Printf (ln ''%s configuration'') [Str argv0],
                Printf (ln ''   |- Socket descriptor    : #%d'') [Num sock],
                Printf (ln ''   |- Request ID (pid)     : #%d'') [Num (reqs_id p)],
                Printf (ln ''   |- Destination ip       : %s'') [Str (inet_ntoa (dst_addr p))],
                Printf (ln ''   |- Source ip            : %s'') [Str (inet_ntoa (src_addr p))],
                Printf (ln ''   |- Request packet count : %d'') [Num (sint (reqs_count p))],
                Printf (ln ''   |- Request timeout      : %d (seconds)'') [Num (sint (reqs_timeout p))],
                Printf (ln ''   |- Debug option         : %s'') [Str (if debug_opt p then ''enable'' else ''disable'')]] in
              if fst (pthread_create_res env) \<noteq> 0 \<or> snd (pthread_create_res env) \<noteq> 0
              then Some (e @ [say ''pthread_create() failed''] @ closed, Inl 1)
              else Some (e, Inr p) })"

section \<open>Printing headers\<close>

definition print_ip_header :: "byte list \<Rightarrow> (event list \<times> byte list) option" where
  "print_ip_header packet = do {
     check_sum_back \<leftarrow> ld16 packet ip_check;
     packet \<leftarrow> compute_ip_checksum packet 0;
     ls \<leftarrow> ip_header_lines packet 0 check_sum_back;
     Some ([say (CHR 0x0A # ln ''IP Header'')] @ ls, packet) }"

text \<open>\<^verbatim>\<open>print_data\<close> of this program, with fuel for the at most 256 turns of a loop that ends.\<close>

definition dump_u8 :: "byte list \<Rightarrow> nat \<Rightarrow> int \<Rightarrow> event list option" where
  "dump_u8 packet off sz = print_data_u8 257 (drop off packet) sz 0"

text \<open>\<^verbatim>\<open>sizeof icmph\<close> is the size of a pointer; \<^verbatim>\<open>header_size\<close> counts an Ethernet header that is not there, and
  is unsigned: the size passed to the last dump is \<^verbatim>\<open>size - header_size\<close> as an \<^verbatim>\<open>int\<close>.\<close>

definition print_icmp_packet :: "byte list \<Rightarrow> int \<Rightarrow> (event list \<times> byte list) option" where
  "print_icmp_packet packet sz = do {
     ihl \<leftarrow> ip_ihl packet 0;
     let iphdrlen = ihl * 4;
     let icmph = iphdrlen;
     let header_size = 14 + iphdrlen + 8;
     check_sum_back \<leftarrow> ld16 packet (icmph + icmp_check);
     packet \<leftarrow> compute_icmp_checksum packet icmph;
     (ip_ev, packet) \<leftarrow> print_ip_header packet;
     type \<leftarrow> ld8 packet icmph;
     code \<leftarrow> ld8 packet (icmph + 1);
     checksum \<leftarrow> ld16 packet (icmph + icmp_check);
     ident \<leftarrow> ld16 packet (icmph + 4);
     sequence \<leftarrow> ld16 packet (icmph + 6);
     d1 \<leftarrow> dump_u8 packet 0 (int iphdrlen);
     d2 \<leftarrow> dump_u8 packet iphdrlen 8;
     d3 \<leftarrow> dump_u8 packet header_size (sz - int header_size);
     Some (
       [banner ''*********************** ICMP Packet *************************''] @ ip_ev @
       [say (ln []), say (ln ''ICMP Header''),
        Printf ''   |-Type     : %d  '' [num8 type],
        say (icmp_type_name type),
        Printf (ln ''   |-Code     : %d'') [num8 code],
        Printf (ln ''   |-Checksum : %d (verif: %d) [%s]'')
          [num16 (ntohs check_sum_back), num16 (ntohs checksum), validity check_sum_back checksum],
        Printf (ln ''   |-ID       : %d'') [num16 (ntohs ident)],
        Printf (ln ''   |-Sequence : %d'') [num16 (ntohs sequence)],
        say (ln []), say (ln ''IP header data'')] @ d1 @
       [say (ln ''UDP header data'')] @ d2 @
       [say (ln ''Data payload'')] @ d3 @
       [say (CHR 0x0A # ''###########################################################'')], packet) }"

section \<open>The requests\<close>

lemma reqs_loop_ok:
  assumes "\<forall>j. send_ok j"
  shows "echo_packet saddr daddr 255 ident (of_nat i) p \<Longrightarrow> i + n \<le> length (diff_time (sets g)) \<Longrightarrow>
    returns (reqs_loop now send_ok n i p g) (\<lambda>r g'. r = None \<and> out g' = out g \<and> stat_pckt_recive g' = stat_pckt_recive g \<and>
      stat_pckt_transm g' = stat_pckt_transm g + of_nat n \<and>
      (\<exists>d. length d = length (diff_time (sets g)) \<and> sets g' = (sets g)\<lparr>diff_time := d\<rparr>) \<and>
      (\<exists>ps. length ps = n \<and> wire g' = wire g @ map (take 28) ps \<and>
        (\<forall>k < n. echo_packet saddr daddr 255 ident (of_nat (i + k)) (ps ! k))))"
proof (induction n arbitrary: i p g)
  case 0
  show ?case by (simp add: exI[of _ "diff_time (sets g)"])
next
  case (Suc n)
  let ?d = "diff_time (sets g)"
  define g1 where "g1 = g\<lparr>sets := (sets g)\<lparr>diff_time := ?d[i := (now i, snd (?d ! i))]\<rparr>, wire := wire g @ [take 28 p],
    stat_pckt_transm := stat_pckt_transm g + 1\<rparr>"
  note tl = echo_packet_send[OF Suc.prems(1)]
  obtain q where q: "next_request (of_nat (Suc i)) p = Some q" "echo_packet saddr daddr 255 ident (of_nat (Suc i)) q"
    using next_request_ok[OF Suc.prems(1), of "of_nat (Suc i)"] by (auto elim!: yieldsE)
  have eq: "reqs_loop now send_ok (Suc n) i p g = reqs_loop now send_ok n (Suc i) q g1"
    using Suc.prems(2) assms tl q(1) by (simp add: Let_def g1_def)
  have "returns (reqs_loop now send_ok n (Suc i) q g1) (\<lambda>r g'. r = None \<and> out g' = out g1 \<and>
      stat_pckt_recive g' = stat_pckt_recive g1 \<and> stat_pckt_transm g' = stat_pckt_transm g1 + of_nat n \<and>
      (\<exists>d. length d = length (diff_time (sets g1)) \<and> sets g' = (sets g1)\<lparr>diff_time := d\<rparr>) \<and>
      (\<exists>ps. length ps = n \<and> wire g' = wire g1 @ map (take 28) ps \<and>
        (\<forall>k < n. echo_packet saddr daddr 255 ident (of_nat (Suc i + k)) (ps ! k))))"
    using Suc.prems(2) by (intro Suc.IH[OF q(2)]) (simp add: g1_def)
  then show ?case unfolding eq
  proof (rule returns_mono)
    fix r g'
    assume A: "r = None \<and> out g' = out g1 \<and> stat_pckt_recive g' = stat_pckt_recive g1 \<and>
      stat_pckt_transm g' = stat_pckt_transm g1 + of_nat n \<and>
      (\<exists>d. length d = length (diff_time (sets g1)) \<and> sets g' = (sets g1)\<lparr>diff_time := d\<rparr>) \<and>
      (\<exists>ps. length ps = n \<and> wire g' = wire g1 @ map (take 28) ps \<and>
        (\<forall>k < n. echo_packet saddr daddr 255 ident (of_nat (Suc i + k)) (ps ! k)))"
    then obtain ps where ps: "length ps = n" "wire g' = wire g1 @ map (take 28) ps"
      "\<forall>k < n. echo_packet saddr daddr 255 ident (of_nat (Suc i + k)) (ps ! k)" by blast
    have "echo_packet saddr daddr 255 ident (of_nat (i + k)) ((p # ps) ! k)" if "k < Suc n" for k
      using that ps(3) Suc.prems(1) by (cases k) auto
    then have "\<exists>ps. length ps = Suc n \<and> wire g' = wire g @ map (take 28) ps \<and>
        (\<forall>k < Suc n. echo_packet saddr daddr 255 ident (of_nat (i + k)) (ps ! k))"
      using ps(1,2) by (intro exI[of _ "p # ps"]) (simp add: g1_def)
    then show "r = None \<and> out g' = out g \<and> stat_pckt_recive g' = stat_pckt_recive g \<and>
      stat_pckt_transm g' = stat_pckt_transm g + of_nat (Suc n) \<and>
      (\<exists>d. length d = length (diff_time (sets g)) \<and> sets g' = (sets g)\<lparr>diff_time := d\<rparr>) \<and>
      (\<exists>ps. length ps = Suc n \<and> wire g' = wire g @ map (take 28) ps \<and>
        (\<forall>k < Suc n. echo_packet saddr daddr 255 ident (of_nat (i + k)) (ps ! k)))"
      using A by (auto simp: g1_def add.assoc)
  qed
qed

section \<open>The replies\<close>

definition repl_seq :: "byte list \<Rightarrow> nat" where
  "repl_seq data = unat (le16 (repl_buf data ! (repl_off data + 7)) (repl_buf data ! (repl_off data + 6)))"

text \<open>The line printed for a reply, and the state after it.\<close>

definition repl_line :: "timeval \<Rightarrow> string \<Rightarrow> byte list \<Rightarrow> ping \<Rightarrow> event" where
  "repl_line now host data g = Printf (ln ''%d bytes from %s (ip: %s): icmp_seq=%d ttl=%d time=%1.2f ms'')
     [Num (int (min 1024 (length data))), Str host, Str (inet_ntoa (dst_addr (sets g))), Num (int (repl_seq data)),
      num8 (repl_buf data ! 8), Num (get_diff_time now (fst (diff_time (sets g) ! repl_seq data)))]"

definition repl_state :: "timeval \<Rightarrow> string \<Rightarrow> byte list \<Rightarrow> ping \<Rightarrow> ping" where
  "repl_state now host data g = g\<lparr>sets := (sets g)\<lparr>diff_time := (diff_time (sets g))
       [repl_seq data := (fst (diff_time (sets g) ! repl_seq data), now)]\<rparr>,
     out := out g @ [repl_line now host data g], stat_pckt_recive := stat_pckt_recive g + 1\<rparr>"

lemma repl_step_eq:
  "repl_step now host data n g =
     (if uint (repl_ident data) \<noteq> reqs_id (sets g) then Some (Again, n, g)
      else if repl_type data = 0 then
        (if length (diff_time (sets g)) \<le> repl_seq data then None
         else Some (if reqs_count (sets g) = n + 1 then Thread_End else Again, n + 1, repl_state now host data g))
      else if repl_type data = 3 then Some (Exit 1, n, g\<lparr>out := out g @ [say (ln ''destination unreachable'')]\<rparr>)
      else if repl_type data = 11 then Some (Exit 1, n, g\<lparr>out := out g @ [say (ln ''time exceed'')]\<rparr>)
      else Some (Again, n, g))"
proof -
  note loads = repl_loads[of data]
  show ?thesis
    unfolding repl_step_def Let_def repl_buf_def[symmetric] loads(1) Option.bind.simps repl_off_def[symmetric] loads(2-5)
    by (simp add: repl_state_def repl_line_def repl_seq_def nth_list_update)
qed

section \<open>Counting replies\<close>

text \<open>A reply to one of our requests, and a datagram that neither stops the program nor has a sequence
  number outside the table of \<open>len\<close> times.\<close>

definition echo_match :: "int \<Rightarrow> byte list \<Rightarrow> bool" where
  "echo_match ident data = (uint (repl_ident data) = ident \<and> repl_type data = 0)"

definition harmless :: "int \<Rightarrow> nat \<Rightarrow> byte list \<Rightarrow> bool" where
  "harmless ident len data = (uint (repl_ident data) = ident \<longrightarrow>
     repl_type data \<noteq> 3 \<and> repl_type data \<noteq> 11 \<and> (repl_type data = 0 \<longrightarrow> repl_seq data < len))"

text \<open>The sequence numbers of the lines printed for replies.\<close>

definition printed_seqs :: "event list \<Rightarrow> int list" where
  "printed_seqs es = concat (map (\<lambda>e. case e of Printf _ [_, _, _, Num q, _, _] \<Rightarrow> [q] | _ \<Rightarrow> []) es)"

lemma printed_seqs_simps [simp]:
  "printed_seqs [] = []" "printed_seqs (xs @ ys) = printed_seqs xs @ printed_seqs ys"
  "printed_seqs [repl_line now host data g] = [int (repl_seq data)]" "printed_seqs [say s] = []"
  by (simp_all add: printed_seqs_def repl_line_def)

lemma repl_loop_counts:
  assumes "n < reqs_count (sets g)" "\<forall>d \<in> set ds. harmless (reqs_id (sets g)) (length (diff_time (sets g))) d"
  shows "\<exists>g'. repl_loop now host (map Some ds) k n g =
      Some (if unat n + length (filter (echo_match (reqs_id (sets g))) ds) < unat (reqs_count (sets g)) then Again else Thread_End,
            n + of_nat (min (length (filter (echo_match (reqs_id (sets g))) ds)) (unat (reqs_count (sets g)) - unat n)), g') \<and>
    stat_pckt_transm g' = stat_pckt_transm g \<and>
    stat_pckt_recive g' = stat_pckt_recive g +
      of_nat (min (length (filter (echo_match (reqs_id (sets g))) ds)) (unat (reqs_count (sets g)) - unat n)) \<and>
    printed_seqs (out g') = printed_seqs (out g) @
      map (\<lambda>d. int (repl_seq d)) (take (unat (reqs_count (sets g)) - unat n) (filter (echo_match (reqs_id (sets g))) ds))"
  using assms
proof (induction ds arbitrary: k n g)
  case Nil
  then show ?case by (simp add: word_less_nat_alt)
next
  case (Cons d ds)
  let ?id = "reqs_id (sets g)" and ?c = "unat (reqs_count (sets g))"
  have lt: "unat n < ?c" using Cons.prems(1) by (simp add: word_less_nat_alt)
  have h: "harmless ?id (length (diff_time (sets g))) d" using Cons.prems(2) by simp
  show ?case
  proof (cases "echo_match ?id d")
    case False
    have "repl_step (now k) host d n g = Some (Again, n, g)"
      using False h by (auto simp: repl_step_eq echo_match_def harmless_def)
    then show ?thesis using Cons.IH[OF Cons.prems(1)] Cons.prems(2) False by simp
  next
    case True
    let ?g = "repl_state (now k) host d g"
    have st: "sets ?g = (sets g)\<lparr>diff_time := diff_time (sets ?g)\<rparr>" "length (diff_time (sets ?g)) = length (diff_time (sets g))"
      "stat_pckt_transm ?g = stat_pckt_transm g" "stat_pckt_recive ?g = stat_pckt_recive g + 1"
      "printed_seqs (out ?g) = printed_seqs (out g) @ [int (repl_seq d)]"
      by (simp_all add: repl_state_def)
    have id: "reqs_id (sets ?g) = ?id" "reqs_count (sets ?g) = reqs_count (sets g)" by (simp_all add: repl_state_def)
    have step: "repl_step (now k) host d n g = Some (if reqs_count (sets g) = n + 1 then Thread_End else Again, n + 1, ?g)"
      using True h by (auto simp: repl_step_eq echo_match_def harmless_def)
    have un: "unat (n + 1) = Suc (unat n)" using lt unsigned_less[of "reqs_count (sets g)", where ?'a = nat] by (simp add: unat_word_ariths)
    show ?thesis
    proof (cases "reqs_count (sets g) = n + 1")
      case last: True
      then have "?c = Suc (unat n)" using un by simp
      then show ?thesis using True step last st by simp
    next
      case False
      then have "?c \<noteq> Suc (unat n)" using un by (metis word_unat_eq_iff)
      then have lt': "n + 1 < reqs_count (sets ?g)" and c: "?c - unat n = Suc (?c - Suc (unat n))"
        using lt un id(2) by (simp_all add: word_less_nat_alt)
      have pre: "\<forall>d \<in> set ds. harmless (reqs_id (sets ?g)) (length (diff_time (sets ?g))) d"
        using Cons.prems(2) id(1) st(2) by simp
      obtain g' where g': "repl_loop now host (map Some ds) (Suc k) (n + 1) ?g =
          Some (if unat (n + 1) + length (filter (echo_match ?id) ds) < ?c then Again else Thread_End,
            n + 1 + of_nat (min (length (filter (echo_match ?id) ds)) (?c - unat (n + 1))), g')"
        "stat_pckt_transm g' = stat_pckt_transm ?g"
        "stat_pckt_recive g' = stat_pckt_recive ?g + of_nat (min (length (filter (echo_match ?id) ds)) (?c - unat (n + 1)))"
        "printed_seqs (out g') = printed_seqs (out ?g) @ map (\<lambda>d. int (repl_seq d)) (take (?c - unat (n + 1)) (filter (echo_match ?id) ds))"
        using Cons.IH[OF lt' pre, of "Suc k"] unfolding id by blast
      have "repl_loop now host (map Some (d # ds)) k n g = repl_loop now host (map Some ds) (Suc k) (n + 1) ?g"
        using step False by simp
      then show ?thesis using g' st True un c by (simp add: add.assoc)
    qed
  qed
qed

section \<open>The answers of the destination\<close>

text \<open>What the destination sends back for an echo request \<open>p\<close>: addresses exchanged, the type changed to
  0, and a checksum \<open>c\<close>, which the program does not look at.\<close>

definition echo_answer :: "byte list \<Rightarrow> byte list \<Rightarrow> byte list" where
  "echo_answer c p = take 12 p @ sub p 16 4 @ sub p 12 4 @ [0, 0] @ c @ drop 24 p"

lemma echo_answer_fields:
  assumes "echo_packet saddr daddr ttl ident seq p" "length c = 2"
  shows "repl_ident (echo_answer c (take 28 p)) = ident" "repl_type (echo_answer c (take 28 p)) = 0"
    "repl_seq (echo_answer c (take 28 p)) = unat seq"
proof -
  have f: "length p = 1024" "p ! 0 = 0x45" "sub p 24 2 = [hi8 ident, lo8 ident]" "sub p 26 2 = [hi8 seq, lo8 seq]"
    using assms(1) by (simp_all add: echo_packet_def echo_fields_def)
  let ?b = "repl_buf (echo_answer c (take 28 p))"
  have b: "?b = take 12 p @ sub p 16 4 @ sub p 12 4 @ [0, 0] @ c @ sub p 24 2 @ sub p 26 2 @ replicate 996 0"
    using f(1) assms(2) by (simp add: repl_buf_def echo_answer_def sub_def drop_take min_def take_add[of 2 2, simplified])
  have l: "length (sub p 16 4) = 4" "length (sub p 12 4) = 4" using f(1) by (simp_all add: length_sub)
  have "?b ! 0 = 0x45" using b f(1,2) by (simp add: nth_append)
  then have off: "repl_off (echo_answer c (take 28 p)) = 20" by (simp add: repl_off_def)
  have n: "?b ! 20 = 0" "?b ! 24 = hi8 ident" "?b ! 25 = lo8 ident" "?b ! 26 = hi8 seq" "?b ! 27 = lo8 seq"
    using b f l assms(2) by (simp_all add: nth_append)
  show "repl_ident (echo_answer c (take 28 p)) = ident" "repl_type (echo_answer c (take 28 p)) = 0"
    "repl_seq (echo_answer c (take 28 p)) = unat seq"
    using n by (simp_all add: repl_ident_def repl_type_def repl_seq_def off)
qed

section \<open>Properties\<close>

text \<open>The requests of a ping run. If no \<^verbatim>\<open>sendto\<close> fails and the table of times has one entry per
  request, the sending thread stays inside the table and puts exactly \<^verbatim>\<open>reqs_count\<close> packets of 28 bytes on
  the wire. The \<open>k\<close>-th is an ICMP echo request with time to live 255, the configured addresses, the
  process id as identifier and \<open>k\<close> as sequence number, and both its checksums verify.\<close>
theorem ping_requests_valid:
  assumes "length (src_addr (sets g)) = 4" "length (dst_addr (sets g)) = 4"
    and "length (diff_time (sets g)) = unat (reqs_count (sets g))" "\<forall>j. send_ok j"
  shows "returns (icmp_reqs_hndl random now send_ok g) (\<lambda>r g'. r = None \<and>
    stat_pckt_transm g' = stat_pckt_transm g + reqs_count (sets g) \<and>
    (\<exists>ps. wire g' = wire g @ map (take 28) ps \<and> length ps = unat (reqs_count (sets g)) \<and>
      (\<forall>k < length ps. echo_packet (src_addr (sets g)) (dst_addr (sets g)) 255 (word_of_int (reqs_id (sets g))) (of_nat k) (ps ! k))))"
proof -
  let ?id = "word_of_int (reqs_id (sets g)) :: u16"
  obtain p where p: "echo_request random 255 (src_addr (sets g)) (dst_addr (sets g)) ?id 0 = Some p"
    "echo_packet (src_addr (sets g)) (dst_addr (sets g)) 255 ?id (of_nat 0) p"
    using echo_request_ok[OF assms(1,2), of random 255 ?id 0] by (auto elim!: yieldsE)
  have "returns (reqs_loop now send_ok (unat (reqs_count (sets g))) 0 p g) (\<lambda>r g'. r = None \<and>
    stat_pckt_transm g' = stat_pckt_transm g + reqs_count (sets g) \<and>
    (\<exists>ps. wire g' = wire g @ map (take 28) ps \<and> length ps = unat (reqs_count (sets g)) \<and>
      (\<forall>k < length ps. echo_packet (src_addr (sets g)) (dst_addr (sets g)) 255 ?id (of_nat k) (ps ! k))))"
    using assms(3) by (intro returns_mono[OF reqs_loop_ok[OF assms(4) p(2)]]) auto
  then show ?thesis using p(1) by (simp add: icmp_reqs_hndl_def)
qed

definition ping_example :: ping where
  "ping_example = \<lparr>sets = \<lparr>reqs_id = 77, src_addr = [10, 0, 0, 1], dst_addr = [10, 0, 0, 2], reqs_count = 3, reqs_timeout = 0,
     debug_opt = False, diff_time = replicate 3 ((0, 0), (0, 0))\<rparr>, stat_pckt_transm = 0, stat_pckt_recive = 0, wire = [], out = []\<rparr>"

theorem ping_requests_valid_witness:
  "returns (icmp_reqs_hndl 5 (\<lambda>k. (0, 0)) (\<lambda>j. True) ping_example) (\<lambda>r g'. stat_pckt_transm g' = 3 \<and> length (wire g') = 3)"
  using ping_requests_valid[of ping_example "\<lambda>j. True" 5 "\<lambda>k. (0, 0)"]
  by (auto simp: ping_example_def elim!: returnsE)



text \<open>The receiving thread trusts the network. Whatever datagram arrives, handling it is defined unless
  it is an echo reply with our identifier and a sequence number that no request had: then the time is
  stored outside the table. A process id above 65535 never matches, so such a run counts no reply.\<close>
theorem ping_reply_overrun:
  "(repl_step now host data n g = None \<longleftrightarrow> uint (repl_ident data) = reqs_id (sets g) \<and> repl_type data = 0 \<and>
     length (diff_time (sets g)) \<le> repl_seq data) \<and>
   (65535 < reqs_id (sets g) \<longrightarrow> repl_step now host data n g = Some (Again, n, g))"
proof -
  have "uint (repl_ident data) < 65536" using uint_lt2p[of "repl_ident data"] by simp
  then show ?thesis by (auto simp: repl_step_eq)
qed

theorem ping_reply_overrun_witness:
  "repl_step (0, 0) [] (0x45 # replicate 23 0 @ [0, 77, 0, 9]) 0 ping_example = None \<and>
   repl_step (0, 0) [] [] 0 (ping_example\<lparr>sets := (sets ping_example)\<lparr>reqs_id := 70000\<rparr>\<rparr>) =
     Some (Again, 0, ping_example\<lparr>sets := (sets ping_example)\<lparr>reqs_id := 70000\<rparr>\<rparr>)"
proof -
  let ?d = "0x45 # replicate 23 0 @ [0, 77, 0, 9] :: byte list"
  have b: "repl_buf ?d = ?d @ replicate 996 0" by (simp add: repl_buf_def)
  have off: "repl_off ?d = 20" unfolding repl_off_def b by simp
  have "repl_ident ?d = 77" "repl_type ?d = 0" "repl_seq ?d = 9"
    unfolding repl_ident_def repl_type_def repl_seq_def off b by (simp_all add: nth_append nth_Cons' le16_def)
  then show ?thesis
    using ping_reply_overrun[of "(0, 0)" "[]" ?d 0 ping_example]
      ping_reply_overrun[of "(0, 0)" "[]" "[]" 0 "ping_example\<lparr>sets := (sets ping_example)\<lparr>reqs_id := 70000\<rparr>\<rparr>"]
    by (simp add: ping_example_def)
qed

text \<open>The loss printed on interrupt. It is right when nothing or everything was answered, but any
  partial loss is reported as 100 per cent, because the quotient is an integer; before the first
  request the division is undefined.\<close>
theorem ping_loss_report:
  "(stat_pckt_transm g = 0 \<longrightarrow> sig_hndl g = None) \<and>
   (stat_pckt_transm g \<noteq> 0 \<and> stat_pckt_recive g \<le> stat_pckt_transm g \<longrightarrow>
     (\<exists>f t r. sig_hndl g = Some [f, Printf (ln ''%d packets transmitted, %d received, %1.f%% packet loss'')
       [t, r, Num (if stat_pckt_recive g = stat_pckt_transm g then 0 else 100)]]))"
proof -
  have "r div t = 0" if "r < t" for r t :: u32 using that by (simp add: word_less_nat_alt word_unat_eq_iff unat_div_distrib)
  moreover have "t div t = 1" if "t \<noteq> 0" for t :: u32
  proof -
    have "unat t \<noteq> 0" using that by (simp only: unat_eq_0) simp
    then have "unat (t div t) = unat (1 :: u32)" by (simp add: unat_div_distrib)
    then show ?thesis by (simp only: word_unat_eq_iff)
  qed
  ultimately show ?thesis by (auto simp: sig_hndl_def order_le_less)
qed

theorem ping_loss_report_witness:
  "\<exists>f t r. sig_hndl (ping_example\<lparr>stat_pckt_transm := 10, stat_pckt_recive := 9\<rparr>) =
     Some [f, Printf (ln ''%d packets transmitted, %d received, %1.f%% packet loss'') [t, r, Num 100]]"
  using ping_loss_report[of "ping_example\<lparr>stat_pckt_transm := 10, stat_pckt_recive := 9\<rparr>"] by simp

section \<open>The addresses of the interfaces\<close>

text \<open>\<^verbatim>\<open>print_if_addr\<close>, which nothing calls. An interface has a name and, unless its address is \<^verbatim>\<open>NULL\<close>, an address with its family;
  \<open>nameinfo\<close> is \<^verbatim>\<open>getnameinfo\<close>, with the text of the error or of the address.\<close>

fun print_if_addrs :: "(byte list \<Rightarrow> string + string) \<Rightarrow> (string \<times> (int \<times> byte list) option) list \<Rightarrow> event list option" where
  "print_if_addrs nameinfo [] = Some []"
| "print_if_addrs nameinfo ((ifa_name, None) # ifs) = None"
| "print_if_addrs nameinfo ((ifa_name, Some (family, a)) # ifs) =
     (if family \<noteq> 2 then print_if_addrs nameinfo ifs
      else case nameinfo a of
        Inl err \<Rightarrow> Some [Printf (ln ''getnameinfo() failed: %s'') [Str err]]
      | Inr host \<Rightarrow> map_option ((#) (Printf (ln (''<Interface>: %s '' @ [CHR 0x09] @ '' <Address> %s'')) [Str ifa_name, Str host])) (print_if_addrs nameinfo ifs))"

definition print_if_addr :: "(byte list \<Rightarrow> string + string) \<Rightarrow> (string \<times> (int \<times> byte list) option) list option \<Rightarrow> event list option" where
  "print_if_addr nameinfo ifaddr = (case ifaddr of None \<Rightarrow> Some [Perror ''getifaddrs''] | Some ifs \<Rightarrow> print_if_addrs nameinfo ifs)"

text \<open>It prints the IPv4 addresses, one for each interface that has one, and dereferences \<^verbatim>\<open>NULL\<close> at the first interface without an
  address.\<close>

theorem print_if_addr_lines:
  assumes "\<forall>a. nameinfo a = Inr (host a)"
  shows "print_if_addr nameinfo (Some ifs) = (if None \<in> snd ` set ifs then None
    else Some (concat (map (\<lambda>(n, a). case a of Some (f, x) \<Rightarrow> if f = 2 then [Printf (ln (''<Interface>: %s '' @ [CHR 0x09] @ '' <Address> %s'')) [Str n, Str (host x)]] else [] | None \<Rightarrow> []) ifs)))"
proof -
  have "print_if_addrs nameinfo ifs = (if None \<in> snd ` set ifs then None
    else Some (concat (map (\<lambda>(n, a). case a of Some (f, x) \<Rightarrow> if f = 2 then [Printf (ln (''<Interface>: %s '' @ [CHR 0x09] @ '' <Address> %s'')) [Str n, Str (host x)]] else [] | None \<Rightarrow> []) ifs)))"
    using assms by (induction nameinfo ifs rule: print_if_addrs.induct) auto
  then show ?thesis by (simp add: print_if_addr_def)
qed

end
