(* ===== verification/Icmp_Traceroute.thy ===== *)
theory Icmp_Traceroute
  imports Icmp_Echo
begin

text \<open>
  The traceroute program \<^verbatim>\<open>src/icmp_raw_socket_traceroute\<close>: its start, the loop that sends a probe, waits for an
  answer and raises the time to live, and the printing of headers. The outcome of one turn of the loop is
  a \<open>probe_result\<close>. The source and destination addresses are the constants of the program.
\<close>

section \<open>Start\<close>

definition SOURCE_IP :: "byte list" where
  "SOURCE_IP = [192, 168, 126, 131]"

definition DEST_IP :: "byte list" where
  "DEST_IP = [195, 93, 187, 16]"

record tracer =
  ttl :: int
  seq :: int
  reqs_pckt :: "byte list"
  probes :: "byte list list"
  out :: "event list"

text \<open>The checks before the loop, in order: what is printed and whether the program goes on.\<close>

definition trace_init :: "bool \<Rightarrow> int \<Rightarrow> int \<Rightarrow> int \<Rightarrow> int \<Rightarrow> event list \<times> bool" where
  "trace_init calloc_ok epd sd sockopt ctl =
     (if \<not> calloc_ok then ([Perror ''calloc(events)''], False)
      else if epd = - 1 then ([Perror ''epoll_create''], False)
      else if sd = - 1 then ([Perror ''socket'', Call ''close'' [Num sd]], False)
      else if sockopt = - 1 then ([Perror ''setsockopt''], False)
      else if ctl = - 1 then ([Perror ''epoll_ctl(sd)''], False)
      else ([], True))"

definition trace_start :: "u32 \<Rightarrow> int \<Rightarrow> tracer option" where
  "trace_start random pid = do {
     p \<leftarrow> echo_request random 1 SOURCE_IP DEST_IP (word_of_int pid) 0;
     Some \<lparr>ttl = 1, seq = 0, reqs_pckt = p, probes = [], out = []\<rparr> }"

section \<open>The loop\<close>

datatype probe_result = Send_Error | Wait_Error | Timeout | Recv_Error | Answer "byte list" "byte list"

text \<open>The update at the end of a turn and after a timeout.\<close>

definition raise_ttl :: "tracer \<Rightarrow> tracer option" where
  "raise_ttl t = do {
     let t = t\<lparr>ttl := ttl t + 1, seq := seq t + 1\<rparr>;
     p \<leftarrow> next_probe (word_of_int (ttl t)) (word_of_int (seq t)) (reqs_pckt t);
     Some (t\<lparr>reqs_pckt := p\<rparr>) }"

definition hop_line :: "(byte list \<Rightarrow> string) \<Rightarrow> byte list \<Rightarrow> tracer \<Rightarrow> event" where
  "hop_line host source t = Printf (ln ''%d. %s (hs: %s)'') [Num (ttl t), Str (inet_ntoa source), Str (host source)]"

text \<open>The answer from \<open>source\<close> in the cleared buffer of 1024 bytes. \<open>Some (Some code, t)\<close> ends the program.\<close>

definition trace_answer :: "(byte list \<Rightarrow> string) \<Rightarrow> int \<Rightarrow> byte list \<Rightarrow> byte list \<Rightarrow> tracer \<Rightarrow> (int option \<times> tracer) option" where
  "trace_answer host pid source data t = do {
     let repl_pckt = take 1024 (data @ replicate 1024 0);
     ihl \<leftarrow> ip_ihl repl_pckt 0;
     type \<leftarrow> ld8 repl_pckt (ihl * 4);
     if type = 0 then do {
       ident \<leftarrow> ld16 repl_pckt (ihl * 4 + 4);
       Some (Some 0, t\<lparr>out := out t @ (if uint (ntohs ident) = pid then [hop_line host source t] else []) @ [Call ''close'' []]\<rparr>) }
     else if type = 3 then Some (None, t\<lparr>out := out t @ [say (ln ''destination unreachable'')]\<rparr>)
     else if type = 11 then do {
       ident \<leftarrow> ld16 repl_pckt (48 + 4);
       Some (None, t\<lparr>out := out t @ (if uint (ntohs ident) = pid then [hop_line host source t] else [])\<rparr>) }
     else Some (None, t) }"

definition trace_turn :: "(byte list \<Rightarrow> string) \<Rightarrow> int \<Rightarrow> probe_result \<Rightarrow> tracer \<Rightarrow> (int option \<times> tracer) option" where
  "trace_turn host pid r t =
     (if r = Send_Error then Some (Some 1, t\<lparr>out := out t @ [Perror ''sendto'', Call ''close'' []]\<rparr>)
      else do {
        tot_len \<leftarrow> ld16 (reqs_pckt t) 2;
        p \<leftarrow> ldn (reqs_pckt t) 0 (unat tot_len);
        let t = t\<lparr>probes := probes t @ [p]\<rparr>;
        case r of
          Wait_Error \<Rightarrow> Some (Some 1, t\<lparr>out := out t @ [Perror ''epoll_wait'']\<rparr>)
        | Timeout \<Rightarrow> do {
            t \<leftarrow> raise_ttl (t\<lparr>out := out t @ [Printf (ln ''%d. *   *   *'') [Num (ttl t)]]\<rparr>);
            Some (None, t) }
        | Recv_Error \<Rightarrow> Some (Some 1, t\<lparr>out := out t @ [Perror ''recvfrom'', Call ''close'' []]\<rparr>)
        | Answer source data \<Rightarrow> do {
            (e, t) \<leftarrow> trace_answer host pid source data t;
            case e of
              Some c \<Rightarrow> Some (Some c, t)
            | None \<Rightarrow> do { t \<leftarrow> raise_ttl t; Some (None, t) } }
        | Send_Error \<Rightarrow> None })"

fun trace_loop :: "(byte list \<Rightarrow> string) \<Rightarrow> int \<Rightarrow> probe_result list \<Rightarrow> tracer \<Rightarrow> (int option \<times> tracer) option" where
  "trace_loop host pid [] t = Some (None, t)"
| "trace_loop host pid (r # rs) t = do {
     (e, t) \<leftarrow> trace_turn host pid r t;
     case e of None \<Rightarrow> trace_loop host pid rs t | Some c \<Rightarrow> Some (Some c, t) }"

section \<open>Printing headers\<close>

definition print_ip_header :: "byte list \<Rightarrow> (event list \<times> byte list) option" where
  "print_ip_header packet = do {
     check_sum_back \<leftarrow> ld16 packet ip_check;
     packet \<leftarrow> compute_ip_checksum packet 0;
     ls \<leftarrow> ip_header_lines packet 0 check_sum_back;
     Some ([say (ln []), say (ln ''IP Header'')] @ ls, packet) }"

definition print_icmp_packet :: "byte list \<Rightarrow> int \<Rightarrow> (event list \<times> byte list) option" where
  "print_icmp_packet packet sz = do {
     ihl \<leftarrow> ip_ihl packet 0;
     let iphdrlen = ihl * 4;
     let icmph = iphdrlen;
     let header_size = 14 + iphdrlen + 8;
     check_sum_back \<leftarrow> ld16 packet (icmph + icmp_check);
     packet \<leftarrow> compute_icmp_checksum packet icmph;
     (ip_ev, packet) \<leftarrow> print_ip_header packet;
     type \<leftarrow> ld8 packet icmph;
     code \<leftarrow> ld8 packet (icmph + 1);
     checksum \<leftarrow> ld16 packet (icmph + icmp_check);
     ident \<leftarrow> ld16 packet (icmph + 4);
     sequence \<leftarrow> ld16 packet (icmph + 6);
     d1 \<leftarrow> print_data_int packet (int iphdrlen);
     d2 \<leftarrow> print_data_int (drop iphdrlen packet) 8;
     d3 \<leftarrow> print_data_int (drop header_size packet) (sz - int header_size);
     Some (
       [banner ''***********************ICMP Packet*************************''] @ ip_ev @
       [say (ln []), say (ln ''ICMP Header''),
        Printf ''   |-Type : %d'' [num8 type],
        say (if icmp_type_name type = ln [] then ln [] else ''  '' @ icmp_type_name type),
        Printf (ln ''   |-Code : %d'') [num8 code],
        Printf (ln ''   |-Checksum : %d (verif: %d) [%s]'')
          [num16 (ntohs check_sum_back), num16 (ntohs checksum), validity check_sum_back checksum],
        Printf (ln ''   |-ID       : %d'') [num16 (ntohs ident)],
        Printf (ln ''   |-Sequence : %d'') [num16 (ntohs sequence)],
        say (ln []), say (ln ''IP Header'')] @ d1 @
       [say (ln ''UDP Header'')] @ d2 @
       [say (ln ''Data Payload'')] @ d3 @
       [say (CHR 0x0A # ''###########################################################'')], packet) }"

section \<open>Every turn is defined\<close>

definition inner_ident :: "byte list \<Rightarrow> u16" where
  "inner_ident data = le16 (repl_buf data ! 53) (repl_buf data ! 52)"

lemma trace_answer_eq:
  "trace_answer host pid source data t =
     (if repl_type data = 0 then
        Some (Some 0, t\<lparr>out := out t @ (if uint (repl_ident data) = pid then [hop_line host source t] else []) @ [Call ''close'' []]\<rparr>)
      else if repl_type data = 3 then Some (None, t\<lparr>out := out t @ [say (ln ''destination unreachable'')]\<rparr>)
      else if repl_type data = 11 then
        Some (None, t\<lparr>out := out t @ (if uint (inner_ident data) = pid then [hop_line host source t] else [])\<rparr>)
      else Some (None, t))"
proof -
  have "length (repl_buf data) = 1024" by (simp add: repl_buf_def)
  then have inner: "ld16 (repl_buf data) (48 + 4) = Some (swap16 (inner_ident data))"
    by (simp add: load_rules inner_ident_def numeral_eq_Suc)
  note loads = repl_loads[of data]
  show ?thesis
    unfolding trace_answer_def Let_def repl_buf_def[symmetric] loads(1) Option.bind.simps repl_off_def[symmetric] loads(2-5) inner
    by simp
qed

text \<open>The state before the \<open>k\<close>-th turn: the probe to send has time to live \<open>k + 1\<close> and sequence number \<open>k\<close>, and the
  probes sent so far have the numbers before it.\<close>

definition probes_ok :: "int \<Rightarrow> nat \<Rightarrow> byte list list \<Rightarrow> bool" where
  "probes_ok pid k ws = (\<exists>ps. ws = map (take 28) ps \<and> length ps = k \<and>
     (\<forall>j < k. echo_packet SOURCE_IP DEST_IP (of_nat (Suc j)) (word_of_int pid) (of_nat j) (ps ! j)))"

definition at_turn :: "int \<Rightarrow> nat \<Rightarrow> tracer \<Rightarrow> bool" where
  "at_turn pid k t = (ttl t = int (Suc k) \<and> seq t = int k \<and>
     echo_packet SOURCE_IP DEST_IP (of_nat (Suc k)) (word_of_int pid) (of_nat k) (reqs_pckt t) \<and> probes_ok pid k (probes t))"

lemma trace_start_ok: "yields (trace_start random pid) (at_turn pid 0)"
proof -
  have "length SOURCE_IP = 4" "length DEST_IP = 4" by (simp_all add: SOURCE_IP_def DEST_IP_def)
  from echo_request_ok[OF this, of random 1 "word_of_int pid" 0] show ?thesis
    by (auto simp: trace_start_def at_turn_def probes_ok_def elim!: yieldsE)
qed

lemma probes_ok_snoc:
  assumes "probes_ok pid k ws" "echo_packet SOURCE_IP DEST_IP (of_nat (Suc k)) (word_of_int pid) (of_nat k) p"
  shows "probes_ok pid (Suc k) (ws @ [take 28 p])"
proof -
  obtain ps where ps: "ws = map (take 28) ps" "length ps = k"
    "\<forall>j < k. echo_packet SOURCE_IP DEST_IP (of_nat (Suc j)) (word_of_int pid) (of_nat j) (ps ! j)"
    using assms(1) by (auto simp: probes_ok_def)
  have "echo_packet SOURCE_IP DEST_IP (of_nat (Suc j)) (word_of_int pid) (of_nat j) ((ps @ [p]) ! j)" if "j < Suc k" for j
  proof (cases "j = k")
    case True
    then show ?thesis using ps(2) assms(2) by (simp only: nth_append) simp
  next
    case False
    then show ?thesis using ps(2,3) that by (simp add: nth_append)
  qed
  then show ?thesis unfolding probes_ok_def using ps(1,2) by (intro exI[of _ "ps @ [p]"]) simp
qed

lemma raise_ttl_ok:
  assumes "ttl t = int (Suc k)" "seq t = int k" "echo_packet SOURCE_IP DEST_IP a (word_of_int pid) b (reqs_pckt t)"
    and "probes_ok pid (Suc k) (probes t)"
  shows "\<exists>t'. raise_ttl t = Some t' \<and> at_turn pid (Suc k) t' \<and> out t' = out t"
proof -
  have w: "(word_of_int (int (Suc k) + 1) :: byte) = of_nat (Suc (Suc k))" "(word_of_int (int k + 1) :: u16) = of_nat (Suc k)"
    by simp_all
  obtain p where p: "next_probe (of_nat (Suc (Suc k))) (of_nat (Suc k)) (reqs_pckt t) = Some p"
    "echo_packet SOURCE_IP DEST_IP (of_nat (Suc (Suc k))) (word_of_int pid) (of_nat (Suc k)) p"
    using next_probe_ok[OF assms(3)] by (metis yieldsE)
  have "raise_ttl t = Some (t\<lparr>ttl := int (Suc k) + 1, seq := int k + 1, reqs_pckt := p\<rparr>)"
    using p(1) by (simp only: raise_ttl_def Let_def tracer.simps assms(1,2) w) (simp add: add.commute)
  then show ?thesis using p(2) assms(4) by (simp add: at_turn_def)
qed

lemma trace_turn_ok:
  assumes "at_turn pid k t"
  shows "\<exists>e t' l. trace_turn host pid r t = Some (e, t') \<and> out t' = out t @ l \<and>
    (case e of None \<Rightarrow> at_turn pid (Suc k) t' | Some c \<Rightarrow> probes_ok pid k (probes t') \<or> probes_ok pid (Suc k) (probes t'))"
proof -
  let ?p = "reqs_pckt t"
  have t: "ttl t = int (Suc k)" "seq t = int k" "echo_packet SOURCE_IP DEST_IP (of_nat (Suc k)) (word_of_int pid) (of_nat k) ?p"
    "probes_ok pid k (probes t)" using assms by (simp_all add: at_turn_def)
  note snd = echo_packet_send[OF t(3)] and ok = probes_ok_snoc[OF t(4,3)]
  have raise: "\<exists>t'. raise_ttl (t\<lparr>probes := probes t @ [take 28 ?p], out := l\<rparr>) = Some t' \<and> at_turn pid (Suc k) t' \<and> out t' = l" for l
    using raise_ttl_ok[of "t\<lparr>probes := probes t @ [take 28 ?p], out := l\<rparr>" k] t(1-3) ok by simp
  show ?thesis
  proof (cases r)
    case Timeout
    then show ?thesis using snd raise[of "out t @ [Printf (ln ''%d. *   *   *'') [Num (ttl t)]]"]
      by (auto simp: trace_turn_def)
  next
    case (Answer source data)
    let ?t = "t\<lparr>probes := probes t @ [take 28 ?p]\<rparr>"
    have "trace_answer host pid source data ?t \<noteq> None" by (simp add: trace_answer_eq)
    then obtain e t1 where a: "trace_answer host pid source data ?t = Some (e, t1)" by auto
    have t1: "\<exists>l. t1 = ?t\<lparr>out := out t @ l\<rparr>" using a by (auto simp: trace_answer_eq split: if_splits intro: exI[of _ "[]"])
    then obtain l where l: "t1 = t\<lparr>probes := probes t @ [take 28 ?p], out := out t @ l\<rparr>" by auto
    show ?thesis
    proof (cases e)
      case None
      then show ?thesis using Answer snd a raise[of "out t @ l"] l by (auto simp: trace_turn_def)
    next
      case (Some c)
      then show ?thesis using Answer snd a ok l by (auto simp: trace_turn_def)
    qed
  qed (use snd ok t(4) in \<open>auto simp: trace_turn_def\<close>)
qed

lemma trace_loop_ok:
  "at_turn pid k t \<Longrightarrow> \<exists>e t' j. trace_loop host pid rs t = Some (e, t') \<and> probes_ok pid j (probes t') \<and> j \<le> k + length rs \<and>
     (e = None \<longrightarrow> j = k + length rs)"
proof (induction rs arbitrary: k t)
  case Nil
  then show ?case by (auto simp: at_turn_def)
next
  case (Cons r rs)
  obtain e t1 where t1: "trace_turn host pid r t = Some (e, t1)"
    "case e of None \<Rightarrow> at_turn pid (Suc k) t1 | Some c \<Rightarrow> probes_ok pid k (probes t1) \<or> probes_ok pid (Suc k) (probes t1)"
    using trace_turn_ok[OF Cons.prems, of host r] by blast
  show ?case
  proof (cases e)
    case None
    then show ?thesis using t1 Cons.IH[of "Suc k" t1] by fastforce
  next
    case (Some c)
    then show ?thesis using t1 by (auto simp: Suc_le_eq intro: exI[of _ k] exI[of _ "Suc k"])
  qed
qed

section \<open>Properties\<close>

text \<open>C16: Whatever the network answers and whichever calls fail, the program never leaves its buffers, and
  the probes it sends are well formed: the one with number \<open>j\<close>, counted from 0, is an ICMP echo request
  to the destination with sequence number \<open>j\<close> and time to live \<open>j + 1\<close>, both modulo the size of the field, and with
  valid checksums. As long as the program has not ended, every turn sends one probe.\<close>
theorem traceroute_probes_valid:
  "\<exists>t0 e t ps. trace_start random pid = Some t0 \<and> trace_loop host pid rs t0 = Some (e, t) \<and>
     probes t = map (take 28) ps \<and> length ps \<le> length rs \<and> (e = None \<longrightarrow> length ps = length rs) \<and>
     (\<forall>j < length ps. echo_packet SOURCE_IP DEST_IP (of_nat (Suc j)) (word_of_int pid) (of_nat j) (ps ! j))"
proof -
  obtain t0 where t0: "trace_start random pid = Some t0" "at_turn pid 0 t0" using trace_start_ok[of random pid] by (metis yieldsE)
  from trace_loop_ok[OF t0(2), of host rs] t0(1) show ?thesis by (auto simp: probes_ok_def)
qed

theorem traceroute_probes_valid_witness:
  "\<exists>t0 e t ps. trace_start 7 300 = Some t0 \<and> trace_loop (\<lambda>_. []) 300 [Timeout, Timeout] t0 = Some (e, t) \<and>
     probes t = map (take 28) ps \<and> length ps \<le> length [Timeout, Timeout] \<and> (e = None \<longrightarrow> length ps = length [Timeout, Timeout]) \<and>
     (\<forall>j < length ps. echo_packet SOURCE_IP DEST_IP (of_nat (Suc j)) (word_of_int 300) (of_nat j) (ps ! j))"
  by (rule traceroute_probes_valid)

text \<open>Answers on a path: a router reports the expired probe, the destination answers the last one. Both return the
  identifier of the probe.\<close>

definition expired :: "u16 \<Rightarrow> byte list \<Rightarrow> bool" where
  "expired ident data = (repl_type data = 11 \<and> inner_ident data = ident)"

definition arrived :: "u16 \<Rightarrow> byte list \<Rightarrow> bool" where
  "arrived ident data = (repl_type data = 0 \<and> repl_ident data = ident)"

text \<open>The identifier has 16 bits: a larger process id is not recognised in the answer.\<close>

definition fits :: "int \<Rightarrow> bool" where
  "fits pid = (0 \<le> pid \<and> pid < 65536)"

lemma ident_fits: "(uint (word_of_int pid :: u16) = pid) = fits pid"
proof -
  have "uint (word_of_int pid :: u16) = pid mod 65536" by (simp add: uint_word_of_int)
  then show ?thesis using pos_mod_bound[of 65536 pid] pos_mod_sign[of 65536 pid] by (auto simp: fits_def)
qed

fun hop_lines :: "(byte list \<Rightarrow> string) \<Rightarrow> nat \<Rightarrow> byte list list \<Rightarrow> event list" where
  "hop_lines host k [] = []"
| "hop_lines host k (s # ss) =
     Printf (ln ''%d. %s (hs: %s)'') [Num (int k), Str (inet_ntoa s), Str (host s)] # hop_lines host (Suc k) ss"

lemma trace_path:
  assumes "arrived (word_of_int pid) fin"
  shows "at_turn pid k t \<Longrightarrow> \<forall>(s, d) \<in> set hops. expired (word_of_int pid) d \<Longrightarrow>
    \<exists>t'. trace_loop host pid (map (\<lambda>(s, d). Answer s d) hops @ [Answer dest fin]) t = Some (Some 0, t') \<and>
      out t' = out t @ (if fits pid then hop_lines host (Suc k) (map fst hops @ [dest]) else []) @ [Call ''close'' []]"
proof (induction hops arbitrary: k t)
  case Nil
  note snd = echo_packet_send[of SOURCE_IP DEST_IP "of_nat (Suc k)" "word_of_int pid" "of_nat k" "reqs_pckt t"]
  have "ttl t = int (Suc k)" using Nil by (simp add: at_turn_def)
  then show ?case using Nil snd assms
    by (simp add: trace_turn_def trace_answer_eq arrived_def at_turn_def hop_line_def ident_fits)
next
  case (Cons h hops)
  obtain s d where h: "h = (s, d)" by fastforce
  have ex: "expired (word_of_int pid) d" using Cons.prems(2) h by simp
  let ?l = "if fits pid then [hop_line host s t] else []"
  let ?t = "t\<lparr>probes := probes t @ [take 28 (reqs_pckt t)]\<rparr>"
  have a: "trace_answer host pid s d ?t = Some (None, ?t\<lparr>out := out t @ ?l\<rparr>)"
    using ex by (simp add: trace_answer_eq expired_def hop_line_def ident_fits)
  have p: "echo_packet SOURCE_IP DEST_IP (of_nat (Suc k)) (word_of_int pid) (of_nat k) (reqs_pckt t)" "probes_ok pid k (probes t)"
    and ttl: "ttl t = int (Suc k)" "seq t = int k" using Cons.prems(1) by (simp_all add: at_turn_def)
  obtain t1 where t1: "raise_ttl (?t\<lparr>out := out t @ ?l\<rparr>) = Some t1" "at_turn pid (Suc k) t1"
    "out t1 = out t @ ?l"
    using raise_ttl_ok[of "?t\<lparr>out := out t @ ?l\<rparr>" k "of_nat (Suc k)" pid "of_nat k"] p(1) ttl probes_ok_snoc[OF p(2,1)] by auto
  have "trace_turn host pid (Answer s d) t = Some (None, t1)"
    using a t1(1) echo_packet_send[OF p(1)] by (simp add: trace_turn_def)
  moreover have "hop_lines host (Suc k) (s # map fst hops @ [dest]) = hop_line host s t # hop_lines host (Suc (Suc k)) (map fst hops @ [dest])"
    by (simp add: hop_line_def ttl(1))
  ultimately show ?case using Cons.IH[OF t1(2)] Cons.prems(2) t1(3) h by auto
qed

text \<open>C35: On a path whose routers all report the expired probes and whose destination answers, each with
  the identifier of the probes, the low 16 bits of the process id, the program ends with success. If
  the process id is below 65536 it prints the routers and then the destination, in order and numbered from 1
  on; a larger one it does not recognise in any answer, and it prints no line at all.\<close>
theorem traceroute_prints_path:
  assumes "arrived (word_of_int pid) fin" "\<forall>(s, d) \<in> set hops. expired (word_of_int pid) d"
  shows "\<exists>t0 t. trace_start random pid = Some t0 \<and>
    trace_loop host pid (map (\<lambda>(s, d). Answer s d) hops @ [Answer dest fin]) t0 = Some (Some 0, t) \<and>
    out t = (if 0 \<le> pid \<and> pid < 65536 then hop_lines host 1 (map fst hops @ [dest]) else []) @ [Call ''close'' []]"
proof -
  obtain t0 where t0: "trace_start random pid = Some t0" "at_turn pid 0 t0" using trace_start_ok[of random pid] by (metis yieldsE)
  then have "out t0 = []" by (auto simp: trace_start_def split: bind_splits)
  then show ?thesis using trace_path[OF assms(1) t0(2) assms(2), of host dest] t0(1) by (auto simp: fits_def)
qed

definition exceeded_example :: "byte list" where
  "exceeded_example = 0x45 # replicate 19 0 @ [11] @ replicate 31 0 @ [1, 44]"

definition reply_example :: "byte list" where
  "reply_example = 0x45 # replicate 19 0 @ [0, 0, 0, 0, 1, 44]"

lemma trace_examples: "expired 300 exceeded_example" "arrived 300 reply_example"
proof -
  have b: "repl_buf exceeded_example = 0x45 # replicate 19 0 @ [11] @ replicate 31 0 @ [1, 44] @ replicate 970 0"
    "repl_buf reply_example = 0x45 # replicate 19 0 @ [0, 0, 0, 0, 1, 44] @ replicate 998 0"
    by (simp_all add: repl_buf_def exceeded_example_def reply_example_def)
  have off: "repl_off exceeded_example = 20" "repl_off reply_example = 20" by (simp_all add: repl_off_def b)
  show "expired 300 exceeded_example" "arrived 300 reply_example"
    unfolding expired_def arrived_def repl_type_def inner_ident_def repl_ident_def off b
    by (simp_all add: nth_append nth_Cons' le16_def)
qed

theorem traceroute_prints_path_witness:
  "\<exists>t0 t. trace_start 7 300 = Some t0 \<and>
    trace_loop (\<lambda>_. []) 300 [Answer [10, 0, 0, 1] exceeded_example, Answer [10, 0, 0, 2] reply_example] t0 = Some (Some 0, t) \<and>
    out t = hop_lines (\<lambda>_. []) 1 [[10, 0, 0, 1], [10, 0, 0, 2]] @ [Call ''close'' []]"
proof -
  have "arrived (word_of_int 300) reply_example" using trace_examples(2) by simp
  from traceroute_prints_path[OF this, of "[([10, 0, 0, 1], exceeded_example)]" 7 "\<lambda>_. []" "[10, 0, 0, 2]"]
  show ?thesis using trace_examples(1) by simp
qed

end
