(* ===== verification/Socket_Servers.thy ===== *)
theory Socket_Servers
  imports C_Output
begin

text \<open>
  The echo servers: \<^verbatim>\<open>src/tcp_udp_select_server\<close>, \<^verbatim>\<open>src/tcp_udp_poll_server\<close> and \<^verbatim>\<open>src/tcp_udp_epoll_server\<close>, which wait for
  TCP connections and UDP datagrams together, the plain \<^verbatim>\<open>src/tcp_socket_echo_server\<close> and
  \<^verbatim>\<open>src/udp_socket_echo_server\<close>, the thread that serves a TCP connection, and the TCP client.

  The three multiplexed servers differ in how they find out what is ready; the locale \<open>multiplexer\<close> is the
  contract of that part, and what the servers do is proved from it once. Results of system calls are
  parameters. \<open>None\<close> is an access outside a buffer or through \<^verbatim>\<open>NULL\<close>; a message buffer has 256 bytes and is
  printed as a string.
\<close>

section \<open>Common parts\<close>

record peer =
  ip :: "byte list"
  port :: u16

abbreviation text_arg :: "byte list \<Rightarrow> arg" where
  "text_arg bs \<equiv> Str (map (\<lambda>b. char_of (unat b)) bs)"

text \<open>What \<^verbatim>\<open>recv\<close> or \<^verbatim>\<open>recvfrom\<close> leaves in the cleared buffer.\<close>

definition msg_buf :: "byte list \<Rightarrow> byte list" where
  "msg_buf data = take 256 (data @ replicate 256 0)"

text \<open>The checks before a server's loop, in order: a failed call prints its message, closes descriptors
  and exits. The result is the events and whether the loop is reached.\<close>

datatype init_step = Check int "event list" | Show event

fun run_steps :: "init_step list \<Rightarrow> event list \<times> bool" where
  "run_steps [] = ([], True)"
| "run_steps (Check rtn failed # ss) = (if rtn = - 1 then (failed, False) else run_steps ss)"
| "run_steps (Show e # ss) = (let (es, ok) = run_steps ss in (e # es, ok))"

abbreviation close :: "int \<Rightarrow> event" where
  "close fd \<equiv> Call ''close'' [Num fd]"

section \<open>A TCP connection\<close>

text \<open>The thread of a connection, whose messages start with \<open>pre\<close>, on the successive results of \<^verbatim>\<open>recv\<close> (\<open>None\<close> for \<open>-1\<close>); \<open>send_ok k\<close> is the result of the
  \<open>k\<close>-th \<^verbatim>\<open>send\<close>. The result is what was sent, what was printed, and whether the thread has ended.\<close>

fun conn_hndl :: "string \<Rightarrow> (nat \<Rightarrow> bool) \<Rightarrow> int \<Rightarrow> byte list option list \<Rightarrow> nat \<Rightarrow> (byte list list \<times> event list \<times> bool) option" where
  "conn_hndl pre send_ok sd_cln [] k = Some ([], [], False)"
| "conn_hndl pre send_ok sd_cln (None # rs) k =
     Some ([], [Perror (pre @ ''Server: recv(client)''), close sd_cln, Call ''free'' []], True)"
| "conn_hndl pre send_ok sd_cln (Some data # rs) k = (let bts = min 256 (length data); msg = msg_buf data in
     if 0 \<notin> set msg then None
     else
       let e1 = Printf (ln (pre @ ''Server: recived message from client: '' @ sq ''%s'' @ '' (%d bytes)'')) [text_arg (cstr msg), Num (int bts)] in
       if cstr msg = bytes_of ''exit'' then
         Some ([], [e1, say (ln (pre @ ''Server: client message handler thread bye'')), close sd_cln, Call ''free'' []], True)
       else if \<not> send_ok k then Some ([], [e1, Perror (pre @ ''Server: send(client)''), close sd_cln, Call ''free'' []], True)
       else do {
         (ws, es, stop) \<leftarrow> conn_hndl pre send_ok sd_cln rs (Suc k);
         Some (take bts msg # ws,
           [e1, Printf (ln (ln (pre @ ''Server: send message to client: '' @ sq ''%s'' @ '' (%d bytes)''))) [text_arg (cstr msg), Num (int bts)]] @ es,
           stop) })"

definition cln_tcp_hndl :: "(nat \<Rightarrow> bool) \<Rightarrow> int \<Rightarrow> byte list option list \<Rightarrow> (byte list list \<times> event list \<times> bool) option" where
  "cln_tcp_hndl send_ok sd_cln rs = conn_hndl ''[TCP] '' send_ok sd_cln rs 0"

definition cln_hndl :: "(nat \<Rightarrow> bool) \<Rightarrow> int \<Rightarrow> byte list option list \<Rightarrow> (byte list list \<times> event list \<times> bool) option" where
  "cln_hndl send_ok sd_cln rs = conn_hndl [] send_ok sd_cln rs 0"

section \<open>The multiplexed servers\<close>

text \<open>
  The state: the listening descriptors, the connections and datagrams that wait in the kernel, the
  connections handed to a thread and the datagrams echoed.
\<close>

record mux =
  sd_tcp_srv :: int
  sd_udp_srv :: int
  conns :: "(int \<times> peer) list"
  dgrams :: "(peer \<times> byte list) list"
  threads :: "(int \<times> peer) list"
  echoed :: "(peer \<times> byte list) list"
  out :: "event list"

datatype branch = Tcp | Udp | Idle

definition incoming :: "string \<Rightarrow> (peer \<Rightarrow> string) \<Rightarrow> peer \<Rightarrow> event" where
  "incoming proto host a = Printf (ln (ln (proto @ '' Server: incoming connection from %s:%d (hs: %s)'')))
     [Str (inet_ntoa (ip a)), num16 (ntohs (port a)), Str (host a)]"

definition close_both :: "mux \<Rightarrow> event list" where
  "close_both s = [close (sd_tcp_srv s), close (sd_udp_srv s)]"

text \<open>The TCP branch. \<^verbatim>\<open>accept\<close> may fail, but it is the listening descriptor that is compared with \<open>-1\<close>;
  \<^verbatim>\<open>malloc\<close>'s result is used unchecked.\<close>

definition tcp_branch :: "(peer \<Rightarrow> string) \<Rightarrow> bool \<Rightarrow> bool \<Rightarrow> mux \<Rightarrow> (int option \<times> mux) option" where
  "tcp_branch host accept_ok malloc_ok s =
     (let (c, a, rest) = (case conns s of (c, a) # rest \<Rightarrow> if accept_ok then (c, a, rest) else (- 1, \<lparr>ip = [0, 0, 0, 0], port = 0\<rparr>, conns s)
                            | [] \<Rightarrow> (- 1, \<lparr>ip = [0, 0, 0, 0], port = 0\<rparr>, [])) in
      if sd_tcp_srv s = - 1 then Some (Some 1, s\<lparr>out := out s @ Perror ''[TCP] Server: accept(client)'' # close_both s\<rparr>)
      else
        let s = s\<lparr>conns := rest, out := out s @ [incoming ''[TCP]'' host a]\<rparr> in
        if \<not> malloc_ok then None
        else Some (None, s\<lparr>threads := threads s @ [(c, a)]\<rparr>))"

text \<open>The UDP branch.\<close>

definition udp_branch :: "(peer \<Rightarrow> string) \<Rightarrow> bool \<Rightarrow> bool \<Rightarrow> mux \<Rightarrow> (int option \<times> mux) option" where
  "udp_branch host recv_ok send_ok s = (case dgrams s of
     [] \<Rightarrow> Some (None, s)
   | (a, data) # rest \<Rightarrow>
       if \<not> recv_ok then Some (Some 1, s\<lparr>out := out s @ Perror ''[UDP] Server: recvfrom(client)'' # close_both s\<rparr>)
       else
         let bts = min 256 (length data); msg = msg_buf data in
         if 0 \<notin> set msg then None
         else
           let s = s\<lparr>dgrams := rest, out := out s @ [incoming ''[UDP]'' host a,
                 Printf (ln (''[UDP] Server: udp recived message from client: '' @ sq ''%s'' @ '' (%d bytes)''))
                   [text_arg (cstr msg), Num (int bts)]]\<rparr> in
           if cstr msg = bytes_of ''exit'' then
             Some (Some 1, s\<lparr>out := out s @ say (ln ''Server: main thread bye'') # close_both s\<rparr>)
           else if \<not> send_ok then Some (Some 1, s\<lparr>out := out s @ Perror ''[UDP] Server: sendto(client)'' # close_both s\<rparr>)
           else Some (None, s\<lparr>echoed := echoed s @ [(a, take bts msg)],
                 out := out s @ [Printf (ln (ln (''[UDP] Server: send message to client: '' @ sq ''%s'' @ '' (%d bytes)'')))
                   [text_arg (cstr msg), Num (int bts)]]\<rparr>))"

text \<open>The results of the calls of one turn.\<close>

record turn_calls =
  did_wait :: bool
  did_accept :: bool
  did_malloc :: bool
  did_recv :: bool
  did_send :: bool

text \<open>One turn of the loop of a server that waits with the call \<open>wait\<close> and picks a branch with \<open>sel\<close>.\<close>

definition mux_turn :: "string \<Rightarrow> (mux \<Rightarrow> branch) \<Rightarrow> (peer \<Rightarrow> string) \<Rightarrow> turn_calls \<Rightarrow> mux \<Rightarrow> (int option \<times> mux) option" where
  "mux_turn wait sel host r s =
     (if \<not> did_wait r then Some (Some 1, s\<lparr>out := out s @ Perror (''Server: '' @ wait @ ''()'') # close_both s\<rparr>)
      else case sel s of
        Tcp \<Rightarrow> tcp_branch host (did_accept r) (did_malloc r) s
      | Udp \<Rightarrow> udp_branch host (did_recv r) (did_send r) s
      | Idle \<Rightarrow> Some (None, s))"

fun mux_run :: "string \<Rightarrow> (mux \<Rightarrow> branch) \<Rightarrow> (peer \<Rightarrow> string) \<Rightarrow> turn_calls list \<Rightarrow> mux \<Rightarrow> (int option \<times> mux) option" where
  "mux_run wait sel host [] s = Some (None, s)"
| "mux_run wait sel host (r # rs) s = do {
     (e, s) \<leftarrow> mux_turn wait sel host r s;
     case e of None \<Rightarrow> mux_run wait sel host rs s | Some c \<Rightarrow> Some (Some c, s) }"

definition all_ok :: turn_calls where
  "all_ok = \<lparr>did_wait = True, did_accept = True, did_malloc = True, did_recv = True, did_send = True\<rparr>"

subsection \<open>select, poll and epoll\<close>

text \<open>\<^verbatim>\<open>select\<close> leaves in the set the descriptors with something to read.\<close>

definition select_ready :: "mux \<Rightarrow> int list" where
  "select_ready s = (if conns s \<noteq> [] then [sd_tcp_srv s] else []) @ (if dgrams s \<noteq> [] then [sd_udp_srv s] else [])"

definition select_choose :: "mux \<Rightarrow> branch" where
  "select_choose s = (let read_sds = select_ready s in
     if sd_tcp_srv s \<in> set read_sds then Tcp
     else if sd_udp_srv s \<in> set read_sds then Udp
     else Idle)"

text \<open>\<^verbatim>\<open>poll\<close> sets \<^verbatim>\<open>revents\<close>, here to \<^verbatim>\<open>POLLIN\<close> or 0. Its timeout is \<^verbatim>\<open>NULL\<close>, that is 0: it does not wait.\<close>

definition poll_revents :: "mux \<Rightarrow> int \<times> int" where
  "poll_revents s = (if conns s \<noteq> [] then 1 else 0, if dgrams s \<noteq> [] then 1 else 0)"

definition poll_choose :: "mux \<Rightarrow> branch" where
  "poll_choose s = (let revents = poll_revents s in
     if fst revents = 1 then Tcp else if snd revents = 1 then Udp else Idle)"

text \<open>\<^verbatim>\<open>epoll_wait\<close> with room for one event reports one ready descriptor, \<open>pick\<close> saying which of two; it waits
  when there is none.\<close>

definition epoll_event :: "(mux \<Rightarrow> bool) \<Rightarrow> mux \<Rightarrow> int option" where
  "epoll_event pick s =
     (if conns s \<noteq> [] \<and> (dgrams s = [] \<or> pick s) then Some (sd_tcp_srv s)
      else if dgrams s \<noteq> [] then Some (sd_udp_srv s)
      else None)"

definition epoll_choose :: "(mux \<Rightarrow> bool) \<Rightarrow> mux \<Rightarrow> branch" where
  "epoll_choose pick s = (case epoll_event pick s of
     None \<Rightarrow> Idle
   | Some fd \<Rightarrow> if fd = sd_tcp_srv s then Tcp else if fd = sd_udp_srv s then Udp else Idle)"

subsection \<open>Start\<close>

record calls =
  ep :: int
  tcp :: int
  udp :: int
  opt_tcp :: int
  opt_udp :: int
  bind_tcp :: int
  bind_udp :: int
  listen :: int
  ctl_tcp :: int
  ctl_udp :: int

definition select_init :: "calls \<Rightarrow> event list \<times> bool" where
  "select_init r = (let both = [close (tcp r), close (udp r)] in run_steps [
     Check (tcp r) [Perror ''[TCP] Server: socket(server)'', close (tcp r)],
     Check (udp r) (Perror ''[UDP] Server: socket(server)'' # both),
     Show (say (ln ''TCP&UDP server start'')),
     Check (opt_tcp r) (Perror ''[TCP] Server: setsockopt(SO_REUSEADDR)'' # both),
     Check (opt_udp r) (Perror ''[UDP] Server: setsockopt(SO_REUSEADDR)'' # both),
     Check (bind_tcp r) (Perror ''[TCP] Server: bind(server)'' # both),
     Check (bind_udp r) (Perror ''[UDP] Server: bind(server)'' # both),
     Check (listen r) (Perror ''[TCP] Server: listen(server)'' # both)])"

definition poll_init :: "calls \<Rightarrow> event list \<times> bool" where
  "poll_init r = (let both = [close (tcp r), close (udp r)] in run_steps [
     Check (tcp r) [Perror ''[TCP] Server: socket(server)'', close (tcp r)],
     Check (udp r) (Perror ''[UDP] Server: socket(server)'' # both),
     Show (say (ln ''TCP&UDP server start'')),
     Check (opt_tcp r) (Perror ''[TCP] Server: setsockopt(SO_REUSEADDR)'' # both),
     Check (opt_udp r) (Perror ''[UDP] Server: setsockopt(SO_REUSEADDR)'' # both),
     Check (bind_tcp r) (Perror ''[TCP] Server: bind(server)'' # both),
     Check (bind_udp r) (Perror ''[UDP] Server: bind(server)'' # both),
     Check (listen r) (Perror ''[TCP] Server: listen(server)'' # both)])"

definition epoll_init :: "calls \<Rightarrow> event list \<times> bool" where
  "epoll_init r = (let both = [close (tcp r), close (udp r)] in run_steps [
     Check (ep r) [Perror ''Server: epoll_create()''],
     Check (tcp r) [Perror ''[TCP] Server: socket(server)'', close (tcp r)],
     Check (udp r) (Perror ''[UDP] Server: socket(server)'' # both),
     Show (say (ln ''TCP&UDP server start'')),
     Check (opt_tcp r) (Perror ''[TCP] Server: setsockopt(SO_REUSEADDR)'' # both),
     Check (opt_udp r) (Perror ''[UDP] Server: setsockopt(SO_REUSEADDR)'' # both),
     Check (bind_tcp r) (Perror ''[TCP] Server: bind(server)'' # both),
     Check (bind_udp r) (Perror ''[UDP] Server: bind(server)'' # both),
     Check (listen r) (Perror ''[TCP] Server: listen(server)'' # both),
     Check (ctl_tcp r) (Perror ''Server: epoll_ctl(sd_tcp_srv)'' # both),
     Check (ctl_udp r) (Perror ''Server: epoll_ctl(sd_udp_srv)'' # both)])"

text \<open>The three programs: the start, then the loop on the results of the calls of each turn, with nothing
  printed, served or echoed at first. The queues of waiting connections and datagrams are the kernel's.\<close>

definition mux_start :: "calls \<Rightarrow> (int \<times> peer) list \<Rightarrow> (peer \<times> byte list) list \<Rightarrow> event list \<Rightarrow> mux" where
  "mux_start r cs ds es = \<lparr>sd_tcp_srv = tcp r, sd_udp_srv = udp r, conns = cs, dgrams = ds, threads = [], echoed = [], out = es\<rparr>"

definition mux_main :: "string \<Rightarrow> (mux \<Rightarrow> branch) \<Rightarrow> event list \<times> bool \<Rightarrow> (peer \<Rightarrow> string) \<Rightarrow> turn_calls list \<Rightarrow>
    calls \<Rightarrow> (int \<times> peer) list \<Rightarrow> (peer \<times> byte list) list \<Rightarrow> (int option \<times> mux) option" where
  "mux_main wait sel started host rs r cs ds = (case started of (es, reached) \<Rightarrow>
     if \<not> reached then Some (Some 1, mux_start r cs ds es) else mux_run wait sel host rs (mux_start r cs ds es))"

definition select_main :: "(peer \<Rightarrow> string) \<Rightarrow> turn_calls list \<Rightarrow> calls \<Rightarrow> (int \<times> peer) list \<Rightarrow> (peer \<times> byte list) list \<Rightarrow> (int option \<times> mux) option" where
  "select_main host rs r cs ds = mux_main ''select'' select_choose (select_init r) host rs r cs ds"

definition poll_main :: "(peer \<Rightarrow> string) \<Rightarrow> turn_calls list \<Rightarrow> calls \<Rightarrow> (int \<times> peer) list \<Rightarrow> (peer \<times> byte list) list \<Rightarrow> (int option \<times> mux) option" where
  "poll_main host rs r cs ds = mux_main ''poll'' poll_choose (poll_init r) host rs r cs ds"

definition epoll_main :: "(mux \<Rightarrow> bool) \<Rightarrow> (peer \<Rightarrow> string) \<Rightarrow> turn_calls list \<Rightarrow> calls \<Rightarrow> (int \<times> peer) list \<Rightarrow> (peer \<times> byte list) list \<Rightarrow> (int option \<times> mux) option" where
  "epoll_main pick host rs r cs ds = mux_main ''epoll_wait'' (epoll_choose pick) (epoll_init r) host rs r cs ds"

section \<open>The plain servers and the clients\<close>

definition tcp_echo_init :: "int \<Rightarrow> int \<Rightarrow> int \<Rightarrow> event list \<times> bool" where
  "tcp_echo_init sd_srv bnd lsn = run_steps [
     Check sd_srv [Perror ''Server: socket(server)'', close sd_srv],
     Show (say (ln ''Server start'')),
     Check bnd [Perror ''Server: bind(server)'', close sd_srv],
     Check lsn [Perror ''Server: listen(server)'', close sd_srv]]"

text \<open>The loop of \<^verbatim>\<open>tcp_socket_echo_server\<close>, on the results of \<^verbatim>\<open>accept\<close>; here the right descriptor is checked. The
  result is the threads started, the events and whether the server has ended.\<close>

fun tcp_echo_loop :: "(peer \<Rightarrow> string) \<Rightarrow> int \<Rightarrow> (int \<times> peer) list \<Rightarrow> (int \<times> peer) list \<times> event list \<times> bool" where
  "tcp_echo_loop host sd_srv [] = ([], [], False)"
| "tcp_echo_loop host sd_srv ((sd_cln, a) # rs) =
     (if sd_cln = - 1 then ([], [Perror ''Server: accept(client)'', close sd_srv, close sd_cln], True)
      else
        let (ts, es, stop) = tcp_echo_loop host sd_srv rs in
        ((sd_cln, a) # ts,
         Printf (ln (ln ''Server: incoming connection from %s:%d (hs: %s)'')) [Str (inet_ntoa (ip a)), num16 (ntohs (port a)), Str (host a)] # es,
         stop))"

definition udp_echo_init :: "int \<Rightarrow> int \<Rightarrow> event list \<times> bool" where
  "udp_echo_init sd_srv bnd = run_steps [
     Check sd_srv [Perror ''Server: socket(server)'', close sd_srv],
     Show (say (ln ''Server start'')),
     Check bnd [Perror ''Server: bind(server)'', close sd_srv]]"

text \<open>The loop of \<^verbatim>\<open>udp_socket_echo_server\<close>, on the results of \<^verbatim>\<open>recvfrom\<close>; \<open>send_ok k\<close> is the result of the \<open>k\<close>-th
  \<^verbatim>\<open>sendto\<close>. The result is the datagrams sent, the events, and the exit code when the server has ended.\<close>

fun udp_echo_loop :: "(peer \<Rightarrow> string) \<Rightarrow> (nat \<Rightarrow> bool) \<Rightarrow> int \<Rightarrow> (peer \<times> byte list) option list \<Rightarrow> nat \<Rightarrow>
    ((peer \<times> byte list) list \<times> event list \<times> int option) option" where
  "udp_echo_loop host send_ok sd_srv [] k = Some ([], [], None)"
| "udp_echo_loop host send_ok sd_srv (None # rs) k =
     Some ([], [Perror ''Server: recvfrom(client)'', close sd_srv], Some 1)"
| "udp_echo_loop host send_ok sd_srv (Some (a, data) # rs) k = (let bts = min 256 (length data); msg = msg_buf data in
     if 0 \<notin> set msg then None
     else
       let e = [Printf (ln ''Server: incoming connection from %s:%d (hs: %s)'') [Str (inet_ntoa (ip a)), num16 (ntohs (port a)), Str (host a)],
                Printf (ln (''Server: recived message from client: '' @ sq ''%s'' @ '' (%d bytes)'')) [text_arg (cstr msg), Num (int bts)]] in
       if cstr msg = bytes_of ''exit'' then Some ([], e @ [say (ln ''Server: main thread bye''), close sd_srv], Some 1)
       else if \<not> send_ok k then Some ([], e @ [Perror ''Server: sendto(client)'', close sd_srv], Some 1)
       else do {
         (ws, es, stop) \<leftarrow> udp_echo_loop host send_ok sd_srv rs (Suc k);
         Some ((a, take bts msg) # ws,
           e @ [Printf (ln (ln (''Server: send message to client: '' @ sq ''%s'' @ '' (%d bytes)''))) [text_arg (cstr msg), Num (int bts)]] @ es,
           stop) })"

text \<open>
  What \<^verbatim>\<open>recv\<close> gives a client: it fails, it returns data, or nothing ever arrives and it waits; and how a
  turn of the client's loop ends. Over TCP an empty line sends no byte, so the server has nothing to answer
  and the client waits.
\<close>

datatype client_recv = Failed | Got "byte list" | Nothing

datatype turn_end = Goes_on | Exits int | Waits

text \<open>
  One turn of a client's loop, with \<open>snd_call\<close> and \<open>rcv_call\<close> the names of the calls it uses: \<open>line\<close> is what \<^verbatim>\<open>fgets\<close> stored (\<open>None\<close>: end of input), \<open>reply\<close> what the server sent back. The
  last character is cut off, whatever it is. The result is what was sent, the events, and the exit code.
\<close>

definition client_turn :: "string \<Rightarrow> string \<Rightarrow> bool \<Rightarrow> int \<Rightarrow> byte list option \<Rightarrow> client_recv \<Rightarrow> (byte list option \<times> event list \<times> turn_end) option" where
  "client_turn snd_call rcv_call send_ok sd_cln line reply = (let e0 = say ''Input you message: '' in case line of
     None \<Rightarrow> Some (None, [e0, Perror ''Client: fgets(msg)'', close sd_cln], Exits 1)
   | Some l \<Rightarrow>
       if cstr l = [] then None
       else
         let msg = butlast (cstr l) in
         if \<not> send_ok then Some (None, [e0, Perror (''Client: '' @ snd_call @ ''(server)''), close sd_cln], Exits 1)
         else
           let e1 = Printf (ln (''Client: send message to server: '' @ sq ''%s'' @ '' (%d bytes)'')) [text_arg msg, Num (int (length msg))] in
           if msg = bytes_of ''exit'' then Some (Some msg, [e0, e1, say (ln ''Client: main thread bye'')], Exits 0)
           else (case reply of
             Failed \<Rightarrow> Some (Some msg, [e0, e1, Perror (''Client: '' @ rcv_call @ ''(server)''), close sd_cln], Exits 1)
           | Nothing \<Rightarrow> Some (Some msg, [e0, e1], Waits)
           | Got r \<Rightarrow>
               let buf = msg_buf r in
               if 0 \<notin> set buf then None
               else Some (Some msg, [e0, e1, Printf (ln (ln (''Client: receive message from server: '' @ sq ''%s'' @ '' (%d bytes)'')))
                      [text_arg (cstr buf), Num (int (min 256 (length r)))]], Goes_on)))"

fun client_loop :: "string \<Rightarrow> string \<Rightarrow> int \<Rightarrow> (bool \<times> byte list option \<times> client_recv) list \<Rightarrow>
    (byte list list \<times> event list \<times> turn_end) option" where
  "client_loop snd_call rcv_call sd_cln [] = Some ([], [], Goes_on)"
| "client_loop snd_call rcv_call sd_cln ((ok, line, reply) # ts) = do {
     (sent, es, stop) \<leftarrow> client_turn snd_call rcv_call ok sd_cln line reply;
     let sent = (case sent of None \<Rightarrow> [] | Some m \<Rightarrow> [m]);
     if stop \<noteq> Goes_on then Some (sent, es, stop)
     else do {
       (sent', es', stop') \<leftarrow> client_loop snd_call rcv_call sd_cln ts;
       Some (sent @ sent', es @ es', stop') } }"

definition tcp_client_init :: "(peer \<Rightarrow> string) \<Rightarrow> peer \<Rightarrow> int \<Rightarrow> int \<Rightarrow> event list \<times> bool" where
  "tcp_client_init host srv sd_cln rtn = run_steps [
     Check sd_cln [Perror ''Client: socket(client)'', close sd_cln],
     Check rtn [Perror ''Client: connect(server)'', close sd_cln],
     Show (Printf (ln ''Client: connected to the tcp echo server %s:%d (hs: %s)'') [Str (inet_ntoa (ip srv)), num16 (ntohs (port srv)), Str (host srv)])]"

definition tcp_client_main :: "(peer \<Rightarrow> string) \<Rightarrow> peer \<Rightarrow> int \<Rightarrow> int \<Rightarrow> (bool \<times> byte list option \<times> client_recv) list \<Rightarrow>
    (byte list list \<times> event list \<times> turn_end) option" where
  "tcp_client_main host srv sd_cln rtn ts = (case tcp_client_init host srv sd_cln rtn of (es, reached) \<Rightarrow>
     if \<not> reached then Some ([], es, Exits 1)
     else do { (sent, es', stop) \<leftarrow> client_loop ''send'' ''recv'' sd_cln ts; Some (sent, es @ es', stop) })"

definition udp_client_init :: "(peer \<Rightarrow> string) \<Rightarrow> peer \<Rightarrow> int \<Rightarrow> event list \<times> bool" where
  "udp_client_init host srv sd_cln = run_steps [
     Check sd_cln [Perror ''Client: socket(client)'', close sd_cln],
     Show (Printf (ln ''Client: udp echo server %s:%d (hs: %s)'') [Str (inet_ntoa (ip srv)), num16 (ntohs (port srv)), Str (host srv)])]"

definition udp_client_main :: "(peer \<Rightarrow> string) \<Rightarrow> peer \<Rightarrow> int \<Rightarrow> (bool \<times> byte list option \<times> client_recv) list \<Rightarrow>
    (byte list list \<times> event list \<times> turn_end) option" where
  "udp_client_main host srv sd_cln ts = (case udp_client_init host srv sd_cln of (es, reached) \<Rightarrow>
     if \<not> reached then Some ([], es, Exits 1)
     else do { (sent, es', stop) \<leftarrow> client_loop ''sendto'' ''recvfrom'' sd_cln ts; Some (sent, es @ es', stop) })"

section \<open>Echoing\<close>

text \<open>A message that is echoed: it ends inside the buffer and is not the word that ends the server.\<close>

definition echoable :: "byte list \<Rightarrow> bool" where
  "echoable d = (0 \<in> set (msg_buf d) \<and> cstr (msg_buf d) \<noteq> bytes_of ''exit'')"

lemma msg_buf_take: "take (min 256 (length d)) (msg_buf d) = take 256 d"
  by (simp add: msg_buf_def min_def)

lemma short_echoable: "length d < 256 \<Longrightarrow> 0 \<notin> set d \<Longrightarrow> d \<noteq> bytes_of ''exit'' \<Longrightarrow> echoable d"
  using cstr_pad[of d 256 256] by (auto simp: echoable_def msg_buf_def)

lemma udp_branch_echo:
  assumes "dgrams s = (a, d) # rest" "echoable d"
  shows "\<exists>es. udp_branch host True True s = Some (None, s\<lparr>dgrams := rest, echoed := echoed s @ [(a, take 256 d)], out := es\<rparr>)"
  using assms by (auto simp: udp_branch_def echoable_def Let_def msg_buf_take)

lemma tcp_branch_thread:
  assumes "conns s = (c, a) # rest" "sd_tcp_srv s \<noteq> - 1"
  shows "tcp_branch host True True s = Some (None, s\<lparr>conns := rest, threads := threads s @ [(c, a)], out := out s @ [incoming ''[TCP]'' host a]\<rparr>)"
  using assms by (simp add: tcp_branch_def Let_def)

section \<open>The contract of a multiplexer\<close>

text \<open>
  What a server relies on: a branch is taken only when it has something to read, so that \<^verbatim>\<open>accept\<close> and
  \<^verbatim>\<open>recvfrom\<close> do not wait, and some branch is taken when there is something to read. The condition \<open>inv\<close> is on
  the two descriptors only.
\<close>

locale multiplexer =
  fixes sel :: "mux \<Rightarrow> branch" and inv :: "mux \<Rightarrow> bool"
  assumes sel_tcp: "inv s \<Longrightarrow> sel s = Tcp \<Longrightarrow> conns s \<noteq> []"
    and sel_udp: "inv s \<Longrightarrow> sel s = Udp \<Longrightarrow> dgrams s \<noteq> []"
    and sel_idle: "inv s \<Longrightarrow> sel s = Idle \<longleftrightarrow> conns s = [] \<and> dgrams s = []"
    and listening: "inv s \<Longrightarrow> sd_tcp_srv s \<noteq> - 1"
    and inv_fds: "inv s \<Longrightarrow> sd_tcp_srv s' = sd_tcp_srv s \<Longrightarrow> sd_udp_srv s' = sd_udp_srv s \<Longrightarrow> inv s'"
begin

text \<open>What has been served and what waits, together, is the same before and after a turn.\<close>

definition tcp_work :: "mux \<Rightarrow> (int \<times> peer) list" where
  "tcp_work s = threads s @ conns s"

definition udp_work :: "mux \<Rightarrow> (peer \<times> byte list) list" where
  "udp_work s = echoed s @ map (\<lambda>(a, d). (a, take 256 d)) (dgrams s)"

lemma turn:
  assumes "inv s" "\<forall>(a, d) \<in> set (dgrams s). echoable d" "conns s \<noteq> [] \<or> dgrams s \<noteq> []"
  shows "\<exists>s'. mux_turn wait sel host all_ok s = Some (None, s') \<and> inv s' \<and> tcp_work s' = tcp_work s \<and> udp_work s' = udp_work s \<and>
    (\<forall>(a, d) \<in> set (dgrams s'). echoable d) \<and> Suc (length (conns s') + length (dgrams s')) = length (conns s) + length (dgrams s)"
proof (cases "sel s")
  case Tcp
  obtain c a rest where c: "conns s = (c, a) # rest" using sel_tcp[OF assms(1) Tcp] by (cases "conns s") auto
  show ?thesis using Tcp tcp_branch_thread[OF c listening[OF assms(1)], of host] c assms(2)
    by (auto simp: mux_turn_def all_ok_def tcp_work_def udp_work_def intro: inv_fds[OF assms(1)])
next
  case Udp
  obtain a d rest where d: "dgrams s = (a, d) # rest" using sel_udp[OF assms(1) Udp] by (cases "dgrams s") auto
  have "echoable d" using assms(2) d by simp
  then obtain es where u: "udp_branch host True True s =
      Some (None, s\<lparr>dgrams := rest, echoed := echoed s @ [(a, take 256 d)], out := es\<rparr>)"
    using udp_branch_echo[OF d, of host] by blast
  have "inv (s\<lparr>dgrams := rest, echoed := echoed s @ [(a, take 256 d)], out := es\<rparr>)"
    by (rule inv_fds[OF assms(1)]) simp_all
  then show ?thesis using Udp u d assms(2) by (auto simp: mux_turn_def all_ok_def tcp_work_def udp_work_def)
next
  case Idle
  then show ?thesis using sel_idle[OF assms(1)] assms(3) by simp
qed

lemma run:
  assumes "inv s" "\<forall>(a, d) \<in> set (dgrams s). echoable d" "length (conns s) + length (dgrams s) = n"
  shows "\<exists>s'. mux_run wait sel host (replicate n all_ok) s = Some (None, s') \<and> threads s' = tcp_work s \<and> echoed s' = udp_work s \<and>
    conns s' = [] \<and> dgrams s' = [] \<and> sel s' = Idle"
  using assms
proof (induction n arbitrary: s)
  case 0
  then show ?case using sel_idle[OF 0(1)] by (simp add: tcp_work_def udp_work_def)
next
  case (Suc n)
  have "conns s \<noteq> [] \<or> dgrams s \<noteq> []" using Suc.prems(3) by auto
  then obtain s1 where s1: "mux_turn wait sel host all_ok s = Some (None, s1)" "inv s1" "tcp_work s1 = tcp_work s" "udp_work s1 = udp_work s"
    "\<forall>(a, d) \<in> set (dgrams s1). echoable d" "Suc (length (conns s1) + length (dgrams s1)) = length (conns s) + length (dgrams s)"
    using turn[OF Suc.prems(1,2)] by blast
  have "length (conns s1) + length (dgrams s1) = n" using s1(6) Suc.prems(3) by simp
  from Suc.IH[OF s1(2,5) this] show ?case using s1(1,3,4) by auto
qed

end

text \<open>Two open sockets have different descriptors.\<close>

definition two_sockets :: "mux \<Rightarrow> bool" where
  "two_sockets s = (sd_tcp_srv s \<noteq> sd_udp_srv s \<and> sd_tcp_srv s \<noteq> - 1)"

interpretation select: multiplexer select_choose two_sockets
  by unfold_locales (auto simp: select_choose_def select_ready_def two_sockets_def split: if_splits)

interpretation poll: multiplexer poll_choose two_sockets
  by unfold_locales (auto simp: poll_choose_def poll_revents_def two_sockets_def split: if_splits)

interpretation epoll: multiplexer "epoll_choose pick" two_sockets for pick
  by unfold_locales (auto simp: epoll_choose_def epoll_event_def two_sockets_def split: if_splits option.splits)

section \<open>Properties\<close>

text \<open>C8: As long as every call in the loop succeeds (waiting, accepting, allocating, receiving and sending), the
  two listening sockets are open, and every waiting datagram can be echoed (it has a zero byte among its first
  256 or is shorter, and its text is not \<^verbatim>\<open>exit\<close>, which ends the servers), all three multiplexed servers
  serve everything that waits. With as many turns as there are waiting
  connections and datagrams, each connection has been handed to a thread and each
  datagram sent back to its sender, cut to 256 bytes, both in the order of arrival, and nothing is left to do.
  This holds for the select and the poll server, and for the epoll server however the kernel chooses between
  two ready descriptors.\<close>
theorem mux_servers_serve_all:
  assumes "sel = select_choose \<or> sel = poll_choose \<or> sel = epoll_choose pick" "two_sockets s"
    and "\<forall>(a, d) \<in> set (dgrams s). echoable d"
  shows "returns (mux_run wait sel host (replicate (length (conns s) + length (dgrams s)) all_ok) s) (\<lambda>e s'. e = None \<and>
    threads s' = threads s @ conns s \<and> echoed s' = echoed s @ map (\<lambda>(a, d). (a, take 256 d)) (dgrams s) \<and>
    conns s' = [] \<and> dgrams s' = [] \<and> sel s' = Idle)"
  using assms(1)
proof (elim disjE)
  assume "sel = select_choose"
  then show ?thesis using select.run[OF assms(2,3) refl, of wait host] by (auto simp: select.tcp_work_def select.udp_work_def)
next
  assume "sel = poll_choose"
  then show ?thesis using poll.run[OF assms(2,3) refl, of wait host] by (auto simp: poll.tcp_work_def poll.udp_work_def)
next
  assume "sel = epoll_choose pick"
  then show ?thesis using epoll.run[OF assms(2,3) refl, of wait pick host] by (auto simp: epoll.tcp_work_def epoll.udp_work_def)
qed

definition peer_a :: peer where
  "peer_a = \<lparr>ip = [10, 0, 0, 9], port = 7\<rparr>"

definition mux_example :: mux where
  "mux_example = \<lparr>sd_tcp_srv = 3, sd_udp_srv = 4, conns = [(5, peer_a)], dgrams = [(peer_a, [104, 105])], threads = [], echoed = [], out = []\<rparr>"

theorem mux_servers_serve_all_witness:
  "returns (mux_run ''epoll_wait'' (epoll_choose (\<lambda>_. False)) (\<lambda>_. []) [all_ok, all_ok] mux_example) (\<lambda>e s'. threads s' = [(5, peer_a)] \<and> echoed s' = [(peer_a, [104, 105])])"
proof -
  have "echoable [104, 105]" by (rule short_echoable) (simp_all add: bytes_of_def)
  then show ?thesis
    using mux_servers_serve_all[of "epoll_choose (\<lambda>_. False)" "\<lambda>_. False" mux_example "''epoll_wait''" "\<lambda>_. []"]
    by (auto simp: mux_example_def two_sockets_def numeral_2_eq_2 elim!: returnsE)
qed

lemma conn_hndl_echo:
  "\<forall>c \<in> set cs. echoable c \<Longrightarrow> conn_hndl pre (\<lambda>_. True) sd rest (k + length cs) = Some (ws, es, stop) \<Longrightarrow>
   \<exists>es'. conn_hndl pre (\<lambda>_. True) sd (map Some cs @ rest) k = Some (map (take 256) cs @ ws, es', stop)"
proof (induction cs arbitrary: k)
  case (Cons c cs)
  then obtain es' where "conn_hndl pre (\<lambda>_. True) sd (map Some cs @ rest) (Suc k) = Some (map (take 256) cs @ ws, es', stop)"
    by fastforce
  then show ?case using Cons.prems(1) by (simp add: echoable_def Let_def msg_buf_take)
qed simp

lemma conn_hndl_exit: "\<exists>es. conn_hndl pre (\<lambda>_. True) sd [Some (bytes_of ''exit'')] k = Some ([], es, True)"
proof -
  have "cstr (msg_buf (bytes_of ''exit'')) = bytes_of ''exit''" "0 \<in> set (msg_buf (bytes_of ''exit''))"
    using cstr_pad[of "bytes_of ''exit''" 256 256] by (simp_all add: msg_buf_def bytes_of_def)
  then show ?thesis by (simp add: Let_def)
qed

lemma empty_echoable: "echoable []"
  by (rule short_echoable) (simp_all add: bytes_of_def)

text \<open>A TCP connection is echoed piece by piece, by the thread of the multiplexed servers and by that of the
  plain server alike: for every sequence of received pieces that end inside the buffer and are not the word
  \<^verbatim>\<open>exit\<close> the same pieces are sent back, in order, and the thread goes on; the piece \<^verbatim>\<open>exit\<close> then ends it. The
  empty piece, which is what \<^verbatim>\<open>recv\<close> gives when the client has gone, is such a piece: it does not end the thread.\<close>
theorem tcp_thread_echoes:
  assumes "\<forall>c \<in> set cs. c = [] \<or> echoable c" "hndl = cln_tcp_hndl \<or> hndl = cln_hndl"
  shows "(\<exists>es. hndl (\<lambda>_. True) sd (map Some cs) = Some (map (take 256) cs, es, False)) \<and>
    (\<exists>es. hndl (\<lambda>_. True) sd (map Some cs @ [Some (bytes_of ''exit'')]) = Some (map (take 256) cs, es, True))"
proof -
  have e: "\<forall>c \<in> set cs. echoable c" using assms(1) empty_echoable by auto
  have "(\<exists>es. conn_hndl pre (\<lambda>_. True) sd (map Some cs) 0 = Some (map (take 256) cs, es, False)) \<and>
    (\<exists>es. conn_hndl pre (\<lambda>_. True) sd (map Some cs @ [Some (bytes_of ''exit'')]) 0 = Some (map (take 256) cs, es, True))" for pre
    using conn_hndl_echo[OF e, of pre sd "[]" 0] conn_hndl_echo[OF e, of pre sd "[Some (bytes_of ''exit'')]" 0]
      conn_hndl_exit[of pre sd "0 + length cs"] by fastforce
  then show ?thesis using assms(2) by (auto simp: cln_tcp_hndl_def cln_hndl_def)
qed

theorem tcp_thread_echoes_witness:
  "\<exists>es. cln_tcp_hndl (\<lambda>_. True) 5 (map Some (replicate 100 [])) = Some (map (take 256) (replicate 100 []), es, False)"
  using tcp_thread_echoes[of "replicate 100 []" cln_tcp_hndl 5] by simp

text \<open>When \<^verbatim>\<open>accept\<close> fails the server does not notice: it starts a thread for the descriptor \<open>-1\<close>.\<close>
theorem accept_failure_unnoticed:
  assumes "sd_tcp_srv s \<noteq> - 1" "sel s = Tcp" "did_wait r" "did_malloc r" "\<not> did_accept r"
  shows "returns (mux_turn wait sel host r s) (\<lambda>e s'. e = None \<and> conns s' = conns s \<and> map fst (threads s') = map fst (threads s) @ [- 1])"
  using assms by (auto simp: mux_turn_def tcp_branch_def Let_def split: list.split)

section \<open>A client and its server\<close>

text \<open>A line as it is typed, and what a client prints for it when it comes back unchanged.\<close>

definition typeable :: "byte list \<Rightarrow> bool" where
  "typeable l = (length l < 255 \<and> 0 \<notin> set l \<and> 10 \<notin> set l \<and> l \<noteq> bytes_of ''exit'')"

definition client_lines :: "byte list \<Rightarrow> event list" where
  "client_lines l = [say ''Input you message: '',
     Printf (ln (''Client: send message to server: '' @ sq ''%s'' @ '' (%d bytes)'')) [text_arg l, Num (int (length l))],
     Printf (ln (ln (''Client: receive message from server: '' @ sq ''%s'' @ '' (%d bytes)''))) [text_arg l, Num (int (length l))]]"

lemma typeable_echoable: "typeable l \<Longrightarrow> echoable l \<and> take 256 l = l"
  using short_echoable[of l] by (simp add: typeable_def)

lemma typeable_buf: "typeable l \<Longrightarrow> 0 \<in> set (msg_buf l) \<and> cstr (msg_buf l) = l"
  using cstr_pad[of l 256 256] by (auto simp: typeable_def msg_buf_def)

lemma client_turn_typed:
  assumes "typeable l"
  shows "client_turn snd_call rcv_call True sd (Some (l @ [10])) (Got l) = Some (Some l, client_lines l, Goes_on)"
    "client_turn snd_call rcv_call True sd (Some (l @ [10])) Nothing = Some (Some l, take 2 (client_lines l), Waits)"
proof -
  have "cstr (l @ [10]) = l @ [10]" using assms by (intro cstr_id) (simp add: typeable_def)
  then show "client_turn snd_call rcv_call True sd (Some (l @ [10])) (Got l) = Some (Some l, client_lines l, Goes_on)"
    "client_turn snd_call rcv_call True sd (Some (l @ [10])) Nothing = Some (Some l, take 2 (client_lines l), Waits)"
    using assms typeable_buf[OF assms] by (simp_all add: client_turn_def client_lines_def Let_def typeable_def min_def)
qed

text \<open>The turns of a client that types the lines and gets the replies one after the other; behind the last
  reply nothing arrives.\<close>

fun turns :: "byte list list \<Rightarrow> byte list list \<Rightarrow> (bool \<times> byte list option \<times> client_recv) list" where
  "turns [] rs = []"
| "turns (l # ls) [] = (True, Some (l @ [10]), Nothing) # turns ls []"
| "turns (l # ls) (r # rs) = (True, Some (l @ [10]), Got r) # turns ls rs"

lemma client_loop_typed:
  "\<forall>l \<in> set ls. typeable l \<Longrightarrow> client_loop snd_call rcv_call sd (turns ls ls) = Some (ls, concat (map client_lines ls), Goes_on)"
  by (induction ls) (simp_all add: client_turn_typed)

lemma client_loop_waits:
  "\<forall>l \<in> set (ls @ m # ms). typeable l \<Longrightarrow> client_loop snd_call rcv_call sd (turns (ls @ m # ms) ls) =
    Some (ls @ [m], concat (map client_lines ls) @ take 2 (client_lines m), Waits)"
  by (induction ls) (simp_all add: client_turn_typed)

text \<open>What reaches the server of the messages sent over TCP when every send that carries bytes arrives as one
  piece: a send of no bytes delivers nothing.\<close>

definition tcp_pieces :: "byte list list \<Rightarrow> byte list list" where
  "tcp_pieces = filter (\<lambda>m. m \<noteq> [])"

lemma udp_echo_loop_echo:
  "\<forall>l \<in> set ls. typeable l \<Longrightarrow> \<exists>es. udp_echo_loop host (\<lambda>_. True) sd (map (\<lambda>l. Some (a, l)) ls) k = Some (map (Pair a) ls, es, None)"
proof (induction ls arbitrary: k)
  case (Cons l ls)
  then obtain es where "udp_echo_loop host (\<lambda>_. True) sd (map (\<lambda>l. Some (a, l)) ls) (Suc k) = Some (map (Pair a) ls, es, None)" by fastforce
  moreover have "take (min 256 (length l)) (msg_buf l) = l" using Cons.prems typeable_echoable[of l] by (simp only: msg_buf_take) simp
  ultimately show ?case using Cons.prems typeable_echoable[of l] by (simp add: echoable_def Let_def)
qed simp

text \<open>C18: A client and its echo server together, as long as every system call succeeds, no datagram is
  lost and TCP hands each message that carries bytes to the server and back in one piece. The lines typed have at
  most 254 characters, no zero byte, and none is \<^verbatim>\<open>exit\<close>. Over UDP the server answers every message with itself
  and the client prints each line once as sent and once as received, and goes on. Over TCP the same holds up
  to the first empty line: it sends no byte, the server's thread gets no piece and answers nothing, and the
  client, having printed the line as sent, waits for the answer without end.\<close>
theorem echo_client_roundtrip:
  assumes "\<forall>l \<in> set ls. typeable l" "sd_cln \<noteq> - 1" "rtn \<noteq> - 1" "good = takeWhile (\<lambda>l. l \<noteq> []) ls"
  shows "(\<exists>replies sent es e. cln_hndl (\<lambda>_. True) sd (map Some (tcp_pieces sent)) = Some (replies, es, False) \<and>
      sent = (if good = ls then ls else good @ [[]]) \<and>
      tcp_client_main host srv sd_cln rtn (turns ls replies) =
        (if good = ls then Some (sent, e # concat (map client_lines ls), Goes_on)
         else Some (sent, e # concat (map client_lines good) @ take 2 (client_lines []), Waits))) \<and>
    (\<exists>replies es e. udp_echo_loop host (\<lambda>_. True) sd (map (\<lambda>l. Some (a, l)) ls) 0 = Some (replies, es, None) \<and>
      replies = map (Pair a) ls \<and>
      udp_client_main host srv sd_cln (turns ls (map snd replies)) = Some (ls, e # concat (map client_lines ls), Goes_on))"
proof (intro conjI)
  have good: "\<forall>l \<in> set good. typeable l \<and> l \<noteq> []" using assms(1,4) set_takeWhileD by metis
  have t: "map (take 256) good = good" using good typeable_echoable by (auto intro!: map_idI)
  have p: "tcp_pieces good = good" "tcp_pieces (good @ [[]]) = good" using good by (auto simp: tcp_pieces_def)
  obtain es where srv: "conn_hndl [] (\<lambda>_. True) sd (map Some good) 0 = Some (good, es, False)"
    using conn_hndl_echo[of good "[]" sd "[]" 0] good typeable_echoable t by fastforce
  have rest: "\<exists>ms. ls = good @ [] # ms" if "good \<noteq> ls"
  proof -
    have d: "dropWhile (\<lambda>l. l \<noteq> []) ls \<noteq> []" using that assms(4) takeWhile_dropWhile_id[of "\<lambda>l. l \<noteq> []" ls] by auto
    then have "hd (dropWhile (\<lambda>l. l \<noteq> []) ls) = []" using hd_dropWhile by blast
    then show ?thesis using d assms(4) takeWhile_dropWhile_id[of "\<lambda>l. l \<noteq> []" ls] by (metis list.collapse)
  qed
  show "\<exists>replies sent es e. cln_hndl (\<lambda>_. True) sd (map Some (tcp_pieces sent)) = Some (replies, es, False) \<and>
      sent = (if good = ls then ls else good @ [[]]) \<and>
      tcp_client_main host srv sd_cln rtn (turns ls replies) =
        (if good = ls then Some (sent, e # concat (map client_lines ls), Goes_on)
         else Some (sent, e # concat (map client_lines good) @ take 2 (client_lines []), Waits))"
  proof (cases "good = ls")
    case True
    then show ?thesis using assms(1-3) srv[unfolded True] p(1)[unfolded True]
      by (auto simp: cln_hndl_def tcp_client_main_def tcp_client_init_def client_loop_typed)
  next
    case False
    then obtain ms where ms: "ls = good @ [] # ms" using rest by blast
    then show ?thesis using assms(1-3) srv p(2) False client_loop_waits[of good "[]" ms]
      by (auto simp: cln_hndl_def tcp_client_main_def tcp_client_init_def)
  qed
  show "\<exists>replies es e. udp_echo_loop host (\<lambda>_. True) sd (map (\<lambda>l. Some (a, l)) ls) 0 = Some (replies, es, None) \<and>
      replies = map (Pair a) ls \<and>
      udp_client_main host srv sd_cln (turns ls (map snd replies)) = Some (ls, e # concat (map client_lines ls), Goes_on)"
    using assms udp_echo_loop_echo[OF assms(1), of host sd a 0]
    by (auto simp: udp_client_main_def udp_client_init_def client_loop_typed comp_def)
qed

theorem echo_client_roundtrip_witness:
  "(\<exists>es. cln_hndl (\<lambda>_. True) 4 [Some [104, 105]] = Some ([[104, 105]], es, False)) \<and>
   (\<exists>es. tcp_client_main (\<lambda>_. []) peer_a 3 0 (turns [[104, 105], [], [104]] [[104, 105]]) = Some ([[104, 105], []], es, Waits))"
proof -
  have "\<exists>replies es e. cln_hndl (\<lambda>_. True) 4 [Some [104, 105]] = Some (replies, es, False) \<and>
    tcp_client_main (\<lambda>_. []) peer_a 3 0 (turns [[104, 105], [], [104]] replies) =
      Some ([[104, 105], []], e # client_lines [104, 105] @ take 2 (client_lines []), Waits)"
    using echo_client_roundtrip[of "[[104, 105], [], [104]]" 3 0 "[[104, 105]]" 4 "\<lambda>_. []" peer_a peer_a]
    by (simp add: typeable_def bytes_of_def tcp_pieces_def)
  moreover have "\<exists>es. cln_hndl (\<lambda>_. True) 4 [Some [104, 105]] = Some ([[104, 105]], es, False)"
    using tcp_thread_echoes[of "[[104, 105]]" cln_hndl 4] short_echoable[of "[104, 105]"] by (auto simp: bytes_of_def)
  ultimately show ?thesis by fastforce
qed

end
