(* ===== verification/Thread_Locks.thy ===== *)
theory Thread_Locks
  imports C_Output Step_Systems
begin

text \<open>
  The contract of threads that use mutexes, for \<^verbatim>\<open>src/mutex\<close> and \<^verbatim>\<open>src/mutex_store\<close>. A program is a step relation on
  its states; \<open>owner\<close> reads its mutexes, \<open>holds\<close> says, from the program counter of a thread, which critical
  section the thread is in. The locale \<open>lock_system\<close> asks that every step takes one free mutex, gives up one
  that is held, or touches none; mutual exclusion follows. \<open>lock_progress\<close> adds that a thread that waits for
  a mutex holds none, from which some thread can always go on while the program runs.
\<close>

section \<open>Mutexes\<close>

definition lock_move :: "('l \<Rightarrow> nat option) \<Rightarrow> (nat \<Rightarrow> 'l \<Rightarrow> bool) \<Rightarrow> ('l \<Rightarrow> nat option) \<Rightarrow> (nat \<Rightarrow> 'l \<Rightarrow> bool) \<Rightarrow> bool" where
  "lock_move own hold own' hold' =
     (own' = own \<and> hold' = hold \<or>
      (\<exists>i l. own l = None \<and> own' = own(l := Some i) \<and> hold' = hold(i := (hold i)(l := True))) \<or>
      (\<exists>i l. hold i l \<and> own' = own(l := None) \<and> hold' = hold(i := (hold i)(l := False))))"

lemma lock_move_stay: "own' = own \<Longrightarrow> hold' = hold \<Longrightarrow> lock_move own hold own' hold'"
  by (simp add: lock_move_def)

lemma lock_move_take:
  "own l = None \<Longrightarrow> own' = own(l := Some i) \<Longrightarrow> hold' = hold(i := (hold i)(l := True)) \<Longrightarrow> lock_move own hold own' hold'"
  unfolding lock_move_def by blast

lemma lock_move_give:
  "hold i l \<Longrightarrow> own' = own(l := None) \<Longrightarrow> hold' = hold(i := (hold i)(l := False)) \<Longrightarrow> lock_move own hold own' hold'"
  unfolding lock_move_def by blast

lemma lock_move_consistent:
  assumes "lock_move own hold own' hold'" "\<forall>i l. hold i l \<longleftrightarrow> own l = Some i"
  shows "\<forall>i l. hold' i l \<longleftrightarrow> own' l = Some i"
  using assms unfolding lock_move_def by (elim disjE exE conjE) auto

locale lock_system =
  fixes step :: "'s \<Rightarrow> 's \<Rightarrow> bool" and owner :: "'s \<Rightarrow> 'l \<Rightarrow> nat option" and holds :: "'s \<Rightarrow> nat \<Rightarrow> 'l \<Rightarrow> bool"
  assumes step_locks: "step s s' \<Longrightarrow> lock_move (owner s) (holds s) (owner s') (holds s')"
begin

definition locked :: "'s \<Rightarrow> bool" where
  "locked s = (\<forall>i l. holds s i l \<longleftrightarrow> owner s l = Some i)"

lemma locked_step: "step s s' \<Longrightarrow> locked s \<Longrightarrow> locked s'"
  unfolding locked_def using lock_move_consistent step_locks by fast

lemma exclusive: "locked s \<Longrightarrow> holds s i l \<Longrightarrow> holds s j l \<Longrightarrow> i = j"
  by (simp add: locked_def)

end

sublocale lock_system \<subseteq> locks: step_invariant step locked
  by unfold_locales (rule locked_step)

locale lock_progress = lock_system step owner holds
  for step :: "'s \<Rightarrow> 's \<Rightarrow> bool" and owner :: "'s \<Rightarrow> 'l \<Rightarrow> nat option" and holds :: "'s \<Rightarrow> nat \<Rightarrow> 'l \<Rightarrow> bool" +
  fixes running :: "'s \<Rightarrow> bool" and wants :: "'s \<Rightarrow> nat \<Rightarrow> 'l option" and live :: "'s \<Rightarrow> nat \<Rightarrow> bool"
  assumes moves: "running s \<Longrightarrow> live s i \<Longrightarrow> wants s i = None \<Longrightarrow> \<exists>s'. step s s'"
    and enters: "running s \<Longrightarrow> live s i \<Longrightarrow> wants s i = Some l \<Longrightarrow> owner s l = None \<Longrightarrow> \<exists>s'. step s s'"
    and holder: "holds s i l \<Longrightarrow> live s i \<and> wants s i = None"
begin

lemma no_deadlock:
  assumes "locked s" "running s" "live s i"
  shows "\<exists>s'. step s s'"
proof (cases "wants s i")
  case None
  then show ?thesis using moves assms(2,3) by blast
next
  case (Some l)
  show ?thesis
  proof (cases "owner s l")
    case None
    then show ?thesis using enters[OF assms(2,3) Some] by blast
  next
    case (Some j)
    then have "holds s j l" using assms(1) by (simp add: locked_def)
    then show ?thesis using holder moves[OF assms(2)] by blast
  qed
qed

end

end
