(* ===== verification/Mutex_Counter.thy ===== *)
theory Mutex_Counter
  imports Thread_Locks
begin

text \<open>
  \<^verbatim>\<open>src/mutex\<close>: ten threads add to the global \<^verbatim>\<open>gn\<close> under one mutex. A step of the model is one access of a
  thread to shared memory, so that threads interleave inside the statements \<^verbatim>\<open>ln = gn; ln++; gn = ln;\<close> and the
  mutex has to keep them apart. \<^verbatim>\<open>pthread_create\<close> is taken to succeed.
\<close>

section \<open>Threads\<close>

definition PTH_N :: nat where
  "PTH_N = 10"

definition LOOPS :: nat where
  "LOOPS = 1000000"

datatype pth_pc = Lock | Load nat | Incr nat | Store nat | Unlock | Print | Gone

record pth =
  pc :: pth_pc
  ln :: u32

datatype main_pc = Create nat | Join nat | Report | Exited

record counter =
  mtx :: "nat option"
  gn :: u32
  pths :: "pth list"
  mpc :: main_pc
  out :: "event list"

abbreviation go :: "nat \<Rightarrow> pth_pc \<Rightarrow> counter \<Rightarrow> counter" where
  "go i p s \<equiv> s\<lparr>pths := (pths s)[i := (pths s ! i)\<lparr>pc := p\<rparr>]\<rparr>"

abbreviation num32 :: "u32 \<Rightarrow> arg" where
  "num32 w \<equiv> Num (sint w)"

text \<open>One step of thread \<open>i\<close> in \<^verbatim>\<open>pth_func\<close>; \<open>None\<close> when it waits for the mutex or has ended. \<open>Load k\<close> is the test of the
  loop with \<open>i = k\<close> and, if it holds, the read of \<^verbatim>\<open>gn\<close>.\<close>

definition pth_func :: "nat \<Rightarrow> counter \<Rightarrow> counter option" where
  "pth_func i s = (let t = pths s ! i in case pc t of
     Lock \<Rightarrow> if mtx s = None then Some (go i (Load 0) (s\<lparr>mtx := Some i\<rparr>)) else None
   | Load k \<Rightarrow> if k < LOOPS then Some (s\<lparr>pths := (pths s)[i := t\<lparr>pc := Incr k, ln := gn s\<rparr>]\<rparr>) else Some (go i Unlock s)
   | Incr k \<Rightarrow> Some (s\<lparr>pths := (pths s)[i := t\<lparr>pc := Store k, ln := ln t + 1\<rparr>]\<rparr>)
   | Store k \<Rightarrow> Some (go i (Load (Suc k)) (s\<lparr>gn := ln t\<rparr>))
   | Unlock \<Rightarrow> Some (go i Print (s\<lparr>mtx := None\<rparr>))
   | Print \<Rightarrow> Some (go i Gone (s\<lparr>out := out s @ [Printf (C_Output.ln ''Pthread[%d]: up gn to %d'') [Num (int i), num32 (gn s)]]\<rparr>))
   | Gone \<Rightarrow> None)"

text \<open>The main thread creates the threads, joins them in the order of their numbers and prints \<^verbatim>\<open>gn\<close>.\<close>

definition main_step :: "counter \<Rightarrow> counter option" where
  "main_step s = (case mpc s of
     Create i \<Rightarrow> if i < PTH_N then Some (s\<lparr>pths := pths s @ [\<lparr>pc = Lock, ln = 0\<rparr>], mpc := Create (Suc i)\<rparr>) else Some (s\<lparr>mpc := Join 0\<rparr>)
   | Join i \<Rightarrow> if i < PTH_N then (if pc (pths s ! i) = Gone then Some (s\<lparr>mpc := Join (Suc i)\<rparr>) else None) else Some (s\<lparr>mpc := Report\<rparr>)
   | Report \<Rightarrow> Some (s\<lparr>out := out s @ [Printf (C_Output.ln ''Global number: %d'') [num32 (gn s)]], mpc := Exited\<rparr>)
   | Exited \<Rightarrow> None)"

inductive counter_step :: "counter \<Rightarrow> counter \<Rightarrow> bool" where
  thread: "mpc s \<noteq> Exited \<Longrightarrow> i < length (pths s) \<Longrightarrow> pth_func i s = Some s' \<Longrightarrow> counter_step s s'"
| main: "main_step s = Some s' \<Longrightarrow> counter_step s s'"

definition counter_main :: counter where
  "counter_main = \<lparr>mtx = None, gn = 0, pths = [], mpc = Create 0, out = []\<rparr>"

section \<open>The mutex\<close>

fun in_section :: "pth_pc \<Rightarrow> bool" where
  "in_section (Load k) = True" | "in_section (Incr k) = True" | "in_section (Store k) = True" | "in_section Unlock = True"
| "in_section Lock = False" | "in_section Print = False" | "in_section Gone = False"

definition owner :: "counter \<Rightarrow> unit \<Rightarrow> nat option" where
  "owner s = (\<lambda>_. mtx s)"

definition inside :: "counter \<Rightarrow> nat \<Rightarrow> unit \<Rightarrow> bool" where
  "inside s = (\<lambda>i _. i < length (pths s) \<and> in_section (pc (pths s ! i)))"

definition waits :: "counter \<Rightarrow> nat \<Rightarrow> unit option" where
  "waits s i = (if pc (pths s ! i) = Lock then Some () else None)"

definition alive :: "counter \<Rightarrow> nat \<Rightarrow> bool" where
  "alive s i = (i < length (pths s) \<and> pc (pths s ! i) \<noteq> Gone)"

lemma inside_same:
  "i < length (pths s) \<Longrightarrow> pths s' = (pths s)[i := t] \<Longrightarrow> in_section (pc t) = in_section (pc (pths s ! i)) \<Longrightarrow> inside s' = inside s"
  by (auto simp: inside_def fun_eq_iff nth_list_update)

lemma pth_func_locks:
  assumes "i < length (pths s)" "pth_func i s = Some s'"
  shows "lock_move (owner s) (inside s) (owner s') (inside s')"
proof (cases "pc (pths s ! i)")
  case Lock
  then have s': "mtx s = None" "s' = go i (Load 0) (s\<lparr>mtx := Some i\<rparr>)" using assms(2) by (auto simp: pth_func_def Let_def split: if_splits)
  show ?thesis by (rule lock_move_take[where l = "()" and i = i])
    (use s' assms(1) in \<open>auto simp: owner_def fun_eq_iff inside_def nth_list_update\<close>)
next
  case Unlock
  then have s': "s' = go i Print (s\<lparr>mtx := None\<rparr>)" using assms(2) by (simp add: pth_func_def)
  show ?thesis by (rule lock_move_give[where l = "()" and i = i])
    (use s' Unlock assms(1) in \<open>auto simp: owner_def fun_eq_iff inside_def nth_list_update\<close>)
qed (use assms in \<open>auto simp: pth_func_def Let_def owner_def intro!: lock_move_stay inside_same[symmetric] inside_same split: if_splits\<close>)

lemma main_step_locks: "main_step s = Some s' \<Longrightarrow> owner s' = owner s \<and> inside s' = inside s"
  by (auto simp: main_step_def owner_def inside_def fun_eq_iff nth_append split: main_pc.splits if_splits)

interpretation ctr: lock_progress counter_step owner inside "\<lambda>s. mpc s \<noteq> Exited" waits alive
proof
  show "counter_step s s' \<Longrightarrow> lock_move (owner s) (inside s) (owner s') (inside s')" for s s'
    by (induction rule: counter_step.induct) (auto intro: pth_func_locks lock_move_stay dest: main_step_locks)
  show "\<exists>s'. counter_step s s'" if "mpc s \<noteq> Exited" "alive s i" "waits s i = None" for s i
  proof -
    have "\<exists>s'. pth_func i s = Some s'" using that by (auto simp: alive_def waits_def pth_func_def Let_def split: pth_pc.splits if_splits)
    then show ?thesis using that(1,2) counter_step.thread by (auto simp: alive_def)
  qed
  show "\<exists>s'. counter_step s s'" if "mpc s \<noteq> Exited" "alive s i" "waits s i = Some l" "owner s l = None" for s i l
  proof -
    have "\<exists>s'. pth_func i s = Some s'" using that by (auto simp: waits_def owner_def pth_func_def split: if_splits)
    then show ?thesis using that(1,2) counter_step.thread by (auto simp: alive_def)
  qed
  show "inside s i l \<Longrightarrow> alive s i \<and> waits s i = None" for s i l
    by (auto simp: inside_def alive_def waits_def)
qed

section \<open>The count\<close>

text \<open>How often a thread has added, by its program counter.\<close>

fun adds :: "pth_pc \<Rightarrow> nat" where
  "adds Lock = 0" | "adds (Load k) = k" | "adds (Incr k) = k" | "adds (Store k) = k"
| "adds Unlock = LOOPS" | "adds Print = LOOPS" | "adds Gone = LOOPS"

fun pth_ok :: "u32 \<Rightarrow> pth_pc \<Rightarrow> u32 \<Rightarrow> bool" where
  "pth_ok g (Load k) v = (k \<le> LOOPS)" | "pth_ok g (Incr k) v = (k < LOOPS \<and> v = g)" | "pth_ok g (Store k) v = (k < LOOPS \<and> v = g + 1)"
| "pth_ok g Lock v = True" | "pth_ok g Unlock v = True" | "pth_ok g Print v = True" | "pth_ok g Gone v = True"

definition total :: "counter \<Rightarrow> nat" where
  "total s = sum_list (map (adds \<circ> pc) (pths s))"

definition all_gone :: "counter \<Rightarrow> bool" where
  "all_gone s = (length (pths s) = PTH_N \<and> (\<forall>t \<in> set (pths s). pc t = Gone))"

definition counter_inv :: "counter \<Rightarrow> bool" where
  "counter_inv s = (ctr.locked s \<and> gn s = of_nat (total s) \<and> (\<forall>t \<in> set (pths s). pth_ok (gn s) (pc t) (ln t)) \<and>
     (case mpc s of Create i \<Rightarrow> length (pths s) = i \<and> i \<le> PTH_N
      | Join i \<Rightarrow> length (pths s) = PTH_N \<and> i \<le> PTH_N \<and> (\<forall>j < i. pc (pths s ! j) = Gone)
      | Report \<Rightarrow> all_gone s
      | Exited \<Rightarrow> all_gone s \<and> out s \<noteq> [] \<and> last (out s) = Printf (C_Output.ln ''Global number: %d'') [Num 10000000]))"

lemma total_update:
  assumes "i < length (pths s)" "pths s' = (pths s)[i := t]"
  shows "total s' + adds (pc (pths s ! i)) = total s + adds (pc t)"
proof -
  have "(map (adds \<circ> pc) (pths s)) ! i \<le> total s" unfolding total_def by (rule elem_le_sum_list) (simp add: assms(1))
  then show ?thesis using assms sum_list_update[of i "map (adds \<circ> pc) (pths s)"] by (simp add: total_def map_update)
qed

lemma total_all_gone: "all_gone s \<Longrightarrow> total s = 10000000"
proof -
  assume g: "all_gone s"
  have "map (adds \<circ> pc) (pths s) = replicate PTH_N LOOPS"
    by (rule nth_equalityI) (use g in \<open>auto simp: all_gone_def\<close>)
  then show ?thesis by (simp add: total_def sum_list_replicate PTH_N_def LOOPS_def)
qed

lemma pth_ok_outside: "\<not> in_section p \<Longrightarrow> pth_ok g p v"
  by (cases p) auto

text \<open>What a step of a thread does to its own entry and to \<^verbatim>\<open>gn\<close>.\<close>

lemma pth_func_effect:
  assumes "i < length (pths s)" "pth_func i s = Some s'" "pth_ok (gn s) (pc (pths s ! i)) (ln (pths s ! i))"
  shows "pc (pths s ! i) \<noteq> Gone \<and> mpc s' = mpc s \<and> pths s' = (pths s)[i := pths s' ! i] \<and>
    pth_ok (gn s') (pc (pths s' ! i)) (ln (pths s' ! i)) \<and>
    (gn s' = gn s \<and> adds (pc (pths s' ! i)) = adds (pc (pths s ! i)) \<or>
     in_section (pc (pths s ! i)) \<and> gn s' = gn s + 1 \<and> adds (pc (pths s' ! i)) = Suc (adds (pc (pths s ! i))))"
  using assms by (cases "pc (pths s ! i)") (auto simp: pth_func_def Let_def split: if_splits)

lemma pth_func_inv:
  assumes "counter_inv s" "mpc s \<noteq> Exited" "i < length (pths s)" "pth_func i s = Some s'"
  shows "counter_inv s'"
proof -
  have ok: "\<forall>t \<in> set (pths s). pth_ok (gn s) (pc t) (ln t)" and lk: "ctr.locked s" and g: "gn s = of_nat (total s)"
    using assms(1) by (auto simp: counter_inv_def)
  let ?t = "pths s' ! i"
  have e: "pc (pths s ! i) \<noteq> Gone" "mpc s' = mpc s" "pths s' = (pths s)[i := ?t]" "pth_ok (gn s') (pc ?t) (ln ?t)"
    "gn s' = gn s \<and> adds (pc ?t) = adds (pc (pths s ! i)) \<or>
     in_section (pc (pths s ! i)) \<and> gn s' = gn s + 1 \<and> adds (pc ?t) = Suc (adds (pc (pths s ! i)))"
    using pth_func_effect[OF assms(3,4)] ok assms(3) by auto
  have "ctr.locked s'" using ctr.locked_step[OF counter_step.thread[OF assms(2,3,4)] lk] .
  moreover have "gn s' = of_nat (total s')" using e(5) g total_update[OF assms(3) e(3)] by (auto simp: add.commute)
  moreover have "pth_ok (gn s') (pc (pths s' ! j)) (ln (pths s' ! j))" if j: "j < length (pths s)" for j
  proof (cases "j = i")
    case True
    then show ?thesis using e(4) by simp
  next
    case False
    then have "in_section (pc (pths s ! i)) \<Longrightarrow> \<not> in_section (pc (pths s ! j))"
      using ctr.exclusive[OF lk, of i "()" j] j assms(3) by (auto simp: inside_def)
    moreover have "pths s' ! j = pths s ! j" using False by (subst e(3)) simp
    ultimately show ?thesis using e(5) ok j pth_ok_outside by (metis nth_mem)
  qed
  then have "\<forall>t \<in> set (pths s'). pth_ok (gn s') (pc t) (ln t)"
    using e(3) by (metis in_set_conv_nth length_list_update)
  moreover have "length (pths s') = length (pths s)" using e(3) by (metis length_list_update)
  moreover have "pc (pths s ! j) = Gone \<Longrightarrow> pc (pths s' ! j) = Gone" for j
    using e(1) by (cases "j = i") (auto simp: arg_cong[OF e(3), of "\<lambda>xs. xs ! j"])
  moreover have "mpc s \<noteq> Report" using assms(1,3) e(1) by (auto simp: counter_inv_def all_gone_def)
  ultimately show ?thesis using assms(1,2) e(2) by (auto simp: counter_inv_def split: main_pc.splits)
qed

lemma main_step_inv:
  assumes "counter_inv s" "main_step s = Some s'"
  shows "counter_inv s'"
proof -
  have lk: "ctr.locked s'" using ctr.locked_step counter_step.main[OF assms(2)] assms(1) by (auto simp: counter_inv_def)
  show ?thesis
  proof (cases "mpc s")
    case (Join i)
    then show ?thesis using assms lk
      by (auto simp: counter_inv_def main_step_def total_def all_gone_def less_Suc_eq in_set_conv_nth split: if_splits)
  next
    case Report
    then have "gn s = 10000000" using assms(1) total_all_gone by (simp add: counter_inv_def)
    then show ?thesis using Report assms lk by (auto simp: counter_inv_def main_step_def total_def all_gone_def)
  qed (use assms lk in \<open>auto simp: counter_inv_def main_step_def total_def split: if_splits\<close>)
qed

lemma counter_step_inv: "counter_step s s' \<Longrightarrow> counter_inv s \<Longrightarrow> counter_inv s'"
  by (induction rule: counter_step.induct) (auto intro: pth_func_inv main_step_inv)

lemma counter_main_inv: "counter_inv counter_main"
  by (simp add: counter_inv_def counter_main_def ctr.locked_def owner_def inside_def total_def)

section \<open>Ending\<close>

fun pth_todo :: "pth_pc \<Rightarrow> nat" where
  "pth_todo Lock = 3 * LOOPS + 4" | "pth_todo (Load k) = 3 * (LOOPS - k) + 3" | "pth_todo (Incr k) = 3 * (LOOPS - k) + 2"
| "pth_todo (Store k) = 3 * (LOOPS - k) + 1" | "pth_todo Unlock = 2" | "pth_todo Print = 1" | "pth_todo Gone = 0"

fun main_todo :: "main_pc \<Rightarrow> nat" where
  "main_todo (Create i) = (PTH_N - i) * (3 * LOOPS + 5) + PTH_N + 3" | "main_todo (Join i) = (PTH_N - i) + 2"
| "main_todo Report = 1" | "main_todo Exited = 0"

definition todo :: "counter \<Rightarrow> nat" where
  "todo s = main_todo (mpc s) + sum_list (map (pth_todo \<circ> pc) (pths s))"

lemma todo_thread:
  assumes "i < length (pths s)" "pth_func i s = Some s'" "counter_inv s"
  shows "todo s' < todo s"
proof -
  have ok: "pth_ok (gn s) (pc (pths s ! i)) (ln (pths s ! i))" using assms(1,3) by (auto simp: counter_inv_def)
  have m: "mpc s' = mpc s" and p: "pths s' = (pths s)[i := pths s' ! i]" using pth_func_effect[OF assms(1,2) ok] by auto
  have d: "pth_todo (pc (pths s' ! i)) < pth_todo (pc (pths s ! i))"
    using assms(1,2) ok by (cases "pc (pths s ! i)") (auto simp: pth_func_def Let_def split: if_splits)
  have "(map (pth_todo \<circ> pc) (pths s)) ! i \<le> sum_list (map (pth_todo \<circ> pc) (pths s))" by (rule elem_le_sum_list) (simp add: assms(1))
  then show ?thesis using m d assms(1) sum_list_update[of i "map (pth_todo \<circ> pc) (pths s)" "pth_todo (pc (pths s' ! i))"]
    by (subst (1) todo_def, subst p) (simp add: todo_def map_update)
qed

lemma todo_main: "main_step s = Some s' \<Longrightarrow> counter_inv s \<Longrightarrow> todo s' < todo s"
  by (auto simp: main_step_def todo_def counter_inv_def Suc_diff_Suc[symmetric] split: main_pc.splits if_splits)

interpretation run: step_weight counter_step counter_inv todo
proof unfold_locales
  fix s s' assume s: "counter_step s s'" "counter_inv s"
  then show "counter_inv s'" by (rule counter_step_inv)
  show "todo s' < todo s" using s by (auto elim!: counter_step.cases intro: todo_thread todo_main)
qed

lemma counter_moves:
  assumes "counter_inv s" "mpc s \<noteq> Exited"
  shows "\<exists>s'. counter_step s s'"
proof (cases "\<exists>i. alive s i")
  case True
  then show ?thesis using ctr.no_deadlock assms by (auto simp: counter_inv_def)
next
  case False
  then have "\<exists>s'. main_step s = Some s'" using assms
    by (auto simp: alive_def counter_inv_def main_step_def split: main_pc.splits)
  then show ?thesis using counter_step.main by blast
qed

text \<open>C9: The mutex program counts exactly. In whatever order its ten threads and the main thread run, with
  any interleaving of the reads and writes of \<^verbatim>\<open>gn\<close>: no two threads are inside the protected loop at once, some
  thread can always take a step until the program exits, and when it exits \<^verbatim>\<open>gn\<close> is ten million and that
  number is the last thing printed.\<close>
theorem mutex_counts_exactly:
  assumes "counter_step\<^sup>*\<^sup>* counter_main s"
  shows "(\<forall>i j. inside s i () \<and> inside s j () \<longrightarrow> i = j) \<and> (mpc s \<noteq> Exited \<longrightarrow> (\<exists>s'. counter_step s s')) \<and>
    (mpc s = Exited \<longrightarrow> sint (gn s) = 10000000 \<and> last (out s) = Printf (C_Output.ln ''Global number: %d'') [Num 10000000])"
proof -
  have i: "counter_inv s" using run.reach counter_main_inv assms by blast
  then have "mpc s = Exited \<Longrightarrow> gn s = 10000000" using total_all_gone[of s] by (simp add: counter_inv_def)
  then show ?thesis using i counter_moves[OF i] ctr.exclusive[of s] by (auto simp: counter_inv_def)
qed

theorem mutex_counts_exactly_witness: "\<exists>s'. counter_step counter_main s'"
  using mutex_counts_exactly[OF rtranclp.rtrancl_refl] by (simp add: counter_main_def)

text \<open>C36: The mutex program ends. No run has more than 30000063 steps, and every run can be continued to one
  that has printed the final number and exited.\<close>
theorem mutex_program_ends:
  "(\<forall>n s. (counter_step ^^ n) counter_main s \<longrightarrow> n \<le> 30000063) \<and>
   (\<forall>s. counter_step\<^sup>*\<^sup>* counter_main s \<longrightarrow> (\<exists>t. counter_step\<^sup>*\<^sup>* s t \<and> mpc t = Exited))"
proof (intro conjI allI impI)
  fix n s assume "(counter_step ^^ n) counter_main s"
  then have "n + todo s \<le> todo counter_main"
    using run.bounded counter_main_inv by blast
  then show "n \<le> 30000063" by (simp add: todo_def counter_main_def PTH_N_def LOOPS_def)
next
  fix s assume "counter_step\<^sup>*\<^sup>* counter_main s"
  then have "counter_inv s" using run.reach counter_main_inv by blast
  then obtain t where "counter_step\<^sup>*\<^sup>* s t" "counter_inv t" "\<not> (\<exists>u. counter_step t u)"
    using run.ends by blast
  then show "\<exists>t. counter_step\<^sup>*\<^sup>* s t \<and> mpc t = Exited" using counter_moves by blast
qed

theorem mutex_program_ends_witness: "\<exists>t. counter_step\<^sup>*\<^sup>* counter_main t \<and> mpc t = Exited"
  using mutex_program_ends by blast

end
