(* ===== verification/Mutex_Store.thy ===== *)
theory Mutex_Store
  imports Thread_Locks
begin

text \<open>
  \<^verbatim>\<open>src/mutex_store\<close>: customers take stuff from stores that a loader fills, with one mutex for each store. As in
  \<^verbatim>\<open>Mutex_Counter\<close> a step is at most one access of a thread to a store's balance. The numbers \<^verbatim>\<open>rand\<close> gives are
  arguments of the steps that draw them. \<open>ub\<close> is set where C's behaviour is undefined: a balance above the
  largest \<^verbatim>\<open>int\<close>, or a status stored through a null pointer; nothing moves after that. \<open>loaded\<close> and \<open>deliveries\<close> are
  ghost fields: what the loader has brought, and how often.
\<close>

section \<open>Program\<close>

definition STORE_NUM :: nat where
  "STORE_NUM = 5"

definition CUSTOMER_NUM :: nat where
  "CUSTOMER_NUM = 3"

text \<open>\<open>None\<close> is the exit with the message about invalid arguments.\<close>

definition get_rand_int :: "nat \<Rightarrow> int \<Rightarrow> int \<Rightarrow> int option" where
  "get_rand_int r range_min range_max =
     (if range_min > range_max then None else Some (range_min + int r mod (range_max - range_min + 1)))"

datatype cst_pc = Test | Lock nat int | Clip nat int | Load nat int | Store nat int int | Pay nat int | Unlock nat | Gone

datatype ldr_pc = Draw | L_Lock nat int | L_Load nat int | L_Store nat int int | L_Unlock nat int

datatype main_pc = Create nat | Join nat | Cancel | Exited

record shop =
  st_mtx :: "nat \<Rightarrow> nat option"
  st_val :: "int list"
  cst_val :: "int list"
  csts :: "cst_pc list"
  ldr :: ldr_pc
  mpc :: main_pc
  statuses :: bool
  ub :: bool
  loaded :: int
  deliveries :: nat
  out :: "event list"

definition cst_line :: "nat \<Rightarrow> nat \<Rightarrow> int \<Rightarrow> int \<Rightarrow> event" where
  "cst_line cid st_id stf_num remains = Printf (ln ''Customer[id = %d]: store id = %d, stuff num = %d, remains = %d'')
     [Num (int cid), Num (int st_id), Num stf_num, Num remains]"

definition ldr_line :: "nat \<Rightarrow> int \<Rightarrow> int \<Rightarrow> event" where
  "ldr_line st_id stf_num balance = Printf (CHR 0x0A # ln (ln ''Loader  [id = %d]: store id = %d, stuff num = %d, balance = %d''))
     [Num 0, Num (int st_id), Num stf_num, Num balance]"

text \<open>One step of customer \<open>cid\<close>, with the two random numbers the test of the loop may draw.\<close>

definition cst_func :: "nat \<Rightarrow> nat \<Rightarrow> nat \<Rightarrow> shop \<Rightarrow> shop option" where
  "cst_func r1 r2 cid s = (let jump = (\<lambda>p s. s\<lparr>csts := (csts s)[cid := p]\<rparr>) in case csts s ! cid of
     Test \<Rightarrow>
       if cst_val s ! cid > 0 then do {
         st_id \<leftarrow> get_rand_int r1 0 (int STORE_NUM - 1);
         stf_num \<leftarrow> get_rand_int r2 0 512;
         let stf_num = (if cst_val s ! cid - stf_num \<ge> 0 then stf_num else cst_val s ! cid);
         Some (jump (Lock (nat st_id) stf_num) s) }
       else Some (jump Gone s)
   | Lock st_id stf_num \<Rightarrow>
       if st_mtx s st_id = None then Some (jump (Clip st_id stf_num) (s\<lparr>st_mtx := (st_mtx s)(st_id := Some (Suc cid))\<rparr>)) else None
   | Clip st_id stf_num \<Rightarrow>
       Some (jump (Load st_id (if st_val s ! st_id - stf_num \<ge> 0 then stf_num else st_val s ! st_id)) s)
   | Load st_id stf_num \<Rightarrow> Some (jump (Store st_id stf_num (st_val s ! st_id)) s)
   | Store st_id stf_num v \<Rightarrow> Some (jump (Pay st_id stf_num) (s\<lparr>st_val := (st_val s)[st_id := v - stf_num]\<rparr>))
   | Pay st_id stf_num \<Rightarrow>
       let rest = cst_val s ! cid - stf_num in
       Some (jump (Unlock st_id) (s\<lparr>cst_val := (cst_val s)[cid := rest], out := out s @ [cst_line cid st_id stf_num rest]\<rparr>))
   | Unlock st_id \<Rightarrow> Some (jump Test (s\<lparr>st_mtx := (st_mtx s)(st_id := None)\<rparr>))
   | Gone \<Rightarrow> None)"

text \<open>One step of the loader. It locks as thread number 0, customer \<open>cid\<close> as thread number \<open>cid + 1\<close>.\<close>

definition ldr_func :: "nat \<Rightarrow> nat \<Rightarrow> shop \<Rightarrow> shop option" where
  "ldr_func r1 r2 s = (case ldr s of
     Draw \<Rightarrow> do {
       st_id \<leftarrow> get_rand_int r1 0 (int STORE_NUM - 1);
       stf_num \<leftarrow> get_rand_int r2 0 512;
       Some (s\<lparr>ldr := L_Lock (nat st_id) stf_num\<rparr>) }
   | L_Lock st_id stf_num \<Rightarrow>
       if st_mtx s st_id = None then Some (s\<lparr>ldr := L_Load st_id stf_num, st_mtx := (st_mtx s)(st_id := Some 0)\<rparr>) else None
   | L_Load st_id stf_num \<Rightarrow> Some (s\<lparr>ldr := L_Store st_id stf_num (st_val s ! st_id)\<rparr>)
   | L_Store st_id stf_num v \<Rightarrow>
       if v + stf_num > 2147483647 then Some (s\<lparr>ub := True\<rparr>)
       else Some (s\<lparr>ldr := L_Unlock st_id stf_num, st_val := (st_val s)[st_id := v + stf_num],
              loaded := loaded s + stf_num, deliveries := Suc (deliveries s), out := out s @ [ldr_line st_id stf_num (v + stf_num)]\<rparr>)
   | L_Unlock st_id stf_num \<Rightarrow> Some (s\<lparr>ldr := Draw, st_mtx := (st_mtx s)(st_id := None)\<rparr>))"

text \<open>The main thread after the initialisation: it starts the customers, joins them in order, storing each status,
  cancels the loader and exits, which stops every thread where it is.\<close>

definition main_step :: "shop \<Rightarrow> shop option" where
  "main_step s = (case mpc s of
     Create i \<Rightarrow> if i < CUSTOMER_NUM then Some (s\<lparr>csts := csts s @ [Test], mpc := Create (Suc i)\<rparr>) else Some (s\<lparr>mpc := Join 0\<rparr>)
   | Join i \<Rightarrow>
       if i < CUSTOMER_NUM then
         (if csts s ! i = Gone then (if statuses s then Some (s\<lparr>mpc := Join (Suc i)\<rparr>) else Some (s\<lparr>ub := True\<rparr>)) else None)
       else Some (s\<lparr>mpc := Cancel\<rparr>)
   | Cancel \<Rightarrow> Some (s\<lparr>mpc := Exited\<rparr>)
   | Exited \<Rightarrow> None)"

inductive shop_step :: "shop \<Rightarrow> shop \<Rightarrow> bool" where
  customer: "\<not> ub s \<Longrightarrow> mpc s \<noteq> Exited \<Longrightarrow> cid < length (csts s) \<Longrightarrow> cst_func r1 r2 cid s = Some s' \<Longrightarrow> shop_step s s'"
| loader: "\<not> ub s \<Longrightarrow> mpc s \<noteq> Exited \<Longrightarrow> ldr_func r1 r2 s = Some s' \<Longrightarrow> shop_step s s'"
| main: "\<not> ub s \<Longrightarrow> main_step s = Some s' \<Longrightarrow> shop_step s s'"

text \<open>
  The initialisation, with the random numbers and the results of the four calls of \<^verbatim>\<open>malloc\<close>. A failure of
  the last one goes unnoticed, because it is \<^verbatim>\<open>cst_val\<close> that is tested.
\<close>

fun draw_all :: "string \<Rightarrow> int \<Rightarrow> int \<Rightarrow> nat list \<Rightarrow> nat \<Rightarrow> (int list \<times> event list) option" where
  "draw_all name lo hi [] i = Some ([], [])"
| "draw_all name lo hi (r # rs) i = do {
     v \<leftarrow> get_rand_int r lo hi;
     (vs, es) \<leftarrow> draw_all name lo hi rs (Suc i);
     Some (v # vs, Printf (ln (name @ ''[id = %d]: value = %d'')) [Num (int i), Num v] # es) }"

definition shop_main :: "bool \<Rightarrow> bool \<Rightarrow> bool \<Rightarrow> bool \<Rightarrow> nat list \<Rightarrow> nat list \<Rightarrow> (event list + shop) option" where
  "shop_main m1 m2 m3 m4 rs1 rs2 =
     (if \<not> m1 then Some (Inl [say (ln []), Perror ''malloc''])
      else do {
        (sv, es1) \<leftarrow> draw_all ''Store'' 800 1200 (take STORE_NUM rs1) 0;
        let es = say (ln []) # es1 @ [say (ln [])];
        if \<not> m2 then Some (Inl (es @ [Perror ''malloc'']))
        else do {
          (cv, es2) \<leftarrow> draw_all ''Customer'' 2800 3200 (take CUSTOMER_NUM rs2) 0;
          let es = es @ es2 @ [say (ln [])];
          if \<not> m3 then Some (Inl (es @ [Perror ''malloc'']))
          else
            Some (Inr \<lparr>st_mtx = (\<lambda>_. None), st_val = sv, cst_val = cv, csts = [], ldr = Draw, mpc = Create 0, statuses = m4,
              ub = False, loaded = 0, deliveries = 0,
              out = es @ map (\<lambda>i. Printf (ln ''Store[id = %d]: mutex init successful'') [Num (int i)]) [0 ..< STORE_NUM]\<rparr>) } })"

section \<open>The mutexes\<close>

fun cst_section :: "cst_pc \<Rightarrow> nat option" where
  "cst_section (Clip l n) = Some l" | "cst_section (Load l n) = Some l" | "cst_section (Store l n v) = Some l"
| "cst_section (Pay l n) = Some l" | "cst_section (Unlock l) = Some l"
| "cst_section Test = None" | "cst_section (Lock l n) = None" | "cst_section Gone = None"

fun ldr_section :: "ldr_pc \<Rightarrow> nat option" where
  "ldr_section (L_Load l n) = Some l" | "ldr_section (L_Store l n v) = Some l" | "ldr_section (L_Unlock l n) = Some l"
| "ldr_section Draw = None" | "ldr_section (L_Lock l n) = None"

definition inside :: "shop \<Rightarrow> nat \<Rightarrow> nat \<Rightarrow> bool" where
  "inside s = (\<lambda>i l. case i of 0 \<Rightarrow> ldr_section (ldr s) = Some l
     | Suc c \<Rightarrow> c < length (csts s) \<and> cst_section (csts s ! c) = Some l)"

definition waits :: "shop \<Rightarrow> nat \<Rightarrow> nat option" where
  "waits s i = (case i of 0 \<Rightarrow> (case ldr s of L_Lock l n \<Rightarrow> Some l | _ \<Rightarrow> None)
     | Suc c \<Rightarrow> (case csts s ! c of Lock l n \<Rightarrow> Some l | _ \<Rightarrow> None))"

definition alive :: "shop \<Rightarrow> nat \<Rightarrow> bool" where
  "alive s i = (case i of 0 \<Rightarrow> True | Suc c \<Rightarrow> c < length (csts s) \<and> csts s ! c \<noteq> Gone)"

definition running :: "shop \<Rightarrow> bool" where
  "running s = (\<not> ub s \<and> mpc s \<noteq> Exited)"

lemma get_rand_int_total: "lo \<le> hi \<Longrightarrow> \<exists>v. get_rand_int r lo hi = Some v"
  by (simp add: get_rand_int_def)

lemma get_rand_int_range:
  assumes "get_rand_int r lo hi = Some v"
  shows "lo \<le> v \<and> v \<le> hi"
proof -
  have v: "lo \<le> hi" "v = lo + int r mod (hi - lo + 1)" using assms by (auto simp: get_rand_int_def split: if_splits)
  then have "0 \<le> int r mod (hi - lo + 1)" "int r mod (hi - lo + 1) < hi - lo + 1"
    using pos_mod_bound[of "hi - lo + 1" "int r"] by simp_all
  then show ?thesis using v by linarith
qed

lemma store_inside_same:
  "ldr_section (ldr s') = ldr_section (ldr s) \<Longrightarrow> csts s' = (csts s)[c := p] \<Longrightarrow> c < length (csts s) \<Longrightarrow>
   cst_section p = cst_section (csts s ! c) \<Longrightarrow> inside s' = inside s"
  by (auto simp: inside_def fun_eq_iff nth_list_update split: nat.splits)

lemma cst_func_locks:
  assumes "c < length (csts s)" "cst_func r1 r2 c s = Some s'"
  shows "lock_move (st_mtx s) (inside s) (st_mtx s') (inside s')"
proof (cases "csts s ! c")
  case (Lock l n)
  then have "st_mtx s l = None" "s' = s\<lparr>st_mtx := (st_mtx s)(l := Some (Suc c)), csts := (csts s)[c := Clip l n]\<rparr>"
    using assms(2) by (auto simp: cst_func_def split: if_splits)
  then show ?thesis using assms(1) Lock
    by (intro lock_move_take[where l = l and i = "Suc c"]) (auto simp: inside_def fun_eq_iff nth_list_update split: nat.splits)
next
  case (Unlock l)
  then have "s' = s\<lparr>st_mtx := (st_mtx s)(l := None), csts := (csts s)[c := Test]\<rparr>" using assms(2) by (simp add: cst_func_def)
  then show ?thesis using assms(1) Unlock
    by (intro lock_move_give[where l = l and i = "Suc c"]) (auto simp: inside_def fun_eq_iff nth_list_update split: nat.splits)
qed (use assms in \<open>auto simp: cst_func_def Let_def intro!: lock_move_stay store_inside_same split: if_splits bind_splits\<close>)

lemma ldr_func_locks:
  assumes "ldr_func r1 r2 s = Some s'"
  shows "lock_move (st_mtx s) (inside s) (st_mtx s') (inside s')"
proof (cases "ldr s")
  case (L_Lock l n)
  then have "st_mtx s l = None" "s' = s\<lparr>ldr := L_Load l n, st_mtx := (st_mtx s)(l := Some 0)\<rparr>"
    using assms by (auto simp: ldr_func_def split: if_splits)
  then show ?thesis using L_Lock
    by (intro lock_move_take[where l = l and i = 0]) (auto simp: inside_def fun_eq_iff split: nat.splits)
next
  case (L_Unlock l n)
  then have "s' = s\<lparr>ldr := Draw, st_mtx := (st_mtx s)(l := None)\<rparr>" using assms by (simp add: ldr_func_def)
  then show ?thesis using L_Unlock
    by (intro lock_move_give[where l = l and i = 0]) (auto simp: inside_def fun_eq_iff split: nat.splits)
qed (use assms in \<open>auto simp: ldr_func_def inside_def fun_eq_iff intro!: lock_move_stay split: if_splits bind_splits nat.splits\<close>)

lemma store_main_step_locks: "main_step s = Some s' \<Longrightarrow> st_mtx s' = st_mtx s \<and> inside s' = inside s"
  by (auto simp: main_step_def inside_def fun_eq_iff nth_append split: main_pc.splits if_splits nat.splits)

lemma alive_moves:
  assumes "running s" "alive s i" "\<And>l. waits s i = Some l \<Longrightarrow> st_mtx s l = None"
  shows "\<exists>s'. shop_step s s'"
proof (cases i)
  case 0
  have "\<exists>s'. ldr_func 0 0 s = Some s'" using assms(3) 0
    by (auto simp: ldr_func_def waits_def get_rand_int_def STORE_NUM_def split: ldr_pc.splits)
  then show ?thesis using assms(1) shop_step.loader[of s 0 0] unfolding running_def by blast
next
  case (Suc c)
  have "\<exists>s'. cst_func 0 0 c s = Some s'" using assms(2,3) Suc
    by (auto simp: cst_func_def Let_def alive_def waits_def get_rand_int_def STORE_NUM_def split: cst_pc.splits)
  then show ?thesis using assms(1,2) Suc shop_step.customer[of s c 0 0] unfolding running_def alive_def by auto
qed

interpretation shop: lock_progress shop_step st_mtx inside running waits alive
proof
  show "shop_step s s' \<Longrightarrow> lock_move (st_mtx s) (inside s) (st_mtx s') (inside s')" for s s'
    by (induction rule: shop_step.induct) (auto intro: cst_func_locks ldr_func_locks lock_move_stay dest: store_main_step_locks)
  show "running s \<Longrightarrow> alive s i \<Longrightarrow> waits s i = None \<Longrightarrow> \<exists>s'. shop_step s s'" for s i
    by (rule alive_moves) auto
  show "running s \<Longrightarrow> alive s i \<Longrightarrow> waits s i = Some l \<Longrightarrow> st_mtx s l = None \<Longrightarrow> \<exists>s'. shop_step s s'" for s i l
    by (rule alive_moves) auto
  show "inside s i l \<Longrightarrow> alive s i \<and> waits s i = None" for s i l
    by (auto simp: inside_def alive_def waits_def split: nat.splits cst_pc.splits ldr_pc.splits)
qed

section \<open>The books\<close>

text \<open>Stuff that has left a store and not yet reached its customer's count.\<close>

fun transit :: "cst_pc \<Rightarrow> int" where
  "transit (Pay l n) = n" | "transit _ = 0"

fun cst_ok :: "int list \<Rightarrow> int \<Rightarrow> cst_pc \<Rightarrow> bool" where
  "cst_ok sv w Test = True"
| "cst_ok sv w (Lock l n) = (l < STORE_NUM \<and> 0 \<le> n \<and> n \<le> w)"
| "cst_ok sv w (Clip l n) = (l < STORE_NUM \<and> 0 \<le> n \<and> n \<le> w)"
| "cst_ok sv w (Load l n) = (l < STORE_NUM \<and> 0 \<le> n \<and> n \<le> w \<and> n \<le> sv ! l)"
| "cst_ok sv w (Store l n v) = (l < STORE_NUM \<and> 0 \<le> n \<and> n \<le> w \<and> n \<le> v \<and> v = sv ! l)"
| "cst_ok sv w (Pay l n) = (l < STORE_NUM \<and> 0 \<le> n \<and> n \<le> w)"
| "cst_ok sv w (Unlock l) = (l < STORE_NUM)"
| "cst_ok sv w Gone = (w = 0)"

fun ldr_ok :: "int list \<Rightarrow> ldr_pc \<Rightarrow> bool" where
  "ldr_ok sv Draw = True"
| "ldr_ok sv (L_Lock l n) = (l < STORE_NUM \<and> 0 \<le> n \<and> n \<le> 512)"
| "ldr_ok sv (L_Load l n) = (l < STORE_NUM \<and> 0 \<le> n \<and> n \<le> 512)"
| "ldr_ok sv (L_Store l n v) = (l < STORE_NUM \<and> 0 \<le> n \<and> n \<le> 512 \<and> v = sv ! l)"
| "ldr_ok sv (L_Unlock l n) = (l < STORE_NUM)"

definition balance :: "shop \<Rightarrow> int" where
  "balance s = sum_list (st_val s) - sum_list (cst_val s) + sum_list (map transit (csts s))"

definition books :: "shop \<Rightarrow> shop \<Rightarrow> bool" where
  "books s0 s = (length (st_val s) = STORE_NUM \<and> length (cst_val s) = CUSTOMER_NUM \<and> length (csts s) \<le> CUSTOMER_NUM \<and>
     (\<forall>l < STORE_NUM. 0 \<le> st_val s ! l \<and> st_val s ! l \<le> 1200 + 512 * int (deliveries s)) \<and> (\<forall>c < CUSTOMER_NUM. 0 \<le> cst_val s ! c) \<and>
     (\<forall>c < length (csts s). cst_ok (st_val s) (cst_val s ! c) (csts s ! c)) \<and> ldr_ok (st_val s) (ldr s) \<and>
     balance s = balance s0 + loaded s)"

lemma cst_ok_frame: "cst_section p \<noteq> Some l \<Longrightarrow> cst_ok sv w p \<Longrightarrow> cst_ok (sv[l := x]) w p"
  by (cases p) auto

lemma ldr_ok_frame: "ldr_section p \<noteq> Some l \<Longrightarrow> ldr_ok sv p \<Longrightarrow> ldr_ok (sv[l := x]) p"
  by (cases p) auto

lemma sum_list_upd: "i < length xs \<Longrightarrow> sum_list (xs[i := x]) = sum_list xs + x - (xs ! i :: int)"
  by (induction xs arbitrary: i) (auto split: nat.splits)

text \<open>A store's balance changes only under its mutex, so the other threads' views of it stay right.\<close>

lemma exclusive_views:
  assumes "shop.locked s" "inside s i l" "books s0 s"
  shows "\<forall>c < length (csts s). Suc c \<noteq> i \<longrightarrow> cst_ok ((st_val s)[l := x]) (cst_val s ! c) (csts s ! c)"
    "i \<noteq> 0 \<Longrightarrow> ldr_ok ((st_val s)[l := x]) (ldr s)"
proof -
  have ex: "inside s j l \<Longrightarrow> j = i" for j using shop.exclusive assms(1,2) by blast
  show "\<forall>c < length (csts s). Suc c \<noteq> i \<longrightarrow> cst_ok ((st_val s)[l := x]) (cst_val s ! c) (csts s ! c)"
    using assms(3) ex[of "Suc _"] by (auto simp: books_def inside_def intro!: cst_ok_frame)
  show "i \<noteq> 0 \<Longrightarrow> ldr_ok ((st_val s)[l := x]) (ldr s)"
    using assms(3) ex[of 0] by (auto simp: books_def inside_def intro!: ldr_ok_frame)
qed

lemma books_pc:
  assumes "books s0 s" "c < length (csts s)" "csts s' = (csts s)[c := p]" "st_val s' = st_val s" "cst_val s' = cst_val s"
    "ldr s' = ldr s" "loaded s' = loaded s" "deliveries s' = deliveries s" "transit p = transit (csts s ! c)"
    "cst_ok (st_val s) (cst_val s ! c) p"
  shows "books s0 s'"
  using assms by (auto simp: books_def balance_def nth_list_update map_update sum_list_upd)

lemma cst_func_books:
  assumes "books s0 s" "shop.locked s" "c < length (csts s)" "cst_func r1 r2 c s = Some s'"
  shows "books s0 s'"
proof -
  have ok: "cst_ok (st_val s) (cst_val s ! c) (csts s ! c)" and c: "c < CUSTOMER_NUM" "c < length (cst_val s)" "0 \<le> cst_val s ! c"
    using assms(1,3) by (auto simp: books_def)
  show ?thesis
  proof (cases "csts s ! c")
    case Test
    show ?thesis
    proof (cases "cst_val s ! c > 0")
      case True
      then obtain v w where v: "get_rand_int r1 0 (int STORE_NUM - 1) = Some v" "get_rand_int r2 0 512 = Some w"
        "s' = s\<lparr>csts := (csts s)[c := Lock (nat v) (if cst_val s ! c - w \<ge> 0 then w else cst_val s ! c)]\<rparr>"
        using assms(4) Test by (auto simp: cst_func_def Let_def split: bind_splits)
      show ?thesis by (rule books_pc[OF assms(1,3)])
        (use v Test c get_rand_int_range[OF v(1)] get_rand_int_range[OF v(2)] in \<open>auto simp: STORE_NUM_def\<close>)
    next
      case False
      then show ?thesis using assms(4) Test c by (intro books_pc[OF assms(1,3), of s' Gone]) (auto simp: cst_func_def Let_def)
    qed
  next
    case (Lock l n)
    then show ?thesis using assms(4) ok
      by (intro books_pc[OF assms(1,3), of s' "Clip l n"]) (auto simp: cst_func_def Let_def split: if_splits)
  next
    case (Clip l n)
    then show ?thesis using assms(1,4) ok
      by (intro books_pc[OF assms(1,3), of s' "Load l (if st_val s ! l - n \<ge> 0 then n else st_val s ! l)"]) (auto simp: cst_func_def Let_def books_def)
  next
    case (Load l n)
    then show ?thesis using assms(4) ok by (intro books_pc[OF assms(1,3), of s' "Store l n (st_val s ! l)"]) (auto simp: cst_func_def Let_def)
  next
    case (Store l n v)
    then have s': "s' = s\<lparr>st_val := (st_val s)[l := v - n], csts := (csts s)[c := Pay l n]\<rparr>" and i: "inside s (Suc c) l"
      using assms(3,4) by (auto simp: cst_func_def Let_def inside_def)
    show ?thesis using assms(1,3) s' Store ok c exclusive_views[OF assms(2) i assms(1), of "v - n"]
      by (auto simp: books_def balance_def nth_list_update map_update sum_list_upd)
  next
    case (Pay l n)
    then show ?thesis using assms(1,3,4) ok c
      by (auto simp: cst_func_def Let_def books_def balance_def nth_list_update map_update sum_list_upd)
  next
    case (Unlock l)
    then show ?thesis using assms(4) by (intro books_pc[OF assms(1,3), of s' Test]) (auto simp: cst_func_def Let_def)
  next
    case Gone
    then show ?thesis using assms(4) by (simp add: cst_func_def)
  qed
qed

lemma ldr_func_books:
  assumes "books s0 s" "shop.locked s" "ldr_func r1 r2 s = Some s'"
  shows "books s0 s'"
proof (cases "ldr s")
  case Draw
  then show ?thesis using assms(1,3) get_rand_int_range[of r1 0 "int STORE_NUM - 1"] get_rand_int_range[of r2 0 512]
    by (fastforce simp: ldr_func_def books_def balance_def STORE_NUM_def split: bind_splits)
next
  case (L_Store l n v)
  then have i: "inside s 0 l" by (simp add: inside_def)
  have b: "length (st_val s) = STORE_NUM" "\<forall>l < STORE_NUM. 0 \<le> st_val s ! l \<and> st_val s ! l \<le> 1200 + 512 * int (deliveries s)"
    "l < STORE_NUM" "0 \<le> n" "n \<le> 512" "v = st_val s ! l" using assms(1) L_Store by (auto simp: books_def)
  show ?thesis
  proof (cases "v + n > 2147483647")
    case True
    then show ?thesis using assms(1,3) L_Store by (auto simp: ldr_func_def books_def balance_def)
  next
    case False
    then have s': "st_val s' = (st_val s)[l := v + n]" "cst_val s' = cst_val s" "csts s' = csts s" "ldr s' = L_Unlock l n"
      "loaded s' = loaded s + n" "deliveries s' = Suc (deliveries s)" using assms(3) L_Store by (auto simp: ldr_func_def)
    have "0 \<le> st_val s' ! k \<and> st_val s' ! k \<le> 1200 + 512 * int (deliveries s')" if "k < STORE_NUM" for k
      using b that s'(1,6) by (cases "k = l") auto
    then show ?thesis using assms(1) s' b exclusive_views(1)[OF assms(2) i assms(1), of "v + n"]
      by (auto simp: books_def balance_def sum_list_upd)
  qed
qed (use assms in \<open>auto simp: ldr_func_def books_def balance_def split: if_splits\<close>)

lemma main_step_books:
  assumes "books s0 s" "main_step s = Some s'" "\<And>i. mpc s = Create i \<Longrightarrow> length (csts s) = i"
  shows "books s0 s'"
  using assms by (auto simp: main_step_def books_def balance_def nth_append less_Suc_eq split: main_pc.splits if_splits)

section \<open>Reachable states\<close>

definition all_gone :: "shop \<Rightarrow> bool" where
  "all_gone s = (length (csts s) = CUSTOMER_NUM \<and> (\<forall>c < CUSTOMER_NUM. csts s ! c = Gone))"

definition shop_inv :: "shop \<Rightarrow> shop \<Rightarrow> bool" where
  "shop_inv s0 s = (shop.locked s \<and> books s0 s \<and> statuses s = statuses s0 \<and> (ub s \<longrightarrow> \<not> statuses s0 \<or> deliveries s > 4194300) \<and>
     (case mpc s of Create i \<Rightarrow> length (csts s) = i \<and> i \<le> CUSTOMER_NUM
      | Join i \<Rightarrow> length (csts s) = CUSTOMER_NUM \<and> i \<le> CUSTOMER_NUM \<and> (\<forall>j < i. csts s ! j = Gone)
      | _ \<Rightarrow> all_gone s))"

lemma cst_func_frame:
  "c < length (csts s) \<Longrightarrow> cst_func r1 r2 c s = Some s' \<Longrightarrow> mpc s' = mpc s \<and> statuses s' = statuses s \<and> ub s' = ub s \<and> deliveries s' = deliveries s \<and>
   csts s ! c \<noteq> Gone \<and> (\<exists>p. csts s' = (csts s)[c := p])"
  by (auto simp: cst_func_def Let_def split: cst_pc.splits if_splits bind_splits)

lemma ldr_func_frame:
  "ldr_func r1 r2 s = Some s' \<Longrightarrow> mpc s' = mpc s \<and> statuses s' = statuses s \<and> csts s' = csts s \<and> deliveries s \<le> deliveries s' \<and>
   (ub s' \<longrightarrow> ub s \<or> (\<exists>l n v. ldr s = L_Store l n v \<and> v + n > 2147483647))"
  by (auto simp: ldr_func_def split: ldr_pc.splits if_splits bind_splits)

lemma overflow_late:
  assumes "books s0 s" "ldr s = L_Store l n v" "v + n > 2147483647"
  shows "deliveries s > 4194300"
proof -
  have "v \<le> 1200 + 512 * int (deliveries s)" "n \<le> 512" using assms(1,2) by (auto simp: books_def)
  then have "2147483647 < 1712 + 512 * int (deliveries s)" using assms(3) by linarith
  then show ?thesis by linarith
qed

lemma shop_step_inv: "shop_step s s' \<Longrightarrow> shop_inv s0 s \<Longrightarrow> shop_inv s0 s'"
proof (induction rule: shop_step.induct)
  case (customer s c r1 r2 s')
  have f: "mpc s' = mpc s" "statuses s' = statuses s" "ub s' = ub s" "deliveries s' = deliveries s" "csts s ! c \<noteq> Gone"
    "\<exists>p. csts s' = (csts s)[c := p]" using cst_func_frame[OF customer(3,4)] by auto
  have "shop.locked s'" using shop.locked_step[OF shop_step.customer[OF customer(1-4)]] customer(5) by (auto simp: shop_inv_def)
  moreover have "books s0 s'" using cst_func_books[OF _ _ customer(3,4)] customer(5) by (auto simp: shop_inv_def)
  moreover have "csts s ! j = Gone \<Longrightarrow> csts s' ! j = Gone" for j using f(5,6) by (cases "j = c") auto
  ultimately show ?case using customer(5) f
    by (auto simp: shop_inv_def all_gone_def split: main_pc.splits)
next
  case (loader s r1 r2 s')
  have l: "shop.locked s'" using shop.locked_step[OF shop_step.loader[OF loader(1-3)]] loader(4) by (auto simp: shop_inv_def)
  have b: "books s0 s'" using ldr_func_books[OF _ _ loader(3)] loader(4) by (auto simp: shop_inv_def)
  have "ub s' \<Longrightarrow> deliveries s' > 4194300"
    using ldr_func_frame[OF loader(3)] loader(1,4) overflow_late[of s0 s] by (auto simp: shop_inv_def)
  then show ?case using l b loader(4) ldr_func_frame[OF loader(3)] by (auto simp: shop_inv_def all_gone_def split: main_pc.splits)
next
  case (main s s')
  have "shop.locked s'" using shop.locked_step[OF shop_step.main[OF main(1,2)]] main(3) by (auto simp: shop_inv_def)
  moreover have "books s0 s'" by (rule main_step_books[OF _ main(2)]) (use main(3) in \<open>auto simp: shop_inv_def\<close>)
  ultimately show ?case using main
    by (auto simp: shop_inv_def main_step_def all_gone_def less_Suc_eq split: main_pc.splits if_splits)
qed

interpretation books: step_invariant shop_step "shop_inv s0" for s0
  by unfold_locales (rule shop_step_inv)

lemma draw_all_range:
  "draw_all name lo hi rs i = Some (vs, es) \<Longrightarrow> length vs = length rs \<and> (\<forall>v \<in> set vs. lo \<le> v \<and> v \<le> hi)"
  by (induction rs arbitrary: i vs es) (auto split: bind_splits dest: get_rand_int_range)

lemma shop_main_inv:
  assumes "shop_main m1 m2 m3 m4 rs1 rs2 = Some (Inr s0)" "STORE_NUM \<le> length rs1" "CUSTOMER_NUM \<le> length rs2"
  shows "shop_inv s0 s0 \<and> statuses s0 = m4 \<and> loaded s0 = 0"
proof -
  obtain sv es1 cv es2 where d: "draw_all ''Store'' 800 1200 (take STORE_NUM rs1) 0 = Some (sv, es1)"
    "draw_all ''Customer'' 2800 3200 (take CUSTOMER_NUM rs2) 0 = Some (cv, es2)" "st_val s0 = sv" "cst_val s0 = cv" "csts s0 = []"
    "ldr s0 = Draw" "mpc s0 = Create 0" "statuses s0 = m4" "\<not> ub s0" "loaded s0 = 0" "deliveries s0 = 0" "st_mtx s0 = (\<lambda>_. None)"
    using assms(1) by (auto simp: shop_main_def Let_def split: bind_splits if_splits)
  have len: "length sv = STORE_NUM" "length cv = CUSTOMER_NUM"
    using draw_all_range[OF d(1)] draw_all_range[OF d(2)] assms(2,3) by simp_all
  have "0 \<le> sv ! l \<and> sv ! l \<le> 1200" if "l < STORE_NUM" for l
    using draw_all_range[OF d(1)] nth_mem[of l sv] len(1) that by fastforce
  moreover have "0 \<le> cv ! c" if "c < CUSTOMER_NUM" for c
    using draw_all_range[OF d(2)] nth_mem[of c cv] len(2) that by fastforce
  moreover note len
  ultimately show ?thesis using d by (auto simp: shop_inv_def books_def shop.locked_def inside_def split: nat.splits)
qed

text \<open>C10: The books of the store program balance. From every start it can make, in whatever order the customers,
  the loader and the main thread run: no two threads are inside the same store; no store's balance and no
  customer's remaining need is ever negative; what is in the stores and on the way to a customer is what was
  there at the start, plus what the loader brought, less what the customers have received. When the
  program exits, every customer has received exactly what it needed. While the program runs some thread can
  go on, and for the first 4194300 deliveries no balance overflows, unless the last allocation had failed.\<close>
theorem store_books_balance:
  assumes "shop_main m1 m2 m3 m4 rs1 rs2 = Some (Inr s0)" "STORE_NUM \<le> length rs1" "CUSTOMER_NUM \<le> length rs2" "shop_step\<^sup>*\<^sup>* s0 s"
  shows "(\<forall>i j l. inside s i l \<and> inside s j l \<longrightarrow> i = j) \<and>
    (\<forall>l < STORE_NUM. 0 \<le> st_val s ! l) \<and> (\<forall>c < CUSTOMER_NUM. 0 \<le> cst_val s ! c) \<and>
    sum_list (st_val s) + sum_list (map transit (csts s)) = sum_list (st_val s0) + loaded s - (sum_list (cst_val s0) - sum_list (cst_val s)) \<and>
    (mpc s = Exited \<longrightarrow> cst_val s = [0, 0, 0] \<and> sum_list (st_val s) = sum_list (st_val s0) + loaded s - sum_list (cst_val s0)) \<and>
    (running s \<longrightarrow> (\<exists>s'. shop_step s s')) \<and> (ub s \<longrightarrow> \<not> m4 \<or> deliveries s > 4194300)"
proof -
  have s0: "shop_inv s0 s0" "statuses s0 = m4" "loaded s0 = 0" "csts s0 = []" using shop_main_inv[OF assms(1-3)] assms(1)
    by (auto simp: shop_main_def Let_def split: bind_splits if_splits)
  have inv: "shop_inv s0 s" using books.reach assms(4) s0(1) by blast
  then have lk: "shop.locked s" and b: "books s0 s" by (auto simp: shop_inv_def)
  have bal: "sum_list (st_val s) - sum_list (cst_val s) + sum_list (map transit (csts s)) = sum_list (st_val s0) - sum_list (cst_val s0) + loaded s"
    using b s0(4) by (simp add: books_def balance_def)
  have "cst_val s = [0, 0, 0]" "map transit (csts s) = [0, 0, 0]" if "mpc s = Exited"
  proof -
    have "all_gone s" using inv that by (auto simp: shop_inv_def)
    then have "csts s = replicate CUSTOMER_NUM Gone" "cst_val s = replicate CUSTOMER_NUM 0" using b
      by (auto simp: all_gone_def books_def intro!: nth_equalityI)
    then show "cst_val s = [0, 0, 0]" "map transit (csts s) = [0, 0, 0]" by (simp_all add: CUSTOMER_NUM_def numeral_3_eq_3)
  qed
  moreover have "running s \<Longrightarrow> \<exists>s'. shop_step s s'" using shop.no_deadlock[OF lk, of 0] by (simp add: alive_def)
  ultimately show ?thesis using bal b inv s0(2) shop.exclusive[OF lk] by (auto simp: books_def shop_inv_def)
qed

theorem store_books_balance_witness:
  "\<exists>s0. shop_main True True True True [0, 1, 2, 3, 4] [7, 8, 9] = Some (Inr s0) \<and> (\<exists>s'. shop_step s0 s')"
proof -
  obtain s0 where s: "shop_main True True True True [0, 1, 2, 3, 4] [7, 8, 9] = Some (Inr s0)" "running s0"
    by (simp add: shop_main_def STORE_NUM_def CUSTOMER_NUM_def get_rand_int_def Let_def running_def numeral_3_eq_3 numeral_eq_Suc)
  show ?thesis using store_books_balance[OF s(1) _ _ rtranclp.rtrancl_refl] s by (simp add: STORE_NUM_def CUSTOMER_NUM_def)
qed

end
