(* ===== verification/Thread_Data.thy ===== *)
theory Thread_Data
  imports C_Output
begin

text \<open>
  Thread-specific buffers: \<^verbatim>\<open>print_n\<close> of \<^verbatim>\<open>src/safe_pthread\<close>, and \<^verbatim>\<open>get_cur_dt\<close>, which \<^verbatim>\<open>src/queue_chat\<close> and
  \<^verbatim>\<open>src/udp_highload_server\<close> have. Both give each thread a buffer of its own on its first call and print into it; the
  destructor of the key frees it when the thread ends. The locale \<open>thread_local\<close> is the contract of such a
  function, and that calls of different threads do not disturb each other, one call after the other, is proved
  from it once. (\<open>Safe_Threads\<close> has the program \<^verbatim>\<open>src/safe_pthread\<close> with the steps of the calls interleaved.)

  \<open>malloc\<close> is an argument: its result, or a function of the set of blocks in use. \<^verbatim>\<open>NULL\<close> as the buffer printed to
  gives \<open>None\<close>.
\<close>

section \<open>Buffers\<close>

record tsd =
  key_made :: bool
  specific :: "nat \<Rightarrow> addr"
  bufs :: "addr \<Rightarrow> string option"

definition malloc_ok :: "(addr set \<Rightarrow> addr) \<Rightarrow> bool" where
  "malloc_ok malloc = (\<forall>A. finite A \<longrightarrow> malloc A \<notin> A \<and> malloc A \<noteq> NULL)"

definition make_key :: "tsd \<Rightarrow> tsd" where
  "make_key st = st\<lparr>key_made := True\<rparr>"

text \<open>The buffer of thread \<open>t\<close>, allocated on the first call; \<open>buf\<close> is what \<^verbatim>\<open>malloc\<close> then returns.\<close>

definition own_buffer :: "addr \<Rightarrow> nat \<Rightarrow> tsd \<Rightarrow> addr \<times> tsd" where
  "own_buffer buf t st =
     (if specific st t = NULL then
        (buf, st\<lparr>specific := (specific st)(t := buf), bufs := (if buf = NULL then bufs st else (bufs st)(buf \<mapsto> []))\<rparr>)
      else (specific st t, st))"

text \<open>\<^verbatim>\<open>snprintf\<close> or \<^verbatim>\<open>strftime\<close> into the buffer.\<close>

definition put_text :: "addr \<Rightarrow> string \<Rightarrow> tsd \<Rightarrow> tsd option" where
  "put_text buf str st = (if bufs st buf = None then None else Some (st\<lparr>bufs := (bufs st)(buf \<mapsto> str)\<rparr>))"

definition int_str :: "int \<Rightarrow> string" where
  "int_str n = (if n < 0 then CHR ''-'' # dec_str (nat (- n)) else dec_str (nat n))"

text \<open>\<^verbatim>\<open>print_n\<close>; \<open>ptr\<close> is how \<^verbatim>\<open>printf\<close> shows an address.\<close>

definition n_text :: "(addr \<Rightarrow> string) \<Rightarrow> int \<Rightarrow> addr \<Rightarrow> string" where
  "n_text ptr n buf = take 79 (ln (''num: '' @ int_str n @ '' ('' @ ptr buf @ '')''))"

definition print_n :: "addr \<Rightarrow> (addr \<Rightarrow> string) \<Rightarrow> int \<Rightarrow> nat \<Rightarrow> tsd \<Rightarrow> (addr \<times> tsd) option" where
  "print_n new ptr n t st = (let (buf, st) = own_buffer new t (make_key st) in do {
     st \<leftarrow> put_text buf (n_text ptr n buf) st;
     Some (buf, st) })"

text \<open>\<^verbatim>\<open>get_cur_dt\<close>, with the results of \<^verbatim>\<open>pthread_once\<close> and \<^verbatim>\<open>pthread_setspecific\<close> and the time as text
  (20 characters with the format the programs use, well below the 63 that fit). \<open>Inl\<close> is the message with
  which the thread ends; a block allocated before stays allocated.\<close>

definition get_cur_dt :: "addr \<Rightarrow> int \<Rightarrow> int \<Rightarrow> string \<Rightarrow> nat \<Rightarrow> tsd \<Rightarrow> ((event + addr) \<times> tsd) option" where
  "get_cur_dt new once_rtn set_rtn now t st =
     (if once_rtn \<noteq> 0 then Some (Inl (Perror ''pthread_once''), st)
      else let st = make_key st in
      if specific st t = NULL \<and> set_rtn \<noteq> 0 then Some (Inl (Perror ''pthread_setspecific''), if new = NULL then st else st\<lparr>bufs := (bufs st)(new \<mapsto> [])\<rparr>)
      else let (dt, st) = own_buffer new t st in do {
        st \<leftarrow> put_text dt (take 63 now) st;
        Some (Inr dt, st) })"

definition cur_dt :: "addr \<Rightarrow> string \<Rightarrow> nat \<Rightarrow> tsd \<Rightarrow> (addr \<times> tsd) option" where
  "cur_dt new now t st = (case get_cur_dt new 0 0 now t st of
     Some (Inr dt, st) \<Rightarrow> Some (dt, st) | _ \<Rightarrow> None)"

text \<open>The destructor runs when a thread with a buffer ends.\<close>

definition dest :: "nat \<Rightarrow> tsd \<Rightarrow> tsd" where
  "dest t st = (if specific st t = NULL then st
     else st\<lparr>specific := (specific st)(t := NULL), bufs := (bufs st)(specific st t := None)\<rparr>)"

definition no_tsd :: tsd where
  "no_tsd = \<lparr>key_made = False, specific = (\<lambda>_. NULL), bufs = (\<lambda>_. None)\<rparr>"

section \<open>The contract\<close>

text \<open>Every buffer that a thread has is allocated, and no two threads have the same one.\<close>

definition tsd_ok :: "tsd \<Rightarrow> bool" where
  "tsd_ok st = (finite (dom (bufs st)) \<and> bufs st NULL = None \<and> (\<forall>t. specific st t \<noteq> NULL \<longrightarrow> bufs st (specific st t) \<noteq> None) \<and>
     (\<forall>t u. specific st t = specific st u \<and> specific st t \<noteq> NULL \<longrightarrow> t = u))"

text \<open>What thread \<open>u\<close> sees of its buffer.\<close>

definition own_text :: "tsd \<Rightarrow> nat \<Rightarrow> string option" where
  "own_text st u = (if specific st u = NULL then None else bufs st (specific st u))"

lemma tsd_okI:
  "finite (dom (bufs st)) \<Longrightarrow> bufs st NULL = None \<Longrightarrow> (\<And>t. specific st t \<noteq> NULL \<Longrightarrow> bufs st (specific st t) \<noteq> None) \<Longrightarrow>
   (\<And>t u. specific st t = specific st u \<Longrightarrow> specific st t \<noteq> NULL \<Longrightarrow> t = u) \<Longrightarrow> tsd_ok st"
  unfolding tsd_ok_def by blast

lemma tsd_okD:
  assumes "tsd_ok st"
  shows "finite (dom (bufs st))" "bufs st NULL = None" "specific st t \<noteq> NULL \<Longrightarrow> bufs st (specific st t) \<noteq> None"
    "specific st t = specific st u \<Longrightarrow> specific st t \<noteq> NULL \<Longrightarrow> t = u"
  using assms unfolding tsd_ok_def by blast+

lemma other_buffer: "tsd_ok st \<Longrightarrow> u \<noteq> t \<Longrightarrow> specific st t \<noteq> NULL \<Longrightarrow> specific st u \<noteq> specific st t"
  using tsd_okD(4) by metis

lemma dest_ok:
  assumes "tsd_ok st"
  shows "tsd_ok (dest t st)"
    "u \<noteq> t \<Longrightarrow> specific (dest t st) u = specific st u \<and> own_text (dest t st) u = own_text st u"
proof -
  show "u \<noteq> t \<Longrightarrow> specific (dest t st) u = specific st u \<and> own_text (dest t st) u = own_text st u"
    using other_buffer[OF assms, of u t] by (simp add: dest_def own_text_def)
  show "tsd_ok (dest t st)"
  proof (cases "specific st t = NULL")
    case False
    show ?thesis
    proof (rule tsd_okI)
      show "finite (dom (bufs (dest t st)))" "bufs (dest t st) NULL = None" using False tsd_okD(1,2)[OF assms] by (simp_all add: dest_def)
      show "bufs (dest t st) (specific (dest t st) v) \<noteq> None" if "specific (dest t st) v \<noteq> NULL" for v
        using that False tsd_okD(3)[OF assms, of v] other_buffer[OF assms, of v t] by (cases "v = t") (simp_all add: dest_def)
      show "v = w" if "specific (dest t st) v = specific (dest t st) w" "specific (dest t st) v \<noteq> NULL" for v w
        using that False tsd_okD(4)[OF assms, of v w] by (cases "v = t"; cases "w = t") (simp_all add: dest_def)
    qed
  qed (use assms in \<open>simp add: dest_def\<close>)
qed

text \<open>What \<^verbatim>\<open>malloc\<close> promises for a call by thread \<open>t\<close>.\<close>

definition new_ok :: "addr \<Rightarrow> nat \<Rightarrow> tsd \<Rightarrow> bool" where
  "new_ok new t st = (specific st t = NULL \<longrightarrow> new \<noteq> NULL \<and> bufs st new = None)"

lemma own_buffer_ok:
  assumes "tsd_ok st" "new_ok new t st" "own_buffer new t st = (b, st')"
  shows "tsd_ok st' \<and> specific st' t = b \<and> b \<noteq> NULL \<and> bufs st' b \<noteq> None \<and>
    (\<forall>u. u \<noteq> t \<longrightarrow> specific st' u = specific st u \<and> own_text st' u = own_text st u)"
proof (cases "specific st t = NULL")
  case True
  then have n: "new \<noteq> NULL" "bufs st new = None" using assms(2) by (simp_all add: new_ok_def)
  then have u: "specific st u \<noteq> new" for u using tsd_okD(3)[OF assms(1), of u] by metis
  have st': "b = new" "st' = st\<lparr>specific := (specific st)(t := new), bufs := (bufs st)(new \<mapsto> [])\<rparr>"
    using assms(3) True n by (auto simp: own_buffer_def)
  have "tsd_ok st'"
  proof (rule tsd_okI)
    show "finite (dom (bufs st'))" "bufs st' NULL = None" using n tsd_okD(1,2)[OF assms(1)] by (simp_all add: st'(2))
    show "bufs st' (specific st' v) \<noteq> None" if "specific st' v \<noteq> NULL" for v
      using that tsd_okD(3)[OF assms(1), of v] by (simp add: st'(2) split: if_splits)
    show "v = w" if "specific st' v = specific st' w" "specific st' v \<noteq> NULL" for v w
      using that u[of v] u[of w] tsd_okD(4)[OF assms(1), of v w] by (simp add: st'(2) split: if_splits)
  qed
  then show ?thesis using n u by (simp add: st' own_text_def)
next
  case False
  then show ?thesis using assms(1,3) tsd_okD(3)[OF assms(1) False] by (auto simp: own_buffer_def)
qed

lemma put_text_ok:
  assumes "tsd_ok st" "bufs st b \<noteq> None" "specific st t = b" "b \<noteq> NULL"
  shows "\<exists>st'. put_text b str st = Some st' \<and> tsd_ok st' \<and> specific st' = specific st \<and> own_text st' t = Some str \<and>
    (\<forall>u. u \<noteq> t \<longrightarrow> own_text st' u = own_text st u)"
proof -
  let ?st = "st\<lparr>bufs := (bufs st)(b \<mapsto> str)\<rparr>"
  have "tsd_ok ?st"
  proof (rule tsd_okI)
    show "finite (dom (bufs ?st))" "bufs ?st NULL = None" using assms(4) tsd_okD(1,2)[OF assms(1)] by simp_all
    show "bufs ?st (specific ?st v) \<noteq> None" if "specific ?st v \<noteq> NULL" for v using that tsd_okD(3)[OF assms(1), of v] by simp
    show "v = w" if "specific ?st v = specific ?st w" "specific ?st v \<noteq> NULL" for v w using that tsd_okD(4)[OF assms(1), of v w] by simp
  qed
  moreover have "own_text ?st u = own_text st u" if "u \<noteq> t" for u
    using other_buffer[OF assms(1) that] assms(3,4) by (simp add: own_text_def)
  ultimately show ?thesis using assms(2-4) by (simp add: put_text_def own_text_def)
qed

datatype 'a act = Say 'a | Leave

locale thread_local =
  fixes call :: "addr \<Rightarrow> 'a \<Rightarrow> nat \<Rightarrow> tsd \<Rightarrow> (addr \<times> tsd) option" and txt_of :: "'a \<Rightarrow> addr \<Rightarrow> string"
  assumes call_ok: "tsd_ok st \<Longrightarrow> new_ok new t st \<Longrightarrow> returns (call new x t st) (\<lambda>b st'. tsd_ok st' \<and> specific st' t = b \<and> b \<noteq> NULL \<and>
      own_text st' t = Some (txt_of x b) \<and> (\<forall>u. u \<noteq> t \<longrightarrow> specific st' u = specific st u \<and> own_text st' u = own_text st u))"
begin

fun acts :: "(addr set \<Rightarrow> addr) \<Rightarrow> (nat \<times> 'a act) list \<Rightarrow> tsd \<Rightarrow> tsd option" where
  "acts malloc [] st = Some st"
| "acts malloc ((t, Say x) # as) st = do { (b, st) \<leftarrow> call (malloc (dom (bufs st))) x t st; acts malloc as st }"
| "acts malloc ((t, Leave) # as) st = acts malloc as (dest t st)"

lemma malloc_new: "malloc_ok malloc \<Longrightarrow> tsd_ok st \<Longrightarrow> new_ok (malloc (dom (bufs st))) t st"
  using tsd_okD(1) by (auto simp: malloc_ok_def new_ok_def)

text \<open>Whatever the threads do, in any order, nothing fails, and a thread's buffer changes only by its own actions.\<close>

lemma acts_keep:
  assumes "malloc_ok malloc"
  shows "tsd_ok st \<Longrightarrow> \<exists>st'. acts malloc as st = Some st' \<and> tsd_ok st' \<and>
     (\<forall>u. u \<notin> fst ` set as \<longrightarrow> specific st' u = specific st u \<and> own_text st' u = own_text st u)"
proof (induction as arbitrary: st)
  case (Cons a as)
  obtain t x where a: "a = (t, x)" by fastforce
  show ?case
  proof (cases x)
    case (Say y)
    obtain b st1 where c: "call (malloc (dom (bufs st))) y t st = Some (b, st1)" "tsd_ok st1"
      "\<forall>u. u \<noteq> t \<longrightarrow> specific st1 u = specific st u \<and> own_text st1 u = own_text st u"
      using call_ok[OF Cons.prems malloc_new[OF assms Cons.prems], of y t] by (auto elim!: returnsE)
    from Cons.IH[OF c(2)] show ?thesis using c a Say by auto
  next
    case Leave
    from Cons.IH[OF dest_ok(1)[OF Cons.prems, of t]] show ?thesis using a Leave dest_ok(2)[OF Cons.prems, of _ t] by auto
  qed
qed simp

lemma acts_append: "acts malloc (as @ bs) st = Option.bind (acts malloc as st) (acts malloc bs)"
proof (induction as arbitrary: st)
  case (Cons a as)
  then show ?case by (cases a; cases "snd a") (auto split: bind_splits)
qed simp

lemma isolated:
  assumes "malloc_ok malloc" "tsd_ok st" "t \<notin> fst ` set bs"
  shows "\<exists>st'. acts malloc (as @ (t, Say x) # bs) st = Some st' \<and> tsd_ok st' \<and> own_text st' t = Some (txt_of x (specific st' t))"
proof -
  obtain st1 where 1: "acts malloc as st = Some st1" "tsd_ok st1" using acts_keep[OF assms(1,2), of as] by blast
  obtain b st2 where 2: "call (malloc (dom (bufs st1))) x t st1 = Some (b, st2)" "tsd_ok st2" "specific st2 t = b" "own_text st2 t = Some (txt_of x b)"
    using call_ok[OF 1(2) malloc_new[OF assms(1) 1(2)], of x t] by (auto elim!: returnsE)
  obtain st3 where "acts malloc bs st2 = Some st3" "tsd_ok st3" "specific st3 t = specific st2 t" "own_text st3 t = own_text st2 t"
    using acts_keep[OF assms(1) 2(2), of bs] assms(3) by blast
  then show ?thesis using 1 2 by (simp add: acts_append)
qed

end

lemma make_key_ok [simp]:
  "tsd_ok (make_key st) = tsd_ok st" "specific (make_key st) = specific st" "own_text (make_key st) = own_text st"
  "new_ok new t (make_key st) = new_ok new t st"
  by (auto simp: make_key_def tsd_ok_def own_text_def new_ok_def fun_eq_iff)

lemma buffer_text_ok:
  assumes "tsd_ok st" "new_ok new t st" "own_buffer new t (make_key st) = (b, st1)"
  shows "\<exists>st'. put_text b str st1 = Some st' \<and> tsd_ok st' \<and> specific st' t = b \<and> b \<noteq> NULL \<and> own_text st' t = Some str \<and>
    (\<forall>u. u \<noteq> t \<longrightarrow> specific st' u = specific st u \<and> own_text st' u = own_text st u)"
proof -
  have o: "tsd_ok st1" "specific st1 t = b" "b \<noteq> NULL" "bufs st1 b \<noteq> None"
    "\<forall>u. u \<noteq> t \<longrightarrow> specific st1 u = specific st u \<and> own_text st1 u = own_text st u"
    using own_buffer_ok[OF _ _ assms(3)] assms(1,2) by auto
  from put_text_ok[OF o(1,4,2,3), of str] obtain st' where "put_text b str st1 = Some st'" "tsd_ok st'" "specific st' = specific st1"
    "own_text st' t = Some str" "\<forall>u. u \<noteq> t \<longrightarrow> own_text st' u = own_text st1 u" by blast
  then show ?thesis using o by simp
qed

interpretation print_n: thread_local "\<lambda>new n t st. print_n new ptr n t st" "n_text ptr" for ptr
proof
  fix st new x t assume ok: "tsd_ok st" "new_ok new t st"
  obtain b st1 where o: "own_buffer new t (make_key st) = (b, st1)" by fastforce
  from buffer_text_ok[OF ok o, of "n_text ptr x b"] o
  show "returns (print_n new ptr x t st) (\<lambda>b st'. tsd_ok st' \<and> specific st' t = b \<and> b \<noteq> NULL \<and>
      own_text st' t = Some (n_text ptr x b) \<and> (\<forall>u. u \<noteq> t \<longrightarrow> specific st' u = specific st u \<and> own_text st' u = own_text st u))"
    by (auto simp: print_n_def)
qed

interpretation cur_dt: thread_local cur_dt "\<lambda>now _. take 63 now"
proof
  fix st new t and x :: string assume ok: "tsd_ok st" "new_ok new t st"
  obtain b st1 where o: "own_buffer new t (make_key st) = (b, st1)" by fastforce
  from buffer_text_ok[OF ok o, of "take 63 x"] o
  show "returns (cur_dt new x t st) (\<lambda>b st'. tsd_ok st' \<and> specific st' t = b \<and> b \<noteq> NULL \<and>
      own_text st' t = Some (take 63 x) \<and> (\<forall>u. u \<noteq> t \<longrightarrow> specific st' u = specific st u \<and> own_text st' u = own_text st u))"
    by (auto simp: cur_dt_def get_cur_dt_def Let_def)
qed

section \<open>Properties\<close>

lemma no_tsd_ok: "tsd_ok no_tsd"
  by (simp add: no_tsd_def tsd_ok_def)

text \<open>An allocator that keeps what \<^verbatim>\<open>malloc\<close> promises.\<close>

definition next_block :: "addr set \<Rightarrow> addr" where
  "next_block A = Suc (Max (insert 0 A))"

lemma next_block_ok: "malloc_ok next_block"
proof -
  have "next_block A \<notin> A" if "finite A" for A :: "addr set"
  proof
    assume "next_block A \<in> A"
    then have "next_block A \<le> Max (insert 0 A)" using that by (intro Max_ge) auto
    then show False by (simp add: next_block_def)
  qed
  then show ?thesis by (simp add: malloc_ok_def next_block_def)
qed

text \<open>Threads that use \<^verbatim>\<open>get_cur_dt\<close> and end, in any order: each sees in its buffer the time it asked for last.\<close>
theorem get_cur_dt_isolated:
  assumes "malloc_ok malloc" "t \<notin> fst ` set bs"
  shows "\<exists>st. cur_dt.acts malloc (as @ (t, Say now) # bs) no_tsd = Some st \<and> own_text st t = Some (take 63 now)"
  using cur_dt.isolated[OF assms(1) no_tsd_ok assms(2)] by blast

end
