(* ===== verification/Safe_Threads.thy ===== *)
theory Safe_Threads
  imports Thread_Data Step_Systems
begin

text \<open>
  The program \<^verbatim>\<open>src/safe_pthread\<close>: its main thread and ten more each call \<^verbatim>\<open>print_n\<close> and print the text in the buffer
  it returns. A step of the model is one call of the C or thread library by one thread (\<^verbatim>\<open>pthread_once\<close>,
  \<^verbatim>\<open>pthread_getspecific\<close>, \<^verbatim>\<open>malloc\<close>, \<^verbatim>\<open>pthread_setspecific\<close>, \<^verbatim>\<open>snprintf\<close>, \<^verbatim>\<open>printf\<close>, the end of the thread with the
  destructor), so threads interleave inside \<^verbatim>\<open>print_n\<close> and between it and \<^verbatim>\<open>printf\<close>. \<^verbatim>\<open>pthread_create\<close> is
  taken to succeed.
\<close>

section \<open>Threads\<close>

definition PTH_N :: nat where
  "PTH_N = 10"

text \<open>Where a thread is: in front of a call of \<^verbatim>\<open>print_n\<close>, back from it (\<open>Show\<close>), or at its end.\<close>

datatype pth_pc = Unborn | Once | Get | Alloc | Keep | Put | Show | Leave | Gone

datatype main_pc = Calling | Say_first | Create nat | Join nat | Say_last | Exited

text \<open>The main thread is number 10. \<open>loc t\<close> is the variable \<^verbatim>\<open>buf\<close> of thread \<open>t\<close>. \<open>stack\<close> holds the ten entries of main's
  array \<^verbatim>\<open>statuses\<close> and the four bytes behind it.\<close>

record safe =
  dat :: tsd
  pcs :: "nat \<Rightarrow> pth_pc"
  loc :: "nat \<Rightarrow> addr"
  mpc :: main_pc
  stack :: "u32 list"
  out :: "event list"

text \<open>A step is taken, cannot be taken now, or is undefined.\<close>

datatype move = Moves safe | Stuck | Crash

abbreviation go :: "nat \<Rightarrow> pth_pc \<Rightarrow> safe \<Rightarrow> safe" where
  "go t p s \<equiv> s\<lparr>pcs := (pcs s)(t := p)\<rparr>"

text \<open>One step of \<^verbatim>\<open>print_n\<close>, called by thread \<open>t\<close> with the number \<open>n\<close>. The result of \<^verbatim>\<open>malloc\<close> is not checked.\<close>

definition print_n_step :: "(addr set \<Rightarrow> addr) \<Rightarrow> (addr \<Rightarrow> string) \<Rightarrow> int \<Rightarrow> nat \<Rightarrow> safe \<Rightarrow> move" where
  "print_n_step malloc ptr n t s = (case pcs s t of
     Once \<Rightarrow> Moves (go t Get (s\<lparr>dat := make_key (dat s)\<rparr>))
   | Get \<Rightarrow> (let b = specific (dat s) t in Moves (go t (if b = NULL then Alloc else Put) (s\<lparr>loc := (loc s)(t := b)\<rparr>)))
   | Alloc \<Rightarrow> (let b = malloc (dom (bufs (dat s))); h = bufs (dat s) in
       Moves (go t Keep (s\<lparr>loc := (loc s)(t := b), dat := (dat s)\<lparr>bufs := (if b = NULL then h else h(b \<mapsto> []))\<rparr>\<rparr>)))
   | Keep \<Rightarrow> Moves (go t Put (s\<lparr>dat := (dat s)\<lparr>specific := (specific (dat s))(t := loc s t)\<rparr>\<rparr>))
   | Put \<Rightarrow> (case put_text (loc s t) (n_text ptr n (loc s t)) (dat s) of
       None \<Rightarrow> Crash | Some d \<Rightarrow> Moves (go t Show (s\<lparr>dat := d\<rparr>)))
   | _ \<Rightarrow> Stuck)"

definition thread_line :: "(addr \<Rightarrow> string) \<Rightarrow> nat \<Rightarrow> addr \<Rightarrow> event" where
  "thread_line ptr t b = Printf (ln ''Pthread[%d]: %s'') [Num (int t), Str (n_text ptr (int t) b)]"

text \<open>One step of thread \<open>t\<close> in \<^verbatim>\<open>func\<close>.\<close>

definition func :: "(addr set \<Rightarrow> addr) \<Rightarrow> (addr \<Rightarrow> string) \<Rightarrow> nat \<Rightarrow> safe \<Rightarrow> move" where
  "func malloc ptr t s = (case pcs s t of
     Show \<Rightarrow> (case bufs (dat s) (loc s t) of
       None \<Rightarrow> Crash
     | Some str \<Rightarrow> Moves (go t Leave (s\<lparr>out := out s @ [Printf (ln ''Pthread[%d]: %s'') [Num (int t), Str str]]\<rparr>)))
   | Leave \<Rightarrow> Moves (go t Gone (s\<lparr>dat := dest t (dat s)\<rparr>))
   | _ \<Rightarrow> print_n_step malloc ptr (int t) t s)"

text \<open>One step of the main thread. \<^verbatim>\<open>pthread_join\<close> stores the eight bytes of a pointer, which is \<^verbatim>\<open>NULL\<close>, at the address of a
  four-byte entry of \<^verbatim>\<open>statuses\<close>: the entry behind is overwritten too, and for the last entry the bytes behind the
  array.\<close>

definition safe_main :: "(addr set \<Rightarrow> addr) \<Rightarrow> (addr \<Rightarrow> string) \<Rightarrow> safe \<Rightarrow> move" where
  "safe_main malloc ptr s = (case mpc s of
     Calling \<Rightarrow> if pcs s PTH_N = Show then Moves (s\<lparr>mpc := Say_first\<rparr>) else print_n_step malloc ptr 15 PTH_N s
   | Say_first \<Rightarrow> (case bufs (dat s) (loc s PTH_N) of
       None \<Rightarrow> Crash | Some str \<Rightarrow> Moves (s\<lparr>out := out s @ [Printf ''Main --> %s'' [Str str]], mpc := Create 0\<rparr>))
   | Create i \<Rightarrow> if i < PTH_N then Moves (go i Once (s\<lparr>mpc := Create (Suc i)\<rparr>)) else Moves (s\<lparr>mpc := Join 0\<rparr>)
   | Join i \<Rightarrow>
       if i < PTH_N then
         (if pcs s i = Gone then Moves (s\<lparr>stack := (stack s)[i := 0, Suc i := 0], mpc := Join (Suc i)\<rparr>) else Stuck)
       else Moves (s\<lparr>mpc := Say_last\<rparr>)
   | Say_last \<Rightarrow> (case bufs (dat s) (loc s PTH_N) of
       None \<Rightarrow> Crash | Some str \<Rightarrow> Moves (s\<lparr>out := out s @ [Printf (ln ''Main --> %s'') [Str str]], mpc := Exited\<rparr>))
   | Exited \<Rightarrow> Stuck)"

inductive safe_step :: "(addr set \<Rightarrow> addr) \<Rightarrow> (addr \<Rightarrow> string) \<Rightarrow> safe \<Rightarrow> safe \<Rightarrow> bool" for malloc ptr where
  thread: "mpc s \<noteq> Exited \<Longrightarrow> t < PTH_N \<Longrightarrow> func malloc ptr t s = Moves s' \<Longrightarrow> safe_step malloc ptr s s'"
| main: "safe_main malloc ptr s = Moves s' \<Longrightarrow> safe_step malloc ptr s s'"

definition crashes :: "(addr set \<Rightarrow> addr) \<Rightarrow> (addr \<Rightarrow> string) \<Rightarrow> safe \<Rightarrow> bool" where
  "crashes malloc ptr s = (safe_main malloc ptr s = Crash \<or> (\<exists>t < PTH_N. func malloc ptr t s = Crash))"

text \<open>The start, with whatever is on the stack.\<close>

definition safe_start :: "u32 list \<Rightarrow> safe" where
  "safe_start stk = \<lparr>dat = no_tsd, pcs = (\<lambda>t. if t = PTH_N then Once else Unborn), loc = (\<lambda>_. NULL), mpc = Calling, stack = stk, out = []\<rparr>"

text \<open>The steps of \<^verbatim>\<open>print_n\<close>, when nothing comes between them, are the whole call.\<close>

lemma print_n_steps:
  assumes "pcs s t = Once" "print_n (malloc (dom (bufs (dat s)))) ptr n t (dat s) = Some (b, d)"
  shows "\<exists>s'. (\<lambda>s s'. print_n_step malloc ptr n t s = Moves s')\<^sup>*\<^sup>* s s' \<and> pcs s' t = Show \<and> dat s' = d \<and> loc s' t = b"
proof -
  let ?R = "\<lambda>s s'. print_n_step malloc ptr n t s = Moves s'" and ?new = "malloc (dom (bufs (dat s)))"
  let ?s1 = "go t Get (s\<lparr>dat := make_key (dat s)\<rparr>)"
  obtain b1 d1 where o: "own_buffer ?new t (make_key (dat s)) = (b1, d1)" by fastforce
  then have put: "put_text b1 (n_text ptr n b1) d1 = Some d" "b1 = b" using assms(2) by (auto simp: print_n_def split: bind_splits)
  have 1: "?R s ?s1" using assms(1) by (simp add: print_n_step_def)
  have "\<exists>s2. ?R\<^sup>*\<^sup>* ?s1 s2 \<and> pcs s2 t = Put \<and> loc s2 t = b \<and> dat s2 = d1"
  proof (cases "specific (dat s) t = NULL")
    case False
    then have "?R ?s1 (go t Put (?s1\<lparr>loc := (loc s)(t := b)\<rparr>))" "d1 = make_key (dat s)"
      using o put(2) by (auto simp: print_n_step_def own_buffer_def make_key_def split: if_splits)
    then show ?thesis by (intro exI[of _ "go t Put (?s1\<lparr>loc := (loc s)(t := b)\<rparr>)"]) auto
  next
    case True
    let ?s2 = "go t Alloc (?s1\<lparr>loc := (loc s)(t := NULL)\<rparr>)"
    let ?s3 = "go t Keep (?s2\<lparr>loc := (loc s)(t := b), dat := (make_key (dat s))\<lparr>bufs := (if b = NULL then bufs (dat s) else (bufs (dat s))(b \<mapsto> []))\<rparr>\<rparr>)"
    let ?s4 = "go t Put (?s3\<lparr>dat := d1\<rparr>)"
    have new: "b = ?new" using o put(2) True by (simp add: own_buffer_def make_key_def)
    have "?R ?s1 ?s2" "?R ?s2 ?s3" "?R ?s3 ?s4"
      using o put(2) True new by (auto simp: print_n_step_def own_buffer_def make_key_def Let_def fun_upd_def fun_eq_iff)
    then have "?R\<^sup>*\<^sup>* ?s1 ?s4" by (meson converse_rtranclp_into_rtranclp rtranclp.rtrancl_refl)
    then show ?thesis by (intro exI[of _ ?s4]) simp
  qed
  then obtain s2 where s2: "?R\<^sup>*\<^sup>* ?s1 s2" "pcs s2 t = Put" "loc s2 t = b" "dat s2 = d1" by blast
  have "?R s2 (go t Show (s2\<lparr>dat := d\<rparr>))" using s2(2-4) put by (simp add: print_n_step_def)
  then have "?R\<^sup>*\<^sup>* s (go t Show (s2\<lparr>dat := d\<rparr>))"
    using 1 s2(1) by (meson converse_rtranclp_into_rtranclp rtranclp.rtrancl_into_rtrancl)
  then show ?thesis using s2(3) by (intro exI[of _ "go t Show (s2\<lparr>dat := d\<rparr>)"]) simp
qed

section \<open>The buffers\<close>

text \<open>A thread has a buffer from \<^verbatim>\<open>malloc\<close> to its end, the key knows it from the next call on, and the text is in it
  after the one behind.\<close>

fun holds :: "pth_pc \<Rightarrow> bool" where
  "holds Keep = True" | "holds Put = True" | "holds Show = True" | "holds Leave = True"
| "holds Unborn = False" | "holds Once = False" | "holds Get = False" | "holds Alloc = False" | "holds Gone = False"

definition number :: "nat \<Rightarrow> int" where
  "number t = (if t = PTH_N then 15 else int t)"

definition pth_ok :: "(addr \<Rightarrow> string) \<Rightarrow> tsd \<Rightarrow> nat \<Rightarrow> pth_pc \<Rightarrow> addr \<Rightarrow> bool" where
  "pth_ok ptr d t p b = (specific d t = (if holds p \<and> p \<noteq> Keep then b else NULL) \<and> (holds p \<longrightarrow> b \<noteq> NULL \<and> bufs d b \<noteq> None) \<and>
     (p = Show \<or> p = Leave \<longrightarrow> bufs d b = Some (n_text ptr (number t) b)))"

definition data_inv :: "(addr \<Rightarrow> string) \<Rightarrow> safe \<Rightarrow> bool" where
  "data_inv ptr s = (finite (dom (bufs (dat s))) \<and> bufs (dat s) NULL = None \<and> (\<forall>t. pth_ok ptr (dat s) t (pcs s t) (loc s t)) \<and>
     (\<forall>t u. t \<noteq> u \<and> holds (pcs s t) \<and> holds (pcs s u) \<longrightarrow> loc s t \<noteq> loc s u))"

lemma data_inv_alone: "data_inv ptr s \<Longrightarrow> t \<noteq> u \<Longrightarrow> holds (pcs s t) \<Longrightarrow> holds (pcs s u) \<Longrightarrow> loc s t \<noteq> loc s u"
  by (simp add: data_inv_def)

text \<open>A change by thread \<open>t\<close> keeps the others' part if it leaves their buffers alone.\<close>

lemma data_inv_change:
  assumes "data_inv ptr s" "finite (dom (bufs (dat s')))" "bufs (dat s') NULL = None"
    and "pth_ok ptr (dat s') t (pcs s' t) (loc s' t)"
    and "\<And>u. u \<noteq> t \<Longrightarrow> pcs s' u = pcs s u \<and> loc s' u = loc s u \<and> specific (dat s') u = specific (dat s) u \<and>
      (holds (pcs s u) \<longrightarrow> bufs (dat s') (loc s u) = bufs (dat s) (loc s u))"
    and "\<And>u. u \<noteq> t \<Longrightarrow> holds (pcs s u) \<Longrightarrow> holds (pcs s' t) \<Longrightarrow> loc s' t \<noteq> loc s u"
  shows "data_inv ptr s'"
proof -
  have ok: "pth_ok ptr (dat s') u (pcs s' u) (loc s' u)" for u
    using assms(1,4) assms(5)[of u] by (cases "u = t") (auto simp: data_inv_def pth_ok_def)
  have "loc s' u \<noteq> loc s' v" if "u \<noteq> v" "holds (pcs s' u)" "holds (pcs s' v)" for u v
    using that data_inv_alone[OF assms(1), of u v] assms(5)[of u] assms(5)[of v] assms(6)[of u] assms(6)[of v]
    by (cases "u = t"; cases "v = t") auto
  then show ?thesis using assms(2,3) ok by (simp add: data_inv_def)
qed

lemma print_n_step_inv:
  assumes "malloc_ok malloc" "data_inv ptr s" "print_n_step malloc ptr (number t) t s = Moves s'"
  shows "data_inv ptr s'"
proof -
  have ok: "pth_ok ptr (dat s) u (pcs s u) (loc s u)" and fin: "finite (dom (bufs (dat s)))" "bufs (dat s) NULL = None" for u
    using assms(2) by (simp_all add: data_inv_def)
  let ?new = "malloc (dom (bufs (dat s)))"
  have new: "?new \<noteq> NULL" "bufs (dat s) ?new = None" using assms(1) fin(1) by (auto simp: malloc_ok_def)
  have apart: "loc s t \<noteq> loc s u" if "u \<noteq> t" "holds (pcs s u)" "holds (pcs s t)" for u
    using data_inv_alone[OF assms(2) that] by simp
  have fresh: "?new \<noteq> loc s u" if "holds (pcs s u)" for u using ok[of u] that new by (auto simp: pth_ok_def)
  show ?thesis
    by (rule data_inv_change[OF assms(2), of _ t])
      (use assms(3) ok[of t] fin new apart apart[THEN not_sym] fresh fresh[THEN not_sym] in \<open>auto simp: print_n_step_def make_key_def put_text_def pth_ok_def Let_def split: pth_pc.splits if_splits option.splits\<close>)
qed

lemma func_inv:
  assumes "malloc_ok malloc" "data_inv ptr s" "t < PTH_N" "func malloc ptr t s = Moves s'"
  shows "data_inv ptr s'"
proof (cases "pcs s t = Show \<or> pcs s t = Leave")
  case True
  have ok: "pth_ok ptr (dat s) t (pcs s t) (loc s t)" and fin: "finite (dom (bufs (dat s)))" "bufs (dat s) NULL = None"
    using assms(2) by (simp_all add: data_inv_def)
  have apart: "loc s t \<noteq> loc s u" if "u \<noteq> t" "holds (pcs s u)" for u
    using data_inv_alone[OF assms(2), of t u] that True by auto
  show ?thesis
    by (rule data_inv_change[OF assms(2), of _ t])
      (use assms(4) True ok fin apart apart[THEN not_sym] in \<open>auto simp: func_def dest_def pth_ok_def split: option.splits\<close>)
next
  case False
  then have "print_n_step malloc ptr (number t) t s = Moves s'"
    using assms(3,4) by (auto simp: func_def number_def split: pth_pc.splits)
  then show ?thesis by (rule print_n_step_inv[OF assms(1,2)])
qed

section \<open>The output and the stack\<close>

definition printed :: "pth_pc \<Rightarrow> bool" where
  "printed p = (p = Leave \<or> p = Gone)"

definition first_line :: "(addr \<Rightarrow> string) \<Rightarrow> addr \<Rightarrow> event" where
  "first_line ptr b = Printf ''Main --> %s'' [Str (n_text ptr 15 b)]"

definition last_line :: "(addr \<Rightarrow> string) \<Rightarrow> addr \<Rightarrow> event" where
  "last_line ptr b = Printf (ln ''Main --> %s'') [Str (n_text ptr 15 b)]"

definition lines_of :: "(addr \<Rightarrow> string) \<Rightarrow> safe \<Rightarrow> event list \<Rightarrow> bool" where
  "lines_of ptr s es = (\<exists>order bs. length bs = length order \<and> distinct order \<and> set order = {t. t < PTH_N \<and> printed (pcs s t)} \<and>
     es = map2 (thread_line ptr) order bs)"

definition out_inv :: "(addr \<Rightarrow> string) \<Rightarrow> safe \<Rightarrow> bool" where
  "out_inv ptr s =
     (if mpc s = Calling \<or> mpc s = Say_first then out s = []
      else \<exists>es. lines_of ptr s es \<and>
        out s = first_line ptr (loc s PTH_N) # es @ (if mpc s = Exited then [last_line ptr (loc s PTH_N)] else []))"

definition main_inv :: "safe \<Rightarrow> bool" where
  "main_inv s = (length (stack s) = Suc PTH_N \<and> (mpc s \<noteq> Calling \<longrightarrow> pcs s PTH_N = Show) \<and> (case mpc s of
     Calling \<Rightarrow> pcs s PTH_N \<noteq> Unborn \<and> pcs s PTH_N \<noteq> Leave \<and> pcs s PTH_N \<noteq> Gone \<and> (\<forall>t < PTH_N. pcs s t = Unborn)
   | Say_first \<Rightarrow> \<forall>t < PTH_N. pcs s t = Unborn
   | Create i \<Rightarrow> i \<le> PTH_N \<and> (\<forall>t < PTH_N. pcs s t = Unborn \<longleftrightarrow> i \<le> t)
   | Join i \<Rightarrow> i \<le> PTH_N \<and> (\<forall>t < PTH_N. pcs s t \<noteq> Unborn) \<and> (\<forall>t < i. pcs s t = Gone) \<and> (0 < i \<longrightarrow> (\<forall>j \<le> i. stack s ! j = 0))
   | _ \<Rightarrow> (\<forall>t < PTH_N. pcs s t = Gone) \<and> (\<forall>j \<le> PTH_N. stack s ! j = 0)))"

definition safe_inv :: "(addr \<Rightarrow> string) \<Rightarrow> safe \<Rightarrow> bool" where
  "safe_inv ptr s = (data_inv ptr s \<and> main_inv s \<and> out_inv ptr s)"

text \<open>What a step of a thread changes beside the buffers.\<close>

lemma func_effect:
  assumes "t < PTH_N" "func malloc ptr t s = Moves s'" "data_inv ptr s"
  shows "mpc s' = mpc s \<and> stack s' = stack s \<and> (\<forall>u. u \<noteq> t \<longrightarrow> pcs s' u = pcs s u \<and> loc s' u = loc s u) \<and>
    pcs s t \<noteq> Unborn \<and> pcs s t \<noteq> Gone \<and> pcs s' t \<noteq> Unborn \<and>
    (out s' = out s \<and> printed (pcs s' t) = printed (pcs s t) \<or>
     \<not> printed (pcs s t) \<and> printed (pcs s' t) \<and> out s' = out s @ [thread_line ptr t (loc s t)])"
proof -
  have "pth_ok ptr (dat s) t (pcs s t) (loc s t)" using assms(3) by (simp add: data_inv_def)
  then show ?thesis using assms(1,2)
    by (auto simp: func_def print_n_step_def printed_def pth_ok_def thread_line_def number_def Let_def split: pth_pc.splits option.splits if_splits)
qed

lemma lines_of_same: "lines_of ptr s es \<Longrightarrow> (\<And>t. t < PTH_N \<Longrightarrow> printed (pcs s' t) = printed (pcs s t)) \<Longrightarrow> lines_of ptr s' es"
  unfolding lines_of_def by (metis (mono_tags, lifting) Collect_cong)

lemma lines_of_print:
  assumes "lines_of ptr s es" "t < PTH_N" "\<not> printed (pcs s t)" "printed (pcs s' t)" "\<And>u. u \<noteq> t \<Longrightarrow> pcs s' u = pcs s u"
  shows "lines_of ptr s' (es @ [thread_line ptr t b])"
proof -
  obtain order bs where o: "length bs = length order" "distinct order" "set order = {t. t < PTH_N \<and> printed (pcs s t)}"
    "es = map2 (thread_line ptr) order bs" using assms(1) by (auto simp: lines_of_def)
  have "u \<in> set (order @ [t]) \<longleftrightarrow> u < PTH_N \<and> printed (pcs s' u)" for u
    using assms(2-4) assms(5)[of u] o(3) by (cases "u = t") simp_all
  then have "set (order @ [t]) = {t. t < PTH_N \<and> printed (pcs s' t)}" by blast
  moreover have "length (bs @ [b]) = length (order @ [t])" "distinct (order @ [t])"
    "es @ [thread_line ptr t b] = map2 (thread_line ptr) (order @ [t]) (bs @ [b])"
    using o assms(3) by simp_all
  ultimately show ?thesis unfolding lines_of_def by blast
qed

lemma thread_inv:
  assumes "malloc_ok malloc" "safe_inv ptr s" "t < PTH_N" "mpc s \<noteq> Exited" "func malloc ptr t s = Moves s'"
  shows "safe_inv ptr s'"
proof -
  have inv: "data_inv ptr s" "main_inv s" "out_inv ptr s" using assms(2) by (simp_all add: safe_inv_def)
  note e = func_effect[OF assms(3,5) inv(1)]
  have n: "t \<noteq> PTH_N" "pcs s' PTH_N = pcs s PTH_N" "loc s' PTH_N = loc s PTH_N" using assms(3) e by auto
  have u: "(pcs s' u = Unborn) = (pcs s u = Unborn)" and g: "pcs s u = Gone \<Longrightarrow> pcs s' u = Gone" for u
    using e by (cases "u = t"; simp)+
  have "\<exists>u < PTH_N. pcs s u \<noteq> Unborn \<and> pcs s u \<noteq> Gone" using e assms(3) by blast
  then have m: "main_inv s'" using inv(2) e n(2) u g by (cases "mpc s") (simp_all add: main_inv_def)
  have busy: "mpc s \<noteq> Calling" "mpc s \<noteq> Say_first" using inv(2) e assms(3) by (auto simp: main_inv_def)
  then obtain es where es: "lines_of ptr s es" "out s = first_line ptr (loc s PTH_N) # es"
    using inv(3) assms(4) by (auto simp: out_inv_def)
  have same: "printed (pcs s' u) = printed (pcs s u)" if "printed (pcs s' t) = printed (pcs s t)" for u
    using that e by (cases "u = t") auto
  consider "out s' = out s" "printed (pcs s' t) = printed (pcs s t)"
    | "\<not> printed (pcs s t)" "printed (pcs s' t)" "out s' = out s @ [thread_line ptr t (loc s t)]" using e by blast
  then have "out_inv ptr s'"
  proof cases
    case 1
    have "lines_of ptr s' es" by (rule lines_of_same[OF es(1)]) (rule same[OF 1(2)])
    then show ?thesis using es(2) 1 e n busy assms(4) by (auto simp: out_inv_def)
  next
    case 2
    have "lines_of ptr s' (es @ [thread_line ptr t (loc s t)])" by (rule lines_of_print[OF es(1) assms(3) 2(1,2)]) (use e in blast)
    then show ?thesis using es(2) 2 e n busy assms(4) by (auto simp: out_inv_def)
  qed
  then show ?thesis using m func_inv[OF assms(1) inv(1) assms(3,5)] by (simp add: safe_inv_def)
qed

lemma safe_main_data:
  assumes "malloc_ok malloc" "data_inv ptr s" "main_inv s" "safe_main malloc ptr s = Moves s'"
  shows "data_inv ptr s'"
proof (cases "mpc s")
  case Calling
  then show ?thesis
    using assms print_n_step_inv[OF assms(1,2), of PTH_N s'] by (auto simp: safe_main_def number_def data_inv_def split: if_splits)
next
  case (Create i)
  show ?thesis
  proof (cases "i < PTH_N")
    case True
    then have "pcs s i = Unborn" using Create assms(3) by (simp add: main_inv_def)
    moreover have "pth_ok ptr (dat s) i (pcs s i) (loc s i)" using assms(2) by (simp add: data_inv_def)
    ultimately show ?thesis
      by (intro data_inv_change[OF assms(2), of _ i]) (use True Create assms(2,4) in \<open>auto simp: safe_main_def pth_ok_def data_inv_def\<close>)
  qed (use Create assms in \<open>auto simp: safe_main_def data_inv_def\<close>)
qed (use assms in \<open>auto simp: safe_main_def data_inv_def split: option.splits if_splits\<close>)

lemma stack_join:
  assumes "length stk = Suc PTH_N" "i < PTH_N" "0 < i \<longrightarrow> (\<forall>j \<le> i. stk ! j = (0 :: u32))" "j \<le> Suc i"
  shows "stk[i := 0, Suc i := 0] ! j = 0"
  using assms by (cases "j = Suc i"; cases "j = i") auto

lemma safe_main_main:
  assumes "main_inv s" "safe_main malloc ptr s = Moves s'"
  shows "main_inv s'"
proof (cases "mpc s")
  case Calling
  then show ?thesis using assms
    by (auto simp: main_inv_def safe_main_def print_n_step_def Let_def PTH_N_def split: if_splits pth_pc.splits option.splits)
next
  case (Create i)
  then show ?thesis using assms by (auto simp: main_inv_def safe_main_def split: if_splits)
next
  case (Join i)
  then show ?thesis using assms stack_join[of "stack s" i]
    by (auto simp: main_inv_def safe_main_def less_Suc_eq PTH_N_def split: if_splits)
qed (use assms in \<open>auto simp: main_inv_def safe_main_def split: option.splits\<close>)

lemma safe_main_out:
  assumes "data_inv ptr s" "main_inv s" "out_inv ptr s" "safe_main malloc ptr s = Moves s'"
  shows "out_inv ptr s'"
proof -
  have shown: "bufs (dat s) (loc s PTH_N) = Some (n_text ptr 15 (loc s PTH_N))" if "pcs s PTH_N = Show"
    using assms(1) that by (auto simp: data_inv_def pth_ok_def number_def)
  show ?thesis
  proof (cases "mpc s")
    case Calling
    then show ?thesis using assms
      by (auto simp: out_inv_def safe_main_def print_n_step_def Let_def split: if_splits pth_pc.splits option.splits)
  next
    case Say_first
    then have "\<forall>t < PTH_N. \<not> printed (pcs s' t)" using assms(2,4)
      by (auto simp: main_inv_def safe_main_def printed_def split: option.splits)
    then have "lines_of ptr s' []" unfolding lines_of_def by (intro exI[of _ "[]"]) auto
    then show ?thesis using Say_first assms(2-4) shown by (auto simp: out_inv_def main_inv_def safe_main_def first_line_def split: option.splits)
  next
    case (Create i)
    have "lines_of ptr s' es" if "lines_of ptr s es" for es
      by (rule lines_of_same[OF that]) (use Create assms(2,4) in \<open>auto simp: main_inv_def safe_main_def printed_def split: if_splits\<close>)
    then show ?thesis using Create assms(3,4) by (auto simp: out_inv_def safe_main_def split: if_splits)
  next
    case (Join i)
    have "lines_of ptr s' es" if "lines_of ptr s es" for es
      by (rule lines_of_same[OF that]) (use Join assms(4) in \<open>auto simp: safe_main_def split: if_splits\<close>)
    then show ?thesis using Join assms(3,4) by (auto simp: out_inv_def safe_main_def split: if_splits)
  next
    case Say_last
    have "lines_of ptr s' es" if "lines_of ptr s es" for es
      by (rule lines_of_same[OF that]) (use Say_last assms(4) in \<open>auto simp: safe_main_def split: option.splits\<close>)
    then show ?thesis using Say_last assms(2-4) shown by (auto simp: out_inv_def main_inv_def safe_main_def last_line_def split: option.splits)
  qed (use assms(4) in \<open>simp add: safe_main_def\<close>)
qed

lemma safe_step_inv: "malloc_ok malloc \<Longrightarrow> safe_step malloc ptr s s' \<Longrightarrow> safe_inv ptr s \<Longrightarrow> safe_inv ptr s'"
  by (erule safe_step.cases) (auto intro: thread_inv safe_main_data safe_main_main safe_main_out simp: safe_inv_def[of _ s] safe_inv_def[of _ s'] dest: thread_inv[unfolded safe_inv_def])

lemma safe_start_inv: "length stk = Suc PTH_N \<Longrightarrow> safe_inv ptr (safe_start stk)"
  by (auto simp: safe_inv_def data_inv_def main_inv_def out_inv_def safe_start_def no_tsd_def pth_ok_def PTH_N_def)

section \<open>Nothing crashes, something moves, and it ends\<close>

lemma safe_no_crash:
  assumes "safe_inv ptr s"
  shows "\<not> crashes malloc ptr s"
proof -
  have ok: "pth_ok ptr (dat s) t (pcs s t) (loc s t)" for t using assms by (simp add: safe_inv_def data_inv_def)
  have "print_n_step malloc ptr n t s \<noteq> Crash" for n t
    using ok[of t] by (auto simp: print_n_step_def put_text_def pth_ok_def Let_def split: pth_pc.splits)
  then show ?thesis using ok ok[of PTH_N] assms
    by (auto simp: crashes_def func_def safe_main_def pth_ok_def safe_inv_def main_inv_def split: pth_pc.splits main_pc.splits option.splits if_splits)
qed

fun pth_todo :: "pth_pc \<Rightarrow> nat" where
  "pth_todo Unborn = 7" | "pth_todo Once = 7" | "pth_todo Get = 6" | "pth_todo Alloc = 5" | "pth_todo Keep = 4"
| "pth_todo Put = 3" | "pth_todo Show = 2" | "pth_todo Leave = 1" | "pth_todo Gone = 0"

fun main_todo :: "main_pc \<Rightarrow> nat" where
  "main_todo Calling = 25" | "main_todo Say_first = 24" | "main_todo (Create i) = 13 + (PTH_N - i)"
| "main_todo (Join i) = 2 + (PTH_N - i)" | "main_todo Say_last = 1" | "main_todo Exited = 0"

definition todo :: "safe \<Rightarrow> nat" where
  "todo s = main_todo (mpc s) + (\<Sum>t \<le> PTH_N. pth_todo (pcs s t))"

lemma todo_change:
  assumes "t \<le> PTH_N" "\<And>u. u \<noteq> t \<Longrightarrow> pcs s' u = pcs s u"
  shows "(\<Sum>t \<le> PTH_N. pth_todo (pcs s' t)) + pth_todo (pcs s t) = (\<Sum>t \<le> PTH_N. pth_todo (pcs s t)) + pth_todo (pcs s' t)"
proof -
  have "(\<Sum>u \<in> {..PTH_N} - {t}. pth_todo (pcs s' u)) = (\<Sum>u \<in> {..PTH_N} - {t}. pth_todo (pcs s u))"
    by (rule sum.cong) (use assms(2) in auto)
  then show ?thesis using assms(1) by (simp add: sum.remove[of _ t])
qed

lemma print_n_step_todo:
  assumes "print_n_step malloc ptr n t s = Moves s'" "t \<le> PTH_N"
  shows "todo s' < todo s"
proof -
  have "mpc s' = mpc s" "\<And>u. u \<noteq> t \<Longrightarrow> pcs s' u = pcs s u" "pth_todo (pcs s' t) < pth_todo (pcs s t)"
    using assms(1) by (auto simp: print_n_step_def Let_def split: pth_pc.splits option.splits if_splits)
  then show ?thesis using todo_change[OF assms(2), of s' s] by (simp add: todo_def)
qed

lemma func_todo:
  assumes "func malloc ptr t s = Moves s'" "t < PTH_N"
  shows "todo s' < todo s"
proof (cases "pcs s t = Show \<or> pcs s t = Leave")
  case True
  then have "mpc s' = mpc s" "\<And>u. u \<noteq> t \<Longrightarrow> pcs s' u = pcs s u" "pth_todo (pcs s' t) < pth_todo (pcs s t)"
    using assms(1) by (auto simp: func_def split: option.splits)
  then show ?thesis using todo_change[of t s' s] assms(2) by (simp add: todo_def)
next
  case False
  then show ?thesis using assms print_n_step_todo[of malloc ptr "int t" t s s'] by (auto simp: func_def split: pth_pc.splits)
qed

lemma safe_main_todo:
  assumes "safe_main malloc ptr s = Moves s'" "main_inv s"
  shows "todo s' < todo s"
proof (cases "mpc s")
  case Calling
  then show ?thesis using assms(1) print_n_step_todo[of malloc ptr 15 PTH_N s s'] by (auto simp: safe_main_def todo_def split: if_splits)
next
  case (Create i)
  show ?thesis
  proof (cases "i < PTH_N")
    case True
    then have "pcs s i = Unborn" "s' = go i Once (s\<lparr>mpc := Create (Suc i)\<rparr>)" using Create assms by (auto simp: main_inv_def safe_main_def)
    then show ?thesis using todo_change[of i s' s] True Create by (simp add: todo_def)
  qed (use Create assms(1) in \<open>auto simp: safe_main_def todo_def PTH_N_def\<close>)
qed (use assms(1) in \<open>auto simp: safe_main_def todo_def PTH_N_def split: option.splits if_splits\<close>)

lemma func_moves:
  assumes "safe_inv ptr s" "t < PTH_N" "pcs s t \<noteq> Unborn" "pcs s t \<noteq> Gone"
  shows "\<exists>s'. func malloc ptr t s = Moves s'"
proof -
  have "func malloc ptr t s \<noteq> Crash" using safe_no_crash[OF assms(1), of malloc] assms(2) by (auto simp: crashes_def)
  then show ?thesis using assms(3,4) by (auto simp: func_def print_n_step_def Let_def split: pth_pc.splits option.splits)
qed

lemma safe_moves:
  assumes "safe_inv ptr s" "mpc s \<noteq> Exited"
  shows "\<exists>s'. safe_step malloc ptr s s'"
proof (cases "\<exists>t < PTH_N. pcs s t \<noteq> Unborn \<and> pcs s t \<noteq> Gone")
  case True
  then show ?thesis using func_moves[OF assms(1)] assms(2) safe_step.thread by metis
next
  case False
  have "safe_main malloc ptr s \<noteq> Crash" using safe_no_crash[OF assms(1), of malloc] by (auto simp: crashes_def)
  moreover have "safe_main malloc ptr s \<noteq> Stuck" using False assms
    by (auto simp: safe_main_def safe_inv_def main_inv_def print_n_step_def Let_def split: pth_pc.splits main_pc.splits option.splits)
  ultimately show ?thesis using safe_step.main by (cases "safe_main malloc ptr s") blast+
qed

text \<open>The step relation keeps the invariant and loses weight, for every allocator that keeps what \<^verbatim>\<open>malloc\<close> promises.\<close>

interpretation safe: step_weight "safe_step malloc ptr" "\<lambda>s. malloc_ok malloc \<and> safe_inv ptr s" todo for malloc ptr
proof unfold_locales
  fix s s' assume s: "safe_step malloc ptr s s'" "malloc_ok malloc \<and> safe_inv ptr s"
  then show "malloc_ok malloc \<and> safe_inv ptr s'" using safe_step_inv by blast
  have "main_inv s" using s(2) by (simp add: safe_inv_def)
  then show "todo s' < todo s" using s(1) by (auto elim!: safe_step.cases intro: func_todo safe_main_todo)
qed

section \<open>Property\<close>

text \<open>C37: The threads of the \<^verbatim>\<open>safe_pthread\<close> program do not disturb each other. In every interleaving of the calls that
  the main thread and its ten threads make (of the library functions inside \<^verbatim>\<open>print_n\<close>, of \<^verbatim>\<open>printf\<close>, and of the destructor
  at a thread's end), as long as \<^verbatim>\<open>malloc\<close> and \<^verbatim>\<open>pthread_create\<close> succeed: no step uses a buffer that is not there, some thread can always take a
  step until the program exits, and it exits after at most 102 steps. Its output is then main's text, one line of each of
  the ten threads in some order, each with the number of its own thread, and main's text once more, unchanged. The statuses of
  the ten threads are stored as 0, and so is the word behind the array that main stores them in, whatever it
  held: the eight bytes of the last one do not fit. (The model takes this word to be none of main's other variables.)\<close>
theorem safe_pthread_isolated:
  assumes "malloc_ok malloc" "length stk = 11" "(safe_step malloc ptr ^^ n) (safe_start stk) s"
  shows "n \<le> 102 \<and> \<not> crashes malloc ptr s \<and> (mpc s \<noteq> Exited \<longrightarrow> (\<exists>s'. safe_step malloc ptr s s')) \<and>
    (mpc s = Exited \<longrightarrow> stack s = replicate 11 0 \<and>
      (\<exists>b order bs. set order = {..<10} \<and> distinct order \<and> length bs = 10 \<and>
        out s = Printf ''Main --> %s'' [Str (n_text ptr 15 b)] #
          map2 (\<lambda>t b. Printf (ln ''Pthread[%d]: %s'') [Num (int t), Str (n_text ptr (int t) b)]) order bs @
          [Printf (ln ''Main --> %s'') [Str (n_text ptr 15 b)]]))"
proof -
  have b: "n + todo s \<le> todo (safe_start stk)" and i: "safe_inv ptr s"
    using safe.bounded[OF assms(3)] safe_start_inv[of stk ptr] assms(1,2) by (simp_all add: PTH_N_def)
  have "todo (safe_start stk) = 102" by (simp add: todo_def safe_start_def PTH_N_def eval_nat_numeral)
  moreover have "stack s = replicate 11 0" if "mpc s = Exited"
    by (rule nth_equalityI) (use i that in \<open>auto simp: safe_inv_def main_inv_def PTH_N_def\<close>)
  moreover have "\<exists>b order bs. set order = {..<10} \<and> distinct order \<and> length bs = 10 \<and>
        out s = Printf ''Main --> %s'' [Str (n_text ptr 15 b)] #
          map2 (\<lambda>t b. Printf (ln ''Pthread[%d]: %s'') [Num (int t), Str (n_text ptr (int t) b)]) order bs @
          [Printf (ln ''Main --> %s'') [Str (n_text ptr 15 b)]]" if e: "mpc s = Exited"
  proof -
    obtain order bs where o: "length bs = length order" "distinct order" "set order = {t. t < PTH_N \<and> printed (pcs s t)}"
      "out s = first_line ptr (loc s PTH_N) # map2 (thread_line ptr) order bs @ [last_line ptr (loc s PTH_N)]"
      using i e by (auto simp: safe_inv_def out_inv_def lines_of_def)
    have "set order = {..<10}" using i e o(3) by (auto simp: safe_inv_def main_inv_def printed_def PTH_N_def)
    moreover from this have "length order = 10" using distinct_card[OF o(2)] by simp
    moreover have "thread_line ptr = (\<lambda>t b. Printf (ln ''Pthread[%d]: %s'') [Num (int t), Str (n_text ptr (int t) b)])"
      by (simp add: fun_eq_iff thread_line_def)
    ultimately show ?thesis using o(1,2,4) unfolding first_line_def last_line_def
      by (intro exI[of _ "loc s PTH_N"] exI[of _ order] exI[of _ bs]) simp
  qed
  ultimately show ?thesis using b safe_no_crash[OF i] safe_moves[OF i] by simp
qed

theorem safe_pthread_isolated_witness:
  "\<exists>n s. (safe_step next_block dec_str ^^ n) (safe_start (replicate 11 7)) s \<and> mpc s = Exited \<and> stack s = replicate 11 0 \<and> n \<le> 102"
proof -
  have "malloc_ok next_block \<and> safe_inv dec_str (safe_start (replicate 11 7))"
    using next_block_ok safe_start_inv[of "replicate 11 7" dec_str] by (simp add: PTH_N_def)
  then obtain s where s: "(safe_step next_block dec_str)\<^sup>*\<^sup>* (safe_start (replicate 11 7)) s" "\<not> (\<exists>u. safe_step next_block dec_str s u)"
    using safe.ends by blast
  then obtain n where n: "(safe_step next_block dec_str ^^ n) (safe_start (replicate 11 7)) s" using rtranclp_imp_relpowp by metis
  have "length (replicate 11 (7 :: u32)) = 11" by simp
  from safe_pthread_isolated[OF next_block_ok this n] show ?thesis using n s(2) by blast
qed

end
