(* ===== verification/Queue_Chat.thy ===== *)
theory Queue_Chat
  imports Msg_Queue
begin

text \<open>
  \<^verbatim>\<open>src/queue_chat\<close>: a server and its clients that exchange messages through two System V queues. A client
  announces itself in the first queue and the server answers into the same queue with the client's process
  number as the type of the message; the second queue is for messages between clients.

  The functions are those of \<^verbatim>\<open>server/lib/core.c\<close> and \<^verbatim>\<open>client/lib/core.c\<close>. A thread is its start, with the results of
  \<^verbatim>\<open>ftok\<close> and \<^verbatim>\<open>msgget\<close>, and one round of its loop on the queue, with the results of \<^verbatim>\<open>msgrcv\<close> and \<^verbatim>\<open>msgsnd\<close>; a round
  without a message of the right type leaves everything as it is, where the program waits. The text
  fields are printed as strings: \<open>None\<close> stands for a field without a terminating zero.
\<close>

section \<open>Messages\<close>

definition SERVER_PID :: int where
  "SERVER_PID = 1"

definition CONNECTED :: int where
  "CONNECTED = 0"

record SERVER_MSG =
  pid :: int
  msg_type :: int
  data_text0 :: "byte list"
  data_text1 :: "byte list"
  data_pid :: int

record CLIENT_MSG =
  cpid :: int
  cmsg_type :: int
  snd_name :: "byte list"
  rcp_name :: "byte list"
  snd_pid :: int
  rcp_pid :: int

datatype LOG_MSG_TYPE = INFO | WARNING | ERROR

definition sys_log :: "string \<Rightarrow> string \<Rightarrow> LOG_MSG_TYPE \<Rightarrow> event" where
  "sys_log cur_dt msg kind = (let name = (case kind of
       INFO \<Rightarrow> ''INFORMATION''
     | WARNING \<Rightarrow> ''WARNING''
     | ERROR \<Rightarrow> ''ERROR'')
     in Call ''write'' [Num 1, Str (take 255 (cur_dt @ '' ['' @ name @ '']: '' @ ln msg))])"

abbreviation str_arg :: "byte list \<Rightarrow> arg" where
  "str_arg bs \<equiv> Str (map (\<lambda>b. char_of (unat b)) (cstr bs))"

definition print_srv :: "SERVER_MSG \<Rightarrow> event option" where
  "print_srv m = (if 0 \<in> set (data_text0 m) \<and> 0 \<in> set (data_text1 m) then
     Some (Printf (ln ''Struct: SERVER_MSG { msg_type = %d, data[0] = %s, data[1] = %s, pid = %d }'')
       [Num (msg_type m), str_arg (data_text0 m), str_arg (data_text1 m), Num (data_pid m)])
     else None)"

definition print_cln :: "CLIENT_MSG \<Rightarrow> event option" where
  "print_cln m = (if 0 \<in> set (snd_name m) \<and> 0 \<in> set (rcp_name m) then
     Some (Printf (ln ''Struct: CLIENT_MSG { msg_type = %d, sender = %s [PID: %d], recipient = %s [PID: %d] }'')
       [Num (cmsg_type m), str_arg (snd_name m), Num (snd_pid m), str_arg (rcp_name m), Num (rcp_pid m)])
     else None)"

section \<open>The server\<close>

text \<open>The start of a thread: the messages of the first call that fails, if one does.\<close>

definition open_queue :: "string \<Rightarrow> string \<Rightarrow> int \<Rightarrow> int \<Rightarrow> event option" where
  "open_queue who name key qid =
     (if key = - 1 then Some (Perror (who @ '': ftok('' @ name @ '')''))
      else if qid = - 1 then Some (Perror (who @ '': msgget('' @ name @ '')''))
      else None)"

text \<open>A round's result: whether the thread goes on, the queue, and what was printed.\<close>

definition answer :: "SERVER_MSG \<Rightarrow> SERVER_MSG" where
  "answer m = m\<lparr>pid := data_pid m\<rparr>"

definition srv_event_hndl :: "bool \<Rightarrow> bool \<Rightarrow> string \<Rightarrow> SERVER_MSG list \<Rightarrow> (bool \<times> SERVER_MSG list \<times> event list) option" where
  "srv_event_hndl rcv_ok snd_ok dt q =
     (if \<not> rcv_ok then Some (False, q, [Perror ''Server: msgrcv(server)''])
      else case msgrcv pid SERVER_PID q of
        None \<Rightarrow> Some (True, q, [])
      | Some (m, q) \<Rightarrow> do {
          e1 \<leftarrow> print_srv m;
          let es = [sys_log dt ''Server: msgrcv(server) message received'' INFO, e1];
          let m = answer m;
          if \<not> snd_ok then Some (True, q, es @ [Perror ''Server: msgsnd(server)''])
          else do {
            e2 \<leftarrow> print_srv m;
            Some (True, msgsnd m q, es @ [sys_log dt ''Server: msgsnd(server) response sent to client'' INFO, e2]) } })"

definition cln_msg_hndl :: "bool \<Rightarrow> bool \<Rightarrow> string \<Rightarrow> CLIENT_MSG list \<Rightarrow> (bool \<times> CLIENT_MSG list \<times> event list) option" where
  "cln_msg_hndl rcv_ok snd_ok dt q =
     (if \<not> rcv_ok then Some (False, q, [Perror ''Server: msgrcv(client)''])
      else case msgrcv cpid SERVER_PID q of
        None \<Rightarrow> Some (True, q, [])
      | Some (m, q) \<Rightarrow> do {
          e1 \<leftarrow> print_cln m;
          let es = [sys_log dt ''Server: mq_receive(client) message received'' INFO, e1];
          if \<not> snd_ok then Some (True, q, es @ [Perror ''Server: msgsnd(client)''])
          else Some (True, msgsnd m q, es @ [sys_log dt ''Server: msgsnd(client) response sent to client'' INFO, e1]) })"

text \<open>Rounds of a thread, each with the results of its calls, until it ends.\<close>

fun rounds :: "(bool \<Rightarrow> bool \<Rightarrow> string \<Rightarrow> 'm list \<Rightarrow> (bool \<times> 'm list \<times> event list) option) \<Rightarrow> (bool \<times> bool \<times> string) list \<Rightarrow>
    'm list \<Rightarrow> (bool \<times> 'm list \<times> event list) option" where
  "rounds hndl [] q = Some (True, q, [])"
| "rounds hndl ((r, s, dt) # rs) q = do {
     (go, q, es) \<leftarrow> hndl r s dt q;
     if \<not> go then Some (False, q, es)
     else do {
       (go, q, es') \<leftarrow> rounds hndl rs q;
       Some (go, q, es @ es') } }"

section \<open>The client\<close>

definition client_name :: "nat \<Rightarrow> byte list" where
  "client_name p = take 31 (bytes_of (''client-'' @ dec_str p))"

text \<open>The announcement. \<open>junk\<close> is what the message's memory holds before: the second text is not initialised.\<close>

definition announce :: "SERVER_MSG \<Rightarrow> nat \<Rightarrow> SERVER_MSG" where
  "announce junk cln_pid = junk\<lparr>pid := SERVER_PID, msg_type := CONNECTED, data_pid := int cln_pid,
     data_text0 := take 32 (client_name cln_pid @ replicate 32 0) @ drop 32 (data_text0 junk)\<rparr>"

text \<open>The start of the client's thread, after the queue is open.\<close>

definition srv_event_start :: "bool \<Rightarrow> string \<Rightarrow> SERVER_MSG \<Rightarrow> nat \<Rightarrow> SERVER_MSG list \<Rightarrow> (bool \<times> SERVER_MSG list \<times> event list) option" where
  "srv_event_start snd_ok dt junk cln_pid q =
     (if \<not> snd_ok then Some (False, q, [Perror ''Client: msgsnd(server)''])
      else do {
        e \<leftarrow> print_srv (announce junk cln_pid);
        Some (True, msgsnd (announce junk cln_pid) q, [sys_log dt ''Client: msgsnd(server) send message to server'' INFO, e]) })"

definition srv_event_round :: "nat \<Rightarrow> bool \<Rightarrow> string \<Rightarrow> SERVER_MSG list \<Rightarrow> (bool \<times> SERVER_MSG list \<times> event list) option" where
  "srv_event_round cln_pid rcv_ok dt q =
     (if \<not> rcv_ok then Some (False, q, [Perror ''Client: msgrcv(server)''])
      else case msgrcv pid (int cln_pid) q of
        None \<Rightarrow> Some (True, q, [])
      | Some (m, q) \<Rightarrow> do {
          e \<leftarrow> print_srv m;
          Some (True, q, [sys_log dt ''Client: msgrcv(server) message received'' INFO, e]) })"

definition cln_inc_msg_hndl :: "nat \<Rightarrow> bool \<Rightarrow> bool \<Rightarrow> string \<Rightarrow> CLIENT_MSG list \<Rightarrow> (bool \<times> CLIENT_MSG list \<times> event list) option" where
  "cln_inc_msg_hndl cln_pid rcv_ok snd_ok dt q =
     (if \<not> rcv_ok then Some (False, q, [Perror ''Client: msgrcv(client)''])
      else case msgrcv cpid (int cln_pid) q of
        None \<Rightarrow> Some (True, q, [])
      | Some (m, q) \<Rightarrow> do {
          e1 \<leftarrow> print_cln m;
          let es = [sys_log dt ''Client: mq_receive(client) message received'' INFO, e1];
          if \<not> snd_ok then Some (False, q, es @ [Perror ''Client: msgsnd(client)''])
          else Some (True, msgsnd m q, es @ [sys_log dt ''Client: msgsnd(client) send message to server'' INFO, e1]) })"

text \<open>The input thread, on the lines that \<^verbatim>\<open>fgets\<close> stores; the end of the input is not noticed, so that the buffer
  \<open>str_msg\<close> keeps its content. The result is the number of lines read before the thread ends, and whether it has.\<close>

fun cln_out_msg_hndl :: "byte list \<Rightarrow> byte list option list \<Rightarrow> (nat \<times> bool) option" where
  "cln_out_msg_hndl str_msg [] = Some (0, False)"
| "cln_out_msg_hndl str_msg (line # ls) =
     (let s = (case line of Some l \<Rightarrow> cstr l | None \<Rightarrow> str_msg) in
      if s = [] then None
      else let s = (if List.last s = 10 then butlast s else s) in
      if s = bytes_of ''quit'' \<or> s = bytes_of ''exit'' then Some (1, True)
      else map_option (\<lambda>(n, e). (Suc n, e)) (cln_out_msg_hndl s ls))"

text \<open>The client program: its name, then the thread's start and rounds.\<close>

definition client_main :: "bool \<Rightarrow> nat \<Rightarrow> int \<Rightarrow> int \<Rightarrow> bool \<Rightarrow> (bool \<times> string) list \<Rightarrow> string \<Rightarrow> SERVER_MSG \<Rightarrow> SERVER_MSG list \<Rightarrow>
    (SERVER_MSG list \<times> event list) option" where
  "client_main calloc_ok p key qid snd_ok rs dt junk q =
     (if \<not> calloc_ok then Some (q, [Perror ''Client: malloc''])
      else let hello = Printf (ln ''Client start'' @ ln ''Client name: %s'') [str_arg (client_name p)] in
      case open_queue ''Client'' ''server'' key qid of
        Some e \<Rightarrow> Some (q, [hello, e, say (ln ''Client: main thread bye'')])
      | None \<Rightarrow> do {
          (go, q, es) \<leftarrow> srv_event_start snd_ok dt junk p q;
          if \<not> go then Some (q, hello # es @ [say (ln ''Client: main thread bye'')])
          else do {
            (go, q, es') \<leftarrow> rounds (\<lambda>r s dt. srv_event_round p r dt) (map (\<lambda>(r, dt). (r, True, dt)) rs) q;
            Some (q, hello # es @ es' @ (if go then [] else [say (ln ''Client: main thread bye'')])) } })"

text \<open>The server program: both threads run on their own queue, so that their order does not matter; it ends when both have.\<close>

definition server_main :: "string \<Rightarrow> (int \<times> int) \<times> (int \<times> int) \<Rightarrow> (bool \<times> bool \<times> string) list \<Rightarrow> (bool \<times> bool \<times> string) list \<Rightarrow>
    SERVER_MSG list \<Rightarrow> CLIENT_MSG list \<Rightarrow> (SERVER_MSG list \<times> CLIENT_MSG list \<times> event list) option" where
  "server_main dt keys rs cs srvq clnq = do {
     (go1, srvq, es1) \<leftarrow> (case open_queue ''Server'' ''server'' (fst (fst keys)) (snd (fst keys)) of
        Some e \<Rightarrow> Some (False, srvq, [e]) | None \<Rightarrow> rounds srv_event_hndl rs srvq);
     (go2, clnq, es2) \<leftarrow> (case open_queue ''Server'' ''client'' (fst (snd keys)) (snd (snd keys)) of
        Some e \<Rightarrow> Some (False, clnq, [e]) | None \<Rightarrow> rounds cln_msg_hndl cs clnq);
     Some (srvq, clnq, sys_log dt ''Server start'' INFO # es1 @ es2 @ (if go1 \<or> go2 then [] else [say (ln ''Server: main thread bye'')])) }"

section \<open>The server's answers\<close>

interpretation chat: relay pid SERVER_PID answer "\<lambda>m. data_pid m \<noteq> SERVER_PID"
  by unfold_locales (simp add: answer_def)

definition printable :: "SERVER_MSG \<Rightarrow> bool" where
  "printable m = (0 \<in> set (data_text0 m) \<and> 0 \<in> set (data_text1 m))"

lemma print_printable: "printable m \<Longrightarrow> \<exists>e. print_srv m = Some e \<and> print_srv (answer m) = Some e"
  by (simp add: print_srv_def printable_def answer_def)

lemma srv_event_relay:
  assumes "relay_step pid SERVER_PID answer q = Some q'" "\<forall>m \<in> set q. printable m"
  shows "\<exists>es. srv_event_hndl True True dt q = Some (True, q', es)" "\<forall>m \<in> set q'. printable m"
proof -
  obtain m q1 where m: "msgrcv pid SERVER_PID q = Some (m, q1)" "q' = msgsnd (answer m) q1"
    using assms(1) by (auto simp: relay_step_def simp del: msgrcv_None split: bind_splits)
  have s: "set q = insert m (set q1)" using mset_add_set[OF msgrcv_mset[OF m(1)]] .
  then show "\<exists>es. srv_event_hndl True True dt q = Some (True, q', es)"
    using m assms(2) print_printable[of m] by (auto simp: srv_event_hndl_def Let_def)
  show "\<forall>m \<in> set q'. printable m" using s assms(2) m(2) by (auto simp: printable_def answer_def)
qed

lemma srv_events_relay:
  "relay_run n pid SERVER_PID answer q = Some q' \<Longrightarrow> \<forall>m \<in> set q. printable m \<Longrightarrow>
   \<exists>es. rounds srv_event_hndl (replicate n (True, True, dt)) q = Some (True, q', es)"
proof (induction n arbitrary: q)
  case (Suc n)
  obtain q1 where q1: "relay_step pid SERVER_PID answer q = Some q1" "relay_run n pid SERVER_PID answer q1 = Some q'"
    using Suc.prems(1) by (auto split: bind_splits)
  obtain es where "srv_event_hndl True True dt q = Some (True, q1, es)" using srv_event_relay(1)[OF q1(1) Suc.prems(2)] by blast
  moreover obtain es' where "rounds srv_event_hndl (replicate n (True, True, dt)) q1 = Some (True, q', es')"
    using Suc.IH[OF q1(2) srv_event_relay(2)[OF q1(1) Suc.prems(2)]] by blast
  ultimately show ?case by simp
qed simp

section \<open>Announcements\<close>

lemma dec_str_ascii: "c \<in> set (dec_str n) \<Longrightarrow> 48 \<le> (of_char c :: nat) \<and> (of_char c :: nat) \<le> 57"
proof (induction n rule: dec_str.induct)
  case (1 n)
  show ?case
  proof (cases "n < 10")
    case True
    then show ?thesis using 1(2) by (subst (asm) dec_str.simps) simp
  next
    case False
    then have "c \<in> set (dec_str (n div 10)) \<or> c = char_of (48 + n mod 10)" using 1(2) by (subst (asm) dec_str.simps) auto
    then show ?thesis using 1(1)[OF False] by auto
  qed
qed

lemma client_name_props: "0 \<notin> set (client_name p)" "length (client_name p) \<le> 31"
proof -
  have "(of_nat (of_char c) :: byte) \<noteq> 0" if "c \<in> set (dec_str p)" for c
  proof
    assume "(of_nat (of_char c) :: byte) = 0"
    then have "256 dvd (of_char c :: nat)" by (simp add: word_of_nat_eq_0_iff)
    then show False using dec_str_ascii[OF that] dvd_imp_le[of 256 "of_char c"] by linarith
  qed
  then have "0 \<notin> set (bytes_of (''client-'' @ dec_str p))" by (auto simp: bytes_of_def)
  then show "0 \<notin> set (client_name p)" using set_take_subset by (fastforce simp: client_name_def)
qed (simp add: client_name_def)

lemma announce_name: "cstr (data_text0 (announce junk p)) = client_name p" "0 \<in> set (data_text0 (announce junk p))"
proof -
  obtain k where k: "take 32 (client_name p @ replicate 32 0) = client_name p @ 0 # replicate k 0"
  proof -
    have "take 32 (client_name p @ replicate 32 0) = client_name p @ replicate (32 - length (client_name p)) 0" 
      using client_name_props(2)[of p] by simp
    moreover have "32 - length (client_name p) = Suc (31 - length (client_name p))" using client_name_props(2)[of p] by simp
    ultimately show ?thesis using that by simp
  qed
  show "cstr (data_text0 (announce junk p)) = client_name p" "0 \<in> set (data_text0 (announce junk p))"
    using cstr_append_zero[OF client_name_props(1)] by (simp_all add: announce_def k del: take_append)
qed

fun connect_all :: "string \<Rightarrow> (nat \<Rightarrow> SERVER_MSG) \<Rightarrow> nat list \<Rightarrow> SERVER_MSG list \<Rightarrow> SERVER_MSG list option" where
  "connect_all dt junk [] q = Some q"
| "connect_all dt junk (p # ps) q = do { (go, q, es) \<leftarrow> srv_event_start True dt (junk p) p q; connect_all dt junk ps q }"

lemma connect_all_queue:
  "\<forall>p \<in> set ps. 0 \<in> set (data_text1 (junk p)) \<Longrightarrow> connect_all dt junk ps q = Some (q @ map (\<lambda>p. announce (junk p) p) ps)"
proof (induction ps arbitrary: q)
  case (Cons p ps)
  then have "0 \<in> set (data_text1 (announce (junk p) p))" by (simp add: announce_def)
  then show ?case using Cons announce_name(2)[of "junk p" p] by (simp add: srv_event_start_def print_srv_def msgsnd_def)
qed simp

lemma announces_of:
  "distinct ps \<Longrightarrow> p \<in> set ps \<Longrightarrow> of_type pid (int p) (map (\<lambda>p. answer (announce (junk p) p)) ps) = [answer (announce (junk p) p)]"
proof (induction ps)
  case (Cons a ps)
  have "p \<notin> set ps \<Longrightarrow> of_type pid (int p) (map (\<lambda>p. answer (announce (junk p) p)) ps) = []"
    by (auto simp: of_type_def filter_empty_conv answer_def announce_def)
  then show ?case using Cons by (auto simp: answer_def announce_def)
qed simp

text \<open>C38: Clients of the chat and its server. When any number of clients, with different process numbers, have
  announced themselves, the server's thread takes as many rounds as there are clients to answer them all, and
  then each client receives in its first round the announcement it sent, with its own name and process
  number, and no other. What the uninitialised second text holds must contain a zero.\<close>
theorem chat_connect_roundtrip:
  assumes "distinct ps" "\<forall>p \<in> set ps. p \<noteq> 1 \<and> 0 \<in> set (data_text1 (junk p))"
  shows "\<exists>q q' es. connect_all dt junk ps [] = Some q \<and>
    rounds srv_event_hndl (replicate (length ps) (True, True, dt)) q = Some (True, q', es) \<and>
    (\<forall>p \<in> set ps. \<exists>m q'' es. msgrcv pid (int p) q' = Some (m, q'') \<and> srv_event_round p True dt q' = Some (True, q'', es) \<and>
       msg_type m = CONNECTED \<and> cstr (data_text0 m) = client_name p \<and> data_pid m = int p \<and> of_type pid (int p) q'' = [])"
proof -
  let ?q = "map (\<lambda>p. announce (junk p) p) ps"
  have c: "connect_all dt junk ps [] = Some ?q" using connect_all_queue[of ps junk dt "[]"] assms(2) by simp
  have ok: "\<forall>m \<in> set ?q. data_pid m \<noteq> SERVER_PID" using assms(2) by (auto simp: announce_def SERVER_PID_def)
  have pr: "printable (announce (junk p) p)" if "p \<in> set ps" for p
    using assms(2) that announce_name(2)[of "junk p" p] by (simp add: printable_def announce_def)
  have t: "of_type pid SERVER_PID ?q = ?q" by (auto simp: of_type_def announce_def)
  obtain q' where q': "relay_run (length ps) pid SERVER_PID answer ?q = Some q'"
    "\<forall>u. u \<noteq> SERVER_PID \<longrightarrow> of_type pid u q' = of_type pid u ?q @ of_type pid u (map answer ?q)"
    using chat.drains[OF t ok] by auto
  obtain es where r: "rounds srv_event_hndl (replicate (length ps) (True, True, dt)) ?q = Some (True, q', es)"
    using srv_events_relay[OF q'(1)] pr by auto
  have "\<exists>m q'' es. msgrcv pid (int p) q' = Some (m, q'') \<and> srv_event_round p True dt q' = Some (True, q'', es) \<and>
       msg_type m = CONNECTED \<and> cstr (data_text0 m) = client_name p \<and> data_pid m = int p \<and> of_type pid (int p) q'' = []" if p: "p \<in> set ps" for p
  proof -
    have ne: "int p \<noteq> SERVER_PID" using assms(2) p by (auto simp: SERVER_PID_def)
    have "of_type pid (int p) ?q = []" using ne by (auto simp: of_type_def filter_empty_conv announce_def)
    then have o: "of_type pid (int p) q' = [answer (announce (junk p) p)]"
      using q'(2) ne announces_of[OF assms(1) p, of junk] by (simp add: comp_def)
    then obtain m q'' where m: "msgrcv pid (int p) q' = Some (m, q'')" using msgrcv_None[of pid "int p" q'] by fastforce
    then have "m = answer (announce (junk p) p)" "of_type pid (int p) q'' = []" using msgrcv_of_type[OF m] o by auto
    then show ?thesis using m announce_name(1)[of "junk p" p] print_printable[OF pr[OF p]]
      by (auto simp: srv_event_round_def answer_def announce_def)
  qed
  then show ?thesis using c r by blast
qed

definition zero_msg :: SERVER_MSG where
  "zero_msg = \<lparr>pid = 0, msg_type = 0, data_text0 = replicate 256 0, data_text1 = replicate 256 0, data_pid = 0\<rparr>"

theorem chat_connect_roundtrip_witness:
  "\<exists>q q' es. connect_all [] (\<lambda>_. zero_msg) [4711, 815] [] = Some q \<and>
    rounds srv_event_hndl [(True, True, []), (True, True, [])] q = Some (True, q', es)"
  using chat_connect_roundtrip[of "[4711, 815]" "\<lambda>_. zero_msg" "[]"] by (auto simp: zero_msg_def numeral_2_eq_2)

text \<open>The thread for messages between clients sends every message back with the type it received it with, its own: however
  long it runs, the messages in the queue stay the same, and nothing is ever addressed to a client.\<close>
theorem chat_messages_circulate:
  assumes "\<forall>m \<in> set q. 0 \<in> set (snd_name m) \<and> 0 \<in> set (rcp_name m)"
  shows "\<exists>q' es. rounds cln_msg_hndl (replicate n (True, True, dt)) q = Some (True, q', es) \<and> mset q' = mset q"
  using assms
proof (induction n arbitrary: q)
  case (Suc n)
  show ?case
  proof (cases "msgrcv cpid SERVER_PID q")
    case None
    then have "cln_msg_hndl True True dt q = Some (True, q, [])" by (simp add: cln_msg_hndl_def del: msgrcv_None)
    then show ?thesis using Suc.IH[OF Suc.prems] by auto
  next
    case (Some r)
    obtain m q1 where m: "msgrcv cpid SERVER_PID q = Some (m, q1)" using Some by (cases r) auto
    have s: "mset q = add_mset m (mset q1)" "set q = insert m (set q1)" using msgrcv_mset[OF m] mset_add_set[OF msgrcv_mset[OF m]] by simp_all
    then have "\<exists>es. cln_msg_hndl True True dt q = Some (True, msgsnd m q1, es)"
      using Suc.prems m by (auto simp: cln_msg_hndl_def Let_def print_cln_def)
    moreover have "\<forall>m \<in> set (msgsnd m q1). 0 \<in> set (snd_name m) \<and> 0 \<in> set (rcp_name m)" using Suc.prems s(2) by auto
    ultimately show ?thesis using Suc.IH[of "msgsnd m q1"] s(1) by auto
  qed
qed simp

end
