(* ===== verification/Udp_Raw.thy ===== *)
theory Udp_Raw
  imports Icmp_Echo Socket_Servers
begin

text \<open>
  The raw UDP clients \<^verbatim>\<open>src/udp_raw_dl_socket_server\<close>, \<^verbatim>\<open>src/udp_raw_nl_socket_server\<close> and
  \<^verbatim>\<open>src/udp_raw_tl_socket_server\<close>: they build a datagram from the Ethernet, the IP or the UDP header on, send it to
  a UDP echo server and print what comes back. Their servers are the one of \<^verbatim>\<open>Socket_Servers\<close>. A datagram buffer has
  1024 bytes, of which a receive fills at most 256.
\<close>

section \<open>Datagrams\<close>

definition greeting_text :: "byte list" where
  "greeting_text = bytes_of ''Hello Dmitry!''"

text \<open>\<^verbatim>\<open>strncpy\<close> with \<^verbatim>\<open>MAX_MSG_SIZE\<close> pads with zeros.\<close>

definition put_greeting :: "byte list \<Rightarrow> nat \<Rightarrow> byte list option" where
  "put_greeting p off = stn p off (take 256 (greeting_text @ replicate 256 0))"

definition put_udp :: "byte list \<Rightarrow> nat \<Rightarrow> byte list option" where
  "put_udp p udph = do {
     p \<leftarrow> st16 p udph (htons 9009);
     p \<leftarrow> st16 p (udph + 2) (htons 8888);
     p \<leftarrow> st16 p (udph + 4) (htons (of_nat (8 + length greeting_text)));
     st16 p (udph + 6) 0 }"

text \<open>The IP header's fields, with the total length in host order.\<close>

definition put_ip :: "byte list \<Rightarrow> nat \<Rightarrow> u32 \<Rightarrow> byte list \<Rightarrow> byte list option" where
  "put_ip p iph ident daddr = do {
     p \<leftarrow> st8 p iph 0x45;
     p \<leftarrow> st8 p (iph + 1) 0;
     p \<leftarrow> st16 p (iph + 2) (of_nat (20 + 8 + length greeting_text));
     p \<leftarrow> st16 p (iph + 4) (low_htonl ident);
     p \<leftarrow> st16 p (iph + 6) 0;
     p \<leftarrow> st8 p (iph + 8) 255;
     p \<leftarrow> st8 p (iph + 9) 17;
     p \<leftarrow> st16 p (iph + 10) 0;
     p \<leftarrow> stn p (iph + 12) [192, 168, 2, 1];
     stn p (iph + 16) daddr }"

definition DEST_MAC :: "byte list" where
  "DEST_MAC = [0xF0, 0xDE, 0xF1, 0xFE, 0xED, 0x58]"

definition dl_datagram :: "u32 \<Rightarrow> byte list \<Rightarrow> byte list option" where
  "dl_datagram random mac = do {
     p \<leftarrow> put_greeting (replicate 1024 0) 42;
     p \<leftarrow> stn p 6 mac;
     p \<leftarrow> stn p 0 DEST_MAC;
     p \<leftarrow> st16 p 12 (htons 0x800);
     p \<leftarrow> put_ip p 14 random [192, 168, 2, 1];
     p \<leftarrow> compute_ip_checksum p 14;
     put_udp p 34 }"

definition nl_datagram :: "byte list option" where
  "nl_datagram = do {
     p \<leftarrow> put_greeting (replicate 1024 0) 28;
     p \<leftarrow> put_ip p 0 54321 [127, 0, 0, 1];
     put_udp p 20 }"

definition tl_datagram :: "byte list option" where
  "tl_datagram = do {
     p \<leftarrow> put_greeting (replicate 1024 0) 8;
     put_udp p 0 }"

section \<open>Printing\<close>

text \<open>\<^verbatim>\<open>print_ip_header\<close> and \<^verbatim>\<open>print_udp_packet\<close>, for a packet whose IP header is at \<open>iph\<close>: 14 with the Ethernet header
  printed first, or 0 without.\<close>

definition raw_ip_header :: "nat \<Rightarrow> byte list \<Rightarrow> (event list \<times> byte list) option" where
  "raw_ip_header iph packet = do {
     eth \<leftarrow> (if iph = 0 then Some [] else print_ethernet_header packet);
     check_sum_back \<leftarrow> ld16 packet (iph + ip_check);
     packet \<leftarrow> compute_ip_checksum packet iph;
     ls \<leftarrow> ip_header_lines packet iph check_sum_back;
     Some (eth @ [say (ln []), say (ln ''IP Header'')] @ ls, packet) }"

definition raw_udp_packet :: "bool \<Rightarrow> nat \<Rightarrow> byte list \<Rightarrow> int \<Rightarrow> (event list \<times> byte list) option option" where
  "raw_udp_packet mem_ok iph packet sz = do {
     ihl \<leftarrow> ip_ihl packet iph;
     let iphdrlen = ihl * 4;
     let udph = iphdrlen + iph;
     let header_size = iph + iphdrlen + 8;
     check_sum_back \<leftarrow> ld16 packet (udph + udp_check);
     r \<leftarrow> compute_udp_checksum mem_ok packet iph udph;
     case r of
       None \<Rightarrow> Some None
     | Some packet \<Rightarrow> do {
         (ip_ev, packet) \<leftarrow> raw_ip_header iph packet;
         source \<leftarrow> ld16 packet udph;
         dest \<leftarrow> ld16 packet (udph + 2);
         len \<leftarrow> ld16 packet (udph + 4);
         check \<leftarrow> ld16 packet (udph + udp_check);
         d1 \<leftarrow> print_data_int packet (int iphdrlen);
         d2 \<leftarrow> print_data_int (drop iphdrlen packet) 8;
         d3 \<leftarrow> print_data_int (drop header_size packet) (sz - int header_size);
         Some (Some (
           [banner ''***********************UDP Packet*************************''] @ ip_ev @
           [banner ''UDP Header'',
            Printf (ln ''   |-Source Port      : %d'') [num16 (ntohs source)],
            Printf (ln ''   |-Destination Port : %d'') [num16 (ntohs dest)],
            Printf (ln ''   |-UDP Length       : %d'') [num16 (ntohs len)],
            Printf (ln ''   |-UDP Checksum     : %d (verif: %d) [%s]'')
              [num16 (ntohs check_sum_back), num16 (htons check), validity check_sum_back check],
            say (ln []), say (ln ''IP Header'')] @ d1 @
           [say (ln ''UDP Header'')] @ d2 @
           [say (ln ''Data Payload'')] @ d3 @
           [say (CHR 0x0A # ''###########################################################'')], packet)) } }"

section \<open>The clients\<close>

text \<open>What a receive leaves in the buffer.\<close>

definition dgram_buf :: "byte list \<Rightarrow> byte list" where
  "dgram_buf data = take 256 data @ replicate (1024 - min 256 (length data)) 0"

definition received :: "byte list \<Rightarrow> nat \<Rightarrow> byte list \<Rightarrow> event option" where
  "received dgram header_size data = (if 0 \<in> set (drop header_size dgram) then
     Some (Printf (CHR 0x0A # CHR 0x0A # ln (ln (''Client: receive message from server: '' @ sq ''%s'' @ '' (%d bytes)'')))
       [text_arg (cstr (drop header_size dgram)), Num (int (min 256 (length data)))])
     else None)"

text \<open>A received packet that is printed; the exit code is that of a failed allocation.\<close>

definition show_packet :: "bool \<Rightarrow> nat \<Rightarrow> byte list \<Rightarrow> (event list \<times> int option) option" where
  "show_packet mem_ok iph data = (let dgram = dgram_buf data in do {
     ihl \<leftarrow> ip_ihl dgram iph;
     r \<leftarrow> raw_udp_packet mem_ok iph dgram 1024;
     case r of
       None \<Rightarrow> Some ([Perror ''malloc''], Some 1)
     | Some (es, dgram) \<Rightarrow> do {
         e \<leftarrow> received dgram (iph + ihl * 4 + 8) data;
         Some (es @ [e], None) } })"

text \<open>The loop of the data-link client prints every packet and has no end of its own.\<close>

fun dl_loop :: "bool \<Rightarrow> int \<Rightarrow> byte list option list \<Rightarrow> (event list \<times> int option) option" where
  "dl_loop mem_ok sd_cln [] = Some ([], None)"
| "dl_loop mem_ok sd_cln (None # rs) = Some ([Perror ''Client: recvfrom(server)'', close sd_cln], Some 1)"
| "dl_loop mem_ok sd_cln (Some data # rs) = do {
     (es, stop) \<leftarrow> show_packet mem_ok 14 data;
     case stop of Some c \<Rightarrow> Some (es, Some c)
     | None \<Rightarrow> do {
         (es', stop) \<leftarrow> dl_loop mem_ok sd_cln rs;
         Some (es @ es', stop) } }"

text \<open>The loop of the other two takes the first packet for its port.\<close>

fun nl_loop :: "bool \<Rightarrow> int \<Rightarrow> byte list option list \<Rightarrow> (event list \<times> int option) option" where
  "nl_loop mem_ok sd_cln [] = Some ([], None)"
| "nl_loop mem_ok sd_cln (None # rs) = Some ([Perror ''Client: recvfrom(server)'', close sd_cln], Some 1)"
| "nl_loop mem_ok sd_cln (Some data # rs) = (let dgram = dgram_buf data in do {
     ihl \<leftarrow> ip_ihl dgram 0;
     dest \<leftarrow> ld16 dgram (ihl * 4 + 2);
     if dest \<noteq> htons 9009 then nl_loop mem_ok sd_cln rs
     else do {
       (es, stop) \<leftarrow> show_packet mem_ok 0 data;
       Some (es, if stop = None then Some 0 else stop) } })"

definition sent_line :: "int \<Rightarrow> event" where
  "sent_line bts = Printf (ln (''Client: send message to server: '' @ sq ''%s'' @ '' (%d bytes)'')) [text_arg greeting_text, Num bts]"

text \<open>The programs: start, send and loop, with the results of their calls.\<close>

definition dl_main :: "int \<Rightarrow> int \<Rightarrow> int \<Rightarrow> int \<Rightarrow> bool \<Rightarrow> u32 \<Rightarrow> byte list \<Rightarrow> byte list option list \<Rightarrow>
    (byte list option \<times> event list \<times> int option) option" where
  "dl_main sd_cln idx mac_rtn bts mem_ok random mac rs = (case run_steps [
       Check sd_cln [Perror ''Client: socket(client)'', close sd_cln],
       Check idx [Perror ''SIOCGIFINDEX''],
       Check mac_rtn [Perror ''SIOCGIFHWADDR''],
       Check bts [Perror ''Client: sendto(server)'', close sd_cln],
       Show (sent_line bts)] of (es, reached) \<Rightarrow>
     if \<not> reached then Some (None, es, Some 1)
     else do {
       p \<leftarrow> dl_datagram random mac;
       (es', stop) \<leftarrow> dl_loop mem_ok sd_cln rs;
       Some (Some (take 55 p), es @ es', stop) })"

definition server_line :: "(peer \<Rightarrow> string) \<Rightarrow> event" where
  "server_line host = (let srv = \<lparr>ip = [127, 0, 0, 1], port = htons 8888\<rparr> in
     Printf (ln ''Client: udp echo server %s:%d (hs: %s)'') [Str (inet_ntoa (ip srv)), num16 (ntohs (port srv)), Str (host srv)])"

definition nl_main :: "(peer \<Rightarrow> string) \<Rightarrow> int \<Rightarrow> int \<Rightarrow> int \<Rightarrow> bool \<Rightarrow> byte list option list \<Rightarrow> (byte list option \<times> event list \<times> int option) option" where
  "nl_main host sd_cln opt_rtn bts mem_ok rs = (case run_steps [
       Check sd_cln [Perror ''Client: socket(client)'', close sd_cln],
       Check opt_rtn [Perror ''setsockopt''],
       Show (server_line host),
       Check bts [Perror ''Client: sendto(server)'', close sd_cln],
       Show (sent_line bts)] of (es, reached) \<Rightarrow>
     if \<not> reached then Some (None, es, Some 1)
     else do {
       p \<leftarrow> nl_datagram;
       (es', stop) \<leftarrow> nl_loop mem_ok sd_cln rs;
       Some (Some (take 41 p), es @ es', stop) })"

definition tl_main :: "(peer \<Rightarrow> string) \<Rightarrow> int \<Rightarrow> int \<Rightarrow> bool \<Rightarrow> byte list option list \<Rightarrow> (byte list option \<times> event list \<times> int option) option" where
  "tl_main host sd_cln bts mem_ok rs = (case run_steps [
       Check sd_cln [Perror ''Client: socket(client)'', close sd_cln],
       Show (server_line host),
       Check bts [Perror ''Client: sendto(server)'', close sd_cln],
       Show (sent_line bts)] of (es, reached) \<Rightarrow>
     if \<not> reached then Some (None, es, Some 1)
     else do {
       p \<leftarrow> tl_datagram;
       (es', stop) \<leftarrow> nl_loop mem_ok sd_cln rs;
       Some (Some (take 21 p), es @ es', stop) })"

section \<open>What is sent\<close>

text \<open>The UDP part of a datagram with the greeting: from port 9009 to port 8888, length 21, no checksum.\<close>

definition udp_part :: "byte list \<Rightarrow> nat \<Rightarrow> bool" where
  "udp_part p udph = (sub p udph 2 = [hi8 9009, lo8 9009] \<and> sub p (udph + 2) 2 = [hi8 8888, lo8 8888] \<and>
     sub p (udph + 4) 2 = [0, 21] \<and> sub p (udph + 6) 2 = [0, 0] \<and> sub p (udph + 8) 13 = greeting_text)"

text \<open>The IP part: the total length is in host order, the identification is the upper half of the number given.\<close>

definition ip_part :: "byte list \<Rightarrow> nat \<Rightarrow> u32 \<Rightarrow> byte list \<Rightarrow> bool" where
  "ip_part p iph ident daddr = (p ! iph = 0x45 \<and> sub p (iph + 2) 2 = [41, 0] \<and>
     sub p (iph + 4) 2 = [lo8 (low_htonl ident), hi8 (low_htonl ident)] \<and> p ! (iph + 8) = 255 \<and> p ! (iph + 9) = 17 \<and>
     sub p (iph + 12) 4 = [192, 168, 2, 1] \<and> sub p (iph + 16) 4 = daddr)"

lemma length_greeting: "length greeting_text = 13"
  by (simp add: greeting_text_def bytes_of_def)

lemma take_sub: "m \<le> n \<Longrightarrow> take m (sub p i n) = sub p i m"
  by (simp add: sub_def min_def)

lemma put_greeting_ok:
  assumes "length p = 1024" "off + 256 \<le> 1024"
  shows "yields (put_greeting p off) (\<lambda>q. length q = 1024 \<and> sub q off 13 = greeting_text)"
proof -
  let ?g = "take 256 (greeting_text @ replicate 256 0)"
  have l: "length ?g = 256" by (simp add: length_greeting)
  have s: "put_greeting p off = Some (upd p off ?g)" using assms l unfolding put_greeting_def by (intro store_rules) simp
  have "sub (upd p off ?g) off 256 = ?g" by (rule sub_same) (use assms l in auto)
  then have "sub (upd p off ?g) off 13 = take 13 ?g" using take_sub[of 13 256 "upd p off ?g" off] by simp
  moreover have "take 13 ?g = greeting_text" by (simp add: length_greeting)
  moreover have "length (upd p off ?g) = 1024" by (rule trans[OF length_upd]) (use assms l in simp_all)
  ultimately show ?thesis unfolding s by simp
qed

lemma put_udp_ok:
  assumes "length p = 1024" "udph + 21 \<le> 1024" "sub p (udph + 8) 13 = greeting_text"
  shows "yields (put_udp p udph) (\<lambda>q. frame udph (udph + 8) p q \<and> udp_part q udph)"
proof -
  have k: "lo8 21 = 21" "hi8 21 = 0" "lo8 0 = 0" "hi8 0 = 0" by (simp_all add: lo8_def hi8_def)
  have n: "(of_nat (8 + length greeting_text) :: u16) = 21" by (simp add: length_greeting)
  show ?thesis
    unfolding put_udp_def n
    apply (rule store_vcs, rule assms(1), use assms in simp)
    apply (rule store_vcs, assumption, use assms in simp)+
    using assms apply (simp add: store_rules length_upd)
    apply (intro conjI frame_step)
    apply (simp_all add: length_upd)
    apply (simp add: udp_part_def field_simps length_upd k sub_two)
    done
qed

lemma yields_bind_right: "yields (Option.bind e Some) Q = yields e Q"
  by (cases e) auto

lemma put_ip_ok:
  assumes "length p = 1024" "iph + 20 \<le> 1024" "length daddr = 4"
  shows "yields (put_ip p iph ident daddr) (\<lambda>q. frame iph (iph + 20) p q \<and> ip_part q iph ident daddr)"
proof -
  have k: "lo8 41 = 41" "hi8 41 = 0" by (simp_all add: lo8_def hi8_def)
  have n: "(of_nat (20 + 8 + length greeting_text) :: u16) = 41" by (simp add: length_greeting)
  show ?thesis
    unfolding put_ip_def n
    apply (subst yields_bind_right[symmetric])
    unfolding Option.bind_assoc
    apply (rule store_vcs, rule assms(1), use assms in simp)
    apply (rule store_vcs, assumption, use assms in simp)+
    using assms unfolding yields_simps
    apply (intro conjI frame_step)
    apply (simp_all add: ip_part_def field_simps k sub_two)
    done
qed

lemma udp_part_frame: "udp_part p udph \<Longrightarrow> frame lo hi p q \<Longrightarrow> length p = 1024 \<Longrightarrow> udph + 21 \<le> 1024 \<Longrightarrow> hi \<le> udph \<Longrightarrow> udp_part q udph"
  by (simp add: udp_part_def frame_sub)

lemma ip_part_frame:
  "ip_part p iph ident daddr \<Longrightarrow> frame lo hi p q \<Longrightarrow> length p = 1024 \<Longrightarrow> iph + 20 \<le> 1024 \<Longrightarrow>
   iph + 20 \<le> lo \<or> lo = iph + 10 \<and> hi = iph + 12 \<Longrightarrow> ip_part q iph ident daddr"
  by (auto simp: ip_part_def frame_sub frame_nth)

lemma put_eth_ok:
  assumes "length p = 1024" "length mac = 6"
  shows "yields (Option.bind (stn p 6 mac) (\<lambda>p. Option.bind (stn p 0 DEST_MAC) (\<lambda>p. Option.bind (st16 p 12 (htons 0x800)) Some)))
    (\<lambda>q. frame 0 14 p q \<and> sub q 0 6 = DEST_MAC \<and> sub q 6 6 = mac \<and> sub q 12 2 = [8, 0])"
proof -
  have k: "lo8 0x800 = 0" "hi8 0x800 = 8" "length DEST_MAC = 6" by (simp_all add: lo8_def hi8_def DEST_MAC_def)
  show ?thesis
    apply (rule store_vcs, rule assms(1), use assms in simp)
    apply (rule store_vcs, assumption, use k in simp)+
    using assms unfolding yields_simps
    apply (intro conjI frame_step)
    apply (simp_all add: field_simps k)
    done
qed

lemma dl_datagram_ok:
  assumes "length mac = 6"
  shows "yields (dl_datagram random mac) (\<lambda>p. sub p 0 6 = DEST_MAC \<and> sub p 6 6 = mac \<and> sub p 12 2 = [8, 0] \<and>
    ip_part p 14 random [192, 168, 2, 1] \<and> compute_checksum (drop 14 p) 20 = Some 0 \<and> udp_part p 34)"
proof -
  obtain p1 where p1: "put_greeting (replicate 1024 0) 42 = Some p1" "length p1 = 1024" "sub p1 42 13 = greeting_text"
    using put_greeting_ok[of "replicate 1024 0" 42] by (auto elim!: yieldsE)
  obtain p2 where p2: "Option.bind (stn p1 6 mac) (\<lambda>p. Option.bind (stn p 0 DEST_MAC) (\<lambda>p. Option.bind (st16 p 12 (htons 0x800)) Some)) = Some p2"
    "frame 0 14 p1 p2" "sub p2 0 6 = DEST_MAC" "sub p2 6 6 = mac" "sub p2 12 2 = [8, 0]"
    using put_eth_ok[OF p1(2) assms] by (auto elim!: yieldsE)
  have l2: "length p2 = 1024" using frame_length[OF p2(2)] p1(2) by simp
  obtain p3 where p3: "put_ip p2 14 random [192, 168, 2, 1] = Some p3" "frame 14 34 p2 p3" "ip_part p3 14 random [192, 168, 2, 1]"
    using put_ip_ok[OF l2, of 14 "[192, 168, 2, 1]" random] by (auto elim!: yieldsE)
  have l3: "length p3 = 1024" using frame_length[OF p3(2)] l2 by simp
  have "ip_ihl p3 14 = Some 5" using p3(3) l3 by (simp add: ip_part_def ip_ihl_def ld8_def)
  then obtain p4 where p4: "compute_ip_checksum p3 14 = Some p4" "frame 24 26 p3 p4" "compute_checksum (drop 14 p4) 20 = Some 0"
    using ip_checksum_frame[of p3 14 5] l3 by auto
  have l4: "length p4 = 1024" using frame_length[OF p4(2)] l3 by simp
  have "sub p4 42 13 = greeting_text"
    using frame_sub[OF p4(2), of 42 13] frame_sub[OF p3(2), of 42 13] frame_sub[OF p2(2), of 42 13] p1(2,3) l2 l3 by simp
  then obtain p5 where p5: "put_udp p4 34 = Some p5" "frame 34 42 p4 p5" "udp_part p5 34"
    using put_udp_ok[OF l4, of 34] by (auto elim!: yieldsE)
  have h: "sub p5 j n = sub p2 j n" if "j + n \<le> 14" for j n
    using frame_sub[OF p5(2), of j n] frame_sub[OF p4(2), of j n] frame_sub[OF p3(2), of j n] that l2 l3 l4 by simp
  have "ip_part p5 14 random [192, 168, 2, 1]"
    using ip_part_frame[OF ip_part_frame[OF p3(3) p4(2) l3] p5(2) l4] by simp
  moreover have "compute_checksum (drop 14 p5) 20 = Some 0" using frame_checksum[OF p5(2), of 20 14] l4 p4(3) by simp
  moreover have "dl_datagram random mac = Some p5"
    using p1(1) p2(1) p3(1) p4(1) p5(1) by (auto simp: dl_datagram_def split: bind_splits)
  ultimately show ?thesis using h p2(3-5) p5(3) by simp
qed

lemma nl_datagram_ok: "yields nl_datagram (\<lambda>p. ip_part p 0 54321 [127, 0, 0, 1] \<and> udp_part p 20)"
proof -
  obtain p1 where p1: "put_greeting (replicate 1024 0) 28 = Some p1" "length p1 = 1024" "sub p1 28 13 = greeting_text"
    using put_greeting_ok[of "replicate 1024 0" 28] by (auto elim!: yieldsE)
  obtain p2 where p2: "put_ip p1 0 54321 [127, 0, 0, 1] = Some p2" "frame 0 20 p1 p2" "ip_part p2 0 54321 [127, 0, 0, 1]"
    using put_ip_ok[OF p1(2), of 0 "[127, 0, 0, 1]" 54321] by (auto elim!: yieldsE)
  have l2: "length p2 = 1024" using frame_length[OF p2(2)] p1(2) by simp
  have "sub p2 28 13 = greeting_text" using frame_sub[OF p2(2), of 28 13] p1(2,3) by simp
  then obtain p3 where p3: "put_udp p2 20 = Some p3" "frame 20 28 p2 p3" "udp_part p3 20"
    using put_udp_ok[OF l2, of 20] by (auto elim!: yieldsE)
  have "ip_part p3 0 54321 [127, 0, 0, 1]" by (rule ip_part_frame[OF p2(3) p3(2) l2]) simp_all
  then show ?thesis using p1(1) p2(1) p3 by (simp add: nl_datagram_def)
qed

lemma tl_datagram_ok: "yields tl_datagram (\<lambda>p. udp_part p 0)"
proof -
  obtain p1 where p1: "put_greeting (replicate 1024 0) 8 = Some p1" "length p1 = 1024" "sub p1 8 13 = greeting_text"
    using put_greeting_ok[of "replicate 1024 0" 8] by (auto elim!: yieldsE)
  then show ?thesis using put_udp_ok[OF p1(2), of 0] by (auto simp: tl_datagram_def elim!: yieldsE)
qed

text \<open>C39: What the raw UDP clients send. Each of the three datagrams carries the greeting behind a UDP header from
  port 9009 to port 8888 with the right length; the data-link client puts the MAC addresses in front and its
  IP header has a valid checksum. But the total length in the IP header is in host order, so that on the wire
  it reads 10496 instead of 41, and the identification, which the network-layer client means to be 54321, is 0.\<close>
theorem raw_datagrams_sent:
  assumes "length mac = 6"
  shows "yields (dl_datagram random mac) (\<lambda>p. sub p 0 6 = DEST_MAC \<and> sub p 6 6 = mac \<and> sub p 12 2 = [8, 0] \<and>
      ip_part p 14 random [192, 168, 2, 1] \<and> compute_checksum (drop 14 p) 20 = Some 0 \<and> udp_part p 34 \<and> ntohs (le16 (p ! 16) (p ! 17)) = 10496) \<and>
    yields nl_datagram (\<lambda>p. ip_part p 0 54321 [127, 0, 0, 1] \<and> udp_part p 20 \<and> sub p 4 2 = [0, 0]) \<and>
    yields tl_datagram (\<lambda>p. udp_part p 0)"
proof (intro conjI)
  have "ntohs (le16 (p ! 16) (p ! 17)) = 10496" if "sub p 16 2 = [41, 0]" for p
  proof -
    have "17 < length p" using that by (cases "17 < length p") (auto simp: sub_def dest: arg_cong[of _ _ length])
    then have "p ! 16 = 41" "p ! 17 = 0" using that by (simp_all add: sub_two)
    moreover have "ntohs (le16 41 0) = 10496" by (simp add: le16_def swap16_def)
    ultimately show ?thesis by simp
  qed
  then show "yields (dl_datagram random mac) (\<lambda>p. sub p 0 6 = DEST_MAC \<and> sub p 6 6 = mac \<and> sub p 12 2 = [8, 0] \<and>
      ip_part p 14 random [192, 168, 2, 1] \<and> compute_checksum (drop 14 p) 20 = Some 0 \<and> udp_part p 34 \<and> ntohs (le16 (p ! 16) (p ! 17)) = 10496)"
    using dl_datagram_ok[OF assms, of random] by (auto simp: ip_part_def elim!: yieldsE)
  have "low_htonl 54321 = 0" by (simp add: low_htonl_def swap16_def drop_bit_eq_div)
  moreover obtain p where p: "nl_datagram = Some p" "ip_part p 0 54321 [127, 0, 0, 1]" "udp_part p 20" using nl_datagram_ok by (rule yieldsE) auto
  ultimately have "sub p 4 2 = [0, 0]" by (simp add: ip_part_def lo8_def hi8_def)
  then show "yields nl_datagram (\<lambda>p. ip_part p 0 54321 [127, 0, 0, 1] \<and> udp_part p 20 \<and> sub p 4 2 = [0, 0])"
    unfolding p(1) using p(2,3) by simp
  show "yields tl_datagram (\<lambda>p. udp_part p 0)" by (rule tl_datagram_ok)
qed

theorem raw_datagrams_sent_witness: "yields (dl_datagram 7 [1, 2, 3, 4, 5, 6]) (\<lambda>p. udp_part p 34)"
  using raw_datagrams_sent[of "[1, 2, 3, 4, 5, 6]" 7] by (auto elim!: yieldsE)

section \<open>What is received\<close>

definition for_client :: "byte list \<Rightarrow> bool" where
  "for_client data = (case ip_ihl (dgram_buf data) 0 of None \<Rightarrow> False
     | Some ihl \<Rightarrow> ld16 (dgram_buf data) (ihl * 4 + 2) = Some (htons 9009))"

lemma length_dgram_buf: "length (dgram_buf data) = 1024"
  by (simp add: dgram_buf_def min_def)

lemma nl_loop_skip: "\<forall>d \<in> set ds. \<not> for_client d \<Longrightarrow> nl_loop mem_ok sd (map Some ds @ rs) = nl_loop mem_ok sd rs"
proof (induction ds)
  case (Cons d ds)
  obtain ihl where i: "ip_ihl (dgram_buf d) 0 = Some ihl" by (simp add: ip_ihl_def ld8_def length_dgram_buf)
  then obtain w where "ld16 (dgram_buf d) (ihl * 4 + 2) = Some w" using ip_ihl_le[OF i] by (simp add: ld16_def length_dgram_buf)
  then show ?case using Cons i by (auto simp: for_client_def Let_def)
qed simp

text \<open>A UDP datagram of length \<open>n\<close> for the client, behind an IP header without options.\<close>

definition reply_packet :: "byte list \<Rightarrow> nat \<Rightarrow> bool" where
  "reply_packet data n = (28 \<le> length data \<and> length data \<le> 256 \<and> data ! 0 = 0x45 \<and> for_client data \<and>
     n = unat (ntohs (le16 (data ! 24) (data ! 25))) \<and> 8 \<le> n \<and> n \<le> 1004)"

lemma dgram_nth: "reply_packet data n \<Longrightarrow> j < 28 \<Longrightarrow> dgram_buf data ! j = data ! j"
  by (simp add: dgram_buf_def reply_packet_def nth_append)

lemma reply_ihl: "reply_packet data n \<Longrightarrow> ip_ihl (dgram_buf data) 0 = Some 5"
  using dgram_nth[of data n 0] by (simp add: ip_ihl_def ld8_def length_dgram_buf reply_packet_def)

lemma pseudo_header_some: "iph + 20 \<le> length p \<Longrightarrow> \<exists>ph. pseudo_header p iph len = Some ph"
  by (simp add: pseudo_header_def ldn_def ld8_def)

lemma reply_checksum:
  assumes "reply_packet data n"
  shows "compute_udp_checksum True (dgram_buf data) 0 20 =
    (if odd n then None else map_option Some (segment_checksum (the (pseudo_header (dgram_buf data) 0 (le16 (data ! 24) (data ! 25)))) (dgram_buf data) 20 6 n))"
proof -
  let ?g = "dgram_buf data"
  have len: "ld16 ?g (20 + 4) = Some (le16 (data ! 24) (data ! 25))"
    using dgram_nth[OF assms, of 24] dgram_nth[OF assms, of 25] by (simp add: ld16_def length_dgram_buf)
  obtain ph where ph: "pseudo_header ?g 0 (le16 (data ! 24) (data ! 25)) = Some ph"
    using pseudo_header_some[of 0 ?g] by (auto simp: length_dgram_buf)
  have n: "unat (ntohs (le16 (data ! 24) (data ! 25))) = n" using assms by (simp add: reply_packet_def)
  show ?thesis using compute_udp_checksum_segment[OF len ph] segment_checksum_odd[OF pseudo_header_length[OF ph]] ph n by simp
qed

lemma segment_checksum_frame:
  assumes "segment_checksum ph p b i n = Some q"
  shows "frame (b + i) (b + i + 2) p q"
proof -
  obtain p0 c where "st16 p (b + i) 0 = Some p0" "st16 p0 (b + i) c = Some q"
    using assms by (auto simp: segment_checksum_def split: bind_splits)
  from frame_trans[OF frame_st16[OF this(1)] frame_st16[OF this(2)]] show ?thesis .
qed

lemma cstr_append_0: "cstr (xs @ 0 # ys) = cstr xs"
  by (induction xs) (auto simp: cstr_def)

lemma dump_total: "n \<le> int (length d) \<Longrightarrow> \<exists>es. print_data_int d n = Some es"
  using print_data_columns[of "nat n" d] by (auto simp: print_data_int_def nat_le_iff)

lemma ip_header_lines_total: "iph + 20 \<le> length p \<Longrightarrow> \<exists>es. ip_header_lines p iph c = Some es"
  by (simp add: ip_header_lines_def ip_ihl_def ld8_def ld16_def ldn_def)

lemma raw_udp_packet_even:
  assumes "reply_packet data n" "even n"
  shows "\<exists>es q. raw_udp_packet True 0 (dgram_buf data) 1024 = Some (Some (es, q)) \<and> length q = 1024 \<and> drop 28 q = drop 28 (dgram_buf data)"
proof -
  let ?g = "dgram_buf data"
  obtain ph where ph: "pseudo_header ?g 0 (le16 (data ! 24) (data ! 25)) = Some ph"
    using pseudo_header_some[of 0 ?g] by (auto simp: length_dgram_buf)
  have n: "8 \<le> n" "n \<le> 1004" using assms(1) by (auto simp: reply_packet_def)
  obtain p1 where p1: "segment_checksum ph ?g 20 6 n = Some p1"
    using segment_checksum_ok[OF pseudo_header_length[OF ph], of 6 n 20 ?g] n assms(2) by (auto simp: length_dgram_buf)
  have f1: "frame 26 28 ?g p1" using segment_checksum_frame[OF p1] by simp
  have l1: "length p1 = 1024" using frame_length[OF f1] by (simp add: length_dgram_buf)
  have "ip_ihl p1 0 = Some 5" using reply_ihl[OF assms(1)] frame_nth[OF f1, of 0] l1 by (simp add: ip_ihl_def ld8_def length_dgram_buf)
  then obtain p2 where p2: "compute_ip_checksum p1 0 = Some p2" "frame 10 12 p1 p2" using ip_checksum_frame[of p1 0 5] l1 by auto
  have l2: "length p2 = 1024" using frame_length[OF p2(2)] l1 by simp
  obtain ls where ls: "ip_header_lines p2 0 (le16 (p1 ! 10) (p1 ! 11)) = Some ls" using ip_header_lines_total[of 0 p2] l2 by auto
  have h: "raw_ip_header 0 p1 = Some ([say (ln []), say (ln ''IP Header'')] @ ls, p2)"
    using p2(1) ls l1 by (simp add: raw_ip_header_def ld16_def)
  obtain d1 d2 d3 where d: "print_data_int p2 20 = Some d1" "print_data_int (drop 20 p2) 8 = Some d2" "print_data_int (drop 28 p2) 996 = Some d3"
    using dump_total[of 20 p2] dump_total[of 8 "drop 20 p2"] dump_total[of 996 "drop 28 p2"] l2 by auto
  have "\<exists>es. raw_udp_packet True 0 ?g 1024 = Some (Some (es, p2))"
    using reply_ihl[OF assms(1)] reply_checksum[OF assms(1)] assms(2) ph p1 h d l2
    by (simp add: raw_udp_packet_def ld16_def length_dgram_buf)
  moreover have "drop 28 p2 = drop 28 ?g"
    using frame_sub[OF f1, of 28 996] frame_sub[OF p2(2), of 28 996] l1 l2 by (simp add: sub_def length_dgram_buf)
  ultimately show ?thesis using l2 by blast
qed

text \<open>What the network- and transport-layer clients do with what comes back. They pass over every packet that
  is not for their port. For the first one that is, with a UDP length that is even, they print the packet
  and then the text behind its headers, and exit with success. When the length is odd the check of the UDP
  checksum loads a byte behind the block it allocated; the echo of the clients' own greeting, of length 21, is such a packet.\<close>
theorem raw_client_prints_reply:
  assumes "reply_packet data n" "\<forall>d \<in> set others. \<not> for_client d"
  shows "if even n then \<exists>es. nl_loop True sd (map Some others @ Some data # rs) =
      Some (es @ [Printf (CHR 0x0A # CHR 0x0A # ln (ln (''Client: receive message from server: '' @ sq ''%s'' @ '' (%d bytes)'')))
        [text_arg (cstr (drop 28 data)), Num (int (length data))]], Some 0)
    else nl_loop True sd (map Some others @ Some data # rs) = None"
proof -
  let ?g = "dgram_buf data"
  have len: "28 \<le> length data" "length data \<le> 256" and fc: "ld16 ?g 22 = Some (htons 9009)"
    using assms(1) reply_ihl[OF assms(1)] by (auto simp: reply_packet_def for_client_def)
  have step: "nl_loop True sd (map Some others @ Some data # rs) =
    Option.bind (show_packet True 0 data) (\<lambda>(es, stop). Some (es, if stop = None then Some 0 else stop))"
    using nl_loop_skip[OF assms(2)] reply_ihl[OF assms(1)] fc by simp
  show ?thesis
  proof (cases "even n")
    case True
    obtain es q where q: "raw_udp_packet True 0 ?g 1024 = Some (Some (es, q))" "drop 28 q = drop 28 ?g"
      using raw_udp_packet_even[OF assms(1) True] by blast
    have g: "drop 28 ?g = drop 28 data @ replicate (1024 - length data) 0" using len by (simp add: dgram_buf_def)
    obtain k where k: "1024 - length data = Suc k" using len by (cases "1024 - length data") auto
    have "received q 28 data = Some (Printf (CHR 0x0A # CHR 0x0A # ln (ln (''Client: receive message from server: '' @ sq ''%s'' @ '' (%d bytes)'')))
        [text_arg (cstr (drop 28 data)), Num (int (length data))])"
      using len g k by (simp add: received_def q(2) cstr_append_0)
    then show ?thesis using step True q(1) reply_ihl[OF assms(1)] by (simp add: show_packet_def Let_def)
  next
    case False
    then have "raw_udp_packet True 0 ?g 1024 = None"
      using reply_checksum[OF assms(1)] reply_ihl[OF assms(1)] by (simp add: raw_udp_packet_def Let_def split: bind_splits)
    then show ?thesis using step False reply_ihl[OF assms(1)] by (simp add: show_packet_def Let_def)
  qed
qed

definition sample_reply :: "byte \<Rightarrow> byte list" where
  "sample_reply len = [0x45, 0, 0, 0, 0, 0, 0, 0, 0, 0, 0, 0, 0, 0, 0, 0, 0, 0, 0, 0, 0, 0, 0x23, 0x31, 0, len, 0, 0, 72, 105]"

theorem raw_client_prints_reply_witness:
  "(\<exists>es. nl_loop True 3 [Some (sample_reply 22)] = Some (es, Some 0)) \<and> nl_loop True 3 [Some (sample_reply 21)] = None"
proof -
  have r: "reply_packet (sample_reply 22) 22" "reply_packet (sample_reply 21) 21"
    by (simp_all add: reply_packet_def for_client_def sample_reply_def dgram_buf_def ip_ihl_def ld8_def ld16_def nth_append unat_le16)
      (simp_all add: le16_def swap16_def)
  show ?thesis using raw_client_prints_reply[OF r(1), of "[]" 3 "[]"] raw_client_prints_reply[OF r(2), of "[]" 3 "[]"] by auto
qed

end
