(* ===== verification/Sctp_Transfer.thy ===== *)
theory Sctp_Transfer
  imports Socket_Servers
begin

text \<open>
  The SCTP programs \<^verbatim>\<open>src/sctp\<close>: a client that sends a file on one stream of a connection and the lines typed
  by the user on another, in two threads, and a server that writes the file and shows the lines.

  Results of system calls are parameters. \<open>None\<close> is an access outside a buffer, through \<^verbatim>\<open>NULL\<close> or to a
  variable without a value.
\<close>

section \<open>The client\<close>

definition MSG_STREAM :: nat where "MSG_STREAM = 0"
definition FILE_STREAM :: nat where "FILE_STREAM = 1"

record server_info =
  sock :: int
  addr :: peer
  filename :: "byte list"

text \<open>The thread that sends the file, on the results of \<^verbatim>\<open>read\<close> (\<open>None\<close> for \<open>-1\<close>); \<open>send_ok k\<close> is the result of the \<open>k\<close>-th
  \<^verbatim>\<open>sctp_sendmsg\<close>. The result is what was sent, what was printed and the exit code.\<close>

fun file_loop :: "(nat \<Rightarrow> bool) \<Rightarrow> int \<Rightarrow> byte list option list \<Rightarrow> nat \<Rightarrow> byte list list \<times> event list \<times> int option" where
  "file_loop send_ok fd [] k = ([], [], None)"
| "file_loop send_ok fd (None # rs) k = ([], [Perror ''read() failed'', close fd], Some 1)"
| "file_loop send_ok fd (Some data # rs) k = (let rtn = min 256 (length data); msg = msg_buf data in
     if rtn = 0 then ([], [close fd], Some 0)
     else if \<not> send_ok k then ([], [Perror ''send() failed'', close fd], Some 1)
     else let (ms, es, c) = file_loop send_ok fd rs (Suc k) in (take rtn msg # ms, es, c))"

definition file_hndl :: "server_info option \<Rightarrow> (nat \<Rightarrow> bool) \<Rightarrow> int \<Rightarrow> byte list option list \<Rightarrow> byte list list \<times> event list \<times> int option" where
  "file_hndl args send_ok fd rs = (case args of
     None \<Rightarrow> ([], [say (ln ''invalid thread args'')], Some 1)
   | Some srv_info \<Rightarrow>
       if fd = - 1 then ([], [Perror ''open() failed''], Some 1)
       else file_loop send_ok fd rs 0)"

text \<open>The thread that sends the lines, on what \<^verbatim>\<open>fgets\<close> stored. The last character of a line is cut off, whatever it
  is.\<close>

fun msg_loop :: "(nat \<Rightarrow> bool) \<Rightarrow> byte list option list \<Rightarrow> nat \<Rightarrow> (byte list list \<times> event list \<times> int option) option" where
  "msg_loop send_ok [] k = Some ([], [], None)"
| "msg_loop send_ok (None # ls) k = Some ([], [say ''message: '', Perror ''fgets() failed''], Some 1)"
| "msg_loop send_ok (Some l # ls) k =
     (if cstr l = [] then None
      else let msg = butlast (cstr l) in
        if \<not> send_ok k then Some ([], [say ''message: '', Perror ''send() failed''], Some 1)
        else
          let e = [say ''message: '', Printf (ln (''send message to server: '' @ sq ''%s'' @ '' (%d bytes)'')) [text_arg msg, Num (int (length msg))]] in
          if msg = bytes_of ''exit'' then Some ([msg], e @ [say (ln ''message thread bye'')], Some 1)
          else do {
            (ms, es, c) \<leftarrow> msg_loop send_ok ls (Suc k);
            Some (msg # ms, e @ es, c) })"

definition msg_hndl :: "server_info option \<Rightarrow> (nat \<Rightarrow> bool) \<Rightarrow> byte list option list \<Rightarrow> (byte list list \<times> event list \<times> int option) option" where
  "msg_hndl args send_ok ls = (case args of
     None \<Rightarrow> Some ([], [say (ln ''invalid thread args'')], Some 1)
   | Some srv_info \<Rightarrow> msg_loop send_ok ls 0)"

text \<open>
  The options, as \<^verbatim>\<open>getopt\<close> gives them: the letter and its argument. \<open>pton\<close> and \<open>scan_port\<close> stand for \<^verbatim>\<open>inet_pton\<close>, which leaves
  the address alone when the text is none, and for \<^verbatim>\<open>sscanf\<close> with \<^verbatim>\<open>%hu\<close>. The buffer for the address has 16
  bytes and that for the file name 64; neither is checked. \<open>Inl\<close> is the text printed before the program gives up.
\<close>

fun client_opts :: "(byte list \<Rightarrow> byte list option) \<Rightarrow> (byte list \<Rightarrow> u16 option) \<Rightarrow> (char \<times> byte list) list \<Rightarrow> server_info \<Rightarrow>
    (event + server_info) option" where
  "client_opts pton scan_port [] s = Some (Inr s)"
| "client_opts pton scan_port ((c, optarg) # os) s =
     (if c = CHR ''d'' then
        let a = takeWhile (\<lambda>b. b \<noteq> 58) optarg in
        if a = [] then Some (Inl (say (ln ''sscanf() failed'')))
        else if 16 \<le> length a then None
        else client_opts pton scan_port os (case pton a of None \<Rightarrow> s | Some i \<Rightarrow> s\<lparr>addr := (addr s)\<lparr>ip := i\<rparr>\<rparr>)
      else if c = CHR ''p'' then (case scan_port optarg of
          None \<Rightarrow> Some (Inl (say (ln ''sscanf() failed'')))
        | Some p \<Rightarrow> client_opts pton scan_port os (s\<lparr>addr := (addr s)\<lparr>port := htons p\<rparr>\<rparr>))
      else if c = CHR ''f'' then
        if 64 \<le> length optarg then None else client_opts pton scan_port os (s\<lparr>filename := optarg\<rparr>)
      else client_opts pton scan_port os s)"

text \<open>\<^verbatim>\<open>main\<close> up to the start of the threads: the events, and the exit code or what the threads are given.\<close>

definition client_start :: "(byte list \<Rightarrow> byte list option) \<Rightarrow> (byte list \<Rightarrow> u16 option) \<Rightarrow> string \<Rightarrow> int \<Rightarrow> (char \<times> byte list) list \<Rightarrow> int \<Rightarrow> int \<Rightarrow>
    (event list \<times> (int + server_info)) option" where
  "client_start pton scan_port argv0 argc os sock_rtn rtn =
     (if argc < 4 then Some ([Printf (ln ''usage: %s -d [dest address] -p [port num] -f [filename]'') [Str argv0]], Inl 1)
      else do {
        r \<leftarrow> client_opts pton scan_port os \<lparr>sock = 0, addr = \<lparr>ip = [0, 0, 0, 0], port = 0\<rparr>, filename = []\<rparr>;
        case r of Inl e \<Rightarrow> Some ([e], Inl (- 1))
        | Inr s \<Rightarrow>
            let (es, ok) = run_steps [
              Check sock_rtn [Perror ''socket() failed'', close sock_rtn],
              Check rtn [Perror ''connect() failed'', close sock_rtn]] in
            Some (es, if ok then Inr (s\<lparr>sock := sock_rtn\<rparr>) else Inl 1) })"

section \<open>The server\<close>

text \<open>The results of \<^verbatim>\<open>sctp_recvmsg\<close>: \<open>-1\<close>, \<open>0\<close> when the connection is closed, which leaves the stream number as it was, or a
  message with the number of its stream.\<close>

datatype received = Recv_error | Recv_closed | Recv nat "byte list"

definition cln_end :: "int \<Rightarrow> int \<Rightarrow> event list" where
  "cln_end fd sd = [close fd, close sd, Call ''free'' []]"

definition msg_line :: "byte list \<Rightarrow> event" where
  "msg_line data = Printf (ln (''recived message from client: '' @ sq ''%s'' @ '' (%d bytes)''))
     [text_arg (cstr (take 256 data)), Num (int (min 256 (length data)))]"

text \<open>What the thread does with a message: the bytes written to the file, the events and the exit code. \<open>rtn\<close> is the result of
  \<^verbatim>\<open>write\<close>.\<close>

definition cln_msg :: "(nat \<Rightarrow> int) \<Rightarrow> int \<Rightarrow> int \<Rightarrow> nat \<Rightarrow> byte list \<Rightarrow> byte list \<times> event list \<times> int option" where
  "cln_msg wr fd sd stream data =
     (if stream = MSG_STREAM then
        if cstr (take 256 data) = bytes_of ''exit'' then
          ([], [msg_line data, say (ln ''client message handler thread bye'')] @ cln_end fd sd, Some 0)
        else ([], [msg_line data], None)
      else if stream = FILE_STREAM then
        let bts = min 256 (length data); rtn = wr bts; w = take (nat rtn) (take bts data) in
        if rtn \<noteq> int bts then (w, Perror ''write() failed'' # cln_end fd sd, Some 0)
        else (w, [], None)
      else ([], [], None))"

fun cln_loop :: "(nat \<Rightarrow> nat \<Rightarrow> int) \<Rightarrow> int \<Rightarrow> int \<Rightarrow> received list \<Rightarrow> nat \<Rightarrow> nat option \<Rightarrow> (byte list \<times> event list \<times> int option) option" where
  "cln_loop wr fd sd [] k stream = Some ([], [], None)"
| "cln_loop wr fd sd (r # rs) k stream =
     (if r = Recv_error then Some ([], Perror ''sctp_recvmsg() failed'' # cln_end fd sd, Some 1)
      else do {
        (n, data) \<leftarrow> (case r of Recv n data \<Rightarrow> Some (n, data) | _ \<Rightarrow> map_option (\<lambda>n. (n, [])) stream);
        let (w, es, c) = cln_msg (wr k) fd sd n data;
        case c of Some c \<Rightarrow> Some (w, es, Some c)
        | None \<Rightarrow> do {
            (w', es', c) \<leftarrow> cln_loop wr fd sd rs (Suc k) (Some n);
            Some (w @ w', es @ es', c) } })"

text \<open>The whole thread: \<open>rtn\<close>, \<open>ntop\<close> and \<open>snp\<close> are the results of \<^verbatim>\<open>setsockopt\<close>, \<^verbatim>\<open>inet_ntop\<close> (\<open>-1\<close> for \<^verbatim>\<open>NULL\<close>) and
  \<^verbatim>\<open>snprintf\<close> (\<open>-1\<close> if negative). The file is named after the client's address alone.\<close>

definition file_name :: "peer \<Rightarrow> string" where
  "file_name a = take 63 (''./files/client_'' @ inet_ntoa (ip a))"

definition cln_hndl :: "(nat \<Rightarrow> nat \<Rightarrow> int) \<Rightarrow> (int \<times> peer) option \<Rightarrow> int \<Rightarrow> int \<Rightarrow> int \<Rightarrow> int \<Rightarrow> received list \<Rightarrow>
    (byte list \<times> event list \<times> int option) option" where
  "cln_hndl wr args rtn ntop snp fd rs = (case args of
     None \<Rightarrow> Some ([], [say (ln ''invalid thread args'')], Some 1)
   | Some (sd, a) \<Rightarrow>
       let fail = (\<lambda>s. [Perror s, close sd, Call ''free'' []]);
           (es, ok) = run_steps [Check rtn (fail ''setsockopt() failed''), Check ntop (fail ''inet_ntop() failed''),
             Check snp (fail ''sprintf() failed''), Show (Call ''open'' [Str (file_name a)]), Check fd (fail ''open() failed'')] in
       if \<not> ok then Some ([], es, Some 1)
       else do { (w, es', c) \<leftarrow> cln_loop wr fd sd rs 0 None; Some (w, es @ es', c) })"

text \<open>The start of the server, and its loop on the results of \<^verbatim>\<open>accept\<close> and \<^verbatim>\<open>malloc\<close>: the threads started, the events and whether
  the server has ended.\<close>

definition server_start :: "int \<Rightarrow> int \<Rightarrow> int \<Rightarrow> event list \<times> bool" where
  "server_start srv_sock bnd lsn = run_steps [
     Check srv_sock [Perror ''socket() failed'', close srv_sock],
     Check bnd [Perror ''bind() failed'', close srv_sock],
     Check lsn [Perror ''listen() failed'', close srv_sock],
     Show (say (ln ''server start...''))]"

fun server_loop :: "int \<Rightarrow> (int \<times> peer \<times> bool) list \<Rightarrow> ((int \<times> peer) list \<times> event list \<times> bool) option" where
  "server_loop srv_sock [] = Some ([], [], False)"
| "server_loop srv_sock ((cln_sock, a, malloc_ok) # rs) =
     (if cln_sock = - 1 then Some ([], [Perror ''accept() failed'', close srv_sock, close cln_sock], True)
      else if \<not> malloc_ok then None
      else do { (ts, es, stop) \<leftarrow> server_loop srv_sock rs; Some ((cln_sock, a) # ts, es, stop) })"

section \<open>What arrives\<close>

text \<open>The file thread sends the pieces it reads, and then ends.\<close>

lemma take_msg_buf: "length d \<le> 256 \<Longrightarrow> take (length d) (msg_buf d) = d"
  by (simp add: msg_buf_def)

lemma exit_bytes: "bytes_of ''exit'' = [101, 120, 105, 116]"
  by (simp add: bytes_of_def)

lemma file_loop_sends:
  "\<forall>c \<in> set cs. c \<noteq> [] \<and> length c \<le> 256 \<Longrightarrow> \<forall>k. send_ok k \<Longrightarrow>
    file_loop send_ok fd (map Some cs @ [Some []]) k = (cs, [close fd], Some 0)"
  by (induction cs arbitrary: k) (simp_all add: Let_def take_msg_buf min_absorb2)

text \<open>What the other thread sends: \<open>exit\<close> is at most its last message.\<close>

lemma msg_loop_sends:
  "msg_loop send_ok ls k = Some (ms, es, c) \<Longrightarrow> \<forall>l. Some l \<in> set ls \<longrightarrow> length (cstr l) \<le> 255 \<Longrightarrow>
    (\<forall>m \<in> set ms. 0 \<notin> set m \<and> length m < 255) \<and> (\<forall>m \<in> set (butlast ms). m \<noteq> bytes_of ''exit'')"
proof (induction send_ok ls k arbitrary: ms es c rule: msg_loop.induct)
  case (3 send_ok l ls k)
  have l: "0 \<notin> set (butlast (cstr l))" using cstr_no_zero[of l] by (auto dest: in_set_butlastD)
  have len: "length (butlast (cstr l)) < 255" if "cstr l \<noteq> []" using 3(3) that by (cases "cstr l") auto
  show ?case
  proof (cases "send_ok k \<and> butlast (cstr l) \<noteq> bytes_of ''exit''")
    case True
    obtain ms' es' c' where r: "msg_loop send_ok ls (Suc k) = Some (ms', es', c')" "ms = butlast (cstr l) # ms'" "cstr l \<noteq> []"
      using 3(2) True by (auto simp: Let_def split: if_splits bind_splits)
    show ?thesis using 3(1)[OF r(3) refl _ refl _ r(1)] 3(3) True l len[OF r(3)] r by (auto split: if_splits)
  next
    case False
    then show ?thesis using 3(2) l len by (auto simp: Let_def exit_bytes split: if_splits)
  qed
qed auto

text \<open>The server's loop on the messages of both threads, in any order that keeps each thread's own.\<close>

lemma cln_loop_exit:
  "cln_loop wr fd sd (Recv MSG_STREAM (bytes_of ''exit'') # rs) k st =
    Some ([], msg_line (bytes_of ''exit'') # say (ln ''client message handler thread bye'') # cln_end fd sd, Some 0)"
  by (simp add: cln_msg_def exit_bytes cstr_def)

lemma cln_loop_shuffle:
  assumes "\<forall>k n. wr k n = int n"
  shows "order \<in> shuffles (map (Recv FILE_STREAM) F) (map (Recv MSG_STREAM) M) \<Longrightarrow>
    \<forall>m \<in> set M. 0 \<notin> set m \<and> length m < 256 \<and> m \<noteq> bytes_of ''exit'' \<Longrightarrow> \<forall>f \<in> set F. length f \<le> 256 \<Longrightarrow>
    cln_loop wr fd sd (order @ Recv MSG_STREAM (bytes_of ''exit'') # rs) k st = Some (concat F,
      map msg_line (M @ [bytes_of ''exit'']) @ say (ln ''client message handler thread bye'') # cln_end fd sd, Some 0)"
proof (induction order arbitrary: F M k st)
  case Nil
  then have "F = []" "M = []" by (auto simp: Nil_in_shuffles)
  then show ?case using cln_loop_exit by simp
next
  case (Cons r order)
  from Cons.prems(1) consider
      f F' where "F = f # F'" "r = Recv FILE_STREAM f" "order \<in> shuffles (map (Recv FILE_STREAM) F') (map (Recv MSG_STREAM) M)"
    | m M' where "M = m # M'" "r = Recv MSG_STREAM m" "order \<in> shuffles (map (Recv FILE_STREAM) F) (map (Recv MSG_STREAM) M')"
    by (cases F; cases M) (auto simp: Cons_in_shuffles_iff)
  then show ?case
  proof cases
    case 1
    then have "cln_msg (wr k) fd sd FILE_STREAM f = (f, [], None)"
      using Cons.prems assms by (simp add: cln_msg_def Let_def MSG_STREAM_def FILE_STREAM_def)
    moreover note Cons.IH[OF 1(3)]
    ultimately show ?thesis using 1 Cons.prems by simp
  next
    case 2
    then have "cln_msg (wr k) fd sd MSG_STREAM m = ([], [msg_line m], None)"
      using Cons.prems by (simp add: cln_msg_def cstr_id)
    moreover note Cons.IH[OF 2(3)]
    ultimately show ?thesis using 2 Cons.prems by simp
  qed
qed

lemma shuffle_split:
  "zs \<in> shuffles xs (ys @ [y]) \<Longrightarrow> \<exists>n us. us \<in> shuffles (take n xs) ys \<and> zs = us @ y # drop n xs"
proof (induction zs arbitrary: xs ys)
  case Nil
  then show ?case by (simp add: Nil_in_shuffles)
next
  case (Cons z zs)
  from Cons.prems consider x xs' where "xs = x # xs'" "z = x" "zs \<in> shuffles xs' (ys @ [y])"
    | "ys = []" "z = y" "zs = xs"
    | y' ys' where "ys = y' # ys'" "z = y'" "zs \<in> shuffles xs (ys' @ [y])"
    by (cases xs; cases ys) (auto simp: Cons_in_shuffles_iff)
  then show ?case
  proof cases
    case 1
    obtain n us where "us \<in> shuffles (take n xs') ys" "zs = us @ y # drop n xs'" using Cons.IH[OF 1(3)] by blast
    then show ?thesis using 1 by (intro exI[of _ "Suc n"] exI[of _ "z # us"]) (auto simp: Cons_in_shuffles_iff)
  next
    case 2
    then show ?thesis by (intro exI[of _ 0] exI[of _ "[]"]) simp
  next
    case 3
    obtain n us where "us \<in> shuffles (take n xs) ys'" "zs = us @ y # drop n xs" using Cons.IH[OF 3(3)] by blast
    then show ?thesis using 3 by (intro exI[of _ n] exI[of _ "z # us"]) (auto simp: Cons_in_shuffles_iff)
  qed
qed

text \<open>C20: The transfer is right except for its end, as long as every system call succeeds and no line typed is
  empty (\<^verbatim>\<open>sctp_sendmsg\<close> refuses an empty message, which ends the thread). Whatever the order in which the
  messages of the client's two threads arrive, it is some first pieces of the file mixed with the lines, then
  \<^verbatim>\<open>exit\<close>, then the pieces left. The server's file is made of exactly the pieces in front of \<^verbatim>\<open>exit\<close>, in order
  and whole, and every line typed is shown in order, after which the thread ends: the pieces behind \<^verbatim>\<open>exit\<close>
  are lost. If \<^verbatim>\<open>exit\<close> arrives behind all the rest, the server's file is the client's.\<close>
theorem sctp_transfer:
  assumes "\<forall>c \<in> set cs. c \<noteq> [] \<and> length c \<le> 256" "file_hndl (Some srv_info) (\<lambda>_. True) fd (map Some cs @ [Some []]) = (F, ef, Some 0)"
    and "\<forall>l. Some l \<in> set ls \<longrightarrow> length (cstr l) \<le> 255" "msg_hndl (Some srv_info) (\<lambda>_. True) ls = Some (M @ [bytes_of ''exit''], em, Some 1)"
    and "[] \<notin> set M"
    and "order \<in> shuffles (map (Recv FILE_STREAM) F) (map (Recv MSG_STREAM) (M @ [bytes_of ''exit'']))" "\<forall>k n. wr k n = int n" "sfd \<noteq> - 1"
  shows "\<exists>n us. order = us @ Recv MSG_STREAM (bytes_of ''exit'') # map (Recv FILE_STREAM) (drop n cs) \<and>
      us \<in> shuffles (map (Recv FILE_STREAM) (take n cs)) (map (Recv MSG_STREAM) M) \<and>
      cln_hndl wr (Some (sd, a)) 0 0 0 sfd order = Some (concat (take n cs),
      Call ''open'' [Str (file_name a)] # map msg_line (M @ [bytes_of ''exit'']) @ say (ln ''client message handler thread bye'') # cln_end sfd sd, Some 0) \<and>
      (last order = Recv MSG_STREAM (bytes_of ''exit'') \<longrightarrow> concat (take n cs) = concat cs)"
proof -
  have F: "F = cs" using assms(2) file_loop_sends[OF assms(1), of "\<lambda>_. True" fd 0] by (simp add: file_hndl_def split: if_splits)
  have M: "\<forall>m \<in> set M. 0 \<notin> set m \<and> length m < 256 \<and> m \<noteq> bytes_of ''exit''"
    using msg_loop_sends[OF _ assms(3)] assms(4) by (fastforce simp: msg_hndl_def)
  obtain n us where us: "us \<in> shuffles (map (Recv FILE_STREAM) (take n cs)) (map (Recv MSG_STREAM) M)"
    "order = us @ Recv MSG_STREAM (bytes_of ''exit'') # drop n (map (Recv FILE_STREAM) cs)"
    using shuffle_split[of order "map (Recv FILE_STREAM) F" "map (Recv MSG_STREAM) M" "Recv MSG_STREAM (bytes_of ''exit'')"] assms(6) F
    by (auto simp: take_map)
  have "\<forall>f \<in> set (take n cs). length f \<le> 256" using assms(1) by (auto dest: in_set_takeD)
  then have "cln_loop wr sfd sd order 0 None = Some (concat (take n cs),
      map msg_line (M @ [bytes_of ''exit'']) @ say (ln ''client message handler thread bye'') # cln_end sfd sd, Some 0)"
    unfolding us(2) by (rule cln_loop_shuffle[OF assms(7) us(1) M])
  moreover have "length cs \<le> n" if "last order = Recv MSG_STREAM (bytes_of ''exit'')"
  proof (rule ccontr)
    assume "\<not> length cs \<le> n"
    then have "last order = Recv FILE_STREAM (last cs)" by (simp add: us(2) drop_map last_map)
    then show False using that by (simp add: MSG_STREAM_def FILE_STREAM_def)
  qed
  ultimately have "cln_hndl wr (Some (sd, a)) 0 0 0 sfd order = Some (concat (take n cs),
      Call ''open'' [Str (file_name a)] # map msg_line (M @ [bytes_of ''exit'']) @ say (ln ''client message handler thread bye'') # cln_end sfd sd, Some 0)"
    "last order = Recv MSG_STREAM (bytes_of ''exit'') \<Longrightarrow> concat (take n cs) = concat cs"
    using assms(8) by (simp_all add: cln_hndl_def Let_def)
  then show ?thesis using us unfolding drop_map by blast
qed

theorem sctp_transfer_witness:
  "\<exists>n us. [Recv FILE_STREAM [1, 2], Recv MSG_STREAM (bytes_of ''exit''), Recv FILE_STREAM [3]] =
      us @ Recv MSG_STREAM (bytes_of ''exit'') # map (Recv FILE_STREAM) (drop n [[1, 2], [3]]) \<and>
    cln_hndl (\<lambda>_. int) (Some (5, \<lparr>ip = [127, 0, 0, 1], port = 0\<rparr>)) 0 0 0 6
      [Recv FILE_STREAM [1, 2], Recv MSG_STREAM (bytes_of ''exit''), Recv FILE_STREAM [3]] =
    Some (concat (take n [[1, 2], [3]]), Call ''open'' [Str (file_name \<lparr>ip = [127, 0, 0, 1], port = 0\<rparr>)] #
      map msg_line [bytes_of ''exit''] @ say (ln ''client message handler thread bye'') # cln_end 6 5, Some 0)"
proof -
  let ?s = "\<lparr>sock = 3, addr = \<lparr>ip = [127, 0, 0, 1], port = 0\<rparr>, filename = []\<rparr>" and ?ls = "[Some (bytes_of ''exit'' @ [10, 0])]"
  have f: "file_hndl (Some ?s) (\<lambda>_. True) 4 (map Some [[1, 2], [3]] @ [Some []]) = ([[1, 2], [3]], [close 4], Some 0)"
    by (simp add: file_hndl_def msg_buf_def)
  have m: "msg_hndl (Some ?s) (\<lambda>_. True) ?ls = Some ([] @ [bytes_of ''exit''],
      [say ''message: '', Printf (ln (''send message to server: '' @ sq ''%s'' @ '' (%d bytes)'')) [text_arg (bytes_of ''exit''), Num 4],
       say (ln ''message thread bye'')], Some 1)"
    by (simp add: msg_hndl_def exit_bytes cstr_def)
  have o: "[Recv FILE_STREAM [1, 2], Recv MSG_STREAM (bytes_of ''exit''), Recv FILE_STREAM [3]] \<in>
      shuffles (map (Recv FILE_STREAM) [[1, 2], [3]]) (map (Recv MSG_STREAM) ([] @ [bytes_of ''exit'']))"
    by (simp add: Cons_in_shuffles_iff)
  have c: "\<forall>c \<in> set [[1, 2], [3 :: byte]]. c \<noteq> [] \<and> length c \<le> 256" "\<forall>l. Some l \<in> set ?ls \<longrightarrow> length (cstr l) \<le> 255"
    "[] \<notin> set ([] :: byte list list)" "\<forall>(k :: nat) n. int n = int n" "(6 :: int) \<noteq> - 1"
    by (simp_all add: exit_bytes cstr_def)
  show ?thesis
    using sctp_transfer[OF c(1) f c(2) m c(3) o c(4,5), of 5 "\<lparr>ip = [127, 0, 0, 1], port = 0\<rparr>", unfolded append_Nil] by blast
qed

text \<open>When the client goes without \<open>exit\<close>, as it does at the end of the input, the server's thread shows an empty line for
  ever if a line was the last it received. A connection that sends nothing makes it use a variable without a value.\<close>
theorem sctp_closed_spins:
  "cln_loop wr fd sd (replicate n Recv_closed) k (Some MSG_STREAM) = Some ([], replicate n (msg_line []), None)"
  "cln_loop wr fd sd (Recv_closed # rs) k None = None"
  by (induction n arbitrary: k) (simp_all add: cln_msg_def exit_bytes cstr_def)

text \<open>Options: the client's address, port and file are those given, the last of each, if the texts fit their
  buffers; a longer file name or address overruns its buffer.\<close>
theorem sctp_options:
  assumes "a \<noteq> []" "length a < 16" "58 \<notin> set a" "pton a = Some i" "scan_port p = Some n" "length f < 64"
  shows "client_start pton scan_port argv0 7 [(CHR ''d'', a), (CHR ''p'', p), (CHR ''f'', f)] sd 0 =
    Some (if sd = - 1 then ([Perror ''socket() failed'', close sd], Inl 1)
      else ([], Inr \<lparr>sock = sd, addr = \<lparr>ip = i, port = htons n\<rparr>, filename = f\<rparr>))"
proof -
  have w: "takeWhile (\<lambda>b. b \<noteq> 58) a = a" using assms(3) by (auto simp: takeWhile_eq_all_conv)
  show ?thesis using assms by (simp add: client_start_def Let_def w)
qed

end
