(* ===== verification/Packet_Hooks.thy ===== *)
theory Packet_Hooks
  imports Dns_Proxy C_Output
begin

text \<open>
  The other kernel modules that work on packets: the port filter \<^verbatim>\<open>src/netfilter/port_filter.c\<close>, and in
  \<^verbatim>\<open>src/sk_buff_icmp_module\<close> a hook that reports ICMP packets and a module that sends an echo request.

  A socket buffer is the byte list from its network header on; \<open>None\<close> is an access outside it. The kernel's
  checksum function is the parameter \<open>csum\<close>.
\<close>

section \<open>The port filter\<close>

definition BLOCK_PORT :: u16 where "BLOCK_PORT = 7777"

definition port_filter_hook :: "u16 \<Rightarrow> byte list \<Rightarrow> verdict option" where
  "port_filter_hook protocol skb =
     (if protocol \<noteq> htons 0x0800 then Some NF_ACCEPT
      else do {
        b0 \<leftarrow> ld8 skb 0;
        if drop_bit 4 b0 \<noteq> 4 then Some NF_ACCEPT
        else do {
          let transport_header = unat (b0 AND 0x0F) * 4;
          proto \<leftarrow> ld8 skb 9;
          if proto = 6 then do {
            dest \<leftarrow> ld16 skb (transport_header + 2);
            Some (if dest = htons BLOCK_PORT then NF_DROP else NF_ACCEPT) }
          else if proto = 17 then do {
            dest \<leftarrow> ld16 skb (transport_header + 2);
            Some (if dest = htons BLOCK_PORT then NF_DROP else NF_ACCEPT) }
          else Some NF_ACCEPT } })"

section \<open>ICMP\<close>

definition icmp_report_hook :: "u16 \<Rightarrow> byte list \<Rightarrow> (verdict \<times> event list) option" where
  "icmp_report_hook protocol skb =
     (if protocol \<noteq> htons 0x0800 then Some (NF_ACCEPT, [])
      else do {
        b0 \<leftarrow> ld8 skb 0;
        if drop_bit 4 b0 \<noteq> 4 then Some (NF_ACCEPT, [])
        else do {
          proto \<leftarrow> ld8 skb 9;
          Some (NF_ACCEPT, if proto = 1 then [say (ln ''ICMP packet, ezhi!'')] else []) } })"

text \<open>The two addresses, as \<^verbatim>\<open>inet_addr\<close> of the module stores them.\<close>

definition SOURCE_IP :: "byte list" where "SOURCE_IP = [192, 168, 43, 146]"
definition DEST_IP :: "byte list" where "DEST_IP = [8, 8, 8, 8]"

text \<open>The headers, written into the 28 bytes behind the network header of a new buffer.\<close>

definition put_iph :: "byte list \<Rightarrow> byte list option" where
  "put_iph p = do {
     p \<leftarrow> st8 p 0 0x45;
     p \<leftarrow> st8 p 1 0;
     p \<leftarrow> st16 p 2 28;
     p \<leftarrow> st16 p 4 (htons 1234);
     p \<leftarrow> st16 p 6 0;
     p \<leftarrow> st8 p 8 255;
     p \<leftarrow> st8 p 9 1;
     p \<leftarrow> st16 p 10 0;
     p \<leftarrow> stn p 12 SOURCE_IP;
     stn p 16 DEST_IP }"

definition put_icmph :: "(byte list \<Rightarrow> u16) \<Rightarrow> byte list \<Rightarrow> byte list option" where
  "put_icmph csum p = do {
     p \<leftarrow> st8 p 20 8;
     p \<leftarrow> st8 p 21 0;
     p \<leftarrow> st16 p 22 0;
     p \<leftarrow> st16 p 26 0;
     p \<leftarrow> st16 p 24 0;
     bs \<leftarrow> ldn p 20 8;
     st16 p 22 (csum bs) }"

text \<open>\<open>skb\<close> is the new buffer's content (\<open>None\<close>: out of memory), \<open>dev_ok\<close> and \<open>route_ok\<close> say whether the device and a route were found,
  which the module does not check, and \<open>rtn\<close> is the result of \<^verbatim>\<open>ip_local_out\<close>. The result is the packet sent and the
  events.\<close>

definition icmp_ping :: "(byte list \<Rightarrow> u16) \<Rightarrow> byte list option \<Rightarrow> bool \<Rightarrow> bool \<Rightarrow> int \<Rightarrow> (byte list option \<times> event list) option" where
  "icmp_ping csum skb dev_ok route_ok rtn = (case skb of
     None \<Rightarrow> Some (None, [say (ln ''after alloc''), say ''alloc_skb''])
   | Some p \<Rightarrow> do {
       p \<leftarrow> put_iph p;
       p \<leftarrow> put_icmph csum p;
       if \<not> dev_ok \<or> \<not> route_ok then None
       else Some (Some p, [say (ln ''after alloc''), say (ln ''before ip_local_out''), Printf ''ip_local_out: %d'' [Num rtn]]) })"

section \<open>What the modules do\<close>

text \<open>An IPv4 header of \<open>n\<close> words for a protocol, whatever its other fields.\<close>

definition ipv4_header :: "nat \<Rightarrow> byte \<Rightarrow> byte list \<Rightarrow> bool" where
  "ipv4_header n proto hdr = (5 \<le> n \<and> n < 16 \<and> length hdr = 4 * n \<and> hdr ! 0 = 0x40 OR of_nat n \<and> hdr ! 9 = proto)"

lemma version_ihl:
  assumes "n < 16"
  shows "drop_bit 4 (0x40 OR of_nat n :: byte) = 4" "unat ((0x40 OR of_nat n :: byte) AND 0x0F) = n"
proof -
  have "\<forall>n \<in> set [0..<16]. drop_bit 4 (0x40 OR of_nat n :: byte) = 4 \<and> unat ((0x40 OR of_nat n :: byte) AND 0x0F) = n"
    by code_simp
  then show "drop_bit 4 (0x40 OR of_nat n :: byte) = 4" "unat ((0x40 OR of_nat n :: byte) AND 0x0F) = n" using assms by auto
qed

lemma ipv4_headerE:
  assumes "ipv4_header n proto hdr"
  obtains b where "\<And>x. ld8 (hdr @ x) 0 = Some b" "\<And>x. ld8 (hdr @ x) 9 = Some proto" "drop_bit 4 b = 4" "unat (b AND 0x0F) = n" "length hdr = n * 4"
proof (rule that[of "0x40 OR of_nat n"])
  show "ld8 (hdr @ x) 0 = Some (0x40 OR of_nat n)" "ld8 (hdr @ x) 9 = Some proto" for x
    using assms by (auto simp: ipv4_header_def ld8_def nth_append)
qed (use assms version_ihl[of n] in \<open>auto simp: ipv4_header_def\<close>)

lemma port_filter_cases:
  assumes "ipv4_header n proto hdr"
  shows "port_filter_hook (htons 0x0800) (hdr @ [s1, s2, hi8 port, lo8 port] @ rest) =
    Some (if (proto = 6 \<or> proto = 17) \<and> port = 7777 then NF_DROP else NF_ACCEPT)"
    "proto \<noteq> 6 \<Longrightarrow> proto \<noteq> 17 \<Longrightarrow> port_filter_hook (htons 0x0800) (hdr @ rest) = Some NF_ACCEPT"
    "protocol \<noteq> htons 0x0800 \<Longrightarrow> port_filter_hook protocol skb = Some NF_ACCEPT"
proof -
  obtain b where l: "\<And>x. ld8 (hdr @ x) 0 = Some b" "\<And>x. ld8 (hdr @ x) 9 = Some proto"
    and b: "drop_bit 4 b = 4" "unat (b AND 0x0F) = n" and h: "length hdr = n * 4" by (rule ipv4_headerE[OF assms]) blast
  have p: "ld16 (hdr @ [s1, s2, hi8 port, lo8 port] @ rest) (n * 4 + 2) = Some (swap16 port)"
    using h swap16_le16[of "lo8 port" "hi8 port"] by (simp add: ld16_def nth_append)
  have e: "swap16 port = htons BLOCK_PORT \<longleftrightarrow> port = 7777" by (metis BLOCK_PORT_def swap16_swap16)
  define skb' where "skb' = hdr @ [s1, s2, hi8 port, lo8 port] @ rest"
  have "ld8 skb' 0 = Some b" "ld8 skb' 9 = Some proto" "ld16 skb' (Suc (Suc (n * 4))) = Some (swap16 port)"
    using l p by (auto simp: skb'_def)
  then have "port_filter_hook (htons 0x0800) skb' = Some (if (proto = 6 \<or> proto = 17) \<and> port = 7777 then NF_DROP else NF_ACCEPT)"
    by (simp add: port_filter_hook_def b e Let_def)
  then show "port_filter_hook (htons 0x0800) (hdr @ [s1, s2, hi8 port, lo8 port] @ rest) =
      Some (if (proto = 6 \<or> proto = 17) \<and> port = 7777 then NF_DROP else NF_ACCEPT)" by (simp only: skb'_def)
  show "proto \<noteq> 6 \<Longrightarrow> proto \<noteq> 17 \<Longrightarrow> port_filter_hook (htons 0x0800) (hdr @ rest) = Some NF_ACCEPT"
    by (simp add: port_filter_hook_def l b)
  show "protocol \<noteq> htons 0x0800 \<Longrightarrow> port_filter_hook protocol skb = Some NF_ACCEPT" by (simp add: port_filter_hook_def)
qed

text \<open>The port filter drops exactly the TCP segments and UDP datagrams for port 7777, and nothing else: for every
  IPv4 header, with options or without, and every payload that starts with two ports in network byte order. Other
  protocols are passed whatever they carry.\<close>
theorem port_filter_exact:
  assumes "ipv4_header n proto hdr"
  shows "port_filter_hook (htons 0x0800) (hdr @ [s1, s2, hi8 port, lo8 port] @ rest) =
      Some (if (proto = 6 \<or> proto = 17) \<and> port = 7777 then NF_DROP else NF_ACCEPT) \<and>
    (proto \<noteq> 6 \<and> proto \<noteq> 17 \<longrightarrow> port_filter_hook (htons 0x0800) (hdr @ rest) = Some NF_ACCEPT) \<and>
    (protocol \<noteq> htons 0x0800 \<longrightarrow> port_filter_hook protocol skb = Some NF_ACCEPT)"
  using port_filter_cases[OF assms] by blast

definition sample_ip :: "byte list" where
  "sample_ip = [0x45, 0, 0, 28, 0, 0, 0, 0, 64, 17, 0, 0, 10, 0, 0, 1, 10, 0, 0, 2]"

theorem port_filter_exact_witness:
  "port_filter_hook (htons 0x0800) (sample_ip @ [0, 53, hi8 7777, lo8 7777] @ []) = Some NF_DROP"
proof -
  have h: "ipv4_header 5 17 sample_ip" by (simp add: ipv4_header_def sample_ip_def)
  show ?thesis using port_filter_exact[OF h, of 0 53 7777 "[]"] by simp
qed

lemma icmp_ping_cases:
  assumes "length buf = 28" "\<forall>bs. length bs = 8 \<longrightarrow> compute_checksum bs 8 = Some (csum bs)"
  shows "\<exists>p es. icmp_ping csum (Some buf) True True rtn = Some (Some p, es) \<and> length p = 28 \<and>
      take 12 p = [0x45, 0, 28, 0, 4, 0xD2, 0, 0, 255, 1, 0, 0] \<and> sub p 12 4 = SOURCE_IP \<and> sub p 16 4 = DEST_IP \<and>
      p ! 20 = 8 \<and> compute_checksum (drop 20 p) 8 = Some 0"
    "icmp_ping csum None dev_ok route_ok rtn = Some (None, [say (ln ''after alloc''), say ''alloc_skb''])"
    "\<not> (dev_ok \<and> route_ok) \<Longrightarrow> icmp_ping csum (Some buf) dev_ok route_ok rtn = None"
proof -
  let ?h = "[0x45, 0, 28, 0, 4, 0xD2, 0, 0, 255, 1, 0, 0] @ SOURCE_IP @ DEST_IP"
  have c: "csum [8, 0, 0, 0, 0, 0, 0, 0] = 0xFFF7"
  proof -
    have "compute_checksum [8, 0, 0, 0, 0, 0, 0, 0] 8 = Some 0xFFF7" by code_simp
    then show ?thesis using assms(2)[rule_format, of "[8, 0, 0, 0, 0, 0, 0, 0]"] by simp
  qed
  have w: "lo8 28 = 28" "hi8 28 = 0" "lo8 (swap16 1234) = 4" "hi8 (swap16 1234) = 0xD2" "lo8 0 = 0" "hi8 0 = 0"
    "lo8 0xFFF7 = 0xF7" "hi8 0xFFF7 = 0xFF" by code_simp+
  have i: "put_iph buf = Some (?h @ drop 20 buf)"
    using assms(1) by (simp add: put_iph_def store_rules length_upd upd_def SOURCE_IP_def DEST_IP_def w)
  have "put_icmph csum (?h @ ys) = Some (?h @ [8, 0, 0xF7, 0xFF, 0, 0, 0, 0])" if "length ys = 8" for ys
    using that by (simp add: put_icmph_def store_rules load_rules length_upd upd_def sub_def SOURCE_IP_def DEST_IP_def w c)
  then have "icmp_ping csum (Some buf) True True rtn = Some (Some (?h @ [8, 0, 0xF7, 0xFF, 0, 0, 0, 0]),
      [say (ln ''after alloc''), say (ln ''before ip_local_out''), Printf ''ip_local_out: %d'' [Num rtn]])"
    using assms(1) by (simp add: icmp_ping_def i)
  moreover have "compute_checksum [8, 0, 0xF7, 0xFF, 0, 0, 0, 0] 8 = Some 0" by code_simp
  ultimately show "\<exists>p es. icmp_ping csum (Some buf) True True rtn = Some (Some p, es) \<and> length p = 28 \<and>
      take 12 p = [0x45, 0, 28, 0, 4, 0xD2, 0, 0, 255, 1, 0, 0] \<and> sub p 12 4 = SOURCE_IP \<and> sub p 16 4 = DEST_IP \<and>
      p ! 20 = 8 \<and> compute_checksum (drop 20 p) 8 = Some 0"
    by (intro exI conjI) (auto simp: sub_def SOURCE_IP_def DEST_IP_def)
  show "\<not> (dev_ok \<and> route_ok) \<Longrightarrow> icmp_ping csum (Some buf) dev_ok route_ok rtn = None"
    by (auto simp: icmp_ping_def intro!: bind_eq_None_conv[THEN iffD2])
qed (simp_all add: icmp_ping_def)

text \<open>The echo request is well formed, whatever was in the buffer: with the kernel's checksum the one's-complement
  sum over the ICMP part is right, and the addresses and the protocol are those of the module. Without memory nothing is
  sent; without the device or a route the module dereferences what is not there.\<close>
theorem icmp_ping_valid:
  assumes "length buf = 28" "\<forall>bs. length bs = 8 \<longrightarrow> compute_checksum bs 8 = Some (csum bs)"
  shows "(\<exists>p es. icmp_ping csum (Some buf) True True rtn = Some (Some p, es) \<and> length p = 28 \<and>
      take 12 p = [0x45, 0, 28, 0, 4, 0xD2, 0, 0, 255, 1, 0, 0] \<and> sub p 12 4 = SOURCE_IP \<and> sub p 16 4 = DEST_IP \<and>
      p ! 20 = 8 \<and> compute_checksum (drop 20 p) 8 = Some 0) \<and>
    icmp_ping csum None dev_ok route_ok rtn = Some (None, [say (ln ''after alloc''), say ''alloc_skb'']) \<and>
    (\<not> (dev_ok \<and> route_ok) \<longrightarrow> icmp_ping csum (Some buf) dev_ok route_ok rtn = None)"
  using icmp_ping_cases[OF assms] by blast

theorem icmp_ping_valid_witness:
  "\<exists>p es. icmp_ping (\<lambda>bs. the (compute_checksum bs 8)) (Some (replicate 28 0)) True True 0 = Some (Some p, es) \<and> length p = 28 \<and>
      take 12 p = [0x45, 0, 28, 0, 4, 0xD2, 0, 0, 255, 1, 0, 0] \<and> sub p 12 4 = SOURCE_IP \<and> sub p 16 4 = DEST_IP \<and>
      p ! 20 = 8 \<and> compute_checksum (drop 20 p) 8 = Some 0"
proof -
  have "\<forall>bs. length bs = 8 \<longrightarrow> compute_checksum bs 8 = Some (the (compute_checksum bs 8))"
    using compute_checksum_total by (fastforce simp: covers_def)
  then show ?thesis using icmp_ping_valid[of "replicate 28 0" "\<lambda>bs. the (compute_checksum bs 8)" 0] by simp
qed

end
