(* ===== verification/Window_Layout.thy ===== *)
theory Window_Layout
  imports Main "HOL-Library.Signed_Division"
begin

text \<open>
  Where \<^verbatim>\<open>src/file_manager/lib/graph.c\<close> and \<^verbatim>\<open>popup.c\<close> put their windows, for a screen of \<open>LINES\<close> rows and \<open>COLS\<close> columns. A function
  that makes windows is the list of what it asks the ncurses library for. \<^verbatim>\<open>derwin\<close> fails when the new window does not lie inside its
  parent (a size of 0 stands for the rest of the parent and is not meant anywhere); \<open>inside\<close> is that condition. \<^verbatim>\<open>newwin\<close> fails for
  a negative position or size; \<open>newwin_ok\<close> is that one. The dialogs check every call with \<^verbatim>\<open>assert\<close>, the panels check none.
\<close>

section \<open>Windows\<close>

record rect =
  begy :: int
  begx :: int
  nrows :: int
  ncols :: int

definition rect :: "int \<Rightarrow> int \<Rightarrow> int \<Rightarrow> int \<Rightarrow> rect" where
  "rect rows cols y x = \<lparr>begy = y, begx = x, nrows = rows, ncols = cols\<rparr>"

text \<open>The position of a window is relative to its parent.\<close>

definition inside :: "rect \<Rightarrow> rect \<Rightarrow> bool" where
  "inside parent w \<longleftrightarrow> 0 \<le> begy w \<and> 0 \<le> begx w \<and> 0 < nrows w \<and> 0 < ncols w \<and>
     begy w + nrows w \<le> nrows parent \<and> begx w + ncols w \<le> ncols parent"

definition newwin_ok :: "rect \<Rightarrow> bool" where
  "newwin_ok w \<longleftrightarrow> 0 \<le> begy w \<and> 0 \<le> begx w \<and> 0 < nrows w \<and> 0 < ncols w"

definition right_end :: "rect \<Rightarrow> int" where
  "right_end w = begx w + ncols w"

section \<open>The panels\<close>

record panel_wnds =
  p_wnd :: rect
  fn_wnd :: rect
  ow_wnd :: rect
  s_wnd :: rect
  mt_wnd :: rect
  pr_wnd :: rect

definition panel_at :: "int \<Rightarrow> int \<Rightarrow> int \<Rightarrow> panel_wnds" where
  "panel_at LINES COLS x = \<lparr>
     p_wnd = rect LINES (COLS div 2) 0 x,
     fn_wnd = rect (LINES - 2) (COLS div 2 - 48) 1 2,
     ow_wnd = rect (LINES - 2) 13 1 (COLS div 2 - 44),
     s_wnd = rect (LINES - 2) 9 1 (COLS div 2 - 31),
     mt_wnd = rect (LINES - 2) 13 1 (COLS div 2 - 20),
     pr_wnd = rect (LINES - 2) 4 1 (COLS div 2 - 5)\<rparr>"

definition init_workspace :: "int \<Rightarrow> int \<Rightarrow> panel_wnds \<times> panel_wnds" where
  "init_workspace LINES COLS = (panel_at LINES COLS 0, panel_at LINES COLS (COLS div 2))"

text \<open>Where \<^verbatim>\<open>print_dir_static\<close> moves to before it writes the directory and the number of entries into the frame.\<close>

definition title_pos :: "int \<Rightarrow> nat \<Rightarrow> int \<times> int" where
  "title_pos COLS len = (0, COLS div 4 - int (len div 2) - 3)"

definition total_pos :: "int \<Rightarrow> int \<Rightarrow> int \<times> int" where
  "total_pos LINES COLS = (LINES - 1, (COLS div 2 - 46) sdiv 2 - 6)"

section \<open>The dialogs\<close>

record field =
  f_cols :: int
  f_row :: int
  f_col :: int
  f_active :: bool
  f_text :: string

text \<open>Every second field is for input; the others are labels.\<close>

definition popup_field :: "int \<Rightarrow> string list \<Rightarrow> nat \<Rightarrow> field" where
  "popup_field cols requests i = \<lparr>
     f_cols = (if i mod 2 = 1 then cols - 6 else int (length (requests ! i))),
     f_row = 2 * int i, f_col = 1, f_active = (i mod 2 = 1), f_text = requests ! i\<rparr>"

definition popup_form_fields :: "int \<Rightarrow> string list \<Rightarrow> field list" where
  "popup_form_fields cols requests = map (popup_field cols requests) [0..<length requests]"

text \<open>The size of a form is the smallest that holds its fields; that of a menu in one row is given by the number of its items and the
  longest name, with \<open>spc\<close> the space between items.\<close>

definition form_rows :: "field list \<Rightarrow> int" where
  "form_rows fs = foldr (\<lambda>f m. max (f_row f + 1) m) fs 0"

definition form_cols :: "field list \<Rightarrow> int" where
  "form_cols fs = foldr (\<lambda>f m. max (f_col f + f_cols f) m) fs 0"

definition menu_width :: "int \<Rightarrow> string list \<Rightarrow> int" where
  "menu_width spc names = int (length names) * (foldr (\<lambda>n m. max (int (length n)) m) names 0 + spc)"

record popup_wnds =
  win_body :: rect
  win_menu :: rect
  menu_sub :: rect
  win_form :: rect
  form_sub :: rect
  form_fields :: "field list"
  title_x :: int

definition popup_new :: "int \<Rightarrow> int \<Rightarrow> int \<Rightarrow> int \<Rightarrow> int \<Rightarrow> string list \<Rightarrow> string list \<Rightarrow> string \<Rightarrow> popup_wnds" where
  "popup_new spc rows cols posy posx buttons requests title = (
     let tmp = menu_width spc buttons - 1; fs = popup_form_fields cols requests in \<lparr>
       win_body = rect rows cols posy posx,
       win_menu = rect 3 (cols - 2) (rows - 4) 1,
       menu_sub = rect 1 tmp 1 ((cols - 3 - tmp) sdiv 2),
       win_form = rect (rows - 5) (cols - 2) 1 1,
       form_sub = rect (form_rows fs + 1) (form_cols fs + 1) 1 1,
       form_fields = fs,
       title_x = cols div 2 - int (length title div 2)\<rparr>)"

text \<open>What the assertions ask for.\<close>

definition popup_opens :: "popup_wnds \<Rightarrow> bool" where
  "popup_opens p \<longleftrightarrow> newwin_ok (win_body p) \<and> inside (win_body p) (win_menu p) \<and> inside (win_menu p) (menu_sub p) \<and> inside (win_body p) (win_form p) \<and>
     inside (win_form p) (form_sub p) \<and> list_all (\<lambda>f. 0 < f_cols f \<and> 0 \<le> f_row f \<and> 0 \<le> f_col f) (form_fields p)"

definition copy_popup :: "int \<Rightarrow> int \<Rightarrow> string \<Rightarrow> string \<Rightarrow> popup_wnds" where
  "copy_popup LINES COLS fn_src fn_dst = popup_new 1 15 (COLS div 2) ((LINES - 13) sdiv 2) (COLS div 4) ['' OK'', '' CANCEL'']
     [''From:'', fn_src, ''To:'', fn_dst] ''[ Copying ]''"

definition del_popup :: "int \<Rightarrow> int \<Rightarrow> string \<Rightarrow> popup_wnds" where
  "del_popup LINES COLS del_file = popup_new 1 11 (COLS div 2) ((LINES - 13) sdiv 2) (COLS div 4) ['' OK'', '' CANCEL'']
     [''File:'', del_file] ''[ Remove ]''"

section \<open>Everything fits\<close>

definition panel_fits :: "panel_wnds \<Rightarrow> bool" where
  "panel_fits w \<longleftrightarrow> newwin_ok (p_wnd w) \<and> inside (p_wnd w) (fn_wnd w) \<and> inside (p_wnd w) (ow_wnd w) \<and> inside (p_wnd w) (s_wnd w) \<and> inside (p_wnd w) (mt_wnd w) \<and>
     inside (p_wnd w) (pr_wnd w)"

text \<open>The columns of a panel, from left to right, with the frame outside.\<close>

definition panel_ordered :: "panel_wnds \<Rightarrow> bool" where
  "panel_ordered w \<longleftrightarrow> 1 \<le> begx (fn_wnd w) \<and> right_end (fn_wnd w) \<le> begx (ow_wnd w) \<and> right_end (ow_wnd w) \<le> begx (s_wnd w) \<and>
     right_end (s_wnd w) \<le> begx (mt_wnd w) \<and> right_end (mt_wnd w) \<le> begx (pr_wnd w) \<and> right_end (pr_wnd w) \<le> ncols (p_wnd w) - 1"

lemmas layout_defs = rect_def inside_def newwin_ok_def right_end_def panel_at_def panel_fits_def panel_ordered_def

lemma panel_fits_iff: "0 \<le> x \<or> x = COLS div 2 \<Longrightarrow> panel_fits (panel_at LINES COLS x) \<longleftrightarrow> 98 \<le> COLS \<and> 3 \<le> LINES"
  by (auto simp: layout_defs)

lemma panel_is_ordered: "panel_ordered (panel_at LINES COLS x)"
  by (simp add: layout_defs)

lemmas popup_defs = popup_new_def popup_form_fields_def popup_field_def form_rows_def form_cols_def menu_width_def popup_opens_def upt_rec

lemma sdiv_2: "(x :: int) sdiv 2 = (if x < 0 then - (- x div 2) else x div 2)"
  by (cases "x = 0") (auto simp: signed_divide_int_def sgn_if)

lemma copy_popup_opens: "popup_opens (copy_popup LINES COLS src dst) \<longleftrightarrow> 34 \<le> COLS \<and> 12 \<le> LINES"
  by (auto simp: copy_popup_def popup_defs layout_defs sdiv_2)

lemma del_popup_opens: "popup_opens (del_popup LINES COLS file) \<longleftrightarrow> 34 \<le> COLS \<and> 12 \<le> LINES"
  by (auto simp: del_popup_def popup_defs layout_defs sdiv_2)


text \<open>The dialogs lie on the screen from 16 rows on.\<close>

lemma copy_popup_on_screen:
  "34 \<le> COLS \<Longrightarrow> inside (rect LINES COLS 0 0) (win_body (copy_popup LINES COLS src dst)) \<longleftrightarrow> 16 \<le> LINES"
  by (auto simp: copy_popup_def popup_new_def layout_defs sdiv_2 Let_def)

lemma title_fits: "0 \<le> snd (title_pos COLS len) \<longleftrightarrow> int (len div 2) + 3 \<le> COLS div 4"
  by (auto simp: title_pos_def)

section \<open>The terminal\<close>

text \<open>The settings of the library that the program changes, and the pairs of colours.\<close>

datatype colour = Black | White | Cyan | Blue

record terminal =
  on :: bool
  echoes :: bool
  cursor :: bool
  function_keys :: bool
  line_mode :: bool
  pairs :: "nat \<Rightarrow> (colour \<times> colour) option"

text \<open>\<open>None\<close>: the program ends with a message. \<^verbatim>\<open>initscr\<close> turns the library on, as \<^verbatim>\<open>endwin\<close> turns it off, when the terminal has its own
  settings and shows the cursor.\<close>

definition init_graph :: "bool \<Rightarrow> terminal \<Rightarrow> terminal option" where
  "init_graph initscr_ok t = (if \<not> initscr_ok then None
     else Some (t\<lparr>on := True, echoes := False, cursor := False, function_keys := True, line_mode := False,
       pairs := [1 \<mapsto> (White, Cyan), 2 \<mapsto> (White, Blue), 3 \<mapsto> (White, Black), 4 \<mapsto> (Black, White), 5 \<mapsto> (Black, White)]\<rparr>))"

definition close_graph :: "terminal \<Rightarrow> terminal" where
  "close_graph t = (let t = t\<lparr>echoes := True\<rparr> in t\<lparr>on := False, cursor := True, line_mode := True\<rparr>)"

text \<open>Running a program between the two leaves the screen as it was.\<close>

lemma graph_restored: "init_graph True t = Some t' \<Longrightarrow> init_graph True (close_graph t') = Some t'"
  by (auto simp: init_graph_def close_graph_def)

lemma close_restores:
  "init_graph True t = Some t' \<Longrightarrow> echoes (close_graph t') \<and> cursor (close_graph t') \<and> line_mode (close_graph t') \<and> \<not> on (close_graph t')"
  by (auto simp: init_graph_def close_graph_def Let_def)

section \<open>The end of a dialog\<close>

text \<open>What a dialog owns in the library. As documented, a field or item that belongs to a form or menu is not freed, a form or menu that is
  shown is not freed, and a window is not deleted before the windows derived from it.\<close>

datatype wnd = Body | Form_wnd | Menu_wnd | Form_inner | Menu_inner

fun parent :: "wnd \<Rightarrow> wnd option" where
  "parent Body = None"
| "parent Form_wnd = Some Body"
| "parent Menu_wnd = Some Body"
| "parent Form_inner = Some Form_wnd"
| "parent Menu_inner = Some Menu_wnd"

record dialog =
  fields_left :: nat
  items_left :: nat
  has_form :: bool
  has_menu :: bool
  form_posted :: bool
  menu_posted :: bool
  wnds :: "wnd list"
  exists_flag :: bool

definition free_field :: "dialog \<Rightarrow> dialog" where
  "free_field d = (if has_form d then d else d\<lparr>fields_left := fields_left d - 1\<rparr>)"

definition free_item :: "dialog \<Rightarrow> dialog" where
  "free_item d = (if has_menu d then d else d\<lparr>items_left := items_left d - 1\<rparr>)"

definition free_menu :: "dialog \<Rightarrow> dialog" where
  "free_menu d = (if menu_posted d then d else d\<lparr>has_menu := False\<rparr>)"

definition free_form :: "dialog \<Rightarrow> dialog" where
  "free_form d = (if form_posted d then d else d\<lparr>has_form := False\<rparr>)"

definition delwin :: "wnd \<Rightarrow> dialog \<Rightarrow> dialog" where
  "delwin w d = (if list_ex (\<lambda>v. parent v = Some w) (wnds d) then d else d\<lparr>wnds := filter (\<lambda>v. v \<noteq> w) (wnds d)\<rparr>)"

text \<open>The loops run over the program's own arrays, which keep their pointers.\<close>

definition popup_delete :: "nat \<Rightarrow> nat \<Rightarrow> dialog \<Rightarrow> dialog" where
  "popup_delete nb_fields nb_buttons d = (
     let d = d\<lparr>form_posted := False, menu_posted := False\<rparr>;
         d = (free_field ^^ nb_fields) d;
         d = (free_item ^^ nb_buttons) d;
         d = free_form (free_menu d);
         d = delwin Body (delwin Menu_wnd (delwin Form_wnd d))
     in d\<lparr>exists_flag := False\<rparr>)"

text \<open>What \<^verbatim>\<open>popup_new\<close> leaves.\<close>

definition new_dialog :: "nat \<Rightarrow> nat \<Rightarrow> dialog" where
  "new_dialog nb_fields nb_buttons = \<lparr>fields_left = nb_fields, items_left = nb_buttons, has_form = True, has_menu = True, form_posted = True, menu_posted = True,
     wnds = [Body, Menu_wnd, Menu_inner, Form_wnd, Form_inner], exists_flag = True\<rparr>"

lemma free_connected: "has_form d \<Longrightarrow> (free_field ^^ n) d = d" "has_menu d \<Longrightarrow> (free_item ^^ n) d = d"
  by (induction n) (simp_all add: free_field_def free_item_def)

text \<open>Deleting a dialog frees the form and the menu, but none of its fields, items and windows: they are still in use when the program
  frees them. Afterwards the dialog counts as gone.\<close>
theorem popup_delete_leaks:
  "popup_delete nb_fields nb_buttons (new_dialog nb_fields nb_buttons) =
    (new_dialog nb_fields nb_buttons)\<lparr>has_form := False, has_menu := False, form_posted := False, menu_posted := False, exists_flag := False\<rparr>"
  by (simp add: popup_delete_def new_dialog_def free_connected free_menu_def free_form_def delwin_def Let_def)

section \<open>The windows of the first two versions\<close>

text \<open>\<^verbatim>\<open>src/backup/fm_0\<close> and \<^verbatim>\<open>src/backup/fm_1\<close> have one window for the names inside each panel.\<close>

definition simple_panel_at :: "int \<Rightarrow> int \<Rightarrow> int \<Rightarrow> rect \<times> rect" where
  "simple_panel_at rows cols x = (rect rows (cols div 2) 0 x, rect (rows - 2) (cols div 2 - 2) 1 1)"

definition init_workspace1 :: "int \<Rightarrow> int \<Rightarrow> (rect \<times> rect) \<times> (rect \<times> rect)" where
  "init_workspace1 rows cols = (simple_panel_at rows cols 0, simple_panel_at rows cols (cols div 2))"

text \<open>They fit on every usual screen; those of the later versions need 98 columns.\<close>

lemma simple_panels_fit:
  "(inside (fst (fst (init_workspace1 rows cols))) (snd (fst (init_workspace1 rows cols))) \<longleftrightarrow> 3 \<le> rows \<and> 6 \<le> cols) \<and>
   (inside (fst (snd (init_workspace1 rows cols))) (snd (snd (init_workspace1 rows cols))) \<longleftrightarrow> 3 \<le> rows \<and> 6 \<le> cols)"
  by (auto simp: init_workspace1_def simple_panel_at_def layout_defs)

end
