(* ===== verification/Dir_Panel.thy ===== *)
theory Dir_Panel
  imports C_Output Window_Layout
begin

text \<open>
  The directory panels of the file manager \<^verbatim>\<open>src/file_manager\<close>: reading a directory into a list of files and freeing it
  (\<^verbatim>\<open>lib/core.c\<close>), and what \<^verbatim>\<open>lib/graph.c\<close> shows of it.

  The file lists live in a heap and are linked by addresses. The file system and the other programs are an
  opaque world with the operations of the record \<open>sys\<close>. Windows are drawn by the ncurses library; what is written to them
  is recorded, their placement is not.
\<close>

section \<open>Computations\<close>

text \<open>A step of the program is undefined, ends the program, has not returned, because it still waits for another thread, or goes on
  with a result.\<close>

datatype ('a, 's) step = Undefined | Exit int 's | Busy 's | Go 'a 's

fun andthen :: "('a, 's) step \<Rightarrow> ('a \<Rightarrow> 's \<Rightarrow> ('b, 's) step) \<Rightarrow> ('b, 's) step" where
  "andthen Undefined f = Undefined"
| "andthen (Exit c s) f = Exit c s"
| "andthen (Busy s) f = Busy s"
| "andthen (Go a s) f = f a s"

definition need :: "'a option \<Rightarrow> ('a \<Rightarrow> ('b, 's) step) \<Rightarrow> ('b, 's) step" where
  "need v f = (case v of None \<Rightarrow> Undefined | Some a \<Rightarrow> f a)"

section \<open>Data\<close>

record fstat =
  st_mode :: u32
  st_size :: nat
  st_uid :: u32
  st_mtime :: int

record fil =
  file_name :: "byte list"
  file_stat :: fstat
  fil_next :: addr
  fil_prev :: addr

record dir_info =
  dir_path :: "byte list"
  file_count :: int
  head_file :: addr
  current_file :: addr
  tail_file :: addr

text \<open>The environment. \<open>s_store\<close> makes a file with the given contents, and \<open>s_exec\<close> is the effect of a program that is started and waited
  for. The size of the screen does not change.\<close>

record 'w sys =
  s_chdir :: "byte list \<Rightarrow> 'w \<Rightarrow> 'w option"
  s_scandir :: "byte list \<Rightarrow> 'w \<Rightarrow> byte list list option"
  s_stat :: "byte list \<Rightarrow> 'w \<Rightarrow> fstat option"
  s_getcwd :: "'w \<Rightarrow> byte list option"
  s_getpwuid :: "u32 \<Rightarrow> string option"
  s_unlink :: "byte list \<Rightarrow> 'w \<Rightarrow> 'w option"
  s_store :: "byte list \<Rightarrow> byte list \<Rightarrow> 'w \<Rightarrow> 'w"
  s_exec :: "byte list \<Rightarrow> 'w \<Rightarrow> 'w"
  s_lines :: int
  s_cols :: int

datatype side = L | R

record 'w fm =
  fils :: "addr \<rightharpoonup> fil"
  allocs :: nat
  mem_ok :: "nat \<Rightarrow> bool"
  ld :: dir_info
  rd :: dir_info
  cd :: side
  world :: 'w
  out :: "event list"

definition di :: "side \<Rightarrow> 'w fm \<Rightarrow> dir_info" where
  "di d s = (case d of L \<Rightarrow> ld s | R \<Rightarrow> rd s)"

definition set_di :: "side \<Rightarrow> (dir_info \<Rightarrow> dir_info) \<Rightarrow> 'w fm \<Rightarrow> 'w fm" where
  "set_di d f s = (case d of L \<Rightarrow> s\<lparr>ld := f (ld s)\<rparr> | R \<Rightarrow> s\<lparr>rd := f (rd s)\<rparr>)"

definition emit :: "event list \<Rightarrow> 'w fm \<Rightarrow> 'w fm" where
  "emit es s = s\<lparr>out := out s @ es\<rparr>"

lemma emit_emit [simp]: "emit fs (emit es s) = emit (es @ fs) s"
  by (simp add: emit_def)

definition text_of :: "byte list \<Rightarrow> string" where
  "text_of bs = map (\<lambda>b. char_of (unat b)) bs"

section \<open>Reading a directory\<close>

text \<open>The name is copied into the first 254 bytes of a buffer of 255; the last byte is never written, so that only a
  shorter name can be read back.\<close>

definition put_name :: "byte list \<Rightarrow> byte list" where
  "put_name d_name = take 254 (d_name @ replicate 254 0)"

definition get_name :: "fil \<Rightarrow> byte list option" where
  "get_name f = (if 0 \<in> set (file_name f) then Some (cstr (file_name f)) else None)"

definition new_fil :: "'w sys \<Rightarrow> byte list \<Rightarrow> addr \<Rightarrow> 'w fm \<Rightarrow> (addr, 'w fm) step" where
  "new_fil sys d_name pv s = (let s' = s\<lparr>allocs := Suc (allocs s)\<rparr>; p = Suc (allocs s) in
     if \<not> mem_ok s (allocs s) then Exit 1 (emit [Perror ''malloc''] s')
     else case s_stat sys d_name (world s) of
       None \<Rightarrow> Exit 1 (emit [Perror ''stat''] s')
     | Some st \<Rightarrow> Go p (s'\<lparr>fils := (fils s)(p \<mapsto> \<lparr>file_name = put_name d_name, file_stat = st, fil_next = NULL, fil_prev = pv\<rparr>)\<rparr>))"

fun add_files :: "'w sys \<Rightarrow> side \<Rightarrow> byte list list \<Rightarrow> 'w fm \<Rightarrow> (unit, 'w fm) step" where
  "add_files sys d [] s = Go () s"
| "add_files sys d (n # ns) s = andthen (new_fil sys n (current_file (di d s)) s) (\<lambda>p s.
     need (fils s (current_file (di d s))) (\<lambda>f.
       let s = s\<lparr>fils := (fils s)(current_file (di d s) \<mapsto> f\<lparr>fil_next := p\<rparr>)\<rparr> in
       add_files sys d ns (set_di d (\<lambda>i. i\<lparr>current_file := p\<rparr>) s)))"

text \<open>The entry with index 0 is left out, whatever it is.\<close>

definition get_dir_info :: "'w sys \<Rightarrow> byte list \<Rightarrow> side \<Rightarrow> 'w fm \<Rightarrow> (unit, 'w fm) step" where
  "get_dir_info sys path d s = (case s_scandir sys path (world s) of
     None \<Rightarrow> Go () (emit [Perror ''scandir''] s)
   | Some fnl \<Rightarrow>
       let cwd = (case s_getcwd sys (world s) of None \<Rightarrow> bytes_of ''-'' | Some p \<Rightarrow> p);
           s = set_di d (\<lambda>i. i\<lparr>dir_path := cwd, file_count := int (length fnl) - 2\<rparr>) s in
       andthen
         (if 1 < length fnl then
            andthen (new_fil sys (fnl ! 1) NULL s) (\<lambda>p s. Go () (set_di d (\<lambda>i. i\<lparr>head_file := p, current_file := p\<rparr>) s))
          else Go () s)
         (\<lambda>_ s. andthen (add_files sys d (drop 2 fnl) s) (\<lambda>_ s.
            Go () (set_di d (\<lambda>i. i\<lparr>tail_file := current_file i, current_file := head_file i\<rparr>) s))))"

partial_function (option) free_loop :: "(addr \<rightharpoonup> fil) \<Rightarrow> addr \<Rightarrow> (addr \<rightharpoonup> fil) option" where
  "free_loop h p = (if p = NULL then Some h else Option.bind (h p) (\<lambda>f. free_loop (h(p := None)) (fil_next f)))"

definition free_fil :: "side \<Rightarrow> 'w fm \<Rightarrow> (unit, 'w fm) step" where
  "free_fil d s = need (free_loop (fils s) (head_file (di d s))) (\<lambda>h.
     Go () (set_di d (\<lambda>i. i\<lparr>head_file := NULL, current_file := NULL, tail_file := NULL\<rparr>) (s\<lparr>fils := h\<rparr>)))"

text \<open>The start: the two records are new and hold junk. Their allocation is not checked; the program is undefined from the first use
  of a missing one.\<close>

definition init_core :: "'w sys \<Rightarrow> byte list \<Rightarrow> byte list \<Rightarrow> 'w fm \<Rightarrow> (unit, 'w fm) step" where
  "init_core sys home pwd s = (let okl = mem_ok s (allocs s); okr = mem_ok s (Suc (allocs s)); s = s\<lparr>allocs := allocs s + 2\<rparr> in
     case s_chdir sys home (world s) of
       None \<Rightarrow> Exit 1 (emit [Perror ''chdir''] s)
     | Some w \<Rightarrow> if \<not> okr then Undefined else andthen (get_dir_info sys home R (s\<lparr>world := w\<rparr>)) (\<lambda>_ s.
         case s_chdir sys pwd (world s) of
           None \<Rightarrow> Exit 1 (emit [Perror ''chdir''] s)
         | Some w \<Rightarrow> if \<not> okl then Undefined else andthen (get_dir_info sys pwd L (s\<lparr>world := w\<rparr>)) (\<lambda>_ s. Go () (s\<lparr>cd := L\<rparr>))))"

section \<open>Showing a panel\<close>

partial_function (option) walk :: "(addr \<rightharpoonup> fil) \<Rightarrow> addr \<Rightarrow> (addr \<times> fil) list option" where
  "walk h p = (if p = NULL then Some []
     else Option.bind (h p) (\<lambda>f. Option.bind (walk h (fil_next f)) (\<lambda>r. Some ((p, f) # r))))"

text \<open>A size of at least \<open>10 ^ 9\<close> is shown in thousands, after a conversion to \<^verbatim>\<open>int\<close>.\<close>

definition size_text :: "nat \<Rightarrow> event option" where
  "size_text n = (if n < 1000000000 then Some (Call ''s_wnd'' [Num (int n)])
     else if n div 1000 < 2147483648 then Some (Call ''s_wnd'' [Num (int (n div 1000)), Str ''M'']) else None)"

fun static_rows :: "(u32 \<Rightarrow> string option) \<Rightarrow> fil list \<Rightarrow> (event list \<times> bool) option" where
  "static_rows pw [] = Some ([], True)"
| "static_rows pw (f # fs) = (case pw (st_uid (file_stat f)) of
     None \<Rightarrow> Some ([Perror ''getpwuid()''], False)
   | Some u \<Rightarrow> do {
       sz \<leftarrow> size_text (st_size (file_stat f));
       (es, ok) \<leftarrow> static_rows pw fs;
       Some ([Call ''ow_wnd'' [Str u], sz, Call ''mt_wnd'' [Num (st_mtime (file_stat f))],
         Call ''pr_wnd'' [Num (uint (st_mode (file_stat f) AND 511))]] @ es, ok) })"

text \<open>What frames the rows, as it differs between the versions of the program: the characters of the lines (0 for the library's own), the column of the
  number of files, and the title of a column.\<close>

record look =
  hline :: int
  vline :: int
  total_x :: int
  mt_title :: string

definition static_before :: "look \<Rightarrow> 'w sys \<Rightarrow> dir_info \<Rightarrow> event list" where
  "static_before k sys i = [
     Call ''mvwhline'' [Str ''p_wnd'', Num 0, Num 1, Num (hline k), Num (s_cols sys div 2 - 2)],
     Call ''mvwhline'' [Str ''p_wnd'', Num (s_lines sys - 1), Num 1, Num (hline k), Num (s_cols sys div 2 - 2)],
     Call ''p_wnd'' [Num (fst (title_pos (s_cols sys) (length (dir_path i)))), Num (snd (title_pos (s_cols sys) (length (dir_path i)))),
       Str ''[ %s ]'', Str (text_of (dir_path i))],
     Call ''p_wnd'' [Num (s_lines sys - 1), Num (total_x k), Str ''[ Total: %d ]'', Num (file_count i)]]"

definition column_titles :: "look \<Rightarrow> event list" where
  "column_titles k = map (\<lambda>w. Call ''wclear'' [Str w]) [''fn_wnd'', ''ow_wnd'', ''s_wnd'', ''mt_wnd'', ''pr_wnd''] @
     [Call ''fn_wnd'' [Str (ln (ln ''File name''))], Call ''ow_wnd'' [Str (ln (ln ''Owner''))], Call ''s_wnd'' [Str (ln (ln ''Size''))],
      Call ''mt_wnd'' [Str (ln (ln (mt_title k)))], Call ''pr_wnd'' [Str (ln (ln ''Prm''))]]"

definition static_after :: "look \<Rightarrow> 'w sys \<Rightarrow> event list" where
  "static_after k sys = map (\<lambda>x. Call ''mvwvline'' [Str ''p_wnd'', Num 1, Num (s_cols sys div 2 - x), Num (vline k), Num (s_lines sys - 2)]) [46, 33, 22, 7] @
     [Call ''mvwhline'' [Str ''p_wnd'', Num 2, Num 1, Num (hline k), Num (s_cols sys div 2 - 2)]]"

definition box :: "look \<Rightarrow> string \<Rightarrow> event" where
  "box k w = Call ''box'' [Str w, Num (vline k), Num (hline k)]"

definition the_look :: "'w sys \<Rightarrow> look" where
  "the_look sys = \<lparr>hline = 0, vline = 0, total_x = snd (total_pos (s_lines sys) (s_cols sys)), mt_title = ''Modify time''\<rparr>"

definition print_dir_static :: "'w sys \<Rightarrow> side \<Rightarrow> 'w fm \<Rightarrow> (unit, 'w fm) step" where
  "print_dir_static sys d s = need (walk (fils s) (head_file (di d s))) (\<lambda>r.
     need (static_rows (s_getpwuid sys) (map snd r)) (\<lambda>(es, ok).
       let s = emit (static_before (the_look sys) sys (di d s) @ column_titles (the_look sys) @ es) s in
       if ok then Go () (emit (static_after (the_look sys) sys) s) else Exit 1 s))"

definition name_row :: "addr \<Rightarrow> int \<Rightarrow> addr \<times> fil \<Rightarrow> event option" where
  "name_row cur bg_c r = do {
     n \<leftarrow> get_name (snd r);
     Some (Call ''fn_wnd'' [Num (if fst r = cur then bg_c else 3), Str (text_of n)]) }"

definition print_dir_dynamic :: "side \<Rightarrow> int \<Rightarrow> 'w fm \<Rightarrow> (unit, 'w fm) step" where
  "print_dir_dynamic d bg_c s = need (walk (fils s) (head_file (di d s))) (\<lambda>r.
     need (those (map (name_row (current_file (di d s)) bg_c) r)) (\<lambda>es. Go () (emit es s)))"

section \<open>Invariant\<close>

text \<open>\<open>ok e P\<close>: the step is not undefined, and \<open>P\<close> holds if it goes on.\<close>

definition ok :: "('a, 's) step \<Rightarrow> ('a \<Rightarrow> 's \<Rightarrow> bool) \<Rightarrow> bool" where
  "ok e P = (case e of Undefined \<Rightarrow> False | Exit c s \<Rightarrow> True | Busy s \<Rightarrow> True | Go a s \<Rightarrow> P a s)"

lemma ok_simps [simp]: "\<not> ok Undefined P" "ok (Exit c s) P" "ok (Busy s) P" "ok (Go a s) P = P a s"
  by (simp_all add: ok_def)

lemma ok_andthen: "ok e P \<Longrightarrow> (\<And>a s. P a s \<Longrightarrow> ok (f a s) Q) \<Longrightarrow> ok (andthen e f) Q"
  by (cases e) auto

lemma ok_mono: "ok e P \<Longrightarrow> (\<And>a s. P a s \<Longrightarrow> Q a s) \<Longrightarrow> ok e Q"
  by (cases e) auto

lemma need_Some [simp]: "need (Some a) f = f a" "need None f = Undefined"
  by (simp_all add: need_def)

definition links :: "(addr \<rightharpoonup> fil) \<Rightarrow> addr \<Rightarrow> (addr \<times> addr) option" where
  "links h p = map_option (\<lambda>f. (fil_prev f, fil_next f)) (h p)"

text \<open>A node whose name ends inside its buffer and whose size can be shown.\<close>

definition readable :: "fil \<Rightarrow> bool" where
  "readable f = (get_name f \<noteq> None \<and> size_text (st_size (file_stat f)) \<noteq> None)"

lemma readable_next [simp]: "get_name (f\<lparr>fil_next := p\<rparr>) = get_name f" "readable (f\<lparr>fil_next := p\<rparr>) = readable f"
  by (simp_all add: get_name_def readable_def)

text \<open>\<open>files h pv xs nx\<close>: the nodes \<open>xs\<close> form a list in the heap and can all be shown.\<close>

definition files :: "(addr \<rightharpoonup> fil) \<Rightarrow> addr \<Rightarrow> addr list \<Rightarrow> addr \<Rightarrow> bool" where
  "files h pv xs nx = (dchain (links h) pv xs nx \<and> distinct xs \<and> (\<forall>x \<in> set xs. \<exists>f. h x = Some f \<and> readable f))"

definition panel :: "(addr \<rightharpoonup> fil) \<Rightarrow> dir_info \<Rightarrow> addr list \<Rightarrow> bool" where
  "panel h i xs = (files h NULL xs NULL \<and> xs \<noteq> [] \<and> head_file i = hd xs \<and> tail_file i = last xs \<and> current_file i \<in> set xs)"

text \<open>The heap holds the nodes of the two panels and no others. Memory is assumed not to run out, which parts of the
  program do not check.\<close>

definition heap_ok :: "'w fm \<Rightarrow> addr set \<Rightarrow> bool" where
  "heap_ok s A = (dom (fils s) = A \<and> (\<forall>a \<in> A. 0 < a \<and> a \<le> allocs s))"

definition fm_ok :: "'w fm \<Rightarrow> bool" where
  "fm_ok s = ((\<forall>n. mem_ok s n) \<and> (\<exists>xs ys. panel (fils s) (ld s) xs \<and> panel (fils s) (rd s) ys \<and> set xs \<inter> set ys = {} \<and> heap_ok s (set xs \<union> set ys)))"

definition oth :: "side \<Rightarrow> side" where
  "oth d = (case d of L \<Rightarrow> R | R \<Rightarrow> L)"

lemma oth_simps [simp]: "oth L = R" "oth R = L" "oth (oth d) = d" "oth d \<noteq> d" "d \<noteq> oth d"
  by (cases d; simp add: oth_def)+

lemma fm_ok_side: "fm_ok s \<longleftrightarrow> (\<forall>n. mem_ok s n) \<and> (\<exists>xs ys. panel (fils s) (di d s) xs \<and> panel (fils s) (di (oth d) s) ys \<and> set xs \<inter> set ys = {} \<and>
    heap_ok s (set xs \<union> set ys))"
  by (cases d) (simp_all add: fm_ok_def di_def, metis Int_commute Un_commute)

lemma di_simps [simp]:
  "di d (set_di d f s) = f (di d s)" "di (oth d) (set_di d f s) = di (oth d) s"
  "fils (set_di d f s) = fils s" "allocs (set_di d f s) = allocs s" "world (set_di d f s) = world s" "cd (set_di d f s) = cd s"
  "mem_ok (set_di d f s) = mem_ok s"
  "di d (s\<lparr>fils := h\<rparr>) = di d s" "di d (s\<lparr>allocs := n\<rparr>) = di d s" "di d (s\<lparr>world := w\<rparr>) = di d s" "di d (s\<lparr>cd := e\<rparr>) = di d s"
  "di d (emit es s) = di d s" "fils (emit es s) = fils s" "allocs (emit es s) = allocs s" "world (emit es s) = world s" "cd (emit es s) = cd s"
  "mem_ok (emit es s) = mem_ok s"
  by (cases d; simp add: di_def set_di_def emit_def)+

lemma fm_ok_simps [simp]:
  "fm_ok (emit es s) = fm_ok s" "fm_ok (s\<lparr>world := w\<rparr>) = fm_ok s" "fm_ok (s\<lparr>cd := e\<rparr>) = fm_ok s"
  by (simp_all add: fm_ok_def heap_ok_def emit_def)

text \<open>Walking over a list of files.\<close>

lemma files_Cons: "files h pv (x # xs) nx \<longleftrightarrow> x \<noteq> NULL \<and> x \<notin> set xs \<and> (\<exists>f. h x = Some f \<and> fil_prev f = pv \<and> fil_next f = hd_or nx xs \<and> readable f) \<and>
    files h x xs nx"
  by (auto simp: files_def links_def)

lemma files_Nil [simp]: "files h pv [] nx"
  by (simp add: files_def)

lemma files_append: "files h pv (xs @ ys) nx \<longleftrightarrow> files h pv xs (hd_or nx ys) \<and> files h (last_or pv xs) ys nx \<and> set xs \<inter> set ys = {}"
  by (induction xs arbitrary: pv) (auto simp: files_Cons)

lemma files_upd: "p \<notin> set xs \<Longrightarrow> files (h(p := v)) pv xs nx = files h pv xs nx"
  by (induction xs arbitrary: pv) (auto simp: files_Cons)

lemma files_walk: "files h pv xs NULL \<Longrightarrow> walk h (hd_or NULL xs) = Some (map (\<lambda>x. (x, the (h x))) xs)"
proof (induction xs arbitrary: pv)
  case Nil
  then show ?case by (simp add: walk.simps)
next
  case (Cons x xs)
  then obtain f where "x \<noteq> NULL" "h x = Some f" "fil_next f = hd_or NULL xs" "files h x xs NULL" by (auto simp: files_Cons)
  then show ?case using Cons.IH by (subst walk.simps) simp
qed

lemma files_free: "files h pv xs NULL \<Longrightarrow> free_loop h (hd_or NULL xs) = Some (h |` (- set xs))"
proof (induction xs arbitrary: h pv)
  case Nil
  then show ?case by (simp add: free_loop.simps)
next
  case (Cons x xs)
  then obtain f where f: "x \<noteq> NULL" "h x = Some f" "fil_next f = hd_or NULL xs" "files h x xs NULL" "x \<notin> set xs" by (auto simp: files_Cons)
  then have "files (h(x := None)) x xs NULL" by (simp add: files_upd)
  note Cons.IH[OF this]
  moreover have "h(x := None) |` (- set xs) = h |` (- set (x # xs))" by (auto simp: restrict_map_def)
  ultimately have "free_loop (h(x := None)) (hd_or NULL xs) = Some (h |` (- set (x # xs)))" by (simp only:)
  then show ?case using f(1-3) by (subst free_loop.simps) simp
qed

lemma panel_head: "panel h i xs \<Longrightarrow> head_file i = hd_or NULL xs"
  by (simp add: panel_def hd_or_hd)

lemma those_Some: "\<forall>x \<in> set xs. f x \<noteq> None \<Longrightarrow> those (map f xs) = Some (map (the \<circ> f) xs)"
  by (induction xs) auto

text \<open>Printing changes nothing but the screen.\<close>

definition same_but_out :: "'w fm \<Rightarrow> 'w fm \<Rightarrow> bool" where
  "same_but_out s s' = (\<exists>es. s' = emit es s)"

lemma panel_names: "panel h i xs \<Longrightarrow> x \<in> set xs \<Longrightarrow> \<exists>f n. h x = Some f \<and> get_name f = Some n \<and> readable f"
  by (fastforce simp: panel_def files_def readable_def)

lemma print_dynamic_ok:
  assumes "panel (fils s) (di d s) xs"
  shows "print_dir_dynamic d bg s = Go () (emit (map (\<lambda>x. Call ''fn_wnd'' [Num (if x = current_file (di d s) then bg else 3),
    Str (text_of (the (get_name (the (fils s x)))))]) xs) s)"
proof -
  have w: "walk (fils s) (head_file (di d s)) = Some (map (\<lambda>x. (x, the (fils s x))) xs)"
    unfolding panel_head[OF assms] by (rule files_walk[where pv = NULL]) (use assms in \<open>simp add: panel_def\<close>)
  have "those (map (name_row (current_file (di d s)) bg \<circ> (\<lambda>x. (x, the (fils s x)))) xs) =
      Some (map (the \<circ> (name_row (current_file (di d s)) bg \<circ> (\<lambda>x. (x, the (fils s x))))) xs)"
    by (rule those_Some) (use panel_names[OF assms] in \<open>fastforce simp: name_row_def\<close>)
  moreover have "the (name_row (current_file (di d s)) bg (x, the (fils s x))) = Call ''fn_wnd'' [Num (if x = current_file (di d s) then bg else 3),
    Str (text_of (the (get_name (the (fils s x)))))]" if "x \<in> set xs" for x
    using panel_names[OF assms that] by (auto simp: name_row_def)
  ultimately show ?thesis by (simp add: print_dir_dynamic_def w cong: map_cong)
qed

text \<open>What is asked of the environment: every directory can be listed and holds more than \<open>.\<close>, the names are
  shorter than the buffer for them, the path of the directory is known, and files are smaller than the sizes that can be shown.\<close>

definition sys_ok :: "'w sys \<Rightarrow> bool" where
  "sys_ok sys = (\<forall>w. (\<forall>p. \<exists>fnl. s_scandir sys p w = Some fnl \<and> 1 < length fnl \<and> (\<forall>n \<in> set fnl. 0 \<notin> set n \<and> length n < 254)) \<and>
     s_getcwd sys w \<noteq> None \<and> (\<forall>n st. s_stat sys n w = Some st \<longrightarrow> size_text (st_size st) \<noteq> None) \<and>
     (\<forall>p. s_unlink sys p w \<noteq> None))"

lemma sys_okD:
  assumes "sys_ok sys"
  shows "\<exists>fnl. s_scandir sys p w = Some fnl \<and> 1 < length fnl \<and> (\<forall>n \<in> set fnl. 0 \<notin> set n \<and> length n < 254)"
    "\<exists>c. s_getcwd sys w = Some c" "s_stat sys n w = Some st \<Longrightarrow> size_text (st_size st) \<noteq> None" "\<exists>w'. s_unlink sys p w = Some w'"
  using assms unfolding sys_ok_def by blast+

lemma get_put_name: "0 \<notin> set n \<Longrightarrow> length n < 254 \<Longrightarrow> fil.file_name f = put_name n \<Longrightarrow> get_name f = Some n"
  by (simp add: get_name_def put_name_def cstr_zeros)

text \<open>While a panel is read: the nodes \<open>xs\<close> are in place, ending with the current one, and beside them the nodes \<open>B\<close> of
  the other panel.\<close>

definition growing :: "side \<Rightarrow> 'w fm \<Rightarrow> addr set \<Rightarrow> addr list \<Rightarrow> bool" where
  "growing d s B xs = (files (fils s) NULL xs NULL \<and> xs \<noteq> [] \<and> head_file (di d s) = hd xs \<and> current_file (di d s) = last xs \<and>
     set xs \<inter> B = {} \<and> heap_ok s (set xs \<union> B))"

text \<open>What reading a panel leaves alone.\<close>

definition beside :: "side \<Rightarrow> addr set \<Rightarrow> 'w fm \<Rightarrow> 'w fm \<Rightarrow> bool" where
  "beside d B s s' = (di (oth d) s' = di (oth d) s \<and> fils s' |` B = fils s |` B \<and> world s' = world s \<and> cd s' = cd s \<and> out s' = out s \<and>
     mem_ok s' = mem_ok s)"

definition shown :: "(addr \<rightharpoonup> fil) \<Rightarrow> addr list \<Rightarrow> (byte list \<times> fstat) list" where
  "shown h xs = map (\<lambda>x. (the (get_name (the (h x))), file_stat (the (h x)))) xs"

lemma new_fil_ok:
  assumes "0 \<notin> set n" "length n < 254"
  shows "ok (new_fil sys n pv s) (\<lambda>p s'. p = Suc (allocs s) \<and> (\<exists>st. s_stat sys n (world s) = Some st \<and>
    s' = s\<lparr>allocs := p, fils := (fils s)(p \<mapsto> \<lparr>file_name = put_name n, file_stat = st, fil_next = NULL, fil_prev = pv\<rparr>)\<rparr>))"
  by (auto simp: new_fil_def Let_def split: option.splits)

lemma di_upd [simp]: "di d (s\<lparr>allocs := n, fils := h\<rparr>) = di d s" "di d (s\<lparr>fils := h, allocs := n\<rparr>) = di d s"
  by (cases d; simp add: di_def)+

lemma files_snoc:
  assumes "files h NULL xs NULL" "xs \<noteq> []" "p \<noteq> NULL" "p \<notin> set xs" "readable g" "fil_prev g = last xs" "fil_next g = NULL" "h (last xs) = Some f"
  shows "files (h(p \<mapsto> g, last xs \<mapsto> f\<lparr>fil_next := p\<rparr>)) NULL (xs @ [p]) NULL"
proof -
  obtain ys x where xs: "xs = ys @ [x]" using assms(2) by (cases xs rule: rev_cases) auto
  have "p \<noteq> x" "x \<notin> set ys" "p \<notin> set ys" using assms(1,4) by (auto simp: xs files_def)
  then show ?thesis using assms by (auto simp: xs files_append files_Cons files_upd)
qed

lemma new_fil_grows:
  assumes "growing d s B xs" "0 \<notin> set n" "length n < 254" "\<forall>st. s_stat sys n (world s) = Some st \<longrightarrow> size_text (st_size st) \<noteq> None"
    and "\<And>s' p st. growing d s' B (xs @ [p]) \<Longrightarrow> beside d B s s' \<Longrightarrow> s_stat sys n (world s) = Some st \<Longrightarrow>
      shown (fils s') (xs @ [p]) = shown (fils s) xs @ [(n, st)] \<Longrightarrow> dir_path (di d s') = dir_path (di d s) \<Longrightarrow> file_count (di d s') = file_count (di d s) \<Longrightarrow> ok (f' s') Q"
  shows "ok (andthen (new_fil sys n (current_file (di d s)) s) (\<lambda>p s. need (fils s (current_file (di d s))) (\<lambda>f.
      let s = s\<lparr>fils := (fils s)(current_file (di d s) \<mapsto> f\<lparr>fil_next := p\<rparr>)\<rparr> in f' (set_di d (\<lambda>i. i\<lparr>current_file := p\<rparr>) s)))) Q"
proof (rule ok_andthen[OF new_fil_ok[OF assms(2,3)]], elim conjE exE)
  fix p s1 st
  let ?g = "\<lparr>file_name = put_name n, file_stat = st, fil_next = NULL, fil_prev = current_file (di d s)\<rparr>"
  assume p: "p = Suc (allocs s)" and st: "s_stat sys n (world s) = Some st" and s1: "s1 = s\<lparr>allocs := p, fils := (fils s)(p \<mapsto> ?g)\<rparr>"
  have g: "files (fils s) NULL xs NULL" "xs \<noteq> []" "head_file (di d s) = hd xs" "current_file (di d s) = last xs" "set xs \<inter> B = {}"
    "dom (fils s) = set xs \<union> B" "\<forall>a \<in> set xs \<union> B. 0 < a \<and> a \<le> allocs s" using assms(1) by (auto simp: growing_def heap_ok_def)
  have fresh: "p \<notin> set xs \<union> B" 
  proof
    assume "p \<in> set xs \<union> B"
    then have "p \<le> allocs s" using g(7) by blast
    then show False using p by simp
  qed
  have "last xs \<in> set xs" using g(2) by simp
  then obtain f where f: "fils s (last xs) = Some f" "readable f" using g(1) by (auto simp: files_def)
  let ?h = "(fils s)(p \<mapsto> ?g, last xs \<mapsto> f\<lparr>fil_next := p\<rparr>)"
  let ?s = "set_di d (\<lambda>i. i\<lparr>current_file := p\<rparr>) (s1\<lparr>fils := ?h\<rparr>)"
  have gr: "readable ?g" using assms(2-4) st by (simp add: readable_def get_put_name[of n])
  have fl: "files ?h NULL (xs @ [p]) NULL"
    by (rule files_snoc[OF g(1,2) _ _ gr _ _ f(1)]) (use fresh p g(4) in auto)
  have "growing d ?s B (xs @ [p])"
    using fl g fresh p \<open>last xs \<in> set xs\<close> by (auto simp: growing_def heap_ok_def s1 intro: le_SucI)
  moreover have "beside d B s ?s"
    using fresh g(5) \<open>last xs \<in> set xs\<close> by (cases d) (auto simp: beside_def s1 restrict_map_def set_di_def di_def fun_eq_iff)
  moreover have "shown ?h xs = shown (fils s) xs" using f(1) fresh by (auto simp: shown_def)
  then have "shown (fils ?s) (xs @ [p]) = shown (fils s) xs @ [(n, st)]"
    using fresh \<open>last xs \<in> set xs\<close> assms(2,3) by (auto simp: shown_def get_put_name[of n])
  ultimately have "ok (f' ?s) Q" using st by (intro assms(5)) (auto simp: s1)
  moreover have "fils s1 (current_file (di d s1)) = Some f" using fresh \<open>last xs \<in> set xs\<close> f(1) g(4) by (auto simp: s1)
  ultimately show "ok (need (fils s1 (current_file (di d s1))) (\<lambda>f.
      let s = s1\<lparr>fils := (fils s1)(current_file (di d s1) \<mapsto> f\<lparr>fil_next := p\<rparr>)\<rparr> in f' (set_di d (\<lambda>i. i\<lparr>current_file := p\<rparr>) s))) Q"
    using g(4) by (simp add: s1)
qed

lemma beside_trans: "beside d B s s' \<Longrightarrow> beside d B s' s'' \<Longrightarrow> beside d B s s''"
  by (simp add: beside_def)

text \<open>What the reading of a panel with the entries \<open>ns\<close> makes of it.\<close>

definition filled :: "'w sys \<Rightarrow> side \<Rightarrow> addr set \<Rightarrow> byte list list \<Rightarrow> (byte list \<times> fstat) list \<Rightarrow> 'w fm \<Rightarrow> addr list \<Rightarrow> 'w fm \<Rightarrow> bool" where
  "filled sys d B ns old s xs s' = (growing d s' B xs \<and> beside d B s s' \<and> (\<forall>n \<in> set ns. s_stat sys n (world s) \<noteq> None) \<and>
     shown (fils s') xs = old @ map (\<lambda>n. (n, the (s_stat sys n (world s)))) ns \<and>
     dir_path (di d s') = dir_path (di d s) \<and> file_count (di d s') = file_count (di d s))"

lemma add_files_ok:
  assumes "\<forall>n st. s_stat sys n (world s) = Some st \<longrightarrow> size_text (st_size st) \<noteq> None"
  shows "growing d s B xs \<Longrightarrow> \<forall>n \<in> set ns. 0 \<notin> set n \<and> length n < 254 \<Longrightarrow>
    ok (add_files sys d ns s) (\<lambda>_ s'. \<exists>ys. filled sys d B ns (shown (fils s) xs) s (xs @ ys) s')"
  using assms
proof (induction ns arbitrary: s xs)
  case Nil
  then show ?case by (auto simp: filled_def beside_def intro!: exI[of _ "[]"])
next
  case (Cons n ns)
  show ?case unfolding add_files.simps
  proof (rule new_fil_grows[OF Cons.prems(1)])
    fix s' p st
    assume g: "growing d s' B (xs @ [p])" "beside d B s s'" "s_stat sys n (world s) = Some st"
      "shown (fils s') (xs @ [p]) = shown (fils s) xs @ [(n, st)]" "dir_path (di d s') = dir_path (di d s)" "file_count (di d s') = file_count (di d s)"
    have w: "world s' = world s" using g(2) by (simp add: beside_def)
    show "ok (add_files sys d ns s') (\<lambda>_ s'. \<exists>ys. filled sys d B (n # ns) (shown (fils s) xs) s (xs @ ys) s')"
    proof (rule ok_mono[OF Cons.IH[OF g(1)]], goal_cases)
      case (3 _ s'')
      then obtain ys where "filled sys d B ns (shown (fils s') (xs @ [p])) s' (xs @ p # ys) s''" by auto
      then show ?case using g w by (intro exI[of _ "p # ys"]) (auto simp: filled_def intro: beside_trans)
    qed (use Cons.prems w in auto)
  qed (use Cons.prems in auto)
qed

definition listing :: "'w sys \<Rightarrow> byte list \<Rightarrow> 'w \<Rightarrow> (byte list \<times> fstat) list" where
  "listing sys path w = map (\<lambda>n. (n, the (s_stat sys n w))) (tl (the (s_scandir sys path w)))"

text \<open>A panel is read when its list is empty: afterwards it shows the directory's entries but the first, with the cursor on the
  first of them.\<close>

lemma get_dir_info_ok:
  assumes "sys_ok sys" "heap_ok s B" "files_ok = (\<lambda>s'. \<exists>xs. panel (fils s') (di d s') xs \<and> set xs \<inter> B = {} \<and> heap_ok s' (set xs \<union> B) \<and>
      shown (fils s') xs = listing sys path (world s))"
  shows "ok (get_dir_info sys path d s) (\<lambda>_ s'. files_ok s' \<and> beside d B s s' \<and> current_file (di d s') = head_file (di d s') \<and>
    dir_path (di d s') = the (s_getcwd sys (world s)) \<and> file_count (di d s') = int (length (listing sys path (world s))) - 1)"
proof -
  obtain n0 n ns where fnl: "s_scandir sys path (world s) = Some (n0 # n # ns)" and names: "\<forall>m \<in> set (n # ns). 0 \<notin> set m \<and> length m < 254"
  proof -
    obtain fnl where f: "s_scandir sys path (world s) = Some fnl" "1 < length fnl" "\<forall>n \<in> set fnl. 0 \<notin> set n \<and> length n < 254"
      using sys_okD(1)[OF assms(1)] by blast
    then obtain n0 n ns where "fnl = n0 # n # ns" by (cases fnl rule: list.exhaust; cases "tl fnl") auto
    then show ?thesis using f that by auto
  qed
  obtain cwd where cwd: "s_getcwd sys (world s) = Some cwd" using sys_okD(2)[OF assms(1)] by blast
  let ?s = "set_di d (\<lambda>i. i\<lparr>dir_path := cwd, file_count := int (length ns)\<rparr>) s"
  have sizes: "\<forall>n st. s_stat sys n (world s) = Some st \<longrightarrow> size_text (st_size st) \<noteq> None" using sys_okD(3)[OF assms(1)] by blast
  have first: "ok (andthen (new_fil sys n NULL ?s) (\<lambda>p s. Go () (set_di d (\<lambda>i. i\<lparr>head_file := p, current_file := p\<rparr>) s)))
      (\<lambda>_ s'. \<exists>p. growing d s' B [p] \<and> beside d B s s' \<and> s_stat sys n (world s) \<noteq> None \<and>
        shown (fils s') [p] = [(n, the (s_stat sys n (world s)))] \<and> dir_path (di d s') = cwd \<and> file_count (di d s') = int (length ns))"
  proof (rule ok_andthen[OF new_fil_ok], goal_cases)
    case (3 p s1)
    then obtain st where st: "p = Suc (allocs s)" "s_stat sys n (world s) = Some st"
      "s1 = ?s\<lparr>allocs := p, fils := (fils s)(p \<mapsto> \<lparr>file_name = put_name n, file_stat = st, fil_next = NULL, fil_prev = NULL\<rparr>)\<rparr>" by auto
    let ?s1 = "set_di d (\<lambda>i. i\<lparr>head_file := p, current_file := p\<rparr>) s1"
    let ?g = "\<lparr>file_name = put_name n, file_stat = st, fil_next = NULL, fil_prev = NULL\<rparr>"
    have B: "dom (fils s) = B" "\<forall>a \<in> B. 0 < a \<and> a \<le> allocs s" using assms(2) by (simp_all add: heap_ok_def)
    have "p \<notin> B"
    proof
      assume "p \<in> B"
      then have "p \<le> allocs s" using B(2) by blast
      then show False using st(1) by simp
    qed
    have n: "get_name ?g = Some n" using names by (intro get_put_name) auto
    then have "readable ?g" using sizes st(2) by (simp add: readable_def)
    then have "growing d ?s1 B [p]" using B st(1,3) \<open>p \<notin> B\<close> by (auto simp: growing_def heap_ok_def files_Cons intro: le_SucI)
    moreover have "beside d B s ?s1" using st(3) \<open>p \<notin> B\<close> by (cases d) (auto simp: beside_def restrict_map_def fun_eq_iff set_di_def di_def)
    moreover have "shown (fils ?s1) [p] = [(n, the (s_stat sys n (world s)))]" using st n by (simp add: shown_def)
    moreover have "dir_path (di d ?s1) = cwd" "file_count (di d ?s1) = int (length ns)" using st(3) by simp_all
    ultimately show ?case using st(2) unfolding ok_simps by blast
  qed (use names in auto)
  have "ok (get_dir_info sys path d s) (\<lambda>_ s'. files_ok s' \<and> beside d B s s' \<and> current_file (di d s') = head_file (di d s') \<and>
      dir_path (di d s') = cwd \<and> file_count (di d s') = int (length ns))"
    unfolding get_dir_info_def fnl cwd option.case Let_def
  proof (simp, rule ok_andthen[OF first], elim exE conjE)
    fix s1 p
    assume s1: "growing d s1 B [p]" "beside d B s s1" "s_stat sys n (world s) \<noteq> None"
      "shown (fils s1) [p] = [(n, the (s_stat sys n (world s)))]" "dir_path (di d s1) = cwd" "file_count (di d s1) = int (length ns)"
    then have w: "world s1 = world s" by (simp add: beside_def)
    have "ok (add_files sys d ns s1) (\<lambda>_ s2. \<exists>ys. filled sys d B ns (shown (fils s1) [p]) s1 ([p] @ ys) s2)"
      by (rule add_files_ok) (use sizes w s1(1) names in auto)
    then show "ok (andthen (add_files sys d ns s1) (\<lambda>_ s. Go () (set_di d (\<lambda>i. i\<lparr>tail_file := current_file i, current_file := head_file i\<rparr>) s)))
      (\<lambda>_ s'. files_ok s' \<and> beside d B s s' \<and> current_file (di d s') = head_file (di d s') \<and> dir_path (di d s') = cwd \<and> file_count (di d s') = int (length ns))"
    proof (rule ok_andthen, elim exE)
      fix s2 ys
      assume f: "filled sys d B ns (shown (fils s1) [p]) s1 ([p] @ ys) s2"
      let ?s = "set_di d (\<lambda>i. i\<lparr>tail_file := current_file i, current_file := head_file i\<rparr>) s2"
      have "beside d B s s2" using f s1(2) by (auto simp: filled_def intro: beside_trans)
      then have "beside d B s ?s" by (cases d) (simp_all add: beside_def set_di_def di_def)
      moreover have "panel (fils ?s) (di d ?s) (p # ys)" "set (p # ys) \<inter> B = {}" "heap_ok ?s (set (p # ys) \<union> B)"
        using f by (simp_all add: filled_def growing_def panel_def heap_ok_def)
      moreover have "shown (fils ?s) (p # ys) = listing sys path (world s)" using f s1(4) w by (simp add: filled_def listing_def fnl)
      ultimately show "ok (Go () ?s) (\<lambda>_ s'. files_ok s' \<and> beside d B s s' \<and> current_file (di d s') = head_file (di d s') \<and>
          dir_path (di d s') = cwd \<and> file_count (di d s') = int (length ns))"
        using f s1(5,6) unfolding assms(3) ok_simps by (auto simp: filled_def intro!: exI[of _ "p # ys"])
    qed
  qed
  then show ?thesis by (simp add: listing_def fnl cwd)
qed

end
