(* ===== verification/File_Copy.thy ===== *)
theory File_Copy
  imports C_Output "HOL-Library.Signed_Division"
begin

text \<open>
  Copying in the file manager \<^verbatim>\<open>src/file_manager\<close>: the thread that copies and the thread that draws its progress
  (\<^verbatim>\<open>lib/core.c\<close>), \<^verbatim>\<open>trim\<close>, and the dialog with its buttons (\<^verbatim>\<open>lib/popup.c\<close>, the last part of \<^verbatim>\<open>lib/graph.c\<close>). \<open>None\<close> is
  an access outside a buffer, a division by zero or a result that is used without having been given.

  Results of system calls, and the forms and menus of the ncurses library, are parameters.
\<close>

section \<open>Trimming\<close>

definition isspace :: "byte \<Rightarrow> bool" where
  "isspace c = (c = 32 \<or> (9 \<le> c \<and> c \<le> 13))"

text \<open>The first loop, on the remaining length; it reads the byte before the text when nothing else is left.\<close>

fun trim_end :: "byte list \<Rightarrow> nat \<Rightarrow> nat option" where
  "trim_end s 0 = None"
| "trim_end s (Suc n) = (if isspace (s ! n) then trim_end s n else Some (Suc n))"

fun trim_start :: "byte list \<Rightarrow> nat \<Rightarrow> byte list" where
  "trim_start [] n = []"
| "trim_start (c # cs) n = (if isspace c then trim_start cs (n - 1) else take n (c # cs))"

definition trim :: "byte list \<Rightarrow> byte list option" where
  "trim spaced = do { n \<leftarrow> trim_end spaced (length spaced); Some (trim_start spaced n) }"

section \<open>The two threads\<close>

text \<open>
  The loop of \<^verbatim>\<open>copy_file\<close> on the results of \<^verbatim>\<open>read\<close> (\<open>None\<close> for \<open>-1\<close>); \<open>wr k n\<close> is the result of the \<open>k\<close>-th \<^verbatim>\<open>write\<close>, of \<open>n\<close>
  bytes. The result is the bytes written, the values \<^verbatim>\<open>cur_size\<close> takes, the events and the exit code.
\<close>

fun copy_loop :: "(nat \<Rightarrow> nat \<Rightarrow> int) \<Rightarrow> int \<Rightarrow> int \<Rightarrow> byte list option list \<Rightarrow> nat \<Rightarrow> nat \<Rightarrow> byte list \<times> nat list \<times> event list \<times> int option" where
  "copy_loop wr src dst [] k cur_size = ([], [], [], None)"
| "copy_loop wr src dst (None # rs) k cur_size = ([], [], [Perror ''write''], Some 1)"
| "copy_loop wr src dst (Some data # rs) k cur_size = (let buf = take 1024 data; nbytes = length buf in
     if nbytes = 0 then ([], [], [Call ''close'' [Num src], Call ''close'' [Num dst]], Some 0)
     else let w = take (nat (wr k nbytes)) buf in
       if wr k nbytes \<noteq> int nbytes then (w, [], [Perror ''write''], Some 1)
       else let (ws, cs, es, c) = copy_loop wr src dst rs (Suc k) (cur_size + nbytes) in (w @ ws, (cur_size + nbytes) # cs, es, c))"

definition copy_file :: "(nat \<Rightarrow> nat \<Rightarrow> int) \<Rightarrow> int \<Rightarrow> bool \<Rightarrow> int \<Rightarrow> byte list option list \<Rightarrow> byte list \<times> nat list \<times> event list \<times> int option" where
  "copy_file wr fd_src stat_ok fd_dst rs =
     (if fd_src = - 1 then ([], [], [Perror ''open''], Some 1)
      else if \<not> stat_ok then ([], [], [Perror ''stat''], Some 1)
      else if fd_dst = - 1 then ([], [], [Perror ''open''], Some 1)
      else let (w, cs, es, c) = copy_loop wr fd_src fd_dst rs 0 0 in (w, 0 # cs, es, c))"

definition to_int :: "int \<Rightarrow> int" where
  "to_int x = (x + 2147483648) mod 4294967296 - 2147483648"

text \<open>
  The loop of \<^verbatim>\<open>display_copy_status\<close>. It reads \<^verbatim>\<open>cur_size\<close>, which the other thread changes, three times in a turn: in the
  condition, for the bar and for the percentage \<open>pct\<close>, which is computed with doubles; \<open>None\<close> is a value that has not been stored yet.
  The result is the events and whether the loop has ended.
\<close>

definition bar_pos :: "int \<Rightarrow> int \<Rightarrow> int \<Rightarrow> int option" where
  "bar_pos cols st_size cur_size = (let st_bl = cols - 12 in
     if st_bl = 0 then None
     else let st_bl_c = to_int (st_size sdiv st_bl) in
       if st_bl_c = 0 then None else Some (to_int (cur_size sdiv st_bl_c + 3)))"

fun status_loop :: "(int \<Rightarrow> int \<Rightarrow> int) \<Rightarrow> int \<Rightarrow> int \<Rightarrow> (int option \<times> int option \<times> int option) list \<Rightarrow> (event list \<times> bool) option" where
  "status_loop pct cols st_size [] = Some ([], False)"
| "status_loop pct cols st_size ((o1, o2, o3) # obs) = do {
     c1 \<leftarrow> o1;
     if st_size \<le> c1 then Some ([Call ''mvwprintw'' [Num 1, Num (cols - 7), Str ''100%'']], True)
     else do {
       c2 \<leftarrow> o2;
       p \<leftarrow> bar_pos cols st_size c2;
       c3 \<leftarrow> o3;
       (es, stop) \<leftarrow> status_loop pct cols st_size obs;
       Some ([Call ''mvwprintw'' [Num 1, Num p, Str ''#''], Call ''mvwprintw'' [Num 1, Num (cols - 7), Num (pct c3 st_size)]] @ es, stop) } }"

definition display_copy_status :: "(int \<Rightarrow> int \<Rightarrow> int) \<Rightarrow> int \<Rightarrow> int option \<Rightarrow> (int option \<times> int option \<times> int option) list \<Rightarrow> (event list \<times> bool) option" where
  "display_copy_status pct cols fs_size obs = (if cols = 12 then None else do {
     st_size \<leftarrow> fs_size;
     (es, stop) \<leftarrow> status_loop pct cols st_size obs;
     Some ([Call ''mvwprintw'' [Num 1, Num 2, Str ''[''], Call ''mvwprintw'' [Num 1, Num (cols - 9), Str '']'']] @ es, stop) })"

text \<open>Both threads. The record they share is new, so that it holds no size before the copying thread has stored one: \<open>cfi_values\<close> are
  the values of \<^verbatim>\<open>fs_src.st_size\<close> and \<^verbatim>\<open>cur_size\<close> over time. A run is given by the results of the calls of the copying thread, as
  far as it has come, and by the points in time at which the drawing thread looks at them.\<close>

record copy_run =
  cr_open :: int
  cr_size :: "int option"
  cr_creat :: int
  cr_reads :: "byte list option list"
  cr_writes :: "nat \<Rightarrow> nat \<Rightarrow> int"
  cr_first_look :: nat
  cr_looks :: "(nat \<times> nat \<times> nat) list"

definition run_copy :: "copy_run \<Rightarrow> byte list \<times> nat list \<times> event list \<times> int option" where
  "run_copy r = copy_file (cr_writes r) (cr_open r) (cr_size r \<noteq> None) (cr_creat r) (cr_reads r)"

definition cfi_values :: "copy_run \<Rightarrow> (int option \<times> int option) list" where
  "cfi_values r = (None, None) # (if cr_open r = - 1 \<or> cr_size r = None then []
     else (cr_size r, None) # map (\<lambda>c. (cr_size r, Some (int c))) (fst (snd (run_copy r))))"

definition look :: "copy_run \<Rightarrow> nat \<Rightarrow> int option \<times> int option" where
  "look r i = (if i < length (cfi_values r) then cfi_values r ! i else last (cfi_values r))"

definition run_status :: "(int \<Rightarrow> int \<Rightarrow> int) \<Rightarrow> int \<Rightarrow> copy_run \<Rightarrow> (event list \<times> bool) option" where
  "run_status pct cols r = display_copy_status pct cols (fst (look r (cr_first_look r)))
     (map (\<lambda>(a, b, c). (snd (look r a), snd (look r b), snd (look r c))) (cr_looks r))"

text \<open>The result: what has been written, what has been printed, and whether both threads have ended, for which the main program waits.\<close>

definition copy_threads :: "(int \<Rightarrow> int \<Rightarrow> int) \<Rightarrow> int \<Rightarrow> copy_run \<Rightarrow> (byte list \<times> event list \<times> bool) option" where
  "copy_threads pct cols r = (case run_copy r of (w, cs, es, c) \<Rightarrow> do {
     (es', stop) \<leftarrow> run_status pct cols r;
     Some (w, es @ es', c \<noteq> None \<and> stop) })"

section \<open>The dialog\<close>

datatype pkey = P_DOWN | P_UP | P_LEFT | P_RIGHT | P_ENTER | P_BACKSPACE | P_CH int

datatype form_req = REQ_NEXT_FIELD | REQ_PREV_FIELD | REQ_PREV_CHAR | REQ_NEXT_CHAR | REQ_DEL_PREV | REQ_CH int
datatype menu_req = REQ_LEFT_ITEM | REQ_RIGHT_ITEM | REQ_FIRST_ITEM

text \<open>The library: a form with the test whether its last field is the current one, and a menu with the name of its current
  item.\<close>

record ('f, 'm) ui =
  form_driver :: "form_req \<Rightarrow> 'f \<Rightarrow> 'f"
  on_last_field :: "'f \<Rightarrow> bool"
  menu_driver :: "menu_req \<Rightarrow> 'm \<Rightarrow> 'm"
  item_name :: "'m \<Rightarrow> string"

record ('f, 'm) popup =
  popup_form :: 'f
  popup_menu :: 'm
  is_on_button :: bool

text \<open>The buttons with what they do. No button with the name of the item: the function ends without a result.\<close>

fun driver_buttons :: "(string \<times> 'a) list \<Rightarrow> string \<Rightarrow> 'a option" where
  "driver_buttons [] name = None"
| "driver_buttons ((key, func) # bs) name = (if key = name then Some func else driver_buttons bs name)"

definition switch_to_buttons :: "('f, 'm) ui \<Rightarrow> ('f, 'm) popup \<Rightarrow> ('f, 'm) popup" where
  "switch_to_buttons ui p = p\<lparr>popup_form := form_driver ui REQ_NEXT_FIELD (form_driver ui REQ_PREV_FIELD (popup_form p)),
     popup_menu := menu_driver ui REQ_FIRST_ITEM (popup_menu p), is_on_button := True\<rparr>"

definition on_form :: "('f, 'm) ui \<Rightarrow> form_req \<Rightarrow> ('f, 'm) popup \<Rightarrow> ('f, 'm) popup" where
  "on_form ui r p = p\<lparr>popup_form := form_driver ui r (popup_form p)\<rparr>"

definition on_menu :: "('f, 'm) ui \<Rightarrow> menu_req \<Rightarrow> ('f, 'm) popup \<Rightarrow> ('f, 'm) popup" where
  "on_menu ui r p = p\<lparr>popup_menu := menu_driver ui r (popup_menu p)\<rparr>"

text \<open>A key other than \<open>P_ENTER\<close> on a button, which ends the dialog.\<close>

fun popup_key :: "('f, 'm) ui \<Rightarrow> pkey \<Rightarrow> ('f, 'm) popup \<Rightarrow> ('f, 'm) popup" where
  "popup_key ui P_DOWN p = (if is_on_button p then p
     else if on_last_field ui (popup_form p) then switch_to_buttons ui p else on_form ui REQ_NEXT_FIELD p)"
| "popup_key ui P_UP p = (if is_on_button p then p\<lparr>is_on_button := False\<rparr> else on_form ui REQ_PREV_FIELD p)"
| "popup_key ui P_LEFT p = (if is_on_button p then on_menu ui REQ_LEFT_ITEM p else on_form ui REQ_PREV_CHAR p)"
| "popup_key ui P_RIGHT p = (if is_on_button p then on_menu ui REQ_RIGHT_ITEM p else on_form ui REQ_NEXT_CHAR p)"
| "popup_key ui P_ENTER p = (if is_on_button p then p else switch_to_buttons ui p)"
| "popup_key ui P_BACKSPACE p = on_form ui REQ_DEL_PREV p"
| "popup_key ui (P_CH c) p = (if is_on_button p then p else on_form ui (REQ_CH c) p)"

text \<open>The loop: the result is the pressed button's function (\<open>Some None\<close> while there are no more keys) and the dialog's
  state. A key with the code \<open>0\<close> ends it without a result.\<close>

fun popup_driver :: "('f, 'm) ui \<Rightarrow> (string \<times> 'a) list \<Rightarrow> pkey list \<Rightarrow> ('f, 'm) popup \<Rightarrow> ('a option \<times> ('f, 'm) popup) option" where
  "popup_driver ui bs [] p = Some (None, p)"
| "popup_driver ui bs (k # ks) p =
     (if k = P_CH 0 then None
      else if k = P_ENTER \<and> is_on_button p then do { f \<leftarrow> driver_buttons bs (item_name ui (popup_menu p)); Some (Some f, p) }
      else popup_driver ui bs ks (popup_key ui k p))"

text \<open>The actions of the forms. \<^verbatim>\<open>strlen\<close> is applied to the fields themselves instead of to their texts: \<open>len1\<close> and \<open>len3\<close> are what it
  finds there. \<open>buf1\<close> and \<open>buf3\<close> are the texts, filled up with blanks.\<close>

definition copy_action_btn_ok :: "nat \<Rightarrow> nat \<Rightarrow> byte list \<Rightarrow> byte list \<Rightarrow> (byte list \<times> byte list) option option" where
  "copy_action_btn_ok len1 len3 buf1 buf3 = (if 0 < len1 \<and> 0 < len3 then do {
     fn_src \<leftarrow> trim buf1;
     fn_dst \<leftarrow> trim buf3;
     Some (Some (take 254 fn_src, take 254 fn_dst)) } else Some None)"

text \<open>The result of \<^verbatim>\<open>display_copy_form\<close>: the names, or nothing when the dialog is cancelled; and that of \<^verbatim>\<open>display_del_form\<close>. The form's
  texts are read from its state by \<open>field\<close>.\<close>

definition display_copy_form :: "('f, 'm) ui \<Rightarrow> ('f \<Rightarrow> nat \<Rightarrow> nat \<times> byte list) \<Rightarrow> pkey list \<Rightarrow> 'f \<Rightarrow> 'm \<Rightarrow> (byte list \<times> byte list) option option" where
  "display_copy_form ui field ks form menu = do {
     (b, p) \<leftarrow> popup_driver ui [('' OK'', True), ('' CANCEL'', False)] ks \<lparr>popup_form = form, popup_menu = menu, is_on_button = True\<rparr>;
     ok \<leftarrow> b;
     if ok then copy_action_btn_ok (fst (field (popup_form p) 1)) (fst (field (popup_form p) 3)) (snd (field (popup_form p) 1)) (snd (field (popup_form p) 3))
     else Some None }"

definition display_del_form :: "('f, 'm) ui \<Rightarrow> pkey list \<Rightarrow> 'f \<Rightarrow> 'm \<Rightarrow> bool option" where
  "display_del_form ui ks form menu = do {
     (b, p) \<leftarrow> popup_driver ui [('' OK'', True), ('' CANCEL'', False)] ks \<lparr>popup_form = form, popup_menu = menu, is_on_button = True\<rparr>;
     b }"

section \<open>Trimming is right\<close>

lemma trim_end_stops: "n \<le> length s \<Longrightarrow>
  trim_end s n = (if \<forall>c \<in> set (take n s). isspace c then None else Some (length (rev (dropWhile isspace (rev (take n s))))))"
proof (induction n)
  case (Suc n)
  then have t: "take (Suc n) s = take n s @ [s ! n]" by (simp add: take_Suc_conv_app_nth)
  show ?case using Suc by (auto simp: t)
qed simp

lemma rev_dropWhile_rev: "rev (dropWhile P (rev xs)) = take (length (dropWhile P (rev xs))) xs"
proof -
  obtain zs where "xs = rev (dropWhile P (rev xs)) @ rev zs" using takeWhile_dropWhile_id[of P "rev xs"] by (metis rev_append rev_rev_ident)
  then show ?thesis by (metis append_eq_conv_conj length_rev)
qed

lemma trim_start_drops: "\<not> (\<forall>c \<in> set (take n s). isspace c) \<Longrightarrow> trim_start s n = dropWhile isspace (take n s)"
proof (induction s n rule: trim_start.induct)
  case (2 c cs n)
  then show ?case by (cases n) auto
qed simp

lemma dropWhile_swap:
  "\<not> (\<forall>c \<in> set xs. P c) \<Longrightarrow> dropWhile P (rev (dropWhile P (rev xs))) = rev (dropWhile P (rev (dropWhile P xs)))"
  by (induction xs) (auto simp: dropWhile_append)

text \<open>\<^verbatim>\<open>trim\<close> cuts the white space off both ends of a text, and is undefined exactly for a text without any
  other character, the empty one included, where it reads in front of the text. An empty field of a form is such a text.\<close>
theorem trim_correct:
  "trim s = (if list_all isspace s then None else Some (rev (dropWhile isspace (rev (dropWhile isspace s)))))"
proof (cases "list_all isspace s")
  case True
  then have "\<forall>c \<in> set s. isspace c" by (simp add: list_all_iff)
  then show ?thesis using True trim_end_stops[of "length s" s] by (simp add: trim_def)
next
  case False
  let ?n = "length (rev (dropWhile isspace (rev s)))"
  have t: "take ?n s = rev (dropWhile isspace (rev s))"
    unfolding length_rev by (rule rev_dropWhile_rev[symmetric])
  have "dropWhile isspace (rev s) \<noteq> []" using False by (auto simp: list_all_iff)
  then have "hd (dropWhile isspace (rev s)) \<in> set (dropWhile isspace (rev s)) \<and> \<not> isspace (hd (dropWhile isspace (rev s)))"
    by (simp add: hd_dropWhile)
  then have "\<not> (\<forall>c \<in> set (take ?n s). isspace c)" unfolding t set_rev by blast
  then have "trim_start s ?n = rev (dropWhile isspace (rev (dropWhile isspace s)))"
    using trim_start_drops t dropWhile_swap[OF False[unfolded list_all_iff]] by simp
  then show ?thesis using False trim_end_stops[of "length s" s] by (simp add: trim_def list_all_iff)
qed

section \<open>Copying\<close>

fun sums :: "nat \<Rightarrow> nat list \<Rightarrow> nat list" where
  "sums n [] = []"
| "sums n (x # xs) = (n + x) # sums (n + x) xs"

lemma copy_loop_all:
  "\<forall>c \<in> set cs. c \<noteq> [] \<and> length c \<le> 1024 \<Longrightarrow> \<forall>j n. wr j n = int n \<Longrightarrow>
    copy_loop wr src dst (map Some cs @ [Some []]) k n =
      (concat cs, sums n (map length cs), [Call ''close'' [Num src], Call ''close'' [Num dst]], Some 0)"
  by (induction cs arbitrary: k n) (simp_all add: Let_def)

lemma copy_loop_fails:
  "\<forall>c \<in> set cs. c \<noteq> [] \<and> length c \<le> 1024 \<Longrightarrow> c \<noteq> [] \<Longrightarrow> length c \<le> 1024 \<Longrightarrow> \<forall>j < k + length cs. \<forall>n. wr j n = int n \<Longrightarrow>
    wr (k + length cs) (length c) \<noteq> int (length c) \<Longrightarrow>
    copy_loop wr src dst (map Some cs @ Some c # rs) k n =
      (concat cs @ take (nat (wr (k + length cs) (length c))) c, sums n (map length cs), [Perror ''write''], Some 1)"
  by (induction cs arbitrary: k n) (simp_all add: Let_def)

lemma sums_le: "x \<in> set (sums n xs) \<Longrightarrow> x \<le> n + sum_list xs"
  by (induction xs arbitrary: n) (auto, force)

lemma sums_last: "last (n # sums n xs) = n + sum_list xs"
  by (induction xs arbitrary: n) auto

lemma sdiv_pos: "0 \<le> (a :: int) \<Longrightarrow> 0 < b \<Longrightarrow> a sdiv b = a div b"
  by (cases "a = 0") (simp_all add: signed_divide_int_def)

lemma to_int_id: "- 2147483648 \<le> x \<Longrightarrow> x < 2147483648 \<Longrightarrow> to_int x = x"
  by (simp add: to_int_def)

text \<open>The drawing thread goes on as long as it sees sizes below the file's.\<close>

lemma status_goes_on:
  "\<forall>(o1, o2, o3) \<in> set obs. (\<exists>c1. o1 = Some c1 \<and> c1 < st_size) \<and> (\<exists>c2. o2 = Some c2 \<and> bar_pos cols st_size c2 \<noteq> None) \<and> o3 \<noteq> None \<Longrightarrow>
    \<exists>es. status_loop pct cols st_size obs = Some (es, False)"
  by (induction obs) auto

text \<open>It is defined if it sees sizes and the bar can be drawn.\<close>

lemma status_defined:
  "\<forall>(o1, o2, o3) \<in> set obs. o1 \<noteq> None \<and> (\<exists>c2. o2 = Some c2 \<and> bar_pos cols st_size c2 \<noteq> None) \<and> o3 \<noteq> None \<Longrightarrow>
    \<exists>es stop. status_loop pct cols st_size obs = Some (es, stop)"
  by (induction obs) auto

lemma bar_pos_defined:
  assumes "12 < cols" "cols - 12 \<le> n" "n < 2147483648"
  shows "bar_pos cols n c \<noteq> None"
proof -
  have "0 < n div (cols - 12)" "n div (cols - 12) \<le> n" using assms(1,2) by (auto simp: pos_imp_zdiv_pos_iff zdiv_mono2[of n 1, simplified])
  then have "to_int (n sdiv (cols - 12)) \<noteq> 0" using assms by (simp add: to_int_def signed_divide_int_def)
  then show ?thesis using assms(1) by (simp add: bar_pos_def Let_def)
qed

text \<open>Looks at the record after the copying thread has stored a size into it.\<close>

definition late :: "copy_run \<Rightarrow> bool" where
  "late r \<longleftrightarrow> 1 \<le> cr_first_look r \<and> list_all (\<lambda>(a, b, c). 2 \<le> a \<and> 2 \<le> b \<and> 2 \<le> c) (cr_looks r)"

lemma look_late:
  assumes "cr_open r \<noteq> - 1" "cr_size r = Some n" "fst (snd (run_copy r)) = ss" "ss \<noteq> []"
  shows "1 \<le> i \<Longrightarrow> fst (look r i) = Some n" "2 \<le> i \<Longrightarrow> snd (look r i) \<in> (\<lambda>c. Some (int c)) ` set ss"
proof -
  have v: "cfi_values r = (None, None) # (Some n, None) # map (\<lambda>c. (Some n, Some (int c))) ss" using assms(1-3) by (simp add: cfi_values_def)
  have l: "last (cfi_values r) = (Some n, Some (int (last ss)))" using assms(4) by (simp add: v last_map)
  show "fst (look r i) = Some n" if "1 \<le> i"
  proof (cases "i < length (cfi_values r)")
    case True
    then show ?thesis using that unfolding look_def v by (cases i; cases "i - 1") (auto simp: nth_Cons')
  qed (simp add: look_def l)
  show "snd (look r i) \<in> (\<lambda>c. Some (int c)) ` set ss" if "2 \<le> i"
  proof (cases "i < length (cfi_values r)")
    case True
    then have "look r i = (Some n, Some (int (ss ! (i - 2))))" "i - 2 < length ss" using that unfolding look_def v by (auto simp: nth_Cons' numeral_2_eq_2)
    then show ?thesis by simp
  qed (use assms(4) in \<open>simp add: look_def l\<close>)
qed

text \<open>C21: A copy is exact, and a failed copy never ends. The file is read in pieces of at most 1024 bytes; source and destination can be
  opened. If every \<^verbatim>\<open>write\<close> is complete, the destination gets the file's bytes in order and the size shown reaches the file's size. If a
  \<^verbatim>\<open>write\<close> is cut short, whichever piece it is of, the destination has the pieces before and what was written of this one, and the
  size shown stays below the file's: provided that the file has less than \<open>2 ^ 31\<close> bytes and at least as many as the bar has columns (else the
  drawing thread divides by zero), and that the drawing thread does not look before the sizes are stored, it never ends, however often
  and whenever it looks, and the main program waits for it.\<close>
theorem copy_file_exact:
  assumes "\<forall>c \<in> set (cs @ d # ds). c \<noteq> [] \<and> length c \<le> 1024" "cr_open r \<noteq> - 1" "cr_creat r \<noteq> - 1" "cr_size r = Some (int (length (concat (cs @ d # ds))))"
  shows "((\<forall>j n. cr_writes r j n = int n) \<and> cr_reads r = map Some (cs @ d # ds) @ [Some []] \<longrightarrow> (\<exists>ss. run_copy r =
      (concat (cs @ d # ds), ss, [Call ''close'' [Num (cr_open r)], Call ''close'' [Num (cr_creat r)]], Some 0) \<and>
      last ss = length (concat (cs @ d # ds)))) \<and>
    ((\<forall>j < length cs. \<forall>n. cr_writes r j n = int n) \<and> cr_writes r (length cs) (length d) \<noteq> int (length d) \<and> cr_reads r = map Some (cs @ d # ds) @ rs \<longrightarrow>
      (\<exists>ss. run_copy r = (concat cs @ take (nat (cr_writes r (length cs) (length d))) d, ss, [Perror ''write''], Some 1)) \<and>
      (late r \<and> 12 < cols \<and> cols - 12 \<le> int (length (concat (cs @ d # ds))) \<and> length (concat (cs @ d # ds)) < 2147483648 \<longrightarrow>
        (\<exists>es. copy_threads pct cols r = Some (concat cs @ take (nat (cr_writes r (length cs) (length d))) d, es, False))))"
proof (intro conjI impI; elim conjE)
  assume "\<forall>j n. cr_writes r j n = int n" "cr_reads r = map Some (cs @ d # ds) @ [Some []]"
  then show "\<exists>ss. run_copy r = (concat (cs @ d # ds), ss, [Call ''close'' [Num (cr_open r)], Call ''close'' [Num (cr_creat r)]], Some 0) \<and>
      last ss = length (concat (cs @ d # ds))"
    using copy_loop_all[OF assms(1)] assms(2-4) sums_last[of 0 "map length (cs @ d # ds)"] by (simp add: run_copy_def copy_file_def length_concat)
next
  let ?n = "length (concat (cs @ d # ds))" and ?ss = "0 # sums 0 (map length cs)" and ?w = "concat cs @ take (nat (cr_writes r (length cs) (length d))) d"
  assume w: "\<forall>j < length cs. \<forall>n. cr_writes r j n = int n" "cr_writes r (length cs) (length d) \<noteq> int (length d)" "cr_reads r = map Some (cs @ d # ds) @ rs"
  have r: "run_copy r = (?w, ?ss, [Perror ''write''], Some 1)"
    using copy_loop_fails[of cs d 0 "cr_writes r" "cr_open r" "cr_creat r" "map Some ds @ rs" 0] assms w by (simp add: run_copy_def copy_file_def)
  then show "\<exists>ss. run_copy r = (?w, ss, [Perror ''write''], Some 1)" by blast
  assume o: "late r" "12 < cols" "cols - 12 \<le> int ?n" "?n < 2147483648"
  have "d \<noteq> []" using assms(1) by simp
  then have below: "x < ?n" if "x \<in> set ?ss" for x
    using that sums_le[of x 0 "map length cs"] by (cases d) (auto simp: length_concat)
  have seen: "fst (look r i) = Some (int ?n)" "2 \<le> j \<Longrightarrow> \<exists>x \<in> set ?ss. snd (look r j) = Some (int x)" if "1 \<le> i" for i j
    using look_late[OF assms(2,4), of ?ss] that r by auto
  have "\<exists>es. status_loop pct cols (int ?n) (map (\<lambda>(a, b, c). (snd (look r a), snd (look r b), snd (look r c))) (cr_looks r)) = Some (es, False)"
  proof (rule status_goes_on, rule ballI)
    fix v assume "v \<in> set (map (\<lambda>(a, b, c). (snd (look r a), snd (look r b), snd (look r c))) (cr_looks r))"
    then obtain a b c where v: "v = (snd (look r a), snd (look r b), snd (look r c))" "2 \<le> a" "2 \<le> b" "2 \<le> c"
      using o(1) by (auto simp: late_def list_all_iff)
    obtain x where x: "x \<in> set ?ss" "snd (look r a) = Some (int x)" using seen(2)[OF order_refl v(2)] by blast
    have "int x < int ?n" using below[OF x(1)] by (simp only: of_nat_less_iff)
    moreover have "bar_pos cols (int ?n) k \<noteq> None" for k using bar_pos_defined[OF o(2,3)] o(4) by simp
    ultimately show "case v of (o1, o2, o3) \<Rightarrow> (\<exists>c1. o1 = Some c1 \<and> c1 < int ?n) \<and> (\<exists>c2. o2 = Some c2 \<and> bar_pos cols (int ?n) c2 \<noteq> None) \<and> o3 \<noteq> None"
      using x(2) seen(2)[OF order_refl v(3)] seen(2)[OF order_refl v(4)] by (auto simp: v(1))
  qed
  moreover have "1 \<le> cr_first_look r" using o(1) by (simp add: late_def)
  ultimately show "\<exists>es. copy_threads pct cols r = Some (?w, es, False)"
    using seen(1)[of "cr_first_look r"] o(2) r by (auto simp: copy_threads_def run_status_def display_copy_status_def)
qed

text \<open>If the drawing thread is faster than the copying thread, it reads what nobody has stored, and so it does after a file that cannot be
  opened.\<close>

lemma early_look: "cr_first_look r = 0 \<or> cr_open r = - 1 \<or> cr_size r = None \<Longrightarrow> copy_threads pct cols r = None"
  by (auto simp: copy_threads_def run_status_def display_copy_status_def look_def cfi_values_def split: prod.splits)

text \<open>The second write of a file of 30 bytes is cut short; the window has 40 columns.\<close>

definition cut_short :: copy_run where
  "cut_short = \<lparr>cr_open = 3, cr_size = Some 30, cr_creat = 4, cr_reads = [Some (replicate 20 1), Some (replicate 10 2)],
     cr_writes = (\<lambda>j n. if j = 1 then 4 else int n), cr_first_look = 2, cr_looks = [(2, 2, 3), (3, 3, 9)]\<rparr>"

theorem copy_file_exact_witness:
  "\<exists>es. copy_threads (\<lambda>a b. 0) 40 cut_short = Some (replicate 20 1 @ replicate 4 2, es, False)"
  using copy_file_exact[of "[replicate 20 1]" "replicate 10 2" "[]" cut_short "[]" 40 "\<lambda>a b. 0"]
  by (auto simp: cut_short_def late_def)

text \<open>The progress bar. For a file that has at least as many bytes as the bar has columns, the mark is never left of
  the bar, but it can be up to twice as far right as the bar is long, beyond the window. For a smaller file, unless it is copied before the bar is
  first drawn, the thread divides by zero.\<close>
theorem copy_bar_bounds:
  assumes "12 < cols" "cols < 1073741824" "st_size < 2147483648" "0 \<le> c" "c \<le> st_size"
  shows "(cols - 12 \<le> st_size \<longrightarrow> (\<exists>p. bar_pos cols st_size c = Some p \<and> 3 \<le> p \<and> p \<le> 2 * (cols - 12) + 2)) \<and>
    (c < st_size \<and> st_size < cols - 12 \<longrightarrow> display_copy_status pct cols (Some st_size) ((Some c, Some c', c'') # obs) = None)"
proof (intro conjI impI)
  let ?b = "cols - 12" and ?q = "st_size div (cols - 12)"
  assume b: "?b \<le> st_size"
  have q: "1 \<le> ?q" "?q \<le> st_size" using assms(1) b zdiv_mono1[of ?b st_size ?b] zdiv_mono2[of st_size 1 ?b] by simp_all
  have "st_size = ?q * ?b + st_size mod ?b" by (rule div_mult_mod_eq[symmetric])
  moreover have "st_size mod ?b < ?b" using assms(1) by simp
  ultimately have "st_size < (?q + 1) * ?b" by (simp add: distrib_right)
  also have "\<dots> \<le> (2 * ?q) * ?b" using q(1) assms(1) by (intro mult_right_mono) auto
  also have "(2 * ?q) * ?b = (2 * ?b) * ?q" by (rule mult.assoc[THEN trans], subst mult.commute[of ?q], rule mult.assoc[symmetric])
  finally have "c < (2 * ?b) * ?q" using assms(5) by (rule le_less_trans[rotated])
  moreover have "c = c div ?q * ?q + c mod ?q" by (rule div_mult_mod_eq[symmetric])
  moreover have "0 \<le> c mod ?q" using q(1) by simp
  ultimately have "c div ?q * ?q < (2 * ?b) * ?q" by linarith
  then have "c div ?q < 2 * ?b" by (rule mult_right_less_imp_less) (use q(1) in simp)
  moreover have "0 \<le> c div ?q" using q(1) assms(4) by (simp add: pos_imp_zdiv_nonneg_iff)
  ultimately show "\<exists>p. bar_pos cols st_size c = Some p \<and> 3 \<le> p \<and> p \<le> 2 * ?b + 2"
    using q assms by (simp add: bar_pos_def Let_def sdiv_pos to_int_id)
next
  assume "c < st_size \<and> st_size < cols - 12"
  then show "display_copy_status pct cols (Some st_size) ((Some c, Some c', c'') # obs) = None"
    using assms(1,4) by (simp add: display_copy_status_def bar_pos_def to_int_def signed_divide_int_def)
qed

theorem copy_bar_bounds_witness:
  "display_copy_status (\<lambda>a b. 0) 40 (Some 5) [(Some 0, Some 0, Some 0)] = None \<and> (\<exists>p. bar_pos 40 55 55 = Some p \<and> 3 \<le> p \<and> p \<le> 58)"
  using copy_bar_bounds[of 40 5 0 "\<lambda>a b. 0" 0 "Some 0" "[]"] copy_bar_bounds[of 40 55 55] by simp

text \<open>The bound is sharp: 58 is reached, in a window of 40 columns.\<close>

lemma copy_bar_overrun: "bar_pos 40 55 55 = Some 58"
  by (simp add: bar_pos_def Let_def to_int_def signed_divide_int_def)

section \<open>The dialog is right\<close>

text \<open>While the buttons have the focus, only the arrows matter to the menu and only \<open>P_BACKSPACE\<close> to the form.\<close>

fun menu_moves :: "pkey list \<Rightarrow> menu_req list" where
  "menu_moves [] = []"
| "menu_moves (P_LEFT # ks) = REQ_LEFT_ITEM # menu_moves ks"
| "menu_moves (P_RIGHT # ks) = REQ_RIGHT_ITEM # menu_moves ks"
| "menu_moves (k # ks) = menu_moves ks"

definition on_buttons_keys :: "pkey list \<Rightarrow> bool" where
  "on_buttons_keys ks = (P_UP \<notin> set ks \<and> P_ENTER \<notin> set ks \<and> P_CH 0 \<notin> set ks)"

lemma popup_on_buttons:
  assumes "is_on_button p" "on_buttons_keys ks"
  shows "popup_driver ui bs (ks @ P_ENTER # ks') p =
    (let m = fold (menu_driver ui) (menu_moves ks) (popup_menu p);
         f = (form_driver ui REQ_DEL_PREV ^^ length (filter (\<lambda>k. k = P_BACKSPACE) ks)) (popup_form p) in
     map_option (\<lambda>a. (Some a, p\<lparr>popup_menu := m, popup_form := f\<rparr>)) (driver_buttons bs (item_name ui m)))"
  using assms
proof (induction ks arbitrary: p)
  case Nil
  then show ?case by (cases "driver_buttons bs (item_name ui (popup_menu p))") auto
next
  case (Cons k ks)
  then have ks: "on_buttons_keys ks" "k \<noteq> P_UP" "k \<noteq> P_ENTER" "k \<noteq> P_CH 0" by (auto simp: on_buttons_keys_def)
  show ?case
  proof (cases k)
    case P_BACKSPACE
    then show ?thesis using Cons.IH[OF _ ks(1), of "on_form ui REQ_DEL_PREV p"] Cons.prems(1)
      by (simp add: on_form_def funpow_swap1 Let_def)
  qed (use ks Cons.prems(1) Cons.IH[OF _ ks(1)] in \<open>simp_all add: on_menu_def Let_def\<close>)
qed

text \<open>A dialog that is answered from its buttons. The buttons have the focus first; then, whatever else is typed short of
  \<open>P_UP\<close>, \<open>P_ENTER\<close> presses the button that the arrows have selected, no letter reaches a field, and with a menu that starts on \<open>OK\<close> a single
  \<open>P_ENTER\<close> confirms the removal of a file. But \<open>P_BACKSPACE\<close> deletes from a field all the same.\<close>
theorem popup_buttons:
  assumes "on_buttons_keys ks" "m = fold (menu_driver ui) (menu_moves ks) menu" "item_name ui m = '' OK'' \<or> item_name ui m = '' CANCEL''"
  shows "display_del_form ui (ks @ P_ENTER # ks') form menu = Some (item_name ui m = '' OK'') \<and>
    (item_name ui m = '' CANCEL'' \<longrightarrow> display_copy_form ui field (ks @ P_ENTER # ks') form menu = Some None) \<and>
    (item_name ui m = '' OK'' \<and> P_BACKSPACE \<notin> set ks \<longrightarrow> display_copy_form ui field (ks @ P_ENTER # ks') form menu =
      copy_action_btn_ok (fst (field form 1)) (fst (field form 3)) (snd (field form 1)) (snd (field form 3)))"
proof -
  have b: "P_BACKSPACE \<notin> set ks \<Longrightarrow> filter (\<lambda>k. k = P_BACKSPACE) ks = []" by (simp add: filter_empty_conv) metis
  show ?thesis using assms b
    by (auto simp: display_del_form_def display_copy_form_def popup_on_buttons Let_def)
qed

text \<open>A menu of the two buttons, as the library keeps it.\<close>

definition two_items :: "(unit, nat) ui" where
  "two_items = \<lparr>form_driver = (\<lambda>r f. f), on_last_field = (\<lambda>f. True),
     menu_driver = (\<lambda>r m. case r of REQ_LEFT_ITEM \<Rightarrow> 0 | REQ_RIGHT_ITEM \<Rightarrow> 1 | REQ_FIRST_ITEM \<Rightarrow> 0),
     item_name = (\<lambda>m. if m = 0 then '' OK'' else '' CANCEL'')\<rparr>"

theorem popup_buttons_witness:
  "display_del_form two_items [P_ENTER] () 0 = Some True \<and> display_del_form two_items [P_CH 120, P_RIGHT, P_ENTER] () 0 = Some False"
proof -
  have k: "on_buttons_keys []" "on_buttons_keys [P_CH 120, P_RIGHT]" by (simp_all add: on_buttons_keys_def)
  show ?thesis using popup_buttons[OF k(1) refl, of two_items 0 "[]" "()"] popup_buttons[OF k(2) refl, of two_items 0 "[]" "()"]
    by (simp add: two_items_def)
qed

section \<open>The other trim\<close>

text \<open>\<^verbatim>\<open>trim_whitespaces\<close> of \<^verbatim>\<open>src/backup/fm_3/fields_magic.c\<close>, an earlier experiment with forms: it looks at no more than 128 characters.\<close>

fun last_kept :: "byte list \<Rightarrow> nat \<Rightarrow> nat" where
  "last_kept s 0 = 0"
| "last_kept s (Suc e) = (if isspace (s ! Suc e) then last_kept s e else Suc e)"

definition trim_whitespaces :: "byte list \<Rightarrow> byte list" where
  "trim_whitespaces str = (let str = dropWhile isspace str in
     if str = [] then str else take (last_kept str (min (length str) 128 - 1) + 1) str)"

lemma last_kept_rev:
  "n < length s \<Longrightarrow> \<not> isspace (s ! 0) \<Longrightarrow> take (Suc (last_kept s n)) s = rev (dropWhile isspace (rev (take (Suc n) s)))"
proof (induction n)
  case (Suc n)
  then show ?case by (simp add: take_Suc_conv_app_nth[of "Suc n"])
qed (simp add: take_Suc_conv_app_nth)

lemma trim_whitespaces_strip: "trim_whitespaces s = rev (dropWhile isspace (rev (take 128 (dropWhile isspace s))))"
proof (cases "dropWhile isspace s")
  case (Cons c cs)
  let ?s = "dropWhile isspace s"
  have "\<not> isspace (?s ! 0)" using hd_dropWhile[of isspace s] Cons by (simp add: hd_conv_nth)
  moreover have "min (length ?s) 128 - 1 < length ?s" "take (Suc (min (length ?s) 128 - 1)) ?s = take 128 ?s" using Cons by (auto simp: min_def)
  ultimately show ?thesis using last_kept_rev[of "min (length ?s) 128 - 1" ?s] Cons by (simp add: trim_whitespaces_def Let_def)
next
  case Nil
  then show ?thesis by (simp only: trim_whitespaces_def Nil Let_def) simp
qed

text \<open>The two functions that cut white space off a text agree on every text of at most 128 characters on which the file manager's
  is defined, that is, on every text that is not blank.\<close>
theorem trims_agree:
  assumes "length s \<le> 128"
  shows "trim s = (if list_all isspace s then None else Some (trim_whitespaces s))"
  using assms length_dropWhile_le[of isspace s] by (simp add: trim_correct trim_whitespaces_strip)

theorem trims_agree_witness: "trim (bytes_of '' a b '') = Some (bytes_of ''a b'')"
  using trims_agree[of "bytes_of '' a b ''"] by (simp add: bytes_of_def isspace_def trim_whitespaces_strip)

end
