(* ===== verification/File_Manager.thy ===== *)
theory File_Manager
  imports Dir_Panel File_Copy
begin

text \<open>
  The main program of \<^verbatim>\<open>src/file_manager\<close>: its start and the loop of \<^verbatim>\<open>src/main.c\<close> that moves between files, panels and
  directories, with the copy and remove commands.
\<close>

section \<open>The main loop\<close>

text \<open>The keys. With \<open>KEY_F5\<close> comes what happens in the dialog and to the threads: the button that ends the dialog (\<open>None\<close> if a key
  with the code 0 has ended it, see \<open>popup_driver\<close>), what \<^verbatim>\<open>strlen\<close> finds in the two fields, their texts, the results of \<^verbatim>\<open>pthread_create\<close>, the run
  of the threads, and the percentages shown; with \<open>KEY_F8\<close> the button.\<close>

record f5 =
  f5_button :: "bool option"
  f5_lens :: "nat \<times> nat"
  f5_texts :: "byte list \<times> byte list"
  f5_create :: "int \<times> int"
  f5_run :: copy_run
  f5_pct :: "int \<Rightarrow> int \<Rightarrow> int"

datatype key = KEY_UP | KEY_DOWN | KEY_LEFT | KEY_RIGHT | KEY_TAB | KEY_HOME | KEY_END | KEY_ENTER
  | KEY_F5 f5 | KEY_F8 "bool option" | Other

text \<open>\<^verbatim>\<open>get_file_path\<close>: the result of \<^verbatim>\<open>malloc\<close> and of \<^verbatim>\<open>getcwd\<close> is used unchecked.\<close>

definition get_file_path :: "'w sys \<Rightarrow> byte list \<Rightarrow> 'w fm \<Rightarrow> (byte list, 'w fm) step" where
  "get_file_path sys name s =
     (if \<not> mem_ok s (allocs s) then Undefined
      else need (s_getcwd sys (world s)) (\<lambda>cur_dir. Go (take 254 (cur_dir @ [47] @ name)) (s\<lparr>allocs := Suc (allocs s)\<rparr>)))"

definition is_reg :: "fil \<Rightarrow> bool" where
  "is_reg f = (st_mode (file_stat f) AND 0xF000 = 0x8000)"

definition is_exec :: "fil \<Rightarrow> bool" where
  "is_exec f = (st_mode (file_stat f) AND 64 \<noteq> 0 \<or> st_mode (file_stat f) AND 8 \<noteq> 0 \<or> st_mode (file_stat f) AND 1 \<noteq> 0)"

text \<open>The file the cursor is on.\<close>

definition with_current :: "'w fm \<Rightarrow> (fil \<Rightarrow> ('b, 'w fm) step) \<Rightarrow> ('b, 'w fm) step" where
  "with_current s f = need (if current_file (di (cd s) s) = NULL then None else fils s (current_file (di (cd s) s))) f"

text \<open>Moving to the panel \<open>d\<close>, which changes the directory.\<close>

definition go_panel :: "'w sys \<Rightarrow> side \<Rightarrow> 'w fm \<Rightarrow> (unit, 'w fm) step" where
  "go_panel sys d s = andthen (print_dir_dynamic (cd s) 2 s) (\<lambda>_ s.
     let s = s\<lparr>cd := d\<rparr> in
     case s_chdir sys (dir_path (di d s)) (world s) of
       None \<Rightarrow> Exit 0 (emit [Perror ''chdir''] s)
     | Some w \<Rightarrow> print_dir_dynamic d 1 (s\<lparr>world := w\<rparr>))"

definition reload :: "'w sys \<Rightarrow> 'w fm \<Rightarrow> (unit, 'w fm) step" where
  "reload sys s = andthen (free_fil (cd s) s) (\<lambda>_ s. get_dir_info sys (bytes_of ''.'') (cd s) s)"

text \<open>What follows a copy or a removal.\<close>

definition redraw :: "'w sys \<Rightarrow> 'w fm \<Rightarrow> (unit, 'w fm) step" where
  "redraw sys s = andthen (reload sys s) (\<lambda>_ s. andthen (print_dir_static sys L (emit [Call ''wclear'' [Str ''ld''], Call ''wclear'' [Str ''rd''],
       box (the_look sys) ''ld'', box (the_look sys) ''rd''] s)) (\<lambda>_ s. andthen (print_dir_static sys R s) (\<lambda>_ s.
     andthen (print_dir_dynamic L (if cd s = L then 1 else 2) s) (\<lambda>_ s. print_dir_dynamic R (if cd s = L then 2 else 1) s))))"

text \<open>The screen is left for the program and made anew.\<close>

definition run_events :: "look \<Rightarrow> byte list \<Rightarrow> event list" where
  "run_events k name = [Call ''close_graph'' [], Call ''execl'' [Str (text_of name)], Call ''init_graph'' [], box k ''ld'', box k ''rd'']"

definition key_enter :: "'w sys \<Rightarrow> 'w fm \<Rightarrow> (unit, 'w fm) step" where
  "key_enter sys s = with_current s (\<lambda>f. need (get_name f) (\<lambda>name.
     andthen (case s_chdir sys name (world s) of
         None \<Rightarrow> Go () s
       | Some w \<Rightarrow> andthen (reload sys (s\<lparr>world := w\<rparr>)) (\<lambda>_ s. andthen (print_dir_static sys (cd s) s) (\<lambda>_ s. print_dir_dynamic (cd s) 1 s)))
     (\<lambda>_ s. with_current s (\<lambda>f.
       if is_reg f \<and> is_exec f then need (get_name f) (\<lambda>name.
         andthen (print_dir_dynamic L 1 (emit (run_events (the_look sys) name) (s\<lparr>world := s_exec sys name (world s)\<rparr>)))
           (\<lambda>_ s. print_dir_dynamic R 2 s))
       else Go () s))))"

text \<open>The assertions of \<^verbatim>\<open>popup_new\<close>, of which one that fails ends the program.\<close>

definition assert_popup :: "popup_wnds \<Rightarrow> 'w fm \<Rightarrow> (unit, 'w fm) step" where
  "assert_popup p s = (if popup_opens p then Go () s else Exit 134 (emit [Call ''abort'' []] s))"

definition copy_form_result :: "f5 \<Rightarrow> (byte list \<times> byte list) option option" where
  "copy_form_result a = (case f5_button a of
     None \<Rightarrow> None
   | Some b \<Rightarrow> if b then copy_action_btn_ok (fst (f5_lens a)) (snd (f5_lens a)) (fst (f5_texts a)) (snd (f5_texts a)) else Some None)"

text \<open>The threads. A name that fills its buffer has no end. The file is made when both files could be opened. While a thread runs, the
  program waits.\<close>

definition copy_stored :: "'w sys \<Rightarrow> byte list \<Rightarrow> copy_run \<Rightarrow> 'w fm \<Rightarrow> 'w fm" where
  "copy_stored sys fn_dst r s = (if cr_open r = - 1 \<or> cr_size r = None \<or> cr_creat r = - 1 then s
     else s\<lparr>world := s_store sys fn_dst (fst (run_copy r)) (world s)\<rparr>)"

definition start_copy :: "'w sys \<Rightarrow> byte list \<Rightarrow> byte list \<Rightarrow> f5 \<Rightarrow> 'w fm \<Rightarrow> (unit, 'w fm) step" where
  "start_copy sys fn_src fn_dst a s =
     (if fst (f5_create a) \<noteq> 0 then Exit 1 (emit [Perror ''pthread_create''] s)
      else if 254 \<le> length fn_src \<or> 254 \<le> length fn_dst then Undefined
      else let s = copy_stored sys fn_dst (f5_run a) s in
      if snd (f5_create a) \<noteq> 0 then Exit 1 (emit [Perror ''pthread_create''] s)
      else need (copy_threads (f5_pct a) (s_cols sys div 2) (f5_run a)) (\<lambda>(w, es, done). if done then Go () (emit es s) else Busy (emit es s)))"

definition key_f5 :: "'w sys \<Rightarrow> f5 \<Rightarrow> 'w fm \<Rightarrow> (unit, 'w fm) step" where
  "key_f5 sys a s = with_current s (\<lambda>f.
     if \<not> is_reg f then Go () s
     else if \<not> mem_ok s (allocs s) then Exit 1 (emit [Perror ''malloc''] s)
     else need (get_name f) (\<lambda>name. andthen (get_file_path sys name (s\<lparr>allocs := Suc (allocs s)\<rparr>)) (\<lambda>file_path s.
       andthen (get_file_path sys [] s) (\<lambda>cur_dir s.
       andthen (assert_popup (copy_popup (s_lines sys) (s_cols sys) (text_of file_path) (text_of cur_dir))
         (emit [Call ''display_copy_form'' [Str (text_of file_path), Str (text_of cur_dir)]] s)) (\<lambda>_ s.
       need (copy_form_result a) (\<lambda>names. case names of
         None \<Rightarrow> redraw sys s
       | Some (fn_src, fn_dst) \<Rightarrow> andthen (start_copy sys fn_src fn_dst a s) (\<lambda>_ s. redraw sys s)))))))"

text \<open>When \<^verbatim>\<open>unlink\<close> fails, \<^verbatim>\<open>perror\<close> is called with the address of the function \<^verbatim>\<open>unlink\<close>.\<close>

definition key_f8 :: "'w sys \<Rightarrow> bool option \<Rightarrow> 'w fm \<Rightarrow> (unit, 'w fm) step" where
  "key_f8 sys button s = with_current s (\<lambda>f.
     if \<not> is_reg f then Go () s
     else need (get_name f) (\<lambda>name. andthen (get_file_path sys name s) (\<lambda>file_path s.
       andthen (assert_popup (del_popup (s_lines sys) (s_cols sys) (text_of file_path)) (emit [Call ''display_del_form'' [Str (text_of file_path)]] s)) (\<lambda>_ s.
       need button (\<lambda>remove.
         if \<not> remove then redraw sys s
         else need (s_unlink sys file_path (world s)) (\<lambda>w. redraw sys (s\<lparr>world := w\<rparr>)))))))"

definition move_to :: "addr \<Rightarrow> 'w fm \<Rightarrow> (unit, 'w fm) step" where
  "move_to p s = print_dir_dynamic (cd s) 1 (set_di (cd s) (\<lambda>i. i\<lparr>current_file := p\<rparr>) s)"

fun fm_key :: "'w sys \<Rightarrow> key \<Rightarrow> 'w fm \<Rightarrow> (unit, 'w fm) step" where
  "fm_key sys KEY_UP s = (if current_file (di (cd s) s) = head_file (di (cd s) s) then Go () s
     else with_current s (\<lambda>f. move_to (fil_prev f) s))"
| "fm_key sys KEY_DOWN s = with_current s (\<lambda>f. if fil_next f = NULL then Go () s else move_to (fil_next f) s)"
| "fm_key sys KEY_LEFT s = (if cd s = R then go_panel sys L s else Go () s)"
| "fm_key sys KEY_RIGHT s = (if cd s = L then go_panel sys R s else Go () s)"
| "fm_key sys KEY_TAB s = go_panel sys (if cd s = L then R else L) s"
| "fm_key sys KEY_HOME s = move_to (head_file (di (cd s) s)) s"
| "fm_key sys KEY_END s = move_to (tail_file (di (cd s) s)) s"
| "fm_key sys KEY_ENTER s = key_enter sys s"
| "fm_key sys (KEY_F5 answer) s = key_f5 sys answer s"
| "fm_key sys (KEY_F8 answer) s = key_f8 sys answer s"
| "fm_key sys Other s = Go () s"

text \<open>The program on the keys typed; \<open>None\<close> is the key that ends it.\<close>

fun fm_keys :: "'w sys \<Rightarrow> key option list \<Rightarrow> 'w fm \<Rightarrow> (unit, 'w fm) step" where
  "fm_keys sys [] s = Go () s"
| "fm_keys sys (None # ks) s = Exit 0 s"
| "fm_keys sys (Some k # ks) s = andthen (fm_key sys k s) (\<lambda>_ s. fm_keys sys ks s)"

definition fm_main :: "'w sys \<Rightarrow> byte list \<Rightarrow> byte list \<Rightarrow> key option list \<Rightarrow> 'w fm \<Rightarrow> (unit, 'w fm) step" where
  "fm_main sys home pwd ks s =
     andthen (init_core sys home pwd s) (\<lambda>_ s. andthen (print_dir_static sys (cd s)
         (emit [Call ''init_graph'' [], box (the_look sys) ''ld'', box (the_look sys) ''rd''] s)) (\<lambda>_ s. andthen (print_dir_static sys R s) (\<lambda>_ s.
       andthen (print_dir_dynamic L 1 s) (\<lambda>_ s. andthen (print_dir_dynamic R 2 s) (\<lambda>_ s. fm_keys sys ks s)))))"

section \<open>Safety\<close>

text \<open>A defined step that keeps the panels, and in between leaves the environment's conditions alone.\<close>

lemma fm_okE:
  assumes "fm_ok s"
  obtains xs ys where "panel (fils s) (di d s) xs" "panel (fils s) (di (oth d) s) ys" "set xs \<inter> set ys = {}" "heap_ok s (set xs \<union> set ys)"
  using assms that unfolding fm_ok_side[of s d] by blast

lemma print_dynamic_keeps: "fm_ok s \<Longrightarrow> \<exists>es. print_dir_dynamic d bg s = Go () (emit es s)"
  by (erule fm_okE[of _ d]) (use print_dynamic_ok in blast)

lemma static_rows_Some: "\<forall>f \<in> set fs. readable f \<Longrightarrow> \<exists>es ok. static_rows pw fs = Some (es, ok)"
  by (induction fs) (auto simp: readable_def split: option.splits)

lemma print_static_keeps: "fm_ok s \<Longrightarrow> ok (print_dir_static sys d s) (\<lambda>_ s'. \<exists>es. s' = emit es s)"
proof (erule fm_okE[of _ d])
  fix xs assume p: "panel (fils s) (di d s) xs"
  have w: "walk (fils s) (head_file (di d s)) = Some (map (\<lambda>x. (x, the (fils s x))) xs)"
    unfolding panel_head[OF p] by (rule files_walk[where pv = NULL]) (use p in \<open>simp add: panel_def\<close>)
  have "\<forall>f \<in> set (map snd (map (\<lambda>x. (x, the (fils s x))) xs)). readable f" using panel_names[OF p] by fastforce
  then obtain es okk where "static_rows (s_getpwuid sys) (map snd (map (\<lambda>x. (x, the (fils s x))) xs)) = Some (es, okk)"
    using static_rows_Some by blast
  then show "ok (print_dir_static sys d s) (\<lambda>_ s'. \<exists>es. s' = emit es s)"
    by (auto simp: print_dir_static_def w Let_def)
qed

lemma emit_ok: "fm_ok s \<Longrightarrow> \<exists>es. s' = emit es s \<Longrightarrow> fm_ok s'" by auto

lemma with_current_ok:
  assumes "fm_ok s" "\<And>f n. fils s (current_file (di (cd s) s)) = Some f \<Longrightarrow> get_name f = Some n \<Longrightarrow> ok (g f) Q"
  shows "ok (with_current s g) Q"
proof (rule fm_okE[OF assms(1), of "cd s"])
  fix xs assume p: "panel (fils s) (di (cd s) s) xs"
  then have c: "current_file (di (cd s) s) \<in> set xs" "NULL \<notin> set xs" by (auto simp: panel_def files_def dest: dchain_not_null)
  then obtain f n where f: "fils s (current_file (di (cd s) s)) = Some f" "get_name f = Some n" using panel_names[OF p] by blast
  have "current_file (di (cd s) s) \<noteq> NULL" using c by metis
  then show ?thesis using assms(2)[OF f] f(1) by (simp add: with_current_def)
qed

lemma reload_ok:
  assumes "sys_ok sys" "fm_ok s"
  shows "ok (reload sys s) (\<lambda>_ s'. fm_ok s' \<and> cd s' = cd s \<and> world s' = world s \<and>
    (\<exists>xs. panel (fils s') (di (cd s) s') xs \<and> shown (fils s') xs = listing sys (bytes_of ''.'') (world s) \<and> current_file (di (cd s) s') = hd xs))"
proof (rule fm_okE[OF assms(2), of "cd s"])
  let ?d = "cd s"
  fix xs ys
  assume p: "panel (fils s) (di ?d s) xs" "panel (fils s) (di (oth ?d) s) ys" "set xs \<inter> set ys = {}" "heap_ok s (set xs \<union> set ys)"
  let ?s = "set_di ?d (\<lambda>i. i\<lparr>head_file := NULL, current_file := NULL, tail_file := NULL\<rparr>) (s\<lparr>fils := fils s |` (- set xs)\<rparr>)"
  have "free_loop (fils s) (head_file (di ?d s)) = Some (fils s |` (- set xs))"
    unfolding panel_head[OF p(1)] by (rule files_free[where pv = NULL]) (use p(1) in \<open>simp add: panel_def\<close>)
  then have r: "reload sys s = get_dir_info sys (bytes_of ''.'') ?d ?s" by (simp add: reload_def free_fil_def)
  have h: "heap_ok ?s (set ys)" using p(3,4) by (auto simp: heap_ok_def)
  show ?thesis unfolding r
  proof (rule ok_mono[OF get_dir_info_ok[OF assms(1) h refl]])
    fix u s'
    assume a: "(\<exists>xs. panel (fils s') (di ?d s') xs \<and> set xs \<inter> set ys = {} \<and> heap_ok s' (set xs \<union> set ys) \<and>
        shown (fils s') xs = listing sys (bytes_of ''.'') (world ?s)) \<and> beside ?d (set ys) ?s s' \<and> current_file (di ?d s') = head_file (di ?d s') \<and>
      dir_path (di ?d s') = the (s_getcwd sys (world ?s)) \<and> file_count (di ?d s') = int (length (listing sys (bytes_of ''.'') (world ?s))) - 1"
    then obtain zs where z: "panel (fils s') (di ?d s') zs" "set zs \<inter> set ys = {}" "heap_ok s' (set zs \<union> set ys)" by blast
    have "\<forall>y \<in> set ys. fils s' y = fils s y"
    proof
      fix y assume y: "y \<in> set ys"
      have "(fils s' |` set ys) y = (fils ?s |` set ys) y" using a by (simp add: beside_def)
      then show "fils s' y = fils s y" using y p(3) by (auto simp: restrict_map_def)
    qed
    then have "panel (fils s') (di (oth ?d) s') ys" using a p(2) unfolding panel_def files_def
      by (auto simp: beside_def links_def cong: dchain_cong)
    then moreover have "\<forall>n. mem_ok s' n" using a assms(2) by (auto simp: beside_def fm_ok_def)
    ultimately have "fm_ok s'" unfolding fm_ok_side[of s' ?d] using z by blast
    then show "fm_ok s' \<and> cd s' = cd s \<and> world s' = world s \<and>
      (\<exists>xs. panel (fils s') (di (cd s) s') xs \<and> shown (fils s') xs = listing sys (bytes_of ''.'') (world s) \<and> current_file (di (cd s) s') = hd xs)"
      using a by (auto simp: beside_def panel_def)
  qed
qed

lemma dynamic_ok: "fm_ok s \<Longrightarrow> (\<And>es. fm_ok (emit es s) \<Longrightarrow> ok (f () (emit es s)) Q) \<Longrightarrow> ok (andthen (print_dir_dynamic d bg s) f) Q"
  using print_dynamic_keeps[of s d bg] by auto

lemma static_ok: "fm_ok s \<Longrightarrow> (\<And>es. fm_ok (emit es s) \<Longrightarrow> ok (f () (emit es s)) Q) \<Longrightarrow> ok (andthen (print_dir_static sys d s) f) Q"
  by (rule ok_andthen[OF print_static_keeps]) auto

lemma dynamic_ok_end: "fm_ok s \<Longrightarrow> ok (print_dir_dynamic d bg s) (\<lambda>_. fm_ok)"
  using print_dynamic_keeps[of s d bg] by auto

lemma static_ok_end: "fm_ok s \<Longrightarrow> ok (print_dir_static sys d s) (\<lambda>_. fm_ok)"
  by (rule ok_mono[OF print_static_keeps]) auto

lemmas screen_ok = dynamic_ok static_ok dynamic_ok_end static_ok_end

lemma go_panel_ok: "fm_ok s \<Longrightarrow> ok (go_panel sys d s) (\<lambda>_. fm_ok)"
  unfolding go_panel_def by (rule dynamic_ok) (auto simp: Let_def split: option.splits intro!: dynamic_ok_end)

lemma redraw_ok: "sys_ok sys \<Longrightarrow> fm_ok s \<Longrightarrow> ok (redraw sys s) (\<lambda>_. fm_ok)"
  unfolding redraw_def by (rule ok_andthen[OF reload_ok]) (auto intro!: screen_ok)

lemma get_file_path_ok:
  assumes "sys_ok sys" "fm_ok s"
  shows "ok (get_file_path sys name s) (\<lambda>_. fm_ok)"
proof -
  have "fm_ok (s\<lparr>allocs := Suc (allocs s)\<rparr>)" using assms(2) by (fastforce simp: fm_ok_def heap_ok_def intro: le_SucI)
  then show ?thesis using sys_okD(2)[OF assms(1)] by (auto simp: fm_ok_def get_file_path_def need_def split: option.splits)
qed

lemma move_ok:
  assumes "fm_ok s" "\<And>xs. panel (fils s) (di (cd s) s) xs \<Longrightarrow> p \<in> set xs"
  shows "ok (move_to p s) (\<lambda>_. fm_ok)"
proof -
  have "fm_ok (set_di (cd s) (\<lambda>i. i\<lparr>current_file := p\<rparr>) s)"
    by (rule fm_okE[OF assms(1), of "cd s"]) (use assms in \<open>auto simp: fm_ok_side[of _ "cd s"] panel_def heap_ok_def\<close>)
  then show ?thesis unfolding move_to_def by (rule dynamic_ok_end)
qed

lemma key_enter_ok:
  assumes "sys_ok sys" "fm_ok s"
  shows "ok (key_enter sys s) (\<lambda>_. fm_ok)"
  unfolding key_enter_def
proof (rule with_current_ok[OF assms(2)])
  fix f n assume f: "get_name f = Some n"
  let ?e = "case s_chdir sys n (world s) of None \<Rightarrow> Go () s
    | Some w \<Rightarrow> andthen (reload sys (s\<lparr>world := w\<rparr>)) (\<lambda>_ s. andthen (print_dir_static sys (cd s) s) (\<lambda>_ s. print_dir_dynamic (cd s) 1 s))"
  have "ok ?e (\<lambda>_. fm_ok)"
    using assms by (auto split: option.splits intro!: ok_andthen[OF reload_ok] screen_ok)
  then have "ok (andthen ?e (\<lambda>_ s. with_current s (\<lambda>f. if is_reg f \<and> is_exec f then need (get_name f) (\<lambda>name.
         andthen (print_dir_dynamic L 1 (emit (run_events (the_look sys) name) (s\<lparr>world := s_exec sys name (world s)\<rparr>)))
           (\<lambda>_ s. print_dir_dynamic R 2 s)) else Go () s))) (\<lambda>_. fm_ok)"
    by (rule ok_andthen) (auto intro!: with_current_ok screen_ok)
  then show "ok (need (get_name f) (\<lambda>name. andthen (case s_chdir sys name (world s) of None \<Rightarrow> Go () s
       | Some w \<Rightarrow> andthen (reload sys (s\<lparr>world := w\<rparr>)) (\<lambda>_ s. andthen (print_dir_static sys (cd s) s) (\<lambda>_ s. print_dir_dynamic (cd s) 1 s)))
     (\<lambda>_ s. with_current s (\<lambda>f. if is_reg f \<and> is_exec f then need (get_name f) (\<lambda>name.
         andthen (print_dir_dynamic L 1 (emit (run_events (the_look sys) name) (s\<lparr>world := s_exec sys name (world s)\<rparr>)))
           (\<lambda>_ s. print_dir_dynamic R 2 s)) else Go () s)))) (\<lambda>_. fm_ok)"
    by (simp only: f need_Some)
qed

lemma allocs_ok: "fm_ok s \<Longrightarrow> fm_ok (s\<lparr>allocs := Suc (allocs s)\<rparr>)"
  by (fastforce simp: fm_ok_def heap_ok_def intro: le_SucI)

text \<open>What keeps the copy command defined: the dialog ends with a button; the fields hold a name shorter than their buffers; and if both threads
  are started, the files can be opened, the file is smaller than \<open>2 ^ 31\<close> bytes and not smaller than the bar has columns, and the drawing
  thread does not look before the sizes are stored.\<close>

definition copy_ok :: "int \<Rightarrow> f5 \<Rightarrow> bool" where
  "copy_ok cols a \<longleftrightarrow> (case f5_button a of None \<Rightarrow> False | Some b \<Rightarrow>
     (b \<and> 0 < fst (f5_lens a) \<and> 0 < snd (f5_lens a) \<longrightarrow>
       \<not> list_all isspace (fst (f5_texts a)) \<and> \<not> list_all isspace (snd (f5_texts a)) \<and> length (fst (f5_texts a)) < 254 \<and> length (snd (f5_texts a)) < 254 \<and>
       (f5_create a = (0, 0) \<longrightarrow> cr_open (f5_run a) \<noteq> - 1 \<and> cr_creat (f5_run a) \<noteq> - 1 \<and> late (f5_run a) \<and>
         (case cr_size (f5_run a) of None \<Rightarrow> False | Some n \<Rightarrow> cols div 2 - 12 \<le> n \<and> n < 2147483648))))"

fun key_ok :: "int \<Rightarrow> key \<Rightarrow> bool" where
  "key_ok cols (KEY_F5 a) = copy_ok cols a"
| "key_ok cols (KEY_F8 b) = (b \<noteq> None)"
| "key_ok cols k = True"

definition keys_ok :: "int \<Rightarrow> key option list \<Rightarrow> bool" where
  "keys_ok cols ks = list_all (\<lambda>k. case k of None \<Rightarrow> True | Some k \<Rightarrow> key_ok cols k) ks"

lemma copy_threads_defined:
  assumes "cr_open r \<noteq> - 1" "cr_creat r \<noteq> - 1" "late r" "cr_size r = Some n" "12 < cols" "cols - 12 \<le> n" "n < 2147483648"
  shows "copy_threads pct cols r \<noteq> None"
proof -
  obtain w ss es c where r: "run_copy r = (w, 0 # ss, es, c)"
    using assms(1,2,4) by (cases "copy_loop (cr_writes r) (cr_open r) (cr_creat r) (cr_reads r) 0 0") (simp add: run_copy_def copy_file_def)
  have seen: "fst (look r i) = Some n" "2 \<le> j \<Longrightarrow> \<exists>x. snd (look r j) = Some x" if "1 \<le> i" for i j
    using look_late[OF assms(1,4), of "0 # ss"] that r by auto
  have "\<exists>es stop. status_loop pct cols n (map (\<lambda>(a, b, c). (snd (look r a), snd (look r b), snd (look r c))) (cr_looks r)) = Some (es, stop)"
  proof (rule status_defined, rule ballI)
    fix v assume "v \<in> set (map (\<lambda>(a, b, c). (snd (look r a), snd (look r b), snd (look r c))) (cr_looks r))"
    then obtain a b c where v: "v = (snd (look r a), snd (look r b), snd (look r c))" "2 \<le> a" "2 \<le> b" "2 \<le> c"
      using assms(3) by (auto simp: late_def list_all_iff)
    show "case v of (o1, o2, o3) \<Rightarrow> o1 \<noteq> None \<and> (\<exists>c2. o2 = Some c2 \<and> bar_pos cols n c2 \<noteq> None) \<and> o3 \<noteq> None"
      using seen(2)[OF order_refl v(2)] seen(2)[OF order_refl v(3)] seen(2)[OF order_refl v(4)] bar_pos_defined[OF assms(5-7)] by (auto simp: v(1))
  qed
  moreover have "1 \<le> cr_first_look r" using assms(3) by (simp add: late_def)
  ultimately show ?thesis using seen(1)[of "cr_first_look r"] assms(5) r by (auto simp: copy_threads_def run_status_def display_copy_status_def)
qed

lemma trimmed_length: "trim s = Some t \<Longrightarrow> length t \<le> length s"
  using length_dropWhile_le[of isspace s] length_dropWhile_le[of isspace "rev (dropWhile isspace s)"]
  by (auto simp: trim_correct split: if_splits)

lemma copy_form_defined:
  assumes "copy_ok cols a"
  obtains "copy_form_result a = Some None"
  | src dst where "copy_form_result a = Some (Some (src, dst))" "length src < 254" "length dst < 254"
      "f5_create a = (0, 0) \<Longrightarrow> 34 \<le> cols \<Longrightarrow> copy_threads (f5_pct a) (cols div 2) (f5_run a) \<noteq> None"
proof (cases "f5_button a = Some True \<and> 0 < fst (f5_lens a) \<and> 0 < snd (f5_lens a)")
  case True
  obtain src dst where t: "trim (fst (f5_texts a)) = Some src" "trim (snd (f5_texts a)) = Some dst"
    using assms True by (auto simp: copy_ok_def trim_correct)
  have l: "length src < 254" "length dst < 254" using trimmed_length[OF t(1)] trimmed_length[OF t(2)] assms True by (auto simp: copy_ok_def)
  have d: "copy_threads (f5_pct a) (cols div 2) (f5_run a) \<noteq> None" if c: "f5_create a = (0, 0)" "34 \<le> cols"
  proof -
    obtain n where n: "cr_size (f5_run a) = Some n" using assms True c(1) by (auto simp: copy_ok_def split: option.splits)
    show ?thesis by (rule copy_threads_defined[OF _ _ _ n]) (use assms True c n in \<open>simp_all add: copy_ok_def\<close>)
  qed
  show thesis by (rule that(2)[of src dst]) (use True t l d in \<open>auto simp: copy_form_result_def copy_action_btn_ok_def\<close>)
next
  case False
  then have "copy_form_result a = Some None" using assms
    by (auto simp: copy_form_result_def copy_action_btn_ok_def copy_ok_def split: option.splits)
  then show thesis by (rule that(1))
qed

lemma assert_popup_ok: "fm_ok s \<Longrightarrow> (popup_opens p \<Longrightarrow> ok (f () s) Q) \<Longrightarrow> ok (andthen (assert_popup p s) f) Q"
  by (auto simp: assert_popup_def)

lemma copy_stored_ok [simp]: "fm_ok (copy_stored sys dst r s) = fm_ok s" "cd (copy_stored sys dst r s) = cd s"
  by (simp_all add: copy_stored_def)

lemma start_copy_ok:
  assumes "fm_ok s" "length src < 254" "length dst < 254" "f5_create a = (0, 0) \<Longrightarrow> copy_threads (f5_pct a) (s_cols sys div 2) (f5_run a) \<noteq> None"
  shows "ok (start_copy sys src dst a s) (\<lambda>_. fm_ok)"
  using assms by (cases "f5_create a") (auto simp: start_copy_def Let_def)

lemma key_f5_ok:
  assumes "sys_ok sys" "fm_ok s" "copy_ok (s_cols sys) a"
  shows "ok (key_f5 sys a s) (\<lambda>_. fm_ok)"
proof -
  have form: "ok (need (copy_form_result a) (\<lambda>names. case names of None \<Rightarrow> redraw sys t
      | Some (fn_src, fn_dst) \<Rightarrow> andthen (start_copy sys fn_src fn_dst a t) (\<lambda>_ s. redraw sys s))) (\<lambda>_. fm_ok)"
    if t: "fm_ok t" and c: "34 \<le> s_cols sys" for t
    by (rule copy_form_defined[OF assms(3)]) (use t c in \<open>auto intro!: redraw_ok[OF assms(1)] ok_andthen[OF start_copy_ok]\<close>)
  show ?thesis unfolding key_f5_def
    by (rule with_current_ok[OF assms(2)])
      (auto simp: assms allocs_ok copy_popup_opens intro!: ok_andthen[OF get_file_path_ok[OF assms(1)]] assert_popup_ok form)
qed

lemma key_f8_ok:
  assumes "sys_ok sys" "fm_ok s" "button \<noteq> None"
  shows "ok (key_f8 sys button s) (\<lambda>_. fm_ok)"
proof -
  have answer: "ok (need button (\<lambda>remove. if \<not> remove then redraw sys t else need (s_unlink sys p (world t)) (\<lambda>w. redraw sys (t\<lparr>world := w\<rparr>)))) (\<lambda>_. fm_ok)"
    if "fm_ok t" for t p
    using assms(3) that sys_okD(4)[OF assms(1), of p "world t"] by (auto intro!: redraw_ok[OF assms(1)])
  show ?thesis unfolding key_f8_def
    by (rule with_current_ok[OF assms(2)])
      (auto simp: assms intro!: ok_andthen[OF get_file_path_ok[OF assms(1)]] assert_popup_ok answer)
qed

lemma neighbours:
  assumes "files h pv xs NULL" "x \<in> set xs" "h x = Some f"
  shows "fil_next f = NULL \<or> fil_next f \<in> set xs" "x \<noteq> hd xs \<Longrightarrow> fil_prev f \<in> set xs"
proof -
  obtain as bs where xs: "xs = as @ x # bs" using split_list[OF assms(2)] by blast
  then have l: "fil_next f = hd_or NULL bs" "fil_prev f = last_or pv as" using assms(1,3) by (auto simp: files_append files_Cons)
  then show "fil_next f = NULL \<or> fil_next f \<in> set xs" by (cases bs) (auto simp: xs)
  show "x \<noteq> hd xs \<Longrightarrow> fil_prev f \<in> set xs" using l by (cases as rule: rev_cases) (auto simp: xs)
qed

lemma fm_key_ok:
  assumes "sys_ok sys" "fm_ok s" "key_ok (s_cols sys) k"
  shows "ok (fm_key sys k s) (\<lambda>_. fm_ok)"
proof (cases k)
  case KEY_UP
  have "ok (with_current s (\<lambda>f. move_to (fil_prev f) s)) (\<lambda>_. fm_ok)" if "current_file (di (cd s) s) \<noteq> head_file (di (cd s) s)"
    by (rule with_current_ok[OF assms(2)], rule move_ok[OF assms(2)]) (use that in \<open>auto simp: panel_def intro: neighbours(2)\<close>)
  then show ?thesis using assms(2) KEY_UP by simp
next
  case KEY_DOWN
  have "ok (with_current s (\<lambda>f. if fil_next f = NULL then Go () s else move_to (fil_next f) s)) (\<lambda>_. fm_ok)"
    by (rule with_current_ok[OF assms(2)]) (use assms(2) neighbours(1) in \<open>fastforce simp: panel_def intro!: move_ok\<close>)
  then show ?thesis using KEY_DOWN by simp
next
  case KEY_HOME
  then show ?thesis using move_ok[OF assms(2)] by (auto simp: panel_def)
next
  case KEY_END
  then show ?thesis using move_ok[OF assms(2)] by (auto simp: panel_def)
qed (use assms in \<open>simp_all add: go_panel_ok key_enter_ok key_f5_ok key_f8_ok\<close>)

lemma fm_keys_ok: "sys_ok sys \<Longrightarrow> fm_ok s \<Longrightarrow> keys_ok (s_cols sys) ks \<Longrightarrow> ok (fm_keys sys ks s) (\<lambda>_. fm_ok)"
  by (induction sys ks s rule: fm_keys.induct) (auto simp: keys_ok_def intro: ok_andthen[OF fm_key_ok])

lemma panel_beside:
  assumes "panel (fils s) i ys" "fils s' |` set ys = fils s |` set ys"
  shows "panel (fils s') i ys"
proof -
  have "\<forall>y \<in> set ys. fils s' y = fils s y" using assms(2) by (metis restrict_in)
  then show ?thesis using assms(1) unfolding panel_def files_def by (auto simp: links_def cong: dchain_cong)
qed

lemma init_core_ok:
  fixes sys :: "'w sys" and s :: "'w fm"
  assumes "sys_ok sys" "\<forall>n. mem_ok s n" "fils s = (\<lambda>_. None)"
  shows "ok (init_core sys home pwd s) (\<lambda>_. fm_ok)"
proof -
  let ?s = "s\<lparr>allocs := allocs s + 2\<rparr>"
  have "ok (andthen (get_dir_info sys home R (?s\<lparr>world := w\<rparr>)) (\<lambda>_ s. case s_chdir sys pwd (world s) of
      None \<Rightarrow> Exit 1 (emit [Perror ''chdir''] s)
    | Some w \<Rightarrow> andthen (get_dir_info sys pwd L (s\<lparr>world := w\<rparr>)) (\<lambda>_ s. Go () (s\<lparr>cd := L\<rparr>)))) (\<lambda>_. fm_ok)" for w
  proof (rule ok_andthen)
    show "ok (get_dir_info sys home R (?s\<lparr>world := w\<rparr>)) (\<lambda>_ s'. (\<forall>n. mem_ok s' n) \<and> (\<exists>xs. panel (fils s') (rd s') xs \<and> heap_ok s' (set xs)))"
    proof (rule ok_mono[OF get_dir_info_ok[OF assms(1) _ refl]])
      show "heap_ok (?s\<lparr>world := w\<rparr>) {}" using assms(3) by (simp add: heap_ok_def)
    qed (use assms(2) in \<open>auto simp: beside_def di_def\<close>)
    fix u and s1 :: "'w fm" assume "(\<forall>n. mem_ok s1 n) \<and> (\<exists>xs. panel (fils s1) (rd s1) xs \<and> heap_ok s1 (set xs))"
    then obtain xs where s1: "\<forall>n. mem_ok s1 n" "panel (fils s1) (rd s1) xs" "heap_ok s1 (set xs)" by blast
    have "ok (get_dir_info sys pwd L (s1\<lparr>world := w\<rparr>)) (\<lambda>_ s'. fm_ok s')" for w
    proof (rule ok_mono[OF get_dir_info_ok[OF assms(1) _ refl]])
      show "heap_ok (s1\<lparr>world := w\<rparr>) (set xs)" using s1(3) by (simp add: heap_ok_def)
      fix u s'
      assume a: "(\<exists>zs. panel (fils s') (di L s') zs \<and> set zs \<inter> set xs = {} \<and> heap_ok s' (set zs \<union> set xs) \<and>
          shown (fils s') zs = listing sys pwd (world (s1\<lparr>world := w\<rparr>))) \<and> beside L (set xs) (s1\<lparr>world := w\<rparr>) s' \<and>
        current_file (di L s') = head_file (di L s') \<and> dir_path (di L s') = the (s_getcwd sys (world (s1\<lparr>world := w\<rparr>))) \<and>
        file_count (di L s') = int (length (listing sys pwd (world (s1\<lparr>world := w\<rparr>)))) - 1"
      then have "panel (fils s') (rd s') xs" using s1(2) by (auto simp: beside_def di_def intro: panel_beside)
      then show "fm_ok s'" using a s1(1) unfolding fm_ok_def by (auto simp: beside_def di_def)
    qed
    then show "ok (case s_chdir sys pwd (world s1) of None \<Rightarrow> Exit 1 (emit [Perror ''chdir''] s1)
        | Some w \<Rightarrow> andthen (get_dir_info sys pwd L (s1\<lparr>world := w\<rparr>)) (\<lambda>_ s. Go () (s\<lparr>cd := L\<rparr>))) (\<lambda>_. fm_ok)"
      by (auto split: option.splits intro!: ok_andthen[where P = "\<lambda>_. fm_ok"])
  qed
  then show ?thesis using assms(2) by (auto simp: init_core_def Let_def split: option.splits cong: option.case_cong)
qed


text \<open>An environment with a single directory of three entries, and a copy of a file of 100 bytes.\<close>

definition one_dir :: "nat sys" where
  "one_dir = \<lparr>s_chdir = (\<lambda>p w. if p = [47] then Some w else None), s_scandir = (\<lambda>p w. Some [[46], [46, 46], [97]]),
     s_stat = (\<lambda>n w. Some \<lparr>st_mode = 0x8000, st_size = 5, st_uid = 0, st_mtime = 0\<rparr>), s_getcwd = (\<lambda>w. Some [47]),
     s_getpwuid = (\<lambda>u. Some ''root''), s_unlink = (\<lambda>p w. Some (Suc w)), s_store = (\<lambda>p q w. w), s_exec = (\<lambda>p w. w), s_lines = 30, s_cols = 100\<rparr>"

definition one_copy :: f5 where
  "one_copy = \<lparr>f5_button = Some True, f5_lens = (1, 1), f5_texts = ([47, 97, 32], [47, 98, 32]), f5_create = (0, 0),
     f5_run = \<lparr>cr_open = 3, cr_size = Some 100, cr_creat = 4, cr_reads = [Some (replicate 100 7), Some []], cr_writes = (\<lambda>j n. int n),
       cr_first_look = 2, cr_looks = [(2, 2, 3), (3, 3, 3)]\<rparr>, f5_pct = (\<lambda>a b. 100 * a div b)\<rparr>"

definition new_fm :: "nat fm" where
  "new_fm = (let i = \<lparr>dir_path = [], file_count = 0, head_file = 0, current_file = 0, tail_file = 0\<rparr> in
     \<lparr>fils = (\<lambda>_. None), allocs = 0, mem_ok = (\<lambda>_. True), ld = i, rd = i, cd = L, world = 0, out = []\<rparr>)"

lemma one_dir_ok: "sys_ok one_dir"
  by (auto simp: sys_ok_def one_dir_def size_text_def)


section \<open>The cursor\<close>

text \<open>What a panel shows and where its cursor is.\<close>

definition entries :: "side \<Rightarrow> 'w fm \<Rightarrow> (byte list \<times> fstat) list" where
  "entries d s = map (\<lambda>(p, f). (the (get_name f), file_stat f)) (the (walk (fils s) (head_file (di d s))))"

definition pos :: "side \<Rightarrow> 'w fm \<Rightarrow> nat" where
  "pos d s = length (takeWhile (\<lambda>(p, f). p \<noteq> current_file (di d s)) (the (walk (fils s) (head_file (di d s)))))"

text \<open>The specification: a cursor in a list of \<open>n\<close> entries.\<close>

fun cursor :: "key \<Rightarrow> nat \<Rightarrow> nat \<Rightarrow> nat" where
  "cursor KEY_UP n i = i - 1"
| "cursor KEY_DOWN n i = (if i + 1 < n then i + 1 else i)"
| "cursor KEY_HOME n i = 0"
| "cursor KEY_END n i = n - 1"
| "cursor _ n i = i"

lemma panel_walk: "panel (fils s) (di d s) xs \<Longrightarrow> walk (fils s) (head_file (di d s)) = Some (map (\<lambda>x. (x, the (fils s x))) xs)"
  using panel_head[of "fils s" "di d s" xs] files_walk[of "fils s" NULL xs] by (simp add: panel_def)

lemma entries_shown: "panel (fils s) (di d s) xs \<Longrightarrow> entries d s = shown (fils s) xs"
  by (simp add: entries_def panel_walk shown_def)

lemma pos_index:
  assumes "panel (fils s) (di d s) (as @ x # bs)" "current_file (di d s) = x"
  shows "pos d s = length as"
proof -
  have "x \<notin> set as" using assms(1) by (auto simp: panel_def files_def)
  then have "takeWhile (\<lambda>(p, f). p \<noteq> x) (map (\<lambda>x. (x, the (fils s x))) as @ (x, the (fils s x)) # map (\<lambda>x. (x, the (fils s x))) bs) =
      map (\<lambda>x. (x, the (fils s x))) as" by (subst takeWhile_append2) auto
  then show ?thesis by (simp add: pos_def panel_walk[OF assms(1)] assms(2))
qed

lemma pos_emit [simp]: "pos d (emit es s) = pos d s" "entries d (emit es s) = entries d s"
  by (simp_all add: pos_def entries_def)

text \<open>Moving the cursor to a node of the list.\<close>

lemma move_refines:
  assumes "fm_ok s" "panel (fils s) (di (cd s) s) (as @ x # bs)"
  shows "\<exists>s'. move_to x s = Go () s' \<and> (\<forall>d. entries d s' = entries d s) \<and> pos (cd s) s' = length as \<and> pos (oth (cd s)) s' = pos (oth (cd s)) s"
proof -
  let ?s = "set_di (cd s) (\<lambda>i. i\<lparr>current_file := x\<rparr>) s"
  have p: "panel (fils ?s) (di (cd s) ?s) (as @ x # bs)" using assms(2) by (simp add: panel_def)
  have "entries d ?s = entries d s" for d
    by (cases "d = cd s"; cases d; cases "cd s") (simp_all add: entries_def di_def set_di_def)
  moreover have "pos (cd s) ?s = length as" by (rule pos_index[OF p]) simp
  moreover have "pos (oth (cd s)) ?s = pos (oth (cd s)) s" by (simp add: pos_def)
  ultimately show ?thesis unfolding move_to_def print_dynamic_ok[OF p] by simp
qed

text \<open>C12: The file list is a cursor in the listing. \<open>KEY_UP\<close>, \<open>KEY_DOWN\<close>, \<open>KEY_HOME\<close> and \<open>KEY_END\<close>, which follow the links
  of the list, move the cursor of the active panel as the specification does on positions, stopping at both ends; they change
  neither the entries of a panel nor the cursor of the other one.\<close>
theorem fm_cursor_refines:
  assumes "fm_ok s" "k \<in> {KEY_UP, KEY_DOWN, KEY_HOME, KEY_END}"
  shows "\<exists>s'. fm_key sys k s = Go () s' \<and> (\<forall>d. entries d s' = entries d s) \<and>
    pos (cd s) s' = cursor k (length (entries (cd s) s)) (pos (cd s) s) \<and> pos (oth (cd s)) s' = pos (oth (cd s)) s"
proof (rule fm_okE[OF assms(1), of "cd s"])
  let ?i = "di (cd s) s"
  fix xs assume p: "panel (fils s) ?i xs"
  then have f: "files (fils s) NULL xs NULL" "xs \<noteq> []" and ht: "head_file ?i = hd xs" "tail_file ?i = last xs" by (auto simp: panel_def)
  obtain as x bs where xs: "xs = as @ x # bs" and x: "current_file ?i = x" using p by (metis panel_def split_list)
  have pos: "pos (cd s) s = length as" by (rule pos_index) (use p xs x in auto)
  have len: "length (entries (cd s) s) = length as + Suc (length bs)" by (simp add: entries_shown[OF p] shown_def xs)
  obtain g where g: "fils s x = Some g" "fil_prev g = last_or NULL as" "fil_next g = hd_or NULL bs" using f(1) by (auto simp: xs files_append files_Cons)
  have n: "NULL \<notin> set xs" using f(1) by (auto simp: files_def dest: dchain_not_null)
  have cur: "with_current s h = h g" for h :: "fil \<Rightarrow> (unit, 'a fm) step" using n x g(1) by (auto simp: with_current_def xs)
  note mv = move_refines[OF assms(1)]
  show ?thesis
  proof (cases k)
    case KEY_UP
    show ?thesis
    proof (cases as rule: rev_cases)
      case Nil
      then show ?thesis using KEY_UP x ht(1) pos by (simp add: xs)
    next
      case (snoc as' y)
      have "x \<noteq> hd xs" using f(1) by (auto simp: xs snoc files_def hd_append)
      then show ?thesis using mv[of as' y "x # bs"] p KEY_UP x ht(1) pos cur g(2) by (simp add: xs snoc)
    qed
  next
    case KEY_DOWN
    show ?thesis
    proof (cases bs)
      case Nil
      then show ?thesis using KEY_DOWN cur g(3) pos len by simp
    next
      case (Cons y bs')
      have "y \<noteq> NULL" using n by (auto simp: xs Cons)
      then show ?thesis using mv[of "as @ [x]" y bs'] p KEY_DOWN cur g(3) pos len by (simp add: xs Cons)
    qed
  next
    case KEY_HOME
    then show ?thesis using mv[of "[]" "hd xs" "tl xs"] p f(2) ht(1) by simp
  next
    case KEY_END
    have "length (entries (cd s) s) - 1 = length (butlast xs)" by (simp add: len xs)
    then show ?thesis using mv[of "butlast xs" "last xs" "[]"] p f(2) ht(2) KEY_END by simp
  qed (use assms(2) in auto)
qed

text \<open>The state after the start in the sample environment: two panels with two entries each.\<close>

definition started :: "nat fm" where
  "started = (let st = \<lparr>st_mode = 0x8000, st_size = 5, st_uid = 0, st_mtime = 0\<rparr>;
       node = (\<lambda>n p q. \<lparr>file_name = put_name n, file_stat = st, fil_next = q, fil_prev = p\<rparr>);
       i = (\<lambda>h t. \<lparr>dir_path = [47], file_count = 1, head_file = h, current_file = h, tail_file = t\<rparr>) in
     \<lparr>fils = [1 \<mapsto> node [46, 46] 0 2, 2 \<mapsto> node [97] 1 0, 3 \<mapsto> node [46, 46] 0 4, 4 \<mapsto> node [97] 3 0],
      allocs = 4, mem_ok = (\<lambda>_. True), ld = i 1 2, rd = i 3 4, cd = L, world = 0, out = []\<rparr>)"

lemma started_panels: "panel (fils started) (ld started) [1, 2]" "panel (fils started) (rd started) [3, 4]"
  by (simp_all add: panel_def files_Cons started_def Let_def readable_def get_name_def put_name_def size_text_def)

lemma started_ok: "fm_ok started"
proof -
  have "heap_ok started (set [1, 2] \<union> set [3, 4])" by (auto simp: heap_ok_def started_def Let_def)
  moreover have "\<forall>n. mem_ok started n" by (simp add: started_def Let_def)
  ultimately show ?thesis unfolding fm_ok_def using started_panels by fastforce
qed

theorem fm_cursor_refines_witness:
  "\<exists>s'. fm_key one_dir KEY_DOWN started = Go () s' \<and> pos L s' = 1 \<and> pos R s' = 0"
proof -
  have c: "cd started = L" "ld started = di L started" "rd started = di R started" by (simp_all add: started_def Let_def di_def)
  have "length (entries L started) = 2" using entries_shown[of started L] started_panels(1) by (simp add: c shown_def)
  moreover have "pos L started = 0" "pos R started = 0"
    using pos_index[of started L "[]" 1 "[2]"] pos_index[of started R "[]" 3 "[4]"] started_panels
    by (simp_all add: c) (simp_all add: started_def Let_def di_def)
  ultimately show ?thesis using fm_cursor_refines[OF started_ok, of KEY_DOWN one_dir] by (auto simp: c)
qed

lemma pos_world [simp]: "pos d (s\<lparr>world := w\<rparr>) = pos d s" "entries d (s\<lparr>world := w\<rparr>) = entries d s"
  by (simp_all add: pos_def entries_def)

text \<open>The active panel shows \<open>es\<close> with the cursor at its start.\<close>

definition shows_from_start :: "side \<Rightarrow> (byte list \<times> fstat) list \<Rightarrow> 'w fm \<Rightarrow> bool" where
  "shows_from_start d es s = (fm_ok s \<and> cd s = d \<and> entries d s = es \<and> pos d s = 0)"

lemma shows_simps [simp]:
  "shows_from_start d es (emit e s) = shows_from_start d es s" "shows_from_start d es (s\<lparr>world := w\<rparr>) = shows_from_start d es s"
  by (simp_all add: shows_from_start_def)

lemma reload_lists:
  assumes "sys_ok sys" "fm_ok s"
  shows "ok (reload sys s) (\<lambda>_. shows_from_start (cd s) (listing sys (bytes_of ''.'') (world s)))"
proof (rule ok_mono[OF reload_ok[OF assms]], elim conjE exE)
  fix u s' xs
  assume a: "fm_ok s'" "cd s' = cd s" "panel (fils s') (di (cd s) s') xs"
    "shown (fils s') xs = listing sys (bytes_of ''.'') (world s)" "current_file (di (cd s) s') = hd xs"
  then have "xs = [] @ hd xs # tl xs" by (simp add: panel_def)
  then have "pos (cd s) s' = 0" using pos_index[of s' "cd s" "[]" "hd xs" "tl xs"] a(3,5) by simp
  then show "shows_from_start (cd s) (listing sys (bytes_of ''.'') (world s)) s'"
    using a by (simp add: shows_from_start_def entries_shown)
qed

lemma shows_with_current: "shows_from_start d es s \<Longrightarrow> (\<And>f n. get_name f = Some n \<Longrightarrow> ok (g f) Q) \<Longrightarrow> ok (with_current s g) Q"
  by (rule with_current_ok) (auto simp: shows_from_start_def)

lemma shows_dynamic: "shows_from_start d es s \<Longrightarrow> ok (print_dir_dynamic d' bg s) (\<lambda>_. shows_from_start d es)"
  using print_dynamic_keeps[of s d' bg] by (auto simp: shows_from_start_def)

lemma shows_static: "shows_from_start d es s \<Longrightarrow> ok (print_dir_static sys d' s) (\<lambda>_. shows_from_start d es)"
  by (rule ok_mono[OF print_static_keeps]) (auto simp: shows_from_start_def)

text \<open>A step that neither ends the program nor waits.\<close>

definition stays :: "('a, 's) step \<Rightarrow> bool" where
  "stays e \<longleftrightarrow> (case e of Exit c s \<Rightarrow> False | Busy s \<Rightarrow> False | _ \<Rightarrow> True)"

lemma stays_simps [simp]: "stays Undefined" "\<not> stays (Exit c s)" "\<not> stays (Busy s)" "stays (Go a s)"
  by (simp_all add: stays_def)

lemma stays_andthen: "stays e \<Longrightarrow> (\<And>a t. e = Go a t \<Longrightarrow> stays (f a t)) \<Longrightarrow> stays (andthen e f)"
  by (cases e) auto

lemma stays_need: "(\<And>a. v = Some a \<Longrightarrow> stays (f a)) \<Longrightarrow> stays (need v f)"
  by (cases v) auto

lemma stays_goes: "ok e P \<Longrightarrow> stays e \<Longrightarrow> \<exists>a s. e = Go a s \<and> P a s"
  by (cases e) auto

lemma add_files_stays: "\<forall>k. mem_ok s k \<Longrightarrow> \<forall>n \<in> set ns. s_stat sys n (world s) \<noteq> None \<Longrightarrow> stays (add_files sys d ns s)"
proof (induction ns arbitrary: s)
  case (Cons n ns)
  then obtain st where "s_stat sys n (world s) = Some st" by auto
  then show ?case using Cons by (auto simp: new_fil_def Let_def intro!: stays_need)
qed simp

text \<open>Every entry of the current directory that is shown has a status, and its owner a name.\<close>

definition entries_known :: "'w sys \<Rightarrow> 'w \<Rightarrow> bool" where
  "entries_known sys w \<longleftrightarrow> list_all (\<lambda>n. case s_stat sys n w of None \<Rightarrow> False | Some st \<Rightarrow> s_getpwuid sys (st_uid st) \<noteq> None)
     (tl (the (s_scandir sys (bytes_of ''.'') w)))"

lemma reload_stays:
  assumes "fm_ok s" "entries_known sys (world s)"
  shows "stays (reload sys s)"
  unfolding reload_def
proof (rule stays_andthen)
  show "stays (free_fil (cd s) s)" by (auto simp: free_fil_def intro!: stays_need)
  fix a t assume "free_fil (cd s) s = Go a t"
  then have t: "\<forall>k. mem_ok t k" "world t = world s" using assms(1) by (auto simp: free_fil_def need_def fm_ok_def split: option.splits)
  show "stays (get_dir_info sys (bytes_of ''.'') (cd t) t)"
  proof (cases "s_scandir sys (bytes_of ''.'') (world t)")
    case (Some fnl)
    have known: "s_stat sys n (world t) \<noteq> None" if "n \<in> set (tl fnl)" for n
      using that assms(2) Some t(2) by (auto simp: entries_known_def list_all_iff split: option.splits)
    have "fnl ! 1 \<in> set (tl fnl)" if "1 < length fnl" using that by (metis One_nat_def length_tl nth_mem nth_tl zero_less_diff)
    moreover have "set (drop 2 fnl) \<subseteq> set (tl fnl)" by (metis drop_Suc numeral_2_eq_2 set_drop_subset drop_0 One_nat_def)
    ultimately have k: "1 < length fnl \<Longrightarrow> s_stat sys (fnl ! 1) (world t) \<noteq> None" "\<forall>n \<in> set (drop 2 fnl). s_stat sys n (world t) \<noteq> None"
      using known by blast+
    let ?t = "set_di (cd t) (\<lambda>i. i\<lparr>dir_path := case s_getcwd sys (world t) of None \<Rightarrow> bytes_of ''-'' | Some p \<Rightarrow> p, file_count := int (length fnl) - 2\<rparr>) t"
    let ?e = "if 1 < length fnl then andthen (new_fil sys (fnl ! 1) NULL ?t) (\<lambda>p s. Go () (set_di (cd t) (\<lambda>i. i\<lparr>head_file := p, current_file := p\<rparr>) s)) else Go () ?t"
    have e: "\<exists>u. ?e = Go () u \<and> (\<forall>k. mem_ok u k) \<and> world u = world t"
    proof (cases "1 < length fnl")
      case True
      then obtain st where "s_stat sys (fnl ! 1) (world t) = Some st" using k(1) by blast
      then show ?thesis using True t(1) by (simp add: new_fil_def Let_def)
    qed (use t(1) in simp)
    then obtain u where u: "?e = Go () u" "\<forall>k. mem_ok u k" "world u = world t" by blast
    have "stays (add_files sys (cd t) (drop 2 fnl) u)" by (rule add_files_stays) (use u k(2) in simp_all)
    then show ?thesis unfolding get_dir_info_def Some option.case Let_def u(1) by (auto intro: stays_andthen)
  qed (simp add: get_dir_info_def)
qed

lemma static_rows_end: "static_rows pw fs = Some (es, okk) \<Longrightarrow> \<forall>f \<in> set fs. pw (st_uid (file_stat f)) \<noteq> None \<Longrightarrow> okk"
  by (induction fs arbitrary: es okk) (auto split: option.splits bind_splits prod.splits)

lemma static_stays: "\<forall>e \<in> set (entries d s). s_getpwuid sys (st_uid (snd e)) \<noteq> None \<Longrightarrow> stays (print_dir_static sys d s)"
  unfolding print_dir_static_def
proof (intro stays_need, goal_cases)
  case (1 r esok)
  then have "\<forall>f \<in> set (map snd r). s_getpwuid sys (st_uid (file_stat f)) \<noteq> None" by (auto simp: entries_def)
  then have "snd esok" using static_rows_end[of "s_getpwuid sys" "map snd r" "fst esok" "snd esok"] 1(3) by simp
  then show ?case by (simp add: case_prod_beta Let_def)
qed

lemma dynamic_stays: "stays (print_dir_dynamic d bg s)"
  by (auto simp: print_dir_dynamic_def intro!: stays_need)

lemma with_current_stays: "(\<And>f. stays (g f)) \<Longrightarrow> stays (with_current s g)"
  by (auto simp: with_current_def intro!: stays_need)

lemma listing_owners: "entries_known sys w \<Longrightarrow> e \<in> set (listing sys (bytes_of ''.'') w) \<Longrightarrow> s_getpwuid sys (st_uid (snd e)) \<noteq> None"
  by (fastforce simp: entries_known_def listing_def list_all_iff split: option.splits)

text \<open>C24: Entering a directory shows that directory. If the file under the cursor can be entered, and its entries have a status and an owner
  with a name, the program goes on, the list of the active panel is the sorted listing without its first entry, with the status of each file,
  and the cursor stands on the first of them, even if that is a program and is run at once. Without a status or a name for an owner the
  program may end with an exit code instead, but it is defined and never goes on with another list. If the file cannot be entered and is not a program, nothing
  changes. The environment is that of \<open>fm_main_safe\<close>.\<close>
theorem fm_enter_lists:
  assumes "sys_ok sys" "fm_ok s" "fils s (current_file (di (cd s) s)) = Some f" "get_name f = Some n"
  shows "(s_chdir sys n (world s) = None \<longrightarrow> \<not> (is_reg f \<and> is_exec f) \<longrightarrow> key_enter sys s = Go () s) \<and>
    (\<forall>w. s_chdir sys n (world s) = Some w \<longrightarrow>
       ok (key_enter sys s) (\<lambda>_. shows_from_start (cd s) (listing sys (bytes_of ''.'') w)) \<and>
       (entries_known sys w \<longrightarrow> (\<exists>s'. key_enter sys s = Go () s' \<and> shows_from_start (cd s) (listing sys (bytes_of ''.'') w) s')))"
proof (intro conjI allI impI)
  have c: "current_file (di (cd s) s) \<noteq> NULL"
  proof (rule fm_okE[OF assms(2), of "cd s"])
    fix xs assume "panel (fils s) (di (cd s) s) xs"
    then have "current_file (di (cd s) s) \<in> set xs" "NULL \<notin> set xs" by (auto simp: panel_def files_def dest: dchain_not_null)
    then show ?thesis by metis
  qed
  show "key_enter sys s = Go () s" if "s_chdir sys n (world s) = None" "\<not> (is_reg f \<and> is_exec f)"
    using that assms(3,4) c by (auto simp: key_enter_def with_current_def)
  fix w assume w: "s_chdir sys n (world s) = Some w"
  let ?s = "s\<lparr>world := w\<rparr>"
  let ?Q = "\<lambda>_. shows_from_start (cd s) (listing sys (bytes_of ''.'') w)"
  have r: "ok (reload sys ?s) ?Q" using reload_lists[OF assms(1), of ?s] assms(2) by simp
  then show k: "ok (key_enter sys s) ?Q"
    using c by (auto simp: key_enter_def with_current_def[of s] assms(3,4) w
      intro!: ok_andthen[where P = ?Q] shows_dynamic shows_static shows_with_current)
  assume known: "entries_known sys w"
  have "stays (reload sys ?s)" by (rule reload_stays) (use assms(2) known in simp_all)
  moreover have "stays (andthen (print_dir_static sys (cd t) t) (\<lambda>_ s. print_dir_dynamic (cd s) 1 s))" if "reload sys ?s = Go a t" for a t
  proof -
    have "entries (cd t) t = listing sys (bytes_of ''.'') w" using r that by (simp add: shows_from_start_def)
    then show ?thesis using listing_owners[OF known] by (intro stays_andthen static_stays dynamic_stays) auto
  qed
  ultimately have "stays (andthen (reload sys ?s) (\<lambda>_ s. andthen (print_dir_static sys (cd s) s) (\<lambda>_ s. print_dir_dynamic (cd s) 1 s)))"
    by (rule stays_andthen)
  then have "stays (key_enter sys s)" using c unfolding key_enter_def with_current_def[of s]
    by (simp add: assms(3,4) w) (rule stays_andthen, assumption, rule with_current_stays, auto intro!: stays_need stays_andthen dynamic_stays)
  then show "\<exists>s'. key_enter sys s = Go () s' \<and> ?Q () s'" using stays_goes[OF k] by auto
qed

text \<open>The sample environment in which every name can be entered.\<close>

theorem fm_enter_lists_witness:
  "key_enter one_dir started = Go () started \<and>
   (\<exists>s'. key_enter (one_dir\<lparr>s_chdir := \<lambda>p w. Some w\<rparr>) started = Go () s' \<and> map fst (entries L s') = [[46, 46], [97]] \<and> pos L s' = 0)"
proof -
  let ?sys = "one_dir\<lparr>s_chdir := \<lambda>p w. Some w\<rparr>"
  have f: "fils started (current_file (di (cd started) started)) = Some (the (fils started 1))" "get_name (the (fils started 1)) = Some [46, 46]"
    "s_chdir one_dir [46, 46] (world started) = None" "\<not> (is_reg (the (fils started 1)) \<and> is_exec (the (fils started 1)))" "cd started = L" "world started = 0"
    by (simp_all add: started_def Let_def di_def get_name_def put_name_def cstr_def one_dir_def is_exec_def)
  have sys: "sys_ok ?sys" using one_dir_ok by (simp add: sys_ok_def)
  have l: "entries_known ?sys 0" "map fst (listing ?sys (bytes_of ''.'') 0) = [[46, 46], [97]]" by (simp_all add: entries_known_def listing_def one_dir_def)
  show ?thesis using fm_enter_lists[OF one_dir_ok started_ok f(1,2)] fm_enter_lists[OF sys started_ok f(1,2)] f(3-6) l
    by (auto simp: shows_from_start_def)
qed

end
