(* ===== verification/Panel_Directory.thy ===== *)
theory Panel_Directory
  imports File_Manager
begin

text \<open>
  The current directory of the file manager's process. The names in a panel are relative; the program uses them with the current
  directory, which it keeps equal to the directory of the active panel.
\<close>

section \<open>What a step leaves alone\<close>

definition post :: "('a, 's) step \<Rightarrow> ('s \<Rightarrow> bool) \<Rightarrow> bool" where
  "post e P = (case e of Go a s \<Rightarrow> P s | _ \<Rightarrow> True)"

lemma post_simps [simp]: "post Undefined P" "post (Exit c s) P" "post (Busy s) P" "post (Go a s) P = P s"
  by (simp_all add: post_def)

lemma post_andthen: "post e P \<Longrightarrow> (\<And>a s. P s \<Longrightarrow> post (f a s) Q) \<Longrightarrow> post (andthen e f) Q"
  by (cases e) auto

lemma post_need: "(\<And>a. v = Some a \<Longrightarrow> post (f a) Q) \<Longrightarrow> post (need v f) Q"
  by (cases v) auto

lemma post_mono: "post e P \<Longrightarrow> (\<And>s. P s \<Longrightarrow> Q s) \<Longrightarrow> post e Q"
  by (cases e) auto

lemma ok_post: "ok e P \<Longrightarrow> post e Q \<Longrightarrow> ok e (\<lambda>a s. P a s \<and> Q s)"
  by (cases e) auto

text \<open>A step on states of another kind.\<close>

fun map_step :: "('s \<Rightarrow> 't) \<Rightarrow> ('a, 's) step \<Rightarrow> ('a, 't) step" where
  "map_step F Undefined = Undefined"
| "map_step F (Exit c s) = Exit c (F s)"
| "map_step F (Busy s) = Busy (F s)"
| "map_step F (Go a s) = Go a (F s)"

lemma map_andthen:
  assumes "map_step F e = e'" "post e P" "\<And>a s. P s \<Longrightarrow> map_step F (f a s) = f' a (F s)"
  shows "map_step F (andthen e f) = andthen e' f'"
  using assms by (cases e) auto

lemma map_need: "(\<And>a. v = Some a \<Longrightarrow> map_step F (f a) = f' (g a)) \<Longrightarrow> v' = map_option g v \<Longrightarrow> map_step F (need v f) = need v' f'"
  by (cases v) auto

text \<open>The current directory, the active panel and the paths stay the same.\<close>

definition same :: "'w fm \<Rightarrow> 'w fm \<Rightarrow> bool" where
  "same s s' \<longleftrightarrow> world s' = world s \<and> cd s' = cd s \<and> dir_path (ld s') = dir_path (ld s) \<and> dir_path (rd s') = dir_path (rd s)"

lemma same_di: "same s s' \<Longrightarrow> dir_path (di d s') = dir_path (di d s)"
  by (cases d) (simp_all add: same_def di_def)

lemma same_simps [simp]: "same s s" "same s (emit es s)" "same s (s\<lparr>fils := h\<rparr>)" "same s (s\<lparr>allocs := n\<rparr>)"
  by (simp_all add: same_def emit_def)

lemma same_set_di: "(\<And>i. dir_path (f i) = dir_path i) \<Longrightarrow> same s (set_di d f s)"
  by (cases d) (simp_all add: same_def set_di_def)

lemma same_trans: "same s t \<Longrightarrow> same t u \<Longrightarrow> same s u"
  by (simp add: same_def)

lemma post_same:
  assumes "post e (same s)" "\<And>a t. same s t \<Longrightarrow> post (f a t) (same t)"
  shows "post (andthen e f) (same s)"
proof (rule post_andthen[OF assms(1)])
  fix a t assume t: "same s t"
  show "post (f a t) (same s)" by (rule post_mono[OF assms(2)[OF t]]) (rule same_trans[OF t])
qed

lemma print_dynamic_same: "post (print_dir_dynamic d bg s) (same s)"
  by (auto simp: print_dir_dynamic_def intro!: post_need)

lemma print_static_same: "post (print_dir_static sys d s) (same s)"
  by (auto simp: print_dir_static_def Let_def intro!: post_need split: prod.splits)

lemma new_fil_same: "post (new_fil sys n pv s) (same s)"
  by (auto simp: new_fil_def Let_def same_def split: option.splits)

lemma add_files_same: "post (add_files sys d ns s) (same s)"
proof (induction ns arbitrary: s)
  case (Cons n ns)
  show ?case unfolding add_files.simps Let_def
    by (rule post_same[OF new_fil_same], rule post_need, rule post_mono[OF Cons.IH]) (auto elim!: same_trans[rotated] intro!: same_trans[OF _ same_set_di])
qed simp

lemma free_fil_same: "post (free_fil d s) (same s)"
  by (auto simp: free_fil_def intro!: post_need same_trans[OF same_simps(3) same_set_di])

text \<open>The panel that is read gets the path of the current directory.\<close>

lemma get_dir_info_path:
  assumes "sys_ok sys"
  shows "post (get_dir_info sys path d s) (\<lambda>s'. same (set_di d (\<lambda>i. i\<lparr>dir_path := the (s_getcwd sys (world s))\<rparr>) s) s')"
proof -
  obtain fnl cwd where e: "s_scandir sys path (world s) = Some fnl" "s_getcwd sys (world s) = Some cwd" using sys_okD(1,2)[OF assms] by blast
  let ?s = "set_di d (\<lambda>i. i\<lparr>dir_path := cwd, file_count := int (length fnl) - 2\<rparr>) s"
  have "post (get_dir_info sys path d s) (same ?s)"
    unfolding get_dir_info_def e option.case Let_def
    by (intro post_same) (auto intro!: post_same[OF new_fil_same] add_files_same same_set_di)
  moreover have "same (set_di d (\<lambda>i. i\<lparr>dir_path := cwd\<rparr>) s) ?s" by (cases d) (simp_all add: same_def set_di_def)
  ultimately show ?thesis by (auto simp: e intro: post_mono same_trans)
qed

section \<open>The current directory\<close>

text \<open>What the library calls promise: \<^verbatim>\<open>getcwd\<close> gives a name of the current directory, by which it can be found again (no directory is replaced by a link to another), and only
  \<^verbatim>\<open>chdir\<close> changes it.\<close>

definition cwd_sys :: "'w sys \<Rightarrow> bool" where
  "cwd_sys sys \<longleftrightarrow> (\<forall>v p w w'. s_getcwd sys v = Some p \<longrightarrow> s_chdir sys p w = Some w' \<longrightarrow> s_getcwd sys w' = Some p) \<and>
     (\<forall>p w w'. s_unlink sys p w = Some w' \<longrightarrow> s_getcwd sys w' = s_getcwd sys w) \<and>
     (\<forall>p q w. s_getcwd sys (s_store sys p q w) = s_getcwd sys w) \<and> (\<forall>p w. s_getcwd sys (s_exec sys p w) = s_getcwd sys w)"

lemma cwd_sysD:
  assumes "cwd_sys sys"
  shows "s_getcwd sys v = Some p \<Longrightarrow> s_chdir sys p w = Some w' \<Longrightarrow> s_getcwd sys w' = Some p" "s_unlink sys p w = Some w' \<Longrightarrow> s_getcwd sys w' = s_getcwd sys w"
    "s_getcwd sys (s_store sys p q w) = s_getcwd sys w" "s_getcwd sys (s_exec sys p w) = s_getcwd sys w"
  using assms unfolding cwd_sys_def by blast+

definition canon :: "'w sys \<Rightarrow> byte list \<Rightarrow> bool" where
  "canon sys p \<longleftrightarrow> (\<exists>w. s_getcwd sys w = Some p)"

text \<open>The process is in the directory of the active panel, and the other panel's is one it has been in.\<close>

definition cwd_ok :: "'w sys \<Rightarrow> 'w fm \<Rightarrow> bool" where
  "cwd_ok sys s \<longleftrightarrow> s_getcwd sys (world s) = Some (dir_path (di (cd s) s)) \<and> canon sys (dir_path (di (oth (cd s)) s))"

lemma same_cwd: "same s s' \<Longrightarrow> cwd_ok sys s' = cwd_ok sys s"
  by (simp add: cwd_ok_def same_di) (simp add: same_def)

lemma post_same_cwd: "post e (same s) \<Longrightarrow> cwd_ok sys s \<Longrightarrow> post e (cwd_ok sys)"
  by (erule post_mono) (simp add: same_cwd)

lemma post_first:
  assumes "post e (same s)" "cwd_ok sys s" "\<And>a t. cwd_ok sys t \<Longrightarrow> post (f a t) (cwd_ok sys)"
  shows "post (andthen e f) (cwd_ok sys)"
  by (rule post_andthen[OF post_same_cwd[OF assms(1,2)] assms(3)])

lemma cwd_simps [simp]: "cwd_ok sys (emit es s) = cwd_ok sys s" "cwd_ok sys (s\<lparr>allocs := n\<rparr>) = cwd_ok sys s"
  by (rule same_cwd; simp)+

lemma cwd_world [simp]: "s_getcwd sys w = s_getcwd sys (world s) \<Longrightarrow> cwd_ok sys (s\<lparr>world := w\<rparr>) = cwd_ok sys s"
  by (cases "cd s") (simp_all add: cwd_ok_def di_def)

lemma reload_cwd:
  assumes "sys_ok sys" "canon sys (dir_path (di (oth (cd s)) s))"
  shows "post (reload sys s) (cwd_ok sys)"
  unfolding reload_def
proof (rule post_andthen[OF free_fil_same])
  fix t assume t: "same s t"
  let ?t = "set_di (cd s) (\<lambda>i. i\<lparr>dir_path := the (s_getcwd sys (world t))\<rparr>) t"
  have c: "cd t = cd s" using t by (simp add: same_def)
  obtain p where p: "s_getcwd sys (world t) = Some p" using sys_okD(2)[OF assms(1)] by blast
  have "cwd_ok sys ?t" using assms(2) p by (simp add: cwd_ok_def c same_di[OF t])
  then show "post (get_dir_info sys (bytes_of ''.'') (cd t) t) (cwd_ok sys)" unfolding c
    by (intro post_mono[OF get_dir_info_path[OF assms(1)]]) (simp add: same_cwd)
qed

lemma cwd_other: "cwd_ok sys s \<Longrightarrow> canon sys (dir_path (di (oth (cd s)) s))"
  by (simp add: cwd_ok_def)

lemma go_panel_cwd:
  assumes "cwd_sys sys" "cwd_ok sys s"
  shows "post (go_panel sys (oth (cd s)) s) (cwd_ok sys)"
  unfolding go_panel_def
proof (rule post_andthen[OF print_dynamic_same], goal_cases)
  case (1 a t)
  note t = this
  then have c: "cwd_ok sys t" "cd t = cd s" using assms(2) by (simp_all add: same_cwd) (simp add: same_def)
  have "cwd_ok sys (t\<lparr>cd := oth (cd t), world := w\<rparr>)" if w: "s_chdir sys (dir_path (di (oth (cd t)) t)) (world t) = Some w" for w
  proof -
    have d: "di d (t\<lparr>cd := e, world := w\<rparr>) = di d t" for d e by (cases d) (simp_all add: di_def)
    obtain v where "s_getcwd sys v = Some (dir_path (di (oth (cd t)) t))" using c(1) by (auto simp: cwd_ok_def canon_def)
    then have "s_getcwd sys w = Some (dir_path (di (oth (cd t)) t))" using assms(1) w unfolding cwd_sys_def by blast
    then show ?thesis using c(1) by (auto simp: cwd_ok_def canon_def d)
  qed
  then show ?case using c(2)
    by (cases "s_chdir sys (dir_path (di (oth (cd s)) t)) (world t)") (auto simp: Let_def intro!: post_same_cwd[OF print_dynamic_same])
qed

lemmas print_cwd = post_first[OF print_dynamic_same] post_first[OF print_static_same] post_same_cwd[OF print_dynamic_same] post_same_cwd[OF print_static_same]

lemma with_current_post: "(\<And>f. post (g f) Q) \<Longrightarrow> post (with_current s g) Q"
  by (auto simp: with_current_def intro: post_need)

lemma redraw_cwd: "sys_ok sys \<Longrightarrow> cwd_ok sys s \<Longrightarrow> post (redraw sys s) (cwd_ok sys)"
  unfolding redraw_def by (rule post_andthen[OF reload_cwd]) (auto simp: cwd_other intro!: print_cwd)

lemma get_file_path_same: "post (get_file_path sys n s) (same s)"
  by (auto simp: get_file_path_def intro: post_need)

lemma key_enter_cwd:
  assumes "sys_ok sys" "cwd_sys sys" "cwd_ok sys s"
  shows "post (key_enter sys s) (cwd_ok sys)"
  unfolding key_enter_def
proof (intro with_current_post post_need post_andthen[where P = "cwd_ok sys"], goal_cases)
  case (1 f n)
  have "post (reload sys (s\<lparr>world := w\<rparr>)) (cwd_ok sys)" for w
    by (rule reload_cwd[OF assms(1)]) (use cwd_other[OF assms(3)] in simp)
  then show ?case using assms(3)
    by (cases "s_chdir sys n (world s)") (simp_all, rule post_andthen, assumption, intro print_cwd)
next
  case (2 f n u t)
  have e: "cwd_ok sys (t\<lparr>world := s_exec sys m (world t)\<rparr>)" for m using 2(2) by (simp add: cwd_sysD(4)[OF assms(2)])
  show ?case using 2(2) e by (auto intro!: post_need print_cwd)
qed

lemma assert_popup_cwd: "cwd_ok sys s \<Longrightarrow> (\<And>t. cwd_ok sys t \<Longrightarrow> post (f () t) Q) \<Longrightarrow> post (andthen (assert_popup p s) f) Q"
  by (auto simp: assert_popup_def)

lemma copy_stored_cwd: "cwd_sys sys \<Longrightarrow> cwd_ok sys s \<Longrightarrow> cwd_ok sys (copy_stored sys dst r s)"
  by (auto simp: copy_stored_def cwd_sysD(3))

lemma start_copy_cwd:
  assumes "cwd_sys sys" "cwd_ok sys s"
  shows "post (start_copy sys src dst a s) (cwd_ok sys)"
  using copy_stored_cwd[OF assms] by (auto simp: start_copy_def Let_def intro!: post_need split: prod.splits)

lemma key_f5_cwd:
  assumes "sys_ok sys" "cwd_sys sys" "cwd_ok sys s"
  shows "post (key_f5 sys a s) (cwd_ok sys)"
  unfolding key_f5_def
  by (intro with_current_post)
    (auto simp: assms(3) split: option.splits intro!: post_need post_first[OF get_file_path_same] assert_popup_cwd redraw_cwd[OF assms(1)]
      post_andthen[OF start_copy_cwd[OF assms(2)]])

lemma key_f8_cwd:
  assumes "sys_ok sys" "cwd_sys sys" "cwd_ok sys s"
  shows "post (key_f8 sys button s) (cwd_ok sys)"
proof -
  have rm: "s_unlink sys p (world t) = Some w \<Longrightarrow> cwd_ok sys t \<Longrightarrow> cwd_ok sys (t\<lparr>world := w\<rparr>)" for p t w
    by (simp add: cwd_sysD(2)[OF assms(2)])
  show ?thesis unfolding key_f8_def
    by (intro with_current_post)
      (auto simp: assms(3) intro: rm intro!: post_need post_first[OF get_file_path_same] assert_popup_cwd redraw_cwd[OF assms(1)])
qed

lemma move_cwd: "cwd_ok sys s \<Longrightarrow> post (move_to p s) (cwd_ok sys)"
  unfolding move_to_def by (rule post_same_cwd[OF print_dynamic_same]) (simp add: same_cwd[OF same_set_di])

lemma fm_key_cwd:
  assumes "sys_ok sys" "cwd_sys sys" "cwd_ok sys s"
  shows "post (fm_key sys k s) (cwd_ok sys)"
  using assms go_panel_cwd[OF assms(2,3)]
  by (cases k; cases "cd s") (auto simp: key_enter_cwd key_f5_cwd key_f8_cwd move_cwd intro!: with_current_post)

lemma fm_keys_cwd: "sys_ok sys \<Longrightarrow> cwd_sys sys \<Longrightarrow> cwd_ok sys s \<Longrightarrow> post (fm_keys sys ks s) (cwd_ok sys)"
  by (induction sys ks s rule: fm_keys.induct) (auto intro!: post_andthen[OF fm_key_cwd])

lemma init_core_cwd:
  assumes "sys_ok sys"
  shows "post (init_core sys home pwd s) (cwd_ok sys)"
proof -
  have di: "di d (t\<lparr>cd := e, world := w\<rparr>) = di d t" "di d (t\<lparr>world := w\<rparr>) = di d t" for d e t w by (cases d; simp add: di_def)+
  note read = get_dir_info_path[OF assms]
  obtain c where c: "s_getcwd sys w = Some (c w)" for w using sys_okD(2)[OF assms] by metis
  have right: "post (get_dir_info sys home R t) (\<lambda>t'. canon sys (dir_path (rd t')))" for t
    by (rule post_mono[OF read]) (auto simp: same_def set_di_def canon_def c)
  have left: "post (get_dir_info sys pwd L t) (\<lambda>t'. cwd_ok sys (t'\<lparr>cd := L\<rparr>))" if "canon sys (dir_path (rd t))" for t
    by (rule post_mono[OF read]) (use that in \<open>auto simp: same_def set_di_def cwd_ok_def di_def c\<close>)
  show ?thesis unfolding init_core_def Let_def
    by (auto split: option.splits intro!: post_andthen[OF right] post_andthen[OF left])
qed


text \<open>Two directories, \<^verbatim>\<open>/\<close> and \<^verbatim>\<open>/d\<close>.\<close>

definition two_dirs :: "bool sys" where
  "two_dirs = \<lparr>s_chdir = (\<lambda>p w. if p = [47, 100] \<or> p = [100] \<and> \<not> w then Some True else if p = [47] \<or> p = [46, 46] then Some False else None),
     s_scandir = (\<lambda>p w. Some [[46], [46, 46], [100]]), s_stat = (\<lambda>n w. Some \<lparr>st_mode = 0x4000, st_size = 5, st_uid = 0, st_mtime = 0\<rparr>),
     s_getcwd = (\<lambda>w. Some (if w then [47, 100] else [47])), s_getpwuid = (\<lambda>u. Some ''root''), s_unlink = (\<lambda>p w. Some w),
     s_store = (\<lambda>p q w. w), s_exec = (\<lambda>p w. w), s_lines = 30, s_cols = 100\<rparr>"

definition new_fm2 :: "bool fm" where
  "new_fm2 = (let i = \<lparr>dir_path = [], file_count = 0, head_file = 0, current_file = 0, tail_file = 0\<rparr> in
     \<lparr>fils = (\<lambda>_. None), allocs = 0, mem_ok = (\<lambda>_. True), ld = i, rd = i, cd = L, world = False, out = []\<rparr>)"


end
