(* ===== verification/First_File_Manager.thy ===== *)
theory First_File_Manager
  imports Panel_Directory
begin

text \<open>
  The first two versions of the file manager, \<^verbatim>\<open>src/backup/fm_0\<close> and \<^verbatim>\<open>src/backup/fm_1\<close>. Their entries have a name and three
  members that are always the same, a panel is one window, and few results are checked. The second reads and frees directories as
  the later program does: forgetting those members, its operations are the ones of \<^verbatim>\<open>Dir_Panel\<close>, whose facts it inherits.
\<close>

section \<open>Data\<close>

record finfo =
  fi_name :: "byte list"
  fi_type :: "byte list"
  fi_size :: int
  fi_mod_date :: int

record fnode =
  fi_value :: finfo
  fi_next :: addr
  fi_prev :: addr

record 'w fm1 =
  nodes :: "addr \<rightharpoonup> fnode"
  allocs1 :: nat
  mem1 :: "nat \<Rightarrow> bool"
  ld1 :: dir_info
  rd1 :: dir_info
  cd1 :: side
  world1 :: 'w
  out1 :: "event list"

definition di1 :: "side \<Rightarrow> 'w fm1 \<Rightarrow> dir_info" where
  "di1 d s = (case d of L \<Rightarrow> ld1 s | R \<Rightarrow> rd1 s)"

definition set_di1 :: "side \<Rightarrow> (dir_info \<Rightarrow> dir_info) \<Rightarrow> 'w fm1 \<Rightarrow> 'w fm1" where
  "set_di1 d f s = (case d of L \<Rightarrow> s\<lparr>ld1 := f (ld1 s)\<rparr> | R \<Rightarrow> s\<lparr>rd1 := f (rd1 s)\<rparr>)"

definition emit1 :: "event list \<Rightarrow> 'w fm1 \<Rightarrow> 'w fm1" where
  "emit1 es s = s\<lparr>out1 := out1 s @ es\<rparr>"

section \<open>The second version: reading and freeing a directory\<close>

text \<open>The result of \<^verbatim>\<open>malloc\<close> is used unchecked.\<close>

definition new_node :: "byte list \<Rightarrow> addr \<Rightarrow> 'w fm1 \<Rightarrow> (addr, 'w fm1) step" where
  "new_node d_name pv s = (let p = Suc (allocs1 s) in
     if \<not> mem1 s (allocs1 s) then Undefined
     else Go p (s\<lparr>allocs1 := p, nodes := (nodes s)(p \<mapsto> \<lparr>fi_value = \<lparr>fi_name = put_name d_name, fi_type = put_name (bytes_of ''-''), fi_size = 0, fi_mod_date = 0\<rparr>,
       fi_next = NULL, fi_prev = pv\<rparr>)\<rparr>))"

fun add_nodes :: "side \<Rightarrow> byte list list \<Rightarrow> 'w fm1 \<Rightarrow> (unit, 'w fm1) step" where
  "add_nodes d [] s = Go () s"
| "add_nodes d (n # ns) s = andthen (new_node n (current_file (di1 d s)) s) (\<lambda>p s.
     need (nodes s (current_file (di1 d s))) (\<lambda>f.
       let s = s\<lparr>nodes := (nodes s)(current_file (di1 d s) \<mapsto> f\<lparr>fi_next := p\<rparr>)\<rparr> in
       add_nodes d ns (set_di1 d (\<lambda>i. i\<lparr>current_file := p\<rparr>) s)))"

text \<open>When \<^verbatim>\<open>getcwd\<close> fails, the path stays as it is.\<close>

definition get_dir_info1 :: "'w sys \<Rightarrow> byte list \<Rightarrow> side \<Rightarrow> 'w fm1 \<Rightarrow> (unit, 'w fm1) step" where
  "get_dir_info1 sys path d s = (case s_scandir sys path (world1 s) of
     None \<Rightarrow> Go () (emit1 [Perror ''scandir''] s)
   | Some fnl \<Rightarrow>
       let s = set_di1 d (\<lambda>i. i\<lparr>dir_path := (case s_getcwd sys (world1 s) of None \<Rightarrow> dir_path i | Some p \<Rightarrow> p), file_count := int (length fnl) - 2\<rparr>) s in
       andthen
         (if 1 < length fnl then
            andthen (new_node (fnl ! 1) NULL s) (\<lambda>p s. Go () (set_di1 d (\<lambda>i. i\<lparr>head_file := p, current_file := p\<rparr>) s))
          else Go () s)
         (\<lambda>_ s. andthen (add_nodes d (drop 2 fnl) s) (\<lambda>_ s.
            Go () (set_di1 d (\<lambda>i. i\<lparr>tail_file := current_file i, current_file := head_file i\<rparr>) s))))"

partial_function (option) free_nodes :: "(addr \<rightharpoonup> fnode) \<Rightarrow> addr \<Rightarrow> (addr \<rightharpoonup> fnode) option" where
  "free_nodes h p = (if p = NULL then Some h else Option.bind (h p) (\<lambda>f. free_nodes (h(p := None)) (fi_next f)))"

definition free_fil1 :: "side \<Rightarrow> 'w fm1 \<Rightarrow> (unit, 'w fm1) step" where
  "free_fil1 d s = need (free_nodes (nodes s) (head_file (di1 d s))) (\<lambda>h.
     Go () (set_di1 d (\<lambda>i. i\<lparr>head_file := NULL, current_file := NULL, tail_file := NULL\<rparr>) (s\<lparr>nodes := h\<rparr>)))"

text \<open>A call of \<^verbatim>\<open>chdir\<close> whose result is ignored.\<close>

definition try_chdir :: "'w sys \<Rightarrow> byte list \<Rightarrow> 'w fm1 \<Rightarrow> 'w fm1" where
  "try_chdir sys p s = (case s_chdir sys p (world1 s) of None \<Rightarrow> s | Some w \<Rightarrow> s\<lparr>world1 := w\<rparr>)"

definition init_core1 :: "'w sys \<Rightarrow> byte list \<Rightarrow> byte list \<Rightarrow> 'w fm1 \<Rightarrow> (unit, 'w fm1) step" where
  "init_core1 sys home pwd s = (let okl = mem1 s (allocs1 s); okr = mem1 s (Suc (allocs1 s)); s = s\<lparr>allocs1 := allocs1 s + 2\<rparr> in
     if \<not> (okl \<and> okr) then Undefined
     else andthen (get_dir_info1 sys pwd L (try_chdir sys pwd s)) (\<lambda>_ s. andthen (get_dir_info1 sys home R (try_chdir sys home s)) (\<lambda>_ s.
       Go () (s\<lparr>cd1 := L\<rparr>))))"

section \<open>The second version: the screen and the keys\<close>

partial_function (option) walk1 :: "(addr \<rightharpoonup> fnode) \<Rightarrow> addr \<Rightarrow> (addr \<times> fnode) list option" where
  "walk1 h p = (if p = NULL then Some []
     else Option.bind (h p) (\<lambda>f. Option.bind (walk1 h (fi_next f)) (\<lambda>r. Some ((p, f) # r))))"

definition get_name1 :: "fnode \<Rightarrow> byte list option" where
  "get_name1 f = (if 0 \<in> set (fi_name (fi_value f)) then Some (cstr (fi_name (fi_value f))) else None)"

definition name_row1 :: "addr \<Rightarrow> int \<Rightarrow> addr \<times> fnode \<Rightarrow> event option" where
  "name_row1 cur bg_c r = do {
     n \<leftarrow> get_name1 (snd r);
     Some (Call ''m_wnd'' [Num (if fst r = cur then bg_c else 3), Str (text_of n)]) }"

definition print_dir1 :: "side \<Rightarrow> int \<Rightarrow> 'w fm1 \<Rightarrow> (unit, 'w fm1) step" where
  "print_dir1 d bg_c s = need (walk1 (nodes s) (head_file (di1 d s))) (\<lambda>r.
     need (those (map (name_row1 (current_file (di1 d s)) bg_c) r)) (\<lambda>es.
       Go () (emit1 ([Call ''p_wnd'' [Str (text_of (dir_path (di1 d s)))]] @ es @ [Call ''m_wnd'' [Num (file_count (di1 d s))]]) s)))"

datatype key1 = Up | Down | Left | Right | Home | End | Line_feed | Other_key

definition move1 :: "addr \<Rightarrow> 'w fm1 \<Rightarrow> (unit, 'w fm1) step" where
  "move1 p s = print_dir1 (cd1 s) 1 (set_di1 (cd1 s) (\<lambda>i. i\<lparr>current_file := p\<rparr>) s)"

definition go_panel1 :: "'w sys \<Rightarrow> side \<Rightarrow> 'w fm1 \<Rightarrow> (unit, 'w fm1) step" where
  "go_panel1 sys d s = andthen (print_dir1 (cd1 s) 2 s) (\<lambda>_ s. print_dir1 d 1 (try_chdir sys (dir_path (di1 d s)) (s\<lparr>cd1 := d\<rparr>)))"

definition with_node :: "'w fm1 \<Rightarrow> (fnode \<Rightarrow> ('b, 'w fm1) step) \<Rightarrow> ('b, 'w fm1) step" where
  "with_node s f = need (if current_file (di1 (cd1 s) s) = NULL then None else nodes s (current_file (di1 (cd1 s) s))) f"

definition enter1 :: "'w sys \<Rightarrow> 'w fm1 \<Rightarrow> (unit, 'w fm1) step" where
  "enter1 sys s = with_node s (\<lambda>f. need (get_name1 f) (\<lambda>name.
     case s_chdir sys name (world1 s) of
       None \<Rightarrow> Go () (emit1 [Perror ''chdir''] s)
     | Some w \<Rightarrow> andthen (free_fil1 (cd1 s) (s\<lparr>world1 := w\<rparr>)) (\<lambda>_ s. andthen (get_dir_info1 sys (bytes_of ''.'') (cd1 s) s) (\<lambda>_ s.
         print_dir1 (cd1 s) 1 s))))"

fun fm1_key :: "'w sys \<Rightarrow> key1 \<Rightarrow> 'w fm1 \<Rightarrow> (unit, 'w fm1) step" where
  "fm1_key sys Up s = (if current_file (di1 (cd1 s) s) = head_file (di1 (cd1 s) s) then Go () s else with_node s (\<lambda>f. move1 (fi_prev f) s))"
| "fm1_key sys Down s = with_node s (\<lambda>f. if fi_next f = NULL then Go () s else move1 (fi_next f) s)"
| "fm1_key sys Left s = (if cd1 s = R then go_panel1 sys L s else Go () s)"
| "fm1_key sys Right s = (if cd1 s = L then go_panel1 sys R s else Go () s)"
| "fm1_key sys Home s = move1 (head_file (di1 (cd1 s) s)) s"
| "fm1_key sys End s = move1 (tail_file (di1 (cd1 s) s)) s"
| "fm1_key sys Line_feed s = enter1 sys s"
| "fm1_key sys Other_key s = Go () s"

fun fm1_keys :: "'w sys \<Rightarrow> key1 option list \<Rightarrow> 'w fm1 \<Rightarrow> (unit, 'w fm1) step" where
  "fm1_keys sys [] s = Go () s"
| "fm1_keys sys (None # ks) s = Exit 0 s"
| "fm1_keys sys (Some k # ks) s = andthen (fm1_key sys k s) (\<lambda>_ s. fm1_keys sys ks s)"

definition fm1_main :: "'w sys \<Rightarrow> byte list \<Rightarrow> byte list \<Rightarrow> key1 option list \<Rightarrow> 'w fm1 \<Rightarrow> (unit, 'w fm1) step" where
  "fm1_main sys home pwd ks s = andthen (init_core1 sys home pwd s) (\<lambda>_ s.
     andthen (print_dir1 L 1 s) (\<lambda>_ s. andthen (print_dir1 R 2 s) (\<lambda>_ s. fm1_keys sys ks s)))"

section \<open>The second version refines the later one\<close>

definition no_stat :: fstat where
  "no_stat = \<lparr>st_mode = 0, st_size = 0, st_uid = 0, st_mtime = 0\<rparr>"

definition abs_node :: "fnode \<Rightarrow> fil" where
  "abs_node f = \<lparr>file_name = fi_name (fi_value f), file_stat = no_stat, fil_next = fi_next f, fil_prev = fi_prev f\<rparr>"

definition abs_heap :: "(addr \<rightharpoonup> fnode) \<Rightarrow> addr \<rightharpoonup> fil" where
  "abs_heap h = (\<lambda>p. map_option abs_node (h p))"

definition abs1 :: "'w fm1 \<Rightarrow> 'w fm" where
  "abs1 s = \<lparr>fils = abs_heap (nodes s), allocs = allocs1 s, mem_ok = mem1 s, ld = ld1 s, rd = rd1 s, cd = cd1 s, world = world1 s, out = out1 s\<rparr>"

text \<open>The environment in which every file has the same status.\<close>

definition sys1 :: "'w sys \<Rightarrow> 'w sys" where
  "sys1 sys = sys\<lparr>s_stat := \<lambda>_ _. Some no_stat\<rparr>"

lemma ok_map_step: "ok (map_step F e) P = ok e (\<lambda>a s. P a (F s))"
  by (cases e) auto

lemma andthen_assoc: "andthen (andthen e f) g = andthen e (\<lambda>a s. andthen (f a s) g)"
  by (cases e) auto

lemma abs_simps [simp]:
  "fils (abs1 s) = abs_heap (nodes s)" "allocs (abs1 s) = allocs1 s" "mem_ok (abs1 s) = mem1 s" "di d (abs1 s) = di1 d s" "cd (abs1 s) = cd1 s" "world (abs1 s) = world1 s"
  "abs1 (set_di1 d f s) = set_di d f (abs1 s)" "abs1 (emit1 es s) = emit es (abs1 s)" "abs1 (s\<lparr>nodes := h\<rparr>) = abs1 s\<lparr>fils := abs_heap h\<rparr>"
  "abs1 (s\<lparr>world1 := w\<rparr>) = abs1 s\<lparr>world := w\<rparr>" "abs1 (s\<lparr>cd1 := d\<rparr>) = abs1 s\<lparr>cd := d\<rparr>" "abs1 (s\<lparr>allocs1 := n\<rparr>) = abs1 s\<lparr>allocs := n\<rparr>"
  by (simp_all add: abs1_def di_def di1_def set_di_def set_di1_def emit_def emit1_def split: side.split)

lemma abs_heap_simps [simp]: "abs_heap h p = map_option abs_node (h p)" "abs_heap (h(p \<mapsto> f)) = (abs_heap h)(p \<mapsto> abs_node f)"
  "abs_heap (h(p := None)) = (abs_heap h)(p := None)" "abs_heap (\<lambda>_. None) = (\<lambda>_. None)"
  by (auto simp: abs_heap_def)

lemma fm1_simps [simp]:
  "mem1 (set_di1 d f s) = mem1 s" "mem1 (emit1 es s) = mem1 s" "world1 (set_di1 d f s) = world1 s" "nodes (set_di1 d f s) = nodes s" "di1 d (set_di1 d f s) = f (di1 d s)"
  by (cases d; simp add: set_di1_def emit1_def di1_def)+

definition memory :: "'w fm1 \<Rightarrow> bool" where
  "memory s \<longleftrightarrow> (\<forall>n. mem1 s n)"

lemma new_node_memory: "memory s \<Longrightarrow> post (new_node n pv s) memory"
  by (simp add: memory_def new_node_def Let_def)

lemma new_node_refines: "memory s \<Longrightarrow> map_step abs1 (new_node n pv s) = new_fil (sys1 sys) n pv (abs1 s)"
  by (simp add: memory_def new_node_def new_fil_def Let_def sys1_def abs_node_def)

lemma add_nodes_memory: "memory s \<Longrightarrow> post (add_nodes d ns s) memory"
proof (induction ns arbitrary: s)
  case (Cons n ns)
  then show ?case by (auto simp: Let_def memory_def intro!: post_andthen[OF new_node_memory] post_need)
qed simp

lemma add_nodes_refines: "memory s \<Longrightarrow> map_step abs1 (add_nodes d ns s) = add_files (sys1 sys) d ns (abs1 s)"
proof (induction ns arbitrary: s)
  case (Cons n ns)
  show ?case unfolding add_nodes.simps add_files.simps abs_simps
  proof (rule map_andthen[OF new_node_refines[OF Cons.prems] new_node_memory[OF Cons.prems]], rule map_need[where g = abs_node], goal_cases)
    case (1 p t f)
    then show ?case using Cons.IH[of "set_di1 d (\<lambda>i. i\<lparr>current_file := p\<rparr>) (t\<lparr>nodes := (nodes t)(current_file (di1 d t) \<mapsto> f\<lparr>fi_next := p\<rparr>)\<rparr>)"]
      by (simp add: memory_def Let_def abs_node_def)
  qed simp
qed simp

lemma get_dir_info1_refines:
  assumes "memory s" "s_getcwd sys (world1 s) = Some c"
  shows "map_step abs1 (get_dir_info1 sys path d s) = get_dir_info (sys1 sys) path d (abs1 s)"
proof -
  have sys: "s_scandir (sys1 sys) = s_scandir sys" "s_getcwd (sys1 sys) = s_getcwd sys" by (simp_all add: sys1_def)
  show ?thesis
  proof (cases "s_scandir sys path (world1 s)")
    case (Some fnl)
    let ?t = "set_di1 d (\<lambda>i. i\<lparr>dir_path := c, file_count := int (length fnl) - 2\<rparr>) s"
    have t: "memory ?t" using assms(1) by (simp add: memory_def)
    have 1: "map_step abs1 (if 1 < length fnl then andthen (new_node (fnl ! 1) NULL ?t) (\<lambda>p s. Go () (set_di1 d (\<lambda>i. i\<lparr>head_file := p, current_file := p\<rparr>) s)) else Go () ?t) =
        (if 1 < length fnl then andthen (new_fil (sys1 sys) (fnl ! 1) NULL (abs1 ?t)) (\<lambda>p s. Go () (set_di d (\<lambda>i. i\<lparr>head_file := p, current_file := p\<rparr>) s)) else Go () (abs1 ?t))"
      by (rule if_cong[OF refl, of _ "map_step abs1 _" _ "map_step abs1 _", folded if_distrib[of "map_step abs1"]])
        (rule map_andthen[OF new_node_refines[OF t] new_node_memory[OF t]], simp_all)
    have 2: "post (if 1 < length fnl then andthen (new_node (fnl ! 1) NULL ?t) (\<lambda>p s. Go () (set_di1 d (\<lambda>i. i\<lparr>head_file := p, current_file := p\<rparr>) s)) else Go () ?t) memory"
      using t by (auto simp: memory_def intro!: post_andthen[OF new_node_memory[OF t]])
    show ?thesis unfolding get_dir_info1_def get_dir_info_def sys abs_simps Some assms(2) option.case Let_def
      by (rule map_andthen[OF 1[unfolded abs_simps] 2], rule map_andthen[OF add_nodes_refines add_nodes_memory]) auto
  qed (simp add: get_dir_info1_def get_dir_info_def sys)
qed

lemma free_nodes_refines: "free_loop h p = Some r \<Longrightarrow> h = abs_heap h1 \<Longrightarrow> \<exists>r1. free_nodes h1 p = Some r1 \<and> r = abs_heap r1"
proof (induction arbitrary: h1 rule: free_loop.raw_induct[rotated, consumes 1, case_names step])
  case (step free_loop h p r)
  show ?case
  proof (cases "p = NULL")
    case True
    then show ?thesis using step by (auto simp: free_nodes.simps)
  next
    case False
    then obtain f where f: "h1 p = Some f" "free_loop ((abs_heap h1)(p := None)) (fi_next f) = Some r" using step(2) False unfolding step(3) by (auto simp: bind_eq_Some_conv abs_node_def)
    have "\<exists>r1. free_nodes (h1(p := None)) (fi_next f) = Some r1 \<and> r = abs_heap r1"
      by (rule step(1)[OF f(2)]) (rule abs_heap_simps(3)[symmetric])
    then show ?thesis using f(1) False by (subst free_nodes.simps) simp
  qed
qed

lemma walk1_refines: "walk h p = Some r \<Longrightarrow> h = abs_heap h1 \<Longrightarrow> \<exists>r1. walk1 h1 p = Some r1 \<and> r = map (\<lambda>(p, f). (p, abs_node f)) r1"
proof (induction arbitrary: h1 rule: walk.raw_induct[rotated, consumes 1, case_names step])
  case (step walk h p r)
  show ?case
  proof (cases "p = NULL")
    case True
    then show ?thesis using step by (auto simp: walk1.simps)
  next
    case False
    then obtain f r' where f: "h1 p = Some f" "walk (abs_heap h1) (fi_next f) = Some r'" "r = (p, abs_node f) # r'"
      using step(2) False unfolding step(3) by (auto simp: bind_eq_Some_conv abs_node_def)
    then show ?thesis using step(1)[of "abs_heap h1" "fi_next f" r' h1] False by (subst walk1.simps) auto
  qed
qed

lemma get_name_abs: "get_name (abs_node f) = get_name1 f"
  by (simp add: get_name_def get_name1_def abs_node_def)


section \<open>Safety of the second version\<close>

lemma sys1_ok: "sys_ok sys \<Longrightarrow> sys_ok (sys1 sys)"
  by (simp add: sys_ok_def sys1_def no_stat_def size_text_def)

lemma sys1_simps [simp]: "s_chdir (sys1 sys) = s_chdir sys" "s_getcwd (sys1 sys) = s_getcwd sys" "s_scandir (sys1 sys) = s_scandir sys"
  by (simp_all add: sys1_def)

definition fm1_ok :: "'w fm1 \<Rightarrow> bool" where
  "fm1_ok s \<longleftrightarrow> fm_ok (abs1 s)"

lemma fm1_ok_simps [simp]: "fm1_ok (emit1 es s) = fm1_ok s" "fm1_ok (s\<lparr>world1 := w\<rparr>) = fm1_ok s" "fm1_ok (s\<lparr>cd1 := d\<rparr>) = fm1_ok s"
  by (simp_all add: fm1_ok_def)

lemma fm1_memory: "fm1_ok s \<Longrightarrow> memory s"
  by (simp add: fm1_ok_def fm_ok_def memory_def)

lemma fm1_okE:
  assumes "fm1_ok s"
  obtains xs where "panel (abs_heap (nodes s)) (di1 d s) xs"
  using assms unfolding fm1_ok_def by (rule fm_okE[where d = d]) simp

lemma print_dir1_ok:
  assumes "fm1_ok s"
  shows "\<exists>es. print_dir1 d bg s = Go () (emit1 es s)"
proof (rule fm1_okE[OF assms, of d])
  fix xs assume p: "panel (abs_heap (nodes s)) (di1 d s) xs"
  have "walk (abs_heap (nodes s)) (head_file (di1 d s)) = Some (map (\<lambda>x. (x, the (abs_heap (nodes s) x))) xs)"
    unfolding panel_head[OF p] by (rule files_walk[where pv = NULL]) (use p in \<open>simp add: panel_def\<close>)
  from walk1_refines[OF this refl] obtain r where r: "walk1 (nodes s) (head_file (di1 d s)) = Some r"
      "map (\<lambda>x. (x, the (abs_heap (nodes s) x))) xs = map (\<lambda>(p, f). (p, abs_node f)) r" by blast
  have "\<forall>x \<in> set r. name_row1 (current_file (di1 d s)) bg x \<noteq> None"
  proof
    fix x assume x: "x \<in> set r"
    then have "(fst x, abs_node (snd x)) \<in> set (map (\<lambda>(p, f). (p, abs_node f)) r)" by force
    then have "fst x \<in> set xs" "abs_node (snd x) = the (abs_heap (nodes s) (fst x))" unfolding r(2)[symmetric] by auto
    moreover obtain g m where "abs_heap (nodes s) (fst x) = Some g" "get_name g = Some m" using panel_names[OF p calculation(1)] by blast
    ultimately have "get_name1 (snd x) \<noteq> None" using get_name_abs[of "snd x"] by (metis option.distinct(1) option.sel)
    then show "name_row1 (current_file (di1 d s)) bg x \<noteq> None" by (auto simp: name_row1_def)
  qed
  then show ?thesis by (simp add: print_dir1_def r(1) those_Some) blast
qed

lemma print1_ok: "fm1_ok s \<Longrightarrow> (\<And>es. fm1_ok (emit1 es s) \<Longrightarrow> ok (f () (emit1 es s)) Q) \<Longrightarrow> ok (andthen (print_dir1 d bg s) f) Q"
  using print_dir1_ok[of s d bg] by auto

lemma print1_end: "fm1_ok s \<Longrightarrow> ok (print_dir1 d bg s) (\<lambda>_. fm1_ok)"
  using print_dir1_ok[of s d bg] by auto

lemma with_node_ok:
  assumes "fm1_ok s" "\<And>f n. nodes s (current_file (di1 (cd1 s) s)) = Some f \<Longrightarrow> get_name1 f = Some n \<Longrightarrow> ok (g f) Q"
  shows "ok (with_node s g) Q"
proof (rule fm1_okE[OF assms(1), of "cd1 s"])
  let ?c = "current_file (di1 (cd1 s) s)"
  fix xs assume p: "panel (abs_heap (nodes s)) (di1 (cd1 s) s) xs"
  then have c: "?c \<in> set xs" "NULL \<notin> set xs" by (auto simp: panel_def files_def dest: dchain_not_null)
  obtain f n where "nodes s ?c = Some f" "get_name1 f = Some n"
    using panel_names[OF p c(1)] get_name_abs by auto
  moreover have "?c \<noteq> NULL" using c by metis
  ultimately show ?thesis using assms(2) by (simp add: with_node_def)
qed

lemma move1_ok:
  assumes "fm1_ok s" "\<And>xs. panel (abs_heap (nodes s)) (di1 (cd1 s) s) xs \<Longrightarrow> p \<in> set xs"
  shows "ok (move1 p s) (\<lambda>_. fm1_ok)"
proof -
  have "fm1_ok (set_di1 (cd1 s) (\<lambda>i. i\<lparr>current_file := p\<rparr>) s)" unfolding fm1_ok_def
    by (rule fm_okE[OF assms(1)[unfolded fm1_ok_def], of "cd1 s"]) (use assms in \<open>auto simp: fm1_ok_def fm_ok_side[of _ "cd1 s"] panel_def heap_ok_def\<close>)
  then show ?thesis unfolding move1_def by (rule print1_end)
qed

lemma try_chdir_ok [simp]: "fm1_ok (try_chdir sys p s) = fm1_ok s"
  by (simp add: try_chdir_def split: option.splits)

lemma go_panel1_ok: "fm1_ok s \<Longrightarrow> ok (go_panel1 sys d s) (\<lambda>_. fm1_ok)"
  unfolding go_panel1_def by (rule print1_ok) (auto intro!: print1_end)

lemma reload1_refines:
  assumes "sys_ok sys" "fm1_ok s"
  shows "map_step abs1 (andthen (free_fil1 (cd1 s) s) (\<lambda>_ s. get_dir_info1 sys (bytes_of ''.'') (cd1 s) s)) = reload (sys1 sys) (abs1 s)"
proof (rule fm1_okE[OF assms(2), of "cd1 s"])
  fix xs assume p: "panel (abs_heap (nodes s)) (di1 (cd1 s) s) xs"
  let ?h = "abs_heap (nodes s)"
  have f: "free_loop ?h (head_file (di1 (cd1 s) s)) = Some (?h |` (- set xs))"
    unfolding panel_head[OF p] by (rule files_free[where pv = NULL]) (use p in \<open>simp add: panel_def\<close>)
  then obtain h where h: "free_nodes (nodes s) (head_file (di1 (cd1 s) s)) = Some h" "?h |` (- set xs) = abs_heap h"
    using free_nodes_refines[OF _ refl] by blast
  let ?s = "set_di1 (cd1 s) (\<lambda>i. i\<lparr>head_file := NULL, current_file := NULL, tail_file := NULL\<rparr>) (s\<lparr>nodes := h\<rparr>)"
  have c: "cd1 ?s = cd1 s" by (cases "cd1 s") (simp_all add: set_di1_def)
  have m: "memory ?s" using fm1_memory[OF assms(2)] by (simp add: memory_def)
  obtain c where "s_getcwd sys (world1 ?s) = Some c" using sys_okD(2)[OF assms(1)] by blast
  then show ?thesis using get_dir_info1_refines[OF m] by (simp add: reload_def free_fil1_def free_fil_def f h c)
qed

lemma enter1_ok:
  assumes "sys_ok sys" "fm1_ok s"
  shows "ok (enter1 sys s) (\<lambda>_. fm1_ok)"
  unfolding enter1_def
proof (rule with_node_ok[OF assms(2)])
  fix f n assume f: "get_name1 f = Some n"
  have "ok (andthen (andthen (free_fil1 (cd1 s) (s\<lparr>world1 := w\<rparr>)) (\<lambda>_ s. get_dir_info1 sys (bytes_of ''.'') (cd1 s) s)) (\<lambda>_ s. print_dir1 (cd1 s) 1 s)) (\<lambda>_. fm1_ok)" for w
  proof (rule ok_andthen)
    let ?s = "s\<lparr>world1 := w\<rparr>"
    have o: "fm1_ok ?s" using assms(2) by simp
    have "ok (reload (sys1 sys) (abs1 ?s)) (\<lambda>_. fm_ok)"
      by (rule ok_mono[OF reload_ok[OF sys1_ok[OF assms(1)] o[unfolded fm1_ok_def]]]) blast
    from this[folded reload1_refines[OF assms(1) o]] show "ok (andthen (free_fil1 (cd1 s) ?s) (\<lambda>_ s. get_dir_info1 sys (bytes_of ''.'') (cd1 s) s)) (\<lambda>_. fm1_ok)"
      by (simp add: ok_map_step flip: fm1_ok_def)
  qed (rule print1_end)
  then show "ok (need (get_name1 f) (\<lambda>name. case s_chdir sys name (world1 s) of None \<Rightarrow> Go () (emit1 [Perror ''chdir''] s)
     | Some w \<Rightarrow> andthen (free_fil1 (cd1 s) (s\<lparr>world1 := w\<rparr>)) (\<lambda>_ s. andthen (get_dir_info1 sys (bytes_of ''.'') (cd1 s) s) (\<lambda>_ s. print_dir1 (cd1 s) 1 s)))) (\<lambda>_. fm1_ok)"
    using assms(2) by (simp add: f andthen_assoc split: option.splits)
qed


lemma fm1_key_ok:
  assumes "sys_ok sys" "fm1_ok s"
  shows "ok (fm1_key sys k s) (\<lambda>_. fm1_ok)"
proof (cases k)
  case Up
  have "ok (with_node s (\<lambda>f. move1 (fi_prev f) s)) (\<lambda>_. fm1_ok)" if "current_file (di1 (cd1 s) s) \<noteq> head_file (di1 (cd1 s) s)"
  proof (rule with_node_ok[OF assms(2)], rule move1_ok[OF assms(2)])
    fix f n xs assume "nodes s (current_file (di1 (cd1 s) s)) = Some f" "panel (abs_heap (nodes s)) (di1 (cd1 s) s) xs"
    then show "fi_prev f \<in> set xs" using that neighbours(2)[of "abs_heap (nodes s)" NULL xs _ "abs_node f"] by (auto simp: panel_def abs_node_def)
  qed
  then show ?thesis using assms(2) Up by simp
next
  case Down
  have "ok (with_node s (\<lambda>f. if fi_next f = NULL then Go () s else move1 (fi_next f) s)) (\<lambda>_. fm1_ok)"
  proof (rule with_node_ok[OF assms(2)], goal_cases)
    case (1 f n)
    have "fi_next f = NULL \<or> fi_next f \<in> set xs" if "panel (abs_heap (nodes s)) (di1 (cd1 s) s) xs" for xs
      using that 1(1) neighbours(1)[of "abs_heap (nodes s)" NULL xs _ "abs_node f"] by (auto simp: panel_def abs_node_def)
    then show ?case using assms(2) by (auto intro!: move1_ok)
  qed
  then show ?thesis using Down by simp
next
  case Home
  then show ?thesis using move1_ok[OF assms(2)] by (auto simp: panel_def)
next
  case End
  then show ?thesis using move1_ok[OF assms(2)] by (auto simp: panel_def)
qed (use assms in \<open>simp_all add: go_panel1_ok enter1_ok\<close>)

lemma fm1_keys_ok: "sys_ok sys \<Longrightarrow> fm1_ok s \<Longrightarrow> ok (fm1_keys sys ks s) (\<lambda>_. fm1_ok)"
  by (induction sys ks s rule: fm1_keys.induct) (auto intro: ok_andthen[OF fm1_key_ok])

text \<open>Reading a panel beside the nodes \<open>B\<close>.\<close>

lemma get_dir_info1_ok:
  assumes "sys_ok sys" "memory s" "heap_ok (abs1 s) B"
  shows "ok (get_dir_info1 sys path d s) (\<lambda>_ s'. (\<exists>xs. panel (abs_heap (nodes s')) (di1 d s') xs \<and> set xs \<inter> B = {} \<and> heap_ok (abs1 s') (set xs \<union> B)) \<and>
    beside d B (abs1 s) (abs1 s') \<and> dir_path (di1 d s') = the (s_getcwd sys (world1 s)))"
proof -
  obtain c where "s_getcwd sys (world1 s) = Some c" using sys_okD(2)[OF assms(1)] by blast
  note r = get_dir_info1_refines[OF assms(2) this]
  show ?thesis using get_dir_info_ok[OF sys1_ok[OF assms(1)] assms(3) refl, of path d, folded r]
    unfolding ok_map_step by (rule ok_mono) auto
qed

text \<open>The start: both panels are read, and the process stays in the directory of the right one.\<close>

lemma init_core1_ok:
  assumes "sys_ok sys" "memory s" "nodes s = (\<lambda>_. None)" "s_chdir sys pwd (world1 s) = Some w" "s_chdir sys home w = Some w'"
  shows "ok (init_core1 sys home pwd s) (\<lambda>_ s'. fm1_ok s' \<and> cd1 s' = L \<and> world1 s' = w' \<and> Some (dir_path (ld1 s')) = s_getcwd sys w \<and>
    Some (dir_path (rd1 s')) = s_getcwd sys w')"
proof -
  let ?s = "s\<lparr>allocs1 := allocs1 s + 2, world1 := w\<rparr>"
  obtain c where c: "s_getcwd sys v = Some (c v)" for v using sys_okD(2)[OF assms(1)] by metis
  have h: "heap_ok (abs1 ?s) {}" using assms(3) by (simp add: heap_ok_def)
  have m: "memory ?s" using assms(2) by (simp add: memory_def)
  have left: "ok (get_dir_info1 sys pwd L ?s) (\<lambda>_ t. \<exists>xs. panel (abs_heap (nodes t)) (ld1 t) xs \<and> heap_ok (abs1 t) (set xs) \<and> memory t \<and> world1 t = w \<and> dir_path (ld1 t) = c w)"
    by (rule ok_mono[OF get_dir_info1_ok[OF assms(1) m h]]) (use m c in \<open>auto simp: beside_def memory_def di1_def\<close>)
  have right: "ok (get_dir_info1 sys home R (t\<lparr>world1 := w'\<rparr>)) (\<lambda>_ t'. fm1_ok (t'\<lparr>cd1 := L\<rparr>) \<and> world1 t' = w' \<and> dir_path (ld1 t') = c w \<and> dir_path (rd1 t') = c w')"
    if t: "panel (abs_heap (nodes t)) (ld1 t) xs" "heap_ok (abs1 t) (set xs)" "memory t" "dir_path (ld1 t) = c w" for t xs
  proof (rule ok_mono[OF get_dir_info1_ok[OF assms(1)]])
    fix u t'
    assume a: "(\<exists>ys. panel (abs_heap (nodes t')) (di1 R t') ys \<and> set ys \<inter> set xs = {} \<and> heap_ok (abs1 t') (set ys \<union> set xs)) \<and>
      beside R (set xs) (abs1 (t\<lparr>world1 := w'\<rparr>)) (abs1 t') \<and> dir_path (di1 R t') = the (s_getcwd sys (world1 (t\<lparr>world1 := w'\<rparr>)))"
    then have b: "ld1 t' = ld1 t" "abs_heap (nodes t') |` set xs = abs_heap (nodes t) |` set xs" "world1 t' = w'" "mem1 t' = mem1 t"
      by (auto simp: beside_def di1_def)
    have "panel (abs_heap (nodes t')) (ld1 t') xs"
      using panel_beside[of "abs1 t" "ld1 t" xs "abs1 t'"] t(1) b(1,2) by simp
    moreover obtain ys where "panel (abs_heap (nodes t')) (rd1 t') ys" "set xs \<inter> set ys = {}" "heap_ok (abs1 t') (set xs \<union> set ys)"
      using a by (auto simp: di1_def Int_commute Un_commute)
    ultimately have "fm_ok (abs1 t')" unfolding fm_ok_side[of _ L] using t(3) b(4) by (auto simp: di1_def memory_def)
    then show "fm1_ok (t'\<lparr>cd1 := L\<rparr>) \<and> world1 t' = w' \<and> dir_path (ld1 t') = c w \<and> dir_path (rd1 t') = c w'"
      using a b t(4) c by (simp add: fm1_ok_def di1_def)
  qed (use t in \<open>auto simp: memory_def heap_ok_def\<close>)
  have "ok (andthen (get_dir_info1 sys pwd L ?s) (\<lambda>_ s. andthen (get_dir_info1 sys home R (try_chdir sys home s)) (\<lambda>_ s. Go () (s\<lparr>cd1 := L\<rparr>))))
      (\<lambda>_ s'. fm1_ok s' \<and> cd1 s' = L \<and> world1 s' = w' \<and> dir_path (ld1 s') = c w \<and> dir_path (rd1 s') = c w')"
  proof (rule ok_andthen[OF left], elim exE conjE)
    fix u t xs assume t: "panel (abs_heap (nodes t)) (ld1 t) xs" "heap_ok (abs1 t) (set xs)" "memory t" "world1 t = w" "dir_path (ld1 t) = c w"
    have "try_chdir sys home t = t\<lparr>world1 := w'\<rparr>" by (simp add: try_chdir_def t(4) assms(5))
    then show "ok (andthen (get_dir_info1 sys home R (try_chdir sys home t)) (\<lambda>_ s. Go () (s\<lparr>cd1 := L\<rparr>)))
      (\<lambda>_ s'. fm1_ok s' \<and> cd1 s' = L \<and> world1 s' = w' \<and> dir_path (ld1 s') = c w \<and> dir_path (rd1 s') = c w')"
      using right[OF t(1-3,5)] by (auto intro: ok_andthen)
  qed
  then show ?thesis using assms(2,4) c by (simp add: init_core1_def Let_def memory_def try_chdir_def)
qed


text \<open>C30: The second version is safe, but starts in the wrong directory. In the environment in which the later file manager is safe
  it has no undefined behaviour for any sequence of keys either, and keeps both panels well-formed. Before the first key, though, the
  left panel, which is the active one, shows \<^verbatim>\<open>PWD\<close>, while the process is in \<^verbatim>\<open>HOME\<close>, which was read last: a name under the cursor is
  looked up in the other panel's directory.\<close>
theorem fm1_main_safe:
  assumes "sys_ok sys" "\<forall>n. mem1 s n" "nodes s = (\<lambda>_. None)" "s_chdir sys pwd (world1 s) = Some w" "s_chdir sys home w = Some w'"
  shows "ok (fm1_main sys home pwd ks s) (\<lambda>_. fm1_ok) \<and>
    ok (fm1_main sys home pwd [] s) (\<lambda>_ t. cd1 t = L \<and> Some (dir_path (ld1 t)) = s_getcwd sys w \<and> s_getcwd sys (world1 t) = s_getcwd sys w')"
proof -
  let ?P = "\<lambda>t. fm1_ok t \<and> cd1 t = L \<and> world1 t = w' \<and> Some (dir_path (ld1 t)) = s_getcwd sys w"
  have i: "ok (init_core1 sys home pwd s) (\<lambda>_. ?P)"
    by (rule ok_mono[OF init_core1_ok[OF assms(1) _ assms(3-5)]]) (use assms(2) in \<open>auto simp: memory_def\<close>)
  have "ok (fm1_main sys home pwd ks s) (\<lambda>_. fm1_ok)"
    unfolding fm1_main_def by (rule ok_andthen[OF i]) (auto intro!: print1_ok fm1_keys_ok[OF assms(1)])
  moreover have "ok (fm1_main sys home pwd [] s) (\<lambda>_. ?P)"
    unfolding fm1_main_def by (rule ok_andthen[OF i]) (auto simp: emit1_def intro!: print1_ok)
  ultimately show ?thesis by (auto elim: ok_mono)
qed

definition new_fm1 :: "bool fm1" where
  "new_fm1 = (let i = \<lparr>dir_path = [], file_count = 0, head_file = 0, current_file = 0, tail_file = 0\<rparr> in
     \<lparr>nodes = (\<lambda>_. None), allocs1 = 0, mem1 = (\<lambda>_. True), ld1 = i, rd1 = i, cd1 = L, world1 = False, out1 = []\<rparr>)"

theorem fm1_main_safe_witness:
  "ok (fm1_main two_dirs [47] [47, 100] [] new_fm1) (\<lambda>_ t. cd1 t = L \<and> dir_path (ld1 t) = [47, 100] \<and> s_getcwd two_dirs (world1 t) = Some [47])"
proof -
  have "ok (fm1_main two_dirs [47] [47, 100] [] new_fm1) (\<lambda>_ t. cd1 t = L \<and> Some (dir_path (ld1 t)) = s_getcwd two_dirs True \<and>
      s_getcwd two_dirs (world1 t) = s_getcwd two_dirs False)"
    by (rule fm1_main_safe[THEN conjunct2]) (auto simp: sys_ok_def two_dirs_def size_text_def new_fm1_def Let_def split: if_splits)
  then show ?thesis by (rule ok_mono) (auto simp: two_dirs_def)
qed

section \<open>The first version\<close>

text \<open>The directory is listed from index 0, the record is not shared with the caller, and there is no last entry. As many records as the
  directory has entries are allocated for one; with none, the record lies outside its block.\<close>

fun add_nodes0 :: "byte list list \<Rightarrow> dir_info \<Rightarrow> 'w fm1 \<Rightarrow> (dir_info, 'w fm1) step" where
  "add_nodes0 [] i s = Go i s"
| "add_nodes0 (n # ns) i s = andthen (new_node n (current_file i) s) (\<lambda>p s.
     need (nodes s (current_file i)) (\<lambda>f.
       add_nodes0 ns (i\<lparr>current_file := p\<rparr>) (s\<lparr>nodes := (nodes s)(current_file i \<mapsto> f\<lparr>fi_next := p\<rparr>)\<rparr>)))"

definition get_dir_info0 :: "'w sys \<Rightarrow> byte list \<Rightarrow> dir_info \<Rightarrow> 'w fm1 \<Rightarrow> (dir_info option, 'w fm1) step" where
  "get_dir_info0 sys path junk s = (case s_scandir sys path (world1 s) of
     None \<Rightarrow> Go None (emit1 [Perror ''scandir''] s)
   | Some [] \<Rightarrow> Undefined
   | Some (n # ns) \<Rightarrow>
       if \<not> mem1 s (allocs1 s) then Undefined
       else let i = junk\<lparr>dir_path := (case s_getcwd sys (world1 s) of None \<Rightarrow> dir_path junk | Some p \<Rightarrow> p), file_count := int (length (n # ns)) - 2\<rparr> in
         andthen (new_node n NULL (s\<lparr>allocs1 := Suc (allocs1 s)\<rparr>)) (\<lambda>p s.
           andthen (add_nodes0 ns (i\<lparr>head_file := p, current_file := p\<rparr>) s) (\<lambda>i s. Go (Some (i\<lparr>current_file := head_file i\<rparr>)) s)))"

text \<open>The panels' pointers, \<open>None\<close> for \<^verbatim>\<open>NULL\<close>; the third one, to the active panel, is not used.\<close>

definition init_core0 :: "'w sys \<Rightarrow> byte list \<Rightarrow> byte list \<Rightarrow> dir_info \<Rightarrow> 'w fm1 \<Rightarrow> (dir_info option \<times> dir_info option, 'w fm1) step" where
  "init_core0 sys home pwd junk s = andthen (get_dir_info0 sys pwd junk s) (\<lambda>l s. andthen (get_dir_info0 sys home junk s) (\<lambda>r s. Go (l, r) s))"

definition name_row0 :: "addr \<Rightarrow> int \<Rightarrow> addr \<times> fnode \<Rightarrow> event option" where
  "name_row0 cur bg_c r = do {
     n \<leftarrow> get_name1 (snd r);
     Some (Call ''m_wnd'' ((if fst r = cur then [Num bg_c] else []) @ [Str (text_of n)])) }"

definition print_dir0 :: "dir_info option \<Rightarrow> int \<Rightarrow> 'w fm1 \<Rightarrow> (unit, 'w fm1) step" where
  "print_dir0 d bg_c s = need d (\<lambda>i. need (walk1 (nodes s) (head_file i)) (\<lambda>r.
     need (those (map (name_row0 (current_file i) bg_c) r)) (\<lambda>es.
       Go () (emit1 ([Call ''m_wnd'' [Str (text_of (dir_path i))]] @ es @ [Call ''m_wnd'' [Num (file_count i)]]) s))))"

text \<open>The characters read until \<^verbatim>\<open>q\<close>; at the end of the input the loop goes on for ever.\<close>

fun getchar_loop :: "byte list \<Rightarrow> byte list option" where
  "getchar_loop [] = None"
| "getchar_loop (c # cs) = (if c = 113 then Some cs else getchar_loop cs)"

text \<open>The program: what it shows, and whether it returns.\<close>

definition fm0_main :: "'w sys \<Rightarrow> byte list \<Rightarrow> byte list \<Rightarrow> dir_info \<Rightarrow> byte list \<Rightarrow> 'w fm1 \<Rightarrow> (bool, 'w fm1) step" where
  "fm0_main sys home pwd junk input s = andthen (init_core0 sys home pwd junk s) (\<lambda>(l, r) s. andthen (print_dir0 l 1 s) (\<lambda>_ s. andthen (print_dir0 r 2 s) (\<lambda>_ s.
     Go (getchar_loop input \<noteq> None) s)))"

lemma getchar_loop_ends: "getchar_loop cs \<noteq> None \<longleftrightarrow> 113 \<in> set cs"
  by (induction cs) auto

text \<open>What a panel shows: the path, every entry, and the count.\<close>

definition shows0 :: "byte list \<Rightarrow> byte list list \<Rightarrow> int \<Rightarrow> event list" where
  "shows0 path ns bg = [Call ''m_wnd'' [Str (text_of path)]] @ Call ''m_wnd'' [Num bg, Str (text_of (hd ns))] # map (\<lambda>n. Call ''m_wnd'' [Str (text_of n)]) (tl ns) @
     [Call ''m_wnd'' [Num (int (length ns) - 2)]]"

text \<open>The nodes \<open>xs\<close> of the heap are a list with the names \<open>ns\<close>.\<close>

definition names0 :: "(addr \<rightharpoonup> fnode) \<Rightarrow> addr list \<Rightarrow> byte list list \<Rightarrow> bool" where
  "names0 h xs ns \<longleftrightarrow> files (abs_heap h) NULL xs NULL \<and> map (\<lambda>x. get_name1 (the (h x))) xs = map Some ns"

lemma files_cong: "(\<And>x. x \<in> set xs \<Longrightarrow> h x = h' x) \<Longrightarrow> files h pv xs nx = files h' pv xs nx"
  unfolding files_def by (auto simp: links_def cong: dchain_cong)

lemma names0I: "files (abs_heap h) NULL xs NULL \<Longrightarrow> map (\<lambda>x. get_name1 (the (h x))) xs = map Some ns \<Longrightarrow> names0 h xs ns"
  by (simp add: names0_def)

lemma add_nodes0_ok:
  assumes "memory s" "names0 (nodes s) xs ms" "xs \<noteq> []" "current_file i = last xs" "\<forall>x \<in> set xs. x \<le> allocs1 s" "\<forall>n \<in> set ns. 0 \<notin> set n \<and> length n < 254"
  shows "\<exists>s' ys. add_nodes0 ns i s = Go (i\<lparr>current_file := last (xs @ ys)\<rparr>) s' \<and> names0 (nodes s') (xs @ ys) (ms @ ns) \<and> memory s' \<and>
    (\<forall>x \<in> set (xs @ ys). x \<le> allocs1 s') \<and> (\<forall>x \<in> set ys. allocs1 s < x) \<and> (\<forall>x. x \<noteq> last xs \<longrightarrow> x \<le> allocs1 s \<longrightarrow> nodes s' x = nodes s x) \<and>
    world1 s' = world1 s \<and> out1 s' = out1 s \<and> allocs1 s \<le> allocs1 s' \<and> dom (nodes s') = dom (nodes s) \<union> set ys"
  using assms
proof (induction ns arbitrary: i s xs ms)
  case Nil
  then show ?case by (auto intro!: exI[of _ "[]"])
next
  case (Cons n ns)
  let ?p = "Suc (allocs1 s)"
  let ?g = "\<lparr>fi_value = \<lparr>fi_name = put_name n, fi_type = put_name (bytes_of ''-''), fi_size = 0, fi_mod_date = 0\<rparr>, fi_next = NULL, fi_prev = last xs\<rparr>"
  have fl: "files (abs_heap (nodes s)) NULL xs NULL" "last xs \<in> set xs" "?p \<notin> set xs" using Cons.prems by (auto simp: names0_def)
  then obtain f where f: "nodes s (last xs) = Some f" by (auto simp: files_def)
  let ?h = "(nodes s)(?p \<mapsto> ?g, last xs \<mapsto> f\<lparr>fi_next := ?p\<rparr>)"
  let ?s = "s\<lparr>allocs1 := ?p, nodes := ?h\<rparr>"
  have gn: "get_name1 ?g = Some n" using Cons.prems(6) by (simp add: get_name1_def put_name_def cstr_zeros)
  have a: "abs_heap ?h = (abs_heap (nodes s))(?p \<mapsto> abs_node ?g, last xs \<mapsto> (abs_node f)\<lparr>fil_next := ?p\<rparr>)" by (simp add: abs_node_def)
  have "readable (abs_node ?g)" using gn by (simp add: readable_def get_name_abs) (simp add: abs_node_def no_stat_def size_text_def)
  then have fl': "files (abs_heap ?h) NULL (xs @ [?p]) NULL" unfolding a
    using fl f Cons.prems(3) by (intro files_snoc) (simp_all add: abs_node_def)
  have mp: "map (\<lambda>x. get_name1 (the (?h x))) xs = map (\<lambda>x. get_name1 (the (nodes s x))) xs"
    using fl(3) f by (auto simp: get_name1_def)
  have "get_name1 (the (?h ?p)) = Some n" using fl(2,3) gn by auto
  then have "map (\<lambda>x. get_name1 (the (?h x))) (xs @ [?p]) = map Some (ms @ [n])"
    unfolding map_append mp using Cons.prems(2) by (simp only: names0_def list.map)
  note names0I[OF fl' this]
  moreover have "nodes ?s = ?h" by simp
  ultimately have nm: "names0 (nodes ?s) (xs @ [?p]) (ms @ [n])" by (simp only:)
  have step: "add_nodes0 (n # ns) i s = add_nodes0 ns (i\<lparr>current_file := ?p\<rparr>) ?s"
    using Cons.prems(1,4) f fl(2,3) by (auto simp: new_node_def memory_def Let_def)
  obtain s' ys where r: "add_nodes0 ns (i\<lparr>current_file := ?p\<rparr>) ?s = Go (i\<lparr>current_file := last ((xs @ [?p]) @ ys)\<rparr>) s'"
     "names0 (nodes s') ((xs @ [?p]) @ ys) ((ms @ [n]) @ ns)" "memory s'" "\<forall>x \<in> set ((xs @ [?p]) @ ys). x \<le> allocs1 s'" "\<forall>x \<in> set ys. allocs1 ?s < x"
     "\<forall>x. x \<noteq> last (xs @ [?p]) \<longrightarrow> x \<le> allocs1 ?s \<longrightarrow> nodes s' x = nodes ?s x" "world1 s' = world1 ?s" "out1 s' = out1 ?s" "allocs1 ?s \<le> allocs1 s'" "dom (nodes s') = dom (nodes ?s) \<union> set ys"
    using Cons.IH[OF _ nm, of "i\<lparr>current_file := ?p\<rparr>"] Cons.prems(1,5,6) by (fastforce simp: memory_def)
  have "dom (nodes s') = dom (nodes s) \<union> set (?p # ys)" unfolding r(10) using f by auto
  then show ?case unfolding step using r(1-9) by (intro exI[of _ s'] exI[of _ "?p # ys"]) auto
qed


lemma those_map_Some: "those (map Some xs) = Some xs"
  by (induction xs) auto

lemma print_dir0_ok:
  assumes "names0 (nodes s) xs ns" "xs \<noteq> []" "head_file i = hd xs" "current_file i = hd xs" "file_count i = int (length ns) - 2"
  shows "print_dir0 (Some i) bg s = Go () (emit1 (shows0 (dir_path i) ns bg) s)"
proof -
  obtain x xs' where xs: "xs = x # xs'" using assms(2) by (cases xs) auto
  obtain n ns' where ns: "ns = n # ns'" and nx: "get_name1 (the (nodes s x)) = Some n" and nxs: "map (\<lambda>x. get_name1 (the (nodes s x))) xs' = map Some ns'"
    using assms(1) by (cases ns) (auto simp: names0_def xs)
  have f: "files (abs_heap (nodes s)) NULL xs NULL" using assms(1) by (simp add: names0_def)
  have w: "walk (abs_heap (nodes s)) x = Some (map (\<lambda>x. (x, the (abs_heap (nodes s) x))) xs)"
    using files_walk[OF f] by (simp add: xs)
  from walk1_refines[OF this refl] obtain r where r: "walk1 (nodes s) x = Some r"
    "map (\<lambda>x. (x, the (abs_heap (nodes s) x))) xs = map (\<lambda>(p, f). (p, abs_node f)) r" by blast
  have rows: "map (\<lambda>(p, f). (p, get_name (abs_node f))) r = map (\<lambda>x. (x, get_name1 (the (nodes s x)))) xs"
  proof -
    have "map (\<lambda>(p, f). (p, get_name f)) (map (\<lambda>(p, f). (p, abs_node f)) r) = map (\<lambda>x. (x, get_name (the (abs_heap (nodes s) x)))) xs"
      unfolding r(2)[symmetric] by simp
    moreover have "get_name (the (abs_heap (nodes s) x)) = get_name1 (the (nodes s x))" if "x \<in> set xs" for x
      using f that by (auto simp: files_def get_name_abs)
    ultimately show ?thesis by (simp add: case_prod_beta comp_def cong: map_cong)
  qed
  have "map (name_row0 x bg) r = map (\<lambda>(p, n). Option.bind n (\<lambda>n. Some (Call ''m_wnd'' ((if p = x then [Num bg] else []) @ [Str (text_of n)])))) (map (\<lambda>(p, f). (p, get_name (abs_node f))) r)"
    by (auto simp: name_row0_def get_name_abs)
  also have "\<dots> = map (\<lambda>y. Option.bind (get_name1 (the (nodes s y))) (\<lambda>n. Some (Call ''m_wnd'' ((if y = x then [Num bg] else []) @ [Str (text_of n)])))) xs"
    unfolding rows by simp
  also have "\<dots> = Some (Call ''m_wnd'' [Num bg, Str (text_of n)]) # map (\<lambda>n. Option.bind n (\<lambda>n. Some (Call ''m_wnd'' [Str (text_of n)]))) (map (\<lambda>x. get_name1 (the (nodes s x))) xs')"
    using f nx by (auto simp: xs files_def)
  also have "\<dots> = map Some (Call ''m_wnd'' [Num bg, Str (text_of n)] # map (\<lambda>n. Call ''m_wnd'' [Str (text_of n)]) ns')"
    unfolding nxs by simp
  finally have t: "those (map (name_row0 x bg) r) = Some (Call ''m_wnd'' [Num bg, Str (text_of n)] # map (\<lambda>n. Call ''m_wnd'' [Str (text_of n)]) ns')"
    by (simp only: those_map_Some)
  show ?thesis using assms(3-5) by (simp add: print_dir0_def xs r(1) t shows0_def ns)
qed


text \<open>A directory read without disturbing the nodes that are there.\<close>

lemma get_dir_info0_ok:
  assumes "memory s" "\<forall>x \<in> dom (nodes s). x \<le> allocs1 s" "s_scandir sys path (world1 s) = Some ns" "ns \<noteq> []" "\<forall>n \<in> set ns. 0 \<notin> set n \<and> length n < 254" "s_getcwd sys (world1 s) = Some c"
  shows "\<exists>i s' xs. get_dir_info0 sys path junk s = Go (Some i) s' \<and> names0 (nodes s') xs ns \<and> xs \<noteq> [] \<and> head_file i = hd xs \<and> current_file i = hd xs \<and>
    file_count i = int (length ns) - 2 \<and> dir_path i = c \<and> memory s' \<and> (\<forall>x \<in> dom (nodes s). nodes s' x = nodes s x) \<and> (\<forall>x \<in> dom (nodes s'). x \<le> allocs1 s') \<and>
    world1 s' = world1 s \<and> out1 s' = out1 s"
proof -
  obtain n ns' where ns: "ns = n # ns'" using assms(4) by (cases ns) auto
  let ?p = "Suc (Suc (allocs1 s))"
  let ?g = "\<lparr>fi_value = \<lparr>fi_name = put_name n, fi_type = put_name (bytes_of ''-''), fi_size = 0, fi_mod_date = 0\<rparr>, fi_next = NULL, fi_prev = NULL\<rparr>"
  let ?s = "s\<lparr>allocs1 := ?p, nodes := (nodes s)(?p \<mapsto> ?g)\<rparr>"
  let ?i = "junk\<lparr>dir_path := c, file_count := int (length ns) - 2, head_file := ?p, current_file := ?p\<rparr>"
  have gn: "get_name1 ?g = Some n" using assms(5) by (simp add: ns get_name1_def put_name_def cstr_zeros)
  have "readable (abs_node ?g)" using gn by (simp add: readable_def get_name_abs) (simp add: abs_node_def no_stat_def size_text_def)
  then have "names0 (nodes ?s) [?p] [n]" using gn by (simp add: names0_def files_Cons) (simp add: abs_node_def)
  from add_nodes0_ok[OF _ this, of ?i ns'] obtain s' ys where r: "add_nodes0 ns' ?i ?s = Go (?i\<lparr>current_file := last ([?p] @ ys)\<rparr>) s'"
    "names0 (nodes s') ([?p] @ ys) ([n] @ ns')" "memory s'" "\<forall>x \<in> set ([?p] @ ys). x \<le> allocs1 s'" "\<forall>x \<in> set ys. allocs1 ?s < x"
    "\<forall>x. x \<noteq> last [?p] \<longrightarrow> x \<le> allocs1 ?s \<longrightarrow> nodes s' x = nodes ?s x" "world1 s' = world1 s" "out1 s' = out1 s" "allocs1 ?s \<le> allocs1 s'" "dom (nodes s') = dom (nodes ?s) \<union> set ys"
    using assms(1,5) ns by (auto simp: memory_def)
  have "get_dir_info0 sys path junk s = Go (Some (?i\<lparr>current_file := ?p\<rparr>)) s'"
    using assms(1) r(1) by (simp add: get_dir_info0_def assms(3,6) ns new_node_def memory_def Let_def)
  moreover have "nodes s' x = nodes s x" if "x \<in> dom (nodes s)" for x
  proof -
    have "x \<le> allocs1 s" using assms(2) that by blast
    then have x: "x \<noteq> last [?p]" "x \<le> allocs1 ?s" "x \<noteq> ?p" by simp_all
    have "nodes s' x = nodes ?s x" by (rule r(6)[rule_format, OF x(1,2)])
    also have "\<dots> = nodes s x" using x(3) by simp
    finally show ?thesis .
  qed
  moreover have "x \<le> allocs1 s'" if "x \<in> dom (nodes s')" for x
  proof -
    have "x = ?p \<or> x \<in> dom (nodes s) \<or> x \<in> set ys" using that unfolding r(10) by auto
    moreover have "allocs1 s \<le> allocs1 s'" using r(9) by simp
    then have "x \<in> dom (nodes s) \<Longrightarrow> x \<le> allocs1 s'" using assms(2) order_trans by blast
    ultimately show ?thesis using r(4) by auto
  qed
  ultimately show ?thesis using r(2,3,7,8) by (intro exI[of _ "?i\<lparr>current_file := ?p\<rparr>"] exI[of _ s'] exI[of _ "?p # ys"]) (auto simp: ns)
qed

lemma names0_cong: "(\<And>x. x \<in> set xs \<Longrightarrow> h x = h' x) \<Longrightarrow> names0 h xs ns = names0 h' xs ns"
  using files_cong[of xs "abs_heap h" "abs_heap h'"] by (simp add: names0_def cong: map_cong)

text \<open>The first version shows two directories under one name. With both directories readable it prints the whole listing of the one
  in \<^verbatim>\<open>PWD\<close> and then of the one in \<^verbatim>\<open>HOME\<close>, from the first entry on, in order and with the cursor on it, but both with the path of
  the current directory, since it never changes to the other; and it returns exactly if a \<^verbatim>\<open>q\<close> is typed before the input ends.\<close>
theorem fm0_main_shows:
  assumes "\<forall>n. mem1 s n" "nodes s = (\<lambda>_. None)" "s_scandir sys pwd (world1 s) = Some ns" "s_scandir sys home (world1 s) = Some ms" "ns \<noteq> []" "ms \<noteq> []"
    "list_all (\<lambda>n. 0 \<notin> set n \<and> length n < 254) (ns @ ms)" "s_getcwd sys (world1 s) = Some c"
  shows "\<exists>s'. fm0_main sys home pwd junk input s = Go (113 \<in> set input) s' \<and> out1 s' = out1 s @ shows0 c ns 1 @ shows0 c ms 2"
proof -
  have ok: "\<forall>n \<in> set ns. 0 \<notin> set n \<and> length n < 254" "\<forall>n \<in> set ms. 0 \<notin> set n \<and> length n < 254" using assms(7) by (auto simp: list_all_iff)
  obtain i s1 xs where l: "get_dir_info0 sys pwd junk s = Go (Some i) s1" "names0 (nodes s1) xs ns" "xs \<noteq> []" "head_file i = hd xs" "current_file i = hd xs"
    "file_count i = int (length ns) - 2" "dir_path i = c" "memory s1" "\<forall>x \<in> dom (nodes s1). x \<le> allocs1 s1" "world1 s1 = world1 s" "out1 s1 = out1 s"
    using get_dir_info0_ok[of s sys pwd ns c junk] assms(1-3,5,8) ok(1) by (auto simp: memory_def)
  obtain j s2 ys where r: "get_dir_info0 sys home junk s1 = Go (Some j) s2" "names0 (nodes s2) ys ms" "ys \<noteq> []" "head_file j = hd ys" "current_file j = hd ys"
    "file_count j = int (length ms) - 2" "dir_path j = c" "\<forall>x \<in> dom (nodes s1). nodes s2 x = nodes s1 x" "out1 s2 = out1 s1"
    using get_dir_info0_ok[OF l(8,9), of sys home ms c junk] assms(4,6,8) ok(2) l(10) by auto
  have "x \<in> set xs \<Longrightarrow> x \<in> dom (nodes s1)" for x using l(2) by (auto simp: names0_def files_def)
  then have "x \<in> set xs \<Longrightarrow> nodes s2 x = nodes s1 x" for x using r(8) by blast
  then have "names0 (nodes s2) xs ns" using names0_cong[of xs "nodes s2" "nodes s1" ns] l(2) by blast
  note pl = print_dir0_ok[OF this l(3-6), of 1]
  have e: "nodes (emit1 es s2) = nodes s2" for es by (simp add: emit1_def)
  note pr = print_dir0_ok[of "emit1 (shows0 (dir_path i) ns 1) s2" ys ms j 2, unfolded e, OF r(2-6)]
  show ?thesis using getchar_loop_ends[of input]
    by (simp add: fm0_main_def init_core0_def l(1) r(1) pl pr del: not_None_eq) (simp add: emit1_def l(7,11) r(7,9))
qed


theorem fm0_main_shows_witness:
  "\<exists>s'. fm0_main one_dir [] [] \<lparr>dir_path = [], file_count = 0, head_file = 0, current_file = 0, tail_file = 0\<rparr> [120, 113, 120]
      \<lparr>nodes = (\<lambda>_. None), allocs1 = 0, mem1 = (\<lambda>_. True), ld1 = i, rd1 = i, cd1 = L, world1 = 0, out1 = []\<rparr> = Go True s' \<and>
    out1 s' = shows0 [47] [[46], [46, 46], [97]] 1 @ shows0 [47] [[46], [46, 46], [97]] 2"
  using fm0_main_shows[of "\<lparr>nodes = (\<lambda>_. None), allocs1 = 0, mem1 = (\<lambda>_. True), ld1 = i, rd1 = i, cd1 = L, world1 = 0, out1 = []\<rparr>" one_dir "[]" _ "[]" _ "[47]" _ "[120, 113, 120]"]
  by (simp add: one_dir_def)

end
