(* ===== verification/Middle_File_Managers.thy ===== *)
theory Middle_File_Managers
  imports Panel_Directory
begin

text \<open>
  The third and fourth version of the file manager, \<^verbatim>\<open>src/backup/fm_2\<close> and \<^verbatim>\<open>src/backup/fm_3\<close>. Their \<^verbatim>\<open>lib/core.c\<close> is the one of
  \<^verbatim>\<open>src/file_manager\<close> without the functions for copying, so the operations of \<^verbatim>\<open>Dir_Panel\<close> are theirs too; what differs is what they
  print and the keys. The fourth version behaves as the current one does on the keys both have, except for its lines, the place of one number and the
  title of a column.
\<close>

section \<open>The fourth version\<close>

text \<open>A size is printed as it is.\<close>

fun static_rows3 :: "(u32 \<Rightarrow> string option) \<Rightarrow> fil list \<Rightarrow> event list \<times> bool" where
  "static_rows3 pw [] = ([], True)"
| "static_rows3 pw (f # fs) = (case pw (st_uid (file_stat f)) of
     None \<Rightarrow> ([Perror ''getpwuid()''], False)
   | Some u \<Rightarrow> let (es, ok) = static_rows3 pw fs in
       ([Call ''ow_wnd'' [Str u], Call ''s_wnd'' [Num (int (st_size (file_stat f)))], Call ''mt_wnd'' [Num (st_mtime (file_stat f))],
         Call ''pr_wnd'' [Num (uint (st_mode (file_stat f) AND 511))]] @ es, ok))"

definition look3 :: "'w sys \<Rightarrow> look" where
  "look3 sys = \<lparr>hline = 45, vline = 124, total_x = s_cols sys div 8 - 8, mt_title = ''Mod time''\<rparr>"

definition print_dir_static3 :: "'w sys \<Rightarrow> side \<Rightarrow> 'w fm \<Rightarrow> (unit, 'w fm) step" where
  "print_dir_static3 sys d s = need (walk (fils s) (head_file (di d s))) (\<lambda>r.
     let (es, ok) = static_rows3 (s_getpwuid sys) (map snd r);
         s = emit (static_before (look3 sys) sys (di d s) @ column_titles (look3 sys) @ es) s in
     if ok then Go () (emit (static_after (look3 sys) sys) s) else Exit 1 s)"

definition key_enter3 :: "'w sys \<Rightarrow> 'w fm \<Rightarrow> (unit, 'w fm) step" where
  "key_enter3 sys s = with_current s (\<lambda>f. need (get_name f) (\<lambda>name.
     andthen (case s_chdir sys name (world s) of
         None \<Rightarrow> Go () s
       | Some w \<Rightarrow> andthen (reload sys (s\<lparr>world := w\<rparr>)) (\<lambda>_ s. andthen (print_dir_static3 sys (cd s) s) (\<lambda>_ s. print_dir_dynamic (cd s) 1 s)))
     (\<lambda>_ s. with_current s (\<lambda>f.
       if is_reg f \<and> is_exec f then need (get_name f) (\<lambda>name.
         andthen (print_dir_dynamic L 1 (emit (run_events (look3 sys) name) (s\<lparr>world := s_exec sys name (world s)\<rparr>)))
           (\<lambda>_ s. print_dir_dynamic R 2 s))
       else Go () s))))"

fun fm3_key :: "'w sys \<Rightarrow> key \<Rightarrow> 'w fm \<Rightarrow> (unit, 'w fm) step" where
  "fm3_key sys KEY_UP s = (if current_file (di (cd s) s) = head_file (di (cd s) s) then Go () s
     else with_current s (\<lambda>f. move_to (fil_prev f) s))"
| "fm3_key sys KEY_DOWN s = with_current s (\<lambda>f. if fil_next f = NULL then Go () s else move_to (fil_next f) s)"
| "fm3_key sys KEY_LEFT s = (if cd s = R then go_panel sys L s else Go () s)"
| "fm3_key sys KEY_RIGHT s = (if cd s = L then go_panel sys R s else Go () s)"
| "fm3_key sys KEY_TAB s = go_panel sys (if cd s = L then R else L) s"
| "fm3_key sys KEY_HOME s = move_to (head_file (di (cd s) s)) s"
| "fm3_key sys KEY_END s = move_to (tail_file (di (cd s) s)) s"
| "fm3_key sys KEY_ENTER s = key_enter3 sys s"
| "fm3_key sys _ s = Go () s"

fun fm3_keys :: "'w sys \<Rightarrow> key option list \<Rightarrow> 'w fm \<Rightarrow> (unit, 'w fm) step" where
  "fm3_keys sys [] s = Go () s"
| "fm3_keys sys (None # ks) s = Exit 0 s"
| "fm3_keys sys (Some k # ks) s = andthen (fm3_key sys k s) (\<lambda>_ s. fm3_keys sys ks s)"

definition fm3_main :: "'w sys \<Rightarrow> byte list \<Rightarrow> byte list \<Rightarrow> key option list \<Rightarrow> 'w fm \<Rightarrow> (unit, 'w fm) step" where
  "fm3_main sys home pwd ks s =
     andthen (init_core sys home pwd s) (\<lambda>_ s. andthen (print_dir_static3 sys (cd s)
         (emit [Call ''init_graph'' [], box (look3 sys) ''ld'', box (look3 sys) ''rd''] s)) (\<lambda>_ s. andthen (print_dir_static3 sys R s) (\<lambda>_ s.
       andthen (print_dir_dynamic L 1 s) (\<lambda>_ s. andthen (print_dir_dynamic R 2 s) (\<lambda>_ s. fm3_keys sys ks s)))))"

section \<open>Files small enough to be printed alike\<close>

definition small :: "'w fm \<Rightarrow> bool" where
  "small s \<longleftrightarrow> (\<forall>p f. fils s p = Some f \<longrightarrow> st_size (file_stat f) < 1000000000)"

definition small_sys :: "'w sys \<Rightarrow> bool" where
  "small_sys sys \<longleftrightarrow> (\<forall>n w st. s_stat sys n w = Some st \<longrightarrow> st_size st < 1000000000)"

lemma small_simps [simp]: "small (emit es s) = small s" "small (s\<lparr>world := w\<rparr>) = small s" "small (s\<lparr>cd := d\<rparr>) = small s" "small (set_di d f s) = small s"
  "small (s\<lparr>allocs := n\<rparr>) = small s"
  by (simp_all add: small_def emit_def)

lemma walk_in: "walk h p = Some r \<Longrightarrow> (q, f) \<in> set r \<Longrightarrow> h q = Some f"
proof (induction arbitrary: q f rule: walk.raw_induct[rotated, consumes 1, case_names step])
  case (step walk h p r)
  then show ?case by (auto simp: bind_eq_Some_conv split: if_splits)
qed

lemma free_loop_sub: "free_loop h p = Some r \<Longrightarrow> r x = None \<or> r x = h x"
proof (induction rule: free_loop.raw_induct[rotated, consumes 1, case_names step])
  case (step free_loop h p r)
  then show ?case by (fastforce simp: bind_eq_Some_conv split: if_splits)
qed

lemma static_rows_small: "\<forall>f \<in> set fs. st_size (file_stat f) < 1000000000 \<Longrightarrow> static_rows pw fs = Some (static_rows3 pw fs)"
  by (induction fs) (auto simp: size_text_def split: option.splits prod.splits)

lemma new_fil_small: "small_sys sys \<Longrightarrow> small s \<Longrightarrow> post (new_fil sys n pv s) small"
  by (auto simp: new_fil_def Let_def small_def small_sys_def split: option.splits)

lemma add_files_small: "small_sys sys \<Longrightarrow> small s \<Longrightarrow> post (add_files sys d ns s) small"
proof (induction ns arbitrary: s)
  case (Cons n ns)
  show ?case unfolding add_files.simps Let_def
    by (rule post_andthen[OF new_fil_small[OF Cons.prems]], rule post_need, rule Cons.IH[OF Cons.prems(1)]) (auto simp: small_def)
qed simp

lemma get_dir_info_small: "small_sys sys \<Longrightarrow> small s \<Longrightarrow> post (get_dir_info sys path d s) small"
  by (auto simp: get_dir_info_def Let_def split: option.splits intro!: post_andthen[where P = small] new_fil_small add_files_small)

lemma free_fil_small: "small s \<Longrightarrow> post (free_fil d s) small"
  unfolding free_fil_def
proof (rule post_need)
  fix h assume a: "small s" "free_loop (fils s) (head_file (di d s)) = Some h"
  have "small (s\<lparr>fils := h\<rparr>)" unfolding small_def
  proof (intro allI impI)
    fix p f assume "fils (s\<lparr>fils := h\<rparr>) p = Some f"
    then have "fils s p = Some f" using free_loop_sub[OF a(2), of p] by simp
    then show "st_size (file_stat f) < 1000000000" using a(1) by (simp add: small_def)
  qed
  then show "post (Go () (set_di d (\<lambda>i. i\<lparr>head_file := NULL, current_file := NULL, tail_file := NULL\<rparr>) (s\<lparr>fils := h\<rparr>))) small" by simp
qed

lemma print_small: "small s \<Longrightarrow> post (print_dir_dynamic d bg s) small" "small s \<Longrightarrow> post (print_dir_static sys d s) small"
  by (auto simp: print_dir_dynamic_def print_dir_static_def Let_def intro!: post_need split: prod.splits)

lemma reload_small: "small_sys sys \<Longrightarrow> small s \<Longrightarrow> post (reload sys s) small"
  unfolding reload_def by (blast intro: post_andthen free_fil_small get_dir_info_small)

lemma init_core_small: "small_sys sys \<Longrightarrow> small s \<Longrightarrow> post (init_core sys home pwd s) small"
  by (auto simp: init_core_def Let_def split: option.splits intro!: post_andthen[where P = small] get_dir_info_small)

lemma key_enter_small: "small_sys sys \<Longrightarrow> small s \<Longrightarrow> post (key_enter sys s) small"
  unfolding key_enter_def
  by (auto intro!: with_current_post post_need post_andthen[where P = small] reload_small print_small split: option.splits)

section \<open>The fourth version behaves as the current one\<close>

text \<open>The screen as the fourth version draws it.\<close>

definition old_look :: "look \<Rightarrow> event \<Rightarrow> event" where
  "old_look k e = (case e of
     Call f xs \<Rightarrow>
       if f = ''mvwhline'' then Call f (xs[3 := Num (hline k)])
       else if f = ''mvwvline'' then Call f (xs[3 := Num (vline k)])
       else if f = ''box'' then Call f (xs[1 := Num (vline k), 2 := Num (hline k)])
       else if f = ''p_wnd'' \<and> xs ! 2 = Str ''[ Total: %d ]'' then Call f (xs[1 := Num (total_x k)])
       else if f = ''mt_wnd'' \<and> xs = [Str (ln (ln ''Modify time''))] then Call f [Str (ln (ln (mt_title k)))]
       else e
   | _ \<Rightarrow> e)"

definition old_screen :: "look \<Rightarrow> 'w fm \<Rightarrow> 'w fm" where
  "old_screen k s = s\<lparr>out := map (old_look k) (out s)\<rparr>"

lemma old_look_perror [simp]: "old_look k (Perror e) = Perror e"
  by (simp add: old_look_def)

lemma old_screen_simps [simp]:
  "fils (old_screen k s) = fils s" "allocs (old_screen k s) = allocs s" "mem_ok (old_screen k s) = mem_ok s" "cd (old_screen k s) = cd s"
  "world (old_screen k s) = world s" "di d (old_screen k s) = di d s"
  "old_screen k (emit es s) = emit (map (old_look k) es) (old_screen k s)" "old_screen k (set_di d f s) = set_di d f (old_screen k s)"
  "old_screen k (s\<lparr>fils := h\<rparr>) = old_screen k s\<lparr>fils := h\<rparr>" "old_screen k (s\<lparr>allocs := n\<rparr>) = old_screen k s\<lparr>allocs := n\<rparr>"
  "old_screen k (s\<lparr>world := w\<rparr>) = old_screen k s\<lparr>world := w\<rparr>" "old_screen k (s\<lparr>cd := c\<rparr>) = old_screen k s\<lparr>cd := c\<rparr>"
  by (cases d; simp add: old_screen_def emit_def di_def set_di_def)+

lemma map_step_simps [simp]: "map_step F (if b then e else e') = (if b then map_step F e else map_step F e')"
  "map_step F (case v of None \<Rightarrow> e | Some a \<Rightarrow> g a) = (case v of None \<Rightarrow> map_step F e | Some a \<Rightarrow> map_step F (g a))"
  by (simp_all split: option.split)

lemma map_andthen_all: "map_step F e = e' \<Longrightarrow> (\<And>a s. map_step F (f a s) = f' a (F s)) \<Longrightarrow> map_step F (andthen e f) = andthen e' f'"
  by (rule map_andthen[where P = "\<lambda>_. True"]) (auto simp: post_def split: step.split)

lemma map_need_same: "(\<And>a. v = Some a \<Longrightarrow> map_step F (f a) = f' a) \<Longrightarrow> map_step F (need v f) = need v f'"
  by (cases v) auto

lemma with_current_old: "(\<And>f. map_step (old_screen k) (g f) = g' f) \<Longrightarrow> map_step (old_screen k) (with_current s g) = with_current (old_screen k s) g'"
  by (simp add: with_current_def map_need_same)

lemma new_fil_old: "map_step (old_screen k) (new_fil sys n pv s) = new_fil sys n pv (old_screen k s)"
  by (simp add: new_fil_def Let_def cong: option.case_cong)

lemma add_files_old: "map_step (old_screen k) (add_files sys d ns s) = add_files sys d ns (old_screen k s)"
proof (induction ns arbitrary: s)
  case (Cons n ns)
  show ?case unfolding add_files.simps old_screen_simps
    by (rule map_andthen_all[OF new_fil_old]) (auto simp: Cons.IH Let_def intro!: map_need_same)
qed simp

lemma get_dir_info_old: "map_step (old_screen k) (get_dir_info sys path d s) = get_dir_info sys path d (old_screen k s)"
  by (cases "s_scandir sys path (world s)")
    (auto simp: get_dir_info_def Let_def new_fil_old add_files_old intro!: map_andthen_all)

lemma free_fil_old: "map_step (old_screen k) (free_fil d s) = free_fil d (old_screen k s)"
  by (auto simp: free_fil_def intro!: map_need_same)

lemma reload_old: "map_step (old_screen k) (reload sys s) = reload sys (old_screen k s)"
  by (simp add: reload_def free_fil_old get_dir_info_old map_andthen_all)

lemma init_core_old: "map_step (old_screen k) (init_core sys home pwd s) = init_core sys home pwd (old_screen k s)"
  by (cases "s_chdir sys home (world s)")
    (auto simp: init_core_def Let_def get_dir_info_old intro!: map_andthen_all split: option.splits)

lemma dynamic_old: "map_step (old_screen k) (print_dir_dynamic d bg s) = print_dir_dynamic d bg (old_screen k s)"
proof -
  have "map (old_look k) es = es" if "those (map (name_row c bg) r) = Some es" for c r es
    using that by (induction r arbitrary: es) (auto simp: name_row_def old_look_def split: bind_splits option.splits)
  then show ?thesis by (auto simp: print_dir_dynamic_def intro!: map_need_same)
qed

lemma rows_old: "map (old_look k) (fst (static_rows3 pw fs)) = fst (static_rows3 pw fs)"
  by (induction fs) (auto simp: old_look_def Let_def split: option.splits prod.splits)

lemma frame_old:
  "map (old_look (look3 sys)) (static_before (the_look sys) sys i) = static_before (look3 sys) sys i"
  "map (old_look (look3 sys)) (column_titles (the_look sys)) = column_titles (look3 sys)"
  "map (old_look (look3 sys)) (static_after (the_look sys) sys) = static_after (look3 sys) sys"
  "old_look (look3 sys) (box (the_look sys) w) = box (look3 sys) w"
  "map (old_look (look3 sys)) (run_events (the_look sys) n) = run_events (look3 sys) n"
  by (simp_all add: static_before_def column_titles_def static_after_def box_def run_events_def old_look_def the_look_def look3_def C_Output.ln_def)

lemma static_old: "small s \<Longrightarrow> map_step (old_screen (look3 sys)) (print_dir_static sys d s) = print_dir_static3 sys d (old_screen (look3 sys) s)"
proof -
  assume s: "small s"
  have "static_rows (s_getpwuid sys) (map snd r) = Some (static_rows3 (s_getpwuid sys) (map snd r))" if "walk (fils s) (head_file (di d s)) = Some r" for r
    by (rule static_rows_small) (use s walk_in[OF that] in \<open>fastforce simp: small_def\<close>)
  then show ?thesis
    by (cases "walk (fils s) (head_file (di d s))")
      (simp_all add: print_dir_static_def print_dir_static3_def Let_def case_prod_beta frame_old rows_old)
qed

lemma go_panel_old: "map_step (old_screen k) (go_panel sys d s) = go_panel sys d (old_screen k s)"
  by (auto simp: go_panel_def Let_def dynamic_old split: option.splits intro!: map_andthen_all)

lemma move_old: "map_step (old_screen k) (move_to p s) = move_to p (old_screen k s)"
  by (simp add: move_to_def dynamic_old)

lemma key_enter_old:
  assumes "small_sys sys" "small s"
  shows "map_step (old_screen (look3 sys)) (key_enter sys s) = key_enter3 sys (old_screen (look3 sys) s)"
proof -
  let ?F = "old_screen (look3 sys)"
  have enter: "map_step ?F (andthen (reload sys (s\<lparr>world := w\<rparr>)) (\<lambda>_ s. andthen (print_dir_static sys (cd s) s) (\<lambda>_ s. print_dir_dynamic (cd s) 1 s))) =
      andthen (reload sys (?F s\<lparr>world := w\<rparr>)) (\<lambda>_ s. andthen (print_dir_static3 sys (cd s) s) (\<lambda>_ s. print_dir_dynamic (cd s) 1 s))" for w
    by (rule map_andthen[where P = small])
      (use assms in \<open>auto simp: reload_old dynamic_old reload_small static_old intro!: map_andthen_all\<close>)
  show ?thesis unfolding key_enter_def key_enter3_def
    by (intro with_current_old map_need_same map_andthen_all)
      (auto simp: enter dynamic_old frame_old cong: option.case_cong intro!: with_current_old map_need_same map_andthen_all)
qed

fun shared :: "key \<Rightarrow> bool" where
  "shared (KEY_F5 a) = False"
| "shared (KEY_F8 a) = False"
| "shared _ = True"

lemma fm_key_old:
  "small_sys sys \<Longrightarrow> small s \<Longrightarrow> shared k \<Longrightarrow> map_step (old_screen (look3 sys)) (fm_key sys k s) = fm3_key sys k (old_screen (look3 sys) s)"
  by (cases k) (auto simp: key_enter_old go_panel_old move_old intro!: with_current_old)

lemma fm_key_small: "small_sys sys \<Longrightarrow> small s \<Longrightarrow> shared k \<Longrightarrow> post (fm_key sys k s) small"
  by (cases k) (auto simp: move_to_def go_panel_def Let_def key_enter_small split: option.splits intro!: with_current_post print_small post_andthen[where P = small])

lemma fm_keys_old: "small_sys sys \<Longrightarrow> small s \<Longrightarrow> list_all (\<lambda>k. case k of None \<Rightarrow> True | Some k \<Rightarrow> shared k) ks \<Longrightarrow>
    map_step (old_screen (look3 sys)) (fm_keys sys ks s) = fm3_keys sys ks (old_screen (look3 sys) s)"
  by (induction sys ks s rule: fm_keys.induct) (auto intro!: map_andthen[where P = small] simp: fm_key_old fm_key_small)



section \<open>The third version\<close>

text \<open>The whole panel is printed at every key, with the current file marked in all columns.\<close>

fun rows2 :: "(u32 \<Rightarrow> string option) \<Rightarrow> addr \<Rightarrow> int \<Rightarrow> (addr \<times> fil) list \<Rightarrow> (event list \<times> bool) option" where
  "rows2 pw cur bg_c [] = Some ([], True)"
| "rows2 pw cur bg_c ((p, f) # fs) = (case pw (st_uid (file_stat f)) of
     None \<Rightarrow> Some ([Perror ''getpwuid()''], False)
   | Some u \<Rightarrow> let c = (if p = cur then bg_c else 3) in do {
       n \<leftarrow> get_name f;
       (es, ok) \<leftarrow> rows2 pw cur bg_c fs;
       Some ([Call ''fn_wnd'' [Num c, Str (text_of n)], Call ''ow_wnd'' [Num c, Str u], Call ''s_wnd'' [Num c, Num (int (st_size (file_stat f)))],
         Call ''mt_wnd'' [Num c, Num (st_mtime (file_stat f))], Call ''pr_wnd'' [Num c, Num (uint (st_mode (file_stat f) AND 511))]] @ es, ok) })"

definition print_dir_static2 :: "'w sys \<Rightarrow> side \<Rightarrow> 'w fm \<Rightarrow> 'w fm" where
  "print_dir_static2 sys d s = emit (static_before (look3 sys) sys (di d s) @ static_after (look3 sys) sys) s"

definition print_dir2 :: "'w sys \<Rightarrow> side \<Rightarrow> int \<Rightarrow> 'w fm \<Rightarrow> (unit, 'w fm) step" where
  "print_dir2 sys d bg_c s = need (walk (fils s) (head_file (di d s))) (\<lambda>r.
     need (rows2 (s_getpwuid sys) (current_file (di d s)) bg_c r) (\<lambda>(es, ok).
       let s = emit (column_titles (look3 sys) @ es) s in if ok then Go () (print_dir_static2 sys d s) else Exit 1 s))"

definition move2 :: "'w sys \<Rightarrow> addr \<Rightarrow> 'w fm \<Rightarrow> (unit, 'w fm) step" where
  "move2 sys p s = print_dir2 sys (cd s) 1 (set_di (cd s) (\<lambda>i. i\<lparr>current_file := p\<rparr>) s)"

definition go_panel2 :: "'w sys \<Rightarrow> side \<Rightarrow> 'w fm \<Rightarrow> (unit, 'w fm) step" where
  "go_panel2 sys d s = andthen (print_dir2 sys (cd s) 2 s) (\<lambda>_ s.
     let s = s\<lparr>cd := d\<rparr> in
     case s_chdir sys (dir_path (di d s)) (world s) of
       None \<Rightarrow> Exit 0 (emit [Perror ''chdir''] s)
     | Some w \<Rightarrow> print_dir2 sys d 1 (s\<lparr>world := w\<rparr>))"

definition key_enter2 :: "'w sys \<Rightarrow> 'w fm \<Rightarrow> (unit, 'w fm) step" where
  "key_enter2 sys s = with_current s (\<lambda>f. need (get_name f) (\<lambda>name.
     andthen (case s_chdir sys name (world s) of
         None \<Rightarrow> Go () s
       | Some w \<Rightarrow> andthen (reload sys (s\<lparr>world := w\<rparr>)) (\<lambda>_ s. andthen (print_dir2 sys (cd s) 1 s) (\<lambda>_ s. Go () (print_dir_static2 sys (cd s) s))))
     (\<lambda>_ s. with_current s (\<lambda>f.
       if is_reg f \<and> is_exec f then need (get_name f) (\<lambda>name.
         andthen (print_dir2 sys L 1 (emit (run_events (look3 sys) name) (s\<lparr>world := s_exec sys name (world s)\<rparr>)))
           (\<lambda>_ s. print_dir2 sys R 2 s))
       else Go () s))))"

fun fm2_key :: "'w sys \<Rightarrow> key \<Rightarrow> 'w fm \<Rightarrow> (unit, 'w fm) step" where
  "fm2_key sys KEY_UP s = (if current_file (di (cd s) s) = head_file (di (cd s) s) then Go () s
     else with_current s (\<lambda>f. move2 sys (fil_prev f) s))"
| "fm2_key sys KEY_DOWN s = with_current s (\<lambda>f. if fil_next f = NULL then Go () s else move2 sys (fil_next f) s)"
| "fm2_key sys KEY_LEFT s = (if cd s = R then go_panel2 sys L s else Go () s)"
| "fm2_key sys KEY_RIGHT s = (if cd s = L then go_panel2 sys R s else Go () s)"
| "fm2_key sys KEY_TAB s = go_panel2 sys (if cd s = L then R else L) s"
| "fm2_key sys KEY_HOME s = move2 sys (head_file (di (cd s) s)) s"
| "fm2_key sys KEY_END s = move2 sys (tail_file (di (cd s) s)) s"
| "fm2_key sys KEY_ENTER s = key_enter2 sys s"
| "fm2_key sys _ s = Go () s"

fun fm2_keys :: "'w sys \<Rightarrow> key option list \<Rightarrow> 'w fm \<Rightarrow> (unit, 'w fm) step" where
  "fm2_keys sys [] s = Go () s"
| "fm2_keys sys (None # ks) s = Exit 0 s"
| "fm2_keys sys (Some k # ks) s = andthen (fm2_key sys k s) (\<lambda>_ s. fm2_keys sys ks s)"

definition fm2_main :: "'w sys \<Rightarrow> byte list \<Rightarrow> byte list \<Rightarrow> key option list \<Rightarrow> 'w fm \<Rightarrow> (unit, 'w fm) step" where
  "fm2_main sys home pwd ks s =
     andthen (init_core sys home pwd s) (\<lambda>_ s. andthen (print_dir2 sys L 1
         (emit [Call ''init_graph'' [], box (look3 sys) ''ld'', box (look3 sys) ''rd''] s)) (\<lambda>_ s. andthen (print_dir2 sys R 2 s) (\<lambda>_ s.
       fm2_keys sys ks (print_dir_static2 sys R (print_dir_static2 sys (cd s) s)))))"


lemma rows2_Some: "\<forall>x \<in> set r. get_name (snd x) \<noteq> None \<Longrightarrow> rows2 pw cur bg r \<noteq> None"
  by (induction r) (auto split: option.splits)

lemma print_dir2_keeps: "fm_ok s \<Longrightarrow> ok (print_dir2 sys d bg s) (\<lambda>_ s'. \<exists>es. s' = emit es s)"
proof (erule fm_okE[of _ d])
  fix xs assume p: "panel (fils s) (di d s) xs"
  let ?r = "map (\<lambda>x. (x, the (fils s x))) xs"
  have w: "walk (fils s) (head_file (di d s)) = Some ?r"
    unfolding panel_head[OF p] by (rule files_walk[where pv = NULL]) (use p in \<open>simp add: panel_def\<close>)
  have "\<forall>x \<in> set ?r. get_name (snd x) \<noteq> None" using panel_names[OF p] by fastforce
  then obtain es okk where "rows2 (s_getpwuid sys) (current_file (di d s)) bg ?r = Some (es, okk)" using rows2_Some by fast
  then show "ok (print_dir2 sys d bg s) (\<lambda>_ s'. \<exists>es. s' = emit es s)"
    by (auto simp: print_dir2_def print_dir_static2_def w Let_def)
qed

lemma print2_ok: "fm_ok s \<Longrightarrow> (\<And>es. fm_ok (emit es s) \<Longrightarrow> ok (f () (emit es s)) Q) \<Longrightarrow> ok (andthen (print_dir2 sys d bg s) f) Q"
  by (rule ok_andthen[OF print_dir2_keeps]) auto

lemma print2_end: "fm_ok s \<Longrightarrow> ok (print_dir2 sys d bg s) (\<lambda>_. fm_ok)"
  by (rule ok_mono[OF print_dir2_keeps]) auto

lemma static2_ok [simp]: "fm_ok (print_dir_static2 sys d s) = fm_ok s" "cd (print_dir_static2 sys d s) = cd s"
  by (simp_all add: print_dir_static2_def)

lemmas screen2_ok = print2_ok print2_end

lemma go_panel2_ok: "fm_ok s \<Longrightarrow> ok (go_panel2 sys d s) (\<lambda>_. fm_ok)"
  unfolding go_panel2_def by (rule print2_ok) (auto simp: Let_def split: option.splits intro!: print2_end)

lemma move2_ok:
  assumes "fm_ok s" "\<And>xs. panel (fils s) (di (cd s) s) xs \<Longrightarrow> p \<in> set xs"
  shows "ok (move2 sys p s) (\<lambda>_. fm_ok)"
proof -
  have "fm_ok (set_di (cd s) (\<lambda>i. i\<lparr>current_file := p\<rparr>) s)"
    by (rule fm_okE[OF assms(1), of "cd s"]) (use assms in \<open>auto simp: fm_ok_side[of _ "cd s"] panel_def heap_ok_def\<close>)
  then show ?thesis unfolding move2_def by (rule print2_end)
qed

lemma key_enter2_ok:
  assumes "sys_ok sys" "fm_ok s"
  shows "ok (key_enter2 sys s) (\<lambda>_. fm_ok)"
  unfolding key_enter2_def
proof (rule with_current_ok[OF assms(2)])
  fix f n assume f: "get_name f = Some n"
  let ?e = "case s_chdir sys n (world s) of None \<Rightarrow> Go () s
    | Some w \<Rightarrow> andthen (reload sys (s\<lparr>world := w\<rparr>)) (\<lambda>_ s. andthen (print_dir2 sys (cd s) 1 s) (\<lambda>_ s. Go () (print_dir_static2 sys (cd s) s)))"
  have "ok ?e (\<lambda>_. fm_ok)"
    using assms by (auto split: option.splits intro!: ok_andthen[OF reload_ok] screen2_ok)
  then show "ok (need (get_name f) (\<lambda>name. andthen (case s_chdir sys name (world s) of None \<Rightarrow> Go () s
       | Some w \<Rightarrow> andthen (reload sys (s\<lparr>world := w\<rparr>)) (\<lambda>_ s. andthen (print_dir2 sys (cd s) 1 s) (\<lambda>_ s. Go () (print_dir_static2 sys (cd s) s))))
     (\<lambda>_ s. with_current s (\<lambda>f. if is_reg f \<and> is_exec f then need (get_name f) (\<lambda>name.
         andthen (print_dir2 sys L 1 (emit (run_events (look3 sys) name) (s\<lparr>world := s_exec sys name (world s)\<rparr>)))
           (\<lambda>_ s. print_dir2 sys R 2 s)) else Go () s)))) (\<lambda>_. fm_ok)"
    unfolding f need_Some by (rule ok_andthen) (auto intro!: with_current_ok screen2_ok)
qed

lemma fm2_key_ok:
  assumes "sys_ok sys" "fm_ok s"
  shows "ok (fm2_key sys k s) (\<lambda>_. fm_ok)"
proof (cases k)
  case KEY_UP
  have "ok (with_current s (\<lambda>f. move2 sys (fil_prev f) s)) (\<lambda>_. fm_ok)" if "current_file (di (cd s) s) \<noteq> head_file (di (cd s) s)"
    by (rule with_current_ok[OF assms(2)], rule move2_ok[OF assms(2)]) (use that in \<open>auto simp: panel_def intro: neighbours(2)\<close>)
  then show ?thesis using assms(2) KEY_UP by simp
next
  case KEY_DOWN
  have "ok (with_current s (\<lambda>f. if fil_next f = NULL then Go () s else move2 sys (fil_next f) s)) (\<lambda>_. fm_ok)"
    by (rule with_current_ok[OF assms(2)]) (use assms(2) neighbours(1) in \<open>fastforce simp: panel_def intro!: move2_ok\<close>)
  then show ?thesis using KEY_DOWN by simp
next
  case KEY_HOME
  then show ?thesis using move2_ok[OF assms(2)] by (auto simp: panel_def)
next
  case KEY_END
  then show ?thesis using move2_ok[OF assms(2)] by (auto simp: panel_def)
qed (use assms in \<open>simp_all add: go_panel2_ok key_enter2_ok\<close>)

lemma fm2_keys_ok: "sys_ok sys \<Longrightarrow> fm_ok s \<Longrightarrow> ok (fm2_keys sys ks s) (\<lambda>_. fm_ok)"
  by (induction sys ks s rule: fm2_keys.induct) (auto intro: ok_andthen[OF fm2_key_ok])

text \<open>The third version is safe where the current one is.\<close>

theorem fm2_main_safe:
  assumes "sys_ok sys" "\<forall>n. mem_ok s n" "fils s = (\<lambda>_. None)"
  shows "ok (fm2_main sys home pwd ks s) (\<lambda>_. fm_ok)"
  unfolding fm2_main_def
  by (rule ok_andthen[OF init_core_ok[OF assms]]) (auto intro!: screen2_ok fm2_keys_ok[OF assms(1)])

end
