(* ===== verification/Time_Daemon.thy ===== *)
theory Time_Daemon
  imports C_Output Step_Systems
begin

text \<open>
  Two programs whose client learns a process id from a named pipe and then sends signals: \<^verbatim>\<open>src/daemon\<close>, which answers
  each with the date and the time through a second pipe, and \<^verbatim>\<open>src/named_pipes_&_signal\<close>, which prints a line. The processes
  are steps of a relation; one step is one system call of theirs, or the handling of one signal. Standard signals do
  not queue: one that is already pending is lost, and one that is not blocked ends the process.
\<close>

section \<open>Named pipes and signals\<close>

text \<open>\<open>rd_open\<close> and \<open>wr_open\<close>: a process has opened that end, or waits for the other end in \<^verbatim>\<open>open\<close>.\<close>

record 'a fifo =
  made :: bool
  rd_open :: bool
  wr_open :: bool
  queue :: "'a list"

definition no_fifo :: "'a fifo" where
  "no_fifo = \<lparr>made = False, rd_open = False, wr_open = False, queue = []\<rparr>"

record sigs =
  alive :: bool
  sig_mask :: "int set"
  sig_pend :: "int set"

definition kill :: "int \<Rightarrow> sigs \<Rightarrow> sigs" where
  "kill sig s = (if alive s \<and> sig \<in> sig_mask s then s\<lparr>sig_pend := insert sig (sig_pend s)\<rparr> else s\<lparr>alive := False\<rparr>)"

definition sigwait :: "int \<Rightarrow> sigs \<Rightarrow> sigs" where
  "sigwait sig s = s\<lparr>sig_pend := sig_pend s - {sig}\<rparr>"

section \<open>The daemon\<close>

record tm =
  tm_sec :: nat
  tm_min :: nat
  tm_hour :: nat
  tm_mday :: nat
  tm_mon :: nat
  tm_year :: nat

text \<open>What \<^verbatim>\<open>localtime\<close> returns, a leap second included.\<close>

definition tm_ok :: "tm \<Rightarrow> bool" where
  "tm_ok t = (tm_sec t \<le> 60 \<and> tm_min t < 60 \<and> tm_hour t < 24 \<and> 1 \<le> tm_mday t \<and> tm_mday t \<le> 31 \<and> tm_mon t < 12)"

text \<open>The formats \<^verbatim>\<open>%D\<close> and \<^verbatim>\<open>%T\<close> of \<^verbatim>\<open>strftime\<close>.\<close>

definition two_digits :: "nat \<Rightarrow> string" where
  "two_digits n = [char_of (48 + n div 10 mod 10), char_of (48 + n mod 10)]"

definition fmt_D :: "tm \<Rightarrow> string" where
  "fmt_D t = two_digits (tm_mon t + 1) @ ''/'' @ two_digits (tm_mday t) @ ''/'' @ two_digits (tm_year t mod 100)"

definition fmt_T :: "tm \<Rightarrow> string" where
  "fmt_T t = two_digits (tm_hour t) @ '':'' @ two_digits (tm_min t) @ '':'' @ two_digits (tm_sec t)"

definition stamp :: "tm \<Rightarrow> string" where
  "stamp t = fmt_D t @ '' '' @ fmt_T t"

text \<open>
  \<open>clock\<close> counts the calls of \<^verbatim>\<open>time\<close>, \<open>blocks\<close> the blocks allocated and not freed. The environment has the times the calls
  find, the number of blocks there is memory for, what a block is found to hold after it has been freed, and the pid.
\<close>

record dmn =
  clock :: nat
  blocks :: nat
  logged :: "string list"

record env =
  now :: "nat \<Rightarrow> tm"
  room :: nat
  stale :: "string \<Rightarrow> string"
  the_pid :: int

fun proceed :: "'e + 'a \<Rightarrow> ('a \<Rightarrow> 'e + 'b) \<Rightarrow> 'e + 'b" where
  "proceed (Inl e) f = Inl e"
| "proceed (Inr a) f = f a"

definition get_cur_dt :: "env \<Rightarrow> (tm \<Rightarrow> string) \<Rightarrow> dmn \<Rightarrow> event + string \<times> dmn" where
  "get_cur_dt e fmt d =
     (if room e \<le> blocks d then Inl (Perror ''malloc'')
      else Inr (fmt (now e (clock d)), d\<lparr>clock := Suc (clock d), blocks := Suc (blocks d)\<rparr>))"

text \<open>The text of the time is not freed.\<close>

definition sys_log :: "env \<Rightarrow> string \<Rightarrow> dmn \<Rightarrow> event + dmn" where
  "sys_log e msg d = proceed (get_cur_dt e (\<lambda>t. ''['' @ fmt_D t @ ''] ['' @ fmt_T t @ '']'') d)
     (\<lambda>(cur_dt, d). Inr (d\<lparr>logged := logged d @ [take 255 (ln (cur_dt @ '': '' @ msg))]\<rparr>))"

text \<open>The body of the loop: the signal is logged, and a request answered with 18 bytes. The last message is composed after the
  text of the time has been freed. The result is what has been written, and how the daemon goes on.\<close>

definition answer_request :: "env \<Rightarrow> dmn \<Rightarrow> string option \<times> (event + dmn)" where
  "answer_request e d = (case proceed (sys_log e ''Received a request'' d) (get_cur_dt e stamp) of
     Inl failed \<Rightarrow> (None, Inl failed)
   | Inr (cur_dt, d) \<Rightarrow> (Some (take 18 (cur_dt @ [CHR 0x00])),
       sys_log e (take 255 (''Send reply: '' @ stale e cur_dt)) (d\<lparr>blocks := blocks d - 1\<rparr>)))"

definition serve :: "env \<Rightarrow> int \<Rightarrow> dmn \<Rightarrow> string option \<times> (event + dmn)" where
  "serve e sig d = (case sys_log e (take 255 (''Received signal: '' @ dec_str (nat sig))) d of
     Inl failed \<Rightarrow> (None, Inl failed)
   | Inr d \<Rightarrow> if sig = 10 then answer_request e d else (None, Inr d))"

text \<open>From \<^verbatim>\<open>fork\<close> to the redirection of the output. With descriptor 0 closed, \<^verbatim>\<open>open\<close> returns it, and 0 is what the program
  takes for success.\<close>

datatype start = Exit int "event list" | Serve

definition daemon_start :: "int \<Rightarrow> int \<Rightarrow> int \<Rightarrow> int \<Rightarrow> start" where
  "daemon_start fork_rtn setsid_rtn chdir_rtn fd_log =
     (if fork_rtn = -1 then Exit 1 [Perror ''fork'']
      else if fork_rtn \<noteq> 0 then Exit 0 []
      else if setsid_rtn = -1 then Exit 1 [Perror ''chdir'']
      else if chdir_rtn = -1 then Exit 1 [Perror ''chdir'']
      else if fd_log \<noteq> 0 then Exit 1 [Perror ''open'']
      else Serve)"

section \<open>The daemon and its client\<close>

datatype dpc = Send_pid | Pid_opening | Make_dt | Dt_opening | Masking | Waiting

datatype cpc = Open_pid | Pid_connecting | Read_pid | Open_dt | Dt_connecting | Getchar | Read_dt | Done | Failed

record world =
  dpc :: dpc
  cpc :: cpc
  proc :: sigs
  pid_pipe :: "int fifo"
  dt_pipe :: "string fifo"
  dm :: dmn
  dmn_pid :: int
  cur_dt :: "string option"
  typed :: "int list"
  shown :: "string option list"

text \<open>\<^verbatim>\<open>mkfifo\<close> may find the pipe there already. A write end waits in \<^verbatim>\<open>open\<close> for a reader.\<close>

fun daemon_step :: "env \<Rightarrow> dpc \<Rightarrow> world \<Rightarrow> world option" where
  "daemon_step e Send_pid w = Some (w\<lparr>pid_pipe := (pid_pipe w)\<lparr>made := True, wr_open := True\<rparr>, dpc := Pid_opening\<rparr>)"
| "daemon_step e Pid_opening w = (if rd_open (pid_pipe w)
     then Some (w\<lparr>pid_pipe := (pid_pipe w)\<lparr>queue := queue (pid_pipe w) @ [the_pid e]\<rparr>, dpc := Make_dt\<rparr>) else None)"
| "daemon_step e Make_dt w = Some (w\<lparr>dt_pipe := (dt_pipe w)\<lparr>made := True, wr_open := True\<rparr>, dpc := Dt_opening\<rparr>)"
| "daemon_step e Dt_opening w = (if rd_open (dt_pipe w) then Some (w\<lparr>dpc := Masking\<rparr>) else None)"
| "daemon_step e Masking w = Some (w\<lparr>proc := (proc w)\<lparr>sig_mask := {10, 1}\<rparr>, dpc := Waiting\<rparr>)"
| "daemon_step e Waiting w = None"

definition handle :: "env \<Rightarrow> int \<Rightarrow> world \<Rightarrow> world" where
  "handle e sig w = (case serve e sig (dm w) of (reply, rest) \<Rightarrow>
     let w = w\<lparr>proc := sigwait sig (proc w)\<rparr>;
         w = (case reply of None \<Rightarrow> w | Some dt \<Rightarrow> w\<lparr>dt_pipe := (dt_pipe w)\<lparr>queue := queue (dt_pipe w) @ [dt]\<rparr>\<rparr>) in
     case rest of Inl _ \<Rightarrow> w\<lparr>proc := (proc w)\<lparr>alive := False\<rparr>\<rparr> | Inr d \<Rightarrow> w\<lparr>dm := d\<rparr>)"

text \<open>The client. At the end of its input, \<^verbatim>\<open>getchar\<close> returns a value other than 32 for ever. When the daemon has ended and the pipe
  is empty, \<^verbatim>\<open>read\<close> returns 0, and what is printed is what the buffer held before, \<open>None\<close> for the uninitialised one.\<close>

fun client_step :: "env \<Rightarrow> cpc \<Rightarrow> world \<Rightarrow> world option" where
  "client_step e Open_pid w = Some (if made (pid_pipe w)
     then w\<lparr>pid_pipe := (pid_pipe w)\<lparr>rd_open := True\<rparr>, cpc := Pid_connecting\<rparr> else w\<lparr>cpc := Failed\<rparr>)"
| "client_step e Pid_connecting w = (if wr_open (pid_pipe w) then Some (w\<lparr>cpc := Read_pid\<rparr>) else None)"
| "client_step e Read_pid w = (case queue (pid_pipe w) of [] \<Rightarrow> None
     | p # ps \<Rightarrow> Some (w\<lparr>dmn_pid := p, pid_pipe := (pid_pipe w)\<lparr>queue := ps\<rparr>, cpc := Open_dt\<rparr>))"
| "client_step e Open_dt w = Some (if made (dt_pipe w)
     then w\<lparr>dt_pipe := (dt_pipe w)\<lparr>rd_open := True\<rparr>, cpc := Dt_connecting\<rparr> else w\<lparr>cpc := Failed\<rparr>)"
| "client_step e Dt_connecting w = (if wr_open (dt_pipe w) then Some (w\<lparr>cpc := Getchar\<rparr>) else None)"
| "client_step e Getchar w = (case typed w of [] \<Rightarrow> Some w
     | ch # cs \<Rightarrow> let w = w\<lparr>typed := cs\<rparr> in Some (
         if ch = 32 then w\<lparr>pid_pipe := (pid_pipe w)\<lparr>made := False\<rparr>, cpc := Done\<rparr>
         else if ch = 10 then w\<lparr>proc := (if dmn_pid w = the_pid e then kill 10 (proc w) else proc w), cpc := Read_dt\<rparr>
         else w))"
| "client_step e Read_dt w = (case queue (dt_pipe w) of
       r # rs \<Rightarrow> let text = takeWhile (\<lambda>c. c \<noteq> CHR 0x00) r in
         Some (w\<lparr>dt_pipe := (dt_pipe w)\<lparr>queue := rs\<rparr>, cur_dt := Some text, shown := shown w @ [Some text], cpc := Getchar\<rparr>)
     | [] \<Rightarrow> if alive (proc w) then None else Some (w\<lparr>shown := shown w @ [cur_dt w], cpc := Getchar\<rparr>))"
| "client_step e Done w = None"
| "client_step e Failed w = None"

text \<open>Anyone may send SIGHUP, which the daemon logs.\<close>

inductive tstep :: "env \<Rightarrow> world \<Rightarrow> world \<Rightarrow> bool" for e where
  daemon: "alive (proc w) \<Longrightarrow> daemon_step e (dpc w) w = Some w' \<Longrightarrow> tstep e w w'"
| signal: "alive (proc w) \<Longrightarrow> dpc w = Waiting \<Longrightarrow> sig \<in> sig_pend (proc w) \<Longrightarrow> tstep e w (handle e sig w)"
| client: "client_step e (cpc w) w = Some w' \<Longrightarrow> tstep e w w'"
| hangup: "tstep e w (w\<lparr>proc := kill 1 (proc w)\<rparr>)"

definition new_proc :: sigs where
  "new_proc = \<lparr>alive = True, sig_mask = {}, sig_pend = {}\<rparr>"

definition time_start :: "int list \<Rightarrow> world" where
  "time_start cs = \<lparr>dpc = Send_pid, cpc = Open_pid, proc = new_proc, pid_pipe = no_fifo, dt_pipe = no_fifo,
     dm = \<lparr>clock = 0, blocks = 0, logged = []\<rparr>, dmn_pid = 0, cur_dt = None, typed = cs, shown = []\<rparr>"

section \<open>Serving a signal\<close>

definition untext :: "string \<Rightarrow> string" where
  "untext r = takeWhile (\<lambda>c. c \<noteq> CHR 0x00) r"

lemma stamp_length [simp]: "length (stamp t) = 17"
  by (simp add: stamp_def fmt_D_def fmt_T_def two_digits_def)

lemma digit_not_nul: "n < 10 \<Longrightarrow> char_of (48 + n) \<noteq> CHR 0x00" for n :: nat
  by (simp add: char_of_eq_iff take_bit_eq_mod)

lemma two_digits_not_nul: "CHR 0x00 \<notin> set (two_digits n)"
proof -
  have "n div 10 mod 10 < 10" "n mod 10 < 10" by simp_all
  from this[THEN digit_not_nul] show ?thesis unfolding two_digits_def list.set by (metis empty_iff insert_iff)
qed

lemma untext_stamp [simp]: "untext (stamp t @ [CHR 0x00]) = stamp t"
proof -
  have "CHR 0x00 \<notin> set (stamp t)" using two_digits_not_nul by (simp add: stamp_def fmt_D_def fmt_T_def)
  then show ?thesis by (auto simp: untext_def takeWhile_append)
qed

lemma proceed_Inr: "(proceed x f = Inr b) = (\<exists>a. x = Inr a \<and> f a = Inr b)"
  by (cases x) auto

lemma get_cur_dt_Inr: "(get_cur_dt e fmt d = Inr (s, d')) = (blocks d < room e \<and> s = fmt (now e (clock d)) \<and>
    d' = d\<lparr>clock := Suc (clock d), blocks := Suc (blocks d)\<rparr>)"
  by (auto simp: get_cur_dt_def)

lemma sys_log_Inr: "sys_log e msg d = Inr d' \<Longrightarrow> blocks d < room e \<and> clock d' = Suc (clock d) \<and> blocks d' = Suc (blocks d)"
  by (auto simp: sys_log_def proceed_Inr get_cur_dt_Inr)

lemma serve_other:
  assumes "serve e sig d = (None, Inr d')"
  shows "sig \<noteq> 10" "clock d' = Suc (clock d)" "blocks d' = Suc (blocks d)" "blocks d' \<le> room e"
  using assms by (auto simp: serve_def answer_request_def dest!: sys_log_Inr split: if_splits sum.splits)

lemma serve_request:
  assumes "serve e sig d = (Some r, Inr d')"
  shows "sig = 10" "clock d' = clock d + 4" "blocks d' = blocks d + 3" "blocks d' \<le> room e" "r = stamp (now e (clock d + 2)) @ [CHR 0x00]"
proof -
  have s: "sig = 10" using assms by (auto simp: serve_def split: if_splits sum.splits)
  obtain d1 where 1: "sys_log e (take 255 (''Received signal: '' @ dec_str (nat sig))) d = Inr d1" "answer_request e d1 = (Some r, Inr d')"
    using assms s by (auto simp: serve_def split: sum.splits if_splits)
  obtain d2 m where 2: "sys_log e ''Received a request'' d1 = Inr d2" "blocks d2 < room e" "r = take 18 (stamp (now e (clock d2)) @ [CHR 0x00])"
    "sys_log e m (d2\<lparr>clock := Suc (clock d2)\<rparr>) = Inr d'"
    using 1(2) by (auto simp: answer_request_def proceed_Inr get_cur_dt_Inr split: sum.splits)
  show "sig = 10" "clock d' = clock d + 4" "blocks d' = blocks d + 3" "blocks d' \<le> room e" "r = stamp (now e (clock d + 2)) @ [CHR 0x00]"
    using s 1(1) 2 by (auto dest!: sys_log_Inr)
qed

lemma sys_log_room: "blocks d < room e \<Longrightarrow> \<exists>d'. sys_log e msg d = Inr d'"
  by (simp add: sys_log_def get_cur_dt_def)

lemma serve_room:
  assumes "blocks d + 4 \<le> room e"
  shows "\<exists>d'. serve e 10 d = (Some (stamp (now e (clock d + 2)) @ [CHR 0x00]), Inr d')"
proof -
  obtain d1 where 1: "sys_log e (take 255 (''Received signal: '' @ dec_str (nat 10))) d = Inr d1" using sys_log_room[of d e] assms by fastforce
  then have b: "blocks d1 = Suc (blocks d)" "clock d1 = Suc (clock d)" by (auto dest: sys_log_Inr)
  obtain d2 where 2: "sys_log e ''Received a request'' d1 = Inr d2" using sys_log_room[of d1 e] assms b by fastforce
  then have c: "blocks d2 = blocks d + 2" "clock d2 = clock d + 2" using b by (auto dest: sys_log_Inr)
  let ?d = "d2\<lparr>clock := Suc (clock d2), blocks := blocks d2\<rparr>"
  obtain d3 where 3: "sys_log e (take 255 (''Send reply: '' @ stale e (stamp (now e (clock d2))))) ?d = Inr d3" using sys_log_room[of ?d e] assms c by fastforce
  have "get_cur_dt e stamp d2 = Inr (stamp (now e (clock d2)), d2\<lparr>clock := Suc (clock d2), blocks := Suc (blocks d2)\<rparr>)"
    using assms c by (simp add: get_cur_dt_def)
  then show ?thesis using 1 2 3 c by (simp add: serve_def answer_request_def)
qed

section \<open>Reachable states\<close>

text \<open>While the daemon lives: what has been opened and masked, at most one request is outstanding, and every text in the pipe
  or shown is the time of a call of its own.\<close>

definition replies :: "world \<Rightarrow> string option list" where
  "replies w = shown w @ map (Some \<circ> untext) (queue (dt_pipe w))"

definition opened_ok :: "env \<Rightarrow> world \<Rightarrow> bool" where
  "opened_ok e w \<longleftrightarrow> sig_mask (proc w) = (if dpc w = Waiting then {10, 1} else {}) \<and> sig_pend (proc w) \<subseteq> sig_mask (proc w) \<and>
     (\<forall>p \<in> set (queue (pid_pipe w)). p = the_pid e) \<and> (cpc w \<in> {Open_dt, Dt_connecting, Getchar, Read_dt} \<longrightarrow> dmn_pid w = the_pid e)"

definition asked_ok :: "world \<Rightarrow> bool" where
  "asked_ok w \<longleftrightarrow> (if cpc w = Read_dt
     then (10 \<in> sig_pend (proc w) \<and> queue (dt_pipe w) = []) \<or> (10 \<notin> sig_pend (proc w) \<and> (\<exists>r. queue (dt_pipe w) = [r]))
     else 10 \<notin> sig_pend (proc w) \<and> queue (dt_pipe w) = [])"

definition replies_ok :: "env \<Rightarrow> world \<Rightarrow> bool" where
  "replies_ok e w \<longleftrightarrow> (\<exists>ts. sorted_wrt (<) ts \<and> (\<forall>k \<in> set ts. k < clock (dm w)) \<and> replies w = map (\<lambda>k. Some (stamp (now e k))) ts) \<and>
     3 * length (replies w) \<le> blocks (dm w) \<and> blocks (dm w) \<le> room e \<and> (\<forall>r \<in> set (queue (dt_pipe w)). length r = 18)"

lemmas time_inv_defs = opened_ok_def asked_ok_def replies_ok_def replies_def

definition time_inv :: "env \<Rightarrow> world \<Rightarrow> bool" where
  "time_inv e w \<longleftrightarrow> alive (proc w) \<longrightarrow> opened_ok e w \<and> asked_ok w \<and> replies_ok e w"

lemma replies_ok_keep: "replies_ok e w \<Longrightarrow> replies w' = replies w \<Longrightarrow> dm w' = dm w \<Longrightarrow>
    set (queue (dt_pipe w')) \<subseteq> set (queue (dt_pipe w)) \<Longrightarrow> replies_ok e w'"
  unfolding replies_ok_def by auto

lemma daemon_step_frame:
  assumes "daemon_step e (dpc w) w = Some w'"
  shows "dm w' = dm w" "replies w' = replies w" "queue (dt_pipe w') = queue (dt_pipe w)" "cpc w' = cpc w" "dmn_pid w' = dmn_pid w"
    "sig_pend (proc w') = sig_pend (proc w)" "alive (proc w') = alive (proc w)" "dpc w \<noteq> Waiting"
    "sig_mask (proc w') = (if dpc w' = Waiting then {10, 1} else sig_mask (proc w))"
    "set (queue (pid_pipe w')) \<subseteq> insert (the_pid e) (set (queue (pid_pipe w)))"
  using assms by (cases "dpc w"; auto simp: replies_def split: if_splits)+

lemma daemon_step_inv:
  assumes "daemon_step e (dpc w) w = Some w'" "time_inv e w"
  shows "time_inv e w'"
proof -
  note f = daemon_step_frame[OF assms(1)]
  have "replies_ok e w \<Longrightarrow> replies_ok e w'" using replies_ok_keep[of e w w'] f(1-3) by simp
  moreover have "opened_ok e w \<Longrightarrow> opened_ok e w'" using f(10) unfolding opened_ok_def f(4-7,9) by (auto simp: f(8))
  moreover have "asked_ok w' = asked_ok w" unfolding asked_ok_def f(3,4,6) ..
  ultimately show ?thesis using assms(2) f(7) by (auto simp: time_inv_def)
qed

lemma kill_alive: "alive (kill sig s) = (alive s \<and> sig \<in> sig_mask s)" "alive (kill sig s) \<Longrightarrow> sig_mask (kill sig s) = sig_mask s"
  "alive (kill sig s) \<Longrightarrow> sig_pend (kill sig s) = insert sig (sig_pend s)"
  by (auto simp: kill_def split: if_splits)

lemma client_replies_ok:
  assumes "client_step e (cpc w) w = Some w'" "alive (proc w')" "replies_ok e w"
  shows "replies_ok e w'"
proof (rule replies_ok_keep[OF assms(3)])
  show "replies w' = replies w" "dm w' = dm w" "set (queue (dt_pipe w')) \<subseteq> set (queue (dt_pipe w))"
    using assms(1,2) by (cases "cpc w"; auto simp: replies_def untext_def Let_def split: if_splits list.splits)+
qed

lemma client_opened_ok:
  assumes "client_step e (cpc w) w = Some w'" "alive (proc w')" "opened_ok e w"
  shows "opened_ok e w'"
  using assms unfolding opened_ok_def by (cases "cpc w"; auto simp: Let_def kill_alive split: if_splits list.splits)

lemma client_asked_ok:
  assumes "client_step e (cpc w) w = Some w'" "alive (proc w')" "opened_ok e w" "asked_ok w"
  shows "asked_ok w'"
  using assms unfolding asked_ok_def opened_ok_def by (cases "cpc w"; auto simp: Let_def kill_alive split: if_splits list.splits)

lemma client_alive: "client_step e (cpc w) w = Some w' \<Longrightarrow> alive (proc w') \<Longrightarrow> alive (proc w)"
  by (cases "cpc w") (auto simp: Let_def kill_def split: if_splits list.splits)

lemma client_step_inv:
  assumes "client_step e (cpc w) w = Some w'" "time_inv e w"
  shows "time_inv e w'"
  using assms(2) client_alive[OF assms(1)] client_replies_ok[OF assms(1)] client_opened_ok[OF assms(1)] client_asked_ok[OF assms(1)]
  unfolding time_inv_def by blast

lemma sorted_wrt_less_snoc: "sorted_wrt (<) ts \<Longrightarrow> \<forall>k \<in> set ts. k < n \<Longrightarrow> n \<le> m \<Longrightarrow> sorted_wrt (<) (ts @ [m])" for m :: nat
  by (auto simp: sorted_wrt_append)

lemma handle_inv:
  assumes "dpc w = Waiting" "sig \<in> sig_pend (proc w)" "alive (proc w)" "time_inv e w"
  shows "time_inv e (handle e sig w)"
proof (cases "snd (serve e sig (dm w))")
  case (Inl v)
  then show ?thesis by (auto simp: handle_def time_inv_def Let_def split: prod.splits option.splits)
next
  case (Inr d)
  define r where "r = fst (serve e sig (dm w))"
  have Inr: "serve e sig (dm w) = (r, Inr d)" using Inr by (simp add: r_def prod_eq_iff)
  obtain ts where ts: "sorted_wrt (<) ts" "\<forall>k \<in> set ts. k < clock (dm w)" "replies w = map (\<lambda>k. Some (stamp (now e k))) ts"
    using assms(3,4) by (auto simp: time_inv_def replies_ok_def)
  show ?thesis
  proof (cases r)
    case None
    have s: "sig \<noteq> 10" "clock d = Suc (clock (dm w))" "blocks d = Suc (blocks (dm w))" "blocks d \<le> room e"
      using serve_other[of e sig "dm w" d] Inr None by auto
    have "\<forall>k \<in> set ts. k < clock d" using ts(2) s(2) by auto
    then have "\<exists>ts. sorted_wrt (<) ts \<and> (\<forall>k \<in> set ts. k < clock d) \<and> replies w = map (\<lambda>k. Some (stamp (now e k))) ts"
      using ts by blast
    then show ?thesis using assms Inr None s
      by (auto simp: handle_def Let_def sigwait_def time_inv_def time_inv_defs)
  next
    case (Some x)
    have s: "sig = 10" "clock d = clock (dm w) + 4" "blocks d = blocks (dm w) + 3" "blocks d \<le> room e"
      "x = stamp (now e (clock (dm w) + 2)) @ [CHR 0x00]"
      using serve_request[of e sig "dm w" x d] Inr Some by auto
    let ?ts = "ts @ [clock (dm w) + 2]"
    have q: "queue (dt_pipe w) = []" "cpc w = Read_dt" using assms s(1) by (auto simp: time_inv_def asked_ok_def split: if_splits)
    have "\<exists>ts. sorted_wrt (<) ts \<and> (\<forall>k \<in> set ts. k < clock d) \<and> shown w @ [Some (stamp (now e (clock (dm w) + 2)))] = map (\<lambda>k. Some (stamp (now e k))) ts"
      by (rule exI[of _ ?ts]) (use ts s(2) q in \<open>auto simp: replies_def intro!: sorted_wrt_less_snoc[of _ "clock (dm w)"]\<close>)
    then show ?thesis using assms Inr Some s q
      by (auto simp: handle_def Let_def sigwait_def time_inv_def time_inv_defs)
  qed
qed

lemma tstep_inv: "tstep e w w' \<Longrightarrow> time_inv e w \<Longrightarrow> time_inv e w'"
proof (induction rule: tstep.induct)
  case (hangup w)
  then show ?case by (auto simp: time_inv_def time_inv_defs kill_alive)
qed (auto intro: daemon_step_inv handle_inv client_step_inv)

lemma time_start_inv: "time_inv e (time_start cs)"
  by (simp add: time_inv_def time_inv_defs time_start_def new_proc_def no_fifo_def)

interpretation time: step_invariant "tstep e" "time_inv e" for e
  by unfold_locales (rule tstep_inv)

lemmas reach_inv = time.reach[OF _ time_start_inv]

section \<open>Answers\<close>

lemma map_prefix: "xs @ ys = map f ts \<Longrightarrow> \<exists>us vs. ts = us @ vs \<and> xs = map f us"
  by (auto simp: append_eq_map_conv)

text \<open>C22: What the client shows. However the steps of the daemon, of its client and of anyone who sends SIGHUP interleave, while the
  daemon lives every line shows the date and the time of a call of its own, in the order of the calls, complete and terminated;
  each answer has cost the daemon three blocks of its memory, so it answers at most a third as often as there are blocks.\<close>
theorem time_answers:
  assumes "(tstep e)\<^sup>*\<^sup>* (time_start cs) w" "alive (proc w)"
  shows "(\<exists>ts. sorted_wrt (<) ts \<and> (\<forall>k \<in> set ts. k < clock (dm w)) \<and> shown w = map (\<lambda>k. Some (stamp (now e k))) ts) \<and>
    3 * length (shown w) \<le> room e"
proof
  have i: "replies_ok e w" using reach_inv[OF assms(1)] assms(2) by (simp add: time_inv_def)
  then show "3 * length (shown w) \<le> room e" by (simp add: replies_ok_def replies_def)
  obtain ts where ts: "sorted_wrt (<) ts" "\<forall>k \<in> set ts. k < clock (dm w)" "replies w = map (\<lambda>k. Some (stamp (now e k))) ts"
    using i by (auto simp: replies_ok_def)
  then obtain us vs where "ts = us @ vs" "shown w = map (\<lambda>k. Some (stamp (now e k))) us" using map_prefix unfolding replies_def by blast
  then show "\<exists>ts. sorted_wrt (<) ts \<and> (\<forall>k \<in> set ts. k < clock (dm w)) \<and> shown w = map (\<lambda>k. Some (stamp (now e k))) ts"
    using ts by (auto simp: sorted_wrt_append)
qed

definition noon :: tm where
  "noon = \<lparr>tm_sec = 0, tm_min = 0, tm_hour = 12, tm_mday = 11, tm_mon = 6, tm_year = 117\<rparr>"

definition sample_env :: env where
  "sample_env = \<lparr>now = (\<lambda>_. noon), room = 100, stale = (\<lambda>_. []), the_pid = 4711\<rparr>"

theorem time_answers_witness: "3 * length (shown (time_start [10, 32])) \<le> room sample_env"
  using time_answers[OF rtranclp.rtrancl_refl, of "[10, 32]" sample_env] by (simp add: time_start_def new_proc_def)

lemma reading_step:
  assumes "alive (proc w)" "cpc w = Read_dt" "queue (dt_pipe w) = [r]" "untext r = x"
  shows "\<exists>w'. tstep e w w' \<and> alive (proc w') \<and> cpc w' = Getchar \<and> shown w' = shown w @ [Some x]"
  by (rule exI, rule conjI, rule tstep.client) (use assms in \<open>auto simp: untext_def\<close>)

text \<open>C25: No request is lost. In every reachable state in which the client waits for an answer of a daemon that lives and has memory
  for it, the next steps bring the answer: it is the date and time of one of the daemon's calls.\<close>
theorem time_request_answered:
  assumes "(tstep e)\<^sup>*\<^sup>* (time_start cs) w" "alive (proc w)" "cpc w = Read_dt" "blocks (dm w) + 4 \<le> room e"
  shows "\<exists>w' k. (tstep e)\<^sup>*\<^sup>* w w' \<and> alive (proc w') \<and> cpc w' = Getchar \<and> shown w' = shown w @ [Some (stamp (now e k))]"
proof -
  have i: "opened_ok e w" "asked_ok w" "replies_ok e w" using reach_inv[OF assms(1)] assms(2) by (simp_all add: time_inv_def)
  show ?thesis
  proof (cases "10 \<in> sig_pend (proc w)")
    case True
    then have w: "dpc w = Waiting" "queue (dt_pipe w) = []" using i assms(3) by (auto simp: opened_ok_def asked_ok_def split: if_splits)
    obtain d where d: "serve e 10 (dm w) = (Some (stamp (now e (clock (dm w) + 2)) @ [CHR 0x00]), Inr d)" using serve_room[OF assms(4)] by blast
    let ?w = "handle e 10 w"
    have h: "alive (proc ?w)" "cpc ?w = Read_dt" "queue (dt_pipe ?w) = [stamp (now e (clock (dm w) + 2)) @ [CHR 0x00]]" "shown ?w = shown w"
      using d w assms(2,3) by (simp_all add: handle_def Let_def sigwait_def)
    have "tstep e w ?w" by (rule tstep.signal) (use assms(2) w True in auto)
    then show ?thesis using reading_step[OF h(1-3) untext_stamp, of e] h(4) by (metis converse_rtranclp_into_rtranclp r_into_rtranclp)
  next
    case False
    then obtain r where r: "queue (dt_pipe w) = [r]" using i(2) assms(3) by (auto simp: asked_ok_def)
    then have "Some (untext r) \<in> set (replies w)" by (simp add: replies_def)
    then obtain k where "untext r = stamp (now e k)" using i(3) by (auto simp: replies_ok_def)
    then show ?thesis using reading_step[OF assms(2,3) r] by blast
  qed
qed

text \<open>The steps of a run in which nobody is early: the daemon waits for signals before the client reads its first key.\<close>

definition ready_world :: "env \<Rightarrow> int list \<Rightarrow> world" where
  "ready_world e cs = (time_start cs)\<lparr>dpc := Waiting, cpc := Getchar, proc := \<lparr>alive = True, sig_mask = {10, 1}, sig_pend = {}\<rparr>,
     pid_pipe := \<lparr>made = True, rd_open = True, wr_open = True, queue = []\<rparr>, dt_pipe := \<lparr>made = True, rd_open = True, wr_open = True, queue = []\<rparr>,
     dmn_pid := the_pid e\<rparr>"

text \<open>A run given by who moves.\<close>

datatype actor = Daemon | Signal int | Client

fun run :: "env \<Rightarrow> actor list \<Rightarrow> world \<Rightarrow> world option" where
  "run e [] w = Some w"
| "run e (Daemon # as) w = (if alive (proc w) then Option.bind (daemon_step e (dpc w) w) (run e as) else None)"
| "run e (Signal sig # as) w = (if alive (proc w) \<and> dpc w = Waiting \<and> sig \<in> sig_pend (proc w) then run e as (handle e sig w) else None)"
| "run e (Client # as) w = Option.bind (client_step e (cpc w) w) (run e as)"

lemma run_steps: "run e as w = Some w' \<Longrightarrow> (tstep e)\<^sup>*\<^sup>* w w'"
  by (induction e as w rule: run.induct)
    (auto split: if_splits bind_splits intro: tstep.intros converse_rtranclp_into_rtranclp)

definition on_time :: "actor list" where
  "on_time = [Daemon, Client, Daemon, Client, Daemon, Client, Client, Daemon, Daemon, Client]"

definition too_early :: "actor list" where
  "too_early = [Daemon, Client, Daemon, Client, Daemon, Client, Client, Client, Client, Client]"

lemmas start_defs = time_start_def new_proc_def no_fifo_def

lemma ready_reached: "(tstep e)\<^sup>*\<^sup>* (time_start cs) (ready_world e cs)"
  by (rule run_steps[of e on_time]) (simp add: on_time_def start_defs ready_world_def)

theorem time_request_answered_witness: "\<exists>w' k. (tstep sample_env)\<^sup>*\<^sup>* (time_start [10, 32]) w' \<and> shown w' = [Some (stamp (now sample_env k))]"
proof -
  let ?w = "(ready_world sample_env [32])\<lparr>cpc := Read_dt, proc := \<lparr>alive = True, sig_mask = {10, 1}, sig_pend = {10}\<rparr>\<rparr>"
  have r: "(tstep sample_env)\<^sup>*\<^sup>* (time_start [10, 32]) ?w"
    by (rule run_steps[of _ "on_time @ [Client]"]) (simp add: on_time_def start_defs ready_world_def kill_def)
  show ?thesis using time_request_answered[OF r] rtranclp_trans[OF r]
    by (auto simp: ready_world_def start_defs sample_env_def) 
qed

text \<open>A client that is early kills the daemon. The daemon opens the pipe before it blocks the signals, and the client continues when the
  pipe is open: its first request may end the daemon, and then it prints its uninitialised buffer.\<close>
theorem time_daemon_race:
  "\<exists>w. (tstep e)\<^sup>*\<^sup>* (time_start (10 # cs)) w \<and> \<not> alive (proc w) \<and> shown w = [None] \<and> cpc w = Getchar"
  by (rule exI, rule conjI, rule run_steps[of e too_early], simp add: too_early_def start_defs kill_def) simp

section \<open>The server that counts signals\<close>

text \<open>\<^verbatim>\<open>src/named_pipes_&_signal\<close>: the server prints a line for each signal it receives, the client only sends. \<open>sent\<close> and \<open>printed\<close>
  count the signals and the lines. Unlike the daemon, the server does not accept a pipe that is already there.\<close>

datatype spc = Mkfifo | Pid_wait | Mask | Sigwait | Ended

record nworld =
  spc :: spc
  ncl :: cpc
  srv :: sigs
  npipe :: "int fifo"
  srv_pid :: int
  keys :: "int list"
  sent :: nat
  printed :: nat

fun server_step :: "int \<Rightarrow> spc \<Rightarrow> nworld \<Rightarrow> nworld option" where
  "server_step pid Mkfifo w = Some (if made (npipe w) then w\<lparr>srv := (srv w)\<lparr>alive := False\<rparr>, spc := Ended\<rparr>
     else w\<lparr>npipe := (npipe w)\<lparr>made := True, wr_open := True\<rparr>, spc := Pid_wait\<rparr>)"
| "server_step pid Pid_wait w = (if rd_open (npipe w)
     then Some (w\<lparr>npipe := (npipe w)\<lparr>queue := queue (npipe w) @ [pid]\<rparr>, spc := Mask\<rparr>) else None)"
| "server_step pid Mask w = Some (w\<lparr>srv := (srv w)\<lparr>sig_mask := {10}\<rparr>, spc := Sigwait\<rparr>)"
| "server_step pid Sigwait w = (if 10 \<in> sig_pend (srv w)
     then Some (w\<lparr>srv := sigwait 10 (srv w), printed := Suc (printed w)\<rparr>) else None)"
| "server_step pid Ended w = None"

fun sender_step :: "int \<Rightarrow> cpc \<Rightarrow> nworld \<Rightarrow> nworld option" where
  "sender_step pid Open_pid w = Some (if made (npipe w)
     then w\<lparr>npipe := (npipe w)\<lparr>rd_open := True\<rparr>, ncl := Pid_connecting\<rparr> else w\<lparr>ncl := Failed\<rparr>)"
| "sender_step pid Pid_connecting w = (if wr_open (npipe w) then Some (w\<lparr>ncl := Read_pid\<rparr>) else None)"
| "sender_step pid Read_pid w = (case queue (npipe w) of [] \<Rightarrow> None
     | p # ps \<Rightarrow> Some (w\<lparr>srv_pid := p, npipe := (npipe w)\<lparr>queue := ps\<rparr>, ncl := Getchar\<rparr>))"
| "sender_step pid Getchar w = (case keys w of [] \<Rightarrow> Some w
     | ch # cs \<Rightarrow> let w = w\<lparr>keys := cs\<rparr> in Some (
         if ch = 32 then w\<lparr>npipe := (npipe w)\<lparr>made := False\<rparr>, ncl := Done\<rparr>
         else if ch = 10 then w\<lparr>srv := (if srv_pid w = pid then kill 10 (srv w) else srv w), sent := Suc (sent w)\<rparr>
         else w))"
| "sender_step pid pc w = None"

inductive nstep :: "int \<Rightarrow> nworld \<Rightarrow> nworld \<Rightarrow> bool" for pid where
  server: "alive (srv w) \<Longrightarrow> server_step pid (spc w) w = Some w' \<Longrightarrow> nstep pid w w'"
| sender: "sender_step pid (ncl w) w = Some w' \<Longrightarrow> nstep pid w w'"

definition sig_start :: "bool \<Rightarrow> int list \<Rightarrow> nworld" where
  "sig_start left_over cs = \<lparr>spc = Mkfifo, ncl = Open_pid, srv = new_proc, npipe = no_fifo\<lparr>made := left_over\<rparr>, srv_pid = 0,
     keys = cs, sent = 0, printed = 0\<rparr>"

text \<open>Lines and pending signals account for the signals sent: none is printed twice, and after at least one, a line is printed or due.\<close>

definition counts_ok :: "bool \<Rightarrow> sigs \<Rightarrow> nat \<Rightarrow> nat \<Rightarrow> bool" where
  "counts_ok waiting s n k \<longleftrightarrow> sig_mask s = (if waiting then {10} else {}) \<and> sig_pend s \<subseteq> sig_mask s \<and>
     n + (if 10 \<in> sig_pend s then 1 else 0) \<le> k \<and> (0 < k \<longrightarrow> 0 < n \<or> 10 \<in> sig_pend s)"

definition sig_inv :: "int \<Rightarrow> nworld \<Rightarrow> bool" where
  "sig_inv pid w \<longleftrightarrow> (\<forall>p \<in> set (queue (npipe w)). p = pid) \<and> (ncl w = Getchar \<longrightarrow> srv_pid w = pid) \<and>
     (alive (srv w) \<longrightarrow> counts_ok (spc w = Sigwait) (srv w) (printed w) (sent w))"

lemma counts_ok_wait: "counts_ok True s n k \<Longrightarrow> 10 \<in> sig_pend s \<Longrightarrow> counts_ok True (sigwait 10 s) (Suc n) k"
  by (auto simp: counts_ok_def sigwait_def)

lemma counts_ok_mask: "counts_ok False s n k \<Longrightarrow> counts_ok True (s\<lparr>sig_mask := {10}\<rparr>) n k"
  by (auto simp: counts_ok_def)

lemma counts_ok_kill: "counts_ok b s n k \<Longrightarrow> alive s \<Longrightarrow> 10 \<in> sig_mask s \<Longrightarrow> counts_ok b (kill 10 s) n (Suc k)"
  by (cases b) (auto simp: counts_ok_def kill_def split: if_splits)

lemma nstep_inv: "nstep pid w w' \<Longrightarrow> sig_inv pid w \<Longrightarrow> sig_inv pid w'"
proof (induction rule: nstep.induct)
  case (server w w')
  then show ?case by (cases "spc w") (auto simp: sig_inv_def intro: counts_ok_wait counts_ok_mask split: if_splits)
next
  case (sender w w')
  then show ?case by (cases "ncl w") (auto simp: sig_inv_def Let_def kill_alive(1) intro: counts_ok_kill split: if_splits list.splits)
qed

interpretation sigs: step_invariant "nstep pid" "sig_inv pid" for pid
  by unfold_locales (rule nstep_inv)

lemma sig_start_inv: "sig_inv pid (sig_start left_over cs)"
  by (simp add: sig_inv_def counts_ok_def sig_start_def start_defs)

lemmas sig_reach = sigs.reach[OF _ sig_start_inv]

text \<open>The server prints at most one line for a signal, and while it lives at least one is printed, or still to be printed, when one
  has been sent; signals sent while one is pending are merged with it.\<close>
theorem signals_printed:
  assumes "(nstep pid)\<^sup>*\<^sup>* (sig_start left_over cs) w" "alive (srv w)"
  shows "printed w + (if 10 \<in> sig_pend (srv w) then 1 else 0) \<le> sent w \<and> (0 < sent w \<longrightarrow> 0 < printed w \<or> 10 \<in> sig_pend (srv w))"
  using sig_reach[OF assms(1)] assms(2) by (simp add: sig_inv_def counts_ok_def)

theorem signals_printed_witness: "printed (sig_start False [10]) \<le> sent (sig_start False [10])"
  using signals_printed[OF rtranclp.rtrancl_refl, of False "[10]"] by (simp add: sig_start_def new_proc_def)

section \<open>The types of the pipes\<close>

lemma untext_record:
  assumes "length r = 18" "untext r = stamp t"
  shows "r = stamp t @ [CHR 0x00]"
proof -
  have l: "length (takeWhile (\<lambda>c. c \<noteq> CHR 0x00) r) = 17" using assms(2) by (simp add: untext_def)
  then have "r ! 17 = CHR 0x00" using nth_length_takeWhile[of "\<lambda>c. c \<noteq> CHR 0x00" r] assms(1) by simp
  moreover have "take 17 r = stamp t" using takeWhile_eq_take[of "\<lambda>c. c \<noteq> CHR 0x00" r] l assms(2) by (simp add: untext_def)
  ultimately show ?thesis using take_Suc_conv_app_nth[of 17 r] assms(1) by simp
qed

text \<open>C23: The untyped pipes carry what their readers take them to hold. In every reachable state in which the daemon lives, the first pipe
  holds nothing but its process id, and the second is empty or holds one record of exactly the 18 bytes the client reads: the date and
  time of one of the daemon's calls and a zero, which ends the string that the client prints. The process the client signals is the
  daemon, and the signals that are pending are among the two it blocks and handles.\<close>
theorem time_pipes_typed:
  assumes "(tstep e)\<^sup>*\<^sup>* (time_start cs) w" "alive (proc w)"
  shows "set (queue (pid_pipe w)) \<subseteq> {the_pid e} \<and> (cpc w \<in> {Getchar, Read_dt} \<longrightarrow> dmn_pid w = the_pid e) \<and> sig_pend (proc w) \<subseteq> {10, 1} \<and>
    (queue (dt_pipe w) = [] \<or> (\<exists>k < clock (dm w). queue (dt_pipe w) = [stamp (now e k) @ [CHR 0x00]] \<and> length (stamp (now e k) @ [CHR 0x00]) = 18))"
proof -
  have i: "opened_ok e w" "asked_ok w" "replies_ok e w" using reach_inv[OF assms(1)] assms(2) by (simp_all add: time_inv_def)
  have "\<exists>k < clock (dm w). r = stamp (now e k) @ [CHR 0x00]" if "queue (dt_pipe w) = [r]" for r
  proof -
    obtain ts where ts: "\<forall>k \<in> set ts. k < clock (dm w)" "replies w = map (\<lambda>k. Some (stamp (now e k))) ts" using i(3) by (auto simp: replies_ok_def)
    have "Some (untext r) \<in> set (replies w)" using that by (simp add: replies_def)
    then obtain k where "k \<in> set ts" "untext r = stamp (now e k)" using ts(2) by auto
    moreover have "length r = 18" using i(3) that by (simp add: replies_ok_def)
    ultimately show ?thesis using ts(1) untext_record by blast
  qed
  moreover have "queue (dt_pipe w) = [] \<or> (\<exists>r. queue (dt_pipe w) = [r])" using i(2) by (auto simp: asked_ok_def split: if_splits)
  ultimately show ?thesis using i(1) by (auto simp: opened_ok_def split: if_splits)
qed

definition answering :: "actor list" where
  "answering = [Daemon, Client, Daemon, Client, Daemon, Client, Client, Daemon, Daemon, Client, Client, Signal 10]"

theorem time_pipes_typed_witness:
  "\<exists>w k. (tstep sample_env)\<^sup>*\<^sup>* (time_start [10]) w \<and> queue (dt_pipe w) = [stamp (now sample_env k) @ [CHR 0x00]] \<and> dmn_pid w = the_pid sample_env"
proof -
  obtain d where d: "serve sample_env 10 \<lparr>clock = 0, blocks = 0, logged = []\<rparr> = (Some (stamp (now sample_env 2) @ [CHR 0x00]), Inr d)"
    using serve_room[of "\<lparr>clock = 0, blocks = 0, logged = []\<rparr>" sample_env] by (auto simp: sample_env_def)
  obtain w where w: "run sample_env answering (time_start [10]) = Some w" "alive (proc w)" "queue (dt_pipe w) \<noteq> []" "cpc w = Read_dt"
    by (simp add: answering_def start_defs kill_def handle_def d sigwait_def Let_def)
  note r = run_steps[OF w(1)]
  show ?thesis using time_pipes_typed[OF r w(2)] r w(3,4) by auto
qed

end
