(* ===== verification/Process_Tree.thy ===== *)
theory Process_Tree
  imports Step_Systems "HOL-Library.Multiset"
begin

text \<open>
  Programs that create processes and wait for them: \<^verbatim>\<open>src/fork\<close> and \<^verbatim>\<open>src/fork_exec\<close>. The processes form a tree; one step is one
  call of one process. The output buffer of the C library belongs to the process: it is copied by \<^verbatim>\<open>fork\<close>, lost in \<^verbatim>\<open>execv\<close> and
  written when the process exits, or at every new line if the output is a terminal. \<^verbatim>\<open>fork\<close> itself succeeds here.
\<close>

section \<open>Processes\<close>

text \<open>A line has the number the program gives the process, and its pid and its parent's. \<open>Image\<close> is the output of the program that
  \<^verbatim>\<open>execv\<close> runs.\<close>

datatype line = Line nat nat nat | Newline | Image string

datatype op = Print nat | Print_newline | Fork "op list" | Wait | Exec string

datatype status = Running | Zombie | Reaped

text \<open>The end of the list of operations is the call of \<^verbatim>\<open>exit\<close>.\<close>

datatype proc = Proc (pid: nat) (todo: "op list") (buf: "line list") (kids: "proc list") (status: status)

text \<open>A line printed with buffer \<open>b\<close>: what is written and what stays in the buffer.\<close>

definition put_line :: "bool \<Rightarrow> line \<Rightarrow> line list \<Rightarrow> line list \<times> line list" where
  "put_line tty l b = (if tty then (b @ [l], []) else ([], b @ [l]))"

text \<open>\<open>pstep tty ex pp p n out p' n'\<close>: a process of the tree \<open>p\<close>, whose root has parent \<open>pp\<close>, makes a step and writes \<open>out\<close>; \<open>n\<close> is the next
  pid. A process whose parent has ended has parent 1. A process without children does not wait. \<open>tty\<close>: the output is a terminal;
  \<open>ex\<close>: the file that \<^verbatim>\<open>execv\<close> names can be executed.\<close>

inductive pstep :: "bool \<Rightarrow> bool \<Rightarrow> nat \<Rightarrow> proc \<Rightarrow> nat \<Rightarrow> line list \<Rightarrow> proc \<Rightarrow> nat \<Rightarrow> bool" for tty ex where
  print: "put_line tty (Line l q pp) b = (out, b') \<Longrightarrow> pstep tty ex pp (Proc q (Print l # ops) b ks Running) n out (Proc q ops b' ks Running) n"
| newline: "put_line tty Newline b = (out, b') \<Longrightarrow> pstep tty ex pp (Proc q (Print_newline # ops) b ks Running) n out (Proc q ops b' ks Running) n"
| fork: "pstep tty ex pp (Proc q (Fork c # ops) b ks Running) n [] (Proc q ops b (ks @ [Proc n c b [] Running]) Running) (Suc n)"
| wait: "i < length ks \<Longrightarrow> ks ! i = Proc r t c cs Zombie \<Longrightarrow>
    pstep tty ex pp (Proc q (Wait # ops) b ks Running) n [] (Proc q ops b (ks[i := Proc r t c cs Reaped]) Running) n"
| no_child: "\<forall>k \<in> set ks. status k = Reaped \<Longrightarrow> pstep tty ex pp (Proc q (Wait # ops) b ks Running) n [] (Proc q ops b ks Running) n"
| exec: "ex \<Longrightarrow> pstep tty ex pp (Proc q (Exec s # ops) b ks Running) n [Image s] (Proc q [] [] ks Zombie) n"
| exec_fails: "\<not> ex \<Longrightarrow> pstep tty ex pp (Proc q (Exec s # ops) b ks Running) n [] (Proc q ops b ks Running) n"
| exit: "pstep tty ex pp (Proc q [] b ks Running) n b (Proc q [] [] ks Zombie) n"
| child: "i < length ks \<Longrightarrow> pstep tty ex (if st = Running then q else 1) (ks ! i) n out k' n' \<Longrightarrow>
    pstep tty ex pp (Proc q ops b ks st) n out (Proc q ops b (ks[i := k']) st) n'"

inductive_cases pstep_elim: "pstep tty ex pp (Proc q ops b ks st) n out p' n'"

section \<open>The two programs\<close>

definition fork_main :: "op list" where
  "fork_main = [Print 1,
     Fork [Print 2, Fork [Print 4], Wait],
     Fork [Print 3, Fork [Print 5], Fork [Print 6], Wait, Wait],
     Wait, Wait, Print_newline]"

text \<open>The parent is number 0, the child number 1.\<close>

definition fork_exec_main :: "op list" where
  "fork_exec_main = [Print 0, Fork [Print 1, Exec ''/bin/ls''], Wait, Print_newline]"

text \<open>A run of \<open>k\<close> steps of a program: what has been written, the tree, and the next pid.\<close>

type_synonym config = "line list \<times> proc \<times> nat"

definition pmove :: "bool \<Rightarrow> bool \<Rightarrow> nat \<Rightarrow> config \<Rightarrow> config \<Rightarrow> bool" where
  "pmove tty ex pp = (\<lambda>(out, p, n) (out', p', n'). \<exists>new. out' = out @ new \<and> pstep tty ex pp p n new p' n')"

definition prun :: "bool \<Rightarrow> bool \<Rightarrow> nat \<Rightarrow> op list \<Rightarrow> nat \<Rightarrow> line list \<Rightarrow> proc \<Rightarrow> nat \<Rightarrow> nat \<Rightarrow> bool" where
  "prun tty ex pp prog q out p n k = (pmove tty ex pp ^^ k) ([], Proc q prog [] [] Running, Suc q) (out, p, n)"

lemma prun_reach: "prun tty ex pp prog q out p n k \<Longrightarrow> (pmove tty ex pp)\<^sup>*\<^sup>* ([], Proc q prog [] [] Running, Suc q) (out, p, n)"
  unfolding prun_def by (rule relpowp_imp_rtranclp)

section \<open>What a run writes\<close>

fun strip :: "line \<Rightarrow> line" where
  "strip (Line l q pp) = Line l 0 0"
| "strip l = l"

definition tagged :: "line list \<Rightarrow> line multiset" where
  "tagged ls = mset (map strip ls)"

lemma tagged_simps [simp]: "tagged [] = {#}" "tagged (l # ls) = add_mset (strip l) (tagged ls)" "tagged (xs @ ys) = tagged xs + tagged ys"
  by (simp_all add: tagged_def)

text \<open>The lines that a process with buffer \<open>b\<close>, and the processes it has yet to create, still write.\<close>

fun due :: "bool \<Rightarrow> bool \<Rightarrow> line multiset \<Rightarrow> op list \<Rightarrow> line multiset" where
  "due tty ex b [] = b"
| "due tty ex b (Print l # ops) = (if tty then add_mset (Line l 0 0) b + due tty ex {#} ops else due tty ex (add_mset (Line l 0 0) b) ops)"
| "due tty ex b (Print_newline # ops) = (if tty then add_mset Newline b + due tty ex {#} ops else due tty ex (add_mset Newline b) ops)"
| "due tty ex b (Fork c # ops) = due tty ex b c + due tty ex b ops"
| "due tty ex b (Wait # ops) = due tty ex b ops"
| "due tty ex b (Exec s # ops) = (if ex then {#Image s#} else due tty ex b ops)"

fun total :: "bool \<Rightarrow> bool \<Rightarrow> proc \<Rightarrow> line multiset" where
  "total tty ex (Proc q ops b ks st) = (if st = Running then due tty ex (tagged b) ops else {#}) + sum_list (map (total tty ex) ks)"

lemma sum_list_replace: "i < length xs \<Longrightarrow> sum_list (map f (xs[i := y])) + f (xs ! i) = sum_list (map f xs) + f y"
  for f :: "'b \<Rightarrow> 'a::comm_monoid_add"
proof (induction xs arbitrary: i)
  case (Cons x xs)
  then show ?case by (cases i) (auto simp: ac_simps)
qed simp

lemma sum_list_replace_same: "i < length xs \<Longrightarrow> f y = f (xs ! i) \<Longrightarrow> sum_list (map f (xs[i := y])) = sum_list (map f xs)"
  for f :: "'b \<Rightarrow> 'a::cancel_comm_monoid_add"
  using sum_list_replace[of i xs f y] by simp

lemma put_line_due:
  "put_line tty l b = (out, b') \<Longrightarrow> tagged out + tagged b' = add_mset (strip l) (tagged b) \<and> (if tty then tagged b' = {#} else out = [])"
  by (auto simp: put_line_def split: if_splits)

lemma pstep_total: "pstep tty ex pp p n out p' n' \<Longrightarrow> tagged out + total tty ex p' = total tty ex p"
proof (induction rule: pstep.induct)
  case (child i ks st q n out k' n' pp ops b)
  have "tagged out + sum_list (map (total tty ex) (ks[i := k'])) + total tty ex (ks ! i) = sum_list (map (total tty ex) ks) + total tty ex (ks ! i)"
    using sum_list_replace[OF child(1), of "total tty ex" k'] child(3) by (simp add: add.assoc)
  then have "tagged out + sum_list (map (total tty ex) (ks[i := k'])) = sum_list (map (total tty ex) ks)" by simp
  then show ?case by (simp add: add.left_commute)
qed (auto simp: ac_simps sum_list_replace_same dest!: put_line_due split: if_splits)

section \<open>Every run ends\<close>

fun work_ops :: "op list \<Rightarrow> nat" where
  "work_ops [] = 1"
| "work_ops (Fork c # ops) = 1 + work_ops c + work_ops ops"
| "work_ops (_ # ops) = 1 + work_ops ops"

fun work :: "proc \<Rightarrow> nat" where
  "work (Proc q ops b ks st) = (if st = Running then work_ops ops else 0) + sum_list (map work ks)"

lemma pstep_work: "pstep tty ex pp p n out p' n' \<Longrightarrow> work p' < work p"
proof (induction rule: pstep.induct)
  case (child i ks st q n out k' n' pp ops b)
  have "sum_list (map work (ks[i := k'])) < sum_list (map work ks)"
    using sum_list_replace[OF child(1), of work k'] child(3) by simp
  then show ?case by simp
qed (auto simp: sum_list_replace_same)

lemma pstep_live: "status p = Running \<Longrightarrow> \<exists>out p' n'. pstep tty ex pp p n out p' n'"
proof (induction p arbitrary: pp n)
  case (Proc q ops b ks st)
  have st: "st = Running" using Proc.prems by simp
  show ?case
  proof (cases ops)
    case (Cons op ops')
    show ?thesis
    proof (cases op)
      case Wait
      consider "\<forall>k \<in> set ks. status k = Reaped" | i where "i < length ks" "status (ks ! i) = Zombie" | i where "i < length ks" "status (ks ! i) = Running"
        by (metis in_set_conv_nth status.exhaust)
      then show ?thesis
      proof cases
        case 2
        then show ?thesis unfolding Cons Wait st by (cases "ks ! i") (auto intro: pstep.wait)
      next
        case 3
        then obtain out k' n' where "pstep tty ex q (ks ! i) n out k' n'" using Proc.IH[of "ks ! i"] nth_mem by blast
        then have "pstep tty ex pp (Proc q ops b ks Running) n out (Proc q ops b (ks[i := k']) Running) n'" using 3 by (simp add: pstep.child)
        then show ?thesis unfolding st by blast
      qed (auto simp: Cons Wait st intro: pstep.no_child)
    next
      case (Exec s)
      then show ?thesis unfolding Cons st by (cases ex) (auto intro: pstep.exec pstep.exec_fails)
    next
      case (Print l)
      then show ?thesis unfolding Cons st by (metis pstep.print surj_pair)
    next
      case Print_newline
      then show ?thesis unfolding Cons st by (metis pstep.newline surj_pair)
    next
      case (Fork c)
      then show ?thesis unfolding Cons st by (metis pstep.fork)
    qed
  qed (auto simp: st intro: pstep.exit)
qed

interpretation runs: step_weight "pmove tty ex pp" "\<lambda>_. True" "\<lambda>(out, p, n). work p" for tty ex pp
  by unfold_locales (auto simp: pmove_def dest: pstep_work)

interpretation account: step_invariant "pmove tty ex pp" "\<lambda>(out, p, n). tagged out + total tty ex p = ls" for tty ex pp ls
  by unfold_locales (auto simp: pmove_def add.assoc dest: pstep_total)

lemma prun_total: "prun tty ex pp prog q out p n k \<Longrightarrow> tagged out + total tty ex p = due tty ex {#} prog"
  using account.reach[OF prun_reach] by fastforce

section \<open>Parents wait for all their children\<close>

text \<open>With \<open>k\<close> children to wait for, the operations \<open>ops\<close> wait for them and for those they create.\<close>

fun balanced :: "nat \<Rightarrow> op list \<Rightarrow> bool" where
  "balanced k [] = (k = 0)"
| "balanced k (Fork c # ops) = (balanced 0 c \<and> balanced (Suc k) ops)"
| "balanced k (Wait # ops) = (0 < k \<and> balanced (k - 1) ops)"
| "balanced k (Exec s # ops) = (k = 0 \<and> balanced k ops)"
| "balanced k (Print l # ops) = balanced k ops"
| "balanced k (Print_newline # ops) = (k = 0 \<and> balanced k ops)"

definition waited :: "proc list \<Rightarrow> nat" where
  "waited ks = length (filter (\<lambda>k. status k \<noteq> Reaped) ks)"

fun tidy :: "proc \<Rightarrow> bool" where
  "tidy (Proc q ops b ks st) = ((\<forall>k \<in> set ks. tidy k) \<and> (if st = Running then balanced (waited ks) ops else waited ks = 0))"

lemma waited_simps [simp]: "waited [] = 0" "waited (k # ks) = (if status k = Reaped then waited ks else Suc (waited ks))"
  "waited (xs @ ys) = waited xs + waited ys"
  by (auto simp: waited_def)

lemma waited_0: "waited ks = 0 \<longleftrightarrow> (\<forall>k \<in> set ks. status k = Reaped)"
  by (auto simp: waited_def filter_empty_conv)

lemma waited_upd: "i < length ks \<Longrightarrow> (status k' = Reaped) = (status (ks ! i) = Reaped) \<Longrightarrow> waited (ks[i := k']) = waited ks"
  by (induction ks arbitrary: i) (auto split: nat.splits simp: less_Suc_eq_0_disj)

lemma waited_reap: "i < length ks \<Longrightarrow> status (ks ! i) = Zombie \<Longrightarrow> status k' = Reaped \<Longrightarrow> waited (ks[i := k']) = waited ks - 1 \<and> 0 < waited ks"
  by (induction ks arbitrary: i) (auto split: nat.splits simp: less_Suc_eq_0_disj)

lemma pstep_reaped: "pstep tty ex pp p n out p' n' \<Longrightarrow> (status p' = Reaped) = (status p = Reaped)"
  by (induction rule: pstep.induct) auto

lemma tidy_upd: "\<forall>k \<in> set ks. tidy k \<Longrightarrow> tidy k' \<Longrightarrow> \<forall>k \<in> set (ks[i := k']). tidy k"
  by (auto dest: set_update_subset_insert[THEN subsetD])

lemma pstep_tidy: "pstep tty ex pp p n out p' n' \<Longrightarrow> tidy p \<Longrightarrow> tidy p'"
proof (induction rule: pstep.induct)
  case (wait i ks r t c cs pp q ops b n)
  have "tidy (Proc r t c cs Zombie)" using wait nth_mem[OF wait(1)] by auto
  then show ?case using wait waited_reap[OF wait(1), of "Proc r t c cs Reaped"] tidy_upd[of ks "Proc r t c cs Reaped" i] by auto
next
  case (child i ks st q n out k' n' pp ops b)
  then show ?case using nth_mem[OF child(1)] waited_upd[OF child(1), of k'] pstep_reaped[OF child(2)] tidy_upd[of ks k' i] by auto
next
  case (no_child ks pp q ops b n)
  then have "waited ks = 0" by (simp add: waited_0)
  then show ?case using no_child by simp
qed (auto simp: waited_0)

interpretation waits: step_invariant "pmove tty ex pp" "\<lambda>(out, p, n). tidy p" for tty ex pp
  by unfold_locales (auto simp: pmove_def dest: pstep_tidy)

lemma prun_tidy: "prun tty ex pp prog q out p n k \<Longrightarrow> balanced 0 prog \<Longrightarrow> tidy p"
  using waits.reach[OF prun_reach] by fastforce

lemma sum_list_empty: "\<forall>k \<in> set ks. f k = {#} \<Longrightarrow> sum_list (map f ks) = {#}"
  by (induction ks) auto

lemma quiet: "tidy p \<Longrightarrow> status p \<noteq> Running \<Longrightarrow> total tty ex p = {#} \<and> (\<forall>pp n out p' n'. \<not> pstep tty ex pp p n out p' n')"
proof (induction p)
  case (Proc q ops b ks st)
  have ks: "\<forall>k \<in> set ks. total tty ex k = {#} \<and> (\<forall>pp n out p' n'. \<not> pstep tty ex pp k n out p' n')"
    using Proc by (auto simp: waited_0)
  then have "\<not> pstep tty ex pp (Proc q ops b ks st) n out p' n'" for pp n out p' n'
    using Proc.prems(2) by (auto elim!: pstep_elim)
  then show ?case using ks Proc.prems(2) by (simp add: sum_list_empty)
qed

lemma prun_output:
  assumes "prun tty ex pp prog q out p n k" "balanced 0 prog" "status p \<noteq> Running"
  shows "tagged out = due tty ex {#} prog"
  using prun_total[OF assms(1)] quiet[OF prun_tidy[OF assms(1,2)] assms(3)] by simp

lemma complete_run: "\<exists>out p n k. prun tty ex pp prog q out p n k \<and> status p \<noteq> Running"
proof -
  obtain out p n where r: "(pmove tty ex pp)\<^sup>*\<^sup>* ([], Proc q prog [] [] Running, Suc q) (out, p, n)" "\<not> (\<exists>u. pmove tty ex pp (out, p, n) u)"
    using runs.ends[OF TrueI] by fastforce
  have "status p \<noteq> Running"
  proof
    assume "status p = Running"
    then obtain new p' n' where "pstep tty ex pp p n new p' n'" using pstep_live by blast
    then have "pmove tty ex pp (out, p, n) (out @ new, p', n')" by (simp add: pmove_def)
    then show False using r(2) by blast
  qed
  moreover obtain k where "prun tty ex pp prog q out p n k" using rtranclp_imp_relpowp[OF r(1)] by (auto simp: prun_def)
  ultimately show ?thesis by blast
qed

text \<open>Every run of \<^verbatim>\<open>src/fork\<close> ends: it takes at most 23 steps, and as long as the first process has not exited, some process can
  make a step, whatever the order in which the processes ran.\<close>
theorem fork_main_ends:
  assumes "prun tty ex pp fork_main q out p n k"
  shows "k \<le> 23 \<and> (status p = Running \<longrightarrow> (\<exists>out' p' n'. pstep tty ex pp p n out' p' n'))"
  using runs.bounded[OF assms[unfolded prun_def]] pstep_live by (simp add: fork_main_def)

text \<open>C26: What the program writes to a terminal. When the first process has exited, each of the six processes has printed its line
  exactly once, and the first one its last, empty line.\<close>
theorem fork_main_terminal:
  assumes "prun True ex pp fork_main q out p n k" "status p \<noteq> Running"
  shows "mset (map strip out) = mset [Line 1 0 0, Line 2 0 0, Line 3 0 0, Line 4 0 0, Line 5 0 0, Line 6 0 0, Newline]"
  using prun_output[OF assms(1) _ assms(2)] by (simp add: fork_main_def tagged_def)

theorem fork_main_ends_witness: "\<exists>out p n k. prun True True 1 fork_main 100 out p n k \<and> k \<le> 23"
proof -
  obtain out p n k where r: "prun True True 1 fork_main 100 out p n k" using complete_run by blast
  show ?thesis using fork_main_ends[OF r] r by blast
qed

theorem fork_main_terminal_witness: "\<exists>out p n k. prun True True 1 fork_main 100 out p n k \<and> Line 6 0 0 \<in> set (map strip out)"
proof -
  obtain out p n k where r: "prun True True 1 fork_main 100 out p n k" "status p \<noteq> Running" using complete_run by blast
  have "Line 6 0 0 \<in># mset (map strip out)" unfolding fork_main_terminal[OF r] by simp
  then have "Line 6 0 0 \<in> set (map strip out)" by (simp only: set_mset_mset)
  then show ?thesis using r(1) by blast
qed

text \<open>Written to a file, the line of the first process appears six times: every process gets a copy of its parent's buffer.\<close>

theorem fork_main_file:
  assumes "prun False ex pp fork_main q out p n k" "status p \<noteq> Running"
  shows "tagged out = replicate_mset 6 (Line 1 0 0) + replicate_mset 2 (Line 2 0 0) + replicate_mset 3 (Line 3 0 0) + {#Line 4 0 0, Line 5 0 0, Line 6 0 0, Newline#}"
  using prun_output[OF assms(1) _ assms(2)] by (simp add: fork_main_def eval_nat_numeral)

theorem fork_exec_output:
  assumes "prun tty ex pp fork_exec_main q out p n k" "status p \<noteq> Running"
  shows "tagged out = (if tty then {#Line 0 0 0, Line 1 0 0, Newline#} + (if ex then {#Image ''/bin/ls''#} else {#})
     else if ex then {#Line 0 0 0, Image ''/bin/ls'', Newline#} else {#Line 0 0 0, Line 0 0 0, Line 1 0 0, Newline#})"
  using prun_output[OF assms(1) _ assms(2)] by (simp add: fork_exec_main_def)

end
