(* ===== verification/Netlink_Route.thy ===== *)
theory Netlink_Route
  imports C_Output
begin

text \<open>
  \<^verbatim>\<open>src/netlink_socket\<close>: \<^verbatim>\<open>route_dump.c\<close> asks the kernel for its routes and prints them, \<^verbatim>\<open>route_monitor.c\<close> prints changes as
  they come. Both walk over the messages in a receive buffer, and over the attributes of a message, with the
  macros of \<^verbatim>\<open>linux/netlink.h\<close> and \<^verbatim>\<open>linux/rtnetlink.h\<close>, which are modelled here with the widths of their operands.
  The two programs differ in the type of the remaining length, which decides whether the walk ends in time.

  A message is an offset into the buffer; loads outside the buffer are \<open>None\<close>, and so is a walk that does not end.
\<close>

section \<open>Macros\<close>

definition ld32 :: "byte list \<Rightarrow> nat \<Rightarrow> nat option" where
  "ld32 b i = (if i + 4 \<le> length b then
     Some (unat (b ! i) + 256 * unat (b ! (i + 1)) + 65536 * unat (b ! (i + 2)) + 16777216 * unat (b ! (i + 3))) else None)"

definition int32 :: "int \<Rightarrow> int" where
  "int32 x = (x + 2147483648) mod 4294967296 - 2147483648"

definition NLMSG_ALIGN :: "nat \<Rightarrow> nat" where
  "NLMSG_ALIGN l = (l + 3) mod 4294967296 div 4 * 4"

text \<open>\<^verbatim>\<open>NLMSG_OK\<close>; with \<open>cast\<close> the length is converted to \<^verbatim>\<open>__u32\<close> first.\<close>

definition NLMSG_OK :: "bool \<Rightarrow> byte list \<Rightarrow> nat \<Rightarrow> int \<Rightarrow> bool option" where
  "NLMSG_OK cast b nlh len = (let len = (if cast then len mod 4294967296 else len) in
     if len < 16 then Some False
     else do {
       nlmsg_len \<leftarrow> ld32 b nlh;
       Some (16 \<le> nlmsg_len \<and> int nlmsg_len \<le> len) })"

definition RTA_OK :: "byte list \<Rightarrow> nat \<Rightarrow> int \<Rightarrow> bool option" where
  "RTA_OK b rta len = (if len < 4 then Some False
     else do {
       rta_len \<leftarrow> ld16 b rta;
       Some (4 \<le> unat rta_len \<and> int (unat rta_len) \<le> len) })"

definition RTA_ALIGN :: "nat \<Rightarrow> nat" where
  "RTA_ALIGN l = (l + 3) div 4 * 4"

text \<open>The two loops, with \<open>body\<close> what is done for a message at an offset, or for an attribute with its type and the
  offset of its data.\<close>

partial_function (option) nl_walk :: "(nat \<Rightarrow> 's \<Rightarrow> 's option) \<Rightarrow> bool \<Rightarrow> byte list \<Rightarrow> nat \<Rightarrow> int \<Rightarrow> 's \<Rightarrow> 's option" where
  "nl_walk body cast b nlh len s = Option.bind (NLMSG_OK cast b nlh len) (\<lambda>ok.
     if \<not> ok then Some s
     else Option.bind (body nlh s) (\<lambda>s. Option.bind (ld32 b nlh) (\<lambda>l.
       nl_walk body cast b (nlh + NLMSG_ALIGN l) (int32 (len - int (NLMSG_ALIGN l))) s)))"

partial_function (option) rta_walk :: "(nat \<Rightarrow> nat \<Rightarrow> 's \<Rightarrow> 's option) \<Rightarrow> byte list \<Rightarrow> nat \<Rightarrow> int \<Rightarrow> 's \<Rightarrow> 's option" where
  "rta_walk body b rta len s = Option.bind (RTA_OK b rta len) (\<lambda>ok.
     if \<not> ok then Some s
     else Option.bind (ld16 b (rta + 2)) (\<lambda>t. Option.bind (body (unat t) (rta + 4) s) (\<lambda>s. Option.bind (ld16 b rta) (\<lambda>l.
       rta_walk body b (rta + RTA_ALIGN (unat l)) (len - int (RTA_ALIGN (unat l))) s))))"

section \<open>The dump\<close>

definition str_at :: "byte list \<Rightarrow> nat \<Rightarrow> arg option" where
  "str_at b d = (if 0 \<in> set (drop d b) then Some (Str (map (\<lambda>c. char_of (unat c)) (cstr (drop d b)))) else None)"

definition link_attr :: "byte list \<Rightarrow> nat \<Rightarrow> nat \<Rightarrow> nat \<Rightarrow> event list \<Rightarrow> event list option" where
  "link_attr b h t d es = (if t = 3 then do {
       ifi_index \<leftarrow> ld32 b (h + 20);
       s \<leftarrow> str_at b d;
       Some (es @ [Printf (ln ''Interface %d : %s'') [Num (int32 (int ifi_index)), s]]) }
     else Some es)"

definition rtnl_print_link :: "byte list \<Rightarrow> nat \<Rightarrow> event list option" where
  "rtnl_print_link b h = do {
     l \<leftarrow> ld32 b h;
     rta_walk (link_attr b h) b (h + 32) (int32 (int l - 32)) [] }"

text \<open>The addresses found so far: \<open>None\<close> is the buffer as it was, which in the dump is uninitialised.\<close>

definition route_attr :: "byte list \<Rightarrow> nat \<Rightarrow> nat \<Rightarrow> string option \<times> string option \<Rightarrow> (string option \<times> string option) option" where
  "route_attr b t d a = do {
     a \<leftarrow> (if t = 1 then do { x \<leftarrow> ldn b d 4; Some (Some (inet_ntoa x), snd a) } else Some a);
     (if t = 5 then do { x \<leftarrow> ldn b d 4; Some (fst a, Some (inet_ntoa x)) } else Some a) }"

definition dump_attr :: "byte list \<Rightarrow> nat \<Rightarrow> nat \<Rightarrow> event list \<times> string option \<times> string option \<Rightarrow>
    (event list \<times> string option \<times> string option) option" where
  "dump_attr b t d s = do {
     a \<leftarrow> route_attr b t d (snd s);
     Some (fst s @ [Printf (ln ''route attribute type: %d'') [Num (int t)]], a) }"

definition route_line :: "string \<Rightarrow> string \<Rightarrow> byte \<Rightarrow> byte \<Rightarrow> string \<Rightarrow> event" where
  "route_line verb dst netmask proto gw = Printf (ln (verb @ ''route to destination --> %s/%d proto %d and gateway %s''))
     [Str dst, Num (uint netmask), Num (uint proto), Str gw]"

definition rtnl_print_route :: "byte list \<Rightarrow> nat \<Rightarrow> event list option" where
  "rtnl_print_route b nlh = do {
     rtm_table \<leftarrow> ld8 b (nlh + 20);
     if rtm_table \<noteq> 254 then Some []
     else do {
       route_netmask \<leftarrow> ld8 b (nlh + 17);
       route_protocol \<leftarrow> ld8 b (nlh + 21);
       l \<leftarrow> ld32 b nlh;
       (es, dst, gw) \<leftarrow> rta_walk (dump_attr b) b (nlh + 28) (int32 (int l - 28)) ([], None, None);
       dst \<leftarrow> dst;
       gw \<leftarrow> gw;
       Some (es @ [route_line [] dst route_netmask route_protocol gw]) } }"

text \<open>The state of the dump: what was printed, and \<^verbatim>\<open>end\<close>.\<close>

definition dump_msg :: "byte list \<Rightarrow> nat \<Rightarrow> event list \<times> nat \<Rightarrow> (event list \<times> nat) option" where
  "dump_msg b msg_ptr s = do {
     t \<leftarrow> ld16 b (msg_ptr + 4);
     if t = 3 then Some (fst s, Suc (snd s))
     else if t = 16 then do { es \<leftarrow> rtnl_print_link b msg_ptr; Some (fst s @ es, snd s) }
     else if t = 24 then do { es \<leftarrow> rtnl_print_route b msg_ptr; Some (fst s @ es, snd s) }
     else do {
       l \<leftarrow> ld32 b msg_ptr;
       Some (fst s @ [Printf (ln ''message type %d, length %d'') [num16 t, Num (int32 (int l))]], snd s) } }"

text \<open>The loop of \<^verbatim>\<open>main\<close> on the results of \<^verbatim>\<open>recvmsg\<close>: the length, and the bytes written to the start of the buffer. The
  result is what was printed, and whether the end was seen.\<close>

fun dump_loop :: "byte list \<Rightarrow> (int \<times> byte list) list \<Rightarrow> event list \<times> nat \<Rightarrow> (event list \<times> nat) option" where
  "dump_loop reply [] s = Some s"
| "dump_loop reply ((len, data) # rs) s =
     (if snd s \<noteq> 0 then Some s
      else let reply = data @ drop (length data) reply in do {
        s \<leftarrow> (if len \<noteq> 0 then nl_walk (dump_msg reply) True reply 0 len s else Some s);
        dump_loop reply rs s })"

definition dump_main :: "int \<Rightarrow> byte list \<Rightarrow> (int \<times> byte list) list \<Rightarrow> (event list \<times> nat) option" where
  "dump_main bind_rtn reply rs =
     (if bind_rtn < 0 then Some ([Perror ''cannot bind, are you root ? if yes, check netlink/rtnetlink kernel support''], 0)
      else dump_loop reply rs ([], 0))"

section \<open>The monitor\<close>

text \<open>The addresses are cleared once and kept from message to message.\<close>

definition mon_msg :: "byte list \<Rightarrow> nat \<Rightarrow> event list \<times> string option \<times> string option \<Rightarrow>
    (event list \<times> string option \<times> string option) option" where
  "mon_msg b nlh s = do {
     route_netmask \<leftarrow> ld8 b (nlh + 17);
     route_protocol \<leftarrow> ld8 b (nlh + 21);
     l \<leftarrow> ld32 b nlh;
     (dst, gw) \<leftarrow> rta_walk (route_attr b) b (nlh + 28) (int32 (int l - 28)) (snd s);
     t \<leftarrow> ld16 b (nlh + 4);
     let line = (\<lambda>verb. route_line verb (case dst of None \<Rightarrow> [] | Some a \<Rightarrow> a) route_netmask route_protocol (case gw of None \<Rightarrow> [] | Some a \<Rightarrow> a));
     Some (fst s @ (if t = 25 then [line ''Deleting ''] else []) @ (if t = 24 then [line ''Adding ''] else []), dst, gw) }"

text \<open>One call of \<^verbatim>\<open>loop\<close>. Its own receive loop ends after the first message, because the group is the one it waits for.\<close>

definition mon_loop :: "int \<times> byte list \<Rightarrow> (int \<times> event list) option" where
  "mon_loop r = (case r of (received_bytes, data) \<Rightarrow>
     if received_bytes < 0 then Some (1, [Perror ''recv''])
     else let buffer = data @ drop (length data) (replicate 4095 0) in do {
       (es, a) \<leftarrow> nl_walk (mon_msg buffer) False buffer 0 received_bytes ([], None, None);
       Some (0, es) })"

fun mon_loops :: "(int \<times> byte list) list \<Rightarrow> event list option" where
  "mon_loops [] = Some []"
| "mon_loops (r # rs) = do { (c, es) \<leftarrow> mon_loop r; es' \<leftarrow> mon_loops rs; Some (es @ es') }"

definition mon_main :: "int \<Rightarrow> int \<Rightarrow> (int \<times> byte list) list \<Rightarrow> event list option" where
  "mon_main sock bind_rtn rs =
     (if sock < 0 then Some [Perror ''socket'']
      else if bind_rtn < 0 then Some [Perror ''bind'']
      else mon_loops rs)"

section \<open>What the kernel sends\<close>

text \<open>Messages and attributes as the kernel lays them out, padded to a multiple of four bytes.\<close>

definition le16b :: "nat \<Rightarrow> byte list" where
  "le16b n = [of_nat n, of_nat (n div 256)]"

definition le32b :: "nat \<Rightarrow> byte list" where
  "le32b n = [of_nat n, of_nat (n div 256), of_nat (n div 65536), of_nat (n div 16777216)]"

definition pad4 :: "byte list \<Rightarrow> byte list" where
  "pad4 bs = bs @ replicate ((length bs + 3) div 4 * 4 - length bs) 0"

fun enc_attr :: "nat \<times> byte list \<Rightarrow> byte list" where
  "enc_attr (t, d) = pad4 (le16b (4 + length d) @ le16b t @ d)"

fun enc_msg :: "nat \<times> byte list \<Rightarrow> byte list" where
  "enc_msg (t, d) = pad4 (le32b (16 + length d) @ le16b t @ replicate 10 0 @ d)"

lemma length_pad4: "length (pad4 bs) = (length bs + 3) div 4 * 4"
  by (simp add: pad4_def)

lemma length_enc [simp]:
  "length (enc_attr (t, d)) = RTA_ALIGN (4 + length d)"
  "16 + length d < 4294967290 \<Longrightarrow> length (enc_msg (t, d)) = NLMSG_ALIGN (16 + length d)"
  by (simp_all add: length_pad4 le16b_def le32b_def RTA_ALIGN_def NLMSG_ALIGN_def)

lemma unat_of_nat_byte: "unat (of_nat n :: byte) = n mod 256"
  by (simp add: unat_of_nat)

lemma ld32_le32b: "n < 4294967296 \<Longrightarrow> ld32 (pre @ le32b n @ post) (length pre) = Some n"
proof -
  assume n: "n < 4294967296"
  have "n mod 256 + 256 * (n div 256 mod 256) + 65536 * (n div 65536 mod 256) + 16777216 * (n div 16777216) = n"
  proof -
    have d: "n div 65536 = n div 256 div 256" "n div 16777216 = n div 256 div 256 div 256" by (simp_all flip: div_mult2_eq)
    show ?thesis unfolding d using mult_div_mod_eq[of 256 n] mult_div_mod_eq[of 256 "n div 256"] mult_div_mod_eq[of 256 "n div 256 div 256"]
      by linarith
  qed
  moreover have "n div 16777216 mod 256 = n div 16777216" using n by (intro mod_less) (simp add: div_less_iff_less_mult)
  ultimately show ?thesis by (simp add: ld32_def le32b_def nth_append unat_of_nat_byte del: of_nat_mod)
qed

lemma ld16_le16b: "n < 65536 \<Longrightarrow> ld16 (pre @ le16b n @ post) (length pre) = Some (of_nat n)"
proof -
  assume n: "n < 65536"
  have "unat (le16 (of_nat n) (of_nat (n div 256))) = unat (of_nat n :: u16)"
    using n by (simp add: unat_le16 unat_of_nat)
  then have "le16 (of_nat n) (of_nat (n div 256)) = (of_nat n :: u16)" by (simp only: word_unat_eq_iff)
  then show ?thesis by (simp add: ld16_def le16b_def nth_append)
qed

section \<open>Walks over well-formed data\<close>

fun mfold :: "('a \<Rightarrow> 's \<Rightarrow> 's option) \<Rightarrow> 'a list \<Rightarrow> 's \<Rightarrow> 's option" where
  "mfold g [] s = Some s"
| "mfold g (x # xs) s = Option.bind (g x s) (mfold g xs)"

definition attr_ok :: "nat \<times> byte list \<Rightarrow> bool" where
  "attr_ok a = (fst a < 65536 \<and> length (snd a) < 65532)"

lemma rta_fields:
  assumes "attr_ok (t, d)"
  shows "ld16 (pre @ enc_attr (t, d) @ post) (length pre) = Some (of_nat (4 + length d))"
    "ld16 (pre @ enc_attr (t, d) @ post) (length pre + 2) = Some (of_nat t)"
proof -
  show "ld16 (pre @ enc_attr (t, d) @ post) (length pre) = Some (of_nat (4 + length d))"
    using ld16_le16b[of "4 + length d" pre] assms by (simp add: attr_ok_def pad4_def)
  have "length pre + 2 = length (pre @ le16b (4 + length d))" by (simp add: le16b_def)
  then show "ld16 (pre @ enc_attr (t, d) @ post) (length pre + 2) = Some (of_nat t)"
    using ld16_le16b[of t "pre @ le16b (4 + length d)"] assms by (simp add: attr_ok_def pad4_def)
qed

lemma rta_walk_enc:
  assumes "\<And>pre t d post s. b = pre @ enc_attr (t, d) @ post \<Longrightarrow> (t, d) \<in> A \<Longrightarrow> body t (length pre + 4) s = g (t, d) s"
  shows "\<forall>a \<in> set as. attr_ok a \<and> a \<in> A \<Longrightarrow> b = pre @ concat (map enc_attr as) @ post \<Longrightarrow>
    rta_walk body b (length pre) (int (length (concat (map enc_attr as)))) s = mfold g as s"
proof (induction as arbitrary: pre s)
  case Nil
  then show ?case by (subst rta_walk.simps) (simp add: RTA_OK_def)
next
  case (Cons a as)
  obtain t d where a: "a = (t, d)" by fastforce
  let ?rest = "concat (map enc_attr as) @ post" and ?l = "RTA_ALIGN (4 + length d)"
  have ok: "attr_ok (t, d)" "(t, d) \<in> A" and b: "b = pre @ enc_attr (t, d) @ ?rest" using Cons.prems a by auto
  have u: "unat (of_nat (4 + length d) :: u16) = 4 + length d" "unat (of_nat t :: u16) = t"
    using ok by (simp_all add: attr_ok_def unat_of_nat del: of_nat_add)
  have f: "ld16 b (length pre) = Some (of_nat (4 + length d))" "ld16 b (length pre + 2) = Some (of_nat t)"
    unfolding b using rta_fields[OF ok(1)] by auto
  define L where "L = int (length (concat (map enc_attr (a # as))))"
  have len: "L = int ?l + int (length (concat (map enc_attr as)))"
    by (simp add: L_def a del: enc_attr.simps)
  have "4 + length d \<le> ?l" by (simp add: RTA_ALIGN_def)
  moreover have "uint (of_nat (4 + length d) :: u16) = int (4 + length d)" using arg_cong[OF u(1), of int] by (simp del: of_nat_add)
  ultimately have rok: "RTA_OK b (length pre) L = Some True"
    unfolding len using f u by (simp add: RTA_OK_def del: of_nat_add)
  have n: "length pre + ?l = length (pre @ enc_attr (t, d))" by (simp del: enc_attr.simps)
  have "rta_walk body b (length pre + ?l) (int (length (concat (map enc_attr as)))) s' = mfold g as s'" for s'
    unfolding n using Cons.prems by (intro Cons.IH) (simp_all add: a b)
  moreover have "body t (length pre + 4) s = g (t, d) s" using assms[OF b ok(2)] .
  moreover have "L - int ?l = int (length (concat (map enc_attr as)))" using len by simp
  ultimately show ?case unfolding L_def[symmetric]
    by (subst rta_walk.simps) (simp add: rok f u a del: enc_attr.simps of_nat_add add_2_eq_Suc' split: bind_splits)
qed

definition msg_ok :: "nat \<times> byte list \<Rightarrow> bool" where
  "msg_ok m = (fst m < 65536 \<and> length (snd m) < 65532)"

lemma msg_fields:
  assumes "msg_ok (t, d)"
  shows "ld32 (pre @ enc_msg (t, d) @ post) (length pre) = Some (16 + length d)"
    "ld16 (pre @ enc_msg (t, d) @ post) (length pre + 4) = Some (of_nat t)"
proof -
  show "ld32 (pre @ enc_msg (t, d) @ post) (length pre) = Some (16 + length d)"
    using ld32_le32b[of "16 + length d" pre] assms by (simp add: msg_ok_def pad4_def)
  have "length pre + 4 = length (pre @ le32b (16 + length d))" by (simp add: le32b_def)
  then show "ld16 (pre @ enc_msg (t, d) @ post) (length pre + 4) = Some (of_nat t)"
    using ld16_le16b[of t "pre @ le32b (16 + length d)"] assms by (simp add: msg_ok_def pad4_def)
qed

lemma nl_walk_enc:
  assumes "\<And>pre t d post s. b = pre @ enc_msg (t, d) @ post \<Longrightarrow> (t, d) \<in> M \<Longrightarrow> body (length pre) s = g (t, d) s"
  shows "\<forall>m \<in> set ms. msg_ok m \<and> m \<in> M \<Longrightarrow> b = pre @ concat (map enc_msg ms) @ post \<Longrightarrow> length b < 2147483648 \<Longrightarrow>
    nl_walk body cast b (length pre) (int (length (concat (map enc_msg ms)))) s = mfold g ms s"
proof (induction ms arbitrary: pre s)
  case Nil
  then show ?case by (subst nl_walk.simps) (simp add: NLMSG_OK_def)
next
  case (Cons m ms)
  obtain t d where m: "m = (t, d)" by fastforce
  let ?rest = "concat (map enc_msg ms) @ post" and ?l = "NLMSG_ALIGN (16 + length d)"
  have ok: "msg_ok (t, d)" "(t, d) \<in> M" and b: "b = pre @ enc_msg (t, d) @ ?rest" using Cons.prems m by auto
  have f: "ld32 b (length pre) = Some (16 + length d)" unfolding b using msg_fields[OF ok(1)] by auto
  have e: "length (enc_msg (t, d)) = ?l" using ok(1) by (intro length_enc(2)) (simp add: msg_ok_def)
  define L where "L = int (length (concat (map enc_msg (m # ms))))"
  have len: "L = int ?l + int (length (concat (map enc_msg ms)))"
    by (simp add: L_def m e del: enc_msg.simps)
  have small: "int ?l + int (length (concat (map enc_msg ms))) < 2147483648"
    using Cons.prems(3) e by (simp add: b del: enc_msg.simps)
  have "16 + length d \<le> ?l" using ok(1) by (simp add: NLMSG_ALIGN_def msg_ok_def)
  then have nok: "NLMSG_OK cast b (length pre) L = Some True"
    unfolding len using f small by (simp add: NLMSG_OK_def Let_def)
  have n: "length pre + ?l = length (pre @ enc_msg (t, d))" by (simp add: e del: enc_msg.simps)
  have "nl_walk body cast b (length pre + ?l) (int (length (concat (map enc_msg ms)))) s' = mfold g ms s'" for s'
    unfolding n using Cons.prems by (intro Cons.IH) (simp_all add: m b)
  moreover have "body (length pre) s = g (t, d) s" using assms[OF b ok(2)] .
  moreover have "int32 (int (length (concat (map enc_msg ms)))) = int (length (concat (map enc_msg ms)))" using small by (simp add: int32_def)
  moreover have "L - int ?l = int (length (concat (map enc_msg ms)))" using len by simp
  ultimately show ?case unfolding L_def[symmetric]
    by (subst nl_walk.simps) (simp add: nok f m del: enc_msg.simps of_nat_add split: bind_splits)
qed

section \<open>Routes\<close>

record route =
  r_len :: byte
  r_table :: byte
  r_proto :: byte
  r_attrs :: "(nat \<times> byte list) list"

definition enc_route :: "nat \<Rightarrow> route \<Rightarrow> nat \<times> byte list" where
  "enc_route t r = (t, [2, r_len r, 0, 0, r_table r, r_proto r, 0, 0, 0, 0, 0, 0] @ concat (map enc_attr (r_attrs r)))"

definition addr_attr :: "nat \<times> byte list \<Rightarrow> string option \<times> string option \<Rightarrow> string option \<times> string option" where
  "addr_attr a s = (if fst a = 1 then Some (inet_ntoa (take 4 (snd a))) else fst s,
     if fst a = 5 then Some (inet_ntoa (take 4 (snd a))) else snd s)"

definition route_ok :: "route \<Rightarrow> bool" where
  "route_ok r = (length (concat (map enc_attr (r_attrs r))) < 65000 \<and> (\<forall>a \<in> set (r_attrs r). attr_ok a \<and> (fst a = 1 \<or> fst a = 5 \<longrightarrow> 4 \<le> length (snd a))))"

lemma enc_attr_data:
  assumes "4 \<le> length d"
  shows "ldn (pre @ enc_attr (t, d) @ post) (length pre + 4) 4 = Some (take 4 d)"
proof -
  obtain z where "enc_attr (t, d) = le16b (4 + length d) @ le16b t @ d @ z" by (simp add: pad4_def)
  then show ?thesis using assms by (simp add: ldn_def le16b_def)
qed

lemma route_attr_enc:
  assumes "b = pre @ enc_attr (t, d) @ post" "t = 1 \<or> t = 5 \<longrightarrow> 4 \<le> length d"
  shows "route_attr b t (length pre + 4) s = Some (addr_attr (t, d) s)"
  using assms(2) enc_attr_data[of d pre t post] unfolding assms(1) by (auto simp: route_attr_def addr_attr_def simp del: enc_attr.simps)

lemma mfold_total: "mfold (\<lambda>x s. Some (h x s)) xs s = Some (fold h xs s)"
  by (induction xs arbitrary: s) auto

lemma length_attrs: "length (concat (map enc_attr as)) mod 4 = 0"
proof (induction as)
  case (Cons a as)
  obtain t d where a: "a = (t, d)" by fastforce
  have "RTA_ALIGN (4 + length d) mod 4 = 0" by (simp add: RTA_ALIGN_def)
  then show ?case using Cons by (simp add: a mod_add_eq[symmetric] del: enc_attr.simps)
qed simp

lemma pad4_aligned: "length bs mod 4 = 0 \<Longrightarrow> pad4 bs = bs"
proof -
  assume "length bs mod 4 = 0"
  then have "(length bs + 3) div 4 * 4 = length bs" by presburger
  then show ?thesis by (simp add: pad4_def)
qed

text \<open>The bytes of a route's message, in the parts the programs read.\<close>

lemma enc_route_bytes:
  "enc_msg (enc_route t r) = (le32b (28 + length (concat (map enc_attr (r_attrs r)))) @ le16b t @ replicate 10 0 @
     [2, r_len r, 0, 0, r_table r, r_proto r, 0, 0, 0, 0, 0, 0]) @ concat (map enc_attr (r_attrs r))"
proof -
  have "(28 + length (concat (map enc_attr (r_attrs r)))) mod 4 = 0" using length_attrs[of "r_attrs r"] by presburger
  then show ?thesis unfolding enc_route_def enc_msg.simps by (subst pad4_aligned) (simp_all add: le32b_def le16b_def)
qed

lemma route_split:
  obtains hd where "length hd = 28" "enc_msg (enc_route t r) = hd @ concat (map enc_attr (r_attrs r))"
    "hd = le32b (28 + length (concat (map enc_attr (r_attrs r)))) @ le16b t @ replicate 10 0 @ [2, r_len r, 0, 0, r_table r, r_proto r, 0, 0, 0, 0, 0, 0]"
  using enc_route_bytes[of t r] by (simp add: le32b_def le16b_def)

lemma route_fields:
  assumes "route_ok r" "b = pre @ enc_msg (enc_route t r) @ post"
  shows "ld32 b (length pre) = Some (28 + length (concat (map enc_attr (r_attrs r))))"
    "ld8 b (length pre + 17) = Some (r_len r)" "ld8 b (length pre + 20) = Some (r_table r)" "ld8 b (length pre + 21) = Some (r_proto r)"
proof -
  obtain hd where hd: "length hd = 28" "enc_msg (enc_route t r) = hd @ concat (map enc_attr (r_attrs r))"
    "hd = le32b (28 + length (concat (map enc_attr (r_attrs r)))) @ le16b t @ replicate 10 0 @ [2, r_len r, 0, 0, r_table r, r_proto r, 0, 0, 0, 0, 0, 0]"
    by (rule route_split)
  show "ld32 b (length pre) = Some (28 + length (concat (map enc_attr (r_attrs r))))"
    unfolding assms(2) hd(2,3) append_assoc by (rule ld32_le32b) (use assms(1) in \<open>simp add: route_ok_def\<close>)
  have "ld8 b (length pre + k) = Some (hd ! k)" if "k < 28" for k
    using that hd(1) unfolding assms(2) hd(2) by (simp add: ld8_def nth_append)
  from this[of 17] this[of 20] this[of 21]
  show "ld8 b (length pre + 17) = Some (r_len r)" "ld8 b (length pre + 20) = Some (r_table r)" "ld8 b (length pre + 21) = Some (r_proto r)"
    by (simp_all add: hd(3) le32b_def le16b_def nth_append)
qed

lemma route_walk:
  assumes "route_ok r" "b = pre @ enc_msg (enc_route t r) @ post"
    and "\<And>pre t d post s. b = pre @ enc_attr (t, d) @ post \<Longrightarrow> (t, d) \<in> set (r_attrs r) \<Longrightarrow> body t (length pre + 4) s = Some (h (t, d) s)"
  shows "rta_walk body b (length pre + 28) (int32 (int (28 + length (concat (map enc_attr (r_attrs r)))) - 28)) s = Some (fold h (r_attrs r) s)"
proof -
  let ?n = "length (concat (map enc_attr (r_attrs r)))"
  obtain hd where hd: "length hd = 28" "enc_msg (enc_route t r) = hd @ concat (map enc_attr (r_attrs r))" by (rule route_split)
  have b: "b = (pre @ hd) @ concat (map enc_attr (r_attrs r)) @ post" unfolding assms(2) hd(2) by simp
  have "rta_walk body b (length (pre @ hd)) (int ?n) s = mfold (\<lambda>a s. Some (h a s)) (r_attrs r) s"
  proof (rule rta_walk_enc[where A = "set (r_attrs r)"])
    show "b = (pre @ hd) @ concat (map enc_attr (r_attrs r)) @ post" by (rule b)
    show "\<forall>a \<in> set (r_attrs r). attr_ok a \<and> a \<in> set (r_attrs r)" using assms(1) by (auto simp: route_ok_def)
  qed (rule assms(3))
  moreover have "int32 (int (28 + ?n) - 28) = int ?n" using assms(1) by (simp add: int32_def route_ok_def)
  moreover have "length (pre @ hd) = length pre + 28" using hd by simp
  ultimately show ?thesis by (simp only: mfold_total)
qed

text \<open>What a route's message makes the dump print, if both addresses are there.\<close>

definition route_addrs :: "route \<Rightarrow> string option \<times> string option" where
  "route_addrs r = fold addr_attr (r_attrs r) (None, None)"

definition complete :: "route \<Rightarrow> bool" where
  "complete r = (r_table r = 254 \<longrightarrow> fst (route_addrs r) \<noteq> None \<and> snd (route_addrs r) \<noteq> None)"

definition route_lines :: "route \<Rightarrow> event list" where
  "route_lines r = (if r_table r \<noteq> 254 then []
     else map (\<lambda>a. Printf (ln ''route attribute type: %d'') [Num (int (fst a))]) (r_attrs r) @
       [route_line [] (the (fst (route_addrs r))) (r_len r) (r_proto r) (the (snd (route_addrs r)))])"

definition attr_line :: "nat \<times> byte list \<Rightarrow> event list \<times> string option \<times> string option \<Rightarrow> event list \<times> string option \<times> string option" where
  "attr_line a s = (fst s @ [Printf (ln ''route attribute type: %d'') [Num (int (fst a))]], addr_attr a (snd s))"

lemma attr_line_fold:
  "fold attr_line as (es, x) = (es @ map (\<lambda>a. Printf (ln ''route attribute type: %d'') [Num (int (fst a))]) as, fold addr_attr as x)"
  by (induction as arbitrary: es x) (auto simp: attr_line_def)

lemma route_attr_ok:
  "route_ok r \<Longrightarrow> b = pre @ enc_attr (t, d) @ post \<Longrightarrow> (t, d) \<in> set (r_attrs r) \<Longrightarrow> route_attr b t (length pre + 4) s = Some (addr_attr (t, d) s)"
  by (rule route_attr_enc) (auto simp: route_ok_def)

lemma print_route_enc:
  assumes "route_ok r" "b = pre @ enc_msg (enc_route 24 r) @ post"
  shows "rtnl_print_route b (length pre) = (if complete r then Some (route_lines r) else None)"
proof -
  have "dump_attr b t (length pre' + 4) s = Some (attr_line (t, d) s)"
    if "b = pre' @ enc_attr (t, d) @ post'" "(t, d) \<in> set (r_attrs r)" for pre' t d post' s
    using route_attr_ok[OF assms(1) that] by (simp add: dump_attr_def attr_line_def)
  then have w: "rta_walk (dump_attr b) b (length pre + 28) (int32 (int (28 + length (concat (map enc_attr (r_attrs r)))) - 28)) ([], None, None) =
      Some (fold attr_line (r_attrs r) ([], None, None))" by (rule route_walk[OF assms])
  obtain x y where xy: "fold addr_attr (r_attrs r) (None, None) = (x, y)" by fastforce
  show ?thesis unfolding rtnl_print_route_def route_fields[OF assms]
    by (cases x; cases y) (simp_all add: w attr_line_fold xy complete_def route_lines_def route_addrs_def del: of_nat_add)
qed

section \<open>Properties\<close>

text \<open>The dump's effect of a message depends on the message alone.\<close>

lemma dump_route_enc:
  assumes "route_ok r" "b = pre @ enc_msg (enc_route 24 r) @ post"
  shows "dump_msg b (length pre) s = (if complete r then Some (fst s @ route_lines r, snd s) else None)"
proof -
  have "msg_ok (enc_route 24 r)" using assms(1) by (simp add: route_ok_def msg_ok_def enc_route_def)
  then have "ld16 b (length pre + 4) = Some 24" using msg_fields(2)[of 24 "snd (enc_route 24 r)" pre post] assms(2) by (simp add: enc_route_def del: enc_msg.simps)
  then show ?thesis using print_route_enc[OF assms] by (simp add: dump_msg_def)
qed

lemma dump_done_enc: "b = pre @ enc_msg (3, []) @ post \<Longrightarrow> dump_msg b (length pre) s = Some (fst s, Suc (snd s))"
  using msg_fields(2)[of 3 "[]" pre post] by (simp add: dump_msg_def msg_ok_def del: enc_msg.simps)

lemma dump_batch:
  "\<forall>r \<in> set rs. route_ok r \<Longrightarrow> mfold (\<lambda>m. dump_msg (enc_msg m) 0) (map (enc_route 24) rs @ [(3, [])]) s =
    (if \<forall>r \<in> set rs. complete r then Some (fst s @ concat (map route_lines rs), Suc (snd s)) else None)"
proof (induction rs arbitrary: s)
  case Nil
  then show ?case using dump_done_enc[of "enc_msg (3, [])" "[]" "[]"] by simp
next
  case (Cons r rs)
  then show ?case using dump_route_enc[of r "enc_msg (enc_route 24 r)" "[]" "[]"] by simp
qed

text \<open>C19: The route dump prints exactly the routes the kernel sent. For every list of routes, with any attributes,
  sent as one reply that fits the buffer and followed by the end message, the walk over messages and attributes ends
  and prints, for each route of the main table and in order, the types of its attributes and its destination,
  mask, protocol and gateway. A route of the main table without a destination (a default route) or without a
  gateway makes the program print an uninitialised buffer.\<close>
theorem route_dump_roundtrip:
  assumes "\<forall>r \<in> set rs. route_ok r" "batch = concat (map enc_msg (map (enc_route 24) rs @ [(3, [])]))"
    and "length batch \<le> length reply" "length reply = 8192"
  shows "dump_main 0 reply [(int (length batch), batch)] =
    (if \<forall>r \<in> set rs. complete r then Some (concat (map route_lines rs), 1) else None)"
proof -
  let ?ms = "map (enc_route 24) rs @ [(3, [])]" and ?b = "batch @ drop (length batch) reply"
  have eff: "dump_msg ?b (length pre) s = dump_msg (enc_msg (t, d)) 0 s"
    if m: "?b = pre @ enc_msg (t, d) @ post" "(t, d) \<in> set ?ms" for pre t d post s
  proof (cases "(t, d) = (3, [])")
    case True
    then show ?thesis using dump_done_enc[of ?b pre post s] dump_done_enc[of "enc_msg (3, [])" "[]" "[]" s] m(1) by simp
  next
    case False
    then obtain r where r: "(t, d) = enc_route 24 r" "route_ok r" using m(2) assms(1) by auto
    show ?thesis unfolding r(1) using dump_route_enc[OF r(2), of ?b pre post s] dump_route_enc[OF r(2), of "enc_msg (enc_route 24 r)" "[]" "[]" s] m(1) r(1)
      by simp
  qed
  have ok: "\<forall>m \<in> set ?ms. msg_ok m \<and> m \<in> set ?ms" using assms(1) by (auto simp: msg_ok_def route_ok_def enc_route_def)
  have "nl_walk (dump_msg ?b) True ?b (length ([] :: byte list)) (int (length (concat (map enc_msg ?ms)))) ([], 0) = mfold (\<lambda>m. dump_msg (enc_msg m) 0) ?ms ([], 0)"
  proof (rule nl_walk_enc[where M = "set ?ms"])
    show "?b = [] @ concat (map enc_msg ?ms) @ drop (length batch) reply" by (simp add: assms(2))
    show "length ?b < 2147483648" using assms by simp
    show "dump_msg ?b (length pre) s = dump_msg (enc_msg (t, d)) 0 s" if "?b = pre @ enc_msg (t, d) @ post" "(t, d) \<in> set ?ms" for pre t d post s
      by (rule eff[OF that])
  qed (rule ok)
  then have "nl_walk (dump_msg ?b) True ?b 0 (int (length batch)) ([], 0) = (if \<forall>r \<in> set rs. complete r then Some (concat (map route_lines rs), 1) else None)"
    using dump_batch[OF assms(1), of "([], 0)"] by (simp add: assms(2))
  moreover have "batch \<noteq> []" unfolding assms(2) by (simp add: pad4_def le32b_def)
  ultimately show ?thesis by (simp add: dump_main_def Let_def split: bind_splits)
qed

definition sample_route :: route where
  "sample_route = \<lparr>r_len = 24, r_table = 254, r_proto = 3, r_attrs = [(1, [10, 0, 0, 0]), (5, [10, 0, 0, 1])]\<rparr>"

theorem route_dump_roundtrip_witness:
  "dump_main 0 (replicate 8192 0) [(60, concat (map enc_msg [enc_route 24 sample_route, (3, [])]))] = Some (route_lines sample_route, 1)"
proof -
  have "route_ok sample_route" "complete sample_route"
    by (simp_all add: route_ok_def complete_def route_addrs_def sample_route_def attr_ok_def addr_attr_def length_pad4 le16b_def)
  moreover have "length (concat (map enc_msg (map (enc_route 24) [sample_route] @ [(3, [])]))) = 60"
    by (simp add: enc_route_def sample_route_def length_pad4 le16b_def le32b_def)
  ultimately show ?thesis using route_dump_roundtrip[of "[sample_route]" _ "replicate 8192 0", OF _ refl] by simp
qed

text \<open>The monitor: what it prints for a batch of changes. An address that a message does not have is the one of the
  message before.\<close>

fun mon_lines :: "string option \<times> string option \<Rightarrow> (nat \<times> route) list \<Rightarrow> event list" where
  "mon_lines x [] = []"
| "mon_lines x ((t, r) # rs) = (let (dst, gw) = fold addr_attr (r_attrs r) x in
     route_line (if t = 25 then ''Deleting '' else ''Adding '') (case dst of None \<Rightarrow> [] | Some a \<Rightarrow> a) (r_len r) (r_proto r)
       (case gw of None \<Rightarrow> [] | Some a \<Rightarrow> a) # mon_lines (dst, gw) rs)"

lemma mon_route_enc:
  assumes "route_ok r" "t = 24 \<or> t = 25" "b = pre @ enc_msg (enc_route t r) @ post"
  shows "mon_msg b (length pre) s = Some (fst s @ mon_lines (snd s) [(t, r)], fold addr_attr (r_attrs r) (snd s))"
proof -
  have "msg_ok (enc_route t r)" using assms(1,2) by (auto simp: route_ok_def msg_ok_def enc_route_def)
  then have t: "ld16 b (length pre + 4) = Some (of_nat t)"
    using msg_fields(2)[of t "snd (enc_route t r)" pre post] assms(3) by (simp add: enc_route_def del: enc_msg.simps)
  have w: "rta_walk (route_attr b) b (length pre + 28) (int32 (int (28 + length (concat (map enc_attr (r_attrs r)))) - 28)) (snd s) =
      Some (fold addr_attr (r_attrs r) (snd s))" by (rule route_walk[OF assms(1,3)]) (rule route_attr_ok[OF assms(1)])
  obtain x y where xy: "fold addr_attr (r_attrs r) (snd s) = (x, y)" by fastforce
  show ?thesis unfolding mon_msg_def route_fields[OF assms(1,3)] using assms(2) by (auto simp: w t xy Let_def simp del: of_nat_add)
qed

lemma mon_batch:
  "\<forall>(t, r) \<in> set rs. route_ok r \<and> (t = 24 \<or> t = 25) \<Longrightarrow> \<exists>x. mfold (\<lambda>m. mon_msg (enc_msg m) 0) (map (\<lambda>(t, r). enc_route t r) rs) s =
    Some (fst s @ mon_lines (snd s) rs, x)"
proof (induction rs arbitrary: s)
  case Nil
  then show ?case by (cases s) auto
next
  case (Cons a rs)
  obtain t r where a: "a = (t, r)" by fastforce
  have "mon_msg (enc_msg (enc_route t r)) 0 s = Some (fst s @ mon_lines (snd s) [(t, r)], fold addr_attr (r_attrs r) (snd s))"
    using mon_route_enc[of r t "enc_msg (enc_route t r)" "[]" "[]"] Cons.prems a by auto
  moreover obtain x where "mfold (\<lambda>m. mon_msg (enc_msg m) 0) (map (\<lambda>(t, r). enc_route t r) rs)
      (fst s @ mon_lines (snd s) [(t, r)], fold addr_attr (r_attrs r) (snd s)) =
      Some ((fst s @ mon_lines (snd s) [(t, r)]) @ mon_lines (fold addr_attr (r_attrs r) (snd s)) rs, x)"
    using Cons.IH[of "(fst s @ mon_lines (snd s) [(t, r)], fold addr_attr (r_attrs r) (snd s))"] Cons.prems by auto
  ultimately show ?case using a by (auto simp: Let_def split: prod.splits)
qed

text \<open>The route monitor reports every change of a batch that fits its buffer, in order, as an addition or a
  deletion, with its mask, protocol and addresses. The addresses are kept from one message to the next: a route
  without a gateway is shown with the gateway of the one before it.\<close>
theorem route_monitor_reports:
  assumes "\<forall>(t, r) \<in> set rs. route_ok r \<and> (t = 24 \<or> t = 25)" "batch = concat (map enc_msg (map (\<lambda>(t, r). enc_route t r) rs))"
    and "length batch \<le> 4095"
  shows "mon_loop (int (length batch), batch) = Some (0, mon_lines (None, None) rs)"
proof -
  let ?ms = "map (\<lambda>(t, r). enc_route t r) rs" and ?b = "batch @ drop (length batch) (replicate 4095 0)"
  have eff: "mon_msg ?b (length pre) s = mon_msg (enc_msg (t, d)) 0 s"
    if m: "?b = pre @ enc_msg (t, d) @ post" "(t, d) \<in> set ?ms" for pre t d post s
  proof -
    obtain k r where r: "(t, d) = enc_route k r" "route_ok r" "k = 24 \<or> k = 25" using m(2) assms(1) by auto
    show ?thesis unfolding r(1) using mon_route_enc[OF r(2,3), of ?b pre post s] mon_route_enc[OF r(2,3), of "enc_msg (enc_route k r)" "[]" "[]" s] m(1) r(1)
      by simp
  qed
  have ok: "\<forall>m \<in> set ?ms. msg_ok m \<and> m \<in> set ?ms" using assms(1) by (auto simp: msg_ok_def route_ok_def enc_route_def)
  have "nl_walk (mon_msg ?b) False ?b (length ([] :: byte list)) (int (length (concat (map enc_msg ?ms)))) ([], None, None) =
      mfold (\<lambda>m. mon_msg (enc_msg m) 0) ?ms ([], None, None)"
  proof (rule nl_walk_enc[where M = "set ?ms"])
    show "?b = [] @ concat (map enc_msg ?ms) @ drop (length batch) (replicate 4095 0)" by (simp add: assms(2))
    show "length ?b < 2147483648" using assms by simp
    show "mon_msg ?b (length pre) s = mon_msg (enc_msg (t, d)) 0 s" if "?b = pre @ enc_msg (t, d) @ post" "(t, d) \<in> set ?ms" for pre t d post s
      by (rule eff[OF that])
  qed (rule ok)
  then show ?thesis using mon_batch[OF assms(1), of "([], None, None)"] by (auto simp: mon_loop_def Let_def assms(2))
qed

theorem route_monitor_reports_witness:
  "mon_loop (72, concat (map enc_msg [enc_route 24 sample_route, enc_route 24 (sample_route\<lparr>r_attrs := []\<rparr>)])) =
    Some (0, [route_line ''Adding '' ''10.0.0.0'' 24 3 ''10.0.0.1'', route_line ''Adding '' ''10.0.0.0'' 24 3 ''10.0.0.1''])"
proof -
  let ?rs = "[(24, sample_route), (24, sample_route\<lparr>r_attrs := []\<rparr>)]"
  have r: "\<forall>(t, r) \<in> set ?rs. route_ok r \<and> (t = 24 \<or> t = 25)"
    by (simp add: route_ok_def sample_route_def attr_ok_def length_pad4 le16b_def)
  have l: "length (concat (map enc_msg (map (\<lambda>(t, r). enc_route t r) ?rs))) = 72"
    by (simp add: enc_route_def sample_route_def length_pad4 le16b_def le32b_def)
  have m: "mon_lines (None, None) ?rs =
      [route_line ''Adding '' ''10.0.0.0'' 24 3 ''10.0.0.1'', route_line ''Adding '' ''10.0.0.0'' 24 3 ''10.0.0.1'']"
    by (simp add: sample_route_def addr_attr_def inet_ntoa_def dec_str.simps char_of_def bit_Suc_0_iff)
  have b: "concat (map enc_msg (map (\<lambda>(t, r). enc_route t r) ?rs)) =
      concat (map enc_msg [enc_route 24 sample_route, enc_route 24 (sample_route\<lparr>r_attrs := []\<rparr>)])" by simp
  show ?thesis using route_monitor_reports[OF r refl] unfolding l m by (simp only: b) (simp only: of_nat_numeral)
qed

text \<open>Behind a last message whose length is not a multiple of four the remaining length is negative. The monitor
  stops there. In the dump the conversion to \<^verbatim>\<open>__u32\<close> turns it into a huge one: the walk goes on with
  whatever the buffer holds behind the received bytes.\<close>
theorem walk_past_the_end:
  assumes "l mod 4 \<noteq> 0" "l < 2147483644"
  shows "NLMSG_OK False b (nlh + NLMSG_ALIGN l) (int32 (int l - int (NLMSG_ALIGN l))) = Some False"
    "NLMSG_OK True b (nlh + NLMSG_ALIGN l) (int32 (int l - int (NLMSG_ALIGN l))) =
      map_option (\<lambda>k. 16 \<le> k \<and> k \<le> 4294967292 + l mod 4) (ld32 b (nlh + NLMSG_ALIGN l))"
proof -
  have "(l + 3) div 4 = Suc (l div 4)" using assms(1) by presburger
  then have a: "NLMSG_ALIGN l = 4 * Suc (l div 4)" using assms by (simp add: NLMSG_ALIGN_def)
  have "int l - int (NLMSG_ALIGN l) = int (l mod 4) - 4" unfolding a by (simp add: zmod_int zdiv_int minus_mult_div_eq_mod[symmetric])
  moreover have r: "l mod 4 < 4" by simp
  ultimately have d: "int32 (int l - int (NLMSG_ALIGN l)) = int (l mod 4) - 4" unfolding int32_def by simp
  have m: "(int (l mod 4) - 4) mod 4294967296 = int (4294967292 + l mod 4)"
    using mod_add_self2[of "int (l mod 4) - 4" 4294967296] r by simp
  show "NLMSG_OK False b (nlh + NLMSG_ALIGN l) (int32 (int l - int (NLMSG_ALIGN l))) = Some False"
    using r unfolding NLMSG_OK_def d Let_def by auto
  show "NLMSG_OK True b (nlh + NLMSG_ALIGN l) (int32 (int l - int (NLMSG_ALIGN l))) =
      map_option (\<lambda>k. 16 \<le> k \<and> k \<le> 4294967292 + l mod 4) (ld32 b (nlh + NLMSG_ALIGN l))"
    unfolding NLMSG_OK_def d Let_def if_True m of_nat_le_iff by (cases "ld32 b (nlh + NLMSG_ALIGN l)") simp_all
qed

end
