(* ===== verification/Netlink_Hello.thy ===== *)
theory Netlink_Hello
  imports Netlink_Route
begin

text \<open>
  \<^verbatim>\<open>src/netlink+kernel\<close>: a kernel module that answers every netlink message with a greeting, and a program that sends one message
  and prints the answer. Messages are bytes, laid out as in \<^verbatim>\<open>Netlink_Route\<close>.
\<close>

section \<open>The module\<close>

definition kernel_text :: "byte list" where
  "kernel_text = bytes_of ''Hello from kernel''"

text \<open>The handler: \<open>skb\<close> are the bytes of the message. What it prints, and the message for the process it came from (its pid is at offset
  12), if any. The text has no terminating zero; \<^verbatim>\<open>nlmsg_put\<close> fills the message up to a multiple of four bytes with zeros. \<open>None\<close>:
  the payload does not end inside the message.\<close>

definition hello_nl_recv_msg :: "bool \<Rightarrow> bool \<Rightarrow> byte list \<Rightarrow> (event list \<times> (nat \<times> byte list) option) option" where
  "hello_nl_recv_msg mem_ok unicast_ok skb = do {
     payload \<leftarrow> str_at skb 16;
     let es = [Printf (ln ''Entering: %s'') [Str ''hello_nl_recv_msg''], Printf (ln ''Netlink received msg payload:%s'') [payload]];
     pid \<leftarrow> ld32 skb 12;
     if \<not> mem_ok then Some (es @ [say (ln ''Failed to allocate new skb'')], None)
     else if \<not> unicast_ok then Some (es @ [say (ln ''Error while sending bak to user'')], None)
     else Some (es, Some (pid, enc_msg (3, kernel_text))) }"

definition hello_init :: "bool \<Rightarrow> int \<times> event list" where
  "hello_init created = (let e = Printf (ln ''Entering: %s'') [Str ''hello_init''] in
     if created then (0, [e]) else (-10, [e, say (ln ''Error creating socket.'')]))"

section \<open>The program\<close>

definition MAX_PAYLOAD :: nat where
  "MAX_PAYLOAD = 1024"

text \<open>The buffer: cleared, the length and the pid of the sender set, the text copied without its zero.\<close>

definition hello_msg :: "nat \<Rightarrow> byte list" where
  "hello_msg pid = le32b (16 + MAX_PAYLOAD) @ replicate 8 0 @ le32b pid @ bytes_of ''Hello'' @ replicate (MAX_PAYLOAD - 5) 0"

text \<open>The answer is stored over the message; \<open>answer\<close> is what comes back for the bytes sent, \<open>None\<close> when nothing does and the program
  waits. The result is the exit code, \<open>None\<close> when it still waits, and what has been printed.\<close>

definition user_main :: "int \<Rightarrow> nat \<Rightarrow> (byte list \<Rightarrow> byte list option) \<Rightarrow> (int option \<times> event list) option" where
  "user_main sock_fd pid answer =
     (if sock_fd < 0 then Some (Some (-1), [])
      else let nlh = hello_msg pid; es = [say (ln ''Sending message to kernel''), say (ln ''Waiting for message from kernel'')] in
        case answer nlh of
          None \<Rightarrow> Some (None, es)
        | Some r \<Rightarrow> do {
            text \<leftarrow> str_at (take (length nlh) r @ drop (length r) nlh) 16;
            Some (Some 0, es @ [Printf (ln ''Received message payload: %s'') [text]]) })"

text \<open>The module as the program sees it: an answer goes to the socket with the pid the handler found.\<close>

definition answer_to :: "nat \<Rightarrow> bool \<Rightarrow> bool \<Rightarrow> byte list \<Rightarrow> byte list option" where
  "answer_to own mem_ok unicast_ok skb = (case hello_nl_recv_msg mem_ok unicast_ok skb of
     Some (_, Some (pid, r)) \<Rightarrow> if pid = own then Some r else None
   | _ \<Rightarrow> None)"

section \<open>The round trip\<close>

lemma length_hello: "length (hello_msg pid) = 1040"
  by (simp add: hello_msg_def MAX_PAYLOAD_def le32b_def bytes_of_def)

lemma hello_payload: "drop 16 (hello_msg pid) = bytes_of ''Hello'' @ replicate (MAX_PAYLOAD - 5) 0"
  by (simp add: hello_msg_def le32b_def)

lemma str_at_zeros:
  assumes "drop d b = bytes_of s @ replicate (Suc n) 0" "0 \<notin> set (bytes_of s)" "map (\<lambda>c. char_of (unat c)) (bytes_of s) = s"
  shows "str_at b d = Some (Str s)"
  using assms cstr_zeros[OF assms(2), of "Suc n"] by (simp add: str_at_def)

lemma hello_pid:
  assumes "pid < 4294967296"
  shows "ld32 (hello_msg pid) 12 = Some pid"
proof -
  have "ld32 ((le32b (16 + MAX_PAYLOAD) @ replicate 8 0) @ le32b pid @ bytes_of ''Hello'' @ replicate (MAX_PAYLOAD - 5) 0)
      (length (le32b (16 + MAX_PAYLOAD) @ replicate 8 (0 :: byte))) = Some pid"
    by (rule ld32_le32b[OF assms])
  then show ?thesis by (simp add: hello_msg_def le32b_def)
qed

lemma text_of_bytes: "map (\<lambda>c. char_of (unat c)) (bytes_of s) = s"
  by (simp add: bytes_of_def comp_def unat_of_nat)

lemma no_zero: "0 \<notin> set (bytes_of ''Hello'')" "0 \<notin> set (bytes_of ''Hello from kernel'')"
  by (simp_all add: bytes_of_def)

text \<open>The program and the module: the module prints the program's greeting, answers the process that sent it, and the program
  prints the module's greeting, which the zeros of its own message terminate; without memory or when the answer cannot be sent,
  the program waits for ever.\<close>
theorem netlink_hello:
  assumes "pid < 4294967296" "0 \<le> sock_fd"
  shows "fst (the (hello_nl_recv_msg mem_ok unicast_ok (hello_msg pid))) ! 1 = Printf (ln ''Netlink received msg payload:%s'') [Str ''Hello''] \<and>
    user_main sock_fd pid (answer_to pid mem_ok unicast_ok) =
      Some (if mem_ok \<and> unicast_ok then Some 0 else None, [say (ln ''Sending message to kernel''), say (ln ''Waiting for message from kernel'')] @
        (if mem_ok \<and> unicast_ok then [Printf (ln ''Received message payload: %s'') [Str ''Hello from kernel'']] else []))"
proof -
  have "replicate (MAX_PAYLOAD - 5) 0 = replicate (Suc 1018) (0 :: byte)" by (simp add: MAX_PAYLOAD_def)
  then have p: "str_at (hello_msg pid) 16 = Some (Str ''Hello'')"
    by (intro str_at_zeros[of _ _ _ 1018] no_zero(1) text_of_bytes) (simp only: hello_payload)
  define r where "r = enc_msg (3, kernel_text)"
  have k: "length kernel_text = 17" by (simp add: kernel_text_def bytes_of_def)
  have e: "r = le32b 33 @ le16b 3 @ replicate 10 0 @ kernel_text @ replicate 3 0"
    unfolding r_def by (simp add: pad4_def le32b_def le16b_def k)
  have l: "length r = 36" unfolding e by (simp add: le32b_def le16b_def k)
  have d: "drop 36 (hello_msg pid) = replicate 1004 0" by (simp add: hello_msg_def le32b_def bytes_of_def MAX_PAYLOAD_def)
  have "drop 16 r = kernel_text @ replicate 3 0" unfolding e by (simp add: le32b_def le16b_def)
  then have "drop 16 (take 1040 r @ drop 36 (hello_msg pid)) = kernel_text @ replicate (Suc 1006) 0"
    unfolding d using l by (simp add: replicate_add[symmetric] del: replicate.simps)
  then have t: "str_at (take 1040 r @ drop 36 (hello_msg pid)) 16 = Some (Str ''Hello from kernel'')"
    unfolding kernel_text_def by (intro str_at_zeros[of _ _ _ 1006] no_zero(2) text_of_bytes)
  have h: "hello_nl_recv_msg mem_ok unicast_ok (hello_msg pid) =
      Some ([Printf (ln ''Entering: %s'') [Str ''hello_nl_recv_msg''], Printf (ln ''Netlink received msg payload:%s'') [Str ''Hello'']] @
          (if \<not> mem_ok then [say (ln ''Failed to allocate new skb'')] else if \<not> unicast_ok then [say (ln ''Error while sending bak to user'')] else []),
        if mem_ok \<and> unicast_ok then Some (pid, r) else None)"
    using p hello_pid[OF assms(1)] by (simp add: hello_nl_recv_msg_def Let_def r_def del: enc_msg.simps)
  then have "answer_to pid mem_ok unicast_ok (hello_msg pid) = (if mem_ok \<and> unicast_ok then Some r else None)" by (simp add: answer_to_def)
  then show ?thesis using h assms(2) t l by (simp add: user_main_def length_hello Let_def)
qed

theorem netlink_hello_witness:
  "user_main 3 77 (answer_to 77 True True) = Some (Some 0, [say (ln ''Sending message to kernel''), say (ln ''Waiting for message from kernel''),
    Printf (ln ''Received message payload: %s'') [Str ''Hello from kernel'']])"
  using netlink_hello[of 77 3 True True] by simp

end
