(* ===== verification/Inc_Prev.thy ===== *)
theory Inc_Prev
  imports C_Output
begin

text \<open>
  \<^verbatim>\<open>src/inc_prev\<close>: a kernel module that makes the process whose number is written to \<^verbatim>\<open>/proc/inc_prev\<close> privileged, and a program that
  writes its own number and then opens \<^verbatim>\<open>/etc/shadow\<close> when it gets SIGTSTP. Processes refer to their credentials by address, and
  may share them.
\<close>

section \<open>The module\<close>

record cred =
  cr_uid :: u32
  cr_euid :: u32
  cr_fsuid :: u32

record task =
  t_pid :: u32
  t_comm :: string
  t_cred :: addr
  t_real_cred :: addr

text \<open>The kernel: its processes, the credentials, and the module's variable \<^verbatim>\<open>pid\<close>.\<close>

record kern =
  tasks :: "task list"
  creds :: "addr \<Rightarrow> cred option"
  mod_pid :: u32

text \<open>The body of the loop over the processes, for one of them.\<close>

definition raise_task :: "task \<Rightarrow> (event list \<times> kern) \<Rightarrow> (event list \<times> kern) option" where
  "raise_task t s = (case s of (es, k) \<Rightarrow>
     if t_pid t = mod_pid k then do {
       c \<leftarrow> creds k (t_cred t);
       r \<leftarrow> creds k (t_real_cred t);
       let e = Printf (ln ''changing %d - %s ; uid %d'') [Num (sint (t_pid t)), Str (t_comm t), Num (sint (cr_uid r))];
       let k = k\<lparr>creds := (creds k)(t_cred t \<mapsto> c\<lparr>cr_euid := 0, cr_fsuid := 0\<rparr>)\<rparr>;
       Some (es @ [e, Printf (ln ''uids %d -- %d '') [Num (sint (cr_uid r)), Num (sint (cr_uid c))],
                   Printf (ln ''pid %d , %s is now root'') [Num (sint (t_pid t)), Str (t_comm t)]], k) }
     else Some (es, k))"

fun raise_all :: "task list \<Rightarrow> event list \<times> kern \<Rightarrow> (event list \<times> kern) option" where
  "raise_all [] s = Some s"
| "raise_all (t # ts) s = Option.bind (raise_task t s) (raise_all ts)"

definition inc_prev :: "kern \<Rightarrow> (event list \<times> kern) option" where
  "inc_prev k = raise_all (tasks k) ([], k)"

text \<open>Four bytes are read, however many the process writes: \<open>user\<close> is the number they make.\<close>

definition write_proc :: "u32 \<Rightarrow> nat \<Rightarrow> kern \<Rightarrow> (int \<times> event list \<times> kern) option" where
  "write_proc user count k = do {
     (es, k) \<leftarrow> inc_prev (k\<lparr>mod_pid := user\<rparr>);
     Some (4, Printf (ln ''Recv pid from user: %d '') [Num (sint user)] # es, k) }"

section \<open>The program\<close>

text \<open>\<open>fd\<close> is the result of \<^verbatim>\<open>open\<close>; the second component says whether the program goes on.\<close>

definition send_pid :: "int \<Rightarrow> u32 \<Rightarrow> kern \<Rightarrow> (event list \<times> bool \<times> kern) option" where
  "send_pid fd p k = (if fd = -1 then Some ([Perror ''open(proc file)''], False, k)
     else do {
       (bts, _, k) \<leftarrow> write_proc p 4 k;
       if bts = -1 then Some ([Perror ''write''], False, k)
       else Some ([Printf ''send pid: %d'' [Num (sint p)]], True, k) })"

text \<open>Whether a process may read a file that only root may read is decided by the file system user id of its credentials.\<close>

definition may_open_shadow :: "u32 \<Rightarrow> kern \<Rightarrow> bool option" where
  "may_open_shadow p k = do {
     t \<leftarrow> List.find (\<lambda>t. t_pid t = p) (tasks k);
     c \<leftarrow> creds k (t_cred t);
     Some (cr_fsuid c = 0) }"

datatype signal = SIGINT | SIGTSTP

text \<open>The handler: what it prints, and whether the program ends.\<close>

fun shadow_sig_hndl :: "u32 \<Rightarrow> signal \<Rightarrow> kern \<Rightarrow> (event list \<times> bool) option" where
  "shadow_sig_hndl p SIGINT k = Some ([say (ln '': received signal SIGINT'' @ ln ''exit'')], True)"
| "shadow_sig_hndl p SIGTSTP k = do {
     ok \<leftarrow> may_open_shadow p k;
     Some ([say (ln '': received signal SIGTSTP'' @ ln ''trying to open a file''),
            if ok then say (ln ''file successfully opened'') else Perror ''unable to open file'', say (ln [])], False) }"

section \<open>What is raised\<close>

lemma raise_task_creds:
  assumes "raise_task t (es, k) = Some (es', k')"
  shows "tasks k' = tasks k" "mod_pid k' = mod_pid k"
    "creds k' a = (if t_pid t = mod_pid k \<and> t_cred t = a then map_option (\<lambda>c. c\<lparr>cr_euid := 0, cr_fsuid := 0\<rparr>) (creds k a) else creds k a)"
  using assms by (auto simp: raise_task_def Let_def split: if_splits bind_splits)

lemma raise_all_creds:
  "raise_all ts (es, k) = Some (es', k') \<Longrightarrow> tasks k' = tasks k \<and> mod_pid k' = mod_pid k \<and>
    creds k' a = (if \<exists>t \<in> set ts. t_pid t = mod_pid k \<and> t_cred t = a then map_option (\<lambda>c. c\<lparr>cr_euid := 0, cr_fsuid := 0\<rparr>) (creds k a) else creds k a)"
proof (induction ts arbitrary: es k)
  case (Cons t ts)
  then obtain es1 k1 where s: "raise_task t (es, k) = Some (es1, k1)" "raise_all ts (es1, k1) = Some (es', k')"
    by (auto split: bind_splits)
  show ?case using Cons.IH[OF s(2)] raise_task_creds(1,2)[OF s(1)] raise_task_creds(3)[OF s(1), of a] by (auto simp: option.map_comp comp_def)
qed simp

definition live_creds :: "kern \<Rightarrow> bool" where
  "live_creds k = (\<forall>t \<in> set (tasks k). creds k (t_cred t) \<noteq> None \<and> creds k (t_real_cred t) \<noteq> None)"

lemma raise_all_live: "\<forall>t \<in> set ts. creds k (t_cred t) \<noteq> None \<and> creds k (t_real_cred t) \<noteq> None \<Longrightarrow> \<exists>es' k'. raise_all ts (es, k) = Some (es', k')"
proof (induction ts arbitrary: es k)
  case (Cons t ts)
  have "raise_task t (es, k) \<noteq> None" using Cons.prems by (auto simp: raise_task_def Let_def)
  then obtain es1 k1 where s: "raise_task t (es, k) = Some (es1, k1)" by auto
  have "creds k1 a \<noteq> None" if "creds k a \<noteq> None" for a using raise_task_creds(3)[OF s, of a] that by auto
  then show ?case using Cons.prems s Cons.IH[of k1 es1] by auto
qed simp

text \<open>What a write to the file does. The credentials that the process with the written number uses get the effective and the file
  system user id of root, and so every process that shares them becomes privileged; all other credentials, and all the real user
  ids, stay as they are. Afterwards the program's handler opens the file.\<close>
theorem inc_prev_exact:
  assumes "live_creds k" "t \<in> set (tasks k)" "fd \<noteq> -1"
  shows "\<exists>es k'. send_pid fd (t_pid t) k = Some (es, True, k') \<and>
    (\<forall>a. creds k' a = (if \<exists>u \<in> set (tasks k). t_pid u = t_pid t \<and> t_cred u = a then map_option (\<lambda>c. c\<lparr>cr_euid := 0, cr_fsuid := 0\<rparr>) (creds k a) else creds k a)) \<and>
    shadow_sig_hndl (t_pid t) SIGTSTP k' = Some ([say (ln '': received signal SIGTSTP'' @ ln ''trying to open a file''), say (ln ''file successfully opened''), say (ln [])], False)"
proof -
  let ?k = "k\<lparr>mod_pid := t_pid t\<rparr>"
  obtain es k' where r: "raise_all (tasks k) ([], ?k) = Some (es, k')" using raise_all_live[of "tasks k" ?k "[]"] assms(1) by (auto simp: live_creds_def)
  note c = raise_all_creds[OF r]
  obtain u where u: "List.find (\<lambda>u. t_pid u = t_pid t) (tasks k) = Some u" "u \<in> set (tasks k)" "t_pid u = t_pid t"
    using assms(2) by (cases "List.find (\<lambda>u. t_pid u = t_pid t) (tasks k)") (auto simp: find_None_iff find_Some_iff)
  have "\<exists>v. creds k' (t_cred u) = Some v \<and> cr_fsuid v = 0" using c[of "t_cred u"] u(2,3) assms(1) by (auto simp: live_creds_def)
  then have "may_open_shadow (t_pid t) k' = Some True" using u(1) c[of 0] by (auto simp: may_open_shadow_def)
  moreover have "send_pid fd (t_pid t) k = Some ([Printf ''send pid: %d'' [Num (sint (t_pid t))]], True, k')"
    using assms(3) r by (simp add: send_pid_def write_proc_def inc_prev_def)
  ultimately show ?thesis using c by auto
qed

definition two_tasks :: kern where
  "two_tasks = \<lparr>tasks = [\<lparr>t_pid = 1, t_comm = ''init'', t_cred = 1, t_real_cred = 1\<rparr>, \<lparr>t_pid = 9, t_comm = ''shadow'', t_cred = 2, t_real_cred = 2\<rparr>],
     creds = [1 \<mapsto> \<lparr>cr_uid = 0, cr_euid = 0, cr_fsuid = 0\<rparr>, 2 \<mapsto> \<lparr>cr_uid = 1000, cr_euid = 1000, cr_fsuid = 1000\<rparr>], mod_pid = 0\<rparr>"

theorem inc_prev_exact_witness: "\<exists>es k'. send_pid 3 9 two_tasks = Some (es, True, k') \<and> creds k' 2 = Some \<lparr>cr_uid = 1000, cr_euid = 0, cr_fsuid = 0\<rparr>"
  using inc_prev_exact[of two_tasks "\<lparr>t_pid = 9, t_comm = ''shadow'', t_cred = 2, t_real_cred = 2\<rparr>" 3]
  by (auto simp: two_tasks_def live_creds_def)

end
