(* ===== verification/Udp_Cast.thy ===== *)
theory Udp_Cast
  imports Socket_Servers
begin

text \<open>
  \<^verbatim>\<open>src/udp_broadcast_server\<close> and \<^verbatim>\<open>src/udp_multicast_server\<close>: a server that sends the same text every five seconds to the broadcast
  address of its network, or to a multicast group, and the clients that print what they receive. The calls' results are arguments;
  the network is any choice of the datagrams sent.
\<close>

section \<open>The servers\<close>

definition broadcast_server_init :: "int \<Rightarrow> int \<Rightarrow> int \<Rightarrow> event list \<times> bool" where
  "broadcast_server_init sd_srv reuse broadcast = run_steps [
     Check sd_srv [Perror ''Server: socket(server)'', close sd_srv],
     Check reuse [Perror ''Server: setsockopt(SO_REUSEADDR)'', close sd_srv],
     Check broadcast [Perror ''Server: setsockopt(SO_BROADCAST)'', close sd_srv],
     Show (say (ln ''Server start''))]"

definition multicast_server_init :: "int \<Rightarrow> int \<Rightarrow> event list \<times> bool" where
  "multicast_server_init sd_srv reuse = run_steps [
     Check sd_srv [Perror ''Server: socket(server)'', close sd_srv],
     Check reuse [Perror ''Server: setsockopt(SO_REUSEADDR)'', close sd_srv],
     Show (say (ln ''Server start''))]"

text \<open>The loop, with whether each \<^verbatim>\<open>sendto\<close> succeeds: the datagrams sent, the output, and whether the server has ended.\<close>

fun cast_loop :: "int \<Rightarrow> byte list \<Rightarrow> bool list \<Rightarrow> byte list list \<times> event list \<times> bool" where
  "cast_loop sd_srv msg [] = ([], [], False)"
| "cast_loop sd_srv msg (ok # oks) = (if \<not> ok then ([], [Perror ''Server: sendto(client)'', close sd_srv], True)
     else case cast_loop sd_srv msg oks of (ds, es, stop) \<Rightarrow>
       (msg # ds, Printf (ln (''Server: send broadcast message: '' @ sq ''%s'' @ '' (%d bytes)'')) [text_arg msg, Num (int (length msg))] # es, stop))"

definition broadcast_server :: "int \<Rightarrow> int \<Rightarrow> int \<Rightarrow> bool list \<Rightarrow> byte list list \<times> event list \<times> bool" where
  "broadcast_server sd_srv reuse broadcast oks = (case broadcast_server_init sd_srv reuse broadcast of (es, reached) \<Rightarrow>
     if \<not> reached then ([], es, True)
     else case cast_loop sd_srv (bytes_of ''broadcast message'') oks of (ds, es', stop) \<Rightarrow> (ds, es @ es', stop))"

definition multicast_server :: "int \<Rightarrow> int \<Rightarrow> bool list \<Rightarrow> byte list list \<times> event list \<times> bool" where
  "multicast_server sd_srv reuse oks = (case multicast_server_init sd_srv reuse of (es, reached) \<Rightarrow>
     if \<not> reached then ([], es, True)
     else case cast_loop sd_srv (bytes_of ''multicast message'') oks of (ds, es', stop) \<Rightarrow> (ds, es @ es', stop))"

section \<open>The clients\<close>

definition broadcast_client_init :: "(peer \<Rightarrow> string) \<Rightarrow> peer \<Rightarrow> int \<Rightarrow> int \<Rightarrow> event list \<times> bool" where
  "broadcast_client_init host srv sd_cln rtn = run_steps [
     Check sd_cln [Perror ''Client: socket(client)'', close sd_cln],
     Check rtn [Perror ''Client: bind(server)'', close sd_cln],
     Show (Printf (ln ''Client: udp broadcast server %s:%d (hs: %s)'') [Str (inet_ntoa (ip srv)), num16 (ntohs (port srv)), Str (host srv)])]"

text \<open>Whether the client joins the group is not checked.\<close>

definition multicast_client_init :: "int \<Rightarrow> int \<Rightarrow> event list \<times> bool" where
  "multicast_client_init sd_cln rtn = run_steps [
     Check sd_cln [Perror ''Client: socket(client)'', close sd_cln],
     Check rtn [Perror ''Client: bind(server)'', close sd_cln]]"

text \<open>The loop over what \<^verbatim>\<open>recvfrom\<close> returns; a datagram that fills the buffer of 256 bytes without a zero leaves no terminating zero.\<close>

fun cast_client_loop :: "int \<Rightarrow> byte list option list \<Rightarrow> (event list \<times> bool) option" where
  "cast_client_loop sd_cln [] = Some ([], False)"
| "cast_client_loop sd_cln (None # rs) = Some ([Perror ''Client: recvfrom(server)'', close sd_cln], True)"
| "cast_client_loop sd_cln (Some d # rs) = (let msg = msg_buf d in
     if 0 \<notin> set msg then None
     else map_option (\<lambda>(es, stop). (Printf (ln (''Client: receive message from server: '' @ sq ''%s'' @ '' (%d bytes)''))
            [text_arg (cstr msg), Num (int (length (cstr msg)))] # es, stop)) (cast_client_loop sd_cln rs))"

definition broadcast_client :: "(peer \<Rightarrow> string) \<Rightarrow> peer \<Rightarrow> int \<Rightarrow> int \<Rightarrow> byte list option list \<Rightarrow> (event list \<times> bool) option" where
  "broadcast_client host srv sd_cln rtn rs = (case broadcast_client_init host srv sd_cln rtn of (es, reached) \<Rightarrow>
     if \<not> reached then Some (es, True) else map_option (\<lambda>(es', stop). (es @ es', stop)) (cast_client_loop sd_cln rs))"

definition multicast_client :: "int \<Rightarrow> int \<Rightarrow> byte list option list \<Rightarrow> (event list \<times> bool) option" where
  "multicast_client sd_cln rtn rs = (case multicast_client_init sd_cln rtn of (es, reached) \<Rightarrow>
     if \<not> reached then Some (es, True) else map_option (\<lambda>(es', stop). (es @ es', stop)) (cast_client_loop sd_cln rs))"

section \<open>What the clients print\<close>

lemma cast_loop_sends: "set (fst (cast_loop sd msg oks)) \<subseteq> {msg}" "length (fst (cast_loop sd msg oks)) = length (takeWhile (\<lambda>ok. ok) oks)"
  by (induction oks) (auto split: prod.splits)

definition heard_line :: "byte list \<Rightarrow> event" where
  "heard_line m = Printf (ln (''Client: receive message from server: '' @ sq ''%s'' @ '' (%d bytes)'')) [text_arg m, Num (int (length m))]"

lemma cast_client_hears:
  assumes "set ds \<subseteq> {m}" "0 \<notin> set m" "length m < 256"
  shows "cast_client_loop sd (map Some ds) = Some (replicate (length ds) (heard_line m), False)"
proof -
  have "0 \<in> set (msg_buf m) \<and> cstr (msg_buf m) = m" using assms(2,3) cstr_pad[of m 256 256] by (auto simp: msg_buf_def)
  then show ?thesis using assms(1) by (induction ds) (auto simp: heard_line_def Let_def)
qed

lemma cast_texts: "0 \<notin> set (bytes_of ''broadcast message'')" "length (bytes_of ''broadcast message'') < 256"
  "0 \<notin> set (bytes_of ''multicast message'')" "length (bytes_of ''multicast message'') < 256"
  by (simp_all add: bytes_of_def)

text \<open>Each server sends one datagram for every turn of its loop until a call fails, and a client that receives any of them, in any order,
  with losses and repetitions, prints its text and length once for each datagram that arrives, and goes on.\<close>
theorem cast_received:
  assumes "set bs \<subseteq> set (fst (broadcast_server sd 0 0 oks))" "set ms \<subseteq> set (fst (multicast_server sd 0 oks))" "sd \<noteq> -1" "sd' \<noteq> -1"
  shows "length (fst (broadcast_server sd 0 0 oks)) = length (takeWhile (\<lambda>ok. ok) oks) \<and>
    (\<exists>es. broadcast_client host srv sd' 0 (map Some bs) = Some (es @ replicate (length bs) (heard_line (bytes_of ''broadcast message'')), False)) \<and>
    multicast_client sd' 0 (map Some ms) = Some (replicate (length ms) (heard_line (bytes_of ''multicast message'')), False)"
proof -
  have i: "broadcast_server_init sd 0 0 = ([say (ln ''Server start'')], True)" "multicast_server_init sd 0 = ([say (ln ''Server start'')], True)"
    using assms(3) by (simp_all add: broadcast_server_init_def multicast_server_init_def)
  have b: "fst (broadcast_server sd 0 0 oks) = fst (cast_loop sd (bytes_of ''broadcast message'') oks)"
    "fst (multicast_server sd 0 oks) = fst (cast_loop sd (bytes_of ''multicast message'') oks)"
    by (simp_all only: broadcast_server_def multicast_server_def i) (simp_all split: prod.splits)
  have s: "set bs \<subseteq> {bytes_of ''broadcast message''}" "set ms \<subseteq> {bytes_of ''multicast message''}"
    using assms(1,2) cast_loop_sends(1) unfolding b by blast+
  show ?thesis unfolding b cast_loop_sends(2)
    using assms(4) by (simp add: broadcast_client_def multicast_client_def broadcast_client_init_def multicast_client_init_def
      cast_client_hears[OF s(1) cast_texts(1,2)] cast_client_hears[OF s(2) cast_texts(3,4)])
qed

theorem cast_received_witness:
  "multicast_client 4 0 [Some (bytes_of ''multicast message'')] = Some ([heard_line (bytes_of ''multicast message'')], False)"
  using cast_received[of "[]" 3 "[True]" "[bytes_of ''multicast message'']" 4 "\<lambda>_. []" peer_a]
  by (simp add: multicast_server_def multicast_server_init_def)

end
