(* ===== verification/Form_Examples.thy ===== *)
theory Form_Examples
  imports Dir_Panel File_Copy Window_Layout
begin

text \<open>
  Two programs that try out forms, from which the file manager's dialogs come: \<^verbatim>\<open>src/ncurses_form/main.c\<close> and
  \<^verbatim>\<open>src/backup/fm_3/fields_magic.c\<close>. They differ in their windows and texts; the function that cuts white space, the driver and the loop
  are the same. The form library is a parameter; a key is the number \<^verbatim>\<open>getch\<close> returns.
\<close>

section \<open>The driver\<close>

datatype freq = F_NEXT_FIELD | F_PREV_FIELD | F_END_LINE | F_PREV_CHAR | F_NEXT_CHAR | F_DEL_PREV | F_DEL_CHAR | F_CH int

text \<open>The library: \<open>fl_buffer\<close> is the text of a field up to the first zero, \<open>fl_active\<close> the option \<^verbatim>\<open>O_ACTIVE\<close>, and \<open>fl_poke\<close> a zero stored
  into the library's own buffer.\<close>

record 'f flib =
  fl_driver :: "freq \<Rightarrow> 'f \<Rightarrow> 'f"
  fl_buffer :: "'f \<Rightarrow> nat \<Rightarrow> byte list"
  fl_active :: "'f \<Rightarrow> nat \<Rightarrow> bool"
  fl_poke :: "nat \<Rightarrow> nat \<Rightarrow> 'f \<Rightarrow> 'f"

definition KEY_F :: "int \<Rightarrow> int" where
  "KEY_F n = 264 + n"

text \<open>One turn of the loop of the second function key: \<^verbatim>\<open>trim_whitespaces\<close> ends the text in the buffer it is given.\<close>

definition print_field :: "'f flib \<Rightarrow> nat \<Rightarrow> 'f \<Rightarrow> event list \<times> 'f" where
  "print_field lib i f = (let b = fl_buffer lib f i; t = trim_whitespaces b; skipped = length (takeWhile isspace b) in
     ([Printf ''%s'' [Str (text_of t)], say (if fl_active lib f i then [CHR 0x22, CHR 0x09] else '': '' @ [CHR 0x22])],
      if t = [] then f else fl_poke lib i (skipped + length t) f))"

fun print_fields :: "'f flib \<Rightarrow> nat list \<Rightarrow> 'f \<Rightarrow> event list \<times> 'f" where
  "print_fields lib [] f = ([], f)"
| "print_fields lib (i # is) f = (let (es, f) = print_field lib i f; (es', f) = print_fields lib is f in (es @ es', f))"

definition driver :: "'f flib \<Rightarrow> int \<Rightarrow> int \<Rightarrow> 'f \<Rightarrow> event list \<times> 'f" where
  "driver lib LINES ch f = (let (es, f) =
     (if ch = KEY_F 2 then
        let (es, f) = print_fields lib [0..<4] (fl_driver lib F_PREV_FIELD (fl_driver lib F_NEXT_FIELD f)) in
          ([Call ''move'' [Num (LINES - 3), Num 2]] @ es @ [Call ''refresh'' [], Call ''pos_form_cursor'' []], f)
      else if ch = 258 then ([], fl_driver lib F_END_LINE (fl_driver lib F_NEXT_FIELD f))
      else if ch = 259 then ([], fl_driver lib F_END_LINE (fl_driver lib F_PREV_FIELD f))
      else if ch = 260 then ([], fl_driver lib F_PREV_CHAR f)
      else if ch = 261 then ([], fl_driver lib F_NEXT_CHAR f)
      else if ch = 263 \<or> ch = 127 then ([], fl_driver lib F_DEL_PREV f)
      else if ch = 330 then ([], fl_driver lib F_DEL_CHAR f)
      else ([], fl_driver lib (F_CH ch) f)) in (es @ [Call ''wrefresh'' []], f))"

text \<open>The loop on the keys typed, with whether it has ended.\<close>

fun form_loop :: "'f flib \<Rightarrow> int \<Rightarrow> int list \<Rightarrow> 'f \<Rightarrow> event list \<times> 'f \<times> bool" where
  "form_loop lib LINES [] f = ([], f, False)"
| "form_loop lib LINES (ch # chs) f = (if ch = KEY_F 1 then ([], f, True)
     else let (es, f) = driver lib LINES ch f; (es', f, e) = form_loop lib LINES chs f in (es @ es', f, e))"

section \<open>The forms\<close>

text \<open>A field: its size, place, text and whether it is for input.\<close>

definition new_field :: "int \<Rightarrow> int \<Rightarrow> int \<Rightarrow> bool \<Rightarrow> string \<Rightarrow> field" where
  "new_field width toprow leftcol active t = \<lparr>f_cols = width, f_row = toprow, f_col = leftcol, f_active = active, f_text = t\<rparr>"

record form_wnds =
  e_body :: rect
  e_form :: rect
  e_sub :: rect
  e_fields :: "field list"

definition fields_magic :: "int \<Rightarrow> int \<Rightarrow> form_wnds" where
  "fields_magic rows cols = (let dir = ''/home/2017/d_medvedev/work/file_manager'' in \<lparr>
     e_body = rect 12 (cols div 2) (rows div 2 - 6) (cols div 2 - cols div 4),
     e_form = rect 10 (cols div 2 - 2) 1 1,
     e_sub = rect 8 (cols div 2 - 4) 1 1,
     e_fields = [new_field 10 0 1 False ''[ From ]:'', new_field (cols div 2 - 6) 2 1 True dir,
       new_field 10 4 1 False ''[ To ]:'', new_field (cols div 2 - 6) 6 1 True dir]\<rparr>)"

definition ncurses_form :: form_wnds where
  "ncurses_form = \<lparr>
     e_body = rect 24 80 0 0, e_form = rect 20 78 3 1, e_sub = rect 18 76 1 1,
     e_fields = [new_field 10 0 0 False ''label1'', new_field 40 0 15 True ''val1'',
       new_field 10 2 0 False ''label2'', new_field 40 2 15 True ''val2'']\<rparr>"

definition field_rect :: "field \<Rightarrow> rect" where
  "field_rect f = rect 1 (f_cols f) (f_row f) (f_col f)"

text \<open>The windows exist, and the library can show the form.\<close>

definition form_fits :: "form_wnds \<Rightarrow> bool" where
  "form_fits w \<longleftrightarrow> inside (e_body w) (e_form w) \<and> inside (e_form w) (e_sub w) \<and> list_all (\<lambda>f. inside (e_sub w) (field_rect f)) (e_fields w)"

lemma forms_fit: "form_fits (fields_magic rows cols) \<longleftrightarrow> 30 \<le> cols" "form_fits ncurses_form"
  by (auto simp: form_fits_def fields_magic_def ncurses_form_def field_rect_def new_field_def layout_defs Let_def)

section \<open>What is printed\<close>

text \<open>The library keeps the other fields, and the options of all, when a zero is stored into a buffer.\<close>

definition poke_ok :: "'f flib \<Rightarrow> bool" where
  "poke_ok lib \<longleftrightarrow> (\<forall>i n f. (\<forall>j. j \<noteq> i \<longrightarrow> fl_buffer lib (fl_poke lib i n f) j = fl_buffer lib f j) \<and> fl_active lib (fl_poke lib i n f) = fl_active lib f)"

definition field_events :: "bool \<Rightarrow> byte list \<Rightarrow> event list" where
  "field_events active b = [Printf ''%s'' [Str (text_of (trim_whitespaces b))], say (if active then [CHR 0x22, CHR 0x09] else '': '' @ [CHR 0x22])]"

lemma print_field_events: "fst (print_field lib i f) = field_events (fl_active lib f i) (fl_buffer lib f i)"
  by (simp add: print_field_def field_events_def Let_def)

lemma print_field_keeps:
  "poke_ok lib \<Longrightarrow> fl_active lib (snd (print_field lib i f)) = fl_active lib f \<and> (j \<noteq> i \<longrightarrow> fl_buffer lib (snd (print_field lib i f)) j = fl_buffer lib f j)"
  by (simp add: print_field_def Let_def poke_ok_def)

lemma print_fields_events:
  "poke_ok lib \<Longrightarrow> distinct is \<Longrightarrow> fst (print_fields lib is f) = concat (map (\<lambda>i. field_events (fl_active lib f i) (fl_buffer lib f i)) is)"
proof (induction "is" arbitrary: f)
  case (Cons i "is")
  let ?g = "snd (print_field lib i f)"
  have m: "map (\<lambda>j. field_events (fl_active lib ?g j) (fl_buffer lib ?g j)) is = map (\<lambda>j. field_events (fl_active lib f j) (fl_buffer lib f j)) is"
  proof (rule map_cong[OF refl])
    fix j assume "j \<in> set is"
    then have "j \<noteq> i" using Cons.prems(2) by auto
    then show "field_events (fl_active lib ?g j) (fl_buffer lib ?g j) = field_events (fl_active lib f j) (fl_buffer lib f j)"
      using print_field_keeps[OF Cons.prems(1), of i f j] by simp
  qed
  show ?case using Cons.IH[of ?g] Cons.prems by (simp add: print_field_events case_prod_beta m del: map_eq_conv)
qed simp

text \<open>Only the second function key prints; every other key is one or two requests to the library.\<close>

lemma driver_silent: "ch \<noteq> KEY_F 2 \<Longrightarrow> fst (driver lib LINES ch f) = [Call ''wrefresh'' []]"
  by (auto simp: driver_def Let_def)

text \<open>The second function key prints the fields: with labels and input fields in turn, as in both programs, every label and the value
  behind it between quotation marks, each without the white space around it.\<close>
theorem driver_prints:
  assumes "poke_ok lib" "g = fl_driver lib F_PREV_FIELD (fl_driver lib F_NEXT_FIELD f)" "map (fl_active lib g) [0..<4] = map f_active (e_fields w)"
    "w = ncurses_form \<or> w = fields_magic rows cols"
  shows "fst (driver lib LINES (KEY_F 2) f) = [Call ''move'' [Num (LINES - 3), Num 2]] @
    field_events False (fl_buffer lib g 0) @ field_events True (fl_buffer lib g 1) @ field_events False (fl_buffer lib g 2) @ field_events True (fl_buffer lib g 3) @
    [Call ''refresh'' [], Call ''pos_form_cursor'' [], Call ''wrefresh'' []]"
proof -
  have "fl_active lib g 0 = False \<and> fl_active lib g 1 = True \<and> fl_active lib g 2 = False \<and> fl_active lib g 3 = True"
    using assms(3,4) by (auto simp: ncurses_form_def fields_magic_def new_field_def Let_def upt_rec numeral_eq_Suc)
  then show ?thesis using print_fields_events[OF assms(1), of "[0..<4]" g]
    by (simp add: driver_def Let_def case_prod_beta upt_rec flip: assms(2)) (simp add: numeral_eq_Suc)
qed

end
