(* ===== verification/Complex_Calc.thy ===== *)
theory Complex_Calc
  imports Complex_Main C_Output "HOL-Library.Sublist"
begin

text \<open>
  The calculators for complex numbers, \<^verbatim>\<open>src/backup/calc_1\<close> with its plugins in \<^verbatim>\<open>lib\<close> (those of \<^verbatim>\<open>src/backup/calc_0\<close> are the same functions),
  and what of \<^verbatim>\<open>src/backup/calc_0/src/main.c\<close> selects the plugins; the rest of that file does not compile. The type of the
  numbers, \<^verbatim>\<open>double\<close> in the program, is a type variable, and reading one from a text is a parameter; facts about results hold in an
  ordered field, that is for exact arithmetic. \<open>None\<close> is undefined behaviour.
\<close>

section \<open>The plugins\<close>

record 'a cmplx_num =
  cn_a :: 'a
  cn_b :: 'a

text \<open>A function with the result of its call of \<^verbatim>\<open>malloc\<close>: the number it returns, and how many blocks nobody has a pointer to any more.\<close>

definition cn_add :: "bool \<Rightarrow> ('a::plus) cmplx_num \<Rightarrow> 'a cmplx_num \<Rightarrow> 'a cmplx_num option \<times> nat" where
  "cn_add ok x y = (if \<not> ok then (None, 0) else (Some \<lparr>cn_a = cn_a x + cn_a y, cn_b = cn_b x + cn_b y\<rparr>, 0))"

definition cn_sub :: "bool \<Rightarrow> ('a::minus) cmplx_num \<Rightarrow> 'a cmplx_num \<Rightarrow> 'a cmplx_num option \<times> nat" where
  "cn_sub ok x y = (if \<not> ok then (None, 0) else (Some \<lparr>cn_a = cn_a x - cn_a y, cn_b = cn_b x - cn_b y\<rparr>, 0))"

definition cn_mul :: "bool \<Rightarrow> ('a::{plus,minus,times}) cmplx_num \<Rightarrow> 'a cmplx_num \<Rightarrow> 'a cmplx_num option \<times> nat" where
  "cn_mul ok x y = (if \<not> ok then (None, 0)
     else (Some \<lparr>cn_a = cn_a x * cn_a y - cn_b x * cn_b y, cn_b = cn_a x * cn_b y + cn_b x * cn_a y\<rparr>, 0))"

definition cn_div :: "bool \<Rightarrow> ('a::{plus,minus,times,divide,zero}) cmplx_num \<Rightarrow> 'a cmplx_num \<Rightarrow> 'a cmplx_num option \<times> nat" where
  "cn_div ok x y = (if \<not> ok then (None, 0)
     else if cn_a y = 0 \<and> cn_b y = 0 then (None, 1)
     else (Some \<lparr>cn_a = (cn_a x * cn_a y + cn_b x * cn_b y) div (cn_a y * cn_a y + cn_b y * cn_b y),
       cn_b = (cn_a y * cn_b x - cn_a x * cn_b y) div (cn_a y * cn_a y + cn_b y * cn_b y)\<rparr>, 0))"

section \<open>Loading the plugins\<close>

type_synonym 'a cn_fun = "bool \<Rightarrow> 'a cmplx_num \<Rightarrow> 'a cmplx_num \<Rightarrow> 'a cmplx_num option \<times> nat"

text \<open>A shared library: its three texts and its functions.\<close>

record 'a shared =
  so_name :: "string option"
  so_main :: "string option"
  so_title :: "string option"
  so_fun :: "string \<Rightarrow> 'a cn_fun option"

record 'a plugin =
  plgn_name :: string
  main_func :: string
  menu_title :: string
  pf :: "'a cn_fun"

text \<open>The environment: whether the directory can be entered, its entries in the order of \<^verbatim>\<open>alphasort\<close>, the current directory, \<^verbatim>\<open>dlopen\<close>,
  which call of \<^verbatim>\<open>malloc\<close> succeeds, and the reading of a number, with the text that is left.\<close>

record 'a cenv =
  can_chdir :: bool
  dir_entries :: "string list option"
  cwd :: "string option"
  dlopen :: "string \<Rightarrow> 'a shared option"
  mem :: "nat \<Rightarrow> bool"
  scan_lf :: "string \<Rightarrow> 'a option \<times> string"

datatype 'a out = Text string | Item int string | Plugin string string string | Err string | Res 'a 'a

definition lib_file_filter :: "string \<Rightarrow> bool" where
  "lib_file_filter d_name = sublist ''.so'' d_name"

definition file_select :: "string \<Rightarrow> bool" where
  "file_select d_name = (d_name \<noteq> ''.so'')"

definition find_libs :: "'a cenv \<Rightarrow> string list option \<times> int" where
  "find_libs e = (case dir_entries e of
     None \<Rightarrow> (None, - 1)
   | Some ns \<Rightarrow> let fnl = filter lib_file_filter ns in (if fnl = [] then None else Some fnl, int (length fnl)))"

definition get_plgn_path :: "'a cenv \<Rightarrow> nat \<Rightarrow> string \<Rightarrow> string option" where
  "get_plgn_path e k file = (if \<not> mem e k then None else map_option (\<lambda>cur_dir. take 254 (cur_dir @ ''/'' @ file)) (cwd e))"

text \<open>The loop over the files; the result is the output and the plugins, or no plugins after an error.\<close>

fun load_loop :: "'a cenv \<Rightarrow> nat \<Rightarrow> string list \<Rightarrow> ('a out list \<times> 'a plugin list option) option" where
  "load_loop e k [] = Some ([], Some [])"
| "load_loop e k (n # ns) = do {
     plgn_path \<leftarrow> get_plgn_path e k n;
     case dlopen e plgn_path of
       None \<Rightarrow> Some ([Err ''dlopen() error''], None)
     | Some l \<Rightarrow> do {
         m \<leftarrow> so_main l;
         case (so_name l, so_title l, so_fun l m) of
           (Some p, Some t, Some f) \<Rightarrow> do {
             (es, r) \<leftarrow> load_loop e (Suc k) ns;
             Some (es, map_option (\<lambda>ps. \<lparr>plgn_name = p, main_func = m, menu_title = t, pf = f\<rparr> # ps) r) }
         | _ \<Rightarrow> Some ([Err ''dlsym() error''], None) } }"

text \<open>The number of plugins is stored before they are loaded.\<close>

definition load_plgns :: "'a cenv \<Rightarrow> nat \<Rightarrow> ('a out list \<times> 'a plugin list option \<times> int) option" where
  "load_plgns e k = (if \<not> can_chdir e then Some ([Err ''chdir''], None, 0)
     else case find_libs e of
       (None, pc) \<Rightarrow> Some ([Text (ln [])], Some [], pc)
     | (Some pfn, pc) \<Rightarrow> if \<not> mem e k then None else do {
         (es, plgns) \<leftarrow> load_loop e (Suc k) pfn;
         Some (Text (ln []) # es, plgns, pc) })"

section \<open>The menu\<close>

definition nl :: char where
  "nl = CHR 0x0A"

text \<open>\<^verbatim>\<open>fgets\<close> with a buffer of 255; at the end of the input the buffer is not changed.\<close>

definition fgets :: "string \<Rightarrow> (string \<times> string) option" where
  "fgets s = (if s = [] then None
     else let l = take 254 (takeWhile (\<lambda>c. c \<noteq> nl) s @ (if nl \<in> set s then [nl] else [])) in Some (l, drop (length l) s))"

definition space :: "char \<Rightarrow> bool" where
  "space c = (c \<in> {CHR 0x09, CHR 0x0A, CHR 0x0B, CHR 0x0C, CHR 0x0D, CHR '' ''})"

definition digit :: "char \<Rightarrow> bool" where
  "digit c = (48 \<le> (of_char c :: nat) \<and> (of_char c :: nat) \<le> 57)"

definition digits_value :: "string \<Rightarrow> int" where
  "digits_value ds = foldl (\<lambda>v c. 10 * v + (of_char c - 48)) 0 ds"

text \<open>\<^verbatim>\<open>sscanf\<close> with \<^verbatim>\<open>%d\<close>: \<open>Some None\<close> when there is no number; a number that is not an \<^verbatim>\<open>int\<close> is undefined.\<close>

definition sscanf_d :: "string \<Rightarrow> int option option" where
  "sscanf_d s = (let s = dropWhile space s; neg = (s \<noteq> [] \<and> hd s = CHR ''-''); s = (if s \<noteq> [] \<and> hd s \<in> {CHR ''-'', CHR ''+''} then tl s else s);
       ds = takeWhile digit s; v = (if neg then - digits_value ds else digits_value ds) in
     if ds = [] then Some None else if v < - 2147483648 \<or> 2147483647 < v then None else Some (Some v))"

record 'a calc =
  user_sel :: "string option"
  us :: int
  first_num :: "'a option \<times> 'a option"
  second_num :: "'a option \<times> 'a option"
  input :: string
  allocs :: nat
  lost :: nat

datatype 'a turn = Return "'a out list" | Again "'a out list" "'a calc"

text \<open>\<^verbatim>\<open>scanf\<close> with two numbers; what cannot be read stays as it is.\<close>

definition scan2 :: "'a cenv \<Rightarrow> 'a option \<times> 'a option \<Rightarrow> string \<Rightarrow> ('a option \<times> 'a option) \<times> string" where
  "scan2 e old s = (case scan_lf e s of
     (None, r) \<Rightarrow> (old, r)
   | (Some x, r) \<Rightarrow> (case scan_lf e r of (None, r) \<Rightarrow> ((Some x, snd old), r) | (Some y, r) \<Rightarrow> ((Some x, Some y), r)))"

definition number :: "'a option \<times> 'a option \<Rightarrow> 'a cmplx_num option" where
  "number p = do { a \<leftarrow> fst p; b \<leftarrow> snd p; Some \<lparr>cn_a = a, cn_b = b\<rparr> }"

definition clear :: "'a out list" where
  "clear = [Text (CHR 0x1B # ''[2J''), Text (CHR 0x1B # ''[0;0f'')]"

definition items :: "'a plugin list option \<Rightarrow> int \<Rightarrow> 'a out list option" where
  "items plgns pc = (if pc \<le> 0 then Some [] else map_option (\<lambda>ps. map (\<lambda>i. Item (int i) (menu_title (ps ! i))) [0..<nat pc]) plgns)"

definition calculate :: "'a cenv \<Rightarrow> 'a cn_fun \<Rightarrow> 'a calc \<Rightarrow> ('a out list \<times> 'a calc) option" where
  "calculate e f s = (let (x, r) = scan2 e (first_num s) (input s); (y, r) = scan2 e (second_num s) r in do {
     x' \<leftarrow> number x;
     y' \<leftarrow> number y;
     let (ans, n) = f (mem e (allocs s)) x' y' in
       Some (clear @ [Text (nl # ''Input the first complex number: ''), Text ''Input the second complex number: ''] @
           [case ans of None \<Rightarrow> Text ''Error'' | Some z \<Rightarrow> Res (cn_a z) (cn_b z)],
         s\<lparr>first_num := x, second_num := y, input := drop 2 r, allocs := Suc (allocs s), lost := lost s + n\<rparr>) })"

text \<open>One turn of the main loop.\<close>

definition calc_turn :: "'a cenv \<Rightarrow> 'a plugin list option \<Rightarrow> int \<Rightarrow> 'a calc \<Rightarrow> 'a turn option" where
  "calc_turn e plgns pc s = do {
     its \<leftarrow> items plgns pc;
     let menu = clear @ [Text (nl # ln ''[ Arithmetic operations on complex numbers ]'')] @ its @ [Item (max 0 pc) ''[Ex]it'', Text (nl # '' > Select an arithmetic operation: '')];
     let s = (case fgets (input s) of None \<Rightarrow> s | Some (l, r) \<Rightarrow> s\<lparr>user_sel := Some l, input := r\<rparr>);
     sel \<leftarrow> user_sel s;
     n \<leftarrow> sscanf_d sel;
     let s = (case n of None \<Rightarrow> s | Some n \<Rightarrow> s\<lparr>us := n\<rparr>);
     if us s = pc \<or> hd sel = CHR ''q'' \<or> sel = ''quit'' \<or> sel = ''exit'' then Some (Return menu)
     else if us s < pc then (if us s < 0 then None else do {
       ps \<leftarrow> plgns;
       (es, s) \<leftarrow> calculate e (pf (ps ! nat (us s))) s;
       Some (Again (menu @ es) s) })
     else Some (Again menu s) }"

text \<open>At most \<open>n\<close> turns: the output and whether the program has returned.\<close>

fun calc_loop :: "nat \<Rightarrow> 'a cenv \<Rightarrow> 'a plugin list option \<Rightarrow> int \<Rightarrow> 'a calc \<Rightarrow> ('a out list \<times> bool) option" where
  "calc_loop 0 e plgns pc s = Some ([], False)"
| "calc_loop (Suc n) e plgns pc s = do {
     t \<leftarrow> calc_turn e plgns pc s;
     case t of
       Return es \<Rightarrow> Some (es, True)
     | Again es s \<Rightarrow> do { (es', b) \<leftarrow> calc_loop n e plgns pc s; Some (es @ es', b) } }"

definition calc_main :: "nat \<Rightarrow> 'a cenv \<Rightarrow> string \<Rightarrow> ('a out list \<times> bool) option" where
  "calc_main n e inp = (if \<not> mem e 0 \<or> \<not> mem e 1 then Some ([], True) else do {
     (es, plgns, pc) \<leftarrow> load_plgns e 2;
     ps \<leftarrow> (if pc \<le> 0 then Some [] else plgns);
     let shown = map (\<lambda>p. Plugin (plgn_name p) (main_func p) (menu_title p)) ps;
     (es', b) \<leftarrow> calc_loop n e plgns pc \<lparr>user_sel = None, us = 0, first_num = (None, None), second_num = (None, None), input = drop 1 inp,
       allocs = (if can_chdir e then 3 + nat pc else 2), lost = 0\<rparr>;
     Some (clear @ es @ shown @ es', b) })"

section \<open>Exact arithmetic\<close>

lemma squares_0: "x * x + y * y = 0 \<longleftrightarrow> x = 0 \<and> y = 0" for x y :: "'a::linordered_field"
  by (metis add.right_neutral mult_eq_0_iff sum_squares_eq_zero_iff)

text \<open>Division is the inverse of multiplication, and fails only for zero, when it also loses a block.\<close>

lemma cn_div_mul:
  fixes x y :: "('a::linordered_field) cmplx_num"
  shows "cn_div True x y = (if cn_a y = 0 \<and> cn_b y = 0 then (None, 1) else (fst (cn_div True x y), 0)) \<and>
    (\<not> (cn_a y = 0 \<and> cn_b y = 0) \<longrightarrow> (\<exists>q. fst (cn_div True x y) = Some q \<and> cn_mul True q y = (Some x, 0)))"
proof (cases "cn_a y = 0 \<and> cn_b y = 0")
  case False
  let ?a = "cn_a x" and ?b = "cn_b x" and ?c = "cn_a y" and ?d = "cn_b y"
  let ?n = "?c * ?c + ?d * ?d"
  have n: "?n \<noteq> 0" using False by (simp add: squares_0)
  have "(?a * ?c + ?b * ?d) / ?n * ?c - (?c * ?b - ?a * ?d) / ?n * ?d = ?a * ?n / ?n"
    by (simp add: algebra_simps add_divide_distrib diff_divide_distrib)
  moreover have "(?a * ?c + ?b * ?d) / ?n * ?d + (?c * ?b - ?a * ?d) / ?n * ?c = ?b * ?n / ?n"
    by (simp add: algebra_simps add_divide_distrib diff_divide_distrib)
  ultimately show ?thesis using n False by (auto simp: cn_div_def cn_mul_def)
qed (simp add: cn_div_def)

section \<open>The menu\<close>

lemma fgets_line: "c \<noteq> nl \<Longrightarrow> fgets (c # nl # r) = Some ([c, nl], r)"
  by (simp add: fgets_def Let_def)

text \<open>The keys of the first ten entries.\<close>

definition key :: "nat \<Rightarrow> char" where
  "key i = char_of (48 + i)"

lemma key_facts: "i < 10 \<Longrightarrow> key i \<noteq> nl \<and> key i \<noteq> CHR ''q'' \<and> sscanf_d [key i, nl] = Some (Some (int i)) \<and> [key i, nl] \<noteq> ''quit'' \<and> [key i, nl] \<noteq> ''exit''"
proof -
  assume "i < 10"
  then have "i \<in> {0, 1, 2, 3, 4, 5, 6, 7, 8, 9}" by auto
  then show ?thesis by (auto simp: key_def nl_def sscanf_d_def digit_def digits_value_def space_def Let_def char_of_def of_char_def bit_Suc_0_iff)
qed

text \<open>Two numbers at the start of a text.\<close>

definition two_numbers :: "'a cenv \<Rightarrow> string \<Rightarrow> 'a cmplx_num \<Rightarrow> string \<Rightarrow> bool" where
  "two_numbers e s x r \<longleftrightarrow> (\<exists>r'. scan_lf e s = (Some (cn_a x), r') \<and> scan_lf e r' = (Some (cn_b x), r))"

lemma scan2_numbers: "two_numbers e s x r \<Longrightarrow> \<exists>p. scan2 e old s = (p, r) \<and> number p = Some x"
  by (auto simp: two_numbers_def scan2_def number_def)

lemma turn_selects:
  assumes "i < 10" "i < length ps" "input s = key i # nl # t" "two_numbers e t x r" "two_numbers e r y r'" "pf (ps ! i) (mem e (allocs s)) x y = (ans, n)"
  shows "\<exists>es s'. calc_turn e (Some ps) (int (length ps)) s = Some (Again (es @ [case ans of None \<Rightarrow> Text ''Error'' | Some z \<Rightarrow> Res (cn_a z) (cn_b z)]) s') \<and>
    input s' = drop 2 r' \<and> lost s' = lost s + n"
proof -
  have k: "key i \<noteq> nl" "key i \<noteq> CHR ''q''" "sscanf_d [key i, nl] = Some (Some (int i))" "[key i, nl] \<noteq> ''quit''" "[key i, nl] \<noteq> ''exit''"
    using key_facts[OF assms(1)] by auto
  obtain p where p: "scan2 e (first_num s) t = (p, r)" "number p = Some x" using scan2_numbers[OF assms(4)] by blast
  obtain q where q: "scan2 e (second_num s) r = (q, r')" "number q = Some y" using scan2_numbers[OF assms(5)] by blast
  show ?thesis using assms(2) by (simp add: calc_turn_def Let_def items_def assms(3) fgets_line[OF k(1)] k calculate_def p q assms(6))
qed

text \<open>The four plugins, in the order of their files.\<close>

definition four :: "('a::{plus,minus,times,divide,zero}) plugin list" where
  "four = [\<lparr>plgn_name = ''add.so'', main_func = ''cn_add'', menu_title = ''[Add]ition'', pf = cn_add\<rparr>,
     \<lparr>plgn_name = ''div.so'', main_func = ''cn_div'', menu_title = ''[Div]ision'', pf = cn_div\<rparr>,
     \<lparr>plgn_name = ''mul.so'', main_func = ''cn_mul'', menu_title = ''[Mul]tiplication'', pf = cn_mul\<rparr>,
     \<lparr>plgn_name = ''sub.so'', main_func = ''cn_sub'', menu_title = ''[Sub]traction'', pf = cn_sub\<rparr>]"


text \<open>C29: The calculator calculates. With the four plugins loaded, numbers in an exact arithmetic and memory, one turn in which the user
  selects the entry \<open>i\<close> and types two complex numbers comes back to the menu, behind the two characters that follow the numbers, and
  shows for the entries in turn their sum, their quotient, which times the second number is the first, their product and their
  difference; division by zero shows an error and loses a block.\<close>
theorem calc_answers:
  fixes x y :: "('a::linordered_field) cmplx_num"
  assumes "i < 4" "input s = key i # nl # t" "two_numbers e t x r" "two_numbers e r y r'" "mem e (allocs s)"
  shows "\<exists>es a s'. calc_turn e (Some four) 4 s = Some (Again (es @ [a]) s') \<and> input s' = drop 2 r' \<and>
    (case i of 0 \<Rightarrow> a = Res (cn_a x + cn_a y) (cn_b x + cn_b y)
     | Suc 0 \<Rightarrow> (if cn_a y = 0 \<and> cn_b y = 0 then a = Text ''Error'' \<and> lost s' = Suc (lost s)
         else (\<exists>p q. a = Res p q \<and> p * cn_a y - q * cn_b y = cn_a x \<and> p * cn_b y + q * cn_a y = cn_b x \<and> lost s' = lost s))
     | Suc (Suc 0) \<Rightarrow> a = Res (cn_a x * cn_a y - cn_b x * cn_b y) (cn_a x * cn_b y + cn_b x * cn_a y)
     | _ \<Rightarrow> a = Res (cn_a x - cn_a y) (cn_b x - cn_b y))"
proof -
  let ?f = "pf (four ! i) :: 'a cn_fun"
  obtain ans n where f: "?f True x y = (ans, n)" by fastforce
  have 4: "int (length (four :: 'a plugin list)) = 4" "i < length (four :: 'a plugin list)" "i < 10" using assms(1) by (simp_all add: four_def)
  have "\<exists>es s'. calc_turn e (Some four) 4 s = Some (Again (es @ [case ans of None \<Rightarrow> Text ''Error'' | Some z \<Rightarrow> Res (cn_a z) (cn_b z)]) s') \<and>
      input s' = drop 2 r' \<and> lost s' = lost s + n"
    using turn_selects[OF 4(3,2) assms(2-4)] f assms(5) unfolding 4(1) by simp
  then obtain es s' where t: "calc_turn e (Some four) 4 s = Some (Again (es @ [case ans of None \<Rightarrow> Text ''Error'' | Some z \<Rightarrow> Res (cn_a z) (cn_b z)]) s')"
    "input s' = drop 2 r'" "lost s' = lost s + n" by blast
  consider "i = 0" | "i = 1" "cn_a y = 0 \<and> cn_b y = 0" | "i = 1" "\<not> (cn_a y = 0 \<and> cn_b y = 0)" | "i = 2" | "i = 3" using assms(1) by linarith
  then show ?thesis
  proof cases
    case 3
    then have g: "cn_div True x y = (ans, n)" using f by (simp add: four_def)
    then obtain q where "ans = Some q" "n = 0" "cn_mul True q y = (Some x, 0)" using cn_div_mul[of x y] 3(2) by auto
    then show ?thesis using t 3 by (fastforce simp: cn_mul_def)
  qed (use t f in \<open>fastforce simp: four_def cn_add_def cn_sub_def cn_mul_def cn_div_def numeral_eq_Suc\<close>)+
qed


text \<open>Numbers of one digit.\<close>

definition scan_digit :: "string \<Rightarrow> rat option \<times> string" where
  "scan_digit s = (let s = dropWhile space s in if s \<noteq> [] \<and> digit (hd s) then (Some (of_int (digits_value [hd s])), tl s) else (None, s))"

definition mini :: "rat cenv" where
  "mini = \<lparr>can_chdir = True, dir_entries = None, cwd = None, dlopen = (\<lambda>_. None), mem = (\<lambda>_. True), scan_lf = scan_digit\<rparr>"

definition asked :: "rat calc" where
  "asked = \<lparr>user_sel = None, us = 0, first_num = (None, None), second_num = (None, None), input = key 1 # nl # ''4 2'' @ nl # ''1 1'' @ [nl, nl], allocs = 7, lost = 0\<rparr>"

theorem calc_answers_witness:
  "\<exists>es p q s'. calc_turn mini (Some four) 4 asked = Some (Again (es @ [Res p q]) s') \<and> p - q = 4 \<and> p + q = 2 \<and> input s' = []"
proof -
  have n: "two_numbers mini (''4 2'' @ nl # ''1 1'' @ [nl, nl]) \<lparr>cn_a = 4, cn_b = 2\<rparr> (nl # ''1 1'' @ [nl, nl])" "two_numbers mini (nl # ''1 1'' @ [nl, nl]) \<lparr>cn_a = 1, cn_b = 1\<rparr> [nl, nl]"
    by (simp_all add: two_numbers_def mini_def scan_digit_def space_def digit_def digits_value_def nl_def of_char_def Let_def bit_Suc_0_iff)
  have a: "input asked = key 1 # nl # ''4 2'' @ nl # ''1 1'' @ [nl, nl]" "mem mini (allocs asked)" by (simp_all add: asked_def mini_def)
  show ?thesis using calc_answers[OF _ a(1) n a(2)] by fastforce
qed

section \<open>What goes wrong\<close>

text \<open>The end of the input: the last choice is repeated for ever.\<close>

lemma calc_at_end:
  assumes "input s = []" "user_sel s = Some sel" "sscanf_d sel = Some (Some i)" "0 \<le> i" "i < int (length ps)" "hd sel \<noteq> CHR ''q''" "sel \<noteq> ''quit''" "sel \<noteq> ''exit''"
    "scan_lf e [] = (None, [])" "number (first_num s) = Some x" "number (second_num s) = Some y"
  shows "\<exists>es. calc_loop n e (Some ps) (int (length ps)) s = Some (es, False)"
  using assms
proof (induction n arbitrary: s)
  case (Suc n)
  obtain ans k where f: "pf (ps ! nat i) (mem e (allocs s)) x y = (ans, k)" by fastforce
  let ?s = "s\<lparr>us := i, allocs := Suc (allocs s), lost := lost s + k\<rparr>"
  have "\<exists>es. calc_turn e (Some ps) (int (length ps)) s = Some (Again es ?s)"
    using Suc.prems f by (simp add: calc_turn_def fgets_def Let_def items_def calculate_def scan2_def)
  then obtain es where t: "calc_turn e (Some ps) (int (length ps)) s = Some (Again es ?s)" by blast
  have "\<exists>es. calc_loop n e (Some ps) (int (length ps)) ?s = Some (es, False)" by (rule Suc.IH) (use Suc.prems in simp_all)
  then show ?case by (auto simp: t)
qed simp

text \<open>If a plugin cannot be loaded, there are no plugins, but their number is not 0: the program uses a null pointer.\<close>

lemma calc_bad_plugin:
  assumes "can_chdir e" "\<forall>k. mem e k" "find_libs e = (Some pfn, pc)" "load_loop e 3 pfn = Some (es, None)"
  shows "calc_main n e inp = None"
proof -
  have "0 < pc" using assms(3) by (auto simp: find_libs_def Let_def split: option.splits if_splits)
  moreover have "load_plgns e 2 = Some (Text (ln []) # es, None, pc)" using assms by (simp add: load_plgns_def eval_nat_numeral)
  ultimately show ?thesis using assms(2) by (simp add: calc_main_def)
qed

text \<open>Otherwise there is one for every file whose name contains \<^verbatim>\<open>.so\<close>.\<close>

lemma load_loop_length: "load_loop e k ns = Some (es, Some ps) \<Longrightarrow> length ps = length ns"
proof (induction ns arbitrary: k es ps)
  case (Cons n ns)
  obtain path where path: "get_plgn_path e k n = Some path" using Cons.prems by (cases "get_plgn_path e k n") simp_all
  obtain l where l: "dlopen e path = Some l" using Cons.prems path by (cases "dlopen e path") simp_all
  obtain m where m: "so_main l = Some m" using Cons.prems path l by (cases "so_main l") simp_all
  obtain p t f where "so_name l = Some p" "so_title l = Some t" "so_fun l m = Some f"
    using Cons.prems path l m by (cases "so_name l"; cases "so_title l"; cases "so_fun l m") auto
  then show ?case using Cons path l m by (auto simp: bind_eq_Some_conv)
qed simp

lemma file_select_all: "file_select n \<longleftrightarrow> n \<noteq> ''.so''" "lib_file_filter ''add.so'' \<and> file_select ''test.txt'' \<and> \<not> lib_file_filter ''test.txt''"
  by (simp_all add: file_select_def lib_file_filter_def sublist_code)

end
