(* ===== verification/Small_Examples.thy ===== *)
theory Small_Examples
  imports C_Output
begin

text \<open>
  Examples of a page: the modules of \<^verbatim>\<open>src/hello\<close>, which print when they are loaded and removed, the last of them with parameters;
  \<^verbatim>\<open>src/backup/struct\<close>, which reads packed structures from a buffer; and \<^verbatim>\<open>src/backup/define\<close>, conditional compilation. What the
  kernel stores into the parameters of a module is an argument; it has the types of the variables.
\<close>

section \<open>Modules that greet\<close>

definition printk :: "string \<Rightarrow> arg list \<Rightarrow> event" where
  "printk fmt xs = Printf (ln fmt) xs"

definition init_module :: "int \<times> event list" where
  "init_module = (0, [printk ''Hello world!'' []])"

definition cleanup_module :: "event list" where
  "cleanup_module = [printk ''Goodbye world!'' []]"

definition hello_2_init :: "int \<times> event list" where
  "hello_2_init = (0, [printk ''Hello, world 2'' []])"

definition hello_2_exit :: "event list" where
  "hello_2_exit = [printk ''Goodbye, world 2'' []]"

definition hello3_data :: int where
  "hello3_data = 3"

definition hello_3_init :: "int \<times> event list" where
  "hello_3_init = (0, [printk ''Hello, world %d'' [Num hello3_data]])"

definition hello_3_exit :: "event list" where
  "hello_3_exit = [printk ''Goodbye, world 3'' []]"

record hello5 =
  myshort :: "16 word"
  myint :: "32 word"
  mylong :: "64 word"
  mystring :: string
  myintArray :: "32 word list"
  arr_argc :: "32 word"

text \<open>The values without parameters.\<close>

definition hello5_data :: hello5 where
  "hello5_data = \<lparr>myshort = 1, myint = 420, mylong = 9999, mystring = ''blah'', myintArray = [-1, -1], arr_argc = 0\<rparr>"

text \<open>The parameters of a \<^verbatim>\<open>module_param_array\<close>: as many values as are given overwrite those from the start, and are counted; more
  than there is room for are refused, and the module is not loaded.\<close>

definition set_array :: "32 word list \<Rightarrow> hello5 \<Rightarrow> hello5 option" where
  "set_array vs m = (if length (myintArray m) < length vs then None
     else Some (m\<lparr>myintArray := vs @ drop (length vs) (myintArray m), arr_argc := of_nat (length vs)\<rparr>))"

fun array_lines :: "nat \<Rightarrow> 32 word list \<Rightarrow> event list" where
  "array_lines i [] = []"
| "array_lines i (x # xs) = printk ''myintArray[%d] = %d'' [Num (int i), Num (sint x)] # array_lines (Suc i) xs"

definition hello_5_init :: "hello5 \<Rightarrow> int \<times> event list" where
  "hello_5_init m = (0, [printk (ln ''Hello, world 5'' @ ''============='') [],
     printk ''myshort is a short integer: %hd'' [Num (sint (myshort m))],
     printk ''myint is an integer: %d'' [Num (sint (myint m))],
     printk ''mylong is a long integer: %ld'' [Num (sint (mylong m))],
     printk ''mystring is a string: %s'' [Str (mystring m)]] @
     array_lines 0 (myintArray m) @
     [printk ''got %d arguments for myintArray.'' [Num (sint (arr_argc m))]])"

definition hello_5_exit :: "event list" where
  "hello_5_exit = [printk ''Goodbye, world 5'' []]"

section \<open>A packed structure\<close>

record test =
  t_c :: "8 word"
  t_b :: "32 word"

definition sizeof_test :: nat where
  "sizeof_test = 5"

definition le32 :: "byte list \<Rightarrow> 32 word" where
  "le32 bs = foldr (\<lambda>x w. ucast x OR push_bit 8 w) bs 0"

text \<open>The structure at an address of the buffer, whose bytes must lie inside it.\<close>

definition deref :: "byte list \<Rightarrow> nat \<Rightarrow> test option" where
  "deref a t = (if t + sizeof_test \<le> length a then Some \<lparr>t_c = a ! t, t_b = le32 (take 4 (drop (t + 1) a))\<rparr> else None)"

definition struct_print :: "byte list \<Rightarrow> event list option" where
  "struct_print a = do {
     t \<leftarrow> deref a 0;
     t' \<leftarrow> deref a (0 + sizeof_test);
     Some [Printf (CHR 0x0A # ln ''Char: %c'' @ ln (ln ''Int: %d'')) [Num (sint (t_c t)), Num (sint (t_b t))],
       Printf (ln ''Char: %c'' @ ln ''Int: %d'') [Num (sint (t_c t')), Num (sint (t_b t'))]] }"

definition struct_main :: "event list option" where
  "struct_main = struct_print [0x61, 10, 0, 0, 0, 0x62, 0, 0, 0, 0]"

section \<open>Conditional compilation\<close>

text \<open>Whether \<^verbatim>\<open>HELLO\<close> is defined, and the value of \<^verbatim>\<open>GOODBUE\<close>, 0 when it is not defined.\<close>

definition define_main :: "bool \<Rightarrow> int \<Rightarrow> event list" where
  "define_main HELLO GOODBUE = (if HELLO then [say (ln ''Hello world'')] else if GOODBUE \<noteq> 0 then [say (ln ''Goodbue world'')] else [])"

section \<open>What they print\<close>

lemma array_lines_nth: "length (array_lines k xs) = length xs \<and>
    (\<forall>i < length xs. array_lines k xs ! i = printk ''myintArray[%d] = %d'' [Num (int (k + i)), Num (sint (xs ! i))])"
  by (induction k xs rule: array_lines.induct) (auto simp: nth_Cons add_ac split: nat.splits)

text \<open>The values given are printed, after them the initial ones of the places not given, and how many were given.\<close>

lemma hello_5_prints:
  assumes "set_array vs hello5_data = Some m"
  shows "length vs \<le> 2 \<and> length (snd (hello_5_init m)) = 8 \<and> snd (hello_5_init m) ! 7 = printk ''got %d arguments for myintArray.'' [Num (int (length vs))] \<and>
    (\<forall>i < 2. snd (hello_5_init m) ! (5 + i) = printk ''myintArray[%d] = %d'' [Num (int i), Num (if i < length vs then sint (vs ! i) else -1)])"
proof -
  have v: "length vs \<le> 2" "m = hello5_data\<lparr>myintArray := vs @ drop (length vs) [-1, -1], arr_argc := of_nat (length vs)\<rparr>"
    using assms by (auto simp: set_array_def hello5_data_def split: if_splits)
  then have "length vs = 0 \<or> length vs = Suc 0 \<or> length vs = Suc (Suc 0)" by linarith
  then consider "vs = []" | x where "vs = [x]" | x y where "vs = [x, y]" by (auto simp: length_Suc_conv)
  then show ?thesis by cases (simp_all add: v(2) hello_5_init_def hello5_data_def All_less_Suc numeral_eq_Suc)
qed

text \<open>The bytes of a packed structure.\<close>

definition packed :: "test \<Rightarrow> byte list" where
  "packed t = t_c t # map (\<lambda>i. ucast (drop_bit (8 * i) (t_b t))) [0, 1, 2, 3]"

lemma le32_bytes: "le32 (map (\<lambda>i. ucast (drop_bit (8 * i) w)) [0, 1, 2, 3]) = w"
proof (rule bit_word_eqI)
  fix n assume "n < LENGTH(32)"
  then have "n < 8 \<or> (\<exists>k < 8. n = 8 + k) \<or> (\<exists>k < 8. n = 16 + k) \<or> (\<exists>k < 8. n = 24 + k)" by simp presburger
  then consider "n < 8" | k where "n = 8 + k" "k < 8" | k where "n = 16 + k" "k < 8" | k where "n = 24 + k" "k < 8" by blast
  then show "bit (le32 (map (\<lambda>i. ucast (drop_bit (8 * i) w)) [0, 1, 2, 3])) n = bit w n"
    by cases (simp_all add: le32_def bit_or_iff bit_push_bit_iff bit_drop_bit_eq bit_ucast_iff)
qed

lemma struct_print_packed:
  "struct_print (packed t @ packed t') = Some [Printf (CHR 0x0A # ln ''Char: %c'' @ ln (ln ''Int: %d'')) [Num (sint (t_c t)), Num (sint (t_b t))],
     Printf (ln ''Char: %c'' @ ln ''Int: %d'') [Num (sint (t_c t')), Num (sint (t_b t'))]]"
  using le32_bytes[of "t_b t"] le32_bytes[of "t_b t'"] by (simp add: struct_print_def deref_def packed_def sizeof_test_def)

lemma struct_main_prints:
  "struct_main = Some [Printf (CHR 0x0A # ln ''Char: %c'' @ ln (ln ''Int: %d'')) [Num 97, Num 10], Printf (ln ''Char: %c'' @ ln ''Int: %d'') [Num 98, Num 0]]"
  using struct_print_packed[of "\<lparr>t_c = 0x61, t_b = 10\<rparr>" "\<lparr>t_c = 0x62, t_b = 0\<rparr>"] by (simp add: struct_main_def packed_def)

end
