(* ===== verification/Spec2Isabelle.thy ===== *)
theory Spec2Isabelle
  imports List_Tests Chunk_Allocator Sniffer_Main Dns_Proxy Char_Device Ioctl_Device Proc_Files Pipe_Line Highload_Clients Icmp_Ping Icmp_Traceroute Socket_Servers Mutex_Counter Mutex_Store Thread_Data Safe_Threads Queue_Chat Udp_Raw Sctp_Transfer Packet_Hooks File_Manager File_Copy First_File_Manager Middle_File_Managers Time_Daemon Process_Tree Netlink_Hello Inc_Prev Udp_Cast Panel_Directory Form_Examples Complex_Calc Small_Examples
begin

text \<open>
  This development models a collection of C programs, each in a directory of its own under \<^verbatim>\<open>src/\<close>: a list
  library and its benchmark, hooks that replace the C library's memory allocator, a packet sniffer, ping and
  traceroute over raw sockets, Linux kernel modules (a caching DNS proxy, character devices, files in
  \<^verbatim>\<open>/proc\<close>), and network servers with their clients. The programs share no code at run time, but they share
  parts by copying: the Internet checksum and the dump of a packet occur in several of them. Those parts have
  a theory of their own here, which the programs' theories import.

  \<^bold>\<open>Shared theories.\<close>
  \<^item> \<^verbatim>\<open>C_Prelude\<close>: C memory as the development uses it. Byte buffers with checked loads and stores, byte order,
    strings that end with zero, and the predicate \<^const>\<open>returns\<close> on option values. Throughout, \<open>None\<close> as the result
    of an operation that touches memory is an access C leaves undefined: a null pointer, a freed or unknown
    block, an index outside a buffer. A theorem that an operation returns is therefore also a theorem that it
    stays inside its memory.
  \<^item> \<^verbatim>\<open>C_Output\<close>: output as a list of events (format and arguments of \<^verbatim>\<open>printf\<close>, \<^verbatim>\<open>perror\<close>, other calls), and
    \<^verbatim>\<open>print_data\<close>, the dump of a packet, with the two counter types it has in the programs.
  \<^item> \<^verbatim>\<open>Inet_Checksum\<close>: \<^verbatim>\<open>compute_checksum\<close> and the IP, ICMP, UDP and TCP checksums, compared with the sum
    modulo 65535 of the words of a header. \<^verbatim>\<open>Packet_Bytes\<close>: what a sequence of stores leaves unchanged in a
    packet, and that a stored checksum makes the packet valid.
  \<^item> \<^verbatim>\<open>Step_Systems\<close>: locales for programs that are step relations, with an invariant that holds in every reachable state and a
    weight that makes every run end; \<^verbatim>\<open>Thread_Locks\<close>, \<^verbatim>\<open>Safe_Threads\<close>, \<^verbatim>\<open>Time_Daemon\<close>, \<^verbatim>\<open>Process_Tree\<close>, \<^verbatim>\<open>Pipe_Line\<close> and
    \<^verbatim>\<open>Highload_Clients\<close> rest on them.

  \<^bold>\<open>Programs.\<close>
  \<^item> \<^verbatim>\<open>Node_Source\<close>, \<^verbatim>\<open>Linked_List\<close>: \<^verbatim>\<open>src/list\<close>, \<^verbatim>\<open>list.c\<close>, \<^verbatim>\<open>list_node.c\<close>, \<^verbatim>\<open>list_iterator.c\<close> and \<^verbatim>\<open>benchmark.c\<close>, on
    an explicit store of nodes and list headers. The locale of \<^verbatim>\<open>Node_Source\<close> is the contract of the allocator
    that gives a new node; the main result is that every operation of the library refines one of a
    double-ended queue over HOL lists.
  \<^item> \<^verbatim>\<open>Chunk_Allocator\<close>: \<^verbatim>\<open>src/backup/malloc\<close>, the hooks for \<^verbatim>\<open>malloc\<close> and \<^verbatim>\<open>free\<close> over a chain of chunks, with 64-bit
    sizes. The chain is an invariant of both hooks, returned blocks are disjoint from the used ones, and the
    break goes back to its start when everything is freed.
  \<^item> \<^verbatim>\<open>List_Tests\<close>: \<^verbatim>\<open>src/list/test.c\<close>, the test program of the list library, on the model of the library. It passes.
  \<^item> \<^verbatim>\<open>Pcap_Sniffer\<close>, \<^verbatim>\<open>Sniffer_Main\<close>: \<^verbatim>\<open>src/pcap_sniffer\<close>, in \<^verbatim>\<open>lib/core.c\<close> the handler of a captured packet, the search in its
    data, the printing of headers and of the devices; in \<^verbatim>\<open>src/sniffer.c\<close> the options and the capture.
  \<^item> \<^verbatim>\<open>Icmp_Echo\<close>, \<^verbatim>\<open>Icmp_Ping\<close>, \<^verbatim>\<open>Icmp_Traceroute\<close>: \<^verbatim>\<open>src/icmp_raw_socket_ping\<close> and
    \<^verbatim>\<open>src/icmp_raw_socket_traceroute\<close>: the packets both send, then each program with its options, its loops and
    its report.
  \<^item> \<^verbatim>\<open>Dns_Proxy\<close>: \<^verbatim>\<open>src/dns_proxy_server/dns_proxy_mod.c\<close>, two netfilter hooks and a binary tree of answers; a
    request for a name whose answer has been seen is answered from the tree.
  \<^item> \<^verbatim>\<open>Kernel_Device\<close>, \<^verbatim>\<open>Char_Device\<close>, \<^verbatim>\<open>Ioctl_Device\<close>, \<^verbatim>\<open>Proc_Files\<close>: \<^verbatim>\<open>src/chardev\<close>, \<^verbatim>\<open>src/ioctl\<close> and \<^verbatim>\<open>src/procfs\<close>.
    \<^verbatim>\<open>Kernel_Device\<close> has the locales for a device that one process may open at a time and for a device whose
    operations stay inside their memory; the two drivers interpret them.
  \<^item> \<^verbatim>\<open>Msg_Queue\<close>, \<^verbatim>\<open>Highload_Server\<close>, \<^verbatim>\<open>Highload_Clients\<close>: System V message queues, the locale \<open>relay\<close> for work that passes through
    one, and \<^verbatim>\<open>src/udp_highload_server\<close>, whose threads are steps of a relation and which interprets it, with its client and its benchmark.
  \<^item> \<^verbatim>\<open>Socket_Servers\<close>: the servers with \<^verbatim>\<open>select\<close>, \<^verbatim>\<open>poll\<close> and \<^verbatim>\<open>epoll\<close>, which are interpretations of one locale
    \<open>multiplexer\<close>, the plain TCP and UDP echo servers, and the clients.
  \<^item> \<^verbatim>\<open>Thread_Locks\<close>, \<^verbatim>\<open>Mutex_Counter\<close>, \<^verbatim>\<open>Mutex_Store\<close>: \<^verbatim>\<open>src/mutex\<close> and \<^verbatim>\<open>src/mutex_store\<close>, threads as program counters whose steps
    interleave freely. The locales of \<^verbatim>\<open>Thread_Locks\<close> are the contract of a section guarded by a mutex; mutual exclusion and
    that runs end are proved there once. The counter ends with the exact count, the stores' books balance.
  \<^item> \<^verbatim>\<open>Thread_Data\<close>: \<^verbatim>\<open>get_cur_dt\<close> of the chat and the high-load server and \<^verbatim>\<open>print_n\<close>, whose buffers belong to a thread.
    \<^verbatim>\<open>Safe_Threads\<close>: \<^verbatim>\<open>src/safe_pthread\<close>, the program around \<^verbatim>\<open>print_n\<close>, whose eleven threads interleave at every call of
    the library.
  \<^item> \<^verbatim>\<open>Queue_Chat\<close>: \<^verbatim>\<open>src/queue_chat\<close>, the threads of the server and of a client over System V message queues: clients that
    announce themselves each get the answer meant for them.
  \<^item> \<^verbatim>\<open>Udp_Raw\<close>: \<^verbatim>\<open>src/udp_raw_tl_socket_server\<close>, \<^verbatim>\<open>src/udp_raw_nl_socket_server\<close> and \<^verbatim>\<open>src/udp_raw_dl_socket_server\<close>, clients that
    compose their datagrams from the UDP, the IP or the Ethernet header on. Their servers are the plain UDP echo server.
  \<^item> \<^verbatim>\<open>Netlink_Route\<close>: \<^verbatim>\<open>src/netlink_socket\<close>, the dump of the routing table and the monitor of its changes, on the bytes of the
    messages; parsing is the inverse of the kernel's encoding.
  \<^item> \<^verbatim>\<open>Sctp_Transfer\<close>: \<^verbatim>\<open>src/sctp\<close>, messages and files over the streams of one association. \<^verbatim>\<open>Packet_Hooks\<close>: \<^verbatim>\<open>src/netfilter\<close> and
    \<^verbatim>\<open>src/sk_buff_icmp_module\<close>, the netfilter hook that drops packets to a port and the module that sends a ping.
  \<^item> \<^verbatim>\<open>Dir_Panel\<close>, \<^verbatim>\<open>File_Manager\<close>, \<^verbatim>\<open>File_Copy\<close>: \<^verbatim>\<open>src/file_manager\<close>. \<^verbatim>\<open>Dir_Panel\<close> has the two panels, each a doubly linked list of
    entries in a heap, their invariant, and what is drawn of them: frames, column headers, rows and totals; \<^verbatim>\<open>File_Manager\<close> the
    main loop, which keeps it for all keys, and whose cursor refines an index into a list; \<^verbatim>\<open>File_Copy\<close> the thread that copies
    and the window that shows its progress, which the key F5 starts (a copy may also be undefined, or wait for ever: \<open>Busy\<close>),
    \<^verbatim>\<open>trim\<close> and the dialogs; \<^verbatim>\<open>Window_Layout\<close> where the windows are, and on which screens they can be opened.
  \<^item> \<^verbatim>\<open>Time_Daemon\<close>: \<^verbatim>\<open>src/daemon\<close> and \<^verbatim>\<open>src/named_pipes_&_signal\<close>, processes that find each other through a named pipe and talk
    by signals, as a relation whose steps are their system calls. \<^verbatim>\<open>Process_Tree\<close>: \<^verbatim>\<open>src/fork\<close> and \<^verbatim>\<open>src/fork_exec\<close>, trees of
    processes with their output buffers; every run ends, and what it writes does not depend on the order.
  \<^item> \<^verbatim>\<open>Netlink_Hello\<close>: \<^verbatim>\<open>src/netlink+kernel\<close>, a module that answers netlink messages, and its program. \<^verbatim>\<open>Inc_Prev\<close>: \<^verbatim>\<open>src/inc_prev\<close>, the
    module that raises a process's credentials. \<^verbatim>\<open>Udp_Cast\<close>: \<^verbatim>\<open>src/udp_broadcast_server\<close> and \<^verbatim>\<open>src/udp_multicast_server\<close>, whose
    clients print whatever subset of the datagrams reaches them.

  \<^item> \<^verbatim>\<open>Panel_Directory\<close>: an invariant across the file manager's whole loop: the current directory of the process is that of the active
    panel, which all its operations with relative names rely on. \<^verbatim>\<open>First_File_Manager\<close>: its first two versions,
    \<^verbatim>\<open>src/backup/fm_0\<close> and \<^verbatim>\<open>src/backup/fm_1\<close>, with singly linked lists; they stay inside their memory.
    \<^verbatim>\<open>Middle_File_Managers\<close>: \<^verbatim>\<open>src/backup/fm_2\<close> and \<^verbatim>\<open>src/backup/fm_3\<close>, the latter compared with the current version: on the
    keys both have, they do the same and draw the same but for the characters of lines, the place of a number and a title. \<^verbatim>\<open>Form_Examples\<close>: \<^verbatim>\<open>src/ncurses_form\<close> and \<^verbatim>\<open>src/backup/fm_3/fields_magic.c\<close>, forms and
    what they print of their fields.
  \<^item> \<^verbatim>\<open>Pipe_Line\<close>: \<^verbatim>\<open>src/unnamed_pipes\<close>, three processes around a pipe, as a relation on descriptors, buffers and states; every run
    ends, with the whole listing read by the second program, or, if the undefined call of \<^verbatim>\<open>waitpid\<close> waits, in a deadlock
    when the listing is larger than the pipe.
  \<^item> \<^verbatim>\<open>Complex_Calc\<close>: \<^verbatim>\<open>src/backup/calc_1\<close>, plugins that calculate with complex numbers, their loading and the menu; and the
    selection of files of \<^verbatim>\<open>src/backup/calc_0\<close>. \<^verbatim>\<open>Small_Examples\<close>: the modules of \<^verbatim>\<open>src/hello\<close>, \<^verbatim>\<open>src/backup/struct\<close> and
    \<^verbatim>\<open>src/backup/define\<close>.

  \<^bold>\<open>Conventions.\<close> Definitions keep the names of the source. Results of system calls and of the kernel's
  functions are arguments. An infinite loop of a program is a function on the list of what its calls return,
  one entry for each turn, or a step relation; loops that C bounds are recursive functions with a termination
  proof, or fuel that the calling definition sets to the bound the C loop has. Integers have their C width
  wherever they can wrap (sizes of the allocator, checksums, sequence numbers, counters).

  \<^bold>\<open>Not modelled.\<close> Drawing with ncurses beyond the calls that put text and lines (colours, attributes and refreshing), the formatting of numbers by \<^verbatim>\<open>printf\<close>, rounding of
  floating-point numbers, and signals other than the ones named above. Copies of code that is modelled where it stands first: the
  clients of the multiplexed servers, the servers of the raw UDP clients and the functions that their library shares with the
  sniffer, and the window code of the chat client, which it does not call. \<^verbatim>\<open>src/backup/calc_0/src/main.c\<close> except one function:
  it does not compile.
\<close>

end
